(* ===== verification/Prelude.thy ===== *)
theory Prelude
  imports Main "HOL-Library.Word" "HOL-Library.Monad_Syntax"
begin

unbundle bit_operations_syntax

text \<open>
  Shared vocabulary of the development: the C integer types of \<open>OS_types.h\<close> as words of
  their width, pointers as optional indices, and generic facts on words seen as bit sets, on
  counters that wrap, and on the option monad.

  A C expression whose value the language leaves undefined (a null pointer that is followed, an
  array read past its end) has no value: the model of a function that can reach one returns an
  \<open>option\<close>, and \<open>None\<close> stands for the undefined run. Every theorem that says what a
  function returns therefore also says that no such access is made.
\<close>

type_synonym u8 = "8 word"
type_synonym u16 = "16 word"
type_synonym u32 = "32 word"
type_synonym u64 = "64 word"

text \<open>A pointer into one of the kernel's tables is the index of the entry, or the null pointer.\<close>

type_synonym ptr = "nat option"

abbreviation NULL :: ptr where "NULL \<equiv> None"

named_theorems bits \<open>membership of single bits in priority lists\<close>
named_theorems frame \<open>components that an operation leaves alone\<close>
named_theorems opdefs \<open>definitions of small kernel operations that proofs unfold\<close>

subsection \<open>Words as sets of bits\<close>

text \<open>The set of priorities a list word holds.\<close>

definition prios :: "u32 \<Rightarrow> nat set" where
  "prios w = {i. bit w i}"

lemma prios_iff [bits]: "i \<in> prios w \<longleftrightarrow> bit w i"
  by (simp add: prios_def)

lemma prios_bound: "prios w \<subseteq> {..<32}"
  by (auto simp: prios_def dest: bit_imp_le_length)

lemma prios_finite [simp]: "finite (prios w)"
  using prios_bound finite_subset by blast

lemma prios_0 [simp]: "prios 0 = {}"
  by (simp add: prios_def)

lemma prios_eqI: "prios v = prios w \<Longrightarrow> v = w"
  by (rule bit_word_eqI) (auto simp: prios_def)

lemma prios_empty_iff [simp]: "prios w = {} \<longleftrightarrow> w = 0"
  using prios_eqI [of w 0] by auto

lemma prios_or: "prios (v OR w) = prios v \<union> prios w"
  by (auto simp: prios_def bit_or_iff)

lemma prios_and: "prios (v AND w) = prios v \<inter> prios w"
  by (auto simp: prios_def bit_and_iff)

text \<open>
  The highest bit of a word that lies between two consecutive powers of two.
\<close>

lemma highest_bit_between:
  fixes w :: u32
  assumes "2 ^ k \<le> unat w" and "unat w < 2 ^ Suc k"
  shows "bit w k \<and> (\<forall>i. bit w i \<longrightarrow> i \<le> k)"
proof -
  have div1: "unat w div 2 ^ k = 1"
  proof -
    have "unat w div 2 ^ k < 2" using assms(2) by (simp add: less_mult_imp_div_less)
    moreover have "0 < unat w div 2 ^ k" using assms(1) by (simp add: div_greater_zero_iff)
    ultimately show ?thesis by simp
  qed
  have "bit (unat w) k" using div1 by (simp add: bit_nat_def)
  moreover have "i \<le> k" if "bit (unat w) i" for i
  proof (rule ccontr)
    assume "\<not> i \<le> k"
    then have "(2::nat) ^ Suc k \<le> 2 ^ i" by (intro power_increasing) auto
    then have "unat w div 2 ^ i = 0" using assms(2) by simp
    then show False using that by (simp add: bit_nat_def)
  qed
  ultimately show ?thesis by (simp add: bit_unsigned_iff)
qed

lemma highest_bit_is_Max:
  fixes w :: u32
  assumes "bit w k" and "\<And>i. bit w i \<Longrightarrow> i \<le> k"
  shows "Max (prios w) = k"
  by (rule Max_eqI) (auto simp: bits assms)

subsection \<open>Byte counters\<close>

lemma unat_u32_less: "unat (w :: u32) < 4294967296"
  using unsigned_less [of w, where ?'a = nat] by simp

lemma unat_u16_less: "unat (w :: u16) < 65536"
  using unsigned_less [of w, where ?'a = nat] by simp

lemma unat_u8_less: "unat (w :: u8) < 256"
  using unsigned_less [of w, where ?'a = nat] by simp

lemma unat_inc_u8: "unat (x :: u8) < 255 \<Longrightarrow> unat (x + 1) = Suc (unat x)"
  by (simp add: unat_word_ariths)

lemma unat_dec_u8: "x \<noteq> (0 :: u8) \<Longrightarrow> unat (x - 1) = unat x - 1"
  by (metis unat_minus_one)

lemma inc_dec_u8 [simp]: "(x :: u8) + 1 - 1 = x"
  by simp

lemma unat_inc_u16: "unat (x :: u16) < 65535 \<Longrightarrow> unat (x + 1) = Suc (unat x)"
  by (simp add: unat_word_ariths)

lemma unat_dec_u16: "x \<noteq> (0 :: u16) \<Longrightarrow> unat (x - 1) = unat x - 1"
  by (metis unat_minus_one)

lemma unat_of_nat_u8: "n < 256 \<Longrightarrow> unat (word_of_nat n :: u8) = n"
  by (simp add: unsigned_of_nat take_bit_nat_eq_self)

lemma unat_of_nat_u16: "n < 65536 \<Longrightarrow> unat (word_of_nat n :: u16) = n"
  by (simp add: unsigned_of_nat take_bit_nat_eq_self)

lemma unat_of_nat_u32: "n < 4294967296 \<Longrightarrow> unat (word_of_nat n :: u32) = n"
  by (simp add: unsigned_of_nat take_bit_nat_eq_self)

subsection \<open>The option monad\<close>

lemma bind_Some_iff: "Option.bind m f = Some y \<longleftrightarrow> (\<exists>x. m = Some x \<and> f x = Some y)"
  by (cases m) auto

lemma if_Some_None_iff [simp]: "(if c then Some x else None) = Some y \<longleftrightarrow> c \<and> x = y"
  by auto

end
