(* ===== verification/Kernel_State.thy ===== *)
theory Kernel_State
  imports Prelude
begin

text \<open>
  The data of the kernel: the constants of \<open>BRTOS.h\<close> and of the simulator's
  \<open>BRTOSConfig.h\<close>, the control blocks, and the global variables of \<open>BRTOS.c\<close> together
  with the interrupt variables of the Windows port, gathered in one record.

  The build modelled is the simulator's: 32 priorities, \<open>ostick_t\<close> is \<open>uint16_t\<close>,
  \<open>OS_CPU_TYPE\<close> is \<open>INT32U\<close>, static tasks, \<open>VERBOSE\<close> and \<open>OSTRACE\<close> off,
  \<open>NESTING_INT\<close> on. \<open>ERROR_CHECK\<close> is kept as a field that no operation changes, so that
  both settings of the checks are covered.
\<close>

subsection \<open>Build configuration\<close>

definition NUMBER_OF_TASKS :: nat where "NUMBER_OF_TASKS = 10"
definition configMAX_TASK_INSTALL :: nat where "configMAX_TASK_INSTALL = 32"
definition configMAX_TASK_PRIORITY :: u8 where "configMAX_TASK_PRIORITY = 31"
definition BRTOS_MAX_SEM :: nat where "BRTOS_MAX_SEM = 20"
definition BRTOS_MAX_MUTEX :: nat where "BRTOS_MAX_MUTEX = 10"
definition BRTOS_MAX_MBOX :: nat where "BRTOS_MAX_MBOX = 5"
definition BRTOS_MAX_QUEUE :: nat where "BRTOS_MAX_QUEUE = 20"
definition configTICK_RATE_HZ :: u32 where "configTICK_RATE_HZ = 1000"
definition IDLE_STACK_SIZE :: u16 where "IDLE_STACK_SIZE = 8"
definition HEAP_SIZE :: nat where "HEAP_SIZE = 256"
definition QUEUE_HEAP_SIZE :: nat where "QUEUE_HEAP_SIZE = 8 * 128"
definition NUMBER_MIN_OF_STACKED_BYTES :: u16 where "NUMBER_MIN_OF_STACKED_BYTES = 8"
definition sizeof_OS_CPU_TYPE :: nat where "sizeof_OS_CPU_TYPE = 4"

named_theorems config \<open>the build's constants\<close>

lemmas [config] =
  NUMBER_OF_TASKS_def configMAX_TASK_INSTALL_def configMAX_TASK_PRIORITY_def BRTOS_MAX_SEM_def
  BRTOS_MAX_MUTEX_def BRTOS_MAX_MBOX_def BRTOS_MAX_QUEUE_def configTICK_RATE_HZ_def
  IDLE_STACK_SIZE_def HEAP_SIZE_def QUEUE_HEAP_SIZE_def NUMBER_MIN_OF_STACKED_BYTES_def
  sizeof_OS_CPU_TYPE_def

subsection \<open>Constants of the kernel\<close>

definition MUTEX_PRIO :: u8 where "MUTEX_PRIO = 0xFE"
definition EMPTY_PRIO :: u8 where "EMPTY_PRIO = 0xFF"

text \<open>
  \<open>ostick_t\<close> and the fixed width types are no macros, so the preprocessor reads the first
  condition of \<open>MAX_TIMER\<close> as \<open>0 == 0\<close>; the casts to \<open>ostick_t\<close> cut the 64-bit value
  to the same 16 bits.
\<close>

definition MAX_TIMER :: u64 where "MAX_TIMER = 0xffffffffffffffff"
definition NO_TIMEOUT :: u16 where "NO_TIMEOUT = ucast (MAX_TIMER - 1)"
definition EXIT_BY_TIMEOUT :: u16 where "EXIT_BY_TIMEOUT = ucast (MAX_TIMER - 2)"
definition TICK_COUNT_OVERFLOW :: u16 where "TICK_COUNT_OVERFLOW = ucast (MAX_TIMER - 3)"

lemma NO_TIMEOUT_val [config]: "NO_TIMEOUT = 0xFFFE"
  by (simp add: NO_TIMEOUT_def MAX_TIMER_def)

lemma EXIT_BY_TIMEOUT_val [config]: "EXIT_BY_TIMEOUT = 0xFFFD"
  by (simp add: EXIT_BY_TIMEOUT_def MAX_TIMER_def)

lemma TICK_COUNT_OVERFLOW_val [config]: "TICK_COUNT_OVERFLOW = 0xFFFC"
  by (simp add: TICK_COUNT_OVERFLOW_def MAX_TIMER_def)

definition OK :: u8 where "OK = 0"
definition NO_MEMORY :: u8 where "NO_MEMORY = 1"
definition STACK_SIZE_TOO_SMALL :: u8 where "STACK_SIZE_TOO_SMALL = 2"
definition END_OF_AVAILABLE_PRIORITIES :: u8 where "END_OF_AVAILABLE_PRIORITIES = 3"
definition BUSY_PRIORITY :: u8 where "BUSY_PRIORITY = 4"
definition INVALID_TIME :: u8 where "INVALID_TIME = 5"
definition TIMEOUT :: u8 where "TIMEOUT = 6"
definition CANNOT_ASSIGN_IDLE_TASK_PRIO :: u8 where "CANNOT_ASSIGN_IDLE_TASK_PRIO = 7"
definition NOT_VALID_TASK :: u8 where "NOT_VALID_TASK = 8"
definition NO_TASK_DELAY :: u8 where "NO_TASK_DELAY = 9"
definition END_OF_AVAILABLE_TCB :: u8 where "END_OF_AVAILABLE_TCB = 10"
definition EXIT_BY_NO_ENTRY_AVAILABLE :: u8 where "EXIT_BY_NO_ENTRY_AVAILABLE = 11"
definition EXIT_BY_NO_RESOURCE_AVAILABLE :: u8 where "EXIT_BY_NO_RESOURCE_AVAILABLE = 14"

definition ALLOC_EVENT_OK :: u8 where "ALLOC_EVENT_OK = 0"
definition NO_AVAILABLE_EVENT :: u8 where "NO_AVAILABLE_EVENT = 1"
definition IRQ_PEND_ERR :: u8 where "IRQ_PEND_ERR = 4"
definition ERR_SEM_OVF :: u8 where "ERR_SEM_OVF = 5"
definition ERR_EVENT_NO_CREATED :: u8 where "ERR_EVENT_NO_CREATED = 7"
definition NULL_EVENT_POINTER :: u8 where "NULL_EVENT_POINTER = 8"
definition ERR_EVENT_OWNER :: u8 where "ERR_EVENT_OWNER = 9"
definition DELETE_EVENT_OK :: u8 where "DELETE_EVENT_OK = 10"
definition AVAILABLE_RESOURCE :: u8 where "AVAILABLE_RESOURCE = 11"
definition BUSY_RESOURCE :: u8 where "BUSY_RESOURCE = 12"
definition AVAILABLE_MESSAGE :: u8 where "AVAILABLE_MESSAGE = 13"
definition NO_MESSAGE :: u8 where "NO_MESSAGE = 14"

definition READ_BUFFER_OK :: u8 where "READ_BUFFER_OK = 0"
definition WRITE_BUFFER_OK :: u8 where "WRITE_BUFFER_OK = 0"
definition BUFFER_UNDERRUN :: u8 where "BUFFER_UNDERRUN = 1"
definition CLEAN_BUFFER_OK :: u8 where "CLEAN_BUFFER_OK = 2"
definition NO_ENTRY_AVAILABLE :: u8 where "NO_ENTRY_AVAILABLE = 3"

named_theorems codes \<open>numeric values of the return codes\<close>

lemmas [codes] =
  MUTEX_PRIO_def EMPTY_PRIO_def OK_def NO_MEMORY_def STACK_SIZE_TOO_SMALL_def
  END_OF_AVAILABLE_PRIORITIES_def BUSY_PRIORITY_def INVALID_TIME_def TIMEOUT_def
  CANNOT_ASSIGN_IDLE_TASK_PRIO_def NOT_VALID_TASK_def NO_TASK_DELAY_def END_OF_AVAILABLE_TCB_def
  EXIT_BY_NO_ENTRY_AVAILABLE_def EXIT_BY_NO_RESOURCE_AVAILABLE_def ALLOC_EVENT_OK_def
  NO_AVAILABLE_EVENT_def IRQ_PEND_ERR_def ERR_SEM_OVF_def ERR_EVENT_NO_CREATED_def
  NULL_EVENT_POINTER_def ERR_EVENT_OWNER_def DELETE_EVENT_OK_def AVAILABLE_RESOURCE_def
  BUSY_RESOURCE_def AVAILABLE_MESSAGE_def NO_MESSAGE_def READ_BUFFER_OK_def WRITE_BUFFER_OK_def
  BUFFER_UNDERRUN_def CLEAN_BUFFER_OK_def NO_ENTRY_AVAILABLE_def

subsection \<open>Control blocks\<close>

text \<open>The code of a task; only the idle task's entry point is compared by the kernel.\<close>

datatype task_code = Idle | UserTask nat

text \<open>\<open>struct Context\<close>: the task control block. \<open>Next\<close> and \<open>Previous\<close> link the delay list.\<close>

record ContextType =
  TaskName :: string
  StackPoint :: u32
  StackInit :: u32
  TimeToWait :: u16
  Priority :: u8
  Next :: ptr
  Previous :: ptr

text \<open>
  The four event control blocks share their allocation mark, the counter of waiting tasks and the
  wait list, which are the fields of \<open>event\<close>; each block extends it with its own.
\<close>

record event =
  OSEventAllocated :: u8
  OSEventWait :: u8
  OSEventWaitList :: u32

record BRTOS_Sem = event +
  OSEventCount :: u8
  Binary :: u8

record BRTOS_Mutex = event +
  OSEventState :: u8
  OSEventOwner :: u8
  OSMaxPriority :: u8
  OSOriginalPriority :: u8

record BRTOS_Mbox = event +
  OSEventState_mb :: u8
  OSEventPointer :: ptr

record BRTOS_Queue = event +
  OSEventCount_q :: u8
  OSEventPointer_q :: ptr

text \<open>
  \<open>OS_QUEUE\<close>: the ring of a queue. Its four pointers are byte offsets into the queue heap
  \<open>QUEUE_STACK\<close>.
\<close>

record OS_QUEUE =
  OSQStart :: nat
  OSQEnd :: nat
  OSQIn :: nat
  OSQOut :: nat
  OSQSize :: u16
  OSQEntries :: u16

text \<open>The handlers the port installs in \<open>IsrHandler\<close>.\<close>

datatype isr = ISR_NONE | ISR_SwitchContext | ISR_TickTimer | ISR_UARTHandler

subsection \<open>Global variables\<close>

text \<open>
  Arrays are functions of the index; the accessors below refuse an index past the end. The last
  five fields belong to \<open>HAL.c\<close> and \<open>UARTx.c\<close> of the Windows port: \<open>InterruptEventMutex\<close> says
  whether the mutex was created, \<open>InterruptEvent\<close> whether the event is signalled.
\<close>

record kernel =
  ERROR_CHECK :: bool
  PriorityVector :: "nat \<Rightarrow> u8"
  iStackAddress :: u16
  iQueueAddress :: u16
  StackAddress :: u32
  NumberOfInstalledTasks :: u8
  currentTask :: u8
  SelectedTask :: u8
  OSReadyList :: u32
  OSBlockedList :: u32
  OSTickCounter :: u16
  OSDuty :: u32
  OSDutyTmp :: u32
  LastOSDuty :: u16
  DutyCnt :: u16
  TaskAlloc :: u32
  iNesting :: u8
  Tail :: ptr
  Head :: ptr
  BRTOS_Sem_Table :: "nat \<Rightarrow> BRTOS_Sem"
  BRTOS_Mutex_Table :: "nat \<Rightarrow> BRTOS_Mutex"
  BRTOS_Mbox_Table :: "nat \<Rightarrow> BRTOS_Mbox"
  BRTOS_Queue_Table :: "nat \<Rightarrow> BRTOS_Queue"
  BRTOS_OS_QUEUE_Table :: "nat \<Rightarrow> OS_QUEUE"
  QUEUE_STACK :: "nat \<Rightarrow> u8"
  ContextTask :: "nat \<Rightarrow> ContextType"
  SPvalue :: u32
  PendingInterrupts :: u32
  InterruptEventMutex :: bool
  InterruptEvent :: bool
  IsrHandler :: "nat \<Rightarrow> isr"
  UART_RX_buffer :: u8
  SerialQ :: ptr

subsection \<open>Array accesses\<close>

definition PriorityMask_table :: "u32 list" where
  "PriorityMask_table =
    [0x01, 0x02, 0x04, 0x08, 0x10, 0x20, 0x40, 0x80, 0x0100, 0x0200, 0x0400, 0x0800, 0x1000,
     0x2000, 0x4000, 0x8000, 0x010000, 0x020000, 0x040000, 0x080000, 0x100000, 0x200000,
     0x400000, 0x800000, 0x01000000, 0x02000000, 0x04000000, 0x08000000, 0x10000000,
     0x20000000, 0x40000000, 0x80000000]"

definition PriorityMask :: "u8 \<Rightarrow> u32 option" where
  "PriorityMask p =
    (if unat p < length PriorityMask_table then Some (PriorityMask_table ! unat p) else None)"

definition prio_at :: "u8 \<Rightarrow> kernel \<Rightarrow> u8 option" where
  "prio_at p k = (if unat p < configMAX_TASK_INSTALL then Some (PriorityVector k (unat p)) else None)"

text \<open>\<open>ContextTask[NUMBER_OF_TASKS + 1]\<close>, entry 0 unused.\<close>

definition task_at :: "nat \<Rightarrow> kernel \<Rightarrow> ContextType option" where
  "task_at t k = (if t \<le> NUMBER_OF_TASKS then Some (ContextTask k t) else None)"

definition upd_task :: "nat \<Rightarrow> (ContextType \<Rightarrow> ContextType) \<Rightarrow> kernel \<Rightarrow> kernel" where
  "upd_task t f k = k\<lparr>ContextTask := (ContextTask k)(t := f (ContextTask k t))\<rparr>"

definition deref :: "nat \<Rightarrow> (nat \<Rightarrow> 'e) \<Rightarrow> ptr \<Rightarrow> 'e option" where
  "deref n tab p = (case p of None \<Rightarrow> None | Some i \<Rightarrow> if i < n then Some (tab i) else None)"

lemma deref_simps [simp]:
  "deref n tab NULL = None"
  "i < n \<Longrightarrow> deref n tab (Some i) = Some (tab i)"
  by (simp_all add: deref_def)

lemma length_PriorityMask_table [simp]: "length PriorityMask_table = 32"
  by (simp add: PriorityMask_table_def)

text \<open>The mask of one priority, as a word with that single bit.\<close>

definition pbit :: "nat \<Rightarrow> u32" where
  "pbit p = push_bit p 1"

lemma PriorityMask_table_nth:
  assumes "p < 32" shows "PriorityMask_table ! p = pbit p"
proof -
  have "\<forall>p \<in> set [0..<32]. PriorityMask_table ! p = pbit p"
    unfolding PriorityMask_table_def pbit_def by code_simp
  with assms show ?thesis by simp
qed

lemma PriorityMask_Some:
  "unat p < 32 \<Longrightarrow> PriorityMask p = Some (pbit (unat p))"
  by (simp add: PriorityMask_def PriorityMask_table_nth)

lemma PriorityMask_None: "\<not> unat p < 32 \<Longrightarrow> PriorityMask p = None"
  by (simp add: PriorityMask_def)

lemma PriorityMask_iff:
  "PriorityMask p = Some m \<longleftrightarrow> unat p < 32 \<and> m = pbit (unat p)"
  by (auto simp: PriorityMask_def PriorityMask_table_nth)

subsection \<open>Setting and clearing one priority in a list\<close>

lemma bit_mask32 [bits]: "bit (pbit p) i \<longleftrightarrow> i = p \<and> p < 32"
  by (auto simp: pbit_def bit_exp_iff)

lemma prios_pbit: "p < 32 \<Longrightarrow> prios (pbit p) = {p}"
  by (auto simp: prios_def bits)

lemma prios_set: "p < 32 \<Longrightarrow> prios (w OR pbit p) = insert p (prios w)"
  by (auto simp: prios_def bit_or_iff bits)

lemma prios_clear: "p < 32 \<Longrightarrow> prios (w AND NOT (pbit p)) = prios w - {p}"
  by (auto simp: prios_def bit_and_iff bit_not_iff bits dest: bit_imp_le_length)

lemma and_mask_eq_0: "p < 32 \<Longrightarrow> w AND pbit p = (0 :: u32) \<longleftrightarrow> \<not> bit w p"
  by (simp add: prios_empty_iff [symmetric] prios_and prios_pbit del: prios_empty_iff) (simp add: bits)

lemma set_clear_id: "p < 32 \<Longrightarrow> \<not> bit w p \<Longrightarrow> (w OR pbit p) AND NOT (pbit p) = (w :: u32)"
  by (rule prios_eqI) (auto simp: prios_set prios_clear bits)

lemma clear_set_id: "p < 32 \<Longrightarrow> bit w p \<Longrightarrow> (w AND NOT (pbit p)) OR pbit p = (w :: u32)"
  by (rule prios_eqI) (auto simp: prios_set prios_clear bits)

lemma card_prios_set:
  "p < 32 \<Longrightarrow> p \<notin> prios w \<Longrightarrow> card (prios (w OR pbit p)) = Suc (card (prios w))"
  by (simp add: prios_set)

lemma card_prios_clear:
  "p < 32 \<Longrightarrow> p \<in> prios w \<Longrightarrow> card (prios (w AND NOT (pbit p))) = card (prios w) - 1"
  by (simp add: prios_clear)

lemma card_prios_le: "card (prios w) \<le> 32"
  using card_mono [OF finite_lessThan prios_bound] by simp

subsection \<open>Updates of one control block\<close>

lemma upd_task_frame [simp]:
  "ERROR_CHECK (upd_task t f k) = ERROR_CHECK k"
  "PriorityVector (upd_task t f k) = PriorityVector k"
  "iStackAddress (upd_task t f k) = iStackAddress k"
  "iQueueAddress (upd_task t f k) = iQueueAddress k"
  "StackAddress (upd_task t f k) = StackAddress k"
  "NumberOfInstalledTasks (upd_task t f k) = NumberOfInstalledTasks k"
  "currentTask (upd_task t f k) = currentTask k"
  "SelectedTask (upd_task t f k) = SelectedTask k"
  "OSReadyList (upd_task t f k) = OSReadyList k"
  "OSBlockedList (upd_task t f k) = OSBlockedList k"
  "OSTickCounter (upd_task t f k) = OSTickCounter k"
  "OSDuty (upd_task t f k) = OSDuty k"
  "OSDutyTmp (upd_task t f k) = OSDutyTmp k"
  "LastOSDuty (upd_task t f k) = LastOSDuty k"
  "DutyCnt (upd_task t f k) = DutyCnt k"
  "TaskAlloc (upd_task t f k) = TaskAlloc k"
  "iNesting (upd_task t f k) = iNesting k"
  "Tail (upd_task t f k) = Tail k"
  "Head (upd_task t f k) = Head k"
  "BRTOS_Sem_Table (upd_task t f k) = BRTOS_Sem_Table k"
  "BRTOS_Mutex_Table (upd_task t f k) = BRTOS_Mutex_Table k"
  "BRTOS_Mbox_Table (upd_task t f k) = BRTOS_Mbox_Table k"
  "BRTOS_Queue_Table (upd_task t f k) = BRTOS_Queue_Table k"
  "BRTOS_OS_QUEUE_Table (upd_task t f k) = BRTOS_OS_QUEUE_Table k"
  "QUEUE_STACK (upd_task t f k) = QUEUE_STACK k"
  "SPvalue (upd_task t f k) = SPvalue k"
  "PendingInterrupts (upd_task t f k) = PendingInterrupts k"
  "InterruptEventMutex (upd_task t f k) = InterruptEventMutex k"
  "InterruptEvent (upd_task t f k) = InterruptEvent k"
  "IsrHandler (upd_task t f k) = IsrHandler k"
  "UART_RX_buffer (upd_task t f k) = UART_RX_buffer k"
  "SerialQ (upd_task t f k) = SerialQ k"
  by (simp_all add: upd_task_def)

lemma ContextTask_upd_task [simp]:
  "ContextTask (upd_task t f k) u = (if u = t then f (ContextTask k t) else ContextTask k u)"
  by (simp add: upd_task_def)

end
