(* ===== verification/Scheduler.thy ===== *)
theory Scheduler
  imports Kernel_State
begin

text \<open>
  The scheduler of \<open>BRTOS.c\<close>: the decision tree \<open>SAScheduler\<close> (successive approximation), which
  finds the highest priority in a list word, and \<open>OSSchedule\<close>. The tree is cut at its two outer
  tests into the ranges 31..16, 15..8 and 7..0.
\<close>

definition SAScheduler_31_16 :: "u32 \<Rightarrow> u8" where
  "SAScheduler_31_16 ReadyList =
    (if ReadyList > 0xFFFFFF then
       if ReadyList > 0xFFFFFFF then
         if ReadyList > 0x3FFFFFFF then (if ReadyList > 0x7FFFFFFF then 31 else 30)
         else (if ReadyList > 0x1FFFFFFF then 29 else 28)
       else
         if ReadyList > 0x3FFFFFF then (if ReadyList > 0x7FFFFFF then 27 else 26)
         else (if ReadyList > 0x1FFFFFF then 25 else 24)
     else
       if ReadyList > 0xFFFFF then
         if ReadyList > 0x3FFFFF then (if ReadyList > 0x7FFFFF then 23 else 22)
         else (if ReadyList > 0x1FFFFF then 21 else 20)
       else
         if ReadyList > 0x3FFFF then (if ReadyList > 0x7FFFF then 19 else 18)
         else (if ReadyList > 0x1FFFF then 17 else 16))"

definition SAScheduler_15_8 :: "u32 \<Rightarrow> u8" where
  "SAScheduler_15_8 ReadyList =
    (if ReadyList > 0xFFF then
       if ReadyList > 0x3FFF then (if ReadyList > 0x7FFF then 15 else 14)
       else (if ReadyList > 0x1FFF then 13 else 12)
     else
       if ReadyList > 0x3FF then (if ReadyList > 0x7FF then 11 else 10)
       else (if ReadyList > 0x1FF then 9 else 8))"

definition SAScheduler_7_0 :: "u32 \<Rightarrow> u8" where
  "SAScheduler_7_0 ReadyList =
    (if ReadyList > 0x0F then
       if ReadyList > 0x3F then (if ReadyList > 0x7F then 7 else 6)
       else (if ReadyList > 0x1F then 5 else 4)
     else
       if ReadyList > 0x03 then (if ReadyList > 0x07 then 3 else 2)
       else (if ReadyList > 0x1 then 1 else 0))"

definition SAScheduler :: "u32 \<Rightarrow> u8" where
  "SAScheduler ReadyList =
    (if ReadyList > 0xFFFF then SAScheduler_31_16 ReadyList
     else if ReadyList > 0xFF then SAScheduler_15_8 ReadyList
     else SAScheduler_7_0 ReadyList)"

text \<open>
  \<open>OSSchedule\<close> reads the entry of \<open>PriorityVector\<close> at the priority it selects; \<open>SAScheduler\<close> never
  exceeds 31, so the access is in range.
\<close>

definition OSSchedule :: "kernel \<Rightarrow> u8" where
  "OSSchedule k =
    (let Priority = SAScheduler (OSReadyList k AND OSBlockedList k)
     in PriorityVector k (unat Priority))"

definition OSGetCurrentTaskHandle :: "kernel \<Rightarrow> u32" where
  "OSGetCurrentTaskHandle k = ucast (currentTask k)"

definition OSGetTaskPriority :: "u32 \<Rightarrow> kernel \<Rightarrow> u32 option" where
  "OSGetTaskPriority task_handle k =
    do { task \<leftarrow> task_at (unat task_handle) k; Some (ucast (Priority task)) }"

subsection \<open>The tree finds the highest bit\<close>

text \<open>
  One leaf of the tree: the tests on its path place the word between two consecutive powers of two.
\<close>

definition in_leaf :: "u32 \<Rightarrow> u8 \<Rightarrow> bool" where
  "in_leaf w p \<longleftrightarrow> 2 ^ unat p \<le> unat w \<and> unat w < 2 ^ Suc (unat p)"

lemma in_leaf_if: "(c \<Longrightarrow> in_leaf w p) \<Longrightarrow> (\<not> c \<Longrightarrow> in_leaf w q) \<Longrightarrow> in_leaf w (if c then p else q)"
  by simp

lemma SAScheduler_7_0_leaf: "0 < w \<Longrightarrow> \<not> w > 0xFF \<Longrightarrow> in_leaf w (SAScheduler_7_0 w)"
  unfolding SAScheduler_7_0_def
  by (intro in_leaf_if; simp add: in_leaf_def word_less_nat_alt)

lemma SAScheduler_15_8_leaf: "w > 0xFF \<Longrightarrow> \<not> w > 0xFFFF \<Longrightarrow> in_leaf w (SAScheduler_15_8 w)"
  unfolding SAScheduler_15_8_def
  by (intro in_leaf_if; simp add: in_leaf_def word_less_nat_alt)

lemma SAScheduler_31_16_leaf: "w > 0xFFFF \<Longrightarrow> in_leaf w (SAScheduler_31_16 w)"
  unfolding SAScheduler_31_16_def using unat_u32_less [of w]
  by (intro in_leaf_if; simp add: in_leaf_def word_less_nat_alt)

lemma SAScheduler_bounds:
  assumes "w \<noteq> 0"
  shows "2 ^ unat (SAScheduler w) \<le> unat w \<and> unat w < 2 ^ Suc (unat (SAScheduler w))"
proof -
  have "0 < w" using assms by (simp add: word_neq_0_conv)
  then have "in_leaf w (SAScheduler w)"
    unfolding SAScheduler_def
    by (intro in_leaf_if) (auto intro: SAScheduler_31_16_leaf SAScheduler_15_8_leaf SAScheduler_7_0_leaf)
  then show ?thesis by (simp add: in_leaf_def)
qed

lemma SAScheduler_zero [simp]: "SAScheduler 0 = 0"
  by (simp add: SAScheduler_def SAScheduler_7_0_def)

lemma SAScheduler_less_32: "unat (SAScheduler w) < 32"
proof (cases "w = 0")
  case False
  then have "bit w (unat (SAScheduler w))"
    using highest_bit_between SAScheduler_bounds by blast
  then show ?thesis by (simp add: bit_imp_le_length [of w, simplified])
qed simp

lemma SAScheduler_bit: "w \<noteq> 0 \<Longrightarrow> bit w (unat (SAScheduler w))"
  and SAScheduler_ge: "w \<noteq> 0 \<Longrightarrow> bit w i \<Longrightarrow> i \<le> unat (SAScheduler w)"
  using highest_bit_between [of "unat (SAScheduler w)" w] SAScheduler_bounds [of w] by auto

lemma SAScheduler_mem: "w \<noteq> 0 \<Longrightarrow> unat (SAScheduler w) \<in> prios w"
  by (simp add: bits SAScheduler_bit)

lemma SAScheduler_Max: "w \<noteq> 0 \<Longrightarrow> unat (SAScheduler w) = Max (prios w)"
  using highest_bit_is_Max [of w "unat (SAScheduler w)"] SAScheduler_bit [of w] SAScheduler_ge [of w] by auto

lemma SAScheduler_unique:
  assumes "bit w p" and "\<And>i. bit w i \<Longrightarrow> i \<le> p"
  shows "unat (SAScheduler w) = p"
proof -
  have "w \<noteq> 0" using assms(1) by auto
  then show ?thesis using assms SAScheduler_bit [of w] SAScheduler_ge [of w p] by (meson le_antisym)
qed

text \<open>\<open>OSSchedule\<close> as the code reads it, with the array access checked.\<close>

lemma OSSchedule_prio_at:
  "prio_at (SAScheduler (OSReadyList k AND OSBlockedList k)) k = Some (OSSchedule k)"
  using SAScheduler_less_32 [of "OSReadyList k AND OSBlockedList k"]
  by (simp add: prio_at_def OSSchedule_def config)

lemma PriorityMask_SAScheduler:
  "PriorityMask (SAScheduler w) = Some (pbit (unat (SAScheduler w)))"
  by (simp add: PriorityMask_Some SAScheduler_less_32)

text \<open>
  C1. \<open>SAScheduler\<close> returns the highest priority present in a non-empty list: it is a member of the
  list and no member exceeds it; for the empty list it returns 0, the idle task's priority.
\<close>

theorem SAScheduler_highest:
  "unat (SAScheduler w) = (if w = 0 then 0 else Max (prios w))"
  by (simp add: SAScheduler_Max)

end
