(* ===== verification/Hal.thy ===== *)
theory Hal
  imports Scheduler
begin

text \<open>
  The interrupt simulation of the Windows port (\<open>platforms/eclipse_mingw_win32/src/hal/MingW/HAL.c\<close>
  and \<open>HAL.h\<close>): critical sections and the request of a simulated interrupt. A set bit of
  \<open>PendingInterrupts\<close> is an interrupt that waits; the interrupt thread runs when \<open>InterruptEvent\<close> is
  signalled and the mutex is free. A critical section holds the mutex, so the code between an
  \<open>EnterCritical\<close> and its \<open>ExitCritical\<close> is one step of the model.
\<close>

definition INTERRUPT_SWC :: nat where "INTERRUPT_SWC = 0"
definition INTERRUPT_TICK :: nat where "INTERRUPT_TICK = 1"
definition INTERRUPT_UART :: nat where "INTERRUPT_UART = 2"
definition MAX_INTERRUPTS :: nat where "MAX_INTERRUPTS = 3"

lemmas [config] = INTERRUPT_SWC_def INTERRUPT_TICK_def INTERRUPT_UART_def MAX_INTERRUPTS_def

definition GeraInterrupcaoSimulada :: "nat \<Rightarrow> kernel \<Rightarrow> kernel" where
  "GeraInterrupcaoSimulada InterruptNumber k =
    (if InterruptNumber < MAX_INTERRUPTS \<and> InterruptEventMutex k then
       (let k1 = k\<lparr>PendingInterrupts := PendingInterrupts k OR pbit InterruptNumber\<rparr>
        in if iNesting k1 = 0 then k1\<lparr>InterruptEvent := True\<rparr> else k1)
     else k)"

definition ChangeContext :: "kernel \<Rightarrow> kernel" where
  "ChangeContext k = GeraInterrupcaoSimulada INTERRUPT_SWC k"

definition ConfiguraInterruptHandler :: "nat \<Rightarrow> isr \<Rightarrow> kernel \<Rightarrow> kernel" where
  "ConfiguraInterruptHandler InterruptNumber Handler k =
    (if InterruptNumber < MAX_INTERRUPTS
     then k\<lparr>IsrHandler := (IsrHandler k)(InterruptNumber := Handler)\<rparr> else k)"

definition EnterCritical :: "kernel \<Rightarrow> kernel" where
  "EnterCritical k = k\<lparr>iNesting := iNesting k + 1\<rparr>"

definition ExitCritical :: "kernel \<Rightarrow> kernel" where
  "ExitCritical k =
    (if iNesting k > 0 then
       (let k1 = k\<lparr>iNesting := iNesting k - 1\<rparr>
        in if iNesting k1 = 0 \<and> PendingInterrupts k1 \<noteq> 0 then k1\<lparr>InterruptEvent := True\<rparr> else k1)
     else k)"

text \<open>The idiom \<open>if (currentTask) OSEnterCritical()\<close> of the create and install functions.\<close>

definition EnterCritical_if_task :: "kernel \<Rightarrow> kernel" where
  "EnterCritical_if_task k = (if currentTask k \<noteq> 0 then EnterCritical k else k)"

definition ExitCritical_if_task :: "kernel \<Rightarrow> kernel" where
  "ExitCritical_if_task k = (if currentTask k \<noteq> 0 then ExitCritical k else k)"

text \<open>The idiom \<open>if (!iNesting) ChangeContext()\<close> of the post and unblock functions.\<close>

definition ChangeContext_if_not_nested :: "kernel \<Rightarrow> kernel" where
  "ChangeContext_if_not_nested k = (if iNesting k = 0 then ChangeContext k else k)"

subsection \<open>What they leave alone\<close>

lemma GeraInterrupcao_frame [simp]:
  "ERROR_CHECK (GeraInterrupcaoSimulada n k) = ERROR_CHECK k"
  "PriorityVector (GeraInterrupcaoSimulada n k) = PriorityVector k"
  "iStackAddress (GeraInterrupcaoSimulada n k) = iStackAddress k"
  "iQueueAddress (GeraInterrupcaoSimulada n k) = iQueueAddress k"
  "StackAddress (GeraInterrupcaoSimulada n k) = StackAddress k"
  "NumberOfInstalledTasks (GeraInterrupcaoSimulada n k) = NumberOfInstalledTasks k"
  "currentTask (GeraInterrupcaoSimulada n k) = currentTask k"
  "SelectedTask (GeraInterrupcaoSimulada n k) = SelectedTask k"
  "OSReadyList (GeraInterrupcaoSimulada n k) = OSReadyList k"
  "OSBlockedList (GeraInterrupcaoSimulada n k) = OSBlockedList k"
  "OSTickCounter (GeraInterrupcaoSimulada n k) = OSTickCounter k"
  "OSDuty (GeraInterrupcaoSimulada n k) = OSDuty k"
  "OSDutyTmp (GeraInterrupcaoSimulada n k) = OSDutyTmp k"
  "LastOSDuty (GeraInterrupcaoSimulada n k) = LastOSDuty k"
  "DutyCnt (GeraInterrupcaoSimulada n k) = DutyCnt k"
  "TaskAlloc (GeraInterrupcaoSimulada n k) = TaskAlloc k"
  "Tail (GeraInterrupcaoSimulada n k) = Tail k"
  "Head (GeraInterrupcaoSimulada n k) = Head k"
  "BRTOS_Sem_Table (GeraInterrupcaoSimulada n k) = BRTOS_Sem_Table k"
  "BRTOS_Mutex_Table (GeraInterrupcaoSimulada n k) = BRTOS_Mutex_Table k"
  "BRTOS_Mbox_Table (GeraInterrupcaoSimulada n k) = BRTOS_Mbox_Table k"
  "BRTOS_Queue_Table (GeraInterrupcaoSimulada n k) = BRTOS_Queue_Table k"
  "BRTOS_OS_QUEUE_Table (GeraInterrupcaoSimulada n k) = BRTOS_OS_QUEUE_Table k"
  "QUEUE_STACK (GeraInterrupcaoSimulada n k) = QUEUE_STACK k"
  "ContextTask (GeraInterrupcaoSimulada n k) = ContextTask k"
  "SPvalue (GeraInterrupcaoSimulada n k) = SPvalue k"
  "InterruptEventMutex (GeraInterrupcaoSimulada n k) = InterruptEventMutex k"
  "IsrHandler (GeraInterrupcaoSimulada n k) = IsrHandler k"
  "UART_RX_buffer (GeraInterrupcaoSimulada n k) = UART_RX_buffer k"
  "SerialQ (GeraInterrupcaoSimulada n k) = SerialQ k"
  by (simp_all add: GeraInterrupcaoSimulada_def Let_def)

lemma ChangeContext_frame [simp]:
  "ERROR_CHECK (ChangeContext k) = ERROR_CHECK k"
  "PriorityVector (ChangeContext k) = PriorityVector k"
  "iStackAddress (ChangeContext k) = iStackAddress k"
  "iQueueAddress (ChangeContext k) = iQueueAddress k"
  "StackAddress (ChangeContext k) = StackAddress k"
  "NumberOfInstalledTasks (ChangeContext k) = NumberOfInstalledTasks k"
  "currentTask (ChangeContext k) = currentTask k"
  "SelectedTask (ChangeContext k) = SelectedTask k"
  "OSReadyList (ChangeContext k) = OSReadyList k"
  "OSBlockedList (ChangeContext k) = OSBlockedList k"
  "OSTickCounter (ChangeContext k) = OSTickCounter k"
  "OSDuty (ChangeContext k) = OSDuty k"
  "OSDutyTmp (ChangeContext k) = OSDutyTmp k"
  "LastOSDuty (ChangeContext k) = LastOSDuty k"
  "DutyCnt (ChangeContext k) = DutyCnt k"
  "TaskAlloc (ChangeContext k) = TaskAlloc k"
  "Tail (ChangeContext k) = Tail k"
  "Head (ChangeContext k) = Head k"
  "BRTOS_Sem_Table (ChangeContext k) = BRTOS_Sem_Table k"
  "BRTOS_Mutex_Table (ChangeContext k) = BRTOS_Mutex_Table k"
  "BRTOS_Mbox_Table (ChangeContext k) = BRTOS_Mbox_Table k"
  "BRTOS_Queue_Table (ChangeContext k) = BRTOS_Queue_Table k"
  "BRTOS_OS_QUEUE_Table (ChangeContext k) = BRTOS_OS_QUEUE_Table k"
  "QUEUE_STACK (ChangeContext k) = QUEUE_STACK k"
  "ContextTask (ChangeContext k) = ContextTask k"
  "SPvalue (ChangeContext k) = SPvalue k"
  "InterruptEventMutex (ChangeContext k) = InterruptEventMutex k"
  "IsrHandler (ChangeContext k) = IsrHandler k"
  "UART_RX_buffer (ChangeContext k) = UART_RX_buffer k"
  "SerialQ (ChangeContext k) = SerialQ k"
  by (simp_all add: ChangeContext_def)

lemma EnterCritical_frame [simp]:
  "ERROR_CHECK (EnterCritical k) = ERROR_CHECK k"
  "PriorityVector (EnterCritical k) = PriorityVector k"
  "iStackAddress (EnterCritical k) = iStackAddress k"
  "iQueueAddress (EnterCritical k) = iQueueAddress k"
  "StackAddress (EnterCritical k) = StackAddress k"
  "NumberOfInstalledTasks (EnterCritical k) = NumberOfInstalledTasks k"
  "currentTask (EnterCritical k) = currentTask k"
  "SelectedTask (EnterCritical k) = SelectedTask k"
  "OSReadyList (EnterCritical k) = OSReadyList k"
  "OSBlockedList (EnterCritical k) = OSBlockedList k"
  "OSTickCounter (EnterCritical k) = OSTickCounter k"
  "OSDuty (EnterCritical k) = OSDuty k"
  "OSDutyTmp (EnterCritical k) = OSDutyTmp k"
  "LastOSDuty (EnterCritical k) = LastOSDuty k"
  "DutyCnt (EnterCritical k) = DutyCnt k"
  "TaskAlloc (EnterCritical k) = TaskAlloc k"
  "Tail (EnterCritical k) = Tail k"
  "Head (EnterCritical k) = Head k"
  "BRTOS_Sem_Table (EnterCritical k) = BRTOS_Sem_Table k"
  "BRTOS_Mutex_Table (EnterCritical k) = BRTOS_Mutex_Table k"
  "BRTOS_Mbox_Table (EnterCritical k) = BRTOS_Mbox_Table k"
  "BRTOS_Queue_Table (EnterCritical k) = BRTOS_Queue_Table k"
  "BRTOS_OS_QUEUE_Table (EnterCritical k) = BRTOS_OS_QUEUE_Table k"
  "QUEUE_STACK (EnterCritical k) = QUEUE_STACK k"
  "ContextTask (EnterCritical k) = ContextTask k"
  "SPvalue (EnterCritical k) = SPvalue k"
  "InterruptEventMutex (EnterCritical k) = InterruptEventMutex k"
  "IsrHandler (EnterCritical k) = IsrHandler k"
  "UART_RX_buffer (EnterCritical k) = UART_RX_buffer k"
  "SerialQ (EnterCritical k) = SerialQ k"
  by (simp_all add: EnterCritical_def)

lemma ExitCritical_frame [simp]:
  "ERROR_CHECK (ExitCritical k) = ERROR_CHECK k"
  "PriorityVector (ExitCritical k) = PriorityVector k"
  "iStackAddress (ExitCritical k) = iStackAddress k"
  "iQueueAddress (ExitCritical k) = iQueueAddress k"
  "StackAddress (ExitCritical k) = StackAddress k"
  "NumberOfInstalledTasks (ExitCritical k) = NumberOfInstalledTasks k"
  "currentTask (ExitCritical k) = currentTask k"
  "SelectedTask (ExitCritical k) = SelectedTask k"
  "OSReadyList (ExitCritical k) = OSReadyList k"
  "OSBlockedList (ExitCritical k) = OSBlockedList k"
  "OSTickCounter (ExitCritical k) = OSTickCounter k"
  "OSDuty (ExitCritical k) = OSDuty k"
  "OSDutyTmp (ExitCritical k) = OSDutyTmp k"
  "LastOSDuty (ExitCritical k) = LastOSDuty k"
  "DutyCnt (ExitCritical k) = DutyCnt k"
  "TaskAlloc (ExitCritical k) = TaskAlloc k"
  "Tail (ExitCritical k) = Tail k"
  "Head (ExitCritical k) = Head k"
  "BRTOS_Sem_Table (ExitCritical k) = BRTOS_Sem_Table k"
  "BRTOS_Mutex_Table (ExitCritical k) = BRTOS_Mutex_Table k"
  "BRTOS_Mbox_Table (ExitCritical k) = BRTOS_Mbox_Table k"
  "BRTOS_Queue_Table (ExitCritical k) = BRTOS_Queue_Table k"
  "BRTOS_OS_QUEUE_Table (ExitCritical k) = BRTOS_OS_QUEUE_Table k"
  "QUEUE_STACK (ExitCritical k) = QUEUE_STACK k"
  "ContextTask (ExitCritical k) = ContextTask k"
  "SPvalue (ExitCritical k) = SPvalue k"
  "InterruptEventMutex (ExitCritical k) = InterruptEventMutex k"
  "IsrHandler (ExitCritical k) = IsrHandler k"
  "UART_RX_buffer (ExitCritical k) = UART_RX_buffer k"
  "SerialQ (ExitCritical k) = SerialQ k"
  by (simp_all add: ExitCritical_def Let_def)

lemma EnterCritical_if_task_frame [simp]:
  "ERROR_CHECK (EnterCritical_if_task k) = ERROR_CHECK k"
  "PriorityVector (EnterCritical_if_task k) = PriorityVector k"
  "iStackAddress (EnterCritical_if_task k) = iStackAddress k"
  "iQueueAddress (EnterCritical_if_task k) = iQueueAddress k"
  "StackAddress (EnterCritical_if_task k) = StackAddress k"
  "NumberOfInstalledTasks (EnterCritical_if_task k) = NumberOfInstalledTasks k"
  "currentTask (EnterCritical_if_task k) = currentTask k"
  "SelectedTask (EnterCritical_if_task k) = SelectedTask k"
  "OSReadyList (EnterCritical_if_task k) = OSReadyList k"
  "OSBlockedList (EnterCritical_if_task k) = OSBlockedList k"
  "OSTickCounter (EnterCritical_if_task k) = OSTickCounter k"
  "OSDuty (EnterCritical_if_task k) = OSDuty k"
  "OSDutyTmp (EnterCritical_if_task k) = OSDutyTmp k"
  "LastOSDuty (EnterCritical_if_task k) = LastOSDuty k"
  "DutyCnt (EnterCritical_if_task k) = DutyCnt k"
  "TaskAlloc (EnterCritical_if_task k) = TaskAlloc k"
  "Tail (EnterCritical_if_task k) = Tail k"
  "Head (EnterCritical_if_task k) = Head k"
  "BRTOS_Sem_Table (EnterCritical_if_task k) = BRTOS_Sem_Table k"
  "BRTOS_Mutex_Table (EnterCritical_if_task k) = BRTOS_Mutex_Table k"
  "BRTOS_Mbox_Table (EnterCritical_if_task k) = BRTOS_Mbox_Table k"
  "BRTOS_Queue_Table (EnterCritical_if_task k) = BRTOS_Queue_Table k"
  "BRTOS_OS_QUEUE_Table (EnterCritical_if_task k) = BRTOS_OS_QUEUE_Table k"
  "QUEUE_STACK (EnterCritical_if_task k) = QUEUE_STACK k"
  "ContextTask (EnterCritical_if_task k) = ContextTask k"
  "SPvalue (EnterCritical_if_task k) = SPvalue k"
  "InterruptEventMutex (EnterCritical_if_task k) = InterruptEventMutex k"
  "IsrHandler (EnterCritical_if_task k) = IsrHandler k"
  "UART_RX_buffer (EnterCritical_if_task k) = UART_RX_buffer k"
  "SerialQ (EnterCritical_if_task k) = SerialQ k"
  by (simp_all add: EnterCritical_if_task_def)

lemma ExitCritical_if_task_frame [simp]:
  "ERROR_CHECK (ExitCritical_if_task k) = ERROR_CHECK k"
  "PriorityVector (ExitCritical_if_task k) = PriorityVector k"
  "iStackAddress (ExitCritical_if_task k) = iStackAddress k"
  "iQueueAddress (ExitCritical_if_task k) = iQueueAddress k"
  "StackAddress (ExitCritical_if_task k) = StackAddress k"
  "NumberOfInstalledTasks (ExitCritical_if_task k) = NumberOfInstalledTasks k"
  "currentTask (ExitCritical_if_task k) = currentTask k"
  "SelectedTask (ExitCritical_if_task k) = SelectedTask k"
  "OSReadyList (ExitCritical_if_task k) = OSReadyList k"
  "OSBlockedList (ExitCritical_if_task k) = OSBlockedList k"
  "OSTickCounter (ExitCritical_if_task k) = OSTickCounter k"
  "OSDuty (ExitCritical_if_task k) = OSDuty k"
  "OSDutyTmp (ExitCritical_if_task k) = OSDutyTmp k"
  "LastOSDuty (ExitCritical_if_task k) = LastOSDuty k"
  "DutyCnt (ExitCritical_if_task k) = DutyCnt k"
  "TaskAlloc (ExitCritical_if_task k) = TaskAlloc k"
  "Tail (ExitCritical_if_task k) = Tail k"
  "Head (ExitCritical_if_task k) = Head k"
  "BRTOS_Sem_Table (ExitCritical_if_task k) = BRTOS_Sem_Table k"
  "BRTOS_Mutex_Table (ExitCritical_if_task k) = BRTOS_Mutex_Table k"
  "BRTOS_Mbox_Table (ExitCritical_if_task k) = BRTOS_Mbox_Table k"
  "BRTOS_Queue_Table (ExitCritical_if_task k) = BRTOS_Queue_Table k"
  "BRTOS_OS_QUEUE_Table (ExitCritical_if_task k) = BRTOS_OS_QUEUE_Table k"
  "QUEUE_STACK (ExitCritical_if_task k) = QUEUE_STACK k"
  "ContextTask (ExitCritical_if_task k) = ContextTask k"
  "SPvalue (ExitCritical_if_task k) = SPvalue k"
  "InterruptEventMutex (ExitCritical_if_task k) = InterruptEventMutex k"
  "IsrHandler (ExitCritical_if_task k) = IsrHandler k"
  "UART_RX_buffer (ExitCritical_if_task k) = UART_RX_buffer k"
  "SerialQ (ExitCritical_if_task k) = SerialQ k"
  by (simp_all add: ExitCritical_if_task_def)

lemma ChangeContext_if_not_nested_frame [simp]:
  "ERROR_CHECK (ChangeContext_if_not_nested k) = ERROR_CHECK k"
  "PriorityVector (ChangeContext_if_not_nested k) = PriorityVector k"
  "iStackAddress (ChangeContext_if_not_nested k) = iStackAddress k"
  "iQueueAddress (ChangeContext_if_not_nested k) = iQueueAddress k"
  "StackAddress (ChangeContext_if_not_nested k) = StackAddress k"
  "NumberOfInstalledTasks (ChangeContext_if_not_nested k) = NumberOfInstalledTasks k"
  "currentTask (ChangeContext_if_not_nested k) = currentTask k"
  "SelectedTask (ChangeContext_if_not_nested k) = SelectedTask k"
  "OSReadyList (ChangeContext_if_not_nested k) = OSReadyList k"
  "OSBlockedList (ChangeContext_if_not_nested k) = OSBlockedList k"
  "OSTickCounter (ChangeContext_if_not_nested k) = OSTickCounter k"
  "OSDuty (ChangeContext_if_not_nested k) = OSDuty k"
  "OSDutyTmp (ChangeContext_if_not_nested k) = OSDutyTmp k"
  "LastOSDuty (ChangeContext_if_not_nested k) = LastOSDuty k"
  "DutyCnt (ChangeContext_if_not_nested k) = DutyCnt k"
  "TaskAlloc (ChangeContext_if_not_nested k) = TaskAlloc k"
  "Tail (ChangeContext_if_not_nested k) = Tail k"
  "Head (ChangeContext_if_not_nested k) = Head k"
  "BRTOS_Sem_Table (ChangeContext_if_not_nested k) = BRTOS_Sem_Table k"
  "BRTOS_Mutex_Table (ChangeContext_if_not_nested k) = BRTOS_Mutex_Table k"
  "BRTOS_Mbox_Table (ChangeContext_if_not_nested k) = BRTOS_Mbox_Table k"
  "BRTOS_Queue_Table (ChangeContext_if_not_nested k) = BRTOS_Queue_Table k"
  "BRTOS_OS_QUEUE_Table (ChangeContext_if_not_nested k) = BRTOS_OS_QUEUE_Table k"
  "QUEUE_STACK (ChangeContext_if_not_nested k) = QUEUE_STACK k"
  "ContextTask (ChangeContext_if_not_nested k) = ContextTask k"
  "SPvalue (ChangeContext_if_not_nested k) = SPvalue k"
  "InterruptEventMutex (ChangeContext_if_not_nested k) = InterruptEventMutex k"
  "IsrHandler (ChangeContext_if_not_nested k) = IsrHandler k"
  "UART_RX_buffer (ChangeContext_if_not_nested k) = UART_RX_buffer k"
  "SerialQ (ChangeContext_if_not_nested k) = SerialQ k"
  by (simp_all add: ChangeContext_if_not_nested_def)

text \<open>
  \<open>core\<close> forgets the interrupt variables: two states with the same core differ at most in what the
  critical section bookkeeping has recorded.
\<close>

definition core :: "kernel \<Rightarrow> kernel" where
  "core k = k\<lparr>iNesting := 0, PendingInterrupts := 0, InterruptEvent := False\<rparr>"

lemma core_GeraInterrupcao [simp]: "core (GeraInterrupcaoSimulada n k) = core k"
  by (simp add: core_def GeraInterrupcaoSimulada_def Let_def)

lemma core_ChangeContext [simp]: "core (ChangeContext k) = core k"
  by (simp add: ChangeContext_def)

lemma core_EnterCritical [simp]: "core (EnterCritical k) = core k"
  by (simp add: core_def EnterCritical_def)

lemma core_ExitCritical [simp]: "core (ExitCritical k) = core k"
  by (simp add: core_def ExitCritical_def Let_def)

lemma core_if_task [simp]:
  "core (EnterCritical_if_task k) = core k" "core (ExitCritical_if_task k) = core k"
  "core (ChangeContext_if_not_nested k) = core k"
  by (simp_all add: EnterCritical_if_task_def ExitCritical_if_task_def ChangeContext_if_not_nested_def)

lemma core_frame [simp]:
  "ERROR_CHECK (core k) = ERROR_CHECK k"
  "PriorityVector (core k) = PriorityVector k"
  "iStackAddress (core k) = iStackAddress k"
  "iQueueAddress (core k) = iQueueAddress k"
  "StackAddress (core k) = StackAddress k"
  "NumberOfInstalledTasks (core k) = NumberOfInstalledTasks k"
  "currentTask (core k) = currentTask k"
  "SelectedTask (core k) = SelectedTask k"
  "OSReadyList (core k) = OSReadyList k"
  "OSBlockedList (core k) = OSBlockedList k"
  "OSTickCounter (core k) = OSTickCounter k"
  "OSDuty (core k) = OSDuty k"
  "OSDutyTmp (core k) = OSDutyTmp k"
  "LastOSDuty (core k) = LastOSDuty k"
  "DutyCnt (core k) = DutyCnt k"
  "TaskAlloc (core k) = TaskAlloc k"
  "Tail (core k) = Tail k"
  "Head (core k) = Head k"
  "BRTOS_Sem_Table (core k) = BRTOS_Sem_Table k"
  "BRTOS_Mutex_Table (core k) = BRTOS_Mutex_Table k"
  "BRTOS_Mbox_Table (core k) = BRTOS_Mbox_Table k"
  "BRTOS_Queue_Table (core k) = BRTOS_Queue_Table k"
  "BRTOS_OS_QUEUE_Table (core k) = BRTOS_OS_QUEUE_Table k"
  "QUEUE_STACK (core k) = QUEUE_STACK k"
  "ContextTask (core k) = ContextTask k"
  "SPvalue (core k) = SPvalue k"
  "InterruptEventMutex (core k) = InterruptEventMutex k"
  "IsrHandler (core k) = IsrHandler k"
  "UART_RX_buffer (core k) = UART_RX_buffer k"
  "SerialQ (core k) = SerialQ k"
  by (simp_all add: core_def)

subsection \<open>Critical sections and the request of a switch\<close>

lemma iNesting_ChangeContext [simp]: "iNesting (ChangeContext k) = iNesting k"
  by (simp add: ChangeContext_def GeraInterrupcaoSimulada_def Let_def)

lemma iNesting_EnterCritical [simp]: "iNesting (EnterCritical k) = iNesting k + 1"
  by (simp add: EnterCritical_def)

lemma Pending_EnterCritical [simp]:
  "PendingInterrupts (EnterCritical k) = PendingInterrupts k"
  "InterruptEvent (EnterCritical k) = InterruptEvent k"
  by (simp_all add: EnterCritical_def)

lemma Pending_ExitCritical [simp]: "PendingInterrupts (ExitCritical k) = PendingInterrupts k"
  by (simp add: ExitCritical_def Let_def)

text \<open>A byte counter of nesting does not wrap for fewer than 255 open sections.\<close>

definition nestable :: "kernel \<Rightarrow> bool" where
  "nestable k \<longleftrightarrow> unat (iNesting k) < 255"

lemma nestable_inc: "nestable k \<Longrightarrow> iNesting k + 1 \<noteq> 0"
  using unat_inc_u8 [of "iNesting k"] by (auto simp: nestable_def)

lemma nested_no_request:
  "nestable k \<Longrightarrow> ChangeContext_if_not_nested (EnterCritical k) = EnterCritical k"
  by (simp add: ChangeContext_if_not_nested_def nestable_inc)

lemma iNesting_ExitCritical: "iNesting k \<noteq> 0 \<Longrightarrow> iNesting (ExitCritical k) = iNesting k - 1"
  by (simp add: ExitCritical_def Let_def word_gt_0)

lemma exit_enter_iNesting [simp]:
  assumes "nestable k" shows "iNesting (ExitCritical (EnterCritical k)) = iNesting k"
  using assms by (simp add: iNesting_ExitCritical nestable_inc)

lemma exit_signals:
  "nestable k \<Longrightarrow> InterruptEvent (ExitCritical (EnterCritical k)) \<longleftrightarrow>
     InterruptEvent k \<or> iNesting k = 0 \<and> PendingInterrupts k \<noteq> 0"
  using nestable_inc [of k]
  by (auto simp: ExitCritical_def EnterCritical_def Let_def word_gt_0 nestable_def)

text \<open>
  A switch requested inside a critical section is pending when the section closes, and closing the
  outermost one signals it to the dispatcher.
\<close>

lemma request_signals:
  assumes "InterruptEventMutex k" "iNesting k = 1"
  shows "bit (PendingInterrupts (ExitCritical (ChangeContext k))) INTERRUPT_SWC \<and>
     InterruptEvent (ExitCritical (ChangeContext k))"
proof -
  have "PendingInterrupts (ChangeContext k) = PendingInterrupts k OR pbit 0" "iNesting (ChangeContext k) = 1"
    using assms by (simp_all add: ChangeContext_def GeraInterrupcaoSimulada_def Let_def config)
  moreover have "bit (PendingInterrupts k OR pbit 0) 0" by (simp add: bit_or_iff bits)
  then have "PendingInterrupts k OR pbit 0 \<noteq> 0" by (metis bit_0_eq bot_apply bot_bool_def)
  ultimately show ?thesis
    using \<open>bit (PendingInterrupts k OR pbit 0) 0\<close>
    by (simp add: ExitCritical_def Let_def config)
qed

end
