(* ===== verification/Delay_List.thy ===== *)
theory Delay_List
  imports Hal
begin

text \<open>
  The delay list of \<open>BRTOS.h\<close>: a doubly linked list threaded through the \<open>Next\<close> and \<open>Previous\<close>
  fields of the task control blocks, with \<open>Head\<close> and \<open>Tail\<close>. The macros are translated assignment
  by assignment and shown to implement, on the abstract list of task numbers, appending at the end
  and removing an element.
\<close>

definition set_Next :: "nat \<Rightarrow> ptr \<Rightarrow> kernel \<Rightarrow> kernel" where
  "set_Next t p = upd_task t (\<lambda>c. c\<lparr>Next := p\<rparr>)"

definition set_Previous :: "nat \<Rightarrow> ptr \<Rightarrow> kernel \<Rightarrow> kernel" where
  "set_Previous t p = upd_task t (\<lambda>c. c\<lparr>Previous := p\<rparr>)"

definition IncludeTaskIntoDelayList :: "nat \<Rightarrow> kernel \<Rightarrow> kernel" where
  "IncludeTaskIntoDelayList Task k =
    (case Tail k of
       Some lt \<Rightarrow>
         (let k1 = set_Next lt (Some Task) k;
              k2 = set_Previous Task (Tail k1) k1;
              k3 = k2\<lparr>Tail := Some Task\<rparr>
          in set_Next Task NULL k3)
     | None \<Rightarrow>
         (let k1 = k\<lparr>Tail := Some Task\<rparr>;
              k2 = k1\<lparr>Head := Some Task\<rparr>;
              k3 = set_Next Task NULL k2
          in set_Previous Task NULL k3))"

definition RemoveFromDelayList :: "nat \<Rightarrow> kernel \<Rightarrow> kernel option" where
  "RemoveFromDelayList Task k =
    (if Head k = Some Task then
       (if Tail k = Some Task then Some (k\<lparr>Tail := NULL, Head := NULL\<rparr>)
        else do {
          h \<leftarrow> Next (ContextTask k Task);
          Some (set_Previous h NULL (k\<lparr>Head := Some h\<rparr>)) })
     else
       (if Tail k = Some Task then do {
          p \<leftarrow> Previous (ContextTask k Task);
          Some (set_Next p NULL (k\<lparr>Tail := Some p\<rparr>)) }
        else do {
          n \<leftarrow> Next (ContextTask k Task);
          let k1 = set_Previous n (Previous (ContextTask k Task)) k;
          p \<leftarrow> Previous (ContextTask k1 Task);
          Some (set_Next p (Next (ContextTask k1 Task)) k1) }))"

subsection \<open>The abstract list\<close>

definition first :: "'a list \<Rightarrow> 'a option \<Rightarrow> 'a option" where
  "first xs q = (case xs of [] \<Rightarrow> q | x # _ \<Rightarrow> Some x)"

definition final :: "'a list \<Rightarrow> 'a option \<Rightarrow> 'a option" where
  "final xs p = (if xs = [] then p else Some (last xs))"

lemma first_simps [simp]:
  "first [] q = q" "first (x # xs) q = Some x"
  by (simp_all add: first_def)

lemma final_simps [simp]:
  "final [] p = p" "final (xs @ [x]) p = Some x" "final (x # xs) p = final xs (Some x)"
  by (simp_all add: final_def)

lemma final_append [simp]: "final (xs @ ys) p = final ys (final xs p)"
  by (simp add: final_def)

lemma first_append [simp]: "first (xs @ ys) q = first xs (first ys q)"
  by (cases xs) simp_all

lemma first_SomeD: "first xs (Some y) = Some t \<Longrightarrow> t = y \<or> t \<in> set xs"
  by (cases xs) auto

lemma first_Some_neq [simp]: "t \<noteq> y \<Longrightarrow> t \<notin> set xs \<Longrightarrow> first xs (Some y) \<noteq> Some t"
  using first_SomeD [of xs y t] by blast

lemma final_SomeD: "final xs (Some y) = Some t \<Longrightarrow> t = y \<or> t \<in> set xs"
  by (cases xs rule: rev_cases) auto

lemma final_Some_neq [simp]: "t \<noteq> y \<Longrightarrow> t \<notin> set xs \<Longrightarrow> final xs (Some y) \<noteq> Some t"
  using final_SomeD [of xs y t] by blast

lemma first_not_NULL [simp]: "first xs (Some y) \<noteq> NULL"
  by (cases xs) auto

text \<open>A segment of linked control blocks, between the predecessor \<open>p\<close> and the successor \<open>q\<close>.\<close>

fun dseg :: "(nat \<Rightarrow> ContextType) \<Rightarrow> ptr \<Rightarrow> nat list \<Rightarrow> ptr \<Rightarrow> bool" where
  "dseg c p [] q = True"
| "dseg c p (t # ts) q = (Previous (c t) = p \<and> Next (c t) = first ts q \<and> dseg c (Some t) ts q)"

definition dlist :: "kernel \<Rightarrow> nat list \<Rightarrow> bool" where
  "dlist k xs \<longleftrightarrow> distinct xs \<and> Head k = first xs NULL \<and> Tail k = final xs NULL \<and>
     dseg (ContextTask k) NULL xs NULL"

lemma dseg_append:
  "dseg c p (xs @ ys) q \<longleftrightarrow> dseg c p xs (first ys q) \<and> dseg c (final xs p) ys q"
  by (induction xs arbitrary: p) auto

lemma dseg_cong:
  assumes "\<And>t. t \<in> set xs \<Longrightarrow> Next (c t) = Next (d t) \<and> Previous (c t) = Previous (d t)"
  shows "dseg c p xs q = dseg d p xs q"
  using assms by (induction xs arbitrary: p) auto

lemma dseg_upd_notin [simp]: "u \<notin> set xs \<Longrightarrow> dseg (c(u := v)) p xs q = dseg c p xs q"
  by (rule dseg_cong) auto

lemma dlist_distinct: "dlist k xs \<Longrightarrow> distinct xs"
  by (simp add: dlist_def)

lemma dlist_Head: "dlist k xs \<Longrightarrow> Head k = first xs NULL"
  by (simp add: dlist_def)

lemma dlist_empty: "dlist k [] \<longleftrightarrow> Head k = NULL \<and> Tail k = NULL"
  by (simp add: dlist_def)

text \<open>The list is determined by the links.\<close>

lemma dseg_unique:
  "dseg c p xs NULL \<Longrightarrow> dseg c p ys NULL \<Longrightarrow> first xs NULL = first ys NULL \<Longrightarrow> xs = ys"
proof (induction xs arbitrary: p ys)
  case Nil
  then show ?case by (cases ys) auto
next
  case (Cons x xs)
  then show ?case by (cases ys) auto
qed

lemma dlist_unique: "dlist k xs \<Longrightarrow> dlist k ys \<Longrightarrow> xs = ys"
  by (auto simp: dlist_def intro: dseg_unique)

text \<open>A change that keeps every link and both ends keeps the list.\<close>

lemma dlist_cong:
  assumes "dlist k xs" "Head k' = Head k" "Tail k' = Tail k"
    and "\<And>t. Next (ContextTask k' t) = Next (ContextTask k t) \<and>
              Previous (ContextTask k' t) = Previous (ContextTask k t)"
  shows "dlist k' xs"
proof -
  have "dseg (ContextTask k') NULL xs NULL = dseg (ContextTask k) NULL xs NULL"
    by (rule dseg_cong) (rule assms(4))
  with assms(1-3) show ?thesis by (simp add: dlist_def)
qed

subsection \<open>The macros implement append and remove\<close>

lemma Include_dlist:
  assumes "dlist k xs" "t \<notin> set xs"
  shows "dlist (IncludeTaskIntoDelayList t k) (xs @ [t])"
proof (cases xs rule: rev_cases)
  case Nil
  then show ?thesis using assms
    by (simp add: dlist_def IncludeTaskIntoDelayList_def set_Next_def set_Previous_def upd_task_def)
next
  case (snoc ys y)
  then show ?thesis using assms
    by (auto simp: dlist_def IncludeTaskIntoDelayList_def set_Next_def set_Previous_def upd_task_def
        dseg_append)
qed

lemma Remove_dlist_split:
  assumes "dlist k (as @ t # bs)"
  shows "\<exists>k'. RemoveFromDelayList t k = Some k' \<and> dlist k' (as @ bs)"
proof -
  have t: "t \<notin> set as" "t \<notin> set bs" "distinct (as @ bs)"
    using dlist_distinct [OF assms] by auto
  show ?thesis
  proof (cases bs)
    case Nil
    then show ?thesis using assms t
      by (cases as rule: rev_cases)
        (auto simp: dlist_def RemoveFromDelayList_def set_Next_def set_Previous_def upd_task_def
          dseg_append)
  next
    case (Cons b bs')
    then show ?thesis using assms t
      by (cases as rule: rev_cases)
        (auto simp: dlist_def RemoveFromDelayList_def set_Next_def set_Previous_def upd_task_def
          dseg_append Let_def)
  qed
qed

lemma Remove_dlist:
  assumes "dlist k xs" "t \<in> set xs"
  shows "\<exists>k'. RemoveFromDelayList t k = Some k' \<and> dlist k' (remove1 t xs)"
proof -
  obtain as bs where xs: "xs = as @ t # bs" using assms(2) by (meson split_list)
  have "t \<notin> set as" using dlist_distinct [OF assms(1)] xs by simp
  then have "remove1 t xs = as @ bs" using xs by (simp add: remove1_append)
  with Remove_dlist_split [of k as t bs] assms(1) xs show ?thesis by simp
qed

text \<open>The removed task keeps its own link, on which the walk of the tick handler goes on.\<close>

lemma ContextTask_set_links [simp]:
  "ContextTask (set_Next t p k) u = (if u = t then (ContextTask k t)\<lparr>Next := p\<rparr> else ContextTask k u)"
  "ContextTask (set_Previous t p k) u =
    (if u = t then (ContextTask k t)\<lparr>Previous := p\<rparr> else ContextTask k u)"
  by (simp_all add: set_Next_def set_Previous_def)

lemma Remove_keeps_Next:
  assumes "dlist k (xs @ t # ys)" "RemoveFromDelayList t k = Some k'"
  shows "Next (ContextTask k' t) = first ys NULL"
proof -
  have l: "Next (ContextTask k t) = first ys NULL" "Previous (ContextTask k t) = final xs NULL"
    "Head k = first (xs @ t # ys) NULL"
    using assms(1) by (simp_all add: dlist_def dseg_append)
  have d: "t \<notin> set xs" "t \<notin> set ys" using dlist_distinct [OF assms(1)] by auto
  have "final xs NULL \<noteq> Some t" using d(1) by (cases xs rule: rev_cases) auto
  then show ?thesis
    using assms(2) l d by (cases xs; cases ys)
      (auto simp: RemoveFromDelayList_def bind_Some_iff Let_def split: if_splits)
qed

subsection \<open>What the macros leave alone\<close>

text \<open>\<open>nolinks\<close> forgets the links of the delay list, all that the macros may change.\<close>

definition unlink :: "ContextType \<Rightarrow> ContextType" where
  "unlink c = c\<lparr>Next := NULL, Previous := NULL\<rparr>"

definition nolinks :: "kernel \<Rightarrow> kernel" where
  "nolinks k = k\<lparr>Head := NULL, Tail := NULL, ContextTask := \<lambda>t. unlink (ContextTask k t)\<rparr>"

lemma nolinks_set_Next [simp]: "nolinks (set_Next t p k) = nolinks k"
  by (auto simp: nolinks_def set_Next_def upd_task_def unlink_def fun_eq_iff)

lemma nolinks_set_Previous [simp]: "nolinks (set_Previous t p k) = nolinks k"
  by (auto simp: nolinks_def set_Previous_def upd_task_def unlink_def fun_eq_iff)

lemma nolinks_ends [simp]: "nolinks (k\<lparr>Head := h\<rparr>) = nolinks k" "nolinks (k\<lparr>Tail := l\<rparr>) = nolinks k"
  by (simp_all add: nolinks_def)

lemma nolinks_Include [simp]: "nolinks (IncludeTaskIntoDelayList t k) = nolinks k"
  by (simp add: IncludeTaskIntoDelayList_def Let_def split: option.split)

lemma nolinks_Remove: "RemoveFromDelayList t k = Some k' \<Longrightarrow> nolinks k' = nolinks k"
  by (auto simp: RemoveFromDelayList_def Let_def bind_Some_iff split: if_splits)

text \<open>Every other component is therefore unchanged.\<close>

lemma nolinks_eqD:
  assumes "nolinks k' = nolinks k"
  shows
    "ERROR_CHECK k' = ERROR_CHECK k"
    and "PriorityVector k' = PriorityVector k"
    and "iStackAddress k' = iStackAddress k"
    and "iQueueAddress k' = iQueueAddress k"
    and "StackAddress k' = StackAddress k"
    and "NumberOfInstalledTasks k' = NumberOfInstalledTasks k"
    and "currentTask k' = currentTask k"
    and "SelectedTask k' = SelectedTask k"
    and "OSReadyList k' = OSReadyList k"
    and "OSBlockedList k' = OSBlockedList k"
    and "OSTickCounter k' = OSTickCounter k"
    and "OSDuty k' = OSDuty k"
    and "OSDutyTmp k' = OSDutyTmp k"
    and "LastOSDuty k' = LastOSDuty k"
    and "DutyCnt k' = DutyCnt k"
    and "TaskAlloc k' = TaskAlloc k"
    and "iNesting k' = iNesting k"
    and "BRTOS_Sem_Table k' = BRTOS_Sem_Table k"
    and "BRTOS_Mutex_Table k' = BRTOS_Mutex_Table k"
    and "BRTOS_Mbox_Table k' = BRTOS_Mbox_Table k"
    and "BRTOS_Queue_Table k' = BRTOS_Queue_Table k"
    and "BRTOS_OS_QUEUE_Table k' = BRTOS_OS_QUEUE_Table k"
    and "QUEUE_STACK k' = QUEUE_STACK k"
    and "SPvalue k' = SPvalue k"
    and "PendingInterrupts k' = PendingInterrupts k"
    and "InterruptEventMutex k' = InterruptEventMutex k"
    and "InterruptEvent k' = InterruptEvent k"
    and "IsrHandler k' = IsrHandler k"
    and "UART_RX_buffer k' = UART_RX_buffer k"
    and "SerialQ k' = SerialQ k"
    and "TimeToWait (ContextTask k' t) = TimeToWait (ContextTask k t)"
    and "Priority (ContextTask k' t) = Priority (ContextTask k t)"
    and "TaskName (ContextTask k' t) = TaskName (ContextTask k t)"
    and "StackPoint (ContextTask k' t) = StackPoint (ContextTask k t)"
    and "StackInit (ContextTask k' t) = StackInit (ContextTask k t)"
proof -
  have *: "\<And>g. g (nolinks k') = g (nolinks k)" using assms by simp
  show "ERROR_CHECK k' = ERROR_CHECK k" using * [of ERROR_CHECK] by (simp add: nolinks_def)
  show "PriorityVector k' = PriorityVector k" using * [of PriorityVector] by (simp add: nolinks_def)
  show "iStackAddress k' = iStackAddress k" using * [of iStackAddress] by (simp add: nolinks_def)
  show "iQueueAddress k' = iQueueAddress k" using * [of iQueueAddress] by (simp add: nolinks_def)
  show "StackAddress k' = StackAddress k" using * [of StackAddress] by (simp add: nolinks_def)
  show "NumberOfInstalledTasks k' = NumberOfInstalledTasks k" using * [of NumberOfInstalledTasks] by (simp add: nolinks_def)
  show "currentTask k' = currentTask k" using * [of currentTask] by (simp add: nolinks_def)
  show "SelectedTask k' = SelectedTask k" using * [of SelectedTask] by (simp add: nolinks_def)
  show "OSReadyList k' = OSReadyList k" using * [of OSReadyList] by (simp add: nolinks_def)
  show "OSBlockedList k' = OSBlockedList k" using * [of OSBlockedList] by (simp add: nolinks_def)
  show "OSTickCounter k' = OSTickCounter k" using * [of OSTickCounter] by (simp add: nolinks_def)
  show "OSDuty k' = OSDuty k" using * [of OSDuty] by (simp add: nolinks_def)
  show "OSDutyTmp k' = OSDutyTmp k" using * [of OSDutyTmp] by (simp add: nolinks_def)
  show "LastOSDuty k' = LastOSDuty k" using * [of LastOSDuty] by (simp add: nolinks_def)
  show "DutyCnt k' = DutyCnt k" using * [of DutyCnt] by (simp add: nolinks_def)
  show "TaskAlloc k' = TaskAlloc k" using * [of TaskAlloc] by (simp add: nolinks_def)
  show "iNesting k' = iNesting k" using * [of iNesting] by (simp add: nolinks_def)
  show "BRTOS_Sem_Table k' = BRTOS_Sem_Table k" using * [of BRTOS_Sem_Table] by (simp add: nolinks_def)
  show "BRTOS_Mutex_Table k' = BRTOS_Mutex_Table k" using * [of BRTOS_Mutex_Table] by (simp add: nolinks_def)
  show "BRTOS_Mbox_Table k' = BRTOS_Mbox_Table k" using * [of BRTOS_Mbox_Table] by (simp add: nolinks_def)
  show "BRTOS_Queue_Table k' = BRTOS_Queue_Table k" using * [of BRTOS_Queue_Table] by (simp add: nolinks_def)
  show "BRTOS_OS_QUEUE_Table k' = BRTOS_OS_QUEUE_Table k" using * [of BRTOS_OS_QUEUE_Table] by (simp add: nolinks_def)
  show "QUEUE_STACK k' = QUEUE_STACK k" using * [of QUEUE_STACK] by (simp add: nolinks_def)
  show "SPvalue k' = SPvalue k" using * [of SPvalue] by (simp add: nolinks_def)
  show "PendingInterrupts k' = PendingInterrupts k" using * [of PendingInterrupts] by (simp add: nolinks_def)
  show "InterruptEventMutex k' = InterruptEventMutex k" using * [of InterruptEventMutex] by (simp add: nolinks_def)
  show "InterruptEvent k' = InterruptEvent k" using * [of InterruptEvent] by (simp add: nolinks_def)
  show "IsrHandler k' = IsrHandler k" using * [of IsrHandler] by (simp add: nolinks_def)
  show "UART_RX_buffer k' = UART_RX_buffer k" using * [of UART_RX_buffer] by (simp add: nolinks_def)
  show "SerialQ k' = SerialQ k" using * [of SerialQ] by (simp add: nolinks_def)
  show "TimeToWait (ContextTask k' t) = TimeToWait (ContextTask k t)"
    using * [of "\<lambda>s. TimeToWait (ContextTask s t)"] by (simp add: nolinks_def unlink_def)
  show "Priority (ContextTask k' t) = Priority (ContextTask k t)"
    using * [of "\<lambda>s. Priority (ContextTask s t)"] by (simp add: nolinks_def unlink_def)
  show "TaskName (ContextTask k' t) = TaskName (ContextTask k t)"
    using * [of "\<lambda>s. TaskName (ContextTask s t)"] by (simp add: nolinks_def unlink_def)
  show "StackPoint (ContextTask k' t) = StackPoint (ContextTask k t)"
    using * [of "\<lambda>s. StackPoint (ContextTask s t)"] by (simp add: nolinks_def unlink_def)
  show "StackInit (ContextTask k' t) = StackInit (ContextTask k t)"
    using * [of "\<lambda>s. StackInit (ContextTask s t)"] by (simp add: nolinks_def unlink_def)
qed

lemmas Remove_frame = nolinks_eqD [OF nolinks_Remove]
lemmas Include_frame [simp] = nolinks_eqD [OF nolinks_Include]

lemma Remove_in_dlist:
  assumes "dlist k xs" "t \<in> set xs"
  obtains k' where "RemoveFromDelayList t k = Some k'" "dlist k' (remove1 t xs)" "nolinks k' = nolinks k"
  using Remove_dlist [OF assms] nolinks_Remove by blast

text \<open>
  C4. \<open>IncludeTaskIntoDelayList\<close> implements appending a task to the delay list and
  \<open>RemoveFromDelayList\<close> implements removing one, with every null pointer and every link of the
  doubly linked list accounted for; neither touches anything but the links and the two ends.
\<close>

theorem delay_list_refinement:
  assumes "dlist k xs"
  shows "(t \<notin> set xs \<longrightarrow> dlist (IncludeTaskIntoDelayList t k) (xs @ [t]) \<and>
            nolinks (IncludeTaskIntoDelayList t k) = nolinks k) \<and>
         (t \<in> set xs \<longrightarrow> (\<exists>k'. RemoveFromDelayList t k = Some k' \<and> dlist k' (remove1 t xs) \<and>
            nolinks k' = nolinks k))"
  using assms Include_dlist Remove_dlist nolinks_Remove by fastforce

end
