(* ===== verification/Timing.thy ===== *)
theory Timing
  imports Delay_List
begin

text \<open>
  Time in the kernel: the tick counter, which runs modulo \<open>TICK_COUNT_OVERFLOW\<close>, the delay of the
  running task, the splitting of long delays, and the tick handler, which walks the delay list,
  readies the tasks whose time has come and keeps the CPU load figures.
\<close>

subsection \<open>The counter\<close>

definition OSGetCount :: "kernel \<Rightarrow> u16" where
  "OSGetCount k = OSTickCounter k"

definition OSGetTickCount :: "kernel \<Rightarrow> u16 \<times> kernel" where
  "OSGetTickCount k =
    (let k1 = EnterCritical k; cnt = OSTickCounter k1; k2 = ExitCritical k1 in (cnt, k2))"

definition OSIncCounter :: "kernel \<Rightarrow> kernel" where
  "OSIncCounter k =
    (let k1 = k\<lparr>OSTickCounter := OSTickCounter k + 1\<rparr>
     in if OSTickCounter k1 = TICK_COUNT_OVERFLOW then k1\<lparr>OSTickCounter := 0\<rparr> else k1)"

text \<open>
  The instant \<open>time_wait\<close> ticks from now, computed in the double width \<open>osdtick_t\<close>; the block is
  the same in \<open>OSDelayTask\<close>, in every pend function and in the tickless \<open>OSIncCounter\<close>.
\<close>

definition tick_after :: "u16 \<Rightarrow> u16 \<Rightarrow> u16" where
  "tick_after counter time_wait =
    (let timeout = (ucast counter + ucast time_wait :: u32)
     in if timeout \<ge> ucast TICK_COUNT_OVERFLOW then ucast (timeout - ucast TICK_COUNT_OVERFLOW)
        else ucast timeout)"

definition OSIncCounter_tickless :: "u16 \<Rightarrow> kernel \<Rightarrow> kernel" where
  "OSIncCounter_tickless inc k =
    (if inc \<noteq> 1 then k\<lparr>OSTickCounter := tick_after (OSTickCounter k) inc\<rparr> else OSIncCounter k)"

subsection \<open>Delays\<close>

definition OSDelayTask :: "u16 \<Rightarrow> kernel \<Rightarrow> (u8 \<times> kernel) option" where
  "OSDelayTask time_wait k =
    (if iNesting k > 0 then Some (IRQ_PEND_ERR, k)
     else if currentTask k \<noteq> 0 then
       (if time_wait > 0 then do {
          let Task = unat (currentTask k);
          _ \<leftarrow> task_at Task k;
          let k1 = EnterCritical k;
          let k2 = upd_task Task (\<lambda>c. c\<lparr>TimeToWait := tick_after (OSTickCounter k1) time_wait\<rparr>) k1;
          let k3 = IncludeTaskIntoDelayList Task k2;
          mask \<leftarrow> PriorityMask (Priority (ContextTask k3 Task));
          let k4 = k3\<lparr>OSReadyList := OSReadyList k3 AND NOT mask\<rparr>;
          let k5 = ChangeContext k4;
          Some (OK, ExitCritical k5) }
        else Some (NO_TASK_DELAY, k))
     else Some (NOT_VALID_TASK, k))"

text \<open>
  \<open>OSDelayTaskHMSM\<close> splits a long time into delays of at most 60000 ticks. Between two of them the
  other tasks run, so the model gives the sequence of \<open>DelayTask\<close> calls it makes, in order.
\<close>

primrec HMSM_loop :: "nat \<Rightarrow> u16 list" where
  "HMSM_loop 0 = []"
| "HMSM_loop (Suc loops) = 60000 # HMSM_loop loops"

definition HMSM_ticks :: "u8 \<Rightarrow> u8 \<Rightarrow> u8 \<Rightarrow> u16 \<Rightarrow> u32" where
  "HMSM_ticks hours minutes seconds miliseconds =
    ucast hours * 3600 * configTICK_RATE_HZ + ucast minutes * 60 * configTICK_RATE_HZ +
    ucast seconds * configTICK_RATE_HZ + (ucast miliseconds * configTICK_RATE_HZ) div 1000"

definition OSDelayTaskHMSM :: "u8 \<Rightarrow> u8 \<Rightarrow> u8 \<Rightarrow> u16 \<Rightarrow> u8 \<times> u16 list" where
  "OSDelayTaskHMSM hours minutes seconds miliseconds =
    (if minutes > 59 then (INVALID_TIME, [])
     else if seconds > 59 then (INVALID_TIME, [])
     else if miliseconds > 999 then (INVALID_TIME, [])
     else
       (let ticks = HMSM_ticks hours minutes seconds miliseconds
        in if ticks > 0 then
             (let loops = ticks div 60000;
                  ticks = ticks mod 60000
              in (OK, ucast ticks # HMSM_loop (unat loops)))
           else (NO_TASK_DELAY, [])))"

subsection \<open>The tick handler\<close>

text \<open>One turn of the loop, for the task \<open>t\<close> the walk has reached.\<close>

definition tick_task :: "nat \<Rightarrow> kernel \<Rightarrow> kernel option" where
  "tick_task Task k =
    (if TimeToWait (ContextTask k Task) = OSTickCounter k then do {
       let iPrio = Priority (ContextTask k Task);
       let k1 = EnterCritical k;
       mask \<leftarrow> PriorityMask iPrio;
       let k2 = k1\<lparr>OSReadyList := OSReadyList k1 OR mask\<rparr>;
       let k3 = upd_task Task (\<lambda>c. c\<lparr>TimeToWait := EXIT_BY_TIMEOUT\<rparr>) k2;
       let k4 = ExitCritical k3;
       RemoveFromDelayList Task k4 }
     else Some k)"

text \<open>
  The loop follows \<open>Next\<close> pointers that it may change on its way, so that nothing in its shape says
  it ends: \<open>None\<close> also stands for the run that does not.
\<close>

partial_function (option) tick_walk :: "ptr \<Rightarrow> kernel \<Rightarrow> kernel option" where
  "tick_walk p k =
    (case p of
       None \<Rightarrow> Some k
     | Some Task \<Rightarrow>
         Option.bind (tick_task Task k) (\<lambda>k1. tick_walk (Next (ContextTask k1 Task)) k1))"

definition tick_load :: "kernel \<Rightarrow> kernel" where
  "tick_load k =
    (if DutyCnt k \<ge> 1000 then k\<lparr>DutyCnt := 0, LastOSDuty := ucast (OSDuty k), OSDuty := 0\<rparr>
     else
       (let k1 = (if OSDutyTmp k = 0 then k\<lparr>OSDuty := OSDuty k + 1\<rparr> else k)
        in k1\<lparr>OSDutyTmp := 0, DutyCnt := DutyCnt k1 + 1\<rparr>))"

definition OS_TICK_HANDLER :: "kernel \<Rightarrow> kernel option" where
  "OS_TICK_HANDLER k = do { k1 \<leftarrow> tick_walk (Head k) k; Some (tick_load k1) }"

text \<open>The idle task marks, on each turn of its loop, that the processor was free.\<close>

definition Idle_step :: "kernel \<Rightarrow> kernel" where
  "Idle_step k = k\<lparr>OSDutyTmp := 1\<rparr>"

subsection \<open>Equality up to links and interrupt bookkeeping\<close>

text \<open>
  \<open>quiet\<close> forgets the links of the delay list and the bookkeeping of critical sections: what two
  states that agree under it share is everything an operation means to change.
\<close>

definition quiet :: "kernel \<Rightarrow> kernel" where
  "quiet k = nolinks (core k)"

lemma quiet_frame [simp]:
  "ERROR_CHECK (quiet k) = ERROR_CHECK k"
  "PriorityVector (quiet k) = PriorityVector k"
  "iStackAddress (quiet k) = iStackAddress k"
  "iQueueAddress (quiet k) = iQueueAddress k"
  "StackAddress (quiet k) = StackAddress k"
  "NumberOfInstalledTasks (quiet k) = NumberOfInstalledTasks k"
  "currentTask (quiet k) = currentTask k"
  "SelectedTask (quiet k) = SelectedTask k"
  "OSReadyList (quiet k) = OSReadyList k"
  "OSBlockedList (quiet k) = OSBlockedList k"
  "OSTickCounter (quiet k) = OSTickCounter k"
  "OSDuty (quiet k) = OSDuty k"
  "OSDutyTmp (quiet k) = OSDutyTmp k"
  "LastOSDuty (quiet k) = LastOSDuty k"
  "DutyCnt (quiet k) = DutyCnt k"
  "TaskAlloc (quiet k) = TaskAlloc k"
  "BRTOS_Sem_Table (quiet k) = BRTOS_Sem_Table k"
  "BRTOS_Mutex_Table (quiet k) = BRTOS_Mutex_Table k"
  "BRTOS_Mbox_Table (quiet k) = BRTOS_Mbox_Table k"
  "BRTOS_Queue_Table (quiet k) = BRTOS_Queue_Table k"
  "BRTOS_OS_QUEUE_Table (quiet k) = BRTOS_OS_QUEUE_Table k"
  "QUEUE_STACK (quiet k) = QUEUE_STACK k"
  "SPvalue (quiet k) = SPvalue k"
  "InterruptEventMutex (quiet k) = InterruptEventMutex k"
  "IsrHandler (quiet k) = IsrHandler k"
  "UART_RX_buffer (quiet k) = UART_RX_buffer k"
  "SerialQ (quiet k) = SerialQ k"
  "TimeToWait (ContextTask (quiet k) t) = TimeToWait (ContextTask k t)"
  "Priority (ContextTask (quiet k) t) = Priority (ContextTask k t)"
  "TaskName (ContextTask (quiet k) t) = TaskName (ContextTask k t)"
  "StackPoint (ContextTask (quiet k) t) = StackPoint (ContextTask k t)"
  "StackInit (ContextTask (quiet k) t) = StackInit (ContextTask k t)"
  by (simp_all add: quiet_def nolinks_def core_def unlink_def)

lemma quiet_eqD:
  assumes "quiet k' = quiet k"
  shows
    "ERROR_CHECK k' = ERROR_CHECK k"
    and "PriorityVector k' = PriorityVector k"
    and "iStackAddress k' = iStackAddress k"
    and "iQueueAddress k' = iQueueAddress k"
    and "StackAddress k' = StackAddress k"
    and "NumberOfInstalledTasks k' = NumberOfInstalledTasks k"
    and "currentTask k' = currentTask k"
    and "SelectedTask k' = SelectedTask k"
    and "OSReadyList k' = OSReadyList k"
    and "OSBlockedList k' = OSBlockedList k"
    and "OSTickCounter k' = OSTickCounter k"
    and "OSDuty k' = OSDuty k"
    and "OSDutyTmp k' = OSDutyTmp k"
    and "LastOSDuty k' = LastOSDuty k"
    and "DutyCnt k' = DutyCnt k"
    and "TaskAlloc k' = TaskAlloc k"
    and "BRTOS_Sem_Table k' = BRTOS_Sem_Table k"
    and "BRTOS_Mutex_Table k' = BRTOS_Mutex_Table k"
    and "BRTOS_Mbox_Table k' = BRTOS_Mbox_Table k"
    and "BRTOS_Queue_Table k' = BRTOS_Queue_Table k"
    and "BRTOS_OS_QUEUE_Table k' = BRTOS_OS_QUEUE_Table k"
    and "QUEUE_STACK k' = QUEUE_STACK k"
    and "SPvalue k' = SPvalue k"
    and "InterruptEventMutex k' = InterruptEventMutex k"
    and "IsrHandler k' = IsrHandler k"
    and "UART_RX_buffer k' = UART_RX_buffer k"
    and "SerialQ k' = SerialQ k"
    and "TimeToWait (ContextTask k' t) = TimeToWait (ContextTask k t)"
    and "Priority (ContextTask k' t) = Priority (ContextTask k t)"
    and "TaskName (ContextTask k' t) = TaskName (ContextTask k t)"
    and "StackPoint (ContextTask k' t) = StackPoint (ContextTask k t)"
    and "StackInit (ContextTask k' t) = StackInit (ContextTask k t)"
proof -
  have *: "\<And>g. g (quiet k') = g (quiet k)" using assms by simp
  show "ERROR_CHECK k' = ERROR_CHECK k" using * [of ERROR_CHECK] by simp
  show "PriorityVector k' = PriorityVector k" using * [of PriorityVector] by simp
  show "iStackAddress k' = iStackAddress k" using * [of iStackAddress] by simp
  show "iQueueAddress k' = iQueueAddress k" using * [of iQueueAddress] by simp
  show "StackAddress k' = StackAddress k" using * [of StackAddress] by simp
  show "NumberOfInstalledTasks k' = NumberOfInstalledTasks k" using * [of NumberOfInstalledTasks] by simp
  show "currentTask k' = currentTask k" using * [of currentTask] by simp
  show "SelectedTask k' = SelectedTask k" using * [of SelectedTask] by simp
  show "OSReadyList k' = OSReadyList k" using * [of OSReadyList] by simp
  show "OSBlockedList k' = OSBlockedList k" using * [of OSBlockedList] by simp
  show "OSTickCounter k' = OSTickCounter k" using * [of OSTickCounter] by simp
  show "OSDuty k' = OSDuty k" using * [of OSDuty] by simp
  show "OSDutyTmp k' = OSDutyTmp k" using * [of OSDutyTmp] by simp
  show "LastOSDuty k' = LastOSDuty k" using * [of LastOSDuty] by simp
  show "DutyCnt k' = DutyCnt k" using * [of DutyCnt] by simp
  show "TaskAlloc k' = TaskAlloc k" using * [of TaskAlloc] by simp
  show "BRTOS_Sem_Table k' = BRTOS_Sem_Table k" using * [of BRTOS_Sem_Table] by simp
  show "BRTOS_Mutex_Table k' = BRTOS_Mutex_Table k" using * [of BRTOS_Mutex_Table] by simp
  show "BRTOS_Mbox_Table k' = BRTOS_Mbox_Table k" using * [of BRTOS_Mbox_Table] by simp
  show "BRTOS_Queue_Table k' = BRTOS_Queue_Table k" using * [of BRTOS_Queue_Table] by simp
  show "BRTOS_OS_QUEUE_Table k' = BRTOS_OS_QUEUE_Table k" using * [of BRTOS_OS_QUEUE_Table] by simp
  show "QUEUE_STACK k' = QUEUE_STACK k" using * [of QUEUE_STACK] by simp
  show "SPvalue k' = SPvalue k" using * [of SPvalue] by simp
  show "InterruptEventMutex k' = InterruptEventMutex k" using * [of InterruptEventMutex] by simp
  show "IsrHandler k' = IsrHandler k" using * [of IsrHandler] by simp
  show "UART_RX_buffer k' = UART_RX_buffer k" using * [of UART_RX_buffer] by simp
  show "SerialQ k' = SerialQ k" using * [of SerialQ] by simp
  show "TimeToWait (ContextTask k' t) = TimeToWait (ContextTask k t)"
    using * [of "\<lambda>s. TimeToWait (ContextTask s t)"] by simp
  show "Priority (ContextTask k' t) = Priority (ContextTask k t)"
    using * [of "\<lambda>s. Priority (ContextTask s t)"] by simp
  show "TaskName (ContextTask k' t) = TaskName (ContextTask k t)"
    using * [of "\<lambda>s. TaskName (ContextTask s t)"] by simp
  show "StackPoint (ContextTask k' t) = StackPoint (ContextTask k t)"
    using * [of "\<lambda>s. StackPoint (ContextTask s t)"] by simp
  show "StackInit (ContextTask k' t) = StackInit (ContextTask k t)"
    using * [of "\<lambda>s. StackInit (ContextTask s t)"] by simp
qed

lemma quiet_core [simp]: "quiet (core k) = quiet k"
  by (simp add: quiet_def core_def)

lemma quiet_cong_core: "core k' = core k \<Longrightarrow> quiet k' = quiet k"
  by (simp add: quiet_def)

lemma nolinks_core: "nolinks (core k) = core (nolinks k)"
  by (simp add: nolinks_def core_def)

lemma quiet_cong_nolinks: "nolinks k' = nolinks k \<Longrightarrow> quiet k' = quiet k"
  by (simp add: quiet_def nolinks_core)

lemma quiet_simps [simp]:
  "quiet (EnterCritical k) = quiet k"
  "quiet (ExitCritical k) = quiet k"
  "quiet (ChangeContext k) = quiet k"
  "quiet (EnterCritical_if_task k) = quiet k"
  "quiet (ExitCritical_if_task k) = quiet k"
  "quiet (ChangeContext_if_not_nested k) = quiet k"
  "quiet (IncludeTaskIntoDelayList t k) = quiet k"
  by (auto intro: quiet_cong_core quiet_cong_nolinks)

lemma quiet_Remove: "RemoveFromDelayList t k = Some k' \<Longrightarrow> quiet k' = quiet k"
  by (intro quiet_cong_nolinks nolinks_Remove)

subsection \<open>Counter arithmetic\<close>

text \<open>The counter runs through the \<open>0xFFFC\<close> values below \<open>TICK_COUNT_OVERFLOW\<close>.\<close>

definition tick_ok :: "kernel \<Rightarrow> bool" where
  "tick_ok k \<longleftrightarrow> OSTickCounter k < TICK_COUNT_OVERFLOW"

lemma tick_ok_unat: "tick_ok k \<longleftrightarrow> unat (OSTickCounter k) < 65532"
  by (simp add: tick_ok_def config word_less_nat_alt)

lemma unat_tick_after:
  assumes "unat c < 65532"
  shows "unat (tick_after c w) =
    (if unat c + unat w < 65532 then unat c + unat w else unat c + unat w - 65532)"
proof -
  have w: "unat w < 65536" by (rule unat_u16_less)
  have sum: "unat (ucast c + ucast w :: u32) = unat c + unat w"
    using assms w by (simp add: unat_word_ariths unsigned_ucast_eq take_bit_nat_eq_self)
  have lim: "unat (ucast (65532 :: u16) :: u32) = 65532" by simp
  show ?thesis
  proof (cases "unat c + unat w < 65532")
    case True
    then have "\<not> (ucast c + ucast w :: u32) \<ge> ucast (65532 :: u16)"
      by (simp add: word_le_nat_alt sum)
    then show ?thesis using True
      by (simp add: tick_after_def config unsigned_ucast_eq take_bit_nat_eq_self sum Let_def)
  next
    case False
    then have ge: "(ucast c + ucast w :: u32) \<ge> ucast (65532 :: u16)"
      by (simp add: word_le_nat_alt sum)
    have "unat (ucast c + ucast w - ucast (65532 :: u16) :: u32) = unat c + unat w - 65532"
      using unat_sub [OF ge] by (simp only: sum lim)
    then show ?thesis using False ge assms w
      by (simp add: tick_after_def config unsigned_ucast_eq take_bit_nat_eq_self Let_def)
  qed
qed

lemma tick_after_mod:
  assumes "unat c < 65532" "unat w \<le> 65532"
  shows "unat (tick_after c w) = (unat c + unat w) mod 65532"
  using assms by (simp add: unat_tick_after mod_if)

lemma unat_OSIncCounter:
  assumes "tick_ok k"
  shows "unat (OSTickCounter (OSIncCounter k)) = (unat (OSTickCounter k) + 1) mod 65532"
proof -
  have lt: "unat (OSTickCounter k) < 65532" using assms by (simp add: tick_ok_unat)
  then have inc: "unat (OSTickCounter k + 1) = unat (OSTickCounter k) + 1"
    by (simp add: unat_inc_u16)
  show ?thesis
  proof (cases "OSTickCounter k + 1 = 0xFFFC")
    case True
    then have "unat (OSTickCounter k) + 1 = 65532" using inc by simp
    then show ?thesis using True by (simp add: OSIncCounter_def config Let_def)
  next
    case False
    then have "unat (OSTickCounter k) + 1 \<noteq> 65532"
      using inc by (auto simp: word_unat_eq_iff)
    then show ?thesis using False lt inc by (simp add: OSIncCounter_def config Let_def)
  qed
qed

lemma tick_ok_OSIncCounter: "tick_ok k \<Longrightarrow> tick_ok (OSIncCounter k)"
  using unat_OSIncCounter [of k] by (simp add: tick_ok_unat)

lemma unat_OSIncCounter_iter:
  assumes "tick_ok k"
  shows "tick_ok ((OSIncCounter ^^ n) k) \<and>
    unat (OSTickCounter ((OSIncCounter ^^ n) k)) = (unat (OSTickCounter k) + n) mod 65532"
proof (induction n)
  case 0
  then show ?case using assms by (simp add: tick_ok_unat)
next
  case (Suc n)
  then show ?case
    by (simp add: tick_ok_OSIncCounter unat_OSIncCounter mod_Suc_eq)
qed

subsection \<open>The walk wakes exactly the tasks that are due\<close>

definition due :: "kernel \<Rightarrow> nat \<Rightarrow> bool" where
  "due k t \<longleftrightarrow> TimeToWait (ContextTask k t) = OSTickCounter k"

text \<open>What waking one task means, without links and critical sections.\<close>

definition wake :: "nat \<Rightarrow> kernel \<Rightarrow> kernel" where
  "wake t k = upd_task t (\<lambda>c. c\<lparr>TimeToWait := EXIT_BY_TIMEOUT\<rparr>)
     (k\<lparr>OSReadyList := OSReadyList k OR pbit (unat (Priority (ContextTask k t)))\<rparr>)"

lemma quiet_wake: "quiet (wake t k) = wake t (quiet k)"
  by (auto simp: quiet_def nolinks_def core_def wake_def upd_task_def unlink_def fun_eq_iff)

lemma quiet_wake_cong: "quiet k1 = quiet k2 \<Longrightarrow> quiet (wake t k1) = quiet (wake t k2)"
  by (simp add: quiet_wake)

lemma quiet_fold_wake: "quiet (fold wake ts k) = fold wake ts (quiet k)"
  by (induction ts arbitrary: k) (simp_all only: fold_simps quiet_wake)

lemma quiet_fold_wake_cong: "quiet k1 = quiet k2 \<Longrightarrow> quiet (fold wake ts k1) = quiet (fold wake ts k2)"
  by (simp only: quiet_fold_wake)

lemma wake_frame [simp]:
  "ERROR_CHECK (wake t k) = ERROR_CHECK k"
  "PriorityVector (wake t k) = PriorityVector k"
  "iStackAddress (wake t k) = iStackAddress k"
  "iQueueAddress (wake t k) = iQueueAddress k"
  "StackAddress (wake t k) = StackAddress k"
  "NumberOfInstalledTasks (wake t k) = NumberOfInstalledTasks k"
  "currentTask (wake t k) = currentTask k"
  "SelectedTask (wake t k) = SelectedTask k"
  "OSBlockedList (wake t k) = OSBlockedList k"
  "OSTickCounter (wake t k) = OSTickCounter k"
  "OSDuty (wake t k) = OSDuty k"
  "OSDutyTmp (wake t k) = OSDutyTmp k"
  "LastOSDuty (wake t k) = LastOSDuty k"
  "DutyCnt (wake t k) = DutyCnt k"
  "TaskAlloc (wake t k) = TaskAlloc k"
  "iNesting (wake t k) = iNesting k"
  "Tail (wake t k) = Tail k"
  "Head (wake t k) = Head k"
  "BRTOS_Sem_Table (wake t k) = BRTOS_Sem_Table k"
  "BRTOS_Mutex_Table (wake t k) = BRTOS_Mutex_Table k"
  "BRTOS_Mbox_Table (wake t k) = BRTOS_Mbox_Table k"
  "BRTOS_Queue_Table (wake t k) = BRTOS_Queue_Table k"
  "BRTOS_OS_QUEUE_Table (wake t k) = BRTOS_OS_QUEUE_Table k"
  "QUEUE_STACK (wake t k) = QUEUE_STACK k"
  "SPvalue (wake t k) = SPvalue k"
  "PendingInterrupts (wake t k) = PendingInterrupts k"
  "InterruptEventMutex (wake t k) = InterruptEventMutex k"
  "InterruptEvent (wake t k) = InterruptEvent k"
  "IsrHandler (wake t k) = IsrHandler k"
  "UART_RX_buffer (wake t k) = UART_RX_buffer k"
  "SerialQ (wake t k) = SerialQ k"
  by (simp_all add: wake_def upd_task_def)

lemma wake_task_frame [simp]:
  "Priority (ContextTask (wake t k) u) = Priority (ContextTask k u)"
  "TaskName (ContextTask (wake t k) u) = TaskName (ContextTask k u)"
  "StackPoint (ContextTask (wake t k) u) = StackPoint (ContextTask k u)"
  "StackInit (ContextTask (wake t k) u) = StackInit (ContextTask k u)"
  "Next (ContextTask (wake t k) u) = Next (ContextTask k u)"
  "Previous (ContextTask (wake t k) u) = Previous (ContextTask k u)"
  by (simp_all add: wake_def upd_task_def)

lemma TimeToWait_wake [simp]:
  "TimeToWait (ContextTask (wake t k) u) =
    (if u = t then EXIT_BY_TIMEOUT else TimeToWait (ContextTask k u))"
  by (simp add: wake_def upd_task_def)

lemma OSReadyList_wake [simp]:
  "OSReadyList (wake t k) = OSReadyList k OR pbit (unat (Priority (ContextTask k t)))"
  by (simp add: wake_def upd_task_def)

lemma fold_wake_frame [simp]:
  "ERROR_CHECK (fold wake ts k) = ERROR_CHECK k"
  "PriorityVector (fold wake ts k) = PriorityVector k"
  "iStackAddress (fold wake ts k) = iStackAddress k"
  "iQueueAddress (fold wake ts k) = iQueueAddress k"
  "StackAddress (fold wake ts k) = StackAddress k"
  "NumberOfInstalledTasks (fold wake ts k) = NumberOfInstalledTasks k"
  "currentTask (fold wake ts k) = currentTask k"
  "SelectedTask (fold wake ts k) = SelectedTask k"
  "OSBlockedList (fold wake ts k) = OSBlockedList k"
  "OSTickCounter (fold wake ts k) = OSTickCounter k"
  "OSDuty (fold wake ts k) = OSDuty k"
  "OSDutyTmp (fold wake ts k) = OSDutyTmp k"
  "LastOSDuty (fold wake ts k) = LastOSDuty k"
  "DutyCnt (fold wake ts k) = DutyCnt k"
  "TaskAlloc (fold wake ts k) = TaskAlloc k"
  "iNesting (fold wake ts k) = iNesting k"
  "Tail (fold wake ts k) = Tail k"
  "Head (fold wake ts k) = Head k"
  "BRTOS_Sem_Table (fold wake ts k) = BRTOS_Sem_Table k"
  "BRTOS_Mutex_Table (fold wake ts k) = BRTOS_Mutex_Table k"
  "BRTOS_Mbox_Table (fold wake ts k) = BRTOS_Mbox_Table k"
  "BRTOS_Queue_Table (fold wake ts k) = BRTOS_Queue_Table k"
  "BRTOS_OS_QUEUE_Table (fold wake ts k) = BRTOS_OS_QUEUE_Table k"
  "QUEUE_STACK (fold wake ts k) = QUEUE_STACK k"
  "SPvalue (fold wake ts k) = SPvalue k"
  "PendingInterrupts (fold wake ts k) = PendingInterrupts k"
  "InterruptEventMutex (fold wake ts k) = InterruptEventMutex k"
  "InterruptEvent (fold wake ts k) = InterruptEvent k"
  "IsrHandler (fold wake ts k) = IsrHandler k"
  "UART_RX_buffer (fold wake ts k) = UART_RX_buffer k"
  "SerialQ (fold wake ts k) = SerialQ k"
  by (induction ts arbitrary: k) simp_all

lemma fold_wake_task_frame [simp]:
  "Priority (ContextTask (fold wake ts k) u) = Priority (ContextTask k u)"
  "TaskName (ContextTask (fold wake ts k) u) = TaskName (ContextTask k u)"
  "StackPoint (ContextTask (fold wake ts k) u) = StackPoint (ContextTask k u)"
  "StackInit (ContextTask (fold wake ts k) u) = StackInit (ContextTask k u)"
  by (induction ts arbitrary: k) simp_all

lemma TimeToWait_fold_wake [simp]:
  "TimeToWait (ContextTask (fold wake ts k) u) =
    (if u \<in> set ts then EXIT_BY_TIMEOUT else TimeToWait (ContextTask k u))"
  by (induction ts arbitrary: k) auto

lemma bit_OSReadyList_fold_wake:
  assumes "\<forall>t \<in> set ts. unat (Priority (ContextTask k t)) < 32"
  shows "bit (OSReadyList (fold wake ts k)) i \<longleftrightarrow>
    bit (OSReadyList k) i \<or> (\<exists>t \<in> set ts. unat (Priority (ContextTask k t)) = i)"
  using assms by (induction ts arbitrary: k) (auto simp: bit_or_iff bits)

lemma prios_OSReadyList_fold_wake:
  assumes "\<forall>t \<in> set ts. unat (Priority (ContextTask k t)) < 32"
  shows "prios (OSReadyList (fold wake ts k)) =
    prios (OSReadyList k) \<union> (\<lambda>t. unat (Priority (ContextTask k t))) ` set ts"
  using bit_OSReadyList_fold_wake [OF assms] by (auto simp: prios_def)

text \<open>One turn of the loop.\<close>

lemma tick_task_due:
  assumes "dlist k (xs @ t # ys)" "due k t" "unat (Priority (ContextTask k t)) < 32" "nestable k"
  shows "\<exists>k'. tick_task t k = Some k' \<and> dlist k' (xs @ ys) \<and> quiet k' = quiet (wake t k) \<and>
    iNesting k' = iNesting k \<and> PendingInterrupts k' = PendingInterrupts k \<and>
    Next (ContextTask k' t) = first ys NULL"
proof -
  let ?k4 = "ExitCritical (upd_task t (\<lambda>c. c\<lparr>TimeToWait := EXIT_BY_TIMEOUT\<rparr>)
    ((EnterCritical k)\<lparr>OSReadyList :=
       OSReadyList (EnterCritical k) OR pbit (unat (Priority (ContextTask k t)))\<rparr>))"
  have eq: "tick_task t k = RemoveFromDelayList t ?k4"
    using assms(2,3) by (simp add: tick_task_def due_def PriorityMask_Some Let_def)
  have q: "quiet ?k4 = quiet (wake t k)"
    by (rule quiet_cong_core) (simp add: wake_def upd_task_def core_def EnterCritical_def)
  have ne: "iNesting k + 1 \<noteq> 0" using assms(4) by (rule nestable_inc)
  have n: "iNesting ?k4 = iNesting k" "PendingInterrupts ?k4 = PendingInterrupts k"
    using ne by (simp_all add: iNesting_ExitCritical upd_task_def)
  have d: "dlist ?k4 (xs @ t # ys)"
    by (rule dlist_cong [OF assms(1)]) (auto simp: upd_task_def)
  then obtain k' where k': "RemoveFromDelayList t ?k4 = Some k'" "dlist k' (xs @ ys)"
    using Remove_dlist_split by blast
  have "Next (ContextTask k' t) = first ys NULL" by (rule Remove_keeps_Next [OF d k'(1)])
  moreover have "tick_task t k = Some k'" using eq k'(1) by (rule trans)
  moreover have "quiet k' = quiet (wake t k)" using quiet_Remove [OF k'(1)] q by (rule trans)
  moreover have "iNesting k' = iNesting k" using Remove_frame(17) [OF k'(1)] n(1) by (rule trans)
  moreover have "PendingInterrupts k' = PendingInterrupts k"
    using Remove_frame(25) [OF k'(1)] n(2) by (rule trans)
  ultimately show ?thesis using k'(2) by blast
qed

lemma tick_task_not_due:
  assumes "\<not> due k t" shows "tick_task t k = Some k"
  using assms by (simp add: tick_task_def due_def)

lemma filter_cong_due:
  assumes "quiet k1 = quiet (wake t k)" "t \<notin> set ts"
  shows "filter (due k1) ts = filter (due k) ts" "filter (\<lambda>u. \<not> due k1 u) ts = filter (\<lambda>u. \<not> due k u) ts"
proof -
  have "due k1 u = due k u" if "u \<in> set ts" for u
    using quiet_eqD(11,28) [OF assms(1)] assms(2) that by (auto simp: due_def)
  then show "filter (due k1) ts = filter (due k) ts" "filter (\<lambda>u. \<not> due k1 u) ts = filter (\<lambda>u. \<not> due k u) ts"
    by (auto intro: filter_cong)
qed

lemma tick_walk_dlist:
  assumes "dlist k (ks @ bs)" "\<forall>t \<in> set bs. unat (Priority (ContextTask k t)) < 32" "nestable k"
  shows "\<exists>k'. tick_walk (first bs NULL) k = Some k' \<and> dlist k' (ks @ filter (\<lambda>t. \<not> due k t) bs) \<and>
    quiet k' = quiet (fold wake (filter (due k) bs) k) \<and> iNesting k' = iNesting k \<and>
    PendingInterrupts k' = PendingInterrupts k"
  using assms
proof (induction bs arbitrary: k ks)
  case Nil
  then show ?case by (simp add: tick_walk.simps)
next
  case (Cons t bs)
  have t: "t \<notin> set bs" using dlist_distinct [OF Cons.prems(1)] by simp
  show ?case
  proof (cases "due k t")
    case True
    obtain k1 where k1: "tick_task t k = Some k1" "dlist k1 (ks @ bs)" "quiet k1 = quiet (wake t k)"
      "iNesting k1 = iNesting k" "PendingInterrupts k1 = PendingInterrupts k"
      "Next (ContextTask k1 t) = first bs NULL"
      using tick_task_due [OF Cons.prems(1) True _ Cons.prems(3)] Cons.prems(2) by auto
    have "\<forall>u \<in> set bs. unat (Priority (ContextTask k1 u)) < 32"
      using Cons.prems(2) quiet_eqD(29) [OF k1(3)] by simp
    moreover have "nestable k1" using Cons.prems(3) k1(4) by (simp add: nestable_def)
    ultimately obtain k' where k': "tick_walk (first bs NULL) k1 = Some k'"
      "dlist k' (ks @ filter (\<lambda>t. \<not> due k1 t) bs)" "quiet k' = quiet (fold wake (filter (due k1) bs) k1)"
      "iNesting k' = iNesting k1" "PendingInterrupts k' = PendingInterrupts k1"
      using Cons.IH [OF k1(2)] by blast
    then show ?thesis
      using True k1 quiet_fold_wake_cong [OF k1(3)] filter_cong_due [OF k1(3) t]
      by (simp add: tick_walk.simps [of "Some t"] del: fold_wake_frame)
  next
    case False
    have "Next (ContextTask k t) = first bs NULL"
      using Cons.prems(1) by (auto simp: dlist_def dseg_append)
    then show ?thesis
      using Cons.IH [of k "ks @ [t]"] Cons.prems False
      by (simp add: tick_walk.simps [of "Some t"] tick_task_not_due)
  qed
qed

text \<open>The load figures are no concern of the other components.\<close>

lemma tick_load_frame [simp]:
  "ERROR_CHECK (tick_load k) = ERROR_CHECK k"
  "PriorityVector (tick_load k) = PriorityVector k"
  "iStackAddress (tick_load k) = iStackAddress k"
  "iQueueAddress (tick_load k) = iQueueAddress k"
  "StackAddress (tick_load k) = StackAddress k"
  "NumberOfInstalledTasks (tick_load k) = NumberOfInstalledTasks k"
  "currentTask (tick_load k) = currentTask k"
  "SelectedTask (tick_load k) = SelectedTask k"
  "OSReadyList (tick_load k) = OSReadyList k"
  "OSBlockedList (tick_load k) = OSBlockedList k"
  "OSTickCounter (tick_load k) = OSTickCounter k"
  "TaskAlloc (tick_load k) = TaskAlloc k"
  "iNesting (tick_load k) = iNesting k"
  "Tail (tick_load k) = Tail k"
  "Head (tick_load k) = Head k"
  "BRTOS_Sem_Table (tick_load k) = BRTOS_Sem_Table k"
  "BRTOS_Mutex_Table (tick_load k) = BRTOS_Mutex_Table k"
  "BRTOS_Mbox_Table (tick_load k) = BRTOS_Mbox_Table k"
  "BRTOS_Queue_Table (tick_load k) = BRTOS_Queue_Table k"
  "BRTOS_OS_QUEUE_Table (tick_load k) = BRTOS_OS_QUEUE_Table k"
  "QUEUE_STACK (tick_load k) = QUEUE_STACK k"
  "ContextTask (tick_load k) = ContextTask k"
  "SPvalue (tick_load k) = SPvalue k"
  "PendingInterrupts (tick_load k) = PendingInterrupts k"
  "InterruptEventMutex (tick_load k) = InterruptEventMutex k"
  "InterruptEvent (tick_load k) = InterruptEvent k"
  "IsrHandler (tick_load k) = IsrHandler k"
  "UART_RX_buffer (tick_load k) = UART_RX_buffer k"
  "SerialQ (tick_load k) = SerialQ k"
  by (simp_all add: tick_load_def Let_def)

lemma dlist_tick_load [simp]: "dlist (tick_load k) xs = dlist k xs"
  by (simp add: dlist_def)

text \<open>The tables of events and queues, which ticks do not touch.\<close>

definition tables where
  "tables k = (BRTOS_Sem_Table k, BRTOS_Mutex_Table k, BRTOS_Mbox_Table k, BRTOS_Queue_Table k,
     BRTOS_OS_QUEUE_Table k, QUEUE_STACK k)"

text \<open>
  The delay list in good order: linked, its tasks at priorities the ready list has a bit for, no two
  of them at the same one.
\<close>

definition prio_of :: "kernel \<Rightarrow> nat \<Rightarrow> nat" where
  "prio_of k t = unat (Priority (ContextTask k t))"

definition delays_ok :: "kernel \<Rightarrow> nat list \<Rightarrow> bool" where
  "delays_ok k xs \<longleftrightarrow> dlist k xs \<and> tick_ok k \<and> nestable k \<and>
     (\<forall>t \<in> set xs. prio_of k t < 32) \<and> inj_on (prio_of k) (set xs)"

lemma OS_TICK_HANDLER_dlist:
  assumes "dlist k xs" "\<forall>t \<in> set xs. prio_of k t < 32" "nestable k"
  obtains k' where "OS_TICK_HANDLER k = Some k'" "dlist k' (filter (\<lambda>t. \<not> due k t) xs)"
    "prios (OSReadyList k') = prios (OSReadyList k) \<union> prio_of k ` {t \<in> set xs. due k t}"
    "\<And>t. TimeToWait (ContextTask k' t) =
       (if t \<in> set xs \<and> due k t then EXIT_BY_TIMEOUT else TimeToWait (ContextTask k t))"
    "\<And>t. prio_of k' t = prio_of k t"
    "OSTickCounter k' = OSTickCounter k" "iNesting k' = iNesting k"
    "PendingInterrupts k' = PendingInterrupts k" "OSBlockedList k' = OSBlockedList k"
    "currentTask k' = currentTask k" "PriorityVector k' = PriorityVector k" "TaskAlloc k' = TaskAlloc k"
    "NumberOfInstalledTasks k' = NumberOfInstalledTasks k" "tables k' = tables k" "ERROR_CHECK k' = ERROR_CHECK k"
proof -
  have p: "\<forall>t \<in> set xs. unat (Priority (ContextTask k t)) < 32"
    using assms(2) by (simp add: prio_of_def)
  obtain k1 where k1: "tick_walk (Head k) k = Some k1" "dlist k1 (filter (\<lambda>t. \<not> due k t) xs)"
    "quiet k1 = quiet (fold wake (filter (due k) xs) k)" "iNesting k1 = iNesting k"
    "PendingInterrupts k1 = PendingInterrupts k"
    using tick_walk_dlist [of k "[]" xs] assms p dlist_Head [OF assms(1)] by auto
  have q: "quiet k1 = quiet (fold wake (filter (due k) xs) k)" by (rule k1(3))
  show thesis
  proof (rule that [of "tick_load k1"])
    show "prios (OSReadyList (tick_load k1)) =
      prios (OSReadyList k) \<union> prio_of k ` {t \<in> set xs. due k t}"
      using prios_OSReadyList_fold_wake [of "filter (due k) xs" k] p quiet_eqD(9) [OF q]
      by (simp add: prio_of_def)
  qed (use k1 quiet_eqD [OF q] in \<open>auto simp: OS_TICK_HANDLER_def prio_of_def tables_def\<close>)
qed

subsection \<open>Ticks\<close>

text \<open>The tick interrupt's handler in \<open>HAL.c\<close>, and a run of several of them.\<close>

definition TickTimer :: "kernel \<Rightarrow> kernel option" where
  "TickTimer k = OS_TICK_HANDLER (OSIncCounter k)"

primrec ticks :: "nat \<Rightarrow> kernel \<Rightarrow> kernel option" where
  "ticks 0 k = Some k"
| "ticks (Suc n) k = do { k1 \<leftarrow> ticks n k; TickTimer k1 }"

lemma OSIncCounter_frame [simp]:
  "ERROR_CHECK (OSIncCounter k) = ERROR_CHECK k"
  "PriorityVector (OSIncCounter k) = PriorityVector k"
  "iStackAddress (OSIncCounter k) = iStackAddress k"
  "iQueueAddress (OSIncCounter k) = iQueueAddress k"
  "StackAddress (OSIncCounter k) = StackAddress k"
  "NumberOfInstalledTasks (OSIncCounter k) = NumberOfInstalledTasks k"
  "currentTask (OSIncCounter k) = currentTask k"
  "SelectedTask (OSIncCounter k) = SelectedTask k"
  "OSReadyList (OSIncCounter k) = OSReadyList k"
  "OSBlockedList (OSIncCounter k) = OSBlockedList k"
  "OSDuty (OSIncCounter k) = OSDuty k"
  "OSDutyTmp (OSIncCounter k) = OSDutyTmp k"
  "LastOSDuty (OSIncCounter k) = LastOSDuty k"
  "DutyCnt (OSIncCounter k) = DutyCnt k"
  "TaskAlloc (OSIncCounter k) = TaskAlloc k"
  "iNesting (OSIncCounter k) = iNesting k"
  "Tail (OSIncCounter k) = Tail k"
  "Head (OSIncCounter k) = Head k"
  "BRTOS_Sem_Table (OSIncCounter k) = BRTOS_Sem_Table k"
  "BRTOS_Mutex_Table (OSIncCounter k) = BRTOS_Mutex_Table k"
  "BRTOS_Mbox_Table (OSIncCounter k) = BRTOS_Mbox_Table k"
  "BRTOS_Queue_Table (OSIncCounter k) = BRTOS_Queue_Table k"
  "BRTOS_OS_QUEUE_Table (OSIncCounter k) = BRTOS_OS_QUEUE_Table k"
  "QUEUE_STACK (OSIncCounter k) = QUEUE_STACK k"
  "ContextTask (OSIncCounter k) = ContextTask k"
  "SPvalue (OSIncCounter k) = SPvalue k"
  "PendingInterrupts (OSIncCounter k) = PendingInterrupts k"
  "InterruptEventMutex (OSIncCounter k) = InterruptEventMutex k"
  "InterruptEvent (OSIncCounter k) = InterruptEvent k"
  "IsrHandler (OSIncCounter k) = IsrHandler k"
  "UART_RX_buffer (OSIncCounter k) = UART_RX_buffer k"
  "SerialQ (OSIncCounter k) = SerialQ k"
  by (simp_all add: OSIncCounter_def Let_def)

lemma dlist_OSIncCounter [simp]: "dlist (OSIncCounter k) xs = dlist k xs"
  by (simp add: dlist_def)

lemma prio_of_OSIncCounter [simp]: "prio_of (OSIncCounter k) t = prio_of k t"
  by (simp add: prio_of_def)

lemma TickTimer_delays_ok:
  assumes "delays_ok k xs"
  defines "k0 \<equiv> OSIncCounter k"
  obtains k' where "TickTimer k = Some k'" "delays_ok k' (filter (\<lambda>t. \<not> due k0 t) xs)"
    "prios (OSReadyList k') = prios (OSReadyList k) \<union> prio_of k ` {t \<in> set xs. due k0 t}"
    "\<And>t. TimeToWait (ContextTask k' t) =
       (if t \<in> set xs \<and> due k0 t then EXIT_BY_TIMEOUT else TimeToWait (ContextTask k t))"
    "\<And>t. prio_of k' t = prio_of k t" "OSTickCounter k' = OSTickCounter k0"
    "OSBlockedList k' = OSBlockedList k" "currentTask k' = currentTask k"
    "PriorityVector k' = PriorityVector k" "TaskAlloc k' = TaskAlloc k"
    "NumberOfInstalledTasks k' = NumberOfInstalledTasks k" "tables k' = tables k"
    "iNesting k' = iNesting k" "PendingInterrupts k' = PendingInterrupts k" "ERROR_CHECK k' = ERROR_CHECK k"
proof -
  have d: "dlist k0 xs" "\<forall>t \<in> set xs. prio_of k0 t < 32" "nestable k0" "tick_ok k0"
    using assms by (simp_all add: delays_ok_def nestable_def tick_ok_OSIncCounter)
  obtain k' where k': "OS_TICK_HANDLER k0 = Some k'" "dlist k' (filter (\<lambda>t. \<not> due k0 t) xs)"
    "prios (OSReadyList k') = prios (OSReadyList k0) \<union> prio_of k0 ` {t \<in> set xs. due k0 t}"
    "\<And>t. TimeToWait (ContextTask k' t) =
       (if t \<in> set xs \<and> due k0 t then EXIT_BY_TIMEOUT else TimeToWait (ContextTask k0 t))"
    "\<And>t. prio_of k' t = prio_of k0 t" "OSTickCounter k' = OSTickCounter k0"
    "iNesting k' = iNesting k0" "OSBlockedList k' = OSBlockedList k0" "currentTask k' = currentTask k0"
    "PriorityVector k' = PriorityVector k0" "TaskAlloc k' = TaskAlloc k0"
    "NumberOfInstalledTasks k' = NumberOfInstalledTasks k0" "tables k' = tables k0"
    "PendingInterrupts k' = PendingInterrupts k0" "ERROR_CHECK k' = ERROR_CHECK k0"
    by (rule OS_TICK_HANDLER_dlist [OF d(1-3)]) blast
  have "inj_on (prio_of k') (set (filter (\<lambda>t. \<not> due k0 t) xs))"
  proof (rule inj_on_subset)
    show "inj_on (prio_of k') (set xs)"
      using assms(1) k'(5) by (auto simp: delays_ok_def inj_on_def k0_def)
  qed auto
  then have "delays_ok k' (filter (\<lambda>t. \<not> due k0 t) xs)"
    using d k'(2,5,6,7) by (simp add: delays_ok_def nestable_def tick_ok_def)
  with that [of k'] k' show thesis by (simp add: TickTimer_def k0_def tables_def)
qed

end
