(* ===== verification/Delays.thy ===== *)
theory Delays
  imports Timing
begin

text \<open>
  Delays over runs of ticks: a delay of \<open>w\<close> ticks ends with the \<open>w\<close>-th tick after it began, and the
  splitting of long delays adds up.
\<close>

text \<open>
  While the ticks of a delay pass, the task stays in the list; with the last one it leaves.
\<close>

lemma OSTickCounter_iter_Suc:
  "OSTickCounter ((OSIncCounter ^^ Suc n) k) = OSTickCounter (OSIncCounter ((OSIncCounter ^^ n) k))"
  by simp

lemma tick_after_reached_iff:
  assumes "tick_ok k" "0 < n" "n \<le> unat w" "unat w \<le> 65532"
  shows "tick_after (OSTickCounter k) w = OSTickCounter ((OSIncCounter ^^ n) k) \<longleftrightarrow> n = unat w"
proof -
  have c: "unat (OSTickCounter k) < 65532" using assms(1) by (simp add: tick_ok_unat)
  have "tick_after (OSTickCounter k) w = OSTickCounter ((OSIncCounter ^^ n) k) \<longleftrightarrow>
    (unat (OSTickCounter k) + unat w) mod 65532 = (unat (OSTickCounter k) + n) mod 65532"
    using unat_OSIncCounter_iter [OF assms(1), of n] tick_after_mod [OF c assms(4)]
    by (simp add: word_unat_eq_iff)
  also have "\<dots> \<longleftrightarrow> n = unat w"
    using assms c by (auto simp: mod_if)
  finally show ?thesis .
qed

lemma OSIncCounter_iter_cong:
  assumes "OSTickCounter k = OSTickCounter l"
  shows "OSTickCounter ((OSIncCounter ^^ n) k) = OSTickCounter ((OSIncCounter ^^ n) l)"
  using assms by (induction n) (simp_all add: OSIncCounter_def Let_def)

lemma ticks_pending:
  assumes "delays_ok k xs" "t \<in> set xs"
    and "TimeToWait (ContextTask k t) = tick_after (OSTickCounter k) w" "unat w \<le> 65532" "n < unat w"
  shows "\<exists>k' ys. ticks n k = Some k' \<and> delays_ok k' ys \<and> set ys \<subseteq> set xs \<and> t \<in> set ys \<and>
    TimeToWait (ContextTask k' t) = TimeToWait (ContextTask k t) \<and>
    (\<forall>u. prio_of k' u = prio_of k u) \<and>
    OSTickCounter k' = OSTickCounter ((OSIncCounter ^^ n) k) \<and>
    (bit (OSReadyList k') (prio_of k t) \<longleftrightarrow> bit (OSReadyList k) (prio_of k t)) \<and>
    tables k' = tables k \<and> iNesting k' = iNesting k \<and> ERROR_CHECK k' = ERROR_CHECK k"
  using assms(5)
proof (induction n)
  case 0
  then show ?case using assms by auto
next
  case (Suc n)
  obtain k1 ys where k1: "ticks n k = Some k1" "delays_ok k1 ys" "set ys \<subseteq> set xs" "t \<in> set ys"
    "TimeToWait (ContextTask k1 t) = TimeToWait (ContextTask k t)" "\<And>u. prio_of k1 u = prio_of k u"
    "OSTickCounter k1 = OSTickCounter ((OSIncCounter ^^ n) k)"
    "bit (OSReadyList k1) (prio_of k t) \<longleftrightarrow> bit (OSReadyList k) (prio_of k t)"
    "tables k1 = tables k" "iNesting k1 = iNesting k" "ERROR_CHECK k1 = ERROR_CHECK k"
    using Suc.IH [OF Suc_lessD [OF Suc.prems]] by auto
  let ?k0 = "OSIncCounter k1"
  obtain k2 where k2: "TickTimer k1 = Some k2" "delays_ok k2 (filter (\<lambda>t. \<not> due ?k0 t) ys)"
    "prios (OSReadyList k2) = prios (OSReadyList k1) \<union> prio_of k1 ` {t \<in> set ys. due ?k0 t}"
    "\<And>t. TimeToWait (ContextTask k2 t) =
       (if t \<in> set ys \<and> due ?k0 t then EXIT_BY_TIMEOUT else TimeToWait (ContextTask k1 t))"
    "\<And>t. prio_of k2 t = prio_of k1 t" "OSTickCounter k2 = OSTickCounter ?k0"
    "tables k2 = tables k1" "iNesting k2 = iNesting k1" "ERROR_CHECK k2 = ERROR_CHECK k1"
    by (rule TickTimer_delays_ok [OF k1(2)]) blast
  have cnt: "OSTickCounter ?k0 = OSTickCounter ((OSIncCounter ^^ Suc n) k)"
    using OSIncCounter_iter_cong [OF k1(7), of 1] by simp
  have "tick_ok k" using assms(1) by (simp add: delays_ok_def)
  then have "tick_after (OSTickCounter k) w \<noteq> OSTickCounter ((OSIncCounter ^^ Suc n) k)"
    using tick_after_reached_iff [of k "Suc n" w] assms(4) Suc.prems by (simp del: funpow.simps)
  then have nd: "\<not> due ?k0 t" using cnt k1(5) assms(3) by (simp add: due_def)
  moreover have "prio_of k t \<notin> prio_of k1 ` {u \<in> set ys. due ?k0 u}"
    using k1(2,4,6) nd by (auto simp: delays_ok_def inj_on_def)
  then have "bit (OSReadyList k2) (prio_of k t) \<longleftrightarrow> bit (OSReadyList k1) (prio_of k t)"
    using k2(3) by (metis Un_iff prios_iff)
  ultimately show ?case
    using k1 k2 cnt by (intro exI [of _ k2] exI [of _ "filter (\<lambda>t. \<not> due ?k0 t) ys"])
      (auto simp del: funpow.simps)
qed

lemma ticks_expired:
  assumes "delays_ok k xs" "t \<in> set xs"
    and "TimeToWait (ContextTask k t) = tick_after (OSTickCounter k) w" "unat w \<le> 65532" "0 < unat w"
  shows "\<exists>k' ys. ticks (unat w) k = Some k' \<and> delays_ok k' ys \<and> t \<notin> set ys \<and>
    TimeToWait (ContextTask k' t) = EXIT_BY_TIMEOUT \<and> bit (OSReadyList k') (prio_of k t) \<and>
    tables k' = tables k \<and> iNesting k' = iNesting k \<and> ERROR_CHECK k' = ERROR_CHECK k"
proof -
  obtain n where n: "unat w = Suc n" using assms(5) by (cases "unat w") auto
  obtain k1 ys where k1: "ticks n k = Some k1" "delays_ok k1 ys" "t \<in> set ys"
    "TimeToWait (ContextTask k1 t) = TimeToWait (ContextTask k t)" "\<And>u. prio_of k1 u = prio_of k u"
    "OSTickCounter k1 = OSTickCounter ((OSIncCounter ^^ n) k)" "tables k1 = tables k"
    "iNesting k1 = iNesting k" "ERROR_CHECK k1 = ERROR_CHECK k"
    using ticks_pending [OF assms(1-4), of n] n by auto
  let ?k0 = "OSIncCounter k1"
  obtain k2 where k2: "TickTimer k1 = Some k2" "delays_ok k2 (filter (\<lambda>t. \<not> due ?k0 t) ys)"
    "prios (OSReadyList k2) = prios (OSReadyList k1) \<union> prio_of k1 ` {t \<in> set ys. due ?k0 t}"
    "\<And>t. TimeToWait (ContextTask k2 t) =
       (if t \<in> set ys \<and> due ?k0 t then EXIT_BY_TIMEOUT else TimeToWait (ContextTask k1 t))"
    "tables k2 = tables k1" "iNesting k2 = iNesting k1" "ERROR_CHECK k2 = ERROR_CHECK k1"
    by (rule TickTimer_delays_ok [OF k1(2)]) blast
  have cnt: "OSTickCounter ?k0 = OSTickCounter ((OSIncCounter ^^ Suc n) k)"
    using OSIncCounter_iter_cong [OF k1(6), of 1] by simp
  have "tick_ok k" using assms(1) by (simp add: delays_ok_def)
  then have "tick_after (OSTickCounter k) w = OSTickCounter ((OSIncCounter ^^ Suc n) k)"
    using tick_after_reached_iff [of k "Suc n" w] assms(4) n by (simp del: funpow.simps)
  then have d: "due ?k0 t" using cnt k1(4) assms(3) by (simp add: due_def)
  then have "prio_of k t \<in> prios (OSReadyList k2)" using k1(3,5) k2(3) by auto
  then show ?thesis
    using n d k1 k2 by (intro exI [of _ k2] exI [of _ "filter (\<lambda>t. \<not> due ?k0 t) ys"]) (auto simp: bits)
qed

subsection \<open>The delay of the running task\<close>

lemma OSDelayTask_guards:
  "iNesting k > 0 \<Longrightarrow> OSDelayTask w k = Some (IRQ_PEND_ERR, k)"
  "iNesting k = 0 \<Longrightarrow> currentTask k = 0 \<Longrightarrow> OSDelayTask w k = Some (NOT_VALID_TASK, k)"
  "iNesting k = 0 \<Longrightarrow> currentTask k \<noteq> 0 \<Longrightarrow> OSDelayTask 0 k = Some (NO_TASK_DELAY, k)"
  by (simp_all add: OSDelayTask_def)

text \<open>A task that can be suspended: it runs, outside interrupts, and is not yet in the list.\<close>

definition suspendable :: "kernel \<Rightarrow> nat list \<Rightarrow> bool" where
  "suspendable k xs \<longleftrightarrow> iNesting k = 0 \<and> 0 < unat (currentTask k) \<and>
     unat (currentTask k) \<le> NUMBER_OF_TASKS \<and> delays_ok k xs \<and>
     unat (currentTask k) \<notin> set xs \<and> prio_of k (unat (currentTask k)) < 32 \<and>
     prio_of k (unat (currentTask k)) \<notin> prio_of k ` set xs"

lemma suspendable_current: "suspendable k xs \<Longrightarrow> currentTask k \<noteq> 0"
  by (auto simp: suspendable_def)

lemma OSDelayTask_OK:
  assumes "suspendable k xs" "0 < w"
  defines "t \<equiv> unat (currentTask k)"
  obtains k' where "OSDelayTask w k = Some (OK, k')" "delays_ok k' (xs @ [t])"
    "TimeToWait (ContextTask k' t) = tick_after (OSTickCounter k) w"
    "OSTickCounter k' = OSTickCounter k" "prios (OSReadyList k') = prios (OSReadyList k) - {prio_of k t}"
    "\<And>u. prio_of k' u = prio_of k u" "iNesting k' = 0" "currentTask k' = currentTask k"
    "InterruptEventMutex k \<Longrightarrow> bit (PendingInterrupts k') INTERRUPT_SWC \<and> InterruptEvent k'"
proof -
  define k2 where
    "k2 = upd_task t (\<lambda>c. c\<lparr>TimeToWait := tick_after (OSTickCounter k) w\<rparr>) (EnterCritical k)"
  define k3 where "k3 = IncludeTaskIntoDelayList t k2"
  define k4 where "k4 = k3\<lparr>OSReadyList := OSReadyList k AND NOT (pbit (prio_of k t))\<rparr>"
  define k' where "k' = ExitCritical (ChangeContext k4)"
  have s: "iNesting k = 0" "currentTask k \<noteq> 0" "t \<le> NUMBER_OF_TASKS" "t \<notin> set xs" "prio_of k t < 32"
    "delays_ok k xs" "prio_of k t \<notin> prio_of k ` set xs"
    using assms(1) suspendable_current [OF assms(1)] by (simp_all add: suspendable_def t_def)
  have r3: "OSReadyList k3 = OSReadyList k" "Priority (ContextTask k3 t) = Priority (ContextTask k t)"
    by (simp_all add: k3_def k2_def)
  have eq: "OSDelayTask w k = Some (OK, k')"
    using s(1-3,5) assms(2) r3
    by (simp add: OSDelayTask_def Let_def task_at_def t_def [symmetric] PriorityMask_Some prio_of_def
        word_gt_0 k2_def [symmetric] k3_def [symmetric] k4_def k'_def)
  have "dlist k xs" using s(6) by (simp add: delays_ok_def)
  then have "dlist k2 xs" by (rule dlist_cong) (auto simp: k2_def)
  then have d3: "dlist k3 (xs @ [t])" using s(4) unfolding k3_def by (rule Include_dlist)
  have d: "dlist k' (xs @ [t])" by (rule dlist_cong [OF d3]) (auto simp: k'_def k4_def)
  have p: "prio_of k' u = prio_of k u" for u by (simp add: prio_of_def k'_def k4_def k3_def k2_def)
  have cnt: "OSTickCounter k' = OSTickCounter k" by (simp add: k'_def k4_def k3_def k2_def)
  have n4: "iNesting k4 = 1" "InterruptEventMutex k4 = InterruptEventMutex k"
    using s(1) by (simp_all add: k4_def k3_def k2_def)
  then have nest: "iNesting k' = 0" by (simp add: iNesting_ExitCritical k'_def)
  show thesis
  proof (rule that [OF eq _ _ cnt _ p nest])
    show "delays_ok k' (xs @ [t])"
    proof -
      have "prio_of k' = prio_of k" using p by (rule ext)
      then show ?thesis using s(4-7) d nest cnt by (simp add: delays_ok_def nestable_def tick_ok_def)
    qed
    show "prios (OSReadyList k') = prios (OSReadyList k) - {prio_of k t}"
      using s(5) by (simp add: prios_clear k'_def k4_def)
    show "InterruptEventMutex k \<Longrightarrow> bit (PendingInterrupts k') INTERRUPT_SWC \<and> InterruptEvent k'"
      using n4 request_signals [of k4] by (simp add: k'_def)
    show "TimeToWait (ContextTask k' t) = tick_after (OSTickCounter k) w"
      by (simp add: k'_def k4_def k3_def k2_def)
    show "currentTask k' = currentTask k" by (simp add: k'_def k4_def k3_def k2_def)
  qed
qed

text \<open>
  C3. A task that calls \<open>OSDelayTask(w)\<close> with \<open>0 < w \<le> 0xFFFC\<close> leaves the ready list at once and asks
  for a context switch; during the next \<open>w - 1\<close> ticks it stays out of the ready list, and the
  \<open>w\<close>-th tick puts it back, marked \<open>EXIT_BY_TIMEOUT\<close>: the delay is exact, across the wrap of the
  counter, whatever the other delayed tasks do.
\<close>

theorem OSDelayTask_exact:
  assumes "suspendable k xs" "0 < w" "unat w \<le> 65532"
  defines "t \<equiv> unat (currentTask k)"
  shows "\<exists>k'. OSDelayTask w k = Some (OK, k') \<and> \<not> bit (OSReadyList k') (prio_of k t) \<and>
    (\<forall>n < unat w. \<exists>kn. ticks n k' = Some kn \<and> \<not> bit (OSReadyList kn) (prio_of k t)) \<and>
    (\<exists>kw. ticks (unat w) k' = Some kw \<and> bit (OSReadyList kw) (prio_of k t) \<and>
      TimeToWait (ContextTask kw t) = EXIT_BY_TIMEOUT)"
proof -
  obtain k' where k': "OSDelayTask w k = Some (OK, k')" "delays_ok k' (xs @ [t])"
    "TimeToWait (ContextTask k' t) = tick_after (OSTickCounter k) w"
    "OSTickCounter k' = OSTickCounter k" "prios (OSReadyList k') = prios (OSReadyList k) - {prio_of k t}"
    "\<And>u. prio_of k' u = prio_of k u"
    unfolding t_def by (rule OSDelayTask_OK [OF assms(1,2)]) blast
  have nr: "\<not> bit (OSReadyList k') (prio_of k t)" using k'(5) by (metis Diff_iff insertI1 prios_iff)
  have t: "t \<in> set (xs @ [t])" by simp
  have w: "TimeToWait (ContextTask k' t) = tick_after (OSTickCounter k') w" using k'(3,4) by simp
  have "0 < unat w" using assms(2) by (simp add: word_less_nat_alt)
  then have "\<exists>kw. ticks (unat w) k' = Some kw \<and> bit (OSReadyList kw) (prio_of k t) \<and>
      TimeToWait (ContextTask kw t) = EXIT_BY_TIMEOUT"
    using ticks_expired [OF k'(2) t w assms(3)] k'(6) by auto
  moreover have "\<exists>kn. ticks n k' = Some kn \<and> \<not> bit (OSReadyList kn) (prio_of k t)"
    if "n < unat w" for n
    using ticks_pending [OF k'(2) t w assms(3) that] k'(6) nr by auto
  ultimately show ?thesis using k'(1) nr by blast
qed

subsection \<open>Waits of 0xFFFD ticks and more\<close>

text \<open>
  Values above \<open>0xFFFC\<close> fit the parameter but not the counter's cycle: they are taken modulo the
  cycle, if that much, so a delay of \<open>0xFFFF\<close> at counter 0 ends after 3 ticks.
\<close>

lemma tick_after_long: "tick_after 0 0xFFFF = 3" "tick_after 1 0xFFFF = 4"
  by (simp_all add: tick_after_def config)

text \<open>
  Delays longer than the counter's cycle are cut short or lost: for \<open>w > 0xFFFC\<close> the task wakes
  after \<open>w - 0xFFFC\<close> ticks when the counter does not wrap meanwhile, and near the wrap the stored
  instant is one the counter never takes.
\<close>

theorem OSDelayTask_over_cycle:
  assumes "tick_ok k" "65532 < unat w"
  shows "if unat (OSTickCounter k) + (unat w - 65532) < 65532
    then tick_after (OSTickCounter k) w = OSTickCounter ((OSIncCounter ^^ (unat w - 65532)) k)
    else (\<forall>n. tick_after (OSTickCounter k) w \<noteq> OSTickCounter ((OSIncCounter ^^ n) k))"
proof -
  have c: "unat (OSTickCounter k) < 65532" using assms(1) by (simp add: tick_ok_unat)
  have a: "unat (tick_after (OSTickCounter k) w) = unat (OSTickCounter k) + (unat w - 65532)"
    using unat_tick_after [OF c, of w] assms(2) by simp
  show ?thesis
  proof (cases "unat (OSTickCounter k) + (unat w - 65532) < 65532")
    case True
    then show ?thesis
      using a unat_OSIncCounter_iter [OF assms(1), of "unat w - 65532"] by (simp add: word_unat_eq_iff)
  next
    case False
    have "unat (OSTickCounter ((OSIncCounter ^^ n) k)) < 65532" for n
      using unat_OSIncCounter_iter [OF assms(1), of n] by simp
    then show ?thesis using a False by (metis (no_types, lifting))
  qed
qed

subsection \<open>Hours, minutes, seconds and milliseconds\<close>

lemma HMSM_loop_replicate: "HMSM_loop n = replicate n 60000"
  by (induction n) simp_all

lemma unat_HMSM_ticks:
  assumes "\<not> minutes > 59" "\<not> seconds > 59" "\<not> miliseconds > 999"
  shows "unat (HMSM_ticks hours minutes seconds miliseconds) =
    1000 * (3600 * unat hours + 60 * unat minutes + unat seconds) + unat miliseconds"
proof -
  have b: "unat hours < 256" "unat minutes \<le> 59" "unat seconds \<le> 59" "unat miliseconds \<le> 999"
    using assms unat_u8_less [of hours] by (simp_all add: word_less_nat_alt)
  have ms: "unat (ucast miliseconds * 1000 :: u32) = unat miliseconds * 1000"
    using b by (simp add: unat_word_ariths unsigned_ucast_eq take_bit_nat_eq_self)
  have ms': "(ucast miliseconds * 1000 :: u32) div 1000 = ucast miliseconds"
    using b by (simp add: word_unat_eq_iff unat_div ms) (simp add: unsigned_ucast_eq take_bit_nat_eq_self)
  show ?thesis using b
    by (simp add: HMSM_ticks_def config ms' unat_word_ariths unsigned_ucast_eq take_bit_nat_eq_self)
qed

text \<open>
  \<open>OSDelayTaskHMSM\<close> rejects minutes, seconds or milliseconds out of range; otherwise the delays
  it issues are each at most 60000 ticks, hence within what \<open>OSDelayTask\<close> keeps exactly, and add up
  to the requested time in ticks. It returns \<open>NO_TASK_DELAY\<close> exactly for the zero time.
\<close>

theorem OSDelayTaskHMSM_total:
  "case OSDelayTaskHMSM hours minutes seconds miliseconds of (ret, delays) \<Rightarrow>
     if minutes > 59 \<or> seconds > 59 \<or> miliseconds > 999 then ret = INVALID_TIME \<and> delays = []
     else (\<forall>d \<in> set delays. unat d \<le> 60000) \<and>
       sum_list (map unat delays) =
         1000 * (3600 * unat hours + 60 * unat minutes + unat seconds) + unat miliseconds \<and>
       ret = (if sum_list (map unat delays) = 0 then NO_TASK_DELAY else OK)"
proof (cases "minutes > 59 \<or> seconds > 59 \<or> miliseconds > 999")
  case True
  then show ?thesis by (auto simp: OSDelayTaskHMSM_def)
next
  case False
  let ?t = "HMSM_ticks hours minutes seconds miliseconds"
  have t: "unat ?t = 1000 * (3600 * unat hours + 60 * unat minutes + unat seconds) + unat miliseconds"
    using False by (intro unat_HMSM_ticks) auto
  have r: "unat (ucast (?t mod 60000) :: u16) = unat ?t mod 60000" "unat (?t div 60000) = unat ?t div 60000"
    by (simp_all add: unsigned_ucast_eq unat_mod unat_div take_bit_nat_eq_self)
  have sum: "unat ?t mod 60000 + unat ?t div 60000 * 60000 = unat ?t"
    by (simp add: mult.commute mod_mult_div_eq)
  have pos: "?t > 0 \<longleftrightarrow> unat ?t \<noteq> 0" by (simp add: word_less_nat_alt)
  define N where "N = unat ?t"
  show ?thesis
  proof (cases "?t > 0")
    case True
    let ?ds = "ucast (?t mod 60000) # replicate (N div 60000) 60000 :: u16 list"
    have 1: "OSDelayTaskHMSM hours minutes seconds miliseconds = (OK, ?ds)"
      using False r(2) True by (simp add: OSDelayTaskHMSM_def Let_def N_def HMSM_loop_replicate)
    have 2: "\<forall>d \<in> set ?ds. unat d \<le> 60000" by (auto simp: r(1))
    have 3: "sum_list (map unat ?ds) = N" using sum by (simp add: sum_list_replicate r(1) N_def)
    have 4: "N \<noteq> 0" using True pos by (simp add: N_def)
    have c: "(minutes > 59 \<or> seconds > 59 \<or> miliseconds > 999) = False" using False by simp
    show ?thesis unfolding 1 prod.case 3 c if_False
      using 2 t 4 by (simp only: N_def if_False simp_thms)
  next
    case z: False
    then show ?thesis using False t pos by (simp add: OSDelayTaskHMSM_def Let_def codes)
  qed
qed

end
