(* ===== verification/Task_Manager.thy ===== *)
theory Task_Manager
  imports Delays
begin

text \<open>
  The task manager of \<open>BRTOS.c\<close>: initialisation of the kernel's variables, installation of tasks,
  the start of multitasking, and the block and unblock services. The thread that
  \<open>CreateVirtualStack\<close> makes for a task belongs to Windows; no field of the model depends on it.
\<close>

subsection \<open>Initialisation\<close>

text \<open>The C initialisers of the global variables; objects without one start as zero.\<close>

definition zero_task :: ContextType where
  "zero_task = \<lparr>TaskName = [], StackPoint = 0, StackInit = 0, TimeToWait = 0, Priority = 0,
     Next = NULL, Previous = NULL\<rparr>"

definition globals_init :: "bool \<Rightarrow> kernel" where
  "globals_init checks =
    \<lparr>ERROR_CHECK = checks, PriorityVector = \<lambda>_. 0, iStackAddress = 0, iQueueAddress = 0,
     StackAddress = 0, NumberOfInstalledTasks = 0, currentTask = 0, SelectedTask = 0,
     OSReadyList = 0, OSBlockedList = 0xFFFFFFFF, OSTickCounter = 0, OSDuty = 0, OSDutyTmp = 0,
     LastOSDuty = 0, DutyCnt = 0, TaskAlloc = 0, iNesting = 0, Tail = NULL, Head = NULL,
     BRTOS_Sem_Table = \<lambda>_. \<lparr>OSEventAllocated = 0, OSEventWait = 0, OSEventWaitList = 0,
       OSEventCount = 0, Binary = 0\<rparr>,
     BRTOS_Mutex_Table = \<lambda>_. \<lparr>OSEventAllocated = 0, OSEventWait = 0, OSEventWaitList = 0,
       OSEventState = 0, OSEventOwner = 0, OSMaxPriority = 0, OSOriginalPriority = 0\<rparr>,
     BRTOS_Mbox_Table = \<lambda>_. \<lparr>OSEventAllocated = 0, OSEventWait = 0, OSEventWaitList = 0,
       OSEventState_mb = 0, OSEventPointer = NULL\<rparr>,
     BRTOS_Queue_Table = \<lambda>_. \<lparr>OSEventAllocated = 0, OSEventWait = 0, OSEventWaitList = 0,
       OSEventCount_q = 0, OSEventPointer_q = NULL\<rparr>,
     BRTOS_OS_QUEUE_Table = \<lambda>_. \<lparr>OSQStart = 0, OSQEnd = 0, OSQIn = 0, OSQOut = 0, OSQSize = 0,
       OSQEntries = 0\<rparr>,
     QUEUE_STACK = \<lambda>_. 0, ContextTask = \<lambda>_. zero_task, SPvalue = 0, PendingInterrupts = 0,
     InterruptEventMutex = False, InterruptEvent = False, IsrHandler = \<lambda>_. ISR_NONE,
     UART_RX_buffer = 0, SerialQ = NULL\<rparr>"

definition PreInstallTasks :: "u32 \<Rightarrow> kernel \<Rightarrow> kernel" where
  "PreInstallTasks STACK k =
    (let k1 = k\<lparr>OSTickCounter := 0, currentTask := 0, NumberOfInstalledTasks := 0, TaskAlloc := 0,
                iStackAddress := 0, StackAddress := STACK\<rparr>;
         k2 = k1\<lparr>PriorityVector := \<lambda>i. if i < configMAX_TASK_INSTALL then EMPTY_PRIO
                                      else PriorityVector k1 i\<rparr>;
         k3 = k2\<lparr>ContextTask := \<lambda>i. if 1 \<le> i \<and> i \<le> NUMBER_OF_TASKS
                                   then (ContextTask k2 i)\<lparr>Priority := EMPTY_PRIO\<rparr>
                                   else ContextTask k2 i\<rparr>
     in k3\<lparr>Tail := NULL, Head := NULL\<rparr>)"

definition initEvents :: "kernel \<Rightarrow> kernel" where
  "initEvents k = k
    \<lparr>BRTOS_Sem_Table := \<lambda>i. if i < BRTOS_MAX_SEM then (BRTOS_Sem_Table k i)\<lparr>OSEventAllocated := 0\<rparr>
                           else BRTOS_Sem_Table k i,
     BRTOS_Mutex_Table := \<lambda>i. if i < BRTOS_MAX_MUTEX then (BRTOS_Mutex_Table k i)\<lparr>OSEventAllocated := 0\<rparr>
                             else BRTOS_Mutex_Table k i,
     BRTOS_Mbox_Table := \<lambda>i. if i < BRTOS_MAX_MBOX then (BRTOS_Mbox_Table k i)\<lparr>OSEventAllocated := 0\<rparr>
                            else BRTOS_Mbox_Table k i,
     BRTOS_Queue_Table := \<lambda>i. if i < BRTOS_MAX_QUEUE then (BRTOS_Queue_Table k i)\<lparr>OSEventAllocated := 0\<rparr>
                             else BRTOS_Queue_Table k i\<rparr>"

text \<open>\<open>TickTimerSetup\<close> is empty in the simulator.\<close>

definition BRTOSInit :: "u32 \<Rightarrow> kernel \<Rightarrow> kernel" where
  "BRTOSInit STACK k = PreInstallTasks STACK (initEvents k)"

subsection \<open>Installing a task\<close>

text \<open>The search for a free control block: its number and the new allocation word, or number 0.\<close>

function TaskNumber_search :: "nat \<Rightarrow> u32 \<Rightarrow> nat \<times> u32" where
  "TaskNumber_search i alloc =
    (if i < NUMBER_OF_TASKS then
       (let teste = pbit i
        in if teste AND alloc = 0 then (i + 1, alloc OR teste)
           else TaskNumber_search (i + 1) alloc)
     else (0, alloc))"
  by pat_completeness auto
termination by (relation "measure (\<lambda>(i, _). NUMBER_OF_TASKS - i)") auto

declare TaskNumber_search.simps [simp del]

text \<open>
  \<open>OSInstallTask\<close>. \<open>TaskHandle\<close> is the handle the caller's pointer designates, or \<open>None\<close> for a null
  pointer; the result carries it back.
\<close>

definition fix_stack_size :: "u16 \<Rightarrow> u16" where
  "fix_stack_size USER_STACKED_BYTES =
    USER_STACKED_BYTES - USER_STACKED_BYTES mod word_of_nat sizeof_OS_CPU_TYPE"

definition install_error :: "task_code \<Rightarrow> u16 \<Rightarrow> u8 \<Rightarrow> kernel \<Rightarrow> u8 option" where
  "install_error FctPtr USER_STACKED_BYTES iPriority k =
    (if USER_STACKED_BYTES < NUMBER_MIN_OF_STACKED_BYTES then Some STACK_SIZE_TOO_SMALL
     else if unat (iStackAddress k) + unat USER_STACKED_BYTES div sizeof_OS_CPU_TYPE
             > HEAP_SIZE div sizeof_OS_CPU_TYPE then Some NO_MEMORY
     else if iPriority \<noteq> 0 then
       (if iPriority > configMAX_TASK_PRIORITY then Some END_OF_AVAILABLE_PRIORITIES
        else if PriorityVector k (unat iPriority) \<noteq> EMPTY_PRIO then Some BUSY_PRIORITY
        else None)
     else (if FctPtr \<noteq> Idle then Some CANNOT_ASSIGN_IDLE_TASK_PRIO else None))"

definition fill_TCB :: "nat \<Rightarrow> string \<Rightarrow> u16 \<Rightarrow> u8 \<Rightarrow> kernel \<Rightarrow> kernel" where
  "fill_TCB TaskNumber name bytes iPriority k3 =
    (let k4 = upd_task TaskNumber (\<lambda>c. c
           \<lparr>TaskName := name,
            StackPoint := StackAddress k3 + ucast NUMBER_MIN_OF_STACKED_BYTES,
            StackInit := StackAddress k3,
            Priority := iPriority\<rparr>) k3;
         k5 = k4\<lparr>PriorityVector := (PriorityVector k4)(unat iPriority := word_of_nat TaskNumber)\<rparr>;
         k6 = k5\<lparr>iStackAddress := iStackAddress k5 + bytes div word_of_nat sizeof_OS_CPU_TYPE\<rparr>;
         k7 = k6\<lparr>StackAddress := StackAddress k6 + ucast bytes\<rparr>
     in upd_task TaskNumber (\<lambda>c. c\<lparr>TimeToWait := NO_TIMEOUT, Next := NULL, Previous := NULL\<rparr>) k7)"

definition OSInstallTask ::
  "task_code \<Rightarrow> string \<Rightarrow> u16 \<Rightarrow> u8 \<Rightarrow> u32 option \<Rightarrow> kernel \<Rightarrow> (u8 \<times> u32 option \<times> kernel) option" where
  "OSInstallTask FctPtr name USER_STACKED_BYTES iPriority TaskHandle k =
    (let k1 = EnterCritical_if_task k;
         bytes = fix_stack_size USER_STACKED_BYTES
     in case install_error FctPtr bytes iPriority k1 of
          Some err \<Rightarrow> Some (err, TaskHandle, ExitCritical_if_task k1)
        | None \<Rightarrow>
            (let (TaskNumber, alloc) = TaskNumber_search 0 (TaskAlloc k1);
                 k2 = k1\<lparr>TaskAlloc := alloc\<rparr>
             in if TaskNumber = 0 then Some (END_OF_AVAILABLE_TCB, TaskHandle, ExitCritical_if_task k2)
                else do {
                  let k3 = k2\<lparr>NumberOfInstalledTasks := NumberOfInstalledTasks k2 + 1\<rparr>;
                  let handle = map_option (\<lambda>_. word_of_nat TaskNumber) TaskHandle;
                  _ \<leftarrow> task_at TaskNumber k3;
                  let k8 = fill_TCB TaskNumber name bytes iPriority k3;
                  mask \<leftarrow> PriorityMask iPriority;
                  let k9 = k8\<lparr>OSReadyList := OSReadyList k8 OR mask\<rparr>;
                  Some (OK, handle, ExitCritical_if_task k9) }))"

subsection \<open>Starting the system\<close>

text \<open>
  \<open>BTOSStartFirstTask\<close> up to the interrupt loop it never leaves, when Windows grants the mutex, the
  event and the threads.
\<close>

definition BTOSStartFirstTask :: "kernel \<Rightarrow> kernel" where
  "BTOSStartFirstTask k =
    (let k1 = ConfiguraInterruptHandler INTERRUPT_SWC ISR_SwitchContext k;
         k2 = ConfiguraInterruptHandler INTERRUPT_TICK ISR_TickTimer k1
     in k2\<lparr>InterruptEventMutex := True, InterruptEvent := False, iNesting := 0\<rparr>)"

text \<open>\<open>Inl\<close> is a return to the caller, \<open>Inr\<close> the system running.\<close>

definition BRTOSStart :: "kernel \<Rightarrow> ((u8 \<times> kernel) + kernel) option" where
  "BRTOSStart k = do {
     (ret, _, k1) \<leftarrow> OSInstallTask Idle ''Idle Task'' IDLE_STACK_SIZE 0 None k;
     if ret \<noteq> OK then Some (Inl (NO_MEMORY, k1))
     else do {
       let k2 = k1\<lparr>currentTask := OSSchedule k1\<rparr>;
       Task \<leftarrow> task_at (unat (currentTask k2)) k2;
       let k3 = k2\<lparr>SPvalue := StackPoint Task\<rparr>;
       Some (Inr (BTOSStartFirstTask k3)) } }"

subsection \<open>Blocking and unblocking\<close>

definition OSBlockPriority :: "u8 \<Rightarrow> kernel \<Rightarrow> (u8 \<times> kernel) option" where
  "OSBlockPriority iPriority k =
    (if iNesting k > 0 then Some (IRQ_PEND_ERR, k)
     else do {
       let k1 = EnterCritical_if_task k;
       BlockedTask \<leftarrow> prio_at iPriority k1;
       mask \<leftarrow> PriorityMask iPriority;
       let k2 = k1\<lparr>OSBlockedList := OSBlockedList k1 AND NOT mask\<rparr>;
       let k3 = (if currentTask k2 = BlockedTask then ChangeContext k2 else k2);
       Some (OK, ExitCritical_if_task k3) })"

definition OSUnBlockPriority :: "u8 \<Rightarrow> kernel \<Rightarrow> (u8 \<times> kernel) option" where
  "OSUnBlockPriority iPriority k = do {
     let k1 = EnterCritical k;
     mask \<leftarrow> PriorityMask iPriority;
     let k2 = k1\<lparr>OSBlockedList := OSBlockedList k1 OR mask\<rparr>;
     let k3 = (if currentTask k2 \<noteq> 0 then ChangeContext_if_not_nested k2 else k2);
     Some (OK, ExitCritical k3) }"

definition OSBlockTask :: "u32 \<Rightarrow> kernel \<Rightarrow> (u8 \<times> kernel) option" where
  "OSBlockTask TaskHandle k =
    (if iNesting k > 0 then Some (IRQ_PEND_ERR, k)
     else
       (let k1 = EnterCritical_if_task k
        in if TaskHandle = 0 \<and> currentTask k1 = 0 then Some (NOT_VALID_TASK, ExitCritical k1)
           else do {
             let handle = (if TaskHandle = 0 then ucast (currentTask k1) else TaskHandle);
             Task \<leftarrow> task_at (unat handle) k1;
             mask \<leftarrow> PriorityMask (Priority Task);
             let k2 = k1\<lparr>OSBlockedList := OSBlockedList k1 AND NOT mask\<rparr>;
             let k3 = (if ucast (currentTask k2) = handle then ChangeContext k2 else k2);
             Some (OK, ExitCritical_if_task k3) }))"

definition OSUnBlockTask :: "u32 \<Rightarrow> kernel \<Rightarrow> (u8 \<times> kernel) option" where
  "OSUnBlockTask TaskHandle k = do {
     let k1 = EnterCritical k;
     Task \<leftarrow> task_at (unat TaskHandle) k1;
     mask \<leftarrow> PriorityMask (Priority Task);
     let k2 = k1\<lparr>OSBlockedList := OSBlockedList k1 OR mask\<rparr>;
     let k3 = (if currentTask k2 \<noteq> 0 then ChangeContext_if_not_nested k2 else k2);
     Some (OK, ExitCritical k3) }"

text \<open>The loops over a range of tasks count in a byte; the index never wraps below the bound.\<close>

lemma less_inc_u8: "(i :: u8) < f \<Longrightarrow> unat (i + 1) = Suc (unat i)"
  using unat_u8_less [of f] by (intro unat_inc_u8) (simp add: word_less_nat_alt)

function block_range :: "u8 \<Rightarrow> u8 \<Rightarrow> kernel \<Rightarrow> kernel option" where
  "block_range iTask TaskFinish k =
    (if iTask < TaskFinish then do {
       k1 \<leftarrow> (if iTask \<noteq> currentTask k then do {
               Task \<leftarrow> task_at (unat iTask) k;
               mask \<leftarrow> PriorityMask (Priority Task);
               Some (k\<lparr>OSBlockedList := OSBlockedList k AND NOT mask\<rparr>) }
             else Some k);
       block_range (iTask + 1) TaskFinish k1 }
     else Some k)"
  by pat_completeness auto
termination
  by (relation "measure (\<lambda>(i, f, _). unat f - unat i)") (auto simp: less_inc_u8 word_less_nat_alt)

function unblock_range :: "u8 \<Rightarrow> u8 \<Rightarrow> kernel \<Rightarrow> kernel option" where
  "unblock_range iTask TaskFinish k =
    (if iTask < TaskFinish then do {
       k1 \<leftarrow> (if iTask \<noteq> currentTask k then do {
               Task \<leftarrow> task_at (unat iTask) k;
               mask \<leftarrow> PriorityMask (Priority Task);
               Some (k\<lparr>OSBlockedList := OSBlockedList k OR mask\<rparr>) }
             else Some k);
       unblock_range (iTask + 1) TaskFinish k1 }
     else Some k)"
  by pat_completeness auto
termination
  by (relation "measure (\<lambda>(i, f, _). unat f - unat i)") (auto simp: less_inc_u8 word_less_nat_alt)

declare block_range.simps [simp del] unblock_range.simps [simp del]

definition OSBlockMultipleTask :: "u8 \<Rightarrow> u8 \<Rightarrow> kernel \<Rightarrow> (u8 \<times> kernel) option" where
  "OSBlockMultipleTask TaskStart TaskNumber k =
    (if iNesting k > 0 then Some (IRQ_PEND_ERR, k)
     else do {
       let k1 = EnterCritical_if_task k;
       let TaskFinish = TaskStart + TaskNumber;
       k2 \<leftarrow> block_range TaskStart TaskFinish k1;
       Some (OK, ExitCritical_if_task k2) })"

definition OSUnBlockMultipleTask :: "u8 \<Rightarrow> u8 \<Rightarrow> kernel \<Rightarrow> (u8 \<times> kernel) option" where
  "OSUnBlockMultipleTask TaskStart TaskNumber k =
    (if iNesting k > 0 then Some (IRQ_PEND_ERR, k)
     else do {
       let k1 = EnterCritical_if_task k;
       let TaskFinish = TaskStart + TaskNumber;
       k2 \<leftarrow> unblock_range TaskStart TaskFinish k1;
       Some (OK, (if currentTask k2 \<noteq> 0 then ExitCritical (ChangeContext_if_not_nested k2) else k2)) })"

subsection \<open>The search for a control block\<close>

lemma TaskNumber_search_cases:
  assumes "i \<le> NUMBER_OF_TASKS"
  shows "case TaskNumber_search i alloc of (n, alloc') \<Rightarrow>
    (if n = 0 then alloc' = alloc \<and> (\<forall>j. i \<le> j \<and> j < NUMBER_OF_TASKS \<longrightarrow> bit alloc j)
     else i < n \<and> n \<le> NUMBER_OF_TASKS \<and> \<not> bit alloc (n - 1) \<and> alloc' = alloc OR pbit (n - 1))"
  using assms
proof (induction i alloc rule: TaskNumber_search.induct)
  case (1 i alloc)
  show ?case
  proof (cases "i < NUMBER_OF_TASKS")
    case True
    have free: "pbit i AND alloc = 0 \<longleftrightarrow> \<not> bit alloc i"
      using and_mask_eq_0 [of i alloc] True by (simp add: and.commute config)
    show ?thesis
    proof (cases "bit alloc i")
      case b: True
      then have eq: "TaskNumber_search i alloc = TaskNumber_search (i + 1) alloc"
        using True free by (simp add: TaskNumber_search.simps [of i])
      have step: "(\<forall>j. i + 1 \<le> j \<and> j < NUMBER_OF_TASKS \<longrightarrow> bit alloc j) \<Longrightarrow>
          (\<forall>j. i \<le> j \<and> j < NUMBER_OF_TASKS \<longrightarrow> bit alloc j)"
        using b by (metis Suc_eq_plus1 le_neq_implies_less Suc_leI)
      obtain n a where na: "TaskNumber_search (i + 1) alloc = (n, a)" by fastforce
      have "pbit i AND alloc \<noteq> 0" using free b by simp
      then have ih: "case TaskNumber_search (i + 1) alloc of (n, alloc') \<Rightarrow>
        (if n = 0 then alloc' = alloc \<and> (\<forall>j. i + 1 \<le> j \<and> j < NUMBER_OF_TASKS \<longrightarrow> bit alloc j)
         else i + 1 < n \<and> n \<le> NUMBER_OF_TASKS \<and> \<not> bit alloc (n - 1) \<and> alloc' = alloc OR pbit (n - 1))"
        using "1.IH" True by simp
      show ?thesis
      proof (cases "n = 0")
        case True
        then show ?thesis using ih step by (simp only: eq na prod.case if_True) simp
      next
        case False
        then show ?thesis using ih by (simp only: eq na prod.case if_False) simp
      qed
    next
      case False
      then show ?thesis using True free by (simp add: TaskNumber_search.simps [of i])
    qed
  next
    case False
    then have "TaskNumber_search i alloc = (0, alloc)" by (subst TaskNumber_search.simps) simp
    moreover have "\<forall>j. i \<le> j \<and> j < NUMBER_OF_TASKS \<longrightarrow> bit alloc j" using False by auto
    ultimately show ?thesis by simp
  qed
qed

subsection \<open>The task table's invariant\<close>

definition allocated :: "kernel \<Rightarrow> nat \<Rightarrow> bool" where
  "allocated k t \<longleftrightarrow> 0 < t \<and> t \<le> NUMBER_OF_TASKS \<and> bit (TaskAlloc k) (t - 1)"

definition vec :: "kernel \<Rightarrow> nat \<Rightarrow> nat" where
  "vec k p = unat (PriorityVector k p)"

text \<open>
  Task numbers and priorities determine each other: an allocated task's priority leads back to it
  through \<open>PriorityVector\<close>, an entry of \<open>PriorityVector\<close> is free, reserved by a mutex, or an allocated
  task, and every priority in the ready list is that of the task found there. A task whose priority a
  mutex has raised fits: its old entry still names it, but only its current priority may be ready.
\<close>

definition tasks_ok :: "kernel \<Rightarrow> bool" where
  "tasks_ok k \<longleftrightarrow>
     prios (TaskAlloc k) \<subseteq> {..<NUMBER_OF_TASKS} \<and>
     unat (NumberOfInstalledTasks k) = card (prios (TaskAlloc k)) \<and>
     (\<forall>t. allocated k t \<longrightarrow> prio_of k t < 32 \<and> vec k (prio_of k t) = t) \<and>
     (\<forall>p < 32. PriorityVector k p = EMPTY_PRIO \<or> PriorityVector k p = MUTEX_PRIO \<or> allocated k (vec k p)) \<and>
     (\<forall>p \<in> prios (OSReadyList k). allocated k (vec k p) \<and> prio_of k (vec k p) = p)"

lemma tasks_okD:
  assumes "tasks_ok k"
  shows "prios (TaskAlloc k) \<subseteq> {..<NUMBER_OF_TASKS}"
    and "unat (NumberOfInstalledTasks k) = card (prios (TaskAlloc k))"
    and "allocated k t \<Longrightarrow> prio_of k t < 32"
    and "allocated k t \<Longrightarrow> vec k (prio_of k t) = t"
    and "p < 32 \<Longrightarrow> PriorityVector k p \<noteq> EMPTY_PRIO \<Longrightarrow> PriorityVector k p \<noteq> MUTEX_PRIO \<Longrightarrow>
      allocated k (vec k p)"
    and "p \<in> prios (OSReadyList k) \<Longrightarrow> allocated k (vec k p)"
    and "p \<in> prios (OSReadyList k) \<Longrightarrow> prio_of k (vec k p) = p"
  using assms unfolding tasks_ok_def by blast+

lemma allocated_bounds: "allocated k t \<Longrightarrow> 0 < t \<and> t \<le> 10 \<and> t < 256"
  by (simp add: allocated_def config)

lemma allocated_inj:
  "tasks_ok k \<Longrightarrow> allocated k t \<Longrightarrow> allocated k u \<Longrightarrow> prio_of k t = prio_of k u \<Longrightarrow> t = u"
  using tasks_okD(4) by metis

text \<open>What the invariant reads; states that agree on it have it together.\<close>

lemma allocated_cong: "TaskAlloc k' = TaskAlloc k \<Longrightarrow> allocated k' t = allocated k t"
  by (simp add: allocated_def)

lemma tasks_ok_cong:
  assumes "tasks_ok k" "TaskAlloc k' = TaskAlloc k" "PriorityVector k' = PriorityVector k"
    "NumberOfInstalledTasks k' = NumberOfInstalledTasks k" "\<And>t. prio_of k' t = prio_of k t"
    "\<And>p. p \<in> prios (OSReadyList k') \<Longrightarrow>
       p \<in> prios (OSReadyList k) \<or> (\<exists>t. allocated k t \<and> prio_of k t = p)"
  shows "tasks_ok k'"
proof -
  have v: "vec k' p = vec k p" for p using assms(3) by (simp add: vec_def)
  have "allocated k' (vec k' p) \<and> prio_of k' (vec k' p) = p" if "p \<in> prios (OSReadyList k')" for p
    using assms(6) [OF that] tasks_okD(4,6,7) [OF assms(1)] allocated_cong [OF assms(2)] assms(5) v
    by metis
  then show ?thesis
    using assms(1,5) allocated_cong [OF assms(2)] v assms(2-4) by (simp add: tasks_ok_def)
qed

text \<open>The whole kernel's invariant, without the events: tasks, delay list, counter, nesting.\<close>

definition sys_ok :: "kernel \<Rightarrow> nat list \<Rightarrow> bool" where
  "sys_ok k xs \<longleftrightarrow> tasks_ok k \<and> dlist k xs \<and> tick_ok k \<and> nestable k \<and> (\<forall>t \<in> set xs. allocated k t)"

lemma sys_okD:
  assumes "sys_ok k xs"
  shows "tasks_ok k" "dlist k xs" "tick_ok k" "nestable k" "t \<in> set xs \<Longrightarrow> allocated k t"
  using assms by (simp_all add: sys_ok_def)

lemma sys_ok_delays: "sys_ok k xs \<Longrightarrow> delays_ok k xs"
  unfolding sys_ok_def delays_ok_def inj_on_def using tasks_okD(3) allocated_inj by blast

lemma sys_ok_suspendable:
  assumes "sys_ok k xs" "iNesting k = 0" "allocated k (unat (currentTask k))"
    "unat (currentTask k) \<notin> set xs"
  shows "suspendable k xs"
  using assms allocated_bounds [OF assms(3)] tasks_okD(3) [OF sys_okD(1) [OF assms(1)] assms(3)]
    sys_ok_delays [OF assms(1)] allocated_inj [OF sys_okD(1) [OF assms(1)]] sys_okD(5) [OF assms(1)]
  by (auto simp: suspendable_def config)

subsection \<open>The scheduler's choice\<close>

definition runnable :: "kernel \<Rightarrow> nat set" where
  "runnable k = prios (OSReadyList k) \<inter> prios (OSBlockedList k)"

lemma runnable_and: "runnable k = prios (OSReadyList k AND OSBlockedList k)"
  by (simp add: runnable_def prios_and)

lemma runnable_finite [simp]: "finite (runnable k)"
  by (simp add: runnable_def)

lemma OSSchedule_vec:
  assumes "runnable k \<noteq> {}"
  shows "unat (OSSchedule k) = vec k (Max (runnable k))"
  using assms SAScheduler_Max [of "OSReadyList k AND OSBlockedList k"]
  by (simp add: OSSchedule_def vec_def runnable_and Let_def)

lemma OSSchedule_choice:
  assumes "tasks_ok k" "runnable k \<noteq> {}"
  shows "allocated k (unat (OSSchedule k))" "prio_of k (unat (OSSchedule k)) = Max (runnable k)"
proof -
  have "Max (runnable k) \<in> prios (OSReadyList k)"
    using Max_in [OF runnable_finite assms(2)] by (simp add: runnable_def)
  then show "allocated k (unat (OSSchedule k))" "prio_of k (unat (OSSchedule k)) = Max (runnable k)"
    using tasks_okD(6,7) [OF assms(1)] OSSchedule_vec [OF assms(2)] by simp_all
qed

text \<open>
  C2. Whenever some task is ready and not blocked, \<open>OSSchedule\<close> returns an allocated task that is ready
  and not blocked, and no other such task has a higher priority.
\<close>

theorem OSSchedule_highest_ready:
  assumes "tasks_ok k" "runnable k \<noteq> {}"
  defines "t \<equiv> unat (OSSchedule k)"
  shows "allocated k t \<and> prio_of k t \<in> runnable k \<and>
    (\<forall>u. allocated k u \<and> prio_of k u \<in> runnable k \<longrightarrow> prio_of k u \<le> prio_of k t)"
  using OSSchedule_choice [OF assms(1,2)] Max_in [OF runnable_finite assms(2)] by (simp add: t_def)

subsection \<open>Installation\<close>

lemma search_cases:
  obtains (full) "TaskNumber_search 0 alloc = (0, alloc)" "\<forall>j < NUMBER_OF_TASKS. bit alloc j"
  | (free) n where "TaskNumber_search 0 alloc = (Suc n, alloc OR pbit n)" "n < NUMBER_OF_TASKS"
      "\<not> bit alloc n"
proof -
  obtain m a where ma: "TaskNumber_search 0 alloc = (m, a)" by fastforce
  have c: "if m = 0 then a = alloc \<and> (\<forall>j. 0 \<le> j \<and> j < NUMBER_OF_TASKS \<longrightarrow> bit alloc j)
     else 0 < m \<and> m \<le> NUMBER_OF_TASKS \<and> \<not> bit alloc (m - 1) \<and> a = alloc OR pbit (m - 1)"
    using TaskNumber_search_cases [of 0 alloc] by (simp add: ma)
  show thesis
  proof (cases m)
    case 0
    then show thesis using c ma by (intro full) auto
  next
    case (Suc n)
    then show thesis using c ma by (intro free [of n]) auto
  qed
qed

text \<open>What \<open>OSInstallTask\<close> answers, in the order of its checks.\<close>

definition install_result :: "task_code \<Rightarrow> u16 \<Rightarrow> u8 \<Rightarrow> kernel \<Rightarrow> u8" where
  "install_result FctPtr bytes iPriority k =
    (case install_error FctPtr (fix_stack_size bytes) iPriority k of
       Some err \<Rightarrow> err
     | None \<Rightarrow> if \<forall>j < NUMBER_OF_TASKS. bit (TaskAlloc k) j then END_OF_AVAILABLE_TCB else OK)"

lemma install_error_frame:
  "PriorityVector k' = PriorityVector k \<Longrightarrow> iStackAddress k' = iStackAddress k \<Longrightarrow>
    install_error f b p k' = install_error f b p k"
  by (simp add: install_error_def)

lemma install_error_not_OK: "install_error f b p k = Some err \<Longrightarrow> err \<noteq> OK"
  by (auto simp: install_error_def codes split: if_splits)

lemma install_error_None:
  assumes "install_error f b p k = None"
  shows "unat p < 32" "p \<noteq> 0 \<Longrightarrow> PriorityVector k (unat p) = EMPTY_PRIO"
  using assms by (auto simp: install_error_def config word_less_nat_alt not_less split: if_splits)

text \<open>
  The same answer from a list of conditions on the parameters and the state: the code of the first that holds. A
  stack is counted in words of four bytes.
\<close>

fun first_failing :: "(bool \<times> 'a) list \<Rightarrow> 'a \<Rightarrow> 'a" where
  "first_failing [] r = r"
| "first_failing ((c, e) # cs) r = (if c then e else first_failing cs r)"

definition stack_words :: "u16 \<Rightarrow> nat" where
  "stack_words bytes = unat bytes div sizeof_OS_CPU_TYPE"

definition install_answer :: "task_code \<Rightarrow> u16 \<Rightarrow> u8 \<Rightarrow> kernel \<Rightarrow> u8" where
  "install_answer f bytes p k = first_failing
    [(sizeof_OS_CPU_TYPE * stack_words bytes < unat NUMBER_MIN_OF_STACKED_BYTES, STACK_SIZE_TOO_SMALL),
     (HEAP_SIZE div sizeof_OS_CPU_TYPE < unat (iStackAddress k) + stack_words bytes, NO_MEMORY),
     (unat configMAX_TASK_PRIORITY < unat p, END_OF_AVAILABLE_PRIORITIES),
     (p \<noteq> 0 \<and> PriorityVector k (unat p) \<noteq> EMPTY_PRIO, BUSY_PRIORITY),
     (p = 0 \<and> f \<noteq> Idle, CANNOT_ASSIGN_IDLE_TASK_PRIO),
     (\<forall>t \<in> {1..NUMBER_OF_TASKS}. allocated k t, END_OF_AVAILABLE_TCB)] OK"

lemma fix_stack_size_words: "unat (fix_stack_size b) = sizeof_OS_CPU_TYPE * stack_words b"
proof -
  have m: "unat (b mod 4) = unat b mod 4" by (simp add: unat_mod)
  then have "b mod 4 \<le> b" by (simp add: word_le_nat_alt)
  then have "unat (b - b mod 4) = unat b - unat b mod 4" by (simp add: unat_sub m)
  then show ?thesis by (simp add: fix_stack_size_def stack_words_def config minus_mod_eq_mult_div)
qed

lemma all_allocated: "(\<forall>t \<in> {1..NUMBER_OF_TASKS}. allocated k t) \<longleftrightarrow> (\<forall>j < NUMBER_OF_TASKS. bit (TaskAlloc k) j)"
proof
  assume "\<forall>t \<in> {1..NUMBER_OF_TASKS}. allocated k t"
  then have "allocated k (Suc j)" if "j < NUMBER_OF_TASKS" for j using that by simp
  then show "\<forall>j < NUMBER_OF_TASKS. bit (TaskAlloc k) j" by (simp add: allocated_def)
qed (auto simp: allocated_def)

lemma install_result_answer: "install_result f bytes p k = install_answer f bytes p k"
  unfolding install_result_def install_answer_def install_error_def first_failing.simps all_allocated
  by (auto simp: fix_stack_size_words word_less_nat_alt config)

lemma stack_words_room:
  assumes "install_result f bytes p k = OK"
  shows "unat (iStackAddress k + fix_stack_size bytes div word_of_nat sizeof_OS_CPU_TYPE) = unat (iStackAddress k) + stack_words bytes"
    "unat (iStackAddress k) + stack_words bytes \<le> HEAP_SIZE div sizeof_OS_CPU_TYPE"
proof -
  show r: "unat (iStackAddress k) + stack_words bytes \<le> HEAP_SIZE div sizeof_OS_CPU_TYPE"
    using assms unfolding install_result_answer install_answer_def by (auto simp: codes config not_less split: if_splits)
  have d: "unat (fix_stack_size bytes) div 4 = stack_words bytes" by (simp add: fix_stack_size_words config)
  show "unat (iStackAddress k + fix_stack_size bytes div word_of_nat sizeof_OS_CPU_TYPE) = unat (iStackAddress k) + stack_words bytes"
    using r by (simp add: config unat_word_ariths d)
qed

lemma OSInstallTask_error:
  assumes "install_result f bytes p k \<noteq> OK"
  shows "\<exists>k'. OSInstallTask f name bytes p h k = Some (install_result f bytes p k, h, k') \<and>
    core k' = core k"
proof (cases "install_error f (fix_stack_size bytes) p k")
  case (Some err)
  then have "install_error f (fix_stack_size bytes) p (EnterCritical_if_task k) = Some err"
    by (simp add: install_error_frame [of "EnterCritical_if_task k" k])
  then show ?thesis using Some by (simp add: OSInstallTask_def install_result_def Let_def)
next
  case None
  then have e: "install_error f (fix_stack_size bytes) p (EnterCritical_if_task k) = None"
    by (simp add: install_error_frame [of "EnterCritical_if_task k" k])
  have full: "\<forall>j < NUMBER_OF_TASKS. bit (TaskAlloc k) j"
    using assms None by (auto simp: install_result_def split: if_splits)
  have "TaskNumber_search 0 (TaskAlloc k) = (0, TaskAlloc k)"
    using full by (cases "TaskAlloc k" rule: search_cases) auto
  then show ?thesis using None e full
    by (simp add: OSInstallTask_def install_result_def Let_def core_def)
qed

lemma OSInstallTask_success:
  assumes "install_result f bytes p k = OK"
  obtains n k9 where "n < NUMBER_OF_TASKS" "\<not> bit (TaskAlloc k) n"
    "OSInstallTask f name bytes p h k =
      Some (OK, map_option (\<lambda>_. word_of_nat (Suc n)) h, ExitCritical_if_task k9)"
    "TaskAlloc k9 = TaskAlloc k OR pbit n" "NumberOfInstalledTasks k9 = NumberOfInstalledTasks k + 1"
    "PriorityVector k9 = (PriorityVector k)(unat p := word_of_nat (Suc n))"
    "\<And>t. prio_of k9 t = (if t = Suc n then unat p else prio_of k t)"
    "\<And>t. t \<noteq> Suc n \<Longrightarrow> ContextTask k9 t = ContextTask k t"
    "TimeToWait (ContextTask k9 (Suc n)) = NO_TIMEOUT" "TaskName (ContextTask k9 (Suc n)) = name"
    "OSReadyList k9 = OSReadyList k OR pbit (unat p)" "OSBlockedList k9 = OSBlockedList k"
    "currentTask k9 = currentTask k" "OSTickCounter k9 = OSTickCounter k"
    "Head k9 = Head k" "Tail k9 = Tail k" "iNesting k9 = iNesting (EnterCritical_if_task k)"
    "StackInit (ContextTask k9 (Suc n)) = StackAddress k" "StackAddress k9 = StackAddress k + ucast (fix_stack_size bytes)"
    "iStackAddress k9 = iStackAddress k + fix_stack_size bytes div word_of_nat sizeof_OS_CPU_TYPE"
proof -
  have e: "install_error f (fix_stack_size bytes) p k = None" "\<not> (\<forall>j < NUMBER_OF_TASKS. bit (TaskAlloc k) j)"
    using assms install_error_not_OK [of f "fix_stack_size bytes" p k]
    by (auto simp: install_result_def codes split: option.splits if_splits)
  obtain n where n: "TaskNumber_search 0 (TaskAlloc k) = (Suc n, TaskAlloc k OR pbit n)"
    "n < NUMBER_OF_TASKS" "\<not> bit (TaskAlloc k) n"
    using e(2) by (cases "TaskAlloc k" rule: search_cases) auto
  have e': "install_error f (fix_stack_size bytes) p (EnterCritical_if_task k) = None"
    using e(1) by (simp add: install_error_frame [of "EnterCritical_if_task k" k])
  have p: "PriorityMask p = Some (pbit (unat p))"
    using install_error_None(1) [OF e(1)] by (rule PriorityMask_Some)
  let ?k3 = "(EnterCritical_if_task k)
    \<lparr>TaskAlloc := TaskAlloc k OR pbit n, NumberOfInstalledTasks := NumberOfInstalledTasks k + 1\<rparr>"
  define k8 where "k8 = fill_TCB (Suc n) name (fix_stack_size bytes) p ?k3"
  define k9 where "k9 = k8\<lparr>OSReadyList := OSReadyList k8 OR pbit (unat p)\<rparr>"
  have eq: "OSInstallTask f name bytes p h k =
      Some (OK, map_option (\<lambda>_. word_of_nat (Suc n)) h, ExitCritical_if_task k9)"
    using n e' p by (simp add: OSInstallTask_def Let_def task_at_def k9_def k8_def del: of_nat_Suc)
  show thesis
    by (rule that [OF n(2,3) eq])
      (simp_all add: k9_def k8_def fill_TCB_def Let_def prio_of_def)
qed

lemma card_bits_le:
  "prios a \<subseteq> {..<n} \<Longrightarrow> card (prios a) \<le> n"
  using card_mono [of "{..<n}" "prios a"] by simp

lemma install_tasks_ok:
  assumes ok: "tasks_ok k" and n: "n < NUMBER_OF_TASKS" "\<not> bit (TaskAlloc k) n"
    and p: "unat p < 32" "PriorityVector k (unat p) = EMPTY_PRIO"
    and k': "TaskAlloc k' = TaskAlloc k OR pbit n" "NumberOfInstalledTasks k' = NumberOfInstalledTasks k + 1"
    "PriorityVector k' = (PriorityVector k)(unat p := word_of_nat (Suc n))"
    "\<And>t. prio_of k' t = (if t = Suc n then unat p else prio_of k t)"
    "OSReadyList k' = OSReadyList k OR pbit (unat p)"
  shows "tasks_ok k'"
proof -
  have n10: "n < 10" "n < 32" using n(1) by (simp_all add: config)
  have num: "unat (word_of_nat (Suc n) :: u8) = Suc n"
    using n10 by (simp add: unat_of_nat_u8 del: of_nat_Suc)
  have al: "allocated k' t \<longleftrightarrow> allocated k t \<or> t = Suc n" for t
    using n n10 by (cases t) (auto simp: allocated_def k'(1) bit_or_iff bits)
  have new: "\<not> allocated k (Suc n)" using n(2) by (simp add: allocated_def)
  have vec': "vec k' q = (if q = unat p then Suc n else vec k q)" for q
    using num by (simp add: vec_def k'(3) del: of_nat_Suc)
  have vp: "vec k (unat p) = 255" using p(2) by (simp add: vec_def codes)
  have np: "prio_of k t \<noteq> unat p" if "allocated k t" for t
    using tasks_okD(4) [OF ok that] vp allocated_bounds [OF that] by auto
  have pa: "prios (TaskAlloc k') = insert n (prios (TaskAlloc k))"
    using n10 by (simp add: k'(1) prios_set)
  have nn: "n \<notin> prios (TaskAlloc k)" using n(2) by (simp add: bits)
  have "card (prios (TaskAlloc k)) < 11"
    using card_bits_le [OF tasks_okD(1) [OF ok]] by (simp add: config)
  then have cnt: "unat (NumberOfInstalledTasks k') = card (prios (TaskAlloc k'))"
    using tasks_okD(2) [OF ok] nn by (simp add: pa k'(2) unat_inc_u8)
  have c: "prio_of k' t < 32 \<and> vec k' (prio_of k' t) = t" if "allocated k' t" for t
    using that p(1) np new tasks_okD(3,4) [OF ok] by (auto simp: al vec' k'(4))
  have d: "PriorityVector k' q = EMPTY_PRIO \<or> PriorityVector k' q = MUTEX_PRIO \<or> allocated k' (vec k' q)"
    if "q < 32" for q
    using tasks_okD(5) [OF ok that] by (auto simp: al vec' k'(3))
  have e: "allocated k' (vec k' q) \<and> prio_of k' (vec k' q) = q" if "q \<in> prios (OSReadyList k')" for q
  proof (cases "q = unat p")
    case True
    then show ?thesis by (simp add: al vec' k'(4))
  next
    case False
    then have q: "q \<in> prios (OSReadyList k)" using that p(1) by (simp add: k'(5) prios_set)
    then have a: "allocated k (vec k q)" by (rule tasks_okD(6) [OF ok])
    then have "vec k q \<noteq> Suc n" using new by auto
    then show ?thesis using False a tasks_okD(7) [OF ok q] by (simp add: al vec' k'(4))
  qed
  show ?thesis
    unfolding tasks_ok_def using pa n(1) tasks_okD(1) [OF ok] cnt c d e by auto
qed

text \<open>The new control block is not in the delay list, whose links therefore hold.\<close>

lemma install_dlist:
  assumes "dlist k xs" "Suc n \<notin> set xs" "Head k' = Head k" "Tail k' = Tail k"
    "\<And>t. t \<noteq> Suc n \<Longrightarrow> ContextTask k' t = ContextTask k t"
  shows "dlist k' xs"
proof -
  have "dseg (ContextTask k') NULL xs NULL = dseg (ContextTask k) NULL xs NULL"
    using assms(2,5) by (intro dseg_cong) (metis)
  then show ?thesis using assms(1,3,4) by (simp add: dlist_def)
qed

lemma ExitCritical_if_task_nesting:
  "nestable k \<Longrightarrow> iNesting k' = iNesting (EnterCritical_if_task k) \<Longrightarrow> currentTask k' = currentTask k \<Longrightarrow>
    iNesting (ExitCritical_if_task k') = iNesting k"
  using nestable_inc [of k]
  by (auto simp: ExitCritical_if_task_def EnterCritical_if_task_def iNesting_ExitCritical)

lemma sys_ok_coreI:
  assumes "tasks_ok k" "dlist k xs" "tick_ok k" "\<And>t. t \<in> set xs \<Longrightarrow> allocated k t"
    "core k' = core k" "nestable k'"
  shows "sys_ok k' xs"
proof -
  have c: "\<And>g. g (core k') = g (core k)" using assms(5) by simp
  have f: "TaskAlloc k' = TaskAlloc k" "PriorityVector k' = PriorityVector k"
    "NumberOfInstalledTasks k' = NumberOfInstalledTasks k" "ContextTask k' = ContextTask k"
    "OSReadyList k' = OSReadyList k" "Head k' = Head k" "Tail k' = Tail k" "OSTickCounter k' = OSTickCounter k"
    using c [of TaskAlloc] c [of PriorityVector] c [of NumberOfInstalledTasks] c [of ContextTask]
      c [of OSReadyList] c [of Head] c [of Tail] c [of OSTickCounter] by simp_all
  have "tasks_ok k'" by (rule tasks_ok_cong [OF assms(1)]) (auto simp: f prio_of_def)
  moreover have "dlist k' xs" using assms(2) by (rule dlist_cong) (simp_all add: f)
  ultimately show ?thesis
    using assms(3,4,6) by (simp add: sys_ok_def tick_ok_def f allocated_cong [OF f(1)])
qed

lemma sys_ok_cong_core: "sys_ok k xs \<Longrightarrow> core k' = core k \<Longrightarrow> nestable k' \<Longrightarrow> sys_ok k' xs"
  by (rule sys_ok_coreI [OF sys_okD(1-3) sys_okD(5)])

lemma OSInstallTask_installs:
  assumes "sys_ok k xs" and "p = 0 \<longrightarrow> PriorityVector k 0 = EMPTY_PRIO" "install_result f bytes p k = OK"
  shows "\<exists>t k'. OSInstallTask f name bytes p h k = Some (OK, map_option (\<lambda>_. word_of_nat t) h, k') \<and>
      \<not> allocated k t \<and> allocated k' t \<and> (\<forall>u. u \<noteq> t \<longrightarrow> ContextTask k' u = ContextTask k u) \<and>
      prio_of k' t = unat p \<and> vec k' (unat p) = t \<and> TimeToWait (ContextTask k' t) = NO_TIMEOUT \<and>
      TaskName (ContextTask k' t) = name \<and> StackInit (ContextTask k' t) = StackAddress k \<and>
      StackAddress k' = StackAddress k + word_of_nat (sizeof_OS_CPU_TYPE * stack_words bytes) \<and>
      unat (iStackAddress k') = unat (iStackAddress k) + stack_words bytes \<and>
      unat (iStackAddress k') \<le> HEAP_SIZE div sizeof_OS_CPU_TYPE \<and>
      prios (OSReadyList k') = insert (unat p) (prios (OSReadyList k)) \<and>
      OSBlockedList k' = OSBlockedList k \<and> iNesting k' = iNesting k \<and> sys_ok k' xs"
proof -
  have ok: "tasks_ok k" "dlist k xs" "tick_ok k" "nestable k" "\<And>t. t \<in> set xs \<Longrightarrow> allocated k t"
    using sys_okD [OF assms(1)] by blast+
  have e: "install_error f (fix_stack_size bytes) p k = None"
    using assms(3) install_error_not_OK [of f "fix_stack_size bytes" p k]
    by (auto simp: install_result_def split: option.splits)
  have p: "unat p < 32" "PriorityVector k (unat p) = EMPTY_PRIO"
    using install_error_None [OF e] assms(2) by (cases "p = 0"; simp)+
  obtain n k9 where n: "n < NUMBER_OF_TASKS" "\<not> bit (TaskAlloc k) n"
    and run: "OSInstallTask f name bytes p h k =
      Some (OK, map_option (\<lambda>_. word_of_nat (Suc n)) h, ExitCritical_if_task k9)"
    and k9: "TaskAlloc k9 = TaskAlloc k OR pbit n" "NumberOfInstalledTasks k9 = NumberOfInstalledTasks k + 1"
    "PriorityVector k9 = (PriorityVector k)(unat p := word_of_nat (Suc n))"
    "\<And>t. prio_of k9 t = (if t = Suc n then unat p else prio_of k t)"
    "\<And>t. t \<noteq> Suc n \<Longrightarrow> ContextTask k9 t = ContextTask k t"
    "TimeToWait (ContextTask k9 (Suc n)) = NO_TIMEOUT" "TaskName (ContextTask k9 (Suc n)) = name"
    "OSReadyList k9 = OSReadyList k OR pbit (unat p)" "OSBlockedList k9 = OSBlockedList k"
    "currentTask k9 = currentTask k" "OSTickCounter k9 = OSTickCounter k"
    "Head k9 = Head k" "Tail k9 = Tail k" "iNesting k9 = iNesting (EnterCritical_if_task k)"
    "StackInit (ContextTask k9 (Suc n)) = StackAddress k" "StackAddress k9 = StackAddress k + ucast (fix_stack_size bytes)"
    "iStackAddress k9 = iStackAddress k + fix_stack_size bytes div word_of_nat sizeof_OS_CPU_TYPE"
    by (rule OSInstallTask_success [OF assms(3), of name h]) (rule that)
  have n10: "n < 10" using n(1) by (simp add: config)
  have tk: "tasks_ok k9" by (rule install_tasks_ok [OF ok(1) n p k9(1-4,8)])
  have new: "\<not> allocated k (Suc n)" using n(2) by (simp add: allocated_def)
  then have "Suc n \<notin> set xs" using ok(5) by auto
  then have dl: "dlist k9 xs" by (rule install_dlist [OF ok(2) _ k9(12,13,5)])
  have nest: "iNesting (ExitCritical_if_task k9) = iNesting k"
    by (rule ExitCritical_if_task_nesting [OF ok(4) k9(14,10)])
  have al: "allocated k9 (Suc n)" "\<And>t. allocated k t \<Longrightarrow> allocated k9 t"
    using n(1) n10 by (auto simp: allocated_def k9(1) bit_or_iff bits)
  define k' where "k' = ExitCritical_if_task k9"
  have c: "core k' = core k9" by (simp add: k'_def)
  have "sys_ok k' xs"
  proof (rule sys_ok_coreI [OF tk dl _ _ c])
    show "tick_ok k9" using ok(3) by (simp add: tick_ok_def k9(11))
    show "nestable k'" using nest ok(4) by (simp add: nestable_def k'_def)
  qed (use ok(5) al(2) in blast)
  moreover have "vec k' (unat p) = Suc n"
    using n10 by (simp add: vec_def k'_def k9(3) unat_of_nat_u8 del: of_nat_Suc)
  moreover have "prios (OSReadyList k') = insert (unat p) (prios (OSReadyList k))"
    using p(1) by (simp add: k'_def k9(8) prios_set)
  moreover have "allocated k' (Suc n)" using al(1) by (simp add: k'_def allocated_def)
  moreover have "prio_of k' (Suc n) = unat p" using k9(4) [of "Suc n"] by (simp add: k'_def prio_of_def)
  moreover have "ContextTask k' = ContextTask k9" "OSBlockedList k' = OSBlockedList k"
    by (simp_all add: k'_def k9(9))
  moreover have "OSInstallTask f name bytes p h k = Some (OK, map_option (\<lambda>_. word_of_nat (Suc n)) h, k')"
    using run by (simp only: k'_def)
  moreover have "ucast (fix_stack_size bytes) = (word_of_nat (sizeof_OS_CPU_TYPE * stack_words bytes) :: u32)"
    unfolding fix_stack_size_words [symmetric] by simp
  then have "StackAddress k' = StackAddress k + word_of_nat (sizeof_OS_CPU_TYPE * stack_words bytes)"
    "unat (iStackAddress k') = unat (iStackAddress k) + stack_words bytes" "unat (iStackAddress k') \<le> HEAP_SIZE div sizeof_OS_CPU_TYPE"
    using stack_words_room [OF assms(3)] by (simp_all add: k'_def k9(16,17))
  ultimately show ?thesis
    using new k9(5-7,15) nest k'_def
    by (intro exI [of _ "Suc n"] exI [of _ k']) (simp only: simp_thms, blast)
qed

text \<open>
  C5. \<open>OSInstallTask\<close> answers with the code of the first condition on its parameters that fails (\<open>install_answer\<close>) and then changes nothing, or
  installs: the new task gets a control block no task had, its priority, the entry of
  \<open>PriorityVector\<close>, no timeout, a place in the ready list and the handle, and the kernel's invariant
  is kept. Its stack begins where the last one ended and lies in the heap of stacks. The idle task may only be installed while priority 0 is free, which no check tests.
\<close>

theorem OSInstallTask_correct:
  assumes "sys_ok k xs" and "p = 0 \<longrightarrow> PriorityVector k 0 = EMPTY_PRIO"
  shows "if install_answer f bytes p k = OK
    then (\<exists>t k'. OSInstallTask f name bytes p h k = Some (OK, map_option (\<lambda>_. word_of_nat t) h, k') \<and>
      \<not> allocated k t \<and> allocated k' t \<and> (\<forall>u. u \<noteq> t \<longrightarrow> ContextTask k' u = ContextTask k u) \<and>
      prio_of k' t = unat p \<and> vec k' (unat p) = t \<and> TimeToWait (ContextTask k' t) = NO_TIMEOUT \<and>
      TaskName (ContextTask k' t) = name \<and> StackInit (ContextTask k' t) = StackAddress k \<and>
      StackAddress k' = StackAddress k + word_of_nat (sizeof_OS_CPU_TYPE * stack_words bytes) \<and>
      unat (iStackAddress k') = unat (iStackAddress k) + stack_words bytes \<and>
      unat (iStackAddress k') \<le> HEAP_SIZE div sizeof_OS_CPU_TYPE \<and>
      prios (OSReadyList k') = insert (unat p) (prios (OSReadyList k)) \<and>
      OSBlockedList k' = OSBlockedList k \<and> iNesting k' = iNesting k \<and> sys_ok k' xs)
    else (\<exists>k'. OSInstallTask f name bytes p h k = Some (install_answer f bytes p k, h, k') \<and> core k' = core k)"
  using OSInstallTask_installs [OF assms] OSInstallTask_error [of f bytes p k name h] unfolding install_result_answer
  by (simp only: split: if_splits) blast

end
