(* ===== verification/Task_Blocking.thy ===== *)
theory Task_Blocking
  imports Task_Manager
begin

text \<open>
  The block and unblock services: each changes \<open>OSBlockedList\<close> alone, by one priority or by those of
  a range of tasks, keeps the kernel's invariant, and takes the task out of the scheduler's choice.
\<close>

lemma sys_ok_blocked:
  assumes "sys_ok k xs" "core k' = core (k\<lparr>OSBlockedList := b\<rparr>)" "nestable k'"
  shows "sys_ok k' xs"
proof (rule sys_ok_coreI [OF _ _ _ _ assms(2,3)])
  show "tasks_ok (k\<lparr>OSBlockedList := b\<rparr>)"
    by (rule tasks_ok_cong [OF sys_okD(1) [OF assms(1)]]) (simp_all add: prio_of_def)
  show "dlist (k\<lparr>OSBlockedList := b\<rparr>) xs"
    using sys_okD(2) [OF assms(1)] by (rule dlist_cong) simp_all
  show "tick_ok (k\<lparr>OSBlockedList := b\<rparr>)" using sys_okD(3) [OF assms(1)] by (simp add: tick_ok_def)
  show "allocated (k\<lparr>OSBlockedList := b\<rparr>) t" if "t \<in> set xs" for t
    using sys_okD(5) [OF assms(1) that] by (simp add: allocated_def)
qed

lemma core_blocked: "core (k\<lparr>OSBlockedList := b\<rparr>) = (core k)\<lparr>OSBlockedList := b\<rparr>"
  by (simp add: core_def)

text \<open>The frame of a block service: the wrapper of critical section and switch request.\<close>

lemma block_wrap:
  assumes "nestable k"
    "k' = ExitCritical_if_task (if c then ChangeContext ((EnterCritical_if_task k)\<lparr>OSBlockedList := b\<rparr>)
       else (EnterCritical_if_task k)\<lparr>OSBlockedList := b\<rparr>)"
  shows "core k' = core (k\<lparr>OSBlockedList := b\<rparr>)" "iNesting k' = iNesting k" "OSBlockedList k' = b"
proof -
  show "core k' = core (k\<lparr>OSBlockedList := b\<rparr>)" "OSBlockedList k' = b"
    using assms(2) by (simp_all add: core_blocked)
  show "iNesting k' = iNesting k"
    using assms by (auto intro!: ExitCritical_if_task_nesting)
qed

lemma unblock_wrap:
  assumes "nestable k"
    "k' = ExitCritical (if c then ChangeContext_if_not_nested ((EnterCritical k)\<lparr>OSBlockedList := b\<rparr>)
       else (EnterCritical k)\<lparr>OSBlockedList := b\<rparr>)"
  shows "core k' = core (k\<lparr>OSBlockedList := b\<rparr>)" "iNesting k' = iNesting k" "OSBlockedList k' = b"
    "PendingInterrupts k' = PendingInterrupts k"
proof -
  have n: "ChangeContext_if_not_nested ((EnterCritical k)\<lparr>OSBlockedList := b\<rparr>) =
      (EnterCritical k)\<lparr>OSBlockedList := b\<rparr>"
    using nestable_inc [OF assms(1)] by (simp add: ChangeContext_if_not_nested_def)
  then have k': "k' = ExitCritical ((EnterCritical k)\<lparr>OSBlockedList := b\<rparr>)" using assms(2) by simp
  show "core k' = core (k\<lparr>OSBlockedList := b\<rparr>)" "OSBlockedList k' = b"
    "PendingInterrupts k' = PendingInterrupts k"
    by (simp_all add: k' core_blocked)
  show "iNesting k' = iNesting k"
    using nestable_inc [OF assms(1)] by (simp add: k' iNesting_ExitCritical)
qed

text \<open>A task whose priority is not in the block list's complement is never chosen.\<close>

lemma blocked_not_chosen:
  assumes "tasks_ok k" "runnable k \<noteq> {}" "prio_of k t \<notin> prios (OSBlockedList k)"
  shows "unat (OSSchedule k) \<noteq> t"
proof -
  have m: "Max (runnable k) \<in> runnable k" by (rule Max_in [OF runnable_finite assms(2)])
  then have "prio_of k (unat (OSSchedule k)) = Max (runnable k)"
    using OSSchedule_vec [OF assms(2)] tasks_okD(7) [OF assms(1)] by (simp add: runnable_def)
  then show ?thesis using m assms(3) by (auto simp: runnable_def)
qed

lemma task_at_allocated:
  "allocated k t \<Longrightarrow> task_at t k' = Some (ContextTask k' t)"
  by (simp add: task_at_def allocated_def)

lemma handle_u8:
  "allocated k (unat h) \<Longrightarrow> h \<noteq> (0 :: u32)"
  by (auto simp: allocated_def)

lemma OSBlockTask_step:
  assumes "tasks_ok k" "nestable k" "iNesting k = 0" "allocated k (unat h)"
  obtains k' where "OSBlockTask h k = Some (OK, k')"
    "core k' = core (k\<lparr>OSBlockedList := OSBlockedList k AND NOT (pbit (prio_of k (unat h)))\<rparr>)"
    "iNesting k' = iNesting k"
    "OSBlockedList k' = OSBlockedList k AND NOT (pbit (prio_of k (unat h)))"
proof -
  have h: "h \<noteq> 0" by (rule handle_u8 [OF assms(4)])
  have p: "unat (Priority (ContextTask k (unat h))) < 32"
    using tasks_okD(3) [OF assms(1,4)] by (simp add: prio_of_def)
  let ?b = "OSBlockedList k AND NOT (pbit (prio_of k (unat h)))"
  define k' where "k' = ExitCritical_if_task (if ucast (currentTask k) = h
      then ChangeContext ((EnterCritical_if_task k)\<lparr>OSBlockedList := ?b\<rparr>)
      else (EnterCritical_if_task k)\<lparr>OSBlockedList := ?b\<rparr>)"
  have eq: "OSBlockTask h k = Some (OK, k')"
    using assms(3) h p
    by (simp add: OSBlockTask_def Let_def task_at_allocated [OF assms(4)] PriorityMask_Some k'_def prio_of_def)
  show thesis by (rule that [OF eq block_wrap [OF assms(2) k'_def]])
qed

lemma OSUnBlockTask_step:
  assumes "tasks_ok k" "nestable k" "allocated k (unat h)"
  obtains k' where "OSUnBlockTask h k = Some (OK, k')"
    "core k' = core (k\<lparr>OSBlockedList := OSBlockedList k OR pbit (prio_of k (unat h))\<rparr>)"
    "iNesting k' = iNesting k" "OSBlockedList k' = OSBlockedList k OR pbit (prio_of k (unat h))"
    "PendingInterrupts k' = PendingInterrupts k"
proof -
  have p: "unat (Priority (ContextTask k (unat h))) < 32"
    using tasks_okD(3) [OF assms(1,3)] by (simp add: prio_of_def)
  let ?b = "OSBlockedList k OR pbit (prio_of k (unat h))"
  define k' where "k' = ExitCritical (if currentTask k \<noteq> 0
      then ChangeContext_if_not_nested ((EnterCritical k)\<lparr>OSBlockedList := ?b\<rparr>)
      else (EnterCritical k)\<lparr>OSBlockedList := ?b\<rparr>)"
  have eq: "OSUnBlockTask h k = Some (OK, k')"
    using p
    by (simp add: OSUnBlockTask_def Let_def task_at_allocated [OF assms(3)] PriorityMask_Some k'_def prio_of_def)
  show thesis by (rule that [OF eq unblock_wrap [OF assms(2) k'_def]])
qed

text \<open>The same services by priority, for any of the 32.\<close>

lemma OSBlockPriority_step:
  assumes "nestable k" "iNesting k = 0" "unat p < 32"
  obtains k' where "OSBlockPriority p k = Some (OK, k')"
    "core k' = core (k\<lparr>OSBlockedList := OSBlockedList k AND NOT (pbit (unat p))\<rparr>)"
    "iNesting k' = iNesting k" "OSBlockedList k' = OSBlockedList k AND NOT (pbit (unat p))"
proof -
  let ?b = "OSBlockedList k AND NOT (pbit (unat p))"
  define k' where "k' = ExitCritical_if_task (if currentTask k = PriorityVector k (unat p)
      then ChangeContext ((EnterCritical_if_task k)\<lparr>OSBlockedList := ?b\<rparr>)
      else (EnterCritical_if_task k)\<lparr>OSBlockedList := ?b\<rparr>)"
  have eq: "OSBlockPriority p k = Some (OK, k')"
    using assms(2,3)
    by (simp add: OSBlockPriority_def Let_def prio_at_def config PriorityMask_Some k'_def)
  show thesis by (rule that [OF eq block_wrap [OF assms(1) k'_def]])
qed

lemma OSUnBlockPriority_step:
  assumes "nestable k" "unat p < 32"
  obtains k' where "OSUnBlockPriority p k = Some (OK, k')"
    "core k' = core (k\<lparr>OSBlockedList := OSBlockedList k OR pbit (unat p)\<rparr>)"
    "iNesting k' = iNesting k" "OSBlockedList k' = OSBlockedList k OR pbit (unat p)"
    "PendingInterrupts k' = PendingInterrupts k"
proof -
  let ?b = "OSBlockedList k OR pbit (unat p)"
  define k' where "k' = ExitCritical (if currentTask k \<noteq> 0
      then ChangeContext_if_not_nested ((EnterCritical k)\<lparr>OSBlockedList := ?b\<rparr>)
      else (EnterCritical k)\<lparr>OSBlockedList := ?b\<rparr>)"
  have eq: "OSUnBlockPriority p k = Some (OK, k')"
    using assms(2) by (simp add: OSUnBlockPriority_def Let_def PriorityMask_Some k'_def)
  show thesis by (rule that [OF eq unblock_wrap [OF assms(1) k'_def]])
qed

lemma nestable_cong: "iNesting k' = iNesting k \<Longrightarrow> nestable k \<Longrightarrow> nestable k'"
  by (simp add: nestable_def)

text \<open>
  C10. \<open>OSBlockTask\<close> removes exactly the task's priority from the block list and keeps the kernel's
  invariant, so that the scheduler does not choose the task while another can run; \<open>OSUnBlockTask\<close>
  afterwards restores the block list.
\<close>

theorem OSBlockTask_round_trip:
  assumes "sys_ok k xs" "iNesting k = 0" "allocated k (unat h)"
    "prio_of k (unat h) \<in> prios (OSBlockedList k)"
  shows "\<exists>k1 k2. OSBlockTask h k = Some (OK, k1) \<and> sys_ok k1 xs \<and>
    prios (OSBlockedList k1) = prios (OSBlockedList k) - {prio_of k (unat h)} \<and>
    (runnable k1 \<noteq> {} \<longrightarrow> OSSchedule k1 \<noteq> ucast h) \<and>
    OSUnBlockTask h k1 = Some (OK, k2) \<and> sys_ok k2 xs \<and> core k2 = core k"
proof -
  have ok: "tasks_ok k" "nestable k" using sys_okD [OF assms(1)] by blast+
  have p: "prio_of k (unat h) < 32" by (rule tasks_okD(3) [OF ok(1) assms(3)])
  obtain k1 where k1: "OSBlockTask h k = Some (OK, k1)"
    "core k1 = core (k\<lparr>OSBlockedList := OSBlockedList k AND NOT (pbit (prio_of k (unat h)))\<rparr>)"
    "iNesting k1 = iNesting k"
    "OSBlockedList k1 = OSBlockedList k AND NOT (pbit (prio_of k (unat h)))"
    by (rule OSBlockTask_step [OF ok assms(2,3)])
  have n1: "nestable k1" by (rule nestable_cong [OF k1(3) ok(2)])
  have s1: "sys_ok k1 xs" by (rule sys_ok_blocked [OF assms(1) k1(2) n1])
  have c: "\<And>g. g (core k1) = g (core (k\<lparr>OSBlockedList := OSBlockedList k AND NOT (pbit (prio_of k (unat h)))\<rparr>))"
    using k1(2) by simp
  have same: "ContextTask k1 = ContextTask k" "TaskAlloc k1 = TaskAlloc k"
    using c [of ContextTask] c [of TaskAlloc] by simp_all
  have b1: "prios (OSBlockedList k1) = prios (OSBlockedList k) - {prio_of k (unat h)}"
    using p by (simp add: k1(4) prios_clear)
  have pr: "prio_of k1 (unat h) = prio_of k (unat h)" by (simp add: prio_of_def same)
  have a1: "allocated k1 (unat h)" using assms(3) by (simp add: allocated_def same)
  obtain k2 where k2: "OSUnBlockTask h k1 = Some (OK, k2)"
    "core k2 = core (k1\<lparr>OSBlockedList := OSBlockedList k1 OR pbit (prio_of k1 (unat h))\<rparr>)"
    "iNesting k2 = iNesting k1"
    by (rule OSUnBlockTask_step [OF sys_okD(1) [OF s1] n1 a1])
  have "sys_ok k2 xs" by (rule sys_ok_blocked [OF s1 k2(2) nestable_cong [OF k2(3) n1]])
  moreover have "core k2 = core k"
    using assms(4) p by (simp add: k2(2) core_blocked k1(2,4) pr clear_set_id prios_iff)
  moreover have "OSSchedule k1 \<noteq> ucast h" if r: "runnable k1 \<noteq> {}"
  proof -
    have "unat (OSSchedule k1) \<noteq> unat h"
      using r b1 pr by (intro blocked_not_chosen [OF sys_okD(1) [OF s1]]) auto
    moreover have "unat h < 256" using allocated_bounds [OF assms(3)] by simp
    ultimately show ?thesis by (auto simp: unsigned_ucast_eq take_bit_nat_eq_self)
  qed
  ultimately show ?thesis using k1(1) s1 b1 k2(1) by blast
qed

subsection \<open>Ranges of tasks\<close>

text \<open>The priorities of the tasks in a range, the running one excepted.\<close>

definition range_prios :: "kernel \<Rightarrow> nat \<Rightarrow> nat \<Rightarrow> nat set" where
  "range_prios k s f = prio_of k ` ({s..<f} - {unat (currentTask k)})"

lemma range_prios_step:
  "s < f \<Longrightarrow> range_prios k s f =
    (if s = unat (currentTask k) then {} else {prio_of k s}) \<union> range_prios k (Suc s) f"
proof -
  assume "s < f"
  then have "{s..<f} = insert s {Suc s..<f}" by auto
  then show ?thesis by (auto simp: range_prios_def)
qed

lemma range_prios_blocked [simp]: "range_prios (k\<lparr>OSBlockedList := b\<rparr>) s f = range_prios k s f"
  by (simp add: range_prios_def prio_of_def)

definition range_ok :: "kernel \<Rightarrow> nat \<Rightarrow> nat \<Rightarrow> bool" where
  "range_ok k s f \<longleftrightarrow> (\<forall>t. s \<le> t \<and> t < f \<and> t \<noteq> unat (currentTask k) \<longrightarrow> t \<le> NUMBER_OF_TASKS \<and> prio_of k t < 32)"

lemma range_ok_blocked [simp]: "range_ok (k\<lparr>OSBlockedList := b\<rparr>) s f = range_ok k s f"
  by (simp add: range_ok_def prio_of_def)

lemma block_range_spec:
  assumes "range_ok k (unat s) (unat f)"
  shows "\<exists>b. block_range s f k = Some (k\<lparr>OSBlockedList := b\<rparr>) \<and>
    prios b = prios (OSBlockedList k) - range_prios k (unat s) (unat f)"
  using assms
proof (induction "unat f - unat s" arbitrary: s k)
  case 0
  then have "\<not> s < f" by (simp add: word_less_nat_alt)
  then show ?case using 0 by (intro exI [of _ "OSBlockedList k"])
    (simp add: block_range.simps [of s] range_prios_def word_less_nat_alt)
next
  case (Suc n)
  then have sf: "s < f" by (simp add: word_less_nat_alt)
  have next_s: "unat (s + 1) = Suc (unat s)" by (rule less_inc_u8 [OF sf])
  have lt: "unat s < unat f" using sf by (simp add: word_less_nat_alt)
  have cur: "s = currentTask k \<longleftrightarrow> unat s = unat (currentTask k)" by (simp add: word_unat_eq_iff)
  define b1 where "b1 = (if s = currentTask k then OSBlockedList k
    else OSBlockedList k AND NOT (pbit (prio_of k (unat s))))"
  have p: "unat s \<le> NUMBER_OF_TASKS" "prio_of k (unat s) < 32" if "s \<noteq> currentTask k"
    using Suc.prems lt that cur by (auto simp: range_ok_def)
  have first: "block_range s f k = block_range (s + 1) f (k\<lparr>OSBlockedList := b1\<rparr>)"
    using sf p
    by (subst block_range.simps)
      (auto simp: b1_def task_at_def PriorityMask_Some prio_of_def)
  have ok1: "range_ok (k\<lparr>OSBlockedList := b1\<rparr>) (unat (s + 1)) (unat f)"
    using Suc.prems by (auto simp: range_ok_def prio_of_def next_s)
  have "n = unat f - unat (s + 1)" using Suc.hyps(2) next_s by simp
  from Suc.hyps(1) [OF this ok1] obtain b where
    b: "block_range (s + 1) f (k\<lparr>OSBlockedList := b1\<rparr>) = Some (k\<lparr>OSBlockedList := b1, OSBlockedList := b\<rparr>)"
       "prios b = prios b1 - range_prios k (Suc (unat s)) (unat f)"
    by (auto simp: next_s)
  have "prios b = prios (OSBlockedList k) - range_prios k (unat s) (unat f)"
    using b(2) p cur by (auto simp: range_prios_step [OF lt] b1_def prios_clear)
  then show ?case using first b(1) by auto
qed

lemma unblock_range_spec:
  assumes "range_ok k (unat s) (unat f)"
  shows "\<exists>b. unblock_range s f k = Some (k\<lparr>OSBlockedList := b\<rparr>) \<and>
    prios b = prios (OSBlockedList k) \<union> range_prios k (unat s) (unat f)"
  using assms
proof (induction "unat f - unat s" arbitrary: s k)
  case 0
  then have "\<not> s < f" by (simp add: word_less_nat_alt)
  then show ?case using 0 by (intro exI [of _ "OSBlockedList k"])
    (simp add: unblock_range.simps [of s] range_prios_def word_less_nat_alt)
next
  case (Suc n)
  then have sf: "s < f" by (simp add: word_less_nat_alt)
  have next_s: "unat (s + 1) = Suc (unat s)" by (rule less_inc_u8 [OF sf])
  have lt: "unat s < unat f" using sf by (simp add: word_less_nat_alt)
  have cur: "s = currentTask k \<longleftrightarrow> unat s = unat (currentTask k)" by (simp add: word_unat_eq_iff)
  define b1 where "b1 = (if s = currentTask k then OSBlockedList k
    else OSBlockedList k OR pbit (prio_of k (unat s)))"
  have p: "unat s \<le> NUMBER_OF_TASKS" "prio_of k (unat s) < 32" if "s \<noteq> currentTask k"
    using Suc.prems lt that cur by (auto simp: range_ok_def)
  have first: "unblock_range s f k = unblock_range (s + 1) f (k\<lparr>OSBlockedList := b1\<rparr>)"
    using sf p
    by (subst unblock_range.simps)
      (auto simp: b1_def task_at_def PriorityMask_Some prio_of_def)
  have ok1: "range_ok (k\<lparr>OSBlockedList := b1\<rparr>) (unat (s + 1)) (unat f)"
    using Suc.prems by (auto simp: range_ok_def prio_of_def next_s)
  have "n = unat f - unat (s + 1)" using Suc.hyps(2) next_s by simp
  from Suc.hyps(1) [OF this ok1] obtain b where
    b: "unblock_range (s + 1) f (k\<lparr>OSBlockedList := b1\<rparr>) = Some (k\<lparr>OSBlockedList := b1, OSBlockedList := b\<rparr>)"
       "prios b = prios b1 \<union> range_prios k (Suc (unat s)) (unat f)"
    by (auto simp: next_s)
  have "prios b = prios (OSBlockedList k) \<union> range_prios k (unat s) (unat f)"
    using b(2) p cur by (auto simp: range_prios_step [OF lt] b1_def prios_set)
  then show ?case using first b(1) by auto
qed

lemma range_if_task [simp]:
  "range_ok (EnterCritical_if_task k) s f = range_ok k s f"
  "range_prios (EnterCritical_if_task k) s f = range_prios k s f"
  by (simp_all add: range_ok_def range_prios_def prio_of_def)

text \<open>
  \<open>OSBlockMultipleTask(start, n)\<close> blocks, besides the caller, the tasks
  \<open>start, ..., start + n - 1\<close> and no other, where the end of the range is computed in a byte: a range
  that passes 255 wraps and is empty.
\<close>

theorem OSBlockMultipleTask_range:
  assumes "sys_ok k xs" "iNesting k = 0" "range_ok k (unat s) (unat (s + n))"
  shows "\<exists>k'. OSBlockMultipleTask s n k = Some (OK, k') \<and> sys_ok k' xs \<and>
    prios (OSBlockedList k') = prios (OSBlockedList k) - range_prios k (unat s) (unat (s + n)) \<and>
    (unat s + unat n \<ge> 256 \<longrightarrow> OSBlockedList k' = OSBlockedList k)"
proof -
  have ne: "nestable k" by (rule sys_okD(4) [OF assms(1)])
  have r: "range_ok (EnterCritical_if_task k) (unat s) (unat (s + n))" using assms(3) by simp
  obtain b where b: "block_range s (s + n) (EnterCritical_if_task k) =
      Some ((EnterCritical_if_task k)\<lparr>OSBlockedList := b\<rparr>)"
    "prios b = prios (OSBlockedList k) - range_prios k (unat s) (unat (s + n))"
    using block_range_spec [OF r] by auto
  define k' where "k' = ExitCritical_if_task (if False then ChangeContext ((EnterCritical_if_task k)\<lparr>OSBlockedList := b\<rparr>)
      else (EnterCritical_if_task k)\<lparr>OSBlockedList := b\<rparr>)"
  have eq: "OSBlockMultipleTask s n k = Some (OK, k')"
    using assms(2) b(1) by (simp add: OSBlockMultipleTask_def Let_def k'_def)
  note w = block_wrap [OF ne k'_def]
  have "sys_ok k' xs" by (rule sys_ok_blocked [OF assms(1) w(1) nestable_cong [OF w(2) ne]])
  moreover have "OSBlockedList k' = OSBlockedList k" if "unat s + unat n \<ge> 256"
  proof -
    have "unat (s + n) = unat s + unat n - 256"
      using that unat_u8_less [of s] unat_u8_less [of n] by (simp add: unat_word_ariths mod_if)
    then have "unat (s + n) \<le> unat s" using unat_u8_less [of n] by simp
    then have "range_prios k (unat s) (unat (s + n)) = {}" by (simp add: range_prios_def)
    then have "prios b = prios (OSBlockedList k)" using b(2) by simp
    then show ?thesis using w(3) by (simp add: prios_eqI)
  qed
  ultimately show ?thesis using eq b(2) w(3) by auto
qed

text \<open>
  A switch is not requested by the unblock services: inside their critical section \<open>iNesting\<close> is
  never 0, so \<open>ChangeContext\<close> is not reached and a task of higher priority than the caller waits for
  the next interrupt.
\<close>

theorem OSUnBlockTask_no_switch:
  assumes "tasks_ok k" "nestable k" "allocated k (unat h)"
  shows "\<exists>k'. OSUnBlockTask h k = Some (OK, k') \<and> PendingInterrupts k' = PendingInterrupts k \<and>
    prio_of k (unat h) \<in> prios (OSBlockedList k')"
proof -
  have p: "prio_of k (unat h) < 32" by (rule tasks_okD(3) [OF assms(1,3)])
  obtain k' where "OSUnBlockTask h k = Some (OK, k')"
    "OSBlockedList k' = OSBlockedList k OR pbit (prio_of k (unat h))"
    "PendingInterrupts k' = PendingInterrupts k"
    by (rule OSUnBlockTask_step [OF assms])
  then show ?thesis using p by (simp add: prios_set)
qed

lemma OSUnBlockMultipleTask_step:
  assumes "nestable k" "iNesting k = 0" "range_ok k (unat s) (unat (s + n))"
  shows "\<exists>k'. OSUnBlockMultipleTask s n k = Some (OK, k') \<and>
    prios (OSBlockedList k') = prios (OSBlockedList k) \<union> range_prios k (unat s) (unat (s + n)) \<and>
    PendingInterrupts k' = PendingInterrupts k"
proof -
  have r: "range_ok (EnterCritical_if_task k) (unat s) (unat (s + n))" using assms(3) by simp
  obtain b where b: "unblock_range s (s + n) (EnterCritical_if_task k) =
      Some ((EnterCritical_if_task k)\<lparr>OSBlockedList := b\<rparr>)"
    "prios b = prios (OSBlockedList k) \<union> range_prios k (unat s) (unat (s + n))"
    using unblock_range_spec [OF r] by auto
  show ?thesis
  proof (cases "currentTask k = 0")
    case True
    then show ?thesis using assms(2) b by (simp add: OSUnBlockMultipleTask_def Let_def EnterCritical_if_task_def)
  next
    case False
    then show ?thesis using assms(2) b nestable_inc [OF assms(1)]
      by (simp add: OSUnBlockMultipleTask_def Let_def EnterCritical_if_task_def ChangeContext_if_not_nested_def)
  qed
qed

end
