(* ===== verification/Startup.thy ===== *)
theory Startup
  imports Task_Blocking
begin

text \<open>
  From reset to the first task: initialisation establishes the kernel's invariant, and \<open>BRTOSStart\<close>
  dispatches the highest priority among the installed tasks. The small system at the end, three tasks
  installed by the code's own functions, is the concrete state at which theorems are instantiated.
\<close>

lemma BRTOSInit_frame [simp]:
  "OSReadyList (BRTOSInit s k) = OSReadyList k" "OSBlockedList (BRTOSInit s k) = OSBlockedList k"
  "iNesting (BRTOSInit s k) = iNesting k" "currentTask (BRTOSInit s k) = 0"
  "TaskAlloc (BRTOSInit s k) = 0" "NumberOfInstalledTasks (BRTOSInit s k) = 0"
  "OSTickCounter (BRTOSInit s k) = 0" "Head (BRTOSInit s k) = NULL" "Tail (BRTOSInit s k) = NULL"
  "iStackAddress (BRTOSInit s k) = 0"
  by (simp_all add: BRTOSInit_def PreInstallTasks_def initEvents_def Let_def)

lemma PriorityVector_BRTOSInit: "p < 32 \<Longrightarrow> PriorityVector (BRTOSInit s k) p = EMPTY_PRIO"
  by (simp add: BRTOSInit_def PreInstallTasks_def initEvents_def Let_def config)

lemma BRTOSInit_events [simp]:
  "i < BRTOS_MAX_SEM \<Longrightarrow> OSEventAllocated (BRTOS_Sem_Table (BRTOSInit s k) i) = 0"
  "i < BRTOS_MAX_MUTEX \<Longrightarrow> OSEventAllocated (BRTOS_Mutex_Table (BRTOSInit s k) i) = 0"
  "i < BRTOS_MAX_MBOX \<Longrightarrow> OSEventAllocated (BRTOS_Mbox_Table (BRTOSInit s k) i) = 0"
  "i < BRTOS_MAX_QUEUE \<Longrightarrow> OSEventAllocated (BRTOS_Queue_Table (BRTOSInit s k) i) = 0"
  by (simp_all add: BRTOSInit_def PreInstallTasks_def initEvents_def Let_def)

lemma BRTOSInit_sys_ok:
  assumes "OSReadyList k = 0" "iNesting k = 0"
  shows "sys_ok (BRTOSInit s k) []"
proof -
  have "\<not> allocated (BRTOSInit s k) t" for t by (simp add: allocated_def)
  then have "tasks_ok (BRTOSInit s k)"
    using assms(1) by (simp add: tasks_ok_def PriorityVector_BRTOSInit)
  then show ?thesis
    using assms(2) by (simp add: sys_ok_def dlist_def tick_ok_def nestable_def config)
qed

text \<open>
  \<open>BRTOSInit\<close> establishes the kernel's invariant: no task, an empty delay list, the counter at 0,
  every priority and every event control block free.
\<close>

theorem BRTOSInit_establishes:
  fixes STACK :: u32
  assumes "OSReadyList k = 0" "iNesting k = 0"
  defines "k' \<equiv> BRTOSInit STACK k"
  shows "sys_ok k' [] \<and> (\<forall>p < 32. PriorityVector k' p = EMPTY_PRIO) \<and> (\<forall>t. \<not> allocated k' t) \<and>
    (\<forall>i < BRTOS_MAX_SEM. OSEventAllocated (BRTOS_Sem_Table k' i) = 0) \<and>
    (\<forall>i < BRTOS_MAX_MUTEX. OSEventAllocated (BRTOS_Mutex_Table k' i) = 0) \<and>
    (\<forall>i < BRTOS_MAX_MBOX. OSEventAllocated (BRTOS_Mbox_Table k' i) = 0) \<and>
    (\<forall>i < BRTOS_MAX_QUEUE. OSEventAllocated (BRTOS_Queue_Table k' i) = 0)"
  using BRTOSInit_sys_ok [OF assms(1,2)]
  by (simp add: k'_def PriorityVector_BRTOSInit allocated_def)

lemma BTOSStartFirstTask_frame [simp]:
  "currentTask (BTOSStartFirstTask k) = currentTask k" "OSReadyList (BTOSStartFirstTask k) = OSReadyList k"
  "OSBlockedList (BTOSStartFirstTask k) = OSBlockedList k" "ContextTask (BTOSStartFirstTask k) = ContextTask k"
  "PriorityVector (BTOSStartFirstTask k) = PriorityVector k" "TaskAlloc (BTOSStartFirstTask k) = TaskAlloc k"
  "NumberOfInstalledTasks (BTOSStartFirstTask k) = NumberOfInstalledTasks k"
  "Head (BTOSStartFirstTask k) = Head k" "Tail (BTOSStartFirstTask k) = Tail k"
  "OSTickCounter (BTOSStartFirstTask k) = OSTickCounter k" "iNesting (BTOSStartFirstTask k) = 0"
  "InterruptEventMutex (BTOSStartFirstTask k)" "SPvalue (BTOSStartFirstTask k) = SPvalue k"
  by (simp_all add: BTOSStartFirstTask_def Let_def ConfiguraInterruptHandler_def)

lemma BRTOSStart_step:
  assumes "sys_ok k xs" "PriorityVector k 0 = EMPTY_PRIO" "bit (OSBlockedList k) 0"
    "install_result Idle IDLE_STACK_SIZE 0 k = OK"
  shows "\<exists>k'. BRTOSStart k = Some (Inr k') \<and> sys_ok k' xs \<and> iNesting k' = 0 \<and>
    0 \<in> runnable k' \<and> allocated k' (unat (currentTask k')) \<and>
    prio_of k' (unat (currentTask k')) = Max (runnable k') \<and>
    SPvalue k' = StackPoint (ContextTask k' (unat (currentTask k')))"
proof -
  obtain t k1 where k1: "OSInstallTask Idle ''Idle Task'' IDLE_STACK_SIZE 0 None k = Some (OK, None, k1)"
    "prios (OSReadyList k1) = insert 0 (prios (OSReadyList k))" "OSBlockedList k1 = OSBlockedList k"
    "sys_ok k1 xs"
    using OSInstallTask_installs [of k xs 0 Idle IDLE_STACK_SIZE "''Idle Task''" None] assms by auto
  have r: "0 \<in> runnable k1" using k1(2,3) assms(3) by (simp add: runnable_def bits)
  then have ne: "runnable k1 \<noteq> {}" by auto
  have tk: "tasks_ok k1" by (rule sys_okD(1) [OF k1(4)])
  define c where "c = OSSchedule k1"
  have al: "allocated k1 (unat c)" unfolding c_def
    by (rule OSSchedule_choice [OF tk ne])
  have pr: "prio_of k1 (unat c) = Max (runnable k1)"
    unfolding c_def by (rule OSSchedule_choice [OF tk ne])
  define k2 where "k2 = k1\<lparr>currentTask := c\<rparr>"
  define k3 where "k3 = k2\<lparr>SPvalue := StackPoint (ContextTask k1 (unat c))\<rparr>"
  have "task_at (unat c) k2 = Some (ContextTask k1 (unat c))"
    using al by (simp add: k2_def task_at_def allocated_def)
  then have eq: "BRTOSStart k = Some (Inr (BTOSStartFirstTask k3))"
    using k1(1) by (simp add: BRTOSStart_def Let_def c_def [symmetric] k2_def [symmetric] k3_def)
  define k' where "k' = BTOSStartFirstTask k3"
  have f: "TaskAlloc k' = TaskAlloc k1" "PriorityVector k' = PriorityVector k1"
    "NumberOfInstalledTasks k' = NumberOfInstalledTasks k1" "ContextTask k' = ContextTask k1"
    "OSReadyList k' = OSReadyList k1" "OSBlockedList k' = OSBlockedList k1" "currentTask k' = c"
    "Head k' = Head k1" "Tail k' = Tail k1" "OSTickCounter k' = OSTickCounter k1" "iNesting k' = 0"
    "SPvalue k' = StackPoint (ContextTask k1 (unat c))"
    by (simp_all add: k'_def k3_def k2_def)
  have "tasks_ok k'" by (rule tasks_ok_cong [OF tk]) (simp_all add: f prio_of_def)
  moreover have "dlist k' xs" using sys_okD(2) [OF k1(4)] by (rule dlist_cong) (simp_all add: f)
  moreover have "tick_ok k'" using sys_okD(3) [OF k1(4)] by (simp add: tick_ok_def f)
  moreover have "\<forall>t \<in> set xs. allocated k' t" using sys_okD(5) [OF k1(4)] by (simp add: allocated_def f)
  ultimately have "sys_ok k' xs" by (simp add: sys_ok_def nestable_def f)
  moreover have "runnable k' = runnable k1" by (simp add: runnable_def f)
  ultimately show ?thesis
    using eq r al pr by (intro exI [of _ k']) (simp add: f k'_def [symmetric] allocated_def prio_of_def)
qed

text \<open>
  C9. \<open>BRTOSStart\<close>, called after the installation of the user's tasks with priority 0 free and room
  for the idle task, leaves the system running with the task of the highest ready priority as the
  current one and its stack pointer loaded; the idle task is ready, so the scheduler always has a
  choice.
\<close>

theorem BRTOSStart_dispatches:
  assumes "sys_ok k xs" "PriorityVector k 0 = EMPTY_PRIO" "bit (OSBlockedList k) 0"
    "install_result Idle IDLE_STACK_SIZE 0 k = OK"
  shows "\<exists>k'. BRTOSStart k = Some (Inr k') \<and> sys_ok k' xs \<and> iNesting k' = 0 \<and>
    0 \<in> runnable k' \<and> allocated k' (unat (currentTask k')) \<and>
    prio_of k' (unat (currentTask k')) = Max (runnable k') \<and>
    SPvalue k' = StackPoint (ContextTask k' (unat (currentTask k')))"
  by (rule BRTOSStart_step [OF assms])

subsection \<open>A system of three tasks\<close>

text \<open>
  Tasks 1 and 2 at priorities 5 and 10 and the idle task as number 3, after \<open>BRTOSStart\<close>; no run of
  it is undefined or fails, so the alternatives of the definition are not taken.
\<close>

definition installed :: "(u8 \<times> u32 option \<times> kernel) option \<Rightarrow> kernel" where
  "installed r = (case r of Some (_, _, k) \<Rightarrow> k | None \<Rightarrow> globals_init False)"

definition started :: "((u8 \<times> kernel) + kernel) option \<Rightarrow> kernel" where
  "started r = (case r of Some (Inr k) \<Rightarrow> k | _ \<Rightarrow> globals_init False)"

definition demo0 :: kernel where "demo0 = BRTOSInit 0x1000 (globals_init False)"

definition demo1 :: kernel where
  "demo1 = installed (OSInstallTask (UserTask 1) ''low'' 16 5 None demo0)"

definition demo2 :: kernel where
  "demo2 = installed (OSInstallTask (UserTask 2) ''high'' 16 10 None demo1)"

definition demo :: kernel where "demo = started (BRTOSStart demo2)"

lemma globals_init_frame [simp]:
  "OSReadyList (globals_init c) = 0" "OSBlockedList (globals_init c) = 0xFFFFFFFF"
  "iNesting (globals_init c) = 0" "TaskAlloc (globals_init c) = 0"
  by (simp_all add: globals_init_def)

lemma demo_facts:
  "currentTask demo = 2" "OSReadyList demo = 0x421" "OSBlockedList demo = 0xFFFFFFFF"
  "TaskAlloc demo = 7" "iNesting demo = 0" "InterruptEventMutex demo"
  "Priority (ContextTask demo 1) = 5" "Priority (ContextTask demo 2) = 10" "Priority (ContextTask demo 3) = 0"
  "PriorityVector demo 0 = 3" "OSTickCounter demo = 0"
  by code_simp+

lemma demo0_ok: "sys_ok demo0 []" "PriorityVector demo0 0 = EMPTY_PRIO"
  by (simp_all add: demo0_def BRTOSInit_sys_ok PriorityVector_BRTOSInit)

lemma installed_ok:
  assumes "sys_ok k []" "PriorityVector k 0 = EMPTY_PRIO" "install_result f bytes p k = OK" "p \<noteq> 0"
  shows "sys_ok (installed (OSInstallTask f name bytes p h k)) []"
  using OSInstallTask_installs [OF assms(1) _ assms(3), of name h] assms(2)
  by (auto simp: installed_def)

lemma demo_steps:
  "install_result (UserTask 1) 16 5 demo0 = OK" "install_result (UserTask 2) 16 10 demo1 = OK"
  "install_result Idle IDLE_STACK_SIZE 0 demo2 = OK" "PriorityVector demo1 0 = EMPTY_PRIO"
  "PriorityVector demo2 0 = EMPTY_PRIO" "bit (OSBlockedList demo2) 0"
  by code_simp+

lemma demo2_ok: "sys_ok demo1 []" "sys_ok demo2 []"
proof -
  show 1: "sys_ok demo1 []"
    unfolding demo1_def by (rule installed_ok [OF demo0_ok demo_steps(1)]) simp
  show "sys_ok demo2 []"
    unfolding demo2_def by (rule installed_ok [OF 1 demo_steps(4,2)]) simp
qed

lemma demo_ok: "sys_ok demo []"
  using BRTOSStart_step [OF demo2_ok(2) demo_steps(5,6,3)] by (auto simp: demo_def started_def)

lemma bits_7: "bit (7 :: u32) n \<longleftrightarrow> n < 3"
proof -
  have "\<forall>n \<in> set [0..<32]. bit (7 :: u32) n \<longleftrightarrow> n < 3" by code_simp
  then show ?thesis using bit_imp_le_length [of "7 :: u32" n] by (cases "n < 32") auto
qed

lemma demo_allocated: "allocated demo t \<longleftrightarrow> t \<in> {1, 2, 3}"
  unfolding allocated_def demo_facts(4) bits_7 by (auto simp: config)

lemma demo_prio: "prio_of demo 1 = 5" "prio_of demo 2 = 10" "prio_of demo 3 = 0"
  unfolding prio_of_def demo_facts by simp_all

lemma demo_suspendable: "suspendable demo []"
  by (rule sys_ok_suspendable [OF demo_ok]) (simp_all add: demo_facts demo_allocated)

lemma demo_runnable: "10 \<in> runnable demo"
proof -
  have "bit (0x421 :: u32) 10" "bit (0xFFFFFFFF :: u32) 10" by code_simp+
  then show ?thesis by (simp add: runnable_def bits demo_facts)
qed

subsection \<open>Instances\<close>

lemma delay_list_refinement_witness:
  "dlist demo [] \<and> (\<exists>k. dlist k [2] \<and> k = IncludeTaskIntoDelayList 2 demo)"
  using delay_list_refinement [OF sys_okD(2) [OF demo_ok], of 2] sys_okD(2) [OF demo_ok] by simp

lemma OSDelayTask_exact_witness:
  "\<exists>k'. OSDelayTask 100 demo = Some (OK, k') \<and> \<not> bit (OSReadyList k') 10 \<and>
    (\<exists>kw. ticks 100 k' = Some kw \<and> bit (OSReadyList kw) 10)"
  using OSDelayTask_exact [of demo "[]" 100] demo_suspendable by (auto simp: demo_facts demo_prio)

lemma OSDelayTask_over_cycle_witness:
  "tick_after (OSTickCounter demo) 0xFFFF = OSTickCounter ((OSIncCounter ^^ 3) demo)"
  using OSDelayTask_over_cycle [of demo "0xFFFF"] sys_okD(3) [OF demo_ok] by (simp add: demo_facts)

lemma OSSchedule_highest_ready_witness:
  "allocated demo (unat (OSSchedule demo)) \<and> prio_of demo (unat (OSSchedule demo)) \<in> runnable demo"
  using OSSchedule_highest_ready [OF sys_okD(1) [OF demo_ok]] demo_runnable by blast

lemma OSInstallTask_correct_witness:
  "\<exists>t k'. OSInstallTask (UserTask 1) ''low'' 16 5 (Some 0) demo0 = Some (OK, Some (word_of_nat t), k') \<and>
    allocated k' t \<and> prio_of k' t = 5 \<and> sys_ok k' []"
  using OSInstallTask_correct [OF demo0_ok(1), of 5 "UserTask 1" 16 "''low''" "Some 0"] demo_steps(1)
  unfolding install_result_answer by auto

lemma OSBlockTask_round_trip_witness:
  "\<exists>k1 k2. OSBlockTask 2 demo = Some (OK, k1) \<and> 10 \<notin> prios (OSBlockedList k1) \<and>
    OSUnBlockTask 2 k1 = Some (OK, k2) \<and> core k2 = core demo"
proof -
  have "10 \<in> prios (OSBlockedList demo)" using demo_runnable by (simp add: runnable_def)
  then show ?thesis
    using OSBlockTask_round_trip [OF demo_ok, of 2] demo_prio(2) by (auto simp: demo_facts demo_allocated)
qed

lemma OSBlockMultipleTask_range_witness:
  "\<exists>k'. OSBlockMultipleTask 1 2 demo = Some (OK, k') \<and>
    prios (OSBlockedList k') = prios (OSBlockedList demo) - {5}"
proof -
  have "range_ok demo 1 3" using demo_prio by (auto simp: range_ok_def config less_Suc_eq numeral_eq_Suc demo_facts)
  moreover have "range_prios demo 1 3 = {5}"
  proof -
    have "{1..<3} - {unat (currentTask demo)} = {1 :: nat}" by (auto simp: demo_facts)
    then show ?thesis using demo_prio by (simp add: range_prios_def)
  qed
  ultimately show ?thesis
    using OSBlockMultipleTask_range [OF demo_ok demo_facts(5), of 1 2] by auto
qed

lemma OSUnBlockTask_no_switch_witness:
  "\<exists>k'. OSUnBlockTask 2 demo = Some (OK, k') \<and> PendingInterrupts k' = PendingInterrupts demo"
  using OSUnBlockTask_no_switch [OF sys_okD(1,4) [OF demo_ok], of 2] by (auto simp: demo_allocated)

lemma BRTOSInit_establishes_witness: "sys_ok (BRTOSInit 0x1000 (globals_init True)) []"
  using BRTOSInit_establishes [of "globals_init True"] by simp

lemma BRTOSStart_dispatches_witness:
  "\<exists>k'. BRTOSStart demo2 = Some (Inr k') \<and> sys_ok k' [] \<and> 0 \<in> runnable k'"
  using BRTOSStart_dispatches [OF demo2_ok(2) demo_steps(5,6,3)] by blast

lemma OSDelayTaskHMSM_total_witness:
  "OSDelayTaskHMSM 0 2 5 4 = (OK, [5004, 60000, 60000])"
proof -
  have eq: "OSDelayTaskHMSM 0 2 5 4 = (OK, [5004, 60000, 60000])" by code_simp
  show ?thesis using OSDelayTaskHMSM_total [where hours = 0 and minutes = 2 and seconds = 5 and miliseconds = 4] eq by simp
qed

end
