(* ===== verification/Events.thy ===== *)
theory Events
  imports Startup
begin

text \<open>
  What the four kinds of events share. Their source files repeat the same blocks: the search for a
  free control block, entering a wait list and suspending the caller, the decision between timeout
  and post when a waiter resumes, and the choice of the waiter to wake. Each block is one definition
  here, over any record that extends \<open>event\<close>.

  A pend function that suspends its caller is cut where the processor changes hands: its first part
  ends with \<open>Wait\<close>, carrying the local variables, its second part runs when the task is resumed.
\<close>

datatype 'r pend = Return 'r kernel | Wait nat u8 kernel

definition TRUE :: u8 where "TRUE = 1"
definition FALSE :: u8 where "FALSE = 0"

lemmas [codes] = TRUE_def FALSE_def

subsection \<open>The shared blocks\<close>

text \<open>The search of the create functions.\<close>

function find_free :: "nat \<Rightarrow> nat \<Rightarrow> (nat \<Rightarrow> 'a event_scheme) \<Rightarrow> nat option" where
  "find_free i n tab =
    (if i \<ge> n then None
     else if OSEventAllocated (tab i) \<noteq> TRUE then Some i
     else find_free (i + 1) n tab)"
  by pat_completeness auto
termination by (relation "measure (\<lambda>(i, n, _). n - i)") auto

declare find_free.simps [simp del]

definition wait_add :: "u32 \<Rightarrow> 'a event_scheme \<Rightarrow> 'a event_scheme" where
  "wait_add pmask e = e\<lparr>OSEventWait := OSEventWait e + 1, OSEventWaitList := OSEventWaitList e OR pmask\<rparr>"

definition wait_del :: "u32 \<Rightarrow> 'a event_scheme \<Rightarrow> 'a event_scheme" where
  "wait_del pmask e =
    e\<lparr>OSEventWaitList := OSEventWaitList e AND NOT pmask, OSEventWait := OSEventWait e - 1\<rparr>"

text \<open>Leaving the ready list, with or without a timeout, up to the request of the switch.\<close>

definition suspend :: "nat \<Rightarrow> u32 \<Rightarrow> u16 \<Rightarrow> kernel \<Rightarrow> kernel" where
  "suspend Task pmask time_wait k =
    (let k1 = k\<lparr>OSReadyList := OSReadyList k AND NOT pmask\<rparr>;
         k2 = (if time_wait \<noteq> 0 then
                 IncludeTaskIntoDelayList Task
                   (upd_task Task (\<lambda>c. c\<lparr>TimeToWait := tick_after (OSGetCount k1) time_wait\<rparr>) k1)
               else upd_task Task (\<lambda>c. c\<lparr>TimeToWait := NO_TIMEOUT\<rparr>) k1)
     in ChangeContext k2)"

text \<open>
  The resumed task: \<open>True\<close> when it gave up (the timeout came first), in which case it leaves the wait
  list; otherwise a post has taken it off the list already.
\<close>

definition wait_over ::
  "nat \<Rightarrow> u32 \<Rightarrow> 'a event_scheme \<Rightarrow> kernel \<Rightarrow> (bool \<times> 'a event_scheme \<times> kernel) option" where
  "wait_over Task pmask e k =
    (if TimeToWait (ContextTask k Task) = EXIT_BY_TIMEOUT then
       (if OSEventWaitList e AND pmask \<noteq> 0 then Some (True, wait_del pmask e, k)
        else Some (False, e, k))
     else do {
       k1 \<leftarrow> RemoveFromDelayList Task (upd_task Task (\<lambda>c. c\<lparr>TimeToWait := NO_TIMEOUT\<rparr>) k);
       Some (False, e, k1) })"

text \<open>The waiter a post wakes: the highest priority of the wait list.\<close>

definition wake_highest :: "'a event_scheme \<Rightarrow> kernel \<Rightarrow> (u8 \<times> 'a event_scheme \<times> kernel) option" where
  "wake_highest e k = do {
     let iPriority = SAScheduler (OSEventWaitList e);
     pmask \<leftarrow> PriorityMask iPriority;
     Some (iPriority, wait_del pmask e, k\<lparr>OSReadyList := OSReadyList k OR pmask\<rparr>) }"

subsection \<open>Wait queues\<close>

text \<open>
  The contract of a wait queue: a set of waiting priorities, from which the highest is served first.
\<close>

locale wait_queue =
  fixes waiting :: "'e \<Rightarrow> nat set" and ok :: "'e \<Rightarrow> bool"
    and enqueue :: "nat \<Rightarrow> 'e \<Rightarrow> 'e" and remove :: "nat \<Rightarrow> 'e \<Rightarrow> 'e" and best :: "'e \<Rightarrow> nat"
  assumes waiting_finite: "finite (waiting e)"
    and enqueue_ok: "ok e \<Longrightarrow> p < 32 \<Longrightarrow> p \<notin> waiting e \<Longrightarrow> ok (enqueue p e)"
    and enqueue_waiting: "p < 32 \<Longrightarrow> waiting (enqueue p e) = insert p (waiting e)"
    and remove_ok: "ok e \<Longrightarrow> p \<in> waiting e \<Longrightarrow> ok (remove p e)"
    and remove_waiting: "p \<in> waiting e \<Longrightarrow> waiting (remove p e) = waiting e - {p}"
    and best_Max: "waiting e \<noteq> {} \<Longrightarrow> best e = Max (waiting e)"
begin

text \<open>Serving until nobody waits.\<close>

fun serve :: "nat \<Rightarrow> 'e \<Rightarrow> nat list" where
  "serve 0 e = []"
| "serve (Suc n) e = (if waiting e = {} then [] else best e # serve n (remove (best e) e))"

lemma best_in: "waiting e \<noteq> {} \<Longrightarrow> best e \<in> waiting e"
  using best_Max Max_in waiting_finite by metis

lemma best_ge: "p \<in> waiting e \<Longrightarrow> p \<le> best e"
  using best_Max Max_ge [OF waiting_finite] by (metis empty_iff)

lemma serve_set: "set (serve n e) \<subseteq> waiting e"
proof (induction n arbitrary: e)
  case (Suc n)
  show ?case
  proof (cases "waiting e = {}")
    case False
    then show ?thesis using Suc [of "remove (best e) e"] best_in [OF False] remove_waiting by auto
  qed simp
qed simp

text \<open>Every waiter is served, once, in descending order of priority.\<close>

lemma serve_all:
  "card (waiting e) \<le> n \<Longrightarrow> set (serve n e) = waiting e \<and> sorted_wrt (>) (serve n e)"
proof (induction n arbitrary: e)
  case 0
  then show ?case using waiting_finite [of e] by simp
next
  case (Suc n)
  show ?case
  proof (cases "waiting e = {}")
    case False
    have b: "best e \<in> waiting e" by (rule best_in [OF False])
    have w: "waiting (remove (best e) e) = waiting e - {best e}" by (rule remove_waiting [OF b])
    then have "card (waiting (remove (best e) e)) \<le> n" using Suc.prems b by simp
    then have ih: "set (serve n (remove (best e) e)) = waiting e - {best e}"
      "sorted_wrt (>) (serve n (remove (best e) e))"
      using Suc.IH w by auto
    moreover have "\<forall>p \<in> waiting e - {best e}. p < best e"
      using best_ge by (metis DiffE insertI1 nat_less_le)
    ultimately show ?thesis using False b by auto
  qed simp
qed

end

text \<open>The counter of waiters agrees with the wait list, in every event.\<close>

definition event_ok :: "'a event_scheme \<Rightarrow> bool" where
  "event_ok e \<longleftrightarrow> unat (OSEventWait e) = card (prios (OSEventWaitList e))"

definition waiters :: "'a event_scheme \<Rightarrow> nat set" where
  "waiters e = prios (OSEventWaitList e)"

lemma waiters_finite [simp]: "finite (waiters e)"
  by (simp add: waiters_def)

lemma waiters_wait_add: "p < 32 \<Longrightarrow> waiters (wait_add (pbit p) e) = insert p (waiters e)"
  by (simp add: waiters_def wait_add_def prios_set)

lemma waiters_wait_del: "p < 32 \<Longrightarrow> waiters (wait_del (pbit p) e) = waiters e - {p}"
  by (simp add: waiters_def wait_del_def prios_clear)

lemma waiters_bound: "p \<in> waiters e \<Longrightarrow> p < 32"
  using prios_bound by (auto simp: waiters_def)

lemma event_ok_wait_add:
  assumes "event_ok e" "p < 32" "p \<notin> waiters e"
  shows "event_ok (wait_add (pbit p) e)"
proof -
  have "card (waiters e) < 33" using card_prios_le [of "OSEventWaitList e"] by (simp add: waiters_def)
  then show ?thesis
    using assms by (simp add: event_ok_def wait_add_def waiters_def card_prios_set unat_inc_u8)
qed

lemma event_ok_wait_del:
  assumes "event_ok e" "p \<in> waiters e"
  shows "event_ok (wait_del (pbit p) e)"
proof -
  have p: "p < 32" by (rule waiters_bound [OF assms(2)])
  have "card (waiters e) \<noteq> 0" using assms(2) by auto
  then have "OSEventWait e \<noteq> 0" using assms(1) by (auto simp: event_ok_def waiters_def)
  then show ?thesis
    using assms p by (simp add: event_ok_def wait_del_def waiters_def card_prios_clear unat_dec_u8)
qed

lemma event_ok_no_waiters: "event_ok e \<Longrightarrow> OSEventWait e = 0 \<longleftrightarrow> waiters e = {}"
  using unat_eq_0 [of "OSEventWait e"] by (auto simp: event_ok_def waiters_def)

interpretation wq: wait_queue waiters event_ok "\<lambda>p. wait_add (pbit p)" "\<lambda>p. wait_del (pbit p)"
  "\<lambda>e. unat (SAScheduler (OSEventWaitList e))"
proof
  show "waiters e \<noteq> {} \<Longrightarrow> unat (SAScheduler (OSEventWaitList e)) = Max (waiters e)" for e :: "'a event_scheme"
    by (simp add: waiters_def SAScheduler_Max)
qed (auto simp: waiters_wait_add waiters_wait_del waiters_bound event_ok_wait_add event_ok_wait_del)

subsection \<open>Effects of the shared blocks\<close>

lemma find_free_spec:
  "case find_free i n tab of
     None \<Rightarrow> (\<forall>j. i \<le> j \<and> j < n \<longrightarrow> OSEventAllocated (tab j) = TRUE)
   | Some j \<Rightarrow> i \<le> j \<and> j < n \<and> OSEventAllocated (tab j) \<noteq> TRUE \<and>
       (\<forall>l. i \<le> l \<and> l < j \<longrightarrow> OSEventAllocated (tab l) = TRUE)"
proof (induction i n tab rule: find_free.induct)
  case (1 i n tab)
  show ?case
  proof (cases "i \<ge> n \<or> OSEventAllocated (tab i) \<noteq> TRUE")
    case True
    then show ?thesis by (auto simp: find_free.simps [of i n tab])
  next
    case False
    then have ih: "case find_free (i + 1) n tab of
     None \<Rightarrow> (\<forall>j. i + 1 \<le> j \<and> j < n \<longrightarrow> OSEventAllocated (tab j) = TRUE)
   | Some j \<Rightarrow> i + 1 \<le> j \<and> j < n \<and> OSEventAllocated (tab j) \<noteq> TRUE \<and>
       (\<forall>l. i + 1 \<le> l \<and> l < j \<longrightarrow> OSEventAllocated (tab l) = TRUE)"
      using "1.IH" by simp
    have eq: "find_free i n tab = find_free (i + 1) n tab" using False by (simp add: find_free.simps [of i n tab])
    have ai: "OSEventAllocated (tab i) = TRUE" using False by simp
    have step: "i + 1 \<le> j \<or> j = i" if "i \<le> j" for j using that by auto
    show ?thesis
    proof (cases "find_free (i + 1) n tab")
      case None
      then show ?thesis using ih ai step unfolding eq by (simp only: option.case) metis
    next
      case (Some j)
      have "\<forall>l. i \<le> l \<and> l < j \<longrightarrow> OSEventAllocated (tab l) = TRUE"
        using ih ai step unfolding Some by (simp only: option.case) metis
      then show ?thesis using ih unfolding eq Some by simp
    qed
  qed
qed

lemma find_free_Some:
  "find_free 0 n tab = Some j \<Longrightarrow> j < n \<and> OSEventAllocated (tab j) \<noteq> TRUE"
  using find_free_spec [of 0 n tab] by simp

lemma find_free_None:
  "find_free 0 n tab = None \<longleftrightarrow> (\<forall>j < n. OSEventAllocated (tab j) = TRUE)"
  using find_free_spec [of 0 n tab] by (cases "find_free 0 n tab") auto

text \<open>The kernel's invariant after a change that respects tasks and priorities.\<close>

lemma sys_okI:
  assumes "sys_ok k xs" "TaskAlloc k' = TaskAlloc k" "PriorityVector k' = PriorityVector k"
    "NumberOfInstalledTasks k' = NumberOfInstalledTasks k" "\<And>t. prio_of k' t = prio_of k t"
    "\<And>p. p \<in> prios (OSReadyList k') \<Longrightarrow>
       p \<in> prios (OSReadyList k) \<or> (\<exists>t. allocated k t \<and> prio_of k t = p)"
    "dlist k' ys" "OSTickCounter k' = OSTickCounter k" "nestable k'" "\<And>t. t \<in> set ys \<Longrightarrow> allocated k t"
  shows "sys_ok k' ys"
  using assms tasks_ok_cong [OF sys_okD(1) [OF assms(1)] assms(2-6)] sys_okD(3) [OF assms(1)]
    allocated_cong [OF assms(2)]
  by (simp add: sys_ok_def tick_ok_def)

text \<open>Changes of the event tables do not concern the invariant.\<close>

lemma sys_ok_tables:
  assumes "sys_ok k xs"
  shows "sys_ok (k\<lparr>BRTOS_Sem_Table := a\<rparr>) xs" "sys_ok (k\<lparr>BRTOS_Mutex_Table := b\<rparr>) xs"
    "sys_ok (k\<lparr>BRTOS_Mbox_Table := c\<rparr>) xs" "sys_ok (k\<lparr>BRTOS_Queue_Table := d\<rparr>) xs"
    "sys_ok (k\<lparr>BRTOS_OS_QUEUE_Table := e\<rparr>) xs" "sys_ok (k\<lparr>QUEUE_STACK := f\<rparr>) xs"
    "sys_ok (k\<lparr>iQueueAddress := g\<rparr>) xs"
  by (rule sys_okI [OF assms]; use sys_okD [OF assms] in \<open>simp add: prio_of_def nestable_def dlist_def\<close>)+

lemma suspend_frame [simp]:
  "ERROR_CHECK (suspend t m w k) = ERROR_CHECK k"
  "PriorityVector (suspend t m w k) = PriorityVector k"
  "iStackAddress (suspend t m w k) = iStackAddress k"
  "iQueueAddress (suspend t m w k) = iQueueAddress k"
  "StackAddress (suspend t m w k) = StackAddress k"
  "NumberOfInstalledTasks (suspend t m w k) = NumberOfInstalledTasks k"
  "currentTask (suspend t m w k) = currentTask k"
  "SelectedTask (suspend t m w k) = SelectedTask k"
  "OSBlockedList (suspend t m w k) = OSBlockedList k"
  "OSTickCounter (suspend t m w k) = OSTickCounter k"
  "OSDuty (suspend t m w k) = OSDuty k"
  "OSDutyTmp (suspend t m w k) = OSDutyTmp k"
  "LastOSDuty (suspend t m w k) = LastOSDuty k"
  "DutyCnt (suspend t m w k) = DutyCnt k"
  "TaskAlloc (suspend t m w k) = TaskAlloc k"
  "BRTOS_Sem_Table (suspend t m w k) = BRTOS_Sem_Table k"
  "BRTOS_Mutex_Table (suspend t m w k) = BRTOS_Mutex_Table k"
  "BRTOS_Mbox_Table (suspend t m w k) = BRTOS_Mbox_Table k"
  "BRTOS_Queue_Table (suspend t m w k) = BRTOS_Queue_Table k"
  "BRTOS_OS_QUEUE_Table (suspend t m w k) = BRTOS_OS_QUEUE_Table k"
  "QUEUE_STACK (suspend t m w k) = QUEUE_STACK k"
  "SPvalue (suspend t m w k) = SPvalue k"
  "InterruptEventMutex (suspend t m w k) = InterruptEventMutex k"
  "IsrHandler (suspend t m w k) = IsrHandler k"
  "UART_RX_buffer (suspend t m w k) = UART_RX_buffer k"
  "SerialQ (suspend t m w k) = SerialQ k"
  "iNesting (suspend t m w k) = iNesting k"
  by (simp_all add: suspend_def Let_def)

lemma suspend_task [simp]:
  "Priority (ContextTask (suspend t m w k) u) = Priority (ContextTask k u)"
  "prio_of (suspend t m w k) u = prio_of k u"
  "OSReadyList (suspend t m w k) = OSReadyList k AND NOT m"
  "TimeToWait (ContextTask (suspend t m w k) u) =
    (if u = t then (if w = 0 then NO_TIMEOUT else tick_after (OSTickCounter k) w)
     else TimeToWait (ContextTask k u))"
  by (simp_all add: suspend_def Let_def prio_of_def OSGetCount_def)

lemma suspend_dlist:
  assumes "dlist k xs" "t \<notin> set xs"
  shows "dlist (suspend t m w k) (if w = 0 then xs else xs @ [t])"
proof -
  have d: "dlist (upd_task t (\<lambda>c. c\<lparr>TimeToWait := v\<rparr>) (k\<lparr>OSReadyList := r\<rparr>)) xs" for v r
    using assms(1) by (rule dlist_cong) simp_all
  show ?thesis
  proof (cases "w = 0")
    case True
    have "dlist (suspend t m 0 k) xs" by (rule dlist_cong [OF d]) (simp_all add: suspend_def Let_def)
    then show ?thesis using True by simp
  next
    case False
    have "dlist (suspend t m w k) (xs @ [t])"
      by (rule dlist_cong [OF Include_dlist [OF d assms(2)]]) (simp_all add: suspend_def Let_def False)
    then show ?thesis using False by simp
  qed
qed

lemma suspend_sys_ok:
  assumes "sys_ok k xs" "allocated k t" "t \<notin> set xs"
  shows "sys_ok (suspend t m w k) (if w = 0 then xs else xs @ [t])"
proof (rule sys_okI [OF assms(1)])
  show "dlist (suspend t m w k) (if w = 0 then xs else xs @ [t])"
    by (rule suspend_dlist [OF sys_okD(2) [OF assms(1)] assms(3)])
  show "nestable (suspend t m w k)" using sys_okD(4) [OF assms(1)] by (simp add: nestable_def)
  show "allocated k u" if "u \<in> set (if w = 0 then xs else xs @ [t])" for u
    using that assms(2) sys_okD(5) [OF assms(1)] by (auto split: if_splits)
qed (simp_all add: prios_and)

text \<open>The resumed task, in the three ways it can have been woken.\<close>

lemma wait_over_cases:
  assumes "dlist k xs" "t \<in> set xs \<or> TimeToWait (ContextTask k t) = EXIT_BY_TIMEOUT" "p < 32"
  obtains (timeout) "wait_over t (pbit p) e k = Some (True, wait_del (pbit p) e, k)"
      "TimeToWait (ContextTask k t) = EXIT_BY_TIMEOUT" "p \<in> waiters e"
  | (late_post) "wait_over t (pbit p) e k = Some (False, e, k)"
      "TimeToWait (ContextTask k t) = EXIT_BY_TIMEOUT" "p \<notin> waiters e"
  | (post) k' where "wait_over t (pbit p) e k = Some (False, e, k')"
      "TimeToWait (ContextTask k t) \<noteq> EXIT_BY_TIMEOUT" "dlist k' (remove1 t xs)"
      "quiet k' = quiet (upd_task t (\<lambda>c. c\<lparr>TimeToWait := NO_TIMEOUT\<rparr>) k)"
      "iNesting k' = iNesting k" "PendingInterrupts k' = PendingInterrupts k"
proof (cases "TimeToWait (ContextTask k t) = EXIT_BY_TIMEOUT")
  case True
  show ?thesis
  proof (cases "p \<in> waiters e")
    case w: True
    then have "OSEventWaitList e AND pbit p \<noteq> 0" using assms(3) by (simp add: and_mask_eq_0 waiters_def bits)
    then show ?thesis using True w timeout by (simp add: wait_over_def)
  next
    case False
    then have "OSEventWaitList e AND pbit p = 0" using assms(3) by (simp add: and_mask_eq_0 waiters_def bits)
    then show ?thesis using True False late_post by (simp add: wait_over_def)
  qed
next
  case False
  let ?k = "upd_task t (\<lambda>c. c\<lparr>TimeToWait := NO_TIMEOUT\<rparr>) k"
  have d: "dlist ?k xs" using assms(1) by (rule dlist_cong) simp_all
  have "t \<in> set xs" using assms(2) False by simp
  then obtain k' where k': "RemoveFromDelayList t ?k = Some k'" "dlist k' (remove1 t xs)"
    using Remove_dlist [OF d] by blast
  then have "wait_over t (pbit p) e k = Some (False, e, k')" using False by (simp add: wait_over_def)
  moreover have "iNesting k' = iNesting k" "PendingInterrupts k' = PendingInterrupts k"
    using Remove_frame(17,25) [OF k'(1)] by simp_all
  ultimately show ?thesis using False k'(2) quiet_Remove [OF k'(1)] post by blast
qed

lemma wait_over_sys_ok:
  assumes "sys_ok k xs" "t \<in> set xs \<or> TimeToWait (ContextTask k t) = EXIT_BY_TIMEOUT" "p < 32"
    "wait_over t (pbit p) e k = Some (r, e', k')"
  shows "sys_ok k' (if TimeToWait (ContextTask k t) = EXIT_BY_TIMEOUT then xs else remove1 t xs)"
  using sys_okD(2) [OF assms(1)] assms(2,3)
proof (cases rule: wait_over_cases [where e = e])
  case (post k1)
  then have k1: "k' = k1" using assms(4) by simp
  note q = quiet_eqD [OF post(4)]
  have "sys_ok k1 (remove1 t xs)"
  proof (rule sys_okI [OF assms(1)])
    show "nestable k1" using sys_okD(4) [OF assms(1)] post(5) by (simp add: nestable_def)
    show "allocated k u" if "u \<in> set (remove1 t xs)" for u
      using that sys_okD(5) [OF assms(1)] notin_set_remove1 by fastforce
  qed (use q post(3) in \<open>simp_all add: prio_of_def\<close>)
  then show ?thesis using k1 post(2) by simp
qed (use assms in auto)

lemma wake_highest_Some:
  "wake_highest e k = Some (SAScheduler (OSEventWaitList e),
     wait_del (pbit (unat (SAScheduler (OSEventWaitList e)))) e,
     k\<lparr>OSReadyList := OSReadyList k OR pbit (unat (SAScheduler (OSEventWaitList e)))\<rparr>)"
  by (simp add: wake_highest_def PriorityMask_SAScheduler Let_def)

text \<open>Every waiter is a task of the system, at the priority it waits with.\<close>

definition waiters_are_tasks :: "kernel \<Rightarrow> 'a event_scheme \<Rightarrow> bool" where
  "waiters_are_tasks k e \<longleftrightarrow> (\<forall>p \<in> waiters e. \<exists>t. allocated k t \<and> prio_of k t = p)"

lemma wake_sys_ok:
  assumes "sys_ok k xs" "\<exists>t. allocated k t \<and> prio_of k t = p" "p < 32"
  shows "sys_ok (k\<lparr>OSReadyList := OSReadyList k OR pbit p\<rparr>) xs"
proof (rule sys_okI [OF assms(1)])
  show "nestable (k\<lparr>OSReadyList := OSReadyList k OR pbit p\<rparr>)"
    using sys_okD(4) [OF assms(1)] by (simp add: nestable_def)
  show "dlist (k\<lparr>OSReadyList := OSReadyList k OR pbit p\<rparr>) xs"
    using sys_okD(2) [OF assms(1)] by (rule dlist_cong) simp_all
  show "q \<in> prios (OSReadyList k) \<or> (\<exists>t. allocated k t \<and> prio_of k t = q)"
    if "q \<in> prios (OSReadyList (k\<lparr>OSReadyList := OSReadyList k OR pbit p\<rparr>))" for q
    using that assms(2,3) by (auto simp: prios_set)
qed (simp_all add: prio_of_def sys_okD(5) [OF assms(1)])

text \<open>Critical sections and requests keep the invariant.\<close>

lemma sys_ok_Enter:
  assumes "sys_ok k xs" "unat (iNesting k) < 254"
  shows "sys_ok (EnterCritical k) xs"
proof (rule sys_ok_cong_core [OF assms(1)])
  show "nestable (EnterCritical k)" using assms(2) by (simp add: nestable_def unat_inc_u8)
qed simp

lemma iNesting_ExitCritical_le: "unat (iNesting (ExitCritical k)) \<le> unat (iNesting k)"
proof (cases "iNesting k = 0")
  case True
  then show ?thesis by (simp add: ExitCritical_def)
next
  case False
  then show ?thesis unfolding iNesting_ExitCritical [OF False] unat_dec_u8 [OF False] by simp
qed

lemma sys_ok_Exit:
  assumes "sys_ok k xs"
  shows "sys_ok (ExitCritical k) xs"
proof (rule sys_ok_cong_core [OF assms])
  show "nestable (ExitCritical k)"
    using sys_okD(4) [OF assms] iNesting_ExitCritical_le [of k] by (simp add: nestable_def)
qed simp

lemma sys_ok_request:
  assumes "sys_ok k xs"
  shows "sys_ok (ChangeContext_if_not_nested k) xs" "sys_ok (ChangeContext k) xs"
proof -
  have n: "iNesting (ChangeContext_if_not_nested k) = iNesting k" by (simp add: ChangeContext_if_not_nested_def)
  show "sys_ok (ChangeContext_if_not_nested k) xs"
    by (rule sys_ok_cong_core [OF assms]) (use sys_okD(4) [OF assms] in \<open>simp_all add: nestable_def n\<close>)
  show "sys_ok (ChangeContext k) xs"
    by (rule sys_ok_cong_core [OF assms]) (use sys_okD(4) [OF assms] in \<open>simp_all add: nestable_def\<close>)
qed

text \<open>
  The caller of a pend: an allocated task that runs outside interrupts, is in no delay, and does not
  wait for the event already.
\<close>

definition can_pend :: "kernel \<Rightarrow> nat list \<Rightarrow> 'a event_scheme \<Rightarrow> bool" where
  "can_pend k xs e \<longleftrightarrow> sys_ok k xs \<and> iNesting k = 0 \<and> allocated k (unat (currentTask k)) \<and>
     unat (currentTask k) \<notin> set xs \<and> prio_of k (unat (currentTask k)) \<notin> waiters e"

lemma can_pendD:
  assumes "can_pend k xs e"
  shows "sys_ok k xs" "iNesting k = 0" "allocated k (unat (currentTask k))"
    "unat (currentTask k) \<notin> set xs" "prio_of k (unat (currentTask k)) \<notin> waiters e"
    "prio_of k (unat (currentTask k)) < 32" "unat (iNesting k) < 254"
  using assms tasks_okD(3) [OF sys_okD(1)] by (auto simp: can_pend_def)

text \<open>The state in which a task has gone to wait, its event already updated in \<open>k1\<close>.\<close>

lemma wait_state:
  fixes w :: u16
  assumes "can_pend k xs e" "sys_ok k1 xs" "iNesting k1 = 1"
    and same: "ContextTask k1 = ContextTask k" "TaskAlloc k1 = TaskAlloc k" "OSReadyList k1 = OSReadyList k"
      "OSTickCounter k1 = OSTickCounter k" "currentTask k1 = currentTask k"
  defines "t \<equiv> unat (currentTask k)"
  defines "k' \<equiv> ExitCritical (suspend t (pbit (prio_of k t)) w k1)"
  shows "sys_ok k' (if w = 0 then xs else xs @ [t])" "iNesting k' = 0"
    "prios (OSReadyList k') = prios (OSReadyList k) - {prio_of k t}" "prio_of k' u = prio_of k u"
    "OSTickCounter k' = OSTickCounter k" "currentTask k' = currentTask k" "TaskAlloc k' = TaskAlloc k"
    "TimeToWait (ContextTask k' t) = (if w = 0 then NO_TIMEOUT else tick_after (OSTickCounter k) w)"
proof -
  note c = can_pendD [OF assms(1)]
  have a: "allocated k1 t" using c(3) by (simp add: allocated_def t_def same)
  show "sys_ok k' (if w = 0 then xs else xs @ [t])"
    unfolding k'_def using suspend_sys_ok [OF assms(2) a] c(4) by (intro sys_ok_Exit) (simp add: t_def)
  show "iNesting k' = 0" using assms(3) by (simp add: k'_def iNesting_ExitCritical)
  show "prios (OSReadyList k') = prios (OSReadyList k) - {prio_of k t}"
    using c(6) by (simp add: k'_def prios_clear t_def same)
  show "prio_of k' u = prio_of k u" by (simp add: k'_def prio_of_def same)
qed (simp_all add: k'_def same)

end
