(* ===== verification/Semaphore.thy ===== *)
theory Semaphore
  imports Events
begin

text \<open>
  Counting and binary semaphores (\<open>semaphore.c\<close>): create, delete, pend, post. The abstract semaphore
  is a count and a set of waiting priorities; a post wakes the highest waiter or counts up to a limit,
  a pend counts down or waits, and a waiter leaves with the timeout exactly if no post chose it.
\<close>

definition put_sem :: "ptr \<Rightarrow> BRTOS_Sem \<Rightarrow> kernel \<Rightarrow> kernel" where
  "put_sem p e k =
    (case p of None \<Rightarrow> k | Some i \<Rightarrow> k\<lparr>BRTOS_Sem_Table := (BRTOS_Sem_Table k)(i := e)\<rparr>)"

definition get_sem :: "ptr \<Rightarrow> kernel \<Rightarrow> BRTOS_Sem option" where
  "get_sem p k = deref BRTOS_MAX_SEM (BRTOS_Sem_Table k) p"

text \<open>The result: the return code, the caller's event pointer afterwards, the state.\<close>

definition OSSemCreate :: "u8 \<Rightarrow> ptr \<Rightarrow> kernel \<Rightarrow> u8 \<times> ptr \<times> kernel" where
  "OSSemCreate cnt event k =
    (if iNesting k > 0 then (IRQ_PEND_ERR, event, k)
     else
       (let k1 = EnterCritical_if_task k
        in case find_free 0 BRTOS_MAX_SEM (BRTOS_Sem_Table k1) of
             None \<Rightarrow> (NO_AVAILABLE_EVENT, event, ExitCritical_if_task k1)
           | Some i \<Rightarrow>
               (let e = (BRTOS_Sem_Table k1 i)
                  \<lparr>OSEventAllocated := TRUE, OSEventCount := cnt, OSEventWait := 0, Binary := FALSE,
                   OSEventWaitList := 0\<rparr>;
                    k2 = put_sem (Some i) e k1
                in (ALLOC_EVENT_OK, Some i, ExitCritical_if_task k2))))"

definition OSSemBinaryCreate :: "u8 \<Rightarrow> ptr \<Rightarrow> kernel \<Rightarrow> u8 \<times> ptr \<times> kernel" where
  "OSSemBinaryCreate initial event k =
    (if iNesting k > 0 then (IRQ_PEND_ERR, event, k)
     else
       (let k1 = EnterCritical_if_task k
        in case find_free 0 BRTOS_MAX_SEM (BRTOS_Sem_Table k1) of
             None \<Rightarrow> (NO_AVAILABLE_EVENT, event, ExitCritical_if_task k1)
           | Some i \<Rightarrow>
               (let e = (BRTOS_Sem_Table k1 i)
                  \<lparr>OSEventAllocated := TRUE, OSEventCount := (if initial > 1 then TRUE else FALSE),
                   OSEventWait := 0, Binary := TRUE, OSEventWaitList := 0\<rparr>;
                    k2 = put_sem (Some i) e k1
                in (ALLOC_EVENT_OK, Some i, ExitCritical_if_task k2))))"

definition OSSemDelete :: "ptr \<Rightarrow> kernel \<Rightarrow> (u8 \<times> ptr \<times> kernel) option" where
  "OSSemDelete event k =
    (if iNesting k > 0 then Some (IRQ_PEND_ERR, event, k)
     else do {
       let k1 = EnterCritical k;
       e \<leftarrow> get_sem event k1;
       let k2 = put_sem event
         (e\<lparr>OSEventAllocated := 0, OSEventCount := 0, OSEventWait := 0, OSEventWaitList := 0\<rparr>) k1;
       Some (DELETE_EVENT_OK, NULL, ExitCritical k2) })"

definition OSSemPend :: "ptr \<Rightarrow> u16 \<Rightarrow> kernel \<Rightarrow> u8 pend option" where
  "OSSemPend pont_event time_wait k =
    (if ERROR_CHECK k \<and> iNesting k > 0 then Some (Return IRQ_PEND_ERR k)
     else if ERROR_CHECK k \<and> pont_event = NULL then Some (Return NULL_EVENT_POINTER k)
     else do {
       let k1 = EnterCritical k;
       e \<leftarrow> get_sem pont_event k1;
       if ERROR_CHECK k1 \<and> OSEventAllocated e \<noteq> TRUE
       then Some (Return ERR_EVENT_NO_CREATED (ExitCritical k1))
       else if OSEventCount e > 0
       then Some (Return OK (ExitCritical (put_sem pont_event (e\<lparr>OSEventCount := OSEventCount e - 1\<rparr>) k1)))
       else if time_wait = NO_TIMEOUT then Some (Return EXIT_BY_NO_ENTRY_AVAILABLE (ExitCritical k1))
       else do {
         let t = unat (currentTask k1);
         Task \<leftarrow> task_at t k1;
         let iPriority = Priority Task;
         pmask \<leftarrow> PriorityMask iPriority;
         let k2 = put_sem pont_event (wait_add pmask e) k1;
         let k3 = suspend t pmask time_wait k2;
         Some (Wait t iPriority (ExitCritical k3)) } })"

text \<open>
  The second part. Without a timeout nothing is left to do but to return: the one \<open>OSExitCritical\<close> of
  that path is the one at which the task was suspended.
\<close>

definition OSSemPend_resume :: "ptr \<Rightarrow> u16 \<Rightarrow> nat \<Rightarrow> u8 \<Rightarrow> kernel \<Rightarrow> (u8 \<times> kernel) option" where
  "OSSemPend_resume pont_event time_wait t iPriority k =
    (if time_wait \<noteq> 0 then do {
       let k1 = EnterCritical k;
       e \<leftarrow> get_sem pont_event k1;
       pmask \<leftarrow> PriorityMask iPriority;
       (gave_up, e2, k2) \<leftarrow> wait_over t pmask e k1;
       let k3 = put_sem pont_event e2 k2;
       Some (if gave_up then TIMEOUT else OK, ExitCritical k3) }
     else Some (OK, k))"

definition OSSemPost :: "ptr \<Rightarrow> kernel \<Rightarrow> (u8 \<times> kernel) option" where
  "OSSemPost pont_event k =
    (if ERROR_CHECK k \<and> pont_event = NULL then Some (NULL_EVENT_POINTER, k)
     else do {
       let k1 = EnterCritical k;
       e \<leftarrow> get_sem pont_event k1;
       if ERROR_CHECK k1 \<and> OSEventAllocated e \<noteq> TRUE
       then Some (ERR_EVENT_NO_CREATED, ExitCritical k1)
       else if OSEventWait e \<noteq> 0 then do {
         (_, e2, k2) \<leftarrow> wake_highest e k1;
         let k3 = put_sem pont_event e2 k2;
         let k4 = ChangeContext_if_not_nested k3;
         Some (OK, ExitCritical k4) }
       else if OSEventCount e < 255 then
         (let e2 = (if Binary e = FALSE then e\<lparr>OSEventCount := OSEventCount e + 1\<rparr>
                    else e\<lparr>OSEventCount := TRUE\<rparr>)
          in Some (OK, ExitCritical (put_sem pont_event e2 k1)))
       else Some (ERR_SEM_OVF, ExitCritical k1) })"

subsection \<open>The abstract semaphore\<close>

datatype sem_outcome = Passed | Empty | Queued | Woke nat | Counted | Overflow

text \<open>A count and the waiting priorities.\<close>

type_synonym sem_abs = "nat \<times> nat set"

definition sem_abs :: "BRTOS_Sem \<Rightarrow> sem_abs" where
  "sem_abs e = (unat (OSEventCount e), waiters e)"

definition abs_pend :: "bool \<Rightarrow> nat \<Rightarrow> sem_abs \<Rightarrow> sem_outcome \<times> sem_abs" where
  "abs_pend may_wait p s =
    (case s of (n, W) \<Rightarrow>
       if n > 0 then (Passed, (n - 1, W))
       else if may_wait then (Queued, (n, insert p W)) else (Empty, (n, W)))"

definition abs_post :: "bool \<Rightarrow> sem_abs \<Rightarrow> sem_outcome \<times> sem_abs" where
  "abs_post is_binary s =
    (case s of (n, W) \<Rightarrow>
       if W \<noteq> {} then (Woke (Max W), (n, W - {Max W}))
       else if n \<ge> 255 then (Overflow, (n, W))
       else (Counted, (if is_binary then 1 else n + 1, W)))"

subsection \<open>The table\<close>

lemma put_sem_frame [simp]:
  "ERROR_CHECK (put_sem p e k) = ERROR_CHECK k"
  "PriorityVector (put_sem p e k) = PriorityVector k"
  "iStackAddress (put_sem p e k) = iStackAddress k"
  "iQueueAddress (put_sem p e k) = iQueueAddress k"
  "StackAddress (put_sem p e k) = StackAddress k"
  "NumberOfInstalledTasks (put_sem p e k) = NumberOfInstalledTasks k"
  "currentTask (put_sem p e k) = currentTask k"
  "SelectedTask (put_sem p e k) = SelectedTask k"
  "OSReadyList (put_sem p e k) = OSReadyList k"
  "OSBlockedList (put_sem p e k) = OSBlockedList k"
  "OSTickCounter (put_sem p e k) = OSTickCounter k"
  "OSDuty (put_sem p e k) = OSDuty k"
  "OSDutyTmp (put_sem p e k) = OSDutyTmp k"
  "LastOSDuty (put_sem p e k) = LastOSDuty k"
  "DutyCnt (put_sem p e k) = DutyCnt k"
  "TaskAlloc (put_sem p e k) = TaskAlloc k"
  "iNesting (put_sem p e k) = iNesting k"
  "Tail (put_sem p e k) = Tail k"
  "Head (put_sem p e k) = Head k"
  "BRTOS_Mutex_Table (put_sem p e k) = BRTOS_Mutex_Table k"
  "BRTOS_Mbox_Table (put_sem p e k) = BRTOS_Mbox_Table k"
  "BRTOS_Queue_Table (put_sem p e k) = BRTOS_Queue_Table k"
  "BRTOS_OS_QUEUE_Table (put_sem p e k) = BRTOS_OS_QUEUE_Table k"
  "QUEUE_STACK (put_sem p e k) = QUEUE_STACK k"
  "ContextTask (put_sem p e k) = ContextTask k"
  "SPvalue (put_sem p e k) = SPvalue k"
  "PendingInterrupts (put_sem p e k) = PendingInterrupts k"
  "InterruptEventMutex (put_sem p e k) = InterruptEventMutex k"
  "InterruptEvent (put_sem p e k) = InterruptEvent k"
  "IsrHandler (put_sem p e k) = IsrHandler k"
  "UART_RX_buffer (put_sem p e k) = UART_RX_buffer k"
  "SerialQ (put_sem p e k) = SerialQ k"
  by (simp_all add: put_sem_def split: option.split)

lemma put_sem_prio [simp]: "prio_of (put_sem p e k) t = prio_of k t"
  by (simp add: prio_of_def)

lemma get_sem_bound: "get_sem p k = Some e \<Longrightarrow> \<exists>i < BRTOS_MAX_SEM. p = Some i \<and> e = BRTOS_Sem_Table k i"
  by (auto simp: get_sem_def deref_def split: option.splits if_splits)

lemma get_sem_not_NULL: "get_sem p k = Some e \<Longrightarrow> p \<noteq> NULL"
  by (auto simp: get_sem_def deref_def split: option.splits)

lemma get_put_sem: "get_sem p k = Some e \<Longrightarrow> get_sem p (put_sem p e' k) = Some e'"
  by (auto simp: get_sem_def deref_def put_sem_def split: option.splits if_splits)

lemma get_sem_cong: "BRTOS_Sem_Table k' = BRTOS_Sem_Table k \<Longrightarrow> get_sem p k' = get_sem p k"
  by (simp add: get_sem_def)

lemma get_sem_critical [simp]:
  "get_sem p (EnterCritical k) = get_sem p k" "get_sem p (ExitCritical k) = get_sem p k"
  "get_sem p (EnterCritical_if_task k) = get_sem p k" "get_sem p (ExitCritical_if_task k) = get_sem p k"
  "get_sem p (ChangeContext_if_not_nested k) = get_sem p k" "get_sem p (suspend t m w k) = get_sem p k"
  "get_sem p (k\<lparr>OSReadyList := r\<rparr>) = get_sem p k"
  by (simp_all add: get_sem_def)

lemma sys_ok_put_sem: "sys_ok k xs \<Longrightarrow> sys_ok (put_sem p e k) xs"
  by (simp add: put_sem_def sys_ok_tables split: option.split)

subsection \<open>Post\<close>

lemma sem_abs_wait_add: "p < 32 \<Longrightarrow> sem_abs (wait_add (pbit p) e) = (unat (OSEventCount e), insert p (waiters e))"
  by (simp add: sem_abs_def waiters_wait_add) (simp add: wait_add_def)

lemma sem_abs_wait_del: "p < 32 \<Longrightarrow> sem_abs (wait_del (pbit p) e) = (unat (OSEventCount e), waiters e - {p})"
  by (simp add: sem_abs_def waiters_wait_del) (simp add: wait_del_def)

lemma waiters_count [simp]: "waiters (e\<lparr>OSEventCount := c\<rparr>) = waiters e" "event_ok (e\<lparr>OSEventCount := c\<rparr>) = event_ok e"
  by (simp_all add: waiters_def event_ok_def)

text \<open>A post whose checks pass, and its three ways.\<close>

lemma OSSemPost_checked:
  assumes "get_sem p k = Some e" "ERROR_CHECK k \<longrightarrow> OSEventAllocated e = TRUE"
  shows "OSSemPost p k =
   (if OSEventWait e \<noteq> 0 then do {
         (_, e2, k2) \<leftarrow> wake_highest e (EnterCritical k);
         Some (OK, ExitCritical (ChangeContext_if_not_nested (put_sem p e2 k2))) }
    else if OSEventCount e < 255 then
         Some (OK, ExitCritical (put_sem p
           (e\<lparr>OSEventCount := if Binary e = FALSE then OSEventCount e + 1 else TRUE\<rparr>) (EnterCritical k)))
    else Some (ERR_SEM_OVF, ExitCritical (EnterCritical k)))"
  using assms get_sem_not_NULL [OF assms(1)]
  by (cases "ERROR_CHECK k"; cases p) (simp_all add: OSSemPost_def Let_def)

lemma OSSemPost_wake:
  assumes e: "get_sem p k = Some e" "event_ok e" "waiters e \<noteq> {}" "ERROR_CHECK k \<longrightarrow> OSEventAllocated e = TRUE"
    and n: "nestable k"
  defines "m \<equiv> Max (waiters e)"
  defines "k' \<equiv> ExitCritical (put_sem p (wait_del (pbit m) e)
    ((EnterCritical k)\<lparr>OSReadyList := OSReadyList k OR pbit m\<rparr>))"
  shows "OSSemPost p k = Some (OK, k')"
proof -
  have m: "unat (SAScheduler (OSEventWaitList e)) = m"
    using wq.best_Max [OF e(3)] by (simp add: m_def)
  have w: "OSEventWait e \<noteq> 0" using e by (simp add: event_ok_no_waiters)
  have "iNesting (put_sem p (wait_del (pbit m) e) ((EnterCritical k)\<lparr>OSReadyList := OSReadyList k OR pbit m\<rparr>)) \<noteq> 0"
    using nestable_inc [OF n] by simp
  then show ?thesis
    using w by (simp add: OSSemPost_checked [OF e(1,4)] wake_highest_Some m k'_def
        ChangeContext_if_not_nested_def)
qed

lemma OSSemPost_no_waiter:
  assumes e: "get_sem p k = Some e" "event_ok e" "waiters e = {}" "ERROR_CHECK k \<longrightarrow> OSEventAllocated e = TRUE"
  shows "OSSemPost p k =
    (if OSEventCount e < 255
     then Some (OK, ExitCritical (put_sem p
       (e\<lparr>OSEventCount := if Binary e = FALSE then OSEventCount e + 1 else TRUE\<rparr>) (EnterCritical k)))
     else Some (ERR_SEM_OVF, ExitCritical (EnterCritical k)))"
proof -
  have "OSEventWait e = 0" using e by (simp add: event_ok_no_waiters)
  then show ?thesis by (simp only: OSSemPost_checked [OF e(1,4)] simp_thms if_False)
qed

text \<open>
  C11. \<open>OSSemPost\<close> refines the abstract post: with waiters it wakes the one of highest priority, takes
  it off the wait list and into the ready list and leaves the count; without, it counts up to 255 (a
  binary semaphore to 1) and answers \<open>ERR_SEM_OVF\<close> at the limit. The waiter counter stays in step.
\<close>

theorem OSSemPost_refines:
  assumes "get_sem p k = Some e" "event_ok e" "ERROR_CHECK k \<longrightarrow> OSEventAllocated e = TRUE" "nestable k"
  shows "\<exists>ret k' e'. OSSemPost p k = Some (ret, k') \<and> get_sem p k' = Some e' \<and> event_ok e' \<and>
    (case abs_post (Binary e \<noteq> FALSE) (sem_abs e) of (out, s') \<Rightarrow>
       sem_abs e' = s' \<and> ret = (if out = Overflow then ERR_SEM_OVF else OK) \<and>
       prios (OSReadyList k') = prios (OSReadyList k) \<union> (case out of Woke q \<Rightarrow> {q} | _ \<Rightarrow> {}))"
proof (cases "waiters e = {}")
  case False
  let ?m = "Max (waiters e)"
  have m: "?m \<in> waiters e" "?m < 32" using Max_in [OF waiters_finite False] waiters_bound by auto
  define k1 where "k1 = (EnterCritical k)\<lparr>OSReadyList := OSReadyList k OR pbit ?m\<rparr>"
  define e' where "e' = wait_del (pbit ?m) e"
  define k' where "k' = ExitCritical (put_sem p e' k1)"
  have run: "OSSemPost p k = Some (OK, k')"
    unfolding k1_def k'_def e'_def by (rule OSSemPost_wake [OF assms(1,2) False assms(3,4)])
  have "get_sem p k1 = Some e" using assms(1) by (simp add: k1_def)
  then have g: "get_sem p k' = Some e'" by (simp add: get_put_sem k'_def)
  have a: "abs_post (Binary e \<noteq> FALSE) (sem_abs e) = (Woke ?m, sem_abs e')"
    using False m by (simp add: abs_post_def sem_abs_wait_del e'_def) (simp add: sem_abs_def)
  have r: "prios (OSReadyList k') = prios (OSReadyList k) \<union> {?m}"
    using m(2) by (simp add: k'_def k1_def prios_set)
  have "event_ok e'" unfolding e'_def by (rule event_ok_wait_del [OF assms(2) m(1)])
  then show ?thesis
    by (intro exI [of _ OK] exI [of _ k'] exI [of _ e'] conjI run g) (simp_all add: a r)
next
  case True
  note run = OSSemPost_no_waiter [OF assms(1,2) True assms(3)]
  show ?thesis
  proof (cases "OSEventCount e < 255")
    case lt: True
    define e' where "e' = e\<lparr>OSEventCount := if Binary e = FALSE then OSEventCount e + 1 else TRUE\<rparr>"
    define k' where "k' = ExitCritical (put_sem p e' (EnterCritical k))"
    have c: "unat (OSEventCount e) < 255" using lt by (simp add: word_less_nat_alt)
    then have a: "abs_post (Binary e \<noteq> FALSE) (sem_abs e) = (Counted, sem_abs e')"
      using True by (simp add: abs_post_def sem_abs_def unat_inc_u8 codes e'_def)
    have g: "get_sem p k' = Some e'" using assms(1) by (simp add: get_put_sem k'_def)
    have r: "OSSemPost p k = Some (OK, k')" using lt run by (simp only: if_True k'_def e'_def)
    have "event_ok e'" using assms(2) by (simp add: e'_def)
    then show ?thesis
      by (intro exI [of _ OK] exI [of _ k'] exI [of _ e'] conjI r g) (simp_all add: a k'_def)
  next
    case False
    then have "\<not> unat (OSEventCount e) < 255" by (simp add: word_less_nat_alt)
    then have "abs_post (Binary e \<noteq> FALSE) (sem_abs e) = (Overflow, sem_abs e)"
      using True by (simp add: abs_post_def sem_abs_def)
    then show ?thesis using False run assms(1,2) by simp
  qed
qed

subsection \<open>Pend\<close>

lemma OSSemPend_checked:
  assumes "get_sem p k = Some e" "ERROR_CHECK k \<longrightarrow> OSEventAllocated e = TRUE \<and> iNesting k = 0"
    "allocated k (unat (currentTask k))" "prio_of k (unat (currentTask k)) < 32"
  shows "OSSemPend p w k =
   (if OSEventCount e > 0
    then Some (Return OK (ExitCritical (put_sem p (e\<lparr>OSEventCount := OSEventCount e - 1\<rparr>) (EnterCritical k))))
    else if w = NO_TIMEOUT then Some (Return EXIT_BY_NO_ENTRY_AVAILABLE (ExitCritical (EnterCritical k)))
    else Some (Wait (unat (currentTask k)) (Priority (ContextTask k (unat (currentTask k))))
      (ExitCritical (suspend (unat (currentTask k)) (pbit (prio_of k (unat (currentTask k)))) w
        (put_sem p (wait_add (pbit (prio_of k (unat (currentTask k)))) e) (EnterCritical k))))))"
proof -
  have m: "PriorityMask (Priority (ContextTask k (unat (currentTask k)))) =
      Some (pbit (prio_of k (unat (currentTask k))))"
    using assms(4) by (simp add: PriorityMask_Some prio_of_def)
  show ?thesis
    using assms(1,2) get_sem_not_NULL [OF assms(1)] m
    by (cases "ERROR_CHECK k"; cases p)
      (simp_all add: OSSemPend_def Let_def task_at_allocated [OF assms(3)])
qed

text \<open>
  C12. \<open>OSSemPend\<close> refines the abstract pend: it takes one from a positive count; on an empty semaphore
  it returns \<open>EXIT_BY_NO_ENTRY_AVAILABLE\<close> for \<open>NO_TIMEOUT\<close>, and otherwise puts the caller's priority
  in the wait list, takes it out of the ready list and, for a non-zero time, appends the task to the
  delay list; the kernel's invariant is kept.
\<close>

theorem OSSemPend_refines:
  assumes "get_sem p k = Some e" "event_ok e" "can_pend k xs e" "ERROR_CHECK k \<longrightarrow> OSEventAllocated e = TRUE"
  defines "t \<equiv> unat (currentTask k)"
  shows "\<exists>r k' e' out s'. OSSemPend p w k = Some r \<and> get_sem p k' = Some e' \<and> event_ok e' \<and>
    abs_pend (w \<noteq> NO_TIMEOUT) (prio_of k t) (sem_abs e) = (out, s') \<and> sem_abs e' = s' \<and>
    (out = Passed \<longrightarrow> r = Return OK k' \<and> sys_ok k' xs \<and> OSReadyList k' = OSReadyList k) \<and>
    (out = Empty \<longrightarrow> r = Return EXIT_BY_NO_ENTRY_AVAILABLE k' \<and> sys_ok k' xs \<and> OSReadyList k' = OSReadyList k) \<and>
    (out = Queued \<longrightarrow> r = Wait t (Priority (ContextTask k t)) k' \<and>
       sys_ok k' (if w = 0 then xs else xs @ [t]) \<and>
       prios (OSReadyList k') = prios (OSReadyList k) - {prio_of k t})"
proof -
  note c = can_pendD [OF assms(3)]
  have ec: "ERROR_CHECK k \<longrightarrow> OSEventAllocated e = TRUE \<and> iNesting k = 0" using assms(4) c(2) by blast
  note run = OSSemPend_checked [OF assms(1) ec c(3,6), folded t_def]
  have cnt: "OSEventCount e > 0 \<longleftrightarrow> unat (OSEventCount e) > 0" by (simp add: word_less_nat_alt)
  consider (passed) "OSEventCount e > 0" | (empty) "\<not> OSEventCount e > 0" "w = NO_TIMEOUT"
    | (queued) "\<not> OSEventCount e > 0" "w \<noteq> NO_TIMEOUT" by blast
  then show ?thesis
  proof cases
    case passed
    define e' where "e' = e\<lparr>OSEventCount := OSEventCount e - 1\<rparr>"
    define k' where "k' = ExitCritical (put_sem p e' (EnterCritical k))"
    have "unat (OSEventCount e - 1) = unat (OSEventCount e) - 1"
      using passed by (intro unat_dec_u8) auto
    then have "abs_pend (w \<noteq> NO_TIMEOUT) (prio_of k t) (sem_abs e) = (Passed, sem_abs e')"
      using passed cnt by (simp add: abs_pend_def sem_abs_def e'_def)
    moreover have "sys_ok k' xs"
      unfolding k'_def by (intro sys_ok_Exit sys_ok_put_sem sys_ok_Enter [OF c(1,7)])
    moreover have "get_sem p k' = Some e'" using assms(1) by (simp add: get_put_sem k'_def)
    moreover have "event_ok e'" using assms(2) by (simp add: e'_def)
    moreover have "OSSemPend p w k = Some (Return OK k')"
      using passed run by (simp only: if_True k'_def e'_def)
    moreover have "OSReadyList k' = OSReadyList k" by (simp add: k'_def)
    ultimately show ?thesis by (intro exI [of _ "Return OK k'"] exI [of _ k'] exI [of _ e']) simp
  next
    case empty
    define k' where "k' = ExitCritical (EnterCritical k)"
    have "abs_pend (w \<noteq> NO_TIMEOUT) (prio_of k t) (sem_abs e) = (Empty, sem_abs e)"
      using empty cnt by (simp add: abs_pend_def sem_abs_def)
    moreover have "sys_ok k' xs" unfolding k'_def by (intro sys_ok_Exit sys_ok_Enter [OF c(1,7)])
    moreover have "get_sem p k' = Some e" using assms(1) by (simp add: k'_def)
    moreover have "OSSemPend p w k = Some (Return EXIT_BY_NO_ENTRY_AVAILABLE k')"
      using empty run by (simp only: if_True if_False k'_def simp_thms)
    moreover have "OSReadyList k' = OSReadyList k" by (simp add: k'_def)
    ultimately show ?thesis using assms(2)
      by (intro exI [of _ "Return EXIT_BY_NO_ENTRY_AVAILABLE k'"] exI [of _ k'] exI [of _ e]) simp
  next
    case queued
    define e' where "e' = wait_add (pbit (prio_of k t)) e"
    define k' where "k' = ExitCritical (suspend t (pbit (prio_of k t)) w (put_sem p e' (EnterCritical k)))"
    have pt: "prio_of k t < 32" "prio_of k t \<notin> waiters e" using c(5,6) by (simp_all add: t_def)
    have "abs_pend (w \<noteq> NO_TIMEOUT) (prio_of k t) (sem_abs e) = (Queued, sem_abs e')"
      using queued cnt pt by (simp add: abs_pend_def sem_abs_wait_add e'_def) (simp add: sem_abs_def)
    moreover define k1 where "k1 = put_sem p e' (EnterCritical k)"
    have s1: "sys_ok k1 xs" unfolding k1_def by (intro sys_ok_put_sem sys_ok_Enter [OF c(1,7)])
    have k': "k' = ExitCritical (suspend t (pbit (prio_of k t)) w k1)" by (simp add: k'_def k1_def)
    have ws: "sys_ok k' (if w = 0 then xs else xs @ [t])"
      "prios (OSReadyList k') = prios (OSReadyList k) - {prio_of k t}"
      unfolding k' t_def by (rule wait_state [OF assms(3) s1]; simp add: k1_def c(2))+
    moreover have "get_sem p k1 = Some e'" using assms(1) by (simp add: get_put_sem k1_def)
    then have "get_sem p k' = Some e'" by (simp add: k')
    moreover have "OSSemPend p w k = Some (Wait t (Priority (ContextTask k t)) k')"
      using queued run by (simp only: if_False k'_def e'_def)
    moreover have "event_ok e'" unfolding e'_def by (rule event_ok_wait_add [OF assms(2) pt])
    ultimately show ?thesis using queued(2)
      by (intro exI [of _ "Wait t (Priority (ContextTask k t)) k'"] exI [of _ k'] exI [of _ e']) simp
  qed
qed

subsection \<open>The end of a wait\<close>

lemma OSSemPend_resume_run:
  assumes "get_sem p k = Some e" "w \<noteq> 0" "unat pr < 32"
    "wait_over t (pbit (unat pr)) e (EnterCritical k) = Some (g, e', k2)"
  shows "OSSemPend_resume p w t pr k =
    Some (if g then TIMEOUT else OK, ExitCritical (put_sem p e' k2))"
  using assms by (simp add: OSSemPend_resume_def PriorityMask_Some Let_def)

text \<open>
  A task resumed from a semaphore wait gets \<open>TIMEOUT\<close> exactly when its time ran out and no post had
  chosen it, and then leaves the wait list; when a post chose it, before or after its time ran out, it
  gets \<open>OK\<close> and the semaphore is as the post left it. Either way it is in no delay afterwards.
\<close>

theorem OSSemPend_resume_decides:
  assumes "get_sem p k = Some e" "event_ok e" "sys_ok k xs" "unat (iNesting k) < 254" "w \<noteq> 0"
    "unat pr < 32" "t \<in> set xs \<longleftrightarrow> TimeToWait (ContextTask k t) \<noteq> EXIT_BY_TIMEOUT"
  shows "\<exists>ret k' e' ys. OSSemPend_resume p w t pr k = Some (ret, k') \<and> get_sem p k' = Some e' \<and>
    event_ok e' \<and> sys_ok k' ys \<and> t \<notin> set ys \<and>
    (if TimeToWait (ContextTask k t) = EXIT_BY_TIMEOUT \<and> unat pr \<in> waiters e
     then ret = TIMEOUT \<and> sem_abs e' = (unat (OSEventCount e), waiters e - {unat pr})
     else ret = OK \<and> e' = e)"
proof -
  let ?k1 = "EnterCritical k" and ?p = "unat pr"
  have s1: "sys_ok ?k1 xs" by (rule sys_ok_Enter [OF assms(3,4)])
  note d1 = sys_okD(2) [OF s1]
  have pre: "t \<in> set xs \<or> TimeToWait (ContextTask ?k1 t) = EXIT_BY_TIMEOUT" using assms(7) by auto
  have gk: "get_sem p ?k1 = Some e" using assms(1) by simp
  from d1 pre assms(6) show ?thesis
  proof (cases rule: wait_over_cases [where e = e])
    case timeout
    define k' where "k' = ExitCritical (put_sem p (wait_del (pbit ?p) e) ?k1)"
    have "OSSemPend_resume p w t pr k = Some (TIMEOUT, k')"
      using OSSemPend_resume_run [OF assms(1,5,6) timeout(1)] by (simp add: k'_def)
    moreover have "get_sem p k' = Some (wait_del (pbit ?p) e)" using gk by (simp add: get_put_sem k'_def)
    moreover have "sys_ok k' xs" unfolding k'_def by (intro sys_ok_Exit sys_ok_put_sem s1)
    moreover have "event_ok (wait_del (pbit ?p) e)" by (rule event_ok_wait_del [OF assms(2) timeout(3)])
    ultimately show ?thesis
      using timeout(2,3) assms(6,7)
      by (intro exI [of _ TIMEOUT] exI [of _ k'] exI [of _ "wait_del (pbit ?p) e"] exI [of _ xs])
        (simp add: sem_abs_wait_del)
  next
    case late_post
    define k' where "k' = ExitCritical (put_sem p e ?k1)"
    have "OSSemPend_resume p w t pr k = Some (OK, k')"
      using OSSemPend_resume_run [OF assms(1,5,6) late_post(1)] by (simp add: k'_def)
    moreover have "get_sem p k' = Some e" using gk by (simp add: get_put_sem k'_def)
    moreover have "sys_ok k' xs" unfolding k'_def by (intro sys_ok_Exit sys_ok_put_sem s1)
    ultimately show ?thesis
      using late_post(2,3) assms(2,7) by (intro exI [of _ OK] exI [of _ k'] exI [of _ e] exI [of _ xs]) simp
  next
    case (post k2)
    define k' where "k' = ExitCritical (put_sem p e k2)"
    have "OSSemPend_resume p w t pr k = Some (OK, k')"
      using OSSemPend_resume_run [OF assms(1,5,6) post(1)] by (simp add: k'_def)
    moreover have "BRTOS_Sem_Table k2 = BRTOS_Sem_Table k" using quiet_eqD(17) [OF post(4)] by simp
    then have "get_sem p k2 = Some e" using assms(1) by (simp add: get_sem_def)
    then have "get_sem p k' = Some e" by (simp add: get_put_sem k'_def)
    moreover have "sys_ok k2 (remove1 t xs)"
      using wait_over_sys_ok [OF s1 pre assms(6) post(1)] post(2) by simp
    then have "sys_ok k' (remove1 t xs)" unfolding k'_def by (intro sys_ok_Exit sys_ok_put_sem)
    moreover have "t \<notin> set (remove1 t xs)" using dlist_distinct [OF d1] by simp
    ultimately show ?thesis
      using post(2) assms(2) by (intro exI [of _ OK] exI [of _ k'] exI [of _ e] exI [of _ "remove1 t xs"]) simp
  qed
qed

text \<open>
  C13. A pend with a timeout of \<open>w\<close> ticks on an empty semaphore that nobody posts waits for exactly \<open>w\<close>
  ticks: the task is not ready before the last of them, is ready after it, and the pend then returns
  \<open>TIMEOUT\<close> and leaves the semaphore as it found it.
\<close>

theorem OSSemPend_times_out:
  assumes "get_sem p k = Some e" "event_ok e" "can_pend k xs e" "ERROR_CHECK k \<longrightarrow> OSEventAllocated e = TRUE"
    "OSEventCount e = 0" "0 < w" "unat w \<le> 65532"
  defines "t \<equiv> unat (currentTask k)"
  shows "\<exists>k1 kw k2 e2. OSSemPend p w k = Some (Wait t (Priority (ContextTask k t)) k1) \<and>
    (\<forall>n < unat w. \<exists>kn. ticks n k1 = Some kn \<and> \<not> bit (OSReadyList kn) (prio_of k t)) \<and>
    ticks (unat w) k1 = Some kw \<and> bit (OSReadyList kw) (prio_of k t) \<and>
    OSSemPend_resume p w t (Priority (ContextTask k t)) kw = Some (TIMEOUT, k2) \<and>
    get_sem p k2 = Some e2 \<and> sem_abs e2 = sem_abs e"
proof -
  note c = can_pendD [OF assms(3)]
  let ?p = "prio_of k t"
  have w: "w \<noteq> NO_TIMEOUT" "w \<noteq> 0" "0 < unat w"
    using assms(6,7) by (auto simp: config word_less_nat_alt)
  have pt: "?p < 32" "?p \<notin> waiters e" using c(5,6) by (simp_all add: t_def)
  have ec: "ERROR_CHECK k \<longrightarrow> OSEventAllocated e = TRUE \<and> iNesting k = 0" using assms(4) c(2) by blast
  define e1 where "e1 = wait_add (pbit ?p) e"
  define k0 where "k0 = put_sem p e1 (EnterCritical k)"
  define k1 where "k1 = ExitCritical (suspend t (pbit ?p) w k0)"
  have run: "OSSemPend p w k = Some (Wait t (Priority (ContextTask k t)) k1)"
    using OSSemPend_checked [OF assms(1) ec c(3,6), of w] assms(5) w(1)
    by (simp add: t_def [symmetric] k1_def k0_def e1_def)
  have s0: "sys_ok k0 xs" unfolding k0_def by (intro sys_ok_put_sem sys_ok_Enter [OF c(1,7)])
  note ws = wait_state [OF assms(3) s0, of w, folded t_def, folded k1_def]
  have s1: "sys_ok k1 (xs @ [t])" and n1: "iNesting k1 = 0"
    and r1: "prios (OSReadyList k1) = prios (OSReadyList k) - {?p}"
    and tw: "TimeToWait (ContextTask k1 t) = tick_after (OSTickCounter k1) w"
    and p1: "prio_of k1 t = ?p"
    using ws w(2) by (simp_all add: k0_def c(2))
  have t1: "t \<in> set (xs @ [t])" by simp
  obtain kw ys where kw: "ticks (unat w) k1 = Some kw" "delays_ok kw ys" "t \<notin> set ys"
    "TimeToWait (ContextTask kw t) = EXIT_BY_TIMEOUT" "bit (OSReadyList kw) ?p"
    "tables kw = tables k1" "iNesting kw = iNesting k1"
    using ticks_expired [OF sys_ok_delays [OF s1] t1 tw assms(7) w(3)] p1 by auto
  have "get_sem p k0 = Some e1" using assms(1) by (simp add: get_put_sem k0_def)
  then have "get_sem p k1 = Some e1" by (simp add: k1_def)
  then have gw: "get_sem p kw = Some e1" using kw(6) by (simp add: get_sem_def tables_def)
  have pe: "?p \<in> waiters e1" using pt(1) by (simp add: e1_def waiters_wait_add)
  then have "OSEventWaitList e1 AND pbit ?p \<noteq> 0" using pt(1) by (simp add: and_mask_eq_0 waiters_def bits)
  then have wo: "wait_over t (pbit ?p) e1 (EnterCritical kw) = Some (True, wait_del (pbit ?p) e1, EnterCritical kw)"
    using kw(4) by (simp add: wait_over_def)
  define k2 where "k2 = ExitCritical (put_sem p (wait_del (pbit ?p) e1) (EnterCritical kw))"
  have up: "unat (Priority (ContextTask k t)) = ?p" by (simp add: prio_of_def)
  have "OSSemPend_resume p w t (Priority (ContextTask k t)) kw = Some (TIMEOUT, k2)"
    using OSSemPend_resume_run [OF gw w(2) _ wo [folded up]] pt(1) by (simp add: up k2_def)
  moreover have "get_sem p k2 = Some (wait_del (pbit ?p) e1)" using gw by (simp add: get_put_sem k2_def)
  moreover have "sem_abs (wait_del (pbit ?p) e1) = sem_abs e"
  proof -
    have "OSEventCount e1 = OSEventCount e" by (simp add: e1_def wait_add_def)
    moreover have "waiters e1 = insert ?p (waiters e)" using pt(1) by (simp add: e1_def waiters_wait_add)
    ultimately show ?thesis using pt by (simp add: sem_abs_wait_del) (simp add: sem_abs_def)
  qed
  moreover have "\<exists>kn. ticks n k1 = Some kn \<and> \<not> bit (OSReadyList kn) ?p" if "n < unat w" for n
  proof -
    have "\<not> bit (OSReadyList k1) ?p" using r1 by (metis Diff_iff insertI1 prios_iff)
    then show ?thesis using ticks_pending [OF sys_ok_delays [OF s1] t1 tw assms(7) that] p1 by auto
  qed
  ultimately show ?thesis using run kw(1,5) by blast
qed

subsection \<open>Create and delete\<close>

lemma OSSemCreate_free:
  assumes "iNesting k = 0" "find_free 0 BRTOS_MAX_SEM (BRTOS_Sem_Table k) = Some i"
  shows "OSSemCreate cnt event k = (ALLOC_EVENT_OK, Some i, ExitCritical_if_task (put_sem (Some i)
    ((BRTOS_Sem_Table k i)\<lparr>OSEventAllocated := TRUE, OSEventCount := cnt, OSEventWait := 0, Binary := FALSE,
       OSEventWaitList := 0\<rparr>) (EnterCritical_if_task k)))"
  using assms by (simp add: OSSemCreate_def Let_def)

text \<open>
  \<open>OSSemCreate\<close> hands out a control block that was free, with the given count and nobody waiting;
  when all are in use it answers \<open>NO_AVAILABLE_EVENT\<close> and leaves the caller's pointer alone. Deleting
  the semaphore frees the block again and clears the pointer.
\<close>

theorem OSSemCreate_Delete:
  assumes "iNesting k = 0"
  shows "case OSSemCreate cnt event k of (ret, p, k') \<Rightarrow>
    (if \<forall>i < BRTOS_MAX_SEM. OSEventAllocated (BRTOS_Sem_Table k i) = TRUE
     then ret = NO_AVAILABLE_EVENT \<and> p = event \<and> BRTOS_Sem_Table k' = BRTOS_Sem_Table k
     else ret = ALLOC_EVENT_OK \<and> (\<exists>i e. p = Some i \<and> get_sem p k' = Some e \<and>
       OSEventAllocated (BRTOS_Sem_Table k i) \<noteq> TRUE \<and> OSEventAllocated e = TRUE \<and>
       event_ok e \<and> sem_abs e = (unat cnt, {}) \<and>
       (\<forall>j. j \<noteq> i \<longrightarrow> BRTOS_Sem_Table k' j = BRTOS_Sem_Table k j) \<and>
       (iNesting k' = 0 \<longrightarrow> (\<exists>k''. OSSemDelete p k' = Some (DELETE_EVENT_OK, NULL, k'') \<and>
          OSEventAllocated (BRTOS_Sem_Table k'' i) = 0))))"
proof (cases "find_free 0 BRTOS_MAX_SEM (BRTOS_Sem_Table k)")
  case None
  then have full: "\<forall>i < BRTOS_MAX_SEM. OSEventAllocated (BRTOS_Sem_Table k i) = TRUE"
    by (simp add: find_free_None)
  then show ?thesis using assms None by (simp add: OSSemCreate_def Let_def)
next
  case (Some i)
  note i = find_free_Some [OF Some]
  have nf: "(\<forall>i < BRTOS_MAX_SEM. OSEventAllocated (BRTOS_Sem_Table k i) = TRUE) = False"
    using i by blast
  define e where "e = (BRTOS_Sem_Table k i)\<lparr>OSEventAllocated := TRUE, OSEventCount := cnt,
    OSEventWait := 0, Binary := FALSE, OSEventWaitList := 0\<rparr>"
  define k' where "k' = ExitCritical_if_task (put_sem (Some i) e (EnterCritical_if_task k))"
  have run: "OSSemCreate cnt event k = (ALLOC_EVENT_OK, Some i, k')"
    by (simp add: OSSemCreate_free [OF assms Some] k'_def e_def)
  have tab: "BRTOS_Sem_Table k' = (BRTOS_Sem_Table k)(i := e)" by (simp add: k'_def put_sem_def)
  then have g: "get_sem (Some i) k' = Some e" using i by (simp add: get_sem_def)
  have a: "OSEventAllocated e = TRUE" "event_ok e" "sem_abs e = (unat cnt, {})"
    by (simp_all add: e_def event_ok_def sem_abs_def waiters_def)
  have d: "\<exists>k''. OSSemDelete (Some i) k' = Some (DELETE_EVENT_OK, NULL, k'') \<and>
      OSEventAllocated (BRTOS_Sem_Table k'' i) = 0" if "iNesting k' = 0"
    using that g by (simp add: OSSemDelete_def Let_def put_sem_def)
  show ?thesis
    unfolding run prod.case nf if_False
    using g a d i tab by (intro conjI exI [of _ i] exI [of _ e]) simp_all
qed

text \<open>
  \<open>OSSemBinaryCreate\<close> compares its argument with \<open>> 1\<close>: created with 1 the semaphore is empty, so
  a pend on it finds nothing.
\<close>

theorem OSSemBinaryCreate_one_is_empty:
  assumes "iNesting k = 0" "find_free 0 BRTOS_MAX_SEM (BRTOS_Sem_Table k) = Some i"
  shows "case OSSemBinaryCreate 1 event k of (ret, p, k') \<Rightarrow>
    ret = ALLOC_EVENT_OK \<and> p = Some i \<and> (\<exists>e. get_sem p k' = Some e \<and> sem_abs e = (0, {}) \<and> Binary e = TRUE)"
  using assms find_free_Some [OF assms(2)]
  by (simp add: OSSemBinaryCreate_def Let_def get_sem_def put_sem_def sem_abs_def waiters_def codes)

end
