(* ===== verification/Mailbox.thy ===== *)
theory Mailbox
  imports Semaphore
begin

text \<open>
  Mailboxes (\<open>mbox.c\<close>): one slot for a message pointer, and a wait list. The abstract mailbox is an
  optional message and the waiting priorities. A post always fills the slot, waking the highest waiter
  if there is one; the woken task reads the slot when it runs.
\<close>

definition put_mbox :: "ptr \<Rightarrow> BRTOS_Mbox \<Rightarrow> kernel \<Rightarrow> kernel" where
  "put_mbox p e k =
    (case p of None \<Rightarrow> k | Some i \<Rightarrow> k\<lparr>BRTOS_Mbox_Table := (BRTOS_Mbox_Table k)(i := e)\<rparr>)"

definition get_mbox :: "ptr \<Rightarrow> kernel \<Rightarrow> BRTOS_Mbox option" where
  "get_mbox p k = deref BRTOS_MAX_MBOX (BRTOS_Mbox_Table k) p"

definition OSMboxCreate :: "ptr \<Rightarrow> ptr \<Rightarrow> kernel \<Rightarrow> u8 \<times> ptr \<times> kernel" where
  "OSMboxCreate event message k =
    (if iNesting k > 0 then (IRQ_PEND_ERR, event, k)
     else
       (let k1 = EnterCritical_if_task k
        in case find_free 0 BRTOS_MAX_MBOX (BRTOS_Mbox_Table k1) of
             None \<Rightarrow> (NO_AVAILABLE_EVENT, event, ExitCritical_if_task k1)
           | Some i \<Rightarrow>
               (let e = (BRTOS_Mbox_Table k1 i)
                  \<lparr>OSEventAllocated := TRUE,
                   OSEventState_mb := (if message \<noteq> NULL then AVAILABLE_MESSAGE else NO_MESSAGE),
                   OSEventPointer := message, OSEventWait := 0, OSEventWaitList := 0\<rparr>;
                    k2 = put_mbox (Some i) e k1
                in (ALLOC_EVENT_OK, Some i, ExitCritical_if_task k2))))"

definition OSMboxDelete :: "ptr \<Rightarrow> kernel \<Rightarrow> (u8 \<times> ptr \<times> kernel) option" where
  "OSMboxDelete event k =
    (if iNesting k > 0 then Some (IRQ_PEND_ERR, event, k)
     else do {
       let k1 = EnterCritical k;
       e \<leftarrow> get_mbox event k1;
       let k2 = put_mbox event
         (e\<lparr>OSEventAllocated := 0, OSEventPointer := NULL, OSEventWait := 0,
            OSEventState_mb := NO_MESSAGE, OSEventWaitList := 0\<rparr>) k1;
       Some (DELETE_EVENT_OK, NULL, ExitCritical k2) })"

text \<open>\<open>Mail\<close> is the caller's message pointer, returned updated with the code.\<close>

definition OSMboxPend :: "ptr \<Rightarrow> ptr \<Rightarrow> u16 \<Rightarrow> kernel \<Rightarrow> (u8 \<times> ptr) pend option" where
  "OSMboxPend pont_event Mail time_wait k =
    (if ERROR_CHECK k \<and> iNesting k > 0 then Some (Return (IRQ_PEND_ERR, NULL) k)
     else if ERROR_CHECK k \<and> pont_event = NULL then Some (Return (NULL_EVENT_POINTER, Mail) k)
     else do {
       let k1 = EnterCritical k;
       e \<leftarrow> get_mbox pont_event k1;
       if ERROR_CHECK k1 \<and> OSEventAllocated e \<noteq> TRUE
       then Some (Return (ERR_EVENT_NO_CREATED, Mail) (ExitCritical k1))
       else if OSEventState_mb e = AVAILABLE_MESSAGE
       then Some (Return (OK, OSEventPointer e)
              (ExitCritical (put_mbox pont_event (e\<lparr>OSEventState_mb := NO_MESSAGE\<rparr>) k1)))
       else if time_wait = NO_TIMEOUT
       then Some (Return (EXIT_BY_NO_ENTRY_AVAILABLE, Mail) (ExitCritical k1))
       else do {
         let t = unat (currentTask k1);
         Task \<leftarrow> task_at t k1;
         let iPriority = Priority Task;
         pmask \<leftarrow> PriorityMask iPriority;
         let k2 = put_mbox pont_event (wait_add pmask e) k1;
         let k3 = suspend t pmask time_wait k2;
         Some (Wait t iPriority (ExitCritical k3)) } })"

definition OSMboxPend_resume ::
  "ptr \<Rightarrow> u16 \<Rightarrow> nat \<Rightarrow> u8 \<Rightarrow> kernel \<Rightarrow> (u8 \<times> ptr \<times> kernel) option" where
  "OSMboxPend_resume pont_event time_wait t iPriority k = do {
     let k1 = EnterCritical k;
     e \<leftarrow> get_mbox pont_event k1;
     pmask \<leftarrow> PriorityMask iPriority;
     (gave_up, e2, k2) \<leftarrow> (if time_wait \<noteq> 0 then wait_over t pmask e k1 else Some (False, e, k1));
     if gave_up then Some (TIMEOUT, NULL, ExitCritical (put_mbox pont_event e2 k2))
     else Some (OK, OSEventPointer e2,
       ExitCritical (put_mbox pont_event (e2\<lparr>OSEventState_mb := NO_MESSAGE\<rparr>) k2)) }"

definition OSMboxPost :: "ptr \<Rightarrow> ptr \<Rightarrow> kernel \<Rightarrow> (u8 \<times> kernel) option" where
  "OSMboxPost pont_event message k =
    (if ERROR_CHECK k \<and> pont_event = NULL then Some (NULL_EVENT_POINTER, k)
     else do {
       let k1 = EnterCritical k;
       e \<leftarrow> get_mbox pont_event k1;
       if ERROR_CHECK k1 \<and> OSEventAllocated e \<noteq> TRUE
       then Some (ERR_EVENT_NO_CREATED, ExitCritical k1)
       else if OSEventWait e \<noteq> 0 then do {
         (_, e2, k2) \<leftarrow> wake_highest e k1;
         let e3 = e2\<lparr>OSEventPointer := message, OSEventState_mb := AVAILABLE_MESSAGE\<rparr>;
         let k3 = put_mbox pont_event e3 k2;
         let k4 = ChangeContext_if_not_nested k3;
         Some (OK, ExitCritical k4) }
       else
         (let e3 = e\<lparr>OSEventPointer := message, OSEventState_mb := AVAILABLE_MESSAGE\<rparr>
          in Some (OK, ExitCritical (put_mbox pont_event e3 k1))) })"

subsection \<open>The table\<close>

lemma put_mbox_frame [simp]:
  "ERROR_CHECK (put_mbox p e k) = ERROR_CHECK k"
  "PriorityVector (put_mbox p e k) = PriorityVector k"
  "iStackAddress (put_mbox p e k) = iStackAddress k"
  "iQueueAddress (put_mbox p e k) = iQueueAddress k"
  "StackAddress (put_mbox p e k) = StackAddress k"
  "NumberOfInstalledTasks (put_mbox p e k) = NumberOfInstalledTasks k"
  "currentTask (put_mbox p e k) = currentTask k"
  "SelectedTask (put_mbox p e k) = SelectedTask k"
  "OSReadyList (put_mbox p e k) = OSReadyList k"
  "OSBlockedList (put_mbox p e k) = OSBlockedList k"
  "OSTickCounter (put_mbox p e k) = OSTickCounter k"
  "OSDuty (put_mbox p e k) = OSDuty k"
  "OSDutyTmp (put_mbox p e k) = OSDutyTmp k"
  "LastOSDuty (put_mbox p e k) = LastOSDuty k"
  "DutyCnt (put_mbox p e k) = DutyCnt k"
  "TaskAlloc (put_mbox p e k) = TaskAlloc k"
  "iNesting (put_mbox p e k) = iNesting k"
  "Tail (put_mbox p e k) = Tail k"
  "Head (put_mbox p e k) = Head k"
  "BRTOS_Sem_Table (put_mbox p e k) = BRTOS_Sem_Table k"
  "BRTOS_Mutex_Table (put_mbox p e k) = BRTOS_Mutex_Table k"
  "BRTOS_Queue_Table (put_mbox p e k) = BRTOS_Queue_Table k"
  "BRTOS_OS_QUEUE_Table (put_mbox p e k) = BRTOS_OS_QUEUE_Table k"
  "QUEUE_STACK (put_mbox p e k) = QUEUE_STACK k"
  "ContextTask (put_mbox p e k) = ContextTask k"
  "SPvalue (put_mbox p e k) = SPvalue k"
  "PendingInterrupts (put_mbox p e k) = PendingInterrupts k"
  "InterruptEventMutex (put_mbox p e k) = InterruptEventMutex k"
  "InterruptEvent (put_mbox p e k) = InterruptEvent k"
  "IsrHandler (put_mbox p e k) = IsrHandler k"
  "UART_RX_buffer (put_mbox p e k) = UART_RX_buffer k"
  "SerialQ (put_mbox p e k) = SerialQ k"
  by (simp_all add: put_mbox_def split: option.split)

lemma get_mbox_not_NULL: "get_mbox p k = Some e \<Longrightarrow> p \<noteq> NULL"
  by (auto simp: get_mbox_def deref_def split: option.splits)

lemma get_put_mbox: "get_mbox p k = Some e \<Longrightarrow> get_mbox p (put_mbox p e' k) = Some e'"
  by (auto simp: get_mbox_def deref_def put_mbox_def split: option.splits if_splits)

lemma get_mbox_critical [simp]:
  "get_mbox p (EnterCritical k) = get_mbox p k" "get_mbox p (ExitCritical k) = get_mbox p k"
  "get_mbox p (ChangeContext_if_not_nested k) = get_mbox p k" "get_mbox p (suspend t m w k) = get_mbox p k"
  "get_mbox p (k\<lparr>OSReadyList := r\<rparr>) = get_mbox p k"
  by (simp_all add: get_mbox_def)

lemma sys_ok_put_mbox: "sys_ok k xs \<Longrightarrow> sys_ok (put_mbox p e k) xs"
  by (simp add: put_mbox_def sys_ok_tables split: option.split)

subsection \<open>The abstract mailbox\<close>

type_synonym mbox_abs = "ptr option \<times> nat set"

definition mbox_abs :: "BRTOS_Mbox \<Rightarrow> mbox_abs" where
  "mbox_abs e =
    (if OSEventState_mb e = AVAILABLE_MESSAGE then Some (OSEventPointer e) else None, waiters e)"

lemma mbox_fields [simp]:
  "waiters (e\<lparr>OSEventState_mb := v\<rparr>) = waiters e" "waiters (e\<lparr>OSEventPointer := m\<rparr>) = waiters e"
  "event_ok (e\<lparr>OSEventState_mb := v\<rparr>) = event_ok e" "event_ok (e\<lparr>OSEventPointer := m\<rparr>) = event_ok e"
  "OSEventPointer (wait_del b e) = OSEventPointer e" "OSEventState_mb (wait_del b e) = OSEventState_mb e"
  "OSEventPointer (wait_add b e) = OSEventPointer e" "OSEventState_mb (wait_add b e) = OSEventState_mb e"
  "OSEventAllocated (wait_del b e) = OSEventAllocated e" "OSEventAllocated (wait_add b e) = OSEventAllocated e"
  by (simp_all add: waiters_def event_ok_def wait_del_def wait_add_def)

lemma message_states: "AVAILABLE_MESSAGE \<noteq> NO_MESSAGE" "NO_MESSAGE \<noteq> AVAILABLE_MESSAGE"
  by (simp_all add: codes)

lemma OSMboxPost_checked:
  assumes "get_mbox p k = Some e" "ERROR_CHECK k \<longrightarrow> OSEventAllocated e = TRUE"
  shows "OSMboxPost p m k =
   (if OSEventWait e \<noteq> 0 then do {
         (_, e2, k2) \<leftarrow> wake_highest e (EnterCritical k);
         Some (OK, ExitCritical (ChangeContext_if_not_nested (put_mbox p
           (e2\<lparr>OSEventPointer := m, OSEventState_mb := AVAILABLE_MESSAGE\<rparr>) k2))) }
    else Some (OK, ExitCritical (put_mbox p
           (e\<lparr>OSEventPointer := m, OSEventState_mb := AVAILABLE_MESSAGE\<rparr>) (EnterCritical k))))"
  using assms get_mbox_not_NULL [OF assms(1)]
  by (cases "ERROR_CHECK k"; cases p) (simp_all add: OSMboxPost_def Let_def)

lemma OSMboxPost_run:
  assumes e: "get_mbox p k = Some e" "event_ok e" "ERROR_CHECK k \<longrightarrow> OSEventAllocated e = TRUE"
    and n: "nestable k"
  defines "W \<equiv> if waiters e = {} then {} else {Max (waiters e)}"
  obtains k' e' where "OSMboxPost p m k = Some (OK, k')" "get_mbox p k' = Some e'" "event_ok e'"
    "OSEventAllocated e' = OSEventAllocated e" "ERROR_CHECK k' = ERROR_CHECK k"
    "OSEventPointer e' = m" "OSEventState_mb e' = AVAILABLE_MESSAGE" "waiters e' = waiters e - W"
    "prios (OSReadyList k') = prios (OSReadyList k) \<union> W" "PendingInterrupts k' = PendingInterrupts k"
    "iNesting k' = iNesting k" "ContextTask k' = ContextTask k" "currentTask k' = currentTask k"
    "Head k' = Head k" "Tail k' = Tail k"
proof (cases "waiters e = {}")
  case True
  define e' where "e' = e\<lparr>OSEventPointer := m, OSEventState_mb := AVAILABLE_MESSAGE\<rparr>"
  define k' where "k' = ExitCritical (put_mbox p e' (EnterCritical k))"
  have "OSEventWait e = 0" using e(2) True by (simp add: event_ok_no_waiters)
  then have r: "OSMboxPost p m k = Some (OK, k')"
    by (simp only: OSMboxPost_checked [OF e(1,3)] simp_thms if_False k'_def e'_def)
  have g: "get_mbox p k' = Some e'" using e(1) by (simp add: get_put_mbox k'_def)
  show thesis
    by (rule that [OF r g])
      (use e(2) True nestable_inc [OF n] in \<open>simp_all add: e'_def k'_def W_def iNesting_ExitCritical\<close>)
next
  case False
  let ?m = "Max (waiters e)"
  have mx: "?m \<in> waiters e" "?m < 32" using Max_in [OF waiters_finite False] waiters_bound by auto
  define e' where "e' = (wait_del (pbit ?m) e)\<lparr>OSEventPointer := m, OSEventState_mb := AVAILABLE_MESSAGE\<rparr>"
  define k1 where "k1 = (EnterCritical k)\<lparr>OSReadyList := OSReadyList k OR pbit ?m\<rparr>"
  define k' where "k' = ExitCritical (put_mbox p e' k1)"
  have w: "OSEventWait e \<noteq> 0" using e(2) False by (simp add: event_ok_no_waiters)
  have sch: "unat (SAScheduler (OSEventWaitList e)) = ?m" using wq.best_Max [OF False] .
  have r: "OSMboxPost p m k = Some (OK, k')"
    using w nestable_inc [OF n]
    by (simp add: OSMboxPost_checked [OF e(1,3)] wake_highest_Some sch k'_def k1_def e'_def
        ChangeContext_if_not_nested_def)
  have "get_mbox p k1 = Some e" using e(1) by (simp add: k1_def)
  then have g: "get_mbox p k' = Some e'" by (simp add: get_put_mbox k'_def)
  show thesis
    by (rule that [OF r g])
      (use e(2) False mx nestable_inc [OF n] event_ok_wait_del [OF e(2) mx(1)] in
        \<open>simp_all add: e'_def k'_def k1_def W_def iNesting_ExitCritical waiters_wait_del prios_set\<close>)
qed

text \<open>
  \<open>OSMboxPost\<close> refines the abstract mailbox: the message is in the slot afterwards, replacing one
  that was not yet read, and the highest waiting priority, if any, moves from the wait list to the
  ready list.
\<close>

theorem OSMboxPost_refines:
  assumes "get_mbox p k = Some e" "event_ok e" "ERROR_CHECK k \<longrightarrow> OSEventAllocated e = TRUE" "nestable k"
  shows "\<exists>k' e'. OSMboxPost p m k = Some (OK, k') \<and> get_mbox p k' = Some e' \<and> event_ok e' \<and>
    mbox_abs e' = (Some m, waiters e - (if waiters e = {} then {} else {Max (waiters e)})) \<and>
    prios (OSReadyList k') = prios (OSReadyList k) \<union> (if waiters e = {} then {} else {Max (waiters e)})"
proof -
  obtain k' e' where "OSMboxPost p m k = Some (OK, k')" "get_mbox p k' = Some e'" "event_ok e'"
    "OSEventPointer e' = m" "OSEventState_mb e' = AVAILABLE_MESSAGE"
    "waiters e' = waiters e - (if waiters e = {} then {} else {Max (waiters e)})"
    "prios (OSReadyList k') = prios (OSReadyList k) \<union> (if waiters e = {} then {} else {Max (waiters e)})"
    by (rule OSMboxPost_run [OF assms])
  then show ?thesis by (intro exI [of _ k'] exI [of _ e']) (simp add: mbox_abs_def)
qed

subsection \<open>Receiving\<close>

lemma OSMboxPend_available:
  assumes "get_mbox p k = Some e" "OSEventState_mb e = AVAILABLE_MESSAGE"
    "ERROR_CHECK k \<longrightarrow> OSEventAllocated e = TRUE \<and> iNesting k = 0"
  shows "OSMboxPend p Mail w k = Some (Return (OK, OSEventPointer e)
      (ExitCritical (put_mbox p (e\<lparr>OSEventState_mb := NO_MESSAGE\<rparr>) (EnterCritical k))))"
proof -
  have 1: "\<not> (ERROR_CHECK k \<and> iNesting k > 0)" "\<not> (ERROR_CHECK k \<and> p = NULL)"
    "\<not> (ERROR_CHECK (EnterCritical k) \<and> OSEventAllocated e \<noteq> TRUE)"
    using assms(3) get_mbox_not_NULL [OF assms(1)] by auto
  have 2: "get_mbox p (EnterCritical k) = Some e" using assms(1) by simp
  show ?thesis
    unfolding OSMboxPend_def Let_def if_not_P [OF 1(1)] if_not_P [OF 1(2)] 2 bind.bind_lunit
      if_not_P [OF 1(3)] if_P [OF assms(2)] ..
qed

lemma OSMboxPend_wait:
  assumes "get_mbox p k = Some e" "OSEventState_mb e \<noteq> AVAILABLE_MESSAGE" "w \<noteq> NO_TIMEOUT"
    "ERROR_CHECK k \<longrightarrow> OSEventAllocated e = TRUE \<and> iNesting k = 0"
    "allocated k (unat (currentTask k))" "prio_of k (unat (currentTask k)) < 32"
  shows "OSMboxPend p Mail w k =
    Some (Wait (unat (currentTask k)) (Priority (ContextTask k (unat (currentTask k))))
      (ExitCritical (suspend (unat (currentTask k)) (pbit (prio_of k (unat (currentTask k)))) w
        (put_mbox p (wait_add (pbit (prio_of k (unat (currentTask k)))) e) (EnterCritical k)))))"
proof -
  have 1: "\<not> (ERROR_CHECK k \<and> iNesting k > 0)" "\<not> (ERROR_CHECK k \<and> p = NULL)"
    "\<not> (ERROR_CHECK (EnterCritical k) \<and> OSEventAllocated e \<noteq> TRUE)"
    using assms(4) get_mbox_not_NULL [OF assms(1)] by auto
  have 2: "get_mbox p (EnterCritical k) = Some e" using assms(1) by simp
  have m: "PriorityMask (Priority (ContextTask (EnterCritical k) (unat (currentTask (EnterCritical k))))) =
      Some (pbit (prio_of k (unat (currentTask k))))"
    using assms(6) by (simp add: PriorityMask_Some prio_of_def)
  have 3: "task_at (unat (currentTask (EnterCritical k))) (EnterCritical k) =
      Some (ContextTask (EnterCritical k) (unat (currentTask (EnterCritical k))))"
    using assms(5) by (simp add: task_at_allocated)
  show ?thesis
    unfolding OSMboxPend_def Let_def if_not_P [OF 1(1)] if_not_P [OF 1(2)] 2 bind.bind_lunit
      if_not_P [OF 1(3)] if_not_P [OF assms(2)] if_not_P [OF assms(3)] 3 m
    by simp
qed

lemma OSMboxPend_resume_run:
  assumes "get_mbox p k = Some e" "w \<noteq> 0" "unat pr < 32"
    "wait_over t (pbit (unat pr)) e (EnterCritical k) = Some (g, e', k2)"
  shows "OSMboxPend_resume p w t pr k =
    (if g then Some (TIMEOUT, NULL, ExitCritical (put_mbox p e' k2))
     else Some (OK, OSEventPointer e', ExitCritical (put_mbox p (e'\<lparr>OSEventState_mb := NO_MESSAGE\<rparr>) k2)))"
  using assms by (simp add: OSMboxPend_resume_def PriorityMask_Some Let_def)

lemma OSMboxPend_resume_forever:
  assumes "get_mbox p k = Some e" "unat pr < 32"
  shows "OSMboxPend_resume p 0 t pr k =
    Some (OK, OSEventPointer e, ExitCritical (put_mbox p (e\<lparr>OSEventState_mb := NO_MESSAGE\<rparr>) (EnterCritical k)))"
  using assms by (simp add: OSMboxPend_resume_def PriorityMask_Some Let_def)

text \<open>
  C18. What is posted to a mailbox without waiters is what the next pend receives, once: the pend after
  it finds the slot empty again. The post answers \<open>OK\<close>, where the comment in \<open>BRTOS.h\<close> announces
  \<open>ERR_EVENT_NO_CREATED\<close> for a post no task waits for.
\<close>

theorem OSMbox_round_trip:
  assumes "get_mbox p k = Some e" "event_ok e" "waiters e = {}" "iNesting k = 0"
    "ERROR_CHECK k \<longrightarrow> OSEventAllocated e = TRUE"
  shows "\<exists>k1 k2 e2. OSMboxPost p m k = Some (OK, k1) \<and>
    OSMboxPend p Mail w k1 = Some (Return (OK, m) k2) \<and> get_mbox p k2 = Some e2 \<and>
    mbox_abs e2 = (None, {}) \<and>
    (\<exists>k3. OSMboxPend p Mail NO_TIMEOUT k2 = Some (Return (EXIT_BY_NO_ENTRY_AVAILABLE, Mail) k3))"
proof -
  have n: "nestable k" using assms(4) by (simp add: nestable_def)
  obtain k1 e1 where k1: "OSMboxPost p m k = Some (OK, k1)" "get_mbox p k1 = Some e1" "event_ok e1"
    "OSEventAllocated e1 = OSEventAllocated e" "ERROR_CHECK k1 = ERROR_CHECK k"
    "OSEventPointer e1 = m" "OSEventState_mb e1 = AVAILABLE_MESSAGE" "waiters e1 = {}" "iNesting k1 = 0"
    by (rule OSMboxPost_run [OF assms(1,2,5) n, of m]) (use assms(3,4) in simp)
  define e2 where "e2 = e1\<lparr>OSEventState_mb := NO_MESSAGE\<rparr>"
  define k2 where "k2 = ExitCritical (put_mbox p e2 (EnterCritical k1))"
  have ec: "ERROR_CHECK k1 \<longrightarrow> OSEventAllocated e1 = TRUE \<and> iNesting k1 = 0" using k1 assms(5) by simp
  have r2: "OSMboxPend p Mail w k1 = Some (Return (OK, m) k2)"
    using OSMboxPend_available [OF k1(2,7) ec, of Mail w] k1(6) by (simp add: k2_def e2_def)
  have g2: "get_mbox p k2 = Some e2" using k1(2) by (simp add: get_put_mbox k2_def)
  have i2: "iNesting k2 = 0" using k1(9) by (simp add: k2_def iNesting_ExitCritical)
  have e2: "OSEventState_mb e2 = NO_MESSAGE" "waiters e2 = {}" "OSEventAllocated e2 = OSEventAllocated e"
    "ERROR_CHECK k2 = ERROR_CHECK k"
    using k1 by (simp_all add: e2_def k2_def)
  have "\<exists>k3. OSMboxPend p Mail NO_TIMEOUT k2 = Some (Return (EXIT_BY_NO_ENTRY_AVAILABLE, Mail) k3)"
    using g2 e2 i2 assms(5) get_mbox_not_NULL [OF g2]
    by (cases "ERROR_CHECK k"; cases p) (simp_all add: OSMboxPend_def Let_def message_states)
  then show ?thesis using k1(1) r2 g2 e2 by (auto simp: mbox_abs_def message_states)
qed

text \<open>
  A message posted for a waiting task can be received twice: the post leaves it in the slot, so a
  task that pends before the woken one runs takes it, and the woken one, which does not test the
  slot, receives the same pointer again.
\<close>

theorem OSMbox_received_twice:
  assumes "get_mbox p k = Some e" "event_ok e" "unat pr \<in> waiters e" "unat pr = Max (waiters e)"
    "iNesting k = 0" "ERROR_CHECK k \<longrightarrow> OSEventAllocated e = TRUE"
  shows "\<exists>k1 k2 k3. OSMboxPost p m k = Some (OK, k1) \<and>
    OSMboxPend p Mail w k1 = Some (Return (OK, m) k2) \<and>
    OSMboxPend_resume p 0 t pr k2 = Some (OK, m, k3)"
proof -
  have n: "nestable k" using assms(5) by (simp add: nestable_def)
  obtain k1 e1 where k1: "OSMboxPost p m k = Some (OK, k1)" "get_mbox p k1 = Some e1"
    "OSEventAllocated e1 = OSEventAllocated e" "ERROR_CHECK k1 = ERROR_CHECK k"
    "OSEventPointer e1 = m" "OSEventState_mb e1 = AVAILABLE_MESSAGE" "iNesting k1 = 0"
    by (rule OSMboxPost_run [OF assms(1,2,6) n, of m]) (use assms(5) in simp)
  define e2 where "e2 = e1\<lparr>OSEventState_mb := NO_MESSAGE\<rparr>"
  define k2 where "k2 = ExitCritical (put_mbox p e2 (EnterCritical k1))"
  have ec: "ERROR_CHECK k1 \<longrightarrow> OSEventAllocated e1 = TRUE \<and> iNesting k1 = 0" using k1 assms(6) by simp
  have "OSMboxPend p Mail w k1 = Some (Return (OK, m) k2)"
    using OSMboxPend_available [OF k1(2,6) ec, of Mail w] k1(5) by (simp add: k2_def e2_def)
  moreover have g2: "get_mbox p k2 = Some e2" using k1(2) by (simp add: get_put_mbox k2_def)
  moreover have "OSEventPointer e2 = m" using k1(5) by (simp add: e2_def)
  moreover have "unat pr < 32" using assms(3) by (rule waiters_bound)
  ultimately show ?thesis using k1(1) OSMboxPend_resume_forever [of p k2 e2 pr t] by auto
qed

text \<open>
  A pend that finds no message suspends its caller; the post that follows readies it again, and
  the resumed pend returns the message posted and leaves the slot empty and nobody waiting.
\<close>

theorem OSMboxPend_wait_and_receive:
  assumes "get_mbox p k = Some e" "event_ok e" "can_pend k xs e" "OSEventState_mb e \<noteq> AVAILABLE_MESSAGE"
    "waiters e = {}" "ERROR_CHECK k \<longrightarrow> OSEventAllocated e = TRUE"
  defines "t \<equiv> unat (currentTask k)"
  shows "\<exists>k1 k2 k3 e3. OSMboxPend p Mail 0 k = Some (Wait t (Priority (ContextTask k t)) k1) \<and>
    \<not> bit (OSReadyList k1) (prio_of k t) \<and>
    OSMboxPost p m k1 = Some (OK, k2) \<and> bit (OSReadyList k2) (prio_of k t) \<and>
    OSMboxPend_resume p 0 t (Priority (ContextTask k t)) k2 = Some (OK, m, k3) \<and>
    get_mbox p k3 = Some e3 \<and> mbox_abs e3 = (None, {})"
proof -
  note c = can_pendD [OF assms(3)]
  let ?p = "prio_of k t"
  have pt: "?p < 32" using c(6) by (simp add: t_def)
  have ec: "ERROR_CHECK k \<longrightarrow> OSEventAllocated e = TRUE \<and> iNesting k = 0" using assms(6) c(2) by blast
  define e1 where "e1 = wait_add (pbit ?p) e"
  define k0 where "k0 = put_mbox p e1 (EnterCritical k)"
  define k1 where "k1 = ExitCritical (suspend t (pbit ?p) 0 k0)"
  have z: "0 \<noteq> NO_TIMEOUT" by (simp add: config)
  have run: "OSMboxPend p Mail 0 k = Some (Wait t (Priority (ContextTask k t)) k1)"
    unfolding k1_def k0_def e1_def t_def by (rule OSMboxPend_wait [OF assms(1,4) z ec c(3,6)])
  have s0: "sys_ok k0 xs" unfolding k0_def by (intro sys_ok_put_mbox sys_ok_Enter [OF c(1,7)])
  note ws = wait_state [OF assms(3) s0, of 0, folded t_def, folded k1_def]
  have n1: "iNesting k1 = 0" and r1: "prios (OSReadyList k1) = prios (OSReadyList k) - {?p}"
    using ws by (simp_all add: k0_def c(2))
  have g0: "get_mbox p k0 = Some e1" using assms(1) by (simp add: get_put_mbox k0_def)
  then have g1: "get_mbox p k1 = Some e1" by (simp add: k1_def)
  have w1: "waiters e1 = {?p}" using pt assms(5) by (simp add: e1_def waiters_wait_add)
  have o1: "event_ok e1" unfolding e1_def by (rule event_ok_wait_add [OF assms(2) pt]) (simp add: assms(5))
  have ec1: "ERROR_CHECK k1 \<longrightarrow> OSEventAllocated e1 = TRUE"
    using assms(6) by (simp add: k1_def k0_def e1_def)
  have ne1: "nestable k1" using n1 by (simp add: nestable_def)
  obtain k2 e2 where k2: "OSMboxPost p m k1 = Some (OK, k2)" "get_mbox p k2 = Some e2"
    "OSEventPointer e2 = m" "OSEventState_mb e2 = AVAILABLE_MESSAGE" "waiters e2 = {}"
    "prios (OSReadyList k2) = prios (OSReadyList k1) \<union> {?p}"
    by (rule OSMboxPost_run [OF g1 o1 ec1 ne1, of m]) (use w1 in simp)
  define e3 where "e3 = e2\<lparr>OSEventState_mb := NO_MESSAGE\<rparr>"
  define k3 where "k3 = ExitCritical (put_mbox p e3 (EnterCritical k2))"
  have "OSMboxPend_resume p 0 t (Priority (ContextTask k t)) k2 = Some (OK, m, k3)"
    using OSMboxPend_resume_forever [OF k2(2), of "Priority (ContextTask k t)" t] pt k2(3)
    by (simp add: k3_def e3_def prio_of_def)
  moreover have "get_mbox p k3 = Some e3" using k2(2) by (simp add: get_put_mbox k3_def)
  moreover have "mbox_abs e3 = (None, {})" using k2(5) by (simp add: mbox_abs_def e3_def message_states)
  moreover have "\<not> bit (OSReadyList k1) ?p" using r1 by (metis Diff_iff insertI1 prios_iff)
  moreover have "bit (OSReadyList k2) ?p" using k2(6) by (metis UnI2 insertI1 prios_iff)
  ultimately show ?thesis using run k2(1) by blast
qed

end
