(* ===== verification/Mutex.thy ===== *)
theory Mutex
  imports Mailbox
begin

text \<open>
  Mutexes with immediate priority ceiling (\<open>mutex.c\<close>). A mutex with a ceiling reserves that priority in
  \<open>PriorityVector\<close>; its owner runs at the ceiling, moved there in the ready list, until it releases.
\<close>

definition put_mutex :: "ptr \<Rightarrow> BRTOS_Mutex \<Rightarrow> kernel \<Rightarrow> kernel" where
  "put_mutex p e k =
    (case p of None \<Rightarrow> k | Some i \<Rightarrow> k\<lparr>BRTOS_Mutex_Table := (BRTOS_Mutex_Table k)(i := e)\<rparr>)"

definition get_mutex :: "ptr \<Rightarrow> kernel \<Rightarrow> BRTOS_Mutex option" where
  "get_mutex p k = deref BRTOS_MAX_MUTEX (BRTOS_Mutex_Table k) p"

definition set_vector :: "u8 \<Rightarrow> u8 \<Rightarrow> kernel \<Rightarrow> kernel option" where
  "set_vector p v k = do {
     _ \<leftarrow> prio_at p k;
     Some (k\<lparr>PriorityVector := (PriorityVector k)(unat p := v)\<rparr>) }"

definition OSMutexCreate :: "ptr \<Rightarrow> u8 \<Rightarrow> kernel \<Rightarrow> (u8 \<times> ptr \<times> kernel) option" where
  "OSMutexCreate event HigherPriority k =
    (if iNesting k > 0 then Some (IRQ_PEND_ERR, event, k)
     else do {
       let k1 = EnterCritical_if_task k;
       v \<leftarrow> (if HigherPriority > 0 then prio_at HigherPriority k1 else Some EMPTY_PRIO);
       if v \<noteq> EMPTY_PRIO then Some (BUSY_PRIORITY, event, ExitCritical_if_task k1)
       else do {
         k2 \<leftarrow> (if HigherPriority > 0 then set_vector HigherPriority MUTEX_PRIO k1 else Some k1);
         case find_free 0 BRTOS_MAX_MUTEX (BRTOS_Mutex_Table k2) of
           None \<Rightarrow> Some (NO_AVAILABLE_EVENT, event, ExitCritical_if_task k2)
         | Some i \<Rightarrow>
             (let e = (BRTOS_Mutex_Table k2 i)
                \<lparr>OSEventAllocated := TRUE, OSEventState := AVAILABLE_RESOURCE, OSEventWait := 0,
                 OSMaxPriority := HigherPriority, OSEventWaitList := 0\<rparr>;
                  k3 = put_mutex (Some i) e k2
              in Some (ALLOC_EVENT_OK, Some i, ExitCritical_if_task k3)) } })"

definition OSMutexDelete :: "ptr \<Rightarrow> kernel \<Rightarrow> (u8 \<times> ptr \<times> kernel) option" where
  "OSMutexDelete event k =
    (if iNesting k > 0 then Some (IRQ_PEND_ERR, event, k)
     else do {
       let k1 = EnterCritical k;
       e \<leftarrow> get_mutex event k1;
       let k2 = put_mutex event
         (e\<lparr>OSEventAllocated := 0, OSEventState := 0, OSEventOwner := 0, OSMaxPriority := 0,
            OSOriginalPriority := 0, OSEventWait := 0, OSEventWaitList := 0\<rparr>) k1;
       Some (DELETE_EVENT_OK, NULL, ExitCritical k2) })"

text \<open>The exchange of the owner's priority for the ceiling, at the end of both ways to acquire.\<close>

definition raise_priority :: "nat \<Rightarrow> u8 \<Rightarrow> u8 \<Rightarrow> kernel \<Rightarrow> kernel option" where
  "raise_priority Task iPriority MaxPriority k =
    (if MaxPriority > iPriority then do {
       let k1 = upd_task Task (\<lambda>c. c\<lparr>Priority := MaxPriority\<rparr>) k;
       k2 \<leftarrow> set_vector MaxPriority (currentTask k1) k1;
       m1 \<leftarrow> PriorityMask iPriority;
       let k3 = k2\<lparr>OSReadyList := OSReadyList k2 AND NOT m1\<rparr>;
       m2 \<leftarrow> PriorityMask MaxPriority;
       Some (k3\<lparr>OSReadyList := OSReadyList k3 OR m2\<rparr>) }
     else Some k)"

definition OSMutexAcquire :: "ptr \<Rightarrow> u16 \<Rightarrow> kernel \<Rightarrow> u8 pend option" where
  "OSMutexAcquire pont_event time_wait k =
    (if ERROR_CHECK k \<and> iNesting k > 0 then Some (Return IRQ_PEND_ERR k)
     else if ERROR_CHECK k \<and> pont_event = NULL then Some (Return NULL_EVENT_POINTER k)
     else do {
       let k1 = EnterCritical k;
       e \<leftarrow> get_mutex pont_event k1;
       if ERROR_CHECK k1 \<and> OSEventAllocated e \<noteq> TRUE
       then Some (Return ERR_EVENT_NO_CREATED (ExitCritical k1))
       else if currentTask k1 = OSEventOwner e then Some (Return OK (ExitCritical k1))
       else do {
         let t = unat (currentTask k1);
         Task \<leftarrow> task_at t k1;
         if OSEventState e = AVAILABLE_RESOURCE then do {
           let e1 = e\<lparr>OSEventState := BUSY_RESOURCE, OSEventOwner := currentTask k1,
                      OSOriginalPriority := Priority Task\<rparr>;
           k2 \<leftarrow> raise_priority t (OSOriginalPriority e1) (OSMaxPriority e1) (put_mutex pont_event e1 k1);
           Some (Return OK (ExitCritical k2)) }
         else if time_wait = NO_TIMEOUT
         then Some (Return EXIT_BY_NO_RESOURCE_AVAILABLE (ExitCritical k1))
         else do {
           let iPriority = Priority Task;
           pmask \<leftarrow> PriorityMask iPriority;
           let k2 = put_mutex pont_event (wait_add pmask e) k1;
           let k3 = suspend t pmask time_wait k2;
           Some (Wait t iPriority (ExitCritical k3)) } } })"

definition OSMutexAcquire_resume :: "ptr \<Rightarrow> u16 \<Rightarrow> nat \<Rightarrow> u8 \<Rightarrow> kernel \<Rightarrow> (u8 \<times> kernel) option" where
  "OSMutexAcquire_resume pont_event time_wait t iPriority k = do {
     let k1 = EnterCritical k;
     e \<leftarrow> get_mutex pont_event k1;
     pmask \<leftarrow> PriorityMask iPriority;
     (gave_up, e2, k2) \<leftarrow> (if time_wait \<noteq> 0 then wait_over t pmask e k1 else Some (False, e, k1));
     if gave_up
     then Some (EXIT_BY_NO_RESOURCE_AVAILABLE, ExitCritical (put_mutex pont_event e2 k2))
     else do {
       let e3 = e2\<lparr>OSOriginalPriority := iPriority\<rparr>;
       k3 \<leftarrow> raise_priority t iPriority (OSMaxPriority e3) (put_mutex pont_event e3 k2);
       Some (OK, ExitCritical k3) } }"

text \<open>The owner's return to the priority it had when it acquired the mutex.\<close>

definition restore_priority :: "BRTOS_Mutex \<Rightarrow> kernel \<Rightarrow> kernel option" where
  "restore_priority e k = do {
     let t = unat (currentTask k);
     Task \<leftarrow> task_at t k;
     let iPriority = Priority Task;
     if iPriority \<noteq> OSOriginalPriority e then do {
       m1 \<leftarrow> PriorityMask iPriority;
       let k1 = k\<lparr>OSReadyList := OSReadyList k AND NOT m1\<rparr>;
       m2 \<leftarrow> PriorityMask (OSOriginalPriority e);
       let k2 = k1\<lparr>OSReadyList := OSReadyList k1 OR m2\<rparr>;
       Some (upd_task t (\<lambda>c. c\<lparr>Priority := OSOriginalPriority e\<rparr>) k2) }
     else Some k }"

definition OSMutexRelease :: "ptr \<Rightarrow> kernel \<Rightarrow> (u8 \<times> kernel) option" where
  "OSMutexRelease pont_event k =
    (if ERROR_CHECK k \<and> iNesting k > 0 then Some (IRQ_PEND_ERR, k)
     else if ERROR_CHECK k \<and> pont_event = NULL then Some (NULL_EVENT_POINTER, k)
     else do {
       let k1 = EnterCritical k;
       e \<leftarrow> get_mutex pont_event k1;
       if ERROR_CHECK k1 \<and> OSEventAllocated e \<noteq> TRUE
       then Some (ERR_EVENT_NO_CREATED, ExitCritical k1)
       else if OSEventOwner e \<noteq> currentTask k1 then Some (ERR_EVENT_OWNER, ExitCritical k1)
       else do {
         k2 \<leftarrow> restore_priority e k1;
         let e1 = e\<lparr>OSEventOwner := 0\<rparr>;
         if OSEventWait e1 \<noteq> 0 then do {
           (iPriority, e2, k3) \<leftarrow> wake_highest e1 k2;
           new_owner \<leftarrow> prio_at iPriority k3;
           let k4 = put_mutex pont_event (e2\<lparr>OSEventOwner := new_owner\<rparr>) k3;
           Some (OK, ExitCritical (ChangeContext k4)) }
         else do {
           let k3 = put_mutex pont_event (e1\<lparr>OSEventState := AVAILABLE_RESOURCE\<rparr>) k2;
           k4 \<leftarrow> (if OSMaxPriority e1 > 0 then set_vector (OSMaxPriority e1) MUTEX_PRIO k3 else Some k3);
           Some (OK, ExitCritical k4) } } })"

subsection \<open>The table\<close>

lemma put_mutex_frame [simp]:
  "ERROR_CHECK (put_mutex p e k) = ERROR_CHECK k"
  "PriorityVector (put_mutex p e k) = PriorityVector k"
  "iStackAddress (put_mutex p e k) = iStackAddress k"
  "iQueueAddress (put_mutex p e k) = iQueueAddress k"
  "StackAddress (put_mutex p e k) = StackAddress k"
  "NumberOfInstalledTasks (put_mutex p e k) = NumberOfInstalledTasks k"
  "currentTask (put_mutex p e k) = currentTask k"
  "SelectedTask (put_mutex p e k) = SelectedTask k"
  "OSReadyList (put_mutex p e k) = OSReadyList k"
  "OSBlockedList (put_mutex p e k) = OSBlockedList k"
  "OSTickCounter (put_mutex p e k) = OSTickCounter k"
  "OSDuty (put_mutex p e k) = OSDuty k"
  "OSDutyTmp (put_mutex p e k) = OSDutyTmp k"
  "LastOSDuty (put_mutex p e k) = LastOSDuty k"
  "DutyCnt (put_mutex p e k) = DutyCnt k"
  "TaskAlloc (put_mutex p e k) = TaskAlloc k"
  "iNesting (put_mutex p e k) = iNesting k"
  "Tail (put_mutex p e k) = Tail k"
  "Head (put_mutex p e k) = Head k"
  "BRTOS_Sem_Table (put_mutex p e k) = BRTOS_Sem_Table k"
  "BRTOS_Mbox_Table (put_mutex p e k) = BRTOS_Mbox_Table k"
  "BRTOS_Queue_Table (put_mutex p e k) = BRTOS_Queue_Table k"
  "BRTOS_OS_QUEUE_Table (put_mutex p e k) = BRTOS_OS_QUEUE_Table k"
  "QUEUE_STACK (put_mutex p e k) = QUEUE_STACK k"
  "ContextTask (put_mutex p e k) = ContextTask k"
  "SPvalue (put_mutex p e k) = SPvalue k"
  "PendingInterrupts (put_mutex p e k) = PendingInterrupts k"
  "InterruptEventMutex (put_mutex p e k) = InterruptEventMutex k"
  "InterruptEvent (put_mutex p e k) = InterruptEvent k"
  "IsrHandler (put_mutex p e k) = IsrHandler k"
  "UART_RX_buffer (put_mutex p e k) = UART_RX_buffer k"
  "SerialQ (put_mutex p e k) = SerialQ k"
  by (simp_all add: put_mutex_def split: option.split)

lemma get_mutex_not_NULL: "get_mutex p k = Some e \<Longrightarrow> p \<noteq> NULL"
  by (auto simp: get_mutex_def deref_def split: option.splits)

lemma get_put_mutex: "get_mutex p k = Some e \<Longrightarrow> get_mutex p (put_mutex p e' k) = Some e'"
  by (auto simp: get_mutex_def deref_def put_mutex_def split: option.splits if_splits)

lemma get_put_mutex_other: "q \<noteq> p \<Longrightarrow> get_mutex q (put_mutex p e k) = get_mutex q k"
  by (auto simp: get_mutex_def put_mutex_def deref_def split: option.split)

lemma get_mutex_cong: "BRTOS_Mutex_Table k' = BRTOS_Mutex_Table k \<Longrightarrow> get_mutex p k' = get_mutex p k"
  by (simp add: get_mutex_def)

lemma sys_ok_put_mutex: "sys_ok k xs \<Longrightarrow> sys_ok (put_mutex p e k) xs"
  by (simp add: put_mutex_def sys_ok_tables split: option.split)

lemma mutex_fields [simp]:
  "OSEventOwner (wait_del b e) = OSEventOwner e" "OSEventOwner (wait_add b e) = OSEventOwner e"
  "OSEventState (wait_del b e) = OSEventState e" "OSEventState (wait_add b e) = OSEventState e"
  "OSMaxPriority (wait_del b e) = OSMaxPriority e" "OSMaxPriority (wait_add b e) = OSMaxPriority e"
  "OSEventAllocated (wait_del b (e :: BRTOS_Mutex)) = OSEventAllocated e"
  by (simp_all add: wait_del_def wait_add_def)

subsection \<open>Moving a task to another priority\<close>

lemma move_tasks_ok:
  assumes ok: "tasks_ok k" and t: "allocated k t" and np: "np < 32"
    and free: "\<And>u. allocated k u \<Longrightarrow> prio_of k u = np \<Longrightarrow> u = t"
    and k': "TaskAlloc k' = TaskAlloc k" "NumberOfInstalledTasks k' = NumberOfInstalledTasks k"
      "\<And>u. prio_of k' u = (if u = t then np else prio_of k u)" "vec k' np = t"
      "\<And>p. p \<noteq> np \<Longrightarrow> PriorityVector k' p = PriorityVector k p \<or>
         PriorityVector k' p = MUTEX_PRIO \<and> p = prio_of k t"
      "prios (OSReadyList k') \<subseteq> insert np (prios (OSReadyList k) - {prio_of k t})"
  shows "tasks_ok k'"
proof -
  have al: "allocated k' u = allocated k u" for u by (rule allocated_cong [OF k'(1)])
  have same: "vec k' p = vec k p" if "p \<noteq> np" "p \<noteq> prio_of k t" for p
    using k'(5) [OF that(1)] that(2) by (auto simp: vec_def)
  have c: "prio_of k' u < 32 \<and> vec k' (prio_of k' u) = u" if u: "allocated k u" for u
  proof (cases "u = t")
    case True
    then show ?thesis using np k'(3,4) by simp
  next
    case False
    have "prio_of k u \<noteq> np" using free [OF u] False by auto
    moreover have "prio_of k u \<noteq> prio_of k t" using allocated_inj [OF ok u t] False by auto
    ultimately show ?thesis using False k'(3) same tasks_okD(3,4) [OF ok u] by simp
  qed
  have d: "PriorityVector k' p = EMPTY_PRIO \<or> PriorityVector k' p = MUTEX_PRIO \<or> allocated k (vec k' p)"
    if "p < 32" for p
  proof (cases "p = np")
    case True
    then show ?thesis using t k'(4) by simp
  next
    case False
    then show ?thesis using k'(5) [OF False] tasks_okD(5) [OF ok that] unfolding vec_def by metis
  qed
  have e: "allocated k (vec k' q) \<and> prio_of k' (vec k' q) = q" if "q \<in> prios (OSReadyList k')" for q
  proof (cases "q = np")
    case True
    then show ?thesis using t k'(3,4) by simp
  next
    case False
    then have q: "q \<in> prios (OSReadyList k)" "q \<noteq> prio_of k t" using that k'(6) by auto
    have "vec k q \<noteq> t" using tasks_okD(7) [OF ok q(1)] q(2) by auto
    then show ?thesis using same [OF False q(2)] tasks_okD(6,7) [OF ok q(1)] k'(3) by simp
  qed
  show ?thesis
    unfolding tasks_ok_def using tasks_okD(1,2) [OF ok] k'(1,2) al c d e by simp
qed

text \<open>A priority reserved by a mutex belongs to no task and is not ready.\<close>

lemma reserved_free:
  assumes "tasks_ok k" "PriorityVector k p = MUTEX_PRIO"
  shows "allocated k u \<Longrightarrow> prio_of k u \<noteq> p" "p \<notin> prios (OSReadyList k)"
proof -
  have v: "vec k p = 254" using assms(2) by (simp add: vec_def codes)
  show "allocated k u \<Longrightarrow> prio_of k u \<noteq> p"
    using tasks_okD(4) [OF assms(1)] v allocated_bounds by fastforce
  show "p \<notin> prios (OSReadyList k)"
    using tasks_okD(6) [OF assms(1)] v allocated_bounds by fastforce
qed

lemma raise_priority_run:
  assumes "unat m < 32" "unat ip < 32" "m > ip"
  shows "raise_priority t ip m k = Some ((upd_task t (\<lambda>c. c\<lparr>Priority := m\<rparr>) k)
    \<lparr>PriorityVector := (PriorityVector k)(unat m := currentTask k),
     OSReadyList := OSReadyList k AND NOT (pbit (unat ip)) OR pbit (unat m)\<rparr>)"
  using assms by (simp add: raise_priority_def set_vector_def prio_at_def config PriorityMask_Some Let_def)

lemma raise_priority_none: "\<not> m > ip \<Longrightarrow> raise_priority t ip m k = Some k"
  by (simp add: raise_priority_def)

subsection \<open>Acquire\<close>

lemma OSMutexAcquire_guards:
  assumes "get_mutex p k = Some e" "ERROR_CHECK k \<longrightarrow> OSEventAllocated e = TRUE \<and> iNesting k = 0"
  shows "\<not> (ERROR_CHECK k \<and> iNesting k > 0)" "\<not> (ERROR_CHECK k \<and> p = NULL)"
    "get_mutex p (EnterCritical k) = Some e"
    "\<not> (ERROR_CHECK (EnterCritical k) \<and> OSEventAllocated e \<noteq> TRUE)"
  using assms get_mutex_not_NULL [OF assms(1)] by (auto simp: get_mutex_def)

lemma OSMutexAcquire_free:
  assumes "get_mutex p k = Some e" "ERROR_CHECK k \<longrightarrow> OSEventAllocated e = TRUE \<and> iNesting k = 0"
    "currentTask k \<noteq> OSEventOwner e" "allocated k (unat (currentTask k))"
    "OSEventState e = AVAILABLE_RESOURCE"
  shows "OSMutexAcquire p w k = do {
     k2 \<leftarrow> raise_priority (unat (currentTask k)) (Priority (ContextTask k (unat (currentTask k))))
       (OSMaxPriority e) (put_mutex p (e\<lparr>OSEventState := BUSY_RESOURCE, OSEventOwner := currentTask k,
         OSOriginalPriority := Priority (ContextTask k (unat (currentTask k)))\<rparr>) (EnterCritical k));
     Some (Return OK (ExitCritical k2)) }"
proof -
  note g = OSMutexAcquire_guards [OF assms(1,2)]
  have 1: "\<not> currentTask (EnterCritical k) = OSEventOwner e" using assms(3) by simp
  have 2: "task_at (unat (currentTask (EnterCritical k))) (EnterCritical k) =
      Some (ContextTask k (unat (currentTask k)))"
    using assms(4) by (simp add: task_at_allocated)
  show ?thesis
    unfolding OSMutexAcquire_def Let_def if_not_P [OF g(1)] if_not_P [OF g(2)] g(3) bind.bind_lunit
      if_not_P [OF g(4)] if_not_P [OF 1] 2 if_P [OF assms(5)]
    by simp
qed

lemma OSMutexAcquire_busy:
  assumes "get_mutex p k = Some e" "ERROR_CHECK k \<longrightarrow> OSEventAllocated e = TRUE \<and> iNesting k = 0"
    "currentTask k \<noteq> OSEventOwner e" "allocated k (unat (currentTask k))"
    "prio_of k (unat (currentTask k)) < 32" "OSEventState e \<noteq> AVAILABLE_RESOURCE"
  shows "OSMutexAcquire p w k =
    (if w = NO_TIMEOUT then Some (Return EXIT_BY_NO_RESOURCE_AVAILABLE (ExitCritical (EnterCritical k)))
     else Some (Wait (unat (currentTask k)) (Priority (ContextTask k (unat (currentTask k))))
      (ExitCritical (suspend (unat (currentTask k)) (pbit (prio_of k (unat (currentTask k)))) w
        (put_mutex p (wait_add (pbit (prio_of k (unat (currentTask k)))) e) (EnterCritical k))))))"
proof -
  note g = OSMutexAcquire_guards [OF assms(1,2)]
  have 1: "\<not> currentTask (EnterCritical k) = OSEventOwner e" using assms(3) by simp
  have 2: "task_at (unat (currentTask (EnterCritical k))) (EnterCritical k) =
      Some (ContextTask k (unat (currentTask k)))"
    using assms(4) by (simp add: task_at_allocated)
  have 3: "PriorityMask (Priority (ContextTask k (unat (currentTask k)))) =
      Some (pbit (prio_of k (unat (currentTask k))))"
    using assms(5) by (simp add: PriorityMask_Some prio_of_def)
  show ?thesis
    unfolding OSMutexAcquire_def Let_def if_not_P [OF g(1)] if_not_P [OF g(2)] g(3) bind.bind_lunit
      if_not_P [OF g(4)] if_not_P [OF 1] 2 if_not_P [OF assms(6)] 3
    by simp
qed

text \<open>
  C14. Mutual exclusion: while a mutex is owned, no other task's acquire succeeds; it waits, or leaves
  with \<open>EXIT_BY_NO_RESOURCE_AVAILABLE\<close>, and the owner and the state of the mutex stay what they are.
\<close>

theorem OSMutexAcquire_excludes:
  assumes "get_mutex p k = Some e" "can_pend k xs e" "OSEventState e = BUSY_RESOURCE"
    "OSEventOwner e \<noteq> currentTask k" "ERROR_CHECK k \<longrightarrow> OSEventAllocated e = TRUE"
  defines "t \<equiv> unat (currentTask k)"
  shows "\<exists>r k' e'. OSMutexAcquire p w k = Some r \<and> get_mutex p k' = Some e' \<and>
    OSEventOwner e' = OSEventOwner e \<and> OSEventState e' = BUSY_RESOURCE \<and>
    (if w = NO_TIMEOUT then r = Return EXIT_BY_NO_RESOURCE_AVAILABLE k' \<and> e' = e
     else r = Wait t (Priority (ContextTask k t)) k' \<and> waiters e' = insert (prio_of k t) (waiters e) \<and>
       prios (OSReadyList k') = prios (OSReadyList k) - {prio_of k t})"
proof -
  note c = can_pendD [OF assms(2)]
  have ec: "ERROR_CHECK k \<longrightarrow> OSEventAllocated e = TRUE \<and> iNesting k = 0" using assms(5) c(2) by blast
  have ne: "currentTask k \<noteq> OSEventOwner e" using assms(4) by auto
  have nav: "OSEventState e \<noteq> AVAILABLE_RESOURCE" using assms(3) by (simp add: codes)
  note run = OSMutexAcquire_busy [OF assms(1) ec ne c(3,6) nav, of w, folded t_def]
  show ?thesis
  proof (cases "w = NO_TIMEOUT")
    case True
    define k' where "k' = ExitCritical (EnterCritical k)"
    have "get_mutex p k' = Some e" using assms(1) by (simp add: k'_def get_mutex_def)
    then show ?thesis using run True assms(3)
      by (intro exI [of _ "Return EXIT_BY_NO_RESOURCE_AVAILABLE k'"] exI [of _ k'] exI [of _ e])
        (simp add: k'_def)
  next
    case False
    define e' where "e' = wait_add (pbit (prio_of k t)) e"
    define k1 where "k1 = put_mutex p e' (EnterCritical k)"
    define k' where "k' = ExitCritical (suspend t (pbit (prio_of k t)) w k1)"
    have pt: "prio_of k t < 32" using c(6) by (simp add: t_def)
    have "get_mutex p k1 = Some e'"
      unfolding k1_def using assms(1) by (intro get_put_mutex [where e = e]) (simp add: get_mutex_def)
    then have g: "get_mutex p k' = Some e'" by (simp add: get_mutex_def k'_def)
    have r: "prios (OSReadyList k') = prios (OSReadyList k) - {prio_of k t}"
      using pt by (simp add: k'_def k1_def prios_clear)
    have "OSMutexAcquire p w k = Some (Wait t (Priority (ContextTask k t)) k')"
      using run False by (simp only: if_False k'_def k1_def e'_def)
    then show ?thesis using g r False assms(3) pt
      by (intro exI [of _ "Wait t (Priority (ContextTask k t)) k'"] exI [of _ k'] exI [of _ e'])
        (simp add: e'_def waiters_wait_add)
  qed
qed

subsection \<open>Acquire and release\<close>

lemma OSMutexRelease_guards:
  assumes "get_mutex p k = Some e" "ERROR_CHECK k \<longrightarrow> OSEventAllocated e = TRUE \<and> iNesting k = 0"
    "OSEventOwner e = currentTask k"
  shows "OSMutexRelease p k = do {
         k2 \<leftarrow> restore_priority e (EnterCritical k);
         let e1 = e\<lparr>OSEventOwner := 0\<rparr>;
         if OSEventWait e1 \<noteq> 0 then do {
           (iPriority, e2, k3) \<leftarrow> wake_highest e1 k2;
           new_owner \<leftarrow> prio_at iPriority k3;
           Some (OK, ExitCritical (ChangeContext (put_mutex p (e2\<lparr>OSEventOwner := new_owner\<rparr>) k3))) }
         else do {
           let k3 = put_mutex p (e1\<lparr>OSEventState := AVAILABLE_RESOURCE\<rparr>) k2;
           k4 \<leftarrow> (if OSMaxPriority e1 > 0 then set_vector (OSMaxPriority e1) MUTEX_PRIO k3 else Some k3);
           Some (OK, ExitCritical k4) } }"
proof -
  note g = OSMutexAcquire_guards [OF assms(1,2)]
  have 1: "\<not> OSEventOwner e \<noteq> currentTask (EnterCritical k)" using assms(3) by simp
  show ?thesis
    unfolding OSMutexRelease_def Let_def if_not_P [OF g(1)] if_not_P [OF g(2)] g(3) bind.bind_lunit
      if_not_P [OF g(4)] if_not_P [OF 1] ..
qed

text \<open>
  Only the owner releases: for any other task \<open>OSMutexRelease\<close> answers \<open>ERR_EVENT_OWNER\<close> and
  changes nothing.
\<close>

theorem OSMutexRelease_owner_only:
  assumes "get_mutex p k = Some e" "ERROR_CHECK k \<longrightarrow> OSEventAllocated e = TRUE \<and> iNesting k = 0"
    "OSEventOwner e \<noteq> currentTask k"
  shows "\<exists>k'. OSMutexRelease p k = Some (ERR_EVENT_OWNER, k') \<and> core k' = core k"
proof -
  note g = OSMutexAcquire_guards [OF assms(1,2)]
  have 1: "OSEventOwner e \<noteq> currentTask (EnterCritical k)" using assms(3) by simp
  have "OSMutexRelease p k = Some (ERR_EVENT_OWNER, ExitCritical (EnterCritical k))"
    unfolding OSMutexRelease_def Let_def if_not_P [OF g(1)] if_not_P [OF g(2)] g(3) bind.bind_lunit
      if_not_P [OF g(4)] if_P [OF 1] ..
  then show ?thesis by simp
qed

lemma restore_priority_same:
  assumes "allocated k (unat (currentTask k))" "Priority (ContextTask k (unat (currentTask k))) = OSOriginalPriority e"
  shows "restore_priority e k = Some k"
  using assms by (simp add: restore_priority_def task_at_allocated Let_def)

lemma restore_priority_run:
  assumes "allocated k (unat (currentTask k))" "prio_of k (unat (currentTask k)) < 32"
    "unat (OSOriginalPriority e) < 32"
    "Priority (ContextTask k (unat (currentTask k))) \<noteq> OSOriginalPriority e"
  shows "restore_priority e k = Some (upd_task (unat (currentTask k))
      (\<lambda>c. c\<lparr>Priority := OSOriginalPriority e\<rparr>)
      (k\<lparr>OSReadyList := OSReadyList k AND NOT (pbit (prio_of k (unat (currentTask k))))
         OR pbit (unat (OSOriginalPriority e))\<rparr>))"
  using assms by (simp add: restore_priority_def task_at_allocated Let_def PriorityMask_Some prio_of_def)

text \<open>A mutex nobody owns, with its ceiling, if it has one, reserved.\<close>

definition mutex_free :: "kernel \<Rightarrow> BRTOS_Mutex \<Rightarrow> bool" where
  "mutex_free k e \<longleftrightarrow> event_ok e \<and> waiters e = {} \<and> OSEventState e = AVAILABLE_RESOURCE \<and>
     (OSMaxPriority e > 0 \<longrightarrow> unat (OSMaxPriority e) < 32 \<and>
        PriorityVector k (unat (OSMaxPriority e)) = MUTEX_PRIO)"

text \<open>The running task, in the ready list under its priority.\<close>

definition running :: "kernel \<Rightarrow> nat \<Rightarrow> bool" where
  "running k t \<longleftrightarrow> t = unat (currentTask k) \<and> allocated k t \<and> bit (OSReadyList k) (prio_of k t)"

definition new_prio :: "BRTOS_Mutex \<Rightarrow> u8 \<Rightarrow> u8" where
  "new_prio e ip = (if OSMaxPriority e > ip then OSMaxPriority e else ip)"

lemma set_after_clear: "p < 32 \<Longrightarrow> q < 32 \<Longrightarrow>
    prios (w AND NOT (pbit p) OR pbit q) = insert q (prios w - {p})"
  by (simp add: prios_set prios_clear)

lemma acquire_free_state:
  assumes "sys_ok k xs" "iNesting k = 0" "running k t" "get_mutex p k = Some e" "mutex_free k e"
    "OSEventOwner e \<noteq> currentTask k" "ERROR_CHECK k \<longrightarrow> OSEventAllocated e = TRUE"
  defines "ip \<equiv> Priority (ContextTask k t)"
  defines "e1 \<equiv> e\<lparr>OSEventState := BUSY_RESOURCE, OSEventOwner := currentTask k, OSOriginalPriority := ip\<rparr>"
  obtains k1 where "OSMutexAcquire p w k = Some (Return OK k1)" "sys_ok k1 xs" "iNesting k1 = 0"
    "get_mutex p k1 = Some e1" "currentTask k1 = currentTask k" "ERROR_CHECK k1 = ERROR_CHECK k"
    "TaskAlloc k1 = TaskAlloc k" "OSBlockedList k1 = OSBlockedList k"
    "Priority (ContextTask k1 t) = new_prio e ip" "\<And>u. u \<noteq> t \<Longrightarrow> ContextTask k1 u = ContextTask k u"
    "OSReadyList k1 = (if OSMaxPriority e > ip
       then OSReadyList k AND NOT (pbit (unat ip)) OR pbit (unat (OSMaxPriority e)) else OSReadyList k)"
    "PriorityVector k1 = (if OSMaxPriority e > ip
       then (PriorityVector k)(unat (OSMaxPriority e) := currentTask k) else PriorityVector k)"
    "\<And>q. q \<noteq> p \<Longrightarrow> get_mutex q k1 = get_mutex q k"
proof -
  have ok: "tasks_ok k" "dlist k xs" "tick_ok k" "nestable k" "\<And>u. u \<in> set xs \<Longrightarrow> allocated k u"
    using sys_okD [OF assms(1)] by blast+
  have t: "t = unat (currentTask k)" "allocated k t" "bit (OSReadyList k) (prio_of k t)"
    using assms(3) unfolding running_def by blast+
  have ip: "unat ip = prio_of k t" "unat ip < 32" using tasks_okD(3) [OF ok(1) t(2)] by (simp_all add: ip_def prio_of_def)
  have ec: "ERROR_CHECK k \<longrightarrow> OSEventAllocated e = TRUE \<and> iNesting k = 0" using assms(2,7) by blast
  have av: "OSEventState e = AVAILABLE_RESOURCE" using assms(5) by (simp add: mutex_free_def)
  define k0 where "k0 = put_mutex p e1 (EnterCritical k)"
  have run: "OSMutexAcquire p w k = Option.bind (raise_priority t ip (OSMaxPriority e) k0) (\<lambda>k2. Some (Return OK (ExitCritical k2)))"
    using OSMutexAcquire_free [OF assms(4) ec _ _ av, of w] assms(6) t(1,2)
    by (simp add: k0_def e1_def ip_def)
  have ge: "get_mutex p (EnterCritical k) = Some e" using assms(4) by (simp add: get_mutex_def)
  have g0: "get_mutex p k0 = Some e1" unfolding k0_def by (rule get_put_mutex [OF ge])
  have o0: "get_mutex q k0 = get_mutex q k" if "q \<noteq> p" for q
    using get_put_mutex_other [OF that, of e1 "EnterCritical k"] by (simp add: k0_def get_mutex_def)
  have n0: "iNesting k0 = 1" by (simp add: k0_def assms(2))
  have s0: "sys_ok k0 xs" unfolding k0_def by (intro sys_ok_put_mutex sys_ok_Enter [OF assms(1)]) (simp add: assms(2))
  show thesis
  proof (cases "OSMaxPriority e > ip")
    case False
    define k1 where "k1 = ExitCritical k0"
    have r: "OSMutexAcquire p w k = Some (Return OK k1)"
      using run raise_priority_none [OF False] by (simp add: k1_def)
    have s1: "sys_ok k1 xs" unfolding k1_def by (rule sys_ok_Exit [OF s0])
    have g1: "get_mutex p k1 = Some e1" using g0 by (simp add: k1_def get_mutex_def)
    have n1: "iNesting k1 = 0" using n0 by (simp add: k1_def iNesting_ExitCritical)
    show thesis
      by (rule that [OF r s1 n1 g1]) (use False o0 in \<open>simp_all add: k1_def k0_def new_prio_def ip_def get_mutex_def\<close>)
  next
    case True
    let ?m = "OSMaxPriority e"
    have m: "unat ?m < 32" "PriorityVector k (unat ?m) = MUTEX_PRIO"
      using True assms(5) by (auto simp: mutex_free_def word_less_nat_alt)
    define k2 where "k2 = (upd_task t (\<lambda>c. c\<lparr>Priority := ?m\<rparr>) k0)
      \<lparr>PriorityVector := (PriorityVector k0)(unat ?m := currentTask k0),
       OSReadyList := OSReadyList k0 AND NOT (pbit (unat ip)) OR pbit (unat ?m)\<rparr>"
    define k1 where "k1 = ExitCritical k2"
    have r: "OSMutexAcquire p w k = Some (Return OK k1)"
      using run raise_priority_run [OF m(1) ip(2) True, of t k0] by (simp add: k1_def k2_def)
    have tk: "tasks_ok k2"
    proof (rule move_tasks_ok [OF ok(1) t(2) m(1)])
      show "u = t" if "allocated k u" "prio_of k u = unat ?m" for u
        using reserved_free(1) [OF ok(1) m(2) that(1)] that(2) by simp
      show "vec k2 (unat ?m) = t" by (simp add: vec_def k2_def k0_def t(1))
      show "prios (OSReadyList k2) \<subseteq> insert (unat ?m) (prios (OSReadyList k) - {prio_of k t})"
        using ip m(1) by (simp add: k2_def k0_def set_after_clear)
      show "prio_of k2 u = (if u = t then unat ?m else prio_of k u)" for u
        by (simp add: k2_def k0_def prio_of_def)
      show "PriorityVector k2 q = PriorityVector k q \<or> PriorityVector k2 q = MUTEX_PRIO \<and> q = prio_of k t"
        if "q \<noteq> unat ?m" for q using that by (simp add: k2_def k0_def)
    qed (simp_all add: k2_def k0_def)
    have d2: "dlist k2 xs" by (rule dlist_cong [OF ok(2)]) (simp_all add: k2_def k0_def)
    have n1: "iNesting k1 = 0" using n0 by (simp add: k1_def k2_def iNesting_ExitCritical)
    have s1: "sys_ok k1 xs"
    proof (rule sys_ok_coreI [OF tk d2])
      show "tick_ok k2" using ok(3) by (simp add: tick_ok_def k2_def k0_def)
      show "allocated k2 u" if "u \<in> set xs" for u using ok(5) [OF that] by (simp add: allocated_def k2_def k0_def)
      show "core k1 = core k2" by (simp add: k1_def)
      show "nestable k1" using n1 by (simp add: nestable_def)
    qed
    have g1: "get_mutex p k1 = Some e1" using g0 by (simp add: k1_def k2_def get_mutex_def)
    show thesis
      by (rule that [OF r s1 n1 g1]) (use True o0 in \<open>simp_all add: k1_def k2_def k0_def new_prio_def get_mutex_def\<close>)
  qed
qed

text \<open>The owner back at priority \<open>ip\<close>, in a critical section, when the mutex had raised it to \<open>m\<close>.\<close>

definition back_at :: "u8 \<Rightarrow> u8 \<Rightarrow> nat \<Rightarrow> kernel \<Rightarrow> kernel" where
  "back_at m ip t k = (if m > ip then upd_task t (\<lambda>c. c\<lparr>Priority := ip\<rparr>)
      ((EnterCritical k)\<lparr>OSReadyList := OSReadyList k AND NOT (pbit (unat m)) OR pbit (unat ip)\<rparr>)
     else EnterCritical k)"

lemma restore_raised:
  assumes "allocated k t" "unat (currentTask k) = t" "Priority (ContextTask k t) = new_prio e ip" "unat ip < 32"
    "OSMaxPriority e > ip \<Longrightarrow> unat (OSMaxPriority e) < 32" "OSMaxPriority e1 = OSMaxPriority e" "OSOriginalPriority e1 = ip"
  shows "restore_priority e1 (EnterCritical k) = Some (back_at (OSMaxPriority e) ip t k)"
proof (cases "OSMaxPriority e > ip")
  case True
  have p: "Priority (ContextTask k t) = OSMaxPriority e" using True by (simp add: assms(3) new_prio_def)
  have "restore_priority e1 (EnterCritical k) = Some (upd_task t (\<lambda>c. c\<lparr>Priority := OSOriginalPriority e1\<rparr>)
    ((EnterCritical k)\<lparr>OSReadyList := OSReadyList k AND NOT (pbit (prio_of k t)) OR pbit (unat (OSOriginalPriority e1))\<rparr>))"
    using restore_priority_run [of "EnterCritical k" e1] assms(1,4,7) p True assms(5) [OF True] by (simp add: assms(2) allocated_def prio_of_def)
  then show ?thesis using True p by (simp add: assms(7) back_at_def prio_of_def)
next
  case False
  have p: "Priority (ContextTask k t) = ip" using False by (simp add: assms(3) new_prio_def)
  show ?thesis using restore_priority_same [of "EnterCritical k" e1] assms(1,7) False p by (simp add: assms(2) allocated_def back_at_def)
qed

lemma back_at_frame [simp]:
  "ERROR_CHECK (back_at m ip t k) = ERROR_CHECK k" "PriorityVector (back_at m ip t k) = PriorityVector k"
  "BRTOS_Mutex_Table (back_at m ip t k) = BRTOS_Mutex_Table k" "TaskAlloc (back_at m ip t k) = TaskAlloc k"
  "u \<noteq> t \<Longrightarrow> ContextTask (back_at m ip t k) u = ContextTask k u"
  by (simp_all add: back_at_def)

lemma back_at_ready:
  assumes "tasks_ok k" "bit (OSReadyList k) (unat ip)" "unat ip < 32" "m > ip \<Longrightarrow> unat m < 32 \<and> PriorityVector k (unat m) = MUTEX_PRIO"
    "OSReadyList k1 = (if m > ip then OSReadyList k AND NOT (pbit (unat ip)) OR pbit (unat m) else OSReadyList k)"
  shows "OSReadyList (back_at m ip t k1) = OSReadyList k"
proof (cases "m > ip")
  case True
  have nr: "unat m \<notin> prios (OSReadyList k)" by (rule reserved_free(2) [OF assms(1)]) (use assms(4) True in simp)
  have "prios (OSReadyList (back_at m ip t k1)) = prios (OSReadyList k)"
    using True assms(2-4) nr by (auto simp: back_at_def assms(5) set_after_clear bits)
  then show ?thesis by (rule prios_eqI)
qed (simp add: back_at_def assms(5))

text \<open>
  C15. Acquiring a free mutex makes the caller its owner and moves it, in the ready list and in
  \<open>PriorityVector\<close>, to the ceiling if that is higher; the kernel's invariant is kept. Releasing it with
  nobody waiting undoes all of it: priority, ready list, \<open>PriorityVector\<close> with the ceiling reserved
  again, and the mutex free.
\<close>

theorem OSMutex_round_trip:
  assumes "sys_ok k xs" "iNesting k = 0" "running k t" "get_mutex p k = Some e" "mutex_free k e"
    "OSEventOwner e \<noteq> currentTask k" "ERROR_CHECK k \<longrightarrow> OSEventAllocated e = TRUE"
  shows "\<exists>k1 k2 e2. OSMutexAcquire p w k = Some (Return OK k1) \<and> sys_ok k1 xs \<and> running k1 t \<and>
    prio_of k1 t = max (prio_of k t) (unat (OSMaxPriority e)) \<and>
    OSMutexRelease p k1 = Some (OK, k2) \<and> get_mutex p k2 = Some e2 \<and> mutex_free k2 e2 \<and>
    OSEventOwner e2 = 0 \<and> OSReadyList k2 = OSReadyList k \<and> PriorityVector k2 = PriorityVector k \<and>
    Priority (ContextTask k2 t) = Priority (ContextTask k t) \<and>
    (\<forall>u. u \<noteq> t \<longrightarrow> ContextTask k2 u = ContextTask k u)"
proof -
  define ip where "ip = Priority (ContextTask k t)"
  let ?m = "OSMaxPriority e"
  define e1 where "e1 = e\<lparr>OSEventState := BUSY_RESOURCE, OSEventOwner := currentTask k, OSOriginalPriority := ip\<rparr>"
  have ok: "tasks_ok k" by (rule sys_okD(1) [OF assms(1)])
  have t: "t = unat (currentTask k)" "allocated k t" "bit (OSReadyList k) (prio_of k t)"
    using assms(3) unfolding running_def by blast+
  have ip: "unat ip = prio_of k t" "unat ip < 32" using tasks_okD(3) [OF ok t(2)] by (simp_all add: ip_def prio_of_def)
  obtain k1 where k1: "OSMutexAcquire p w k = Some (Return OK k1)" "sys_ok k1 xs" "iNesting k1 = 0"
    "get_mutex p k1 = Some e1" "currentTask k1 = currentTask k" "ERROR_CHECK k1 = ERROR_CHECK k"
    "TaskAlloc k1 = TaskAlloc k"
    "Priority (ContextTask k1 t) = new_prio e ip" "\<And>u. u \<noteq> t \<Longrightarrow> ContextTask k1 u = ContextTask k u"
    "OSReadyList k1 = (if ?m > ip then OSReadyList k AND NOT (pbit (unat ip)) OR pbit (unat ?m) else OSReadyList k)"
    "PriorityVector k1 = (if ?m > ip then (PriorityVector k)(unat ?m := currentTask k) else PriorityVector k)"
    unfolding ip_def e1_def by (rule acquire_free_state [OF assms]) blast
  have a1: "allocated k1 t" using t(2) by (simp add: allocated_def k1(7))
  have np: "prio_of k1 t = max (prio_of k t) (unat ?m)"
    using ip(1) by (simp add: prio_of_def k1(8) new_prio_def max_def word_less_nat_alt)
  have ec: "ERROR_CHECK k1 \<longrightarrow> OSEventAllocated e1 = TRUE \<and> iNesting k1 = 0"
    using assms(7) k1(3) by (simp add: k1(6) e1_def)
  have ow: "OSEventOwner e1 = currentTask k1" by (simp add: e1_def k1(5))
  have nw: "OSEventWait e1 = 0" using assms(5) by (simp add: mutex_free_def event_ok_no_waiters e1_def)
  have mx: "?m > 0 \<Longrightarrow> unat ?m < 32" "?m > 0 \<Longrightarrow> PriorityVector k (unat ?m) = MUTEX_PRIO"
    using assms(5) by (auto simp: mutex_free_def)
  have pos: "?m > ip \<Longrightarrow> ?m > 0" by (simp add: word_less_nat_alt)
  define e2 where "e2 = e1\<lparr>OSEventOwner := 0, OSEventState := AVAILABLE_RESOURCE\<rparr>"
  have b1: "bit (OSReadyList k1) (prio_of k1 t)"
    using t(3) ip np mx(1) pos by (auto simp: k1(10) bit_or_iff bits max_def word_less_nat_alt)
  define k2 where "k2 = back_at ?m ip t k1"
  have res: "restore_priority e1 (EnterCritical k1) = Some k2"
    unfolding k2_def by (rule restore_raised [OF a1 _ k1(8) ip(2)]) (use mx(1) pos in \<open>simp_all add: k1(5) t(1) e1_def\<close>)
  define k3 where "k3 = put_mutex p e2 k2"
  define k4 where "k4 = (if ?m > 0 then k3\<lparr>PriorityVector := (PriorityVector k3)(unat ?m := MUTEX_PRIO)\<rparr> else k3)"
  define k5 where "k5 = ExitCritical k4"
  have sv: "(if ?m > 0 then set_vector ?m MUTEX_PRIO k3 else Some k3) = Some k4"
    using mx(1) by (simp add: k4_def set_vector_def prio_at_def config)
  have w0: "\<not> OSEventWait (e1\<lparr>OSEventOwner := 0\<rparr>) \<noteq> 0" using nw by simp
  have m1: "OSMaxPriority (e1\<lparr>OSEventOwner := 0\<rparr>) = ?m" by (simp add: e1_def)
  have rel: "OSMutexRelease p k1 = Some (OK, k5)"
    unfolding OSMutexRelease_guards [OF k1(4) ec ow] res bind.bind_lunit Let_def if_not_P [OF w0]
      k3_def [unfolded e2_def, symmetric] m1 sv k5_def ..
  have g2: "get_mutex p k2 = Some e1" using k1(4) by (simp add: k2_def get_mutex_def)
  then have "get_mutex p k3 = Some e2" unfolding k3_def by (rule get_put_mutex)
  then have g5: "get_mutex p k5 = Some e2" by (simp add: k5_def k4_def get_mutex_def)
  have pv: "PriorityVector k5 = PriorityVector k"
    using mx(2) pos by (auto simp: k5_def k4_def k3_def k2_def k1(11) fun_eq_iff)
  have "OSReadyList k2 = OSReadyList k"
    unfolding k2_def by (rule back_at_ready [OF ok _ ip(2) _ k1(10)]) (use t(3) ip(1) mx pos in simp_all)
  then have rl: "OSReadyList k5 = OSReadyList k" by (simp add: k5_def k4_def k3_def)
  have pr: "Priority (ContextTask k5 t) = ip"
    using k1(8) by (simp add: k5_def k4_def k3_def k2_def back_at_def new_prio_def)
  have ot: "\<forall>u. u \<noteq> t \<longrightarrow> ContextTask k5 u = ContextTask k u"
    using k1(9) by (simp add: k5_def k4_def k3_def k2_def)
  have mf: "mutex_free k5 e2"
    using assms(5) by (simp add: mutex_free_def e2_def e1_def pv event_ok_def waiters_def)
  have "running k1 t" using a1 b1 by (simp add: running_def k1(5) t(1))
  then show ?thesis
    using k1(1,2) np rel g5 mf rl pv pr ot
    by (intro exI [of _ k1] exI [of _ k5] exI [of _ e2]) (simp add: e2_def ip_def)
qed

subsection \<open>Handing over\<close>

text \<open>The owner back at the priority it had before.\<close>

lemma restore_state:
  assumes "sys_ok k xs" "running k t" "unat (OSOriginalPriority e) < 32" "vec k (unat (OSOriginalPriority e)) = t"
  defines "orig \<equiv> unat (OSOriginalPriority e)"
  obtains k2 where "restore_priority e k = Some k2" "sys_ok k2 xs" "BRTOS_Mutex_Table k2 = BRTOS_Mutex_Table k"
    "prios (OSReadyList k2) = insert orig (prios (OSReadyList k) - {prio_of k t})" "TaskAlloc k2 = TaskAlloc k"
    "prio_of k2 t = orig" "\<And>u. u \<noteq> t \<Longrightarrow> prio_of k2 u = prio_of k u" "PriorityVector k2 = PriorityVector k"
    "iNesting k2 = iNesting k"
proof -
  have ok: "tasks_ok k" "dlist k xs" "tick_ok k" "nestable k" "\<And>u. u \<in> set xs \<Longrightarrow> allocated k u"
    using sys_okD [OF assms(1)] by blast+
  have t: "t = unat (currentTask k)" "allocated k t" "bit (OSReadyList k) (prio_of k t)"
    using assms(2) unfolding running_def by blast+
  have pt: "prio_of k t < 32" by (rule tasks_okD(3) [OF ok(1) t(2)])
  have orig: "orig < 32" "vec k orig = t" using assms(3,4) by (simp_all add: orig_def)
  have up: "unat (Priority (ContextTask k t)) = prio_of k t" by (simp add: prio_of_def)
  show thesis
  proof (cases "Priority (ContextTask k t) = OSOriginalPriority e")
    case True
    then have "prio_of k t = orig" by (simp add: prio_of_def orig_def)
    then show thesis
      using that [of k] restore_priority_same [of k e] True t assms(1) insert_absorb [of orig "prios (OSReadyList k)"]
      by (simp add: bits)
  next
    case False
    define k2 where "k2 = upd_task t (\<lambda>c. c\<lparr>Priority := OSOriginalPriority e\<rparr>)
      (k\<lparr>OSReadyList := OSReadyList k AND NOT (pbit (prio_of k t)) OR pbit orig\<rparr>)"
    have r: "restore_priority e k = Some k2"
      using restore_priority_run [of k e] False t(1,2) pt assms(3) by (simp add: k2_def orig_def)
    have rl: "prios (OSReadyList k2) = insert orig (prios (OSReadyList k) - {prio_of k t})"
      using set_after_clear [OF pt orig(1)] by (simp add: k2_def)
    have pr: "prio_of k2 u = (if u = t then orig else prio_of k u)" for u by (simp add: k2_def prio_of_def orig_def)
    have tk: "tasks_ok k2"
    proof (rule move_tasks_ok [OF ok(1) t(2) orig(1)])
      show "u = t" if "allocated k u" "prio_of k u = orig" for u using tasks_okD(4) [OF ok(1) that(1)] that(2) orig(2) by simp
      show "vec k2 orig = t" using orig(2) by (simp add: vec_def k2_def)
      show "prio_of k2 u = (if u = t then orig else prio_of k u)" for u by (rule pr)
      show "PriorityVector k2 q = PriorityVector k q \<or> PriorityVector k2 q = MUTEX_PRIO \<and> q = prio_of k t" for q
        by (simp add: k2_def)
    qed (simp_all add: rl, simp_all add: k2_def)
    have "sys_ok k2 xs"
    proof (rule sys_ok_coreI [OF tk])
      show "dlist k2 xs" by (rule dlist_cong [OF ok(2)]) (simp_all add: k2_def)
      show "tick_ok k2" using ok(3) by (simp add: tick_ok_def k2_def)
      show "allocated k2 u" if "u \<in> set xs" for u using ok(5) [OF that] by (simp add: allocated_def k2_def)
      show "nestable k2" using ok(4) by (simp add: nestable_def k2_def)
    qed simp
    then show thesis using that [OF r] rl pr by (simp add: k2_def)
  qed
qed

text \<open>
  C16. Releasing a mutex others wait for hands it over: its new owner is the waiter of highest
  priority, now ready and off the wait list, the mutex stays busy, and the old owner is back at the
  priority it had when it acquired. The kernel's invariant is kept.
\<close>

theorem OSMutexRelease_hands_over:
  assumes "sys_ok k xs" "iNesting k = 0" "running k t" "get_mutex p k = Some e" "event_ok e" "waiters e \<noteq> {}"
    "waiters_are_tasks k e" "prio_of k t \<notin> waiters e" "OSEventOwner e = currentTask k"
    "ERROR_CHECK k \<longrightarrow> OSEventAllocated e = TRUE"
    "unat (OSOriginalPriority e) < 32" "vec k (unat (OSOriginalPriority e)) = t"
  defines "m \<equiv> Max (waiters e)" and "orig \<equiv> unat (OSOriginalPriority e)"
  shows "\<exists>k' e' u. OSMutexRelease p k = Some (OK, k') \<and> get_mutex p k' = Some e' \<and>
    unat (OSEventOwner e') = u \<and> allocated k u \<and> prio_of k u = m \<and>
    OSEventState e' = OSEventState e \<and> event_ok e' \<and> waiters e' = waiters e - {m} \<and>
    prio_of k' t = orig \<and> prios (OSReadyList k') = {m, orig} \<union> (prios (OSReadyList k) - {prio_of k t}) \<and>
    sys_ok k' xs"
proof -
  have ec: "ERROR_CHECK k \<longrightarrow> OSEventAllocated e = TRUE \<and> iNesting k = 0" using assms(2,10) by blast
  have m: "m \<in> waiters e" "m < 32" using Max_in [OF waiters_finite assms(6)] waiters_bound by (auto simp: m_def)
  have mm: "unat (SAScheduler (OSEventWaitList e)) = m" using wq.best_Max [OF assms(6)] by (simp add: m_def)
  obtain u where u: "allocated k u" "prio_of k u = m"
    using assms(7) m(1) unfolding waiters_are_tasks_def by blast
  have ut: "u \<noteq> t" using u(2) m(1) assms(8) by auto
  have vu: "vec k m = u" using tasks_okD(4) [OF sys_okD(1) [OF assms(1)] u(1)] u(2) by simp
  have s1: "sys_ok (EnterCritical k) xs" by (rule sys_ok_Enter [OF assms(1)]) (simp add: assms(2))
  have r1: "running (EnterCritical k) t"
    using assms(3) unfolding running_def allocated_def prio_of_def EnterCritical_frame by blast
  have v1: "vec (EnterCritical k) (unat (OSOriginalPriority e)) = t" using assms(12) by (simp add: vec_def)
  obtain k2 where k2: "restore_priority e (EnterCritical k) = Some k2" "sys_ok k2 xs"
    "BRTOS_Mutex_Table k2 = BRTOS_Mutex_Table k"
    "prios (OSReadyList k2) = insert orig (prios (OSReadyList k) - {prio_of k t})" "TaskAlloc k2 = TaskAlloc k"
    "prio_of k2 t = orig" "\<And>u. u \<noteq> t \<Longrightarrow> prio_of k2 u = prio_of k u" "PriorityVector k2 = PriorityVector k"
    by (rule restore_state [OF s1 r1 assms(11) v1]) (simp add: orig_def prio_of_def)
  define e1 where "e1 = e\<lparr>OSEventOwner := 0\<rparr>"
  have w1: "OSEventWait e1 \<noteq> 0" using assms(5,6) by (simp add: e1_def event_ok_no_waiters)
  define k3 where "k3 = k2\<lparr>OSReadyList := OSReadyList k2 OR pbit m\<rparr>"
  have wk: "wake_highest e1 k2 = Some (SAScheduler (OSEventWaitList e), wait_del (pbit m) e1, k3)"
    using mm by (simp add: wake_highest_Some e1_def k3_def)
  have pa: "prio_at (SAScheduler (OSEventWaitList e)) k3 = Some (PriorityVector k m)"
    using m(2) mm by (simp add: prio_at_def config k3_def k2(8))
  define e' where "e' = (wait_del (pbit m) e1)\<lparr>OSEventOwner := PriorityVector k m\<rparr>"
  define k' where "k' = ExitCritical (ChangeContext (put_mutex p e' k3))"
  have run: "OSMutexRelease p k = Some (OK, k')"
    unfolding OSMutexRelease_guards [OF assms(4) ec assms(9)] k2(1) bind.bind_lunit Let_def
      if_P [OF w1 [unfolded e1_def]] wk [unfolded e1_def] prod.case pa k'_def e'_def e1_def ..
  have "get_mutex p k3 = Some e" using assms(4) k2(3) by (simp add: get_mutex_def k3_def)
  then have "get_mutex p (put_mutex p e' k3) = Some e'" by (rule get_put_mutex)
  then have g: "get_mutex p k' = Some e'" by (simp add: k'_def get_mutex_def)
  have e1: "event_ok e1" "waiters e1 = waiters e" using assms(5) by (simp_all add: e1_def event_ok_def waiters_def)
  have ev: "event_ok e'" "waiters e' = waiters e - {m}"
    using event_ok_wait_del [OF e1(1)] waiters_wait_del [OF m(2), of e1] e1(2) m(1)
    by (simp_all add: e'_def event_ok_def waiters_def)
  have "allocated k2 u \<and> prio_of k2 u = m" using u k2(7) [OF ut] by (simp add: allocated_def k2(5))
  then have "sys_ok k3 xs" unfolding k3_def using wake_sys_ok [OF k2(2) _ m(2)] by blast
  then have s: "sys_ok k' xs" unfolding k'_def by (intro sys_ok_Exit sys_ok_request sys_ok_put_mutex)
  have rl: "prios (OSReadyList k') = {m, orig} \<union> (prios (OSReadyList k) - {prio_of k t})"
    using m(2) by (auto simp: k'_def k3_def prios_set k2(4))
  have ow: "unat (OSEventOwner e') = u" using vu by (simp add: e'_def vec_def)
  have st: "OSEventState e' = OSEventState e" by (simp add: e'_def e1_def)
  have pr: "prio_of k' t = orig" using k2(6) by (simp add: k'_def k3_def prio_of_def)
  show ?thesis
    by (intro exI [of _ k'] exI [of _ e'] exI [of _ u] conjI run g ow u st ev pr rl s)
qed

subsection \<open>Create\<close>

lemma reserve_tasks_ok:
  assumes "tasks_ok k" "PriorityVector k h = EMPTY_PRIO"
  shows "tasks_ok (k\<lparr>PriorityVector := (PriorityVector k)(h := MUTEX_PRIO)\<rparr>)"
proof -
  let ?k = "k\<lparr>PriorityVector := (PriorityVector k)(h := MUTEX_PRIO)\<rparr>"
  have nb: "\<not> allocated k (vec k h)" using allocated_bounds [of k "vec k h"] assms(2) by (auto simp: vec_def codes)
  then have nh: "prio_of k u \<noteq> h" if "allocated k u" for u using tasks_okD(4) [OF assms(1) that] that by auto
  have hr: "h \<notin> prios (OSReadyList k)" using tasks_okD(6) [OF assms(1)] nb by blast
  have al: "allocated ?k u = allocated k u" "prio_of ?k u = prio_of k u" for u
    by (simp_all add: allocated_def prio_of_def)
  have ve: "vec ?k q = vec k q" if "q \<noteq> h" for q using that by (simp add: vec_def)
  have "allocated k (vec ?k q) \<and> prio_of k (vec ?k q) = q" if "q \<in> prios (OSReadyList k)" for q
    using tasks_okD(6,7) [OF assms(1) that] ve [of q] hr that by metis
  moreover have "vec ?k (prio_of k u) = u" if "allocated k u" for u
    using tasks_okD(4) [OF assms(1) that] ve nh [OF that] by simp
  moreover have "PriorityVector ?k q = EMPTY_PRIO \<or> PriorityVector ?k q = MUTEX_PRIO \<or> allocated k (vec ?k q)"
    if "q < 32" for q
    using tasks_okD(5) [OF assms(1) that] ve [of q] by (cases "q = h") auto
  ultimately show ?thesis unfolding tasks_ok_def al using tasks_okD [OF assms(1)] by simp
qed

lemma OSMutexCreate_run:
  assumes "iNesting k = 0" "0 < h" "unat h < 32" "PriorityVector k (unat h) = EMPTY_PRIO"
  shows "OSMutexCreate event h k =
    (let k2 = (EnterCritical_if_task k)\<lparr>PriorityVector := (PriorityVector k)(unat h := MUTEX_PRIO)\<rparr> in
     case find_free 0 BRTOS_MAX_MUTEX (BRTOS_Mutex_Table k) of
       None \<Rightarrow> Some (NO_AVAILABLE_EVENT, event, ExitCritical_if_task k2)
     | Some i \<Rightarrow> Some (ALLOC_EVENT_OK, Some i, ExitCritical_if_task (put_mutex (Some i)
         ((BRTOS_Mutex_Table k i)\<lparr>OSEventAllocated := TRUE, OSEventState := AVAILABLE_RESOURCE, OSEventWait := 0,
           OSMaxPriority := h, OSEventWaitList := 0\<rparr>) k2)))"
  using assms by (simp add: OSMutexCreate_def Let_def set_vector_def prio_at_def config split: option.split)

text \<open>
  \<open>OSMutexCreate\<close> with an unused ceiling reserves that priority and returns a free mutex. When
  no control block is left it answers \<open>NO_AVAILABLE_EVENT\<close> but the priority stays reserved, without
  a mutex that could ever give it back.
\<close>

theorem OSMutexCreate_reserves:
  assumes "sys_ok k xs" "iNesting k = 0" "0 < h" "unat h < 32" "PriorityVector k (unat h) = EMPTY_PRIO"
  shows "\<exists>ret p k'. OSMutexCreate event h k = Some (ret, p, k') \<and> tasks_ok k' \<and>
    PriorityVector k' = (PriorityVector k)(unat h := MUTEX_PRIO) \<and>
    (if \<forall>i < BRTOS_MAX_MUTEX. OSEventAllocated (BRTOS_Mutex_Table k i) = TRUE
     then ret = NO_AVAILABLE_EVENT \<and> p = event \<and> BRTOS_Mutex_Table k' = BRTOS_Mutex_Table k
     else ret = ALLOC_EVENT_OK \<and> (\<exists>i e. p = Some i \<and> get_mutex p k' = Some e \<and> mutex_free k' e \<and>
       OSEventAllocated (BRTOS_Mutex_Table k i) \<noteq> TRUE \<and> OSMaxPriority e = h \<and> OSEventAllocated e = TRUE))"
proof -
  note run = OSMutexCreate_run [OF assms(2-5), of event]
  define k2 where "k2 = (EnterCritical_if_task k)\<lparr>PriorityVector := (PriorityVector k)(unat h := MUTEX_PRIO)\<rparr>"
  have "tasks_ok (k\<lparr>PriorityVector := (PriorityVector k)(unat h := MUTEX_PRIO)\<rparr>)"
    by (rule reserve_tasks_ok [OF sys_okD(1) [OF assms(1)] assms(5)])
  then have tk: "tasks_ok k'" if "TaskAlloc k' = TaskAlloc k" "ContextTask k' = ContextTask k"
    "PriorityVector k' = (PriorityVector k)(unat h := MUTEX_PRIO)"
    "NumberOfInstalledTasks k' = NumberOfInstalledTasks k" "OSReadyList k' = OSReadyList k" for k'
    by (rule tasks_ok_cong) (use that in \<open>simp_all add: prio_of_def\<close>)
  show ?thesis
  proof (cases "find_free 0 BRTOS_MAX_MUTEX (BRTOS_Mutex_Table k)")
    case None
    then have full: "\<forall>i < BRTOS_MAX_MUTEX. OSEventAllocated (BRTOS_Mutex_Table k i) = TRUE"
      by (simp add: find_free_None)
    define k' where "k' = ExitCritical_if_task k2"
    have r: "OSMutexCreate event h k = Some (NO_AVAILABLE_EVENT, event, k')"
      using run None by (simp add: k'_def k2_def Let_def)
    have "tasks_ok k'" by (rule tk) (simp_all add: k'_def k2_def)
    then show ?thesis using full
      by (intro exI [of _ NO_AVAILABLE_EVENT] exI [of _ event] exI [of _ k'] conjI r)
        (simp_all add: k'_def k2_def)
  next
    case (Some i)
    note i = find_free_Some [OF Some]
    have nf: "(\<forall>i < BRTOS_MAX_MUTEX. OSEventAllocated (BRTOS_Mutex_Table k i) = TRUE) = False" using i by blast
    define e where "e = (BRTOS_Mutex_Table k i)\<lparr>OSEventAllocated := TRUE, OSEventState := AVAILABLE_RESOURCE,
      OSEventWait := 0, OSMaxPriority := h, OSEventWaitList := 0\<rparr>"
    define k' where "k' = ExitCritical_if_task (put_mutex (Some i) e k2)"
    have r: "OSMutexCreate event h k = Some (ALLOC_EVENT_OK, Some i, k')"
      using run Some by (simp add: k'_def k2_def e_def Let_def)
    have t: "tasks_ok k'" by (rule tk) (simp_all add: k'_def k2_def put_mutex_def)
    have pv: "PriorityVector k' = (PriorityVector k)(unat h := MUTEX_PRIO)" by (simp add: k'_def k2_def)
    have g: "get_mutex (Some i) k' = Some e" using i by (simp add: k'_def put_mutex_def get_mutex_def)
    have e: "OSEventAllocated e = TRUE" "OSMaxPriority e = h" "mutex_free k' e"
      using pv assms(4) by (simp_all add: e_def mutex_free_def event_ok_def waiters_def)
    show ?thesis
      by (intro exI [of _ ALLOC_EVENT_OK] exI [of _ "Some i"] exI [of _ k'] conjI r t pv,
          simp only: nf if_False)
        (use g e i in blast)
  qed
qed

subsection \<open>Two nested mutexes\<close>

text \<open>A release nobody waits for.\<close>

lemma release_alone:
  assumes g: "get_mutex p k = Some e" and n: "iNesting k = 0" and ec: "ERROR_CHECK k \<longrightarrow> OSEventAllocated e = TRUE"
    and own: "OSEventOwner e = currentTask k" and w: "OSEventWait e = 0"
    and t: "t = unat (currentTask k)" "allocated k t" "prio_of k t < 32" "prio_of k t \<in> prios (OSReadyList k)"
    and lim: "unat (OSOriginalPriority e) < 32" "unat (OSMaxPriority e) < 32"
  obtains k' where "OSMutexRelease p k = Some (OK, k')"
    "prios (OSReadyList k') = insert (unat (OSOriginalPriority e)) (prios (OSReadyList k) - {prio_of k t})"
    "PriorityVector k' = (if OSMaxPriority e > 0 then (PriorityVector k)(unat (OSMaxPriority e) := MUTEX_PRIO) else PriorityVector k)"
    "Priority (ContextTask k' t) = OSOriginalPriority e" "currentTask k' = currentTask k" "ERROR_CHECK k' = ERROR_CHECK k"
    "TaskAlloc k' = TaskAlloc k" "OSBlockedList k' = OSBlockedList k" "iNesting k' = 0" "\<And>q. q \<noteq> p \<Longrightarrow> get_mutex q k' = get_mutex q k"
proof -
  let ?k = "EnterCritical k"
  define k2 where "k2 = (if Priority (ContextTask k t) = OSOriginalPriority e then ?k
    else upd_task t (\<lambda>c. c\<lparr>Priority := OSOriginalPriority e\<rparr>) (?k\<lparr>OSReadyList := OSReadyList k AND NOT (pbit (prio_of k t))
         OR pbit (unat (OSOriginalPriority e))\<rparr>))"
  have a: "allocated ?k (unat (currentTask ?k))" "prio_of ?k (unat (currentTask ?k)) < 32" "prio_of ?k (unat (currentTask ?k)) = prio_of k t"
    using t by (simp_all add: allocated_def prio_of_def)
  have res: "restore_priority e ?k = Some k2"
    using restore_priority_same [OF a(1), of e] restore_priority_run [OF a(1,2) lim(1)] t(1) unfolding a(3) by (simp add: k2_def)
  have f: "BRTOS_Mutex_Table k2 = BRTOS_Mutex_Table k" "PriorityVector k2 = PriorityVector k" "Priority (ContextTask k2 t) = OSOriginalPriority e"
    "currentTask k2 = currentTask k" "ERROR_CHECK k2 = ERROR_CHECK k" "TaskAlloc k2 = TaskAlloc k" "OSBlockedList k2 = OSBlockedList k"
    "iNesting k2 = 1" using n by (simp_all add: k2_def)
  have rl: "prios (OSReadyList k2) = insert (unat (OSOriginalPriority e)) (prios (OSReadyList k) - {prio_of k t})"
    using t(3,4) lim(1) by (auto simp: k2_def set_after_clear prio_of_def)
  define k3 where "k3 = put_mutex p (e\<lparr>OSEventOwner := 0, OSEventState := AVAILABLE_RESOURCE\<rparr>) k2"
  define k4 where "k4 = (if OSMaxPriority e > 0 then k3\<lparr>PriorityVector := (PriorityVector k3)(unat (OSMaxPriority e) := MUTEX_PRIO)\<rparr> else k3)"
  have ec': "ERROR_CHECK k \<longrightarrow> OSEventAllocated e = TRUE \<and> iNesting k = 0" using ec n by blast
  have run: "OSMutexRelease p k = Some (OK, ExitCritical k4)"
    unfolding OSMutexRelease_guards [OF g ec' own] res bind.bind_lunit Let_def
    using w lim(2) by (simp add: k4_def k3_def set_vector_def prio_at_def config)
  have "get_mutex q k3 = get_mutex q k" if "q \<noteq> p" for q
    using get_put_mutex_other [OF that, of _ k2] f(1) by (simp add: k3_def get_mutex_def)
  then show thesis
    by (intro that [OF run]) (use f rl in \<open>simp_all add: k4_def k3_def iNesting_ExitCritical get_mutex_def\<close>)
qed

text \<open>A task that acquires two free mutexes, the first with a ceiling above its priority.\<close>

lemma nested_acquired:
  assumes "sys_ok k xs" "iNesting k = 0" "running k t" "p \<noteq> q" "get_mutex p k = Some a" "get_mutex q k = Some b"
    "mutex_free k a" "mutex_free k b" "OSEventOwner a \<noteq> currentTask k" "OSEventOwner b \<noteq> currentTask k"
    "ERROR_CHECK k \<longrightarrow> OSEventAllocated a = TRUE \<and> OSEventAllocated b = TRUE"
    "prio_of k t < unat (OSMaxPriority a)" "OSMaxPriority b \<noteq> OSMaxPriority a"
  defines "a1 \<equiv> a\<lparr>OSEventState := BUSY_RESOURCE, OSEventOwner := currentTask k, OSOriginalPriority := Priority (ContextTask k t)\<rparr>"
    and "b1 \<equiv> b\<lparr>OSEventState := BUSY_RESOURCE, OSEventOwner := currentTask k, OSOriginalPriority := OSMaxPriority a\<rparr>"
  obtains k1 k2 where "OSMutexAcquire p w k = Some (Return OK k1)" "OSMutexAcquire q w k1 = Some (Return OK k2)" "iNesting k2 = 0"
    "get_mutex p k2 = Some a1" "get_mutex q k2 = Some b1" "currentTask k2 = currentTask k" "ERROR_CHECK k2 = ERROR_CHECK k"
    "TaskAlloc k2 = TaskAlloc k" "OSBlockedList k2 = OSBlockedList k" "prio_of k2 t < 32" "prio_of k2 t \<notin> prios (OSReadyList k)"
    "prios (OSReadyList k2) = insert (prio_of k2 t) (prios (OSReadyList k) - {prio_of k t})"
proof -
  define ip where "ip = Priority (ContextTask k t)"
  define c where "c = unat (OSMaxPriority a)"
  let ?m = "OSMaxPriority a" and ?n = "OSMaxPriority b"
  have ok: "tasks_ok k" by (rule sys_okD(1) [OF assms(1)])
  have t: "t = unat (currentTask k)" "allocated k t" "bit (OSReadyList k) (prio_of k t)" using assms(3) unfolding running_def by blast+
  have ip: "unat ip = prio_of k t" "unat ip < 32" using tasks_okD(3) [OF ok t(2)] by (simp_all add: ip_def prio_of_def)
  have up: "?m > ip" using assms(12) ip(1) by (simp add: word_less_nat_alt)
  then have m0: "?m > 0" by (simp add: word_less_nat_alt)
  have m: "c < 32" "PriorityVector k c = MUTEX_PRIO" using assms(7) m0 by (auto simp: mutex_free_def c_def)
  have n: "?n > 0 \<Longrightarrow> unat ?n < 32 \<and> PriorityVector k (unat ?n) = MUTEX_PRIO" using assms(8) by (auto simp: mutex_free_def)
  have n32: "unat ?n < 32" using n by (cases "?n > 0") (auto simp: word_gt_0)
  have nc: "unat ?n \<noteq> c" using assms(13) by (simp add: c_def word_unat_eq_iff)
  have out: "c \<notin> prios (OSReadyList k)" "?n > 0 \<Longrightarrow> unat ?n \<notin> prios (OSReadyList k)"
    using reserved_free(2) [OF ok] m(2) n by blast+
  obtain k1 where k1: "OSMutexAcquire p w k = Some (Return OK k1)" "sys_ok k1 xs" "iNesting k1 = 0" "get_mutex p k1 = Some a1"
    "currentTask k1 = currentTask k" "ERROR_CHECK k1 = ERROR_CHECK k" "TaskAlloc k1 = TaskAlloc k" "OSBlockedList k1 = OSBlockedList k"
    "Priority (ContextTask k1 t) = new_prio a ip"
    "OSReadyList k1 = (if ?m > ip then OSReadyList k AND NOT (pbit (unat ip)) OR pbit (unat ?m) else OSReadyList k)"
    "PriorityVector k1 = (if ?m > ip then (PriorityVector k)(unat ?m := currentTask k) else PriorityVector k)"
    "\<And>q. q \<noteq> p \<Longrightarrow> get_mutex q k1 = get_mutex q k"
    unfolding ip_def a1_def by (rule acquire_free_state [OF assms(1-3,5,7,9)]) (use assms(11) in blast)+
  have p1: "Priority (ContextTask k1 t) = ?m" using up by (simp add: k1(9) new_prio_def)
  have r1: "prios (OSReadyList k1) = insert c (prios (OSReadyList k) - {prio_of k t})"
    using up ip m(1) by (simp add: k1(10) set_after_clear c_def)
  have q1: "get_mutex q k1 = Some b" using k1(12) [of q] assms(4,6) by simp
  have free1: "mutex_free k1 b" using assms(8) nc up by (simp add: mutex_free_def k1(11) c_def)
  have "bit (OSReadyList k1) c" using r1 by (metis insertI1 prios_iff)
  then have run1: "running k1 t" using t(1,2) p1 by (simp add: running_def k1(5,7) allocated_def prio_of_def c_def)
  obtain k2 where k2: "OSMutexAcquire q w k1 = Some (Return OK k2)" "iNesting k2 = 0" "get_mutex q k2 = Some b1"
    "currentTask k2 = currentTask k1" "ERROR_CHECK k2 = ERROR_CHECK k1" "TaskAlloc k2 = TaskAlloc k1" "OSBlockedList k2 = OSBlockedList k1"
    "Priority (ContextTask k2 t) = new_prio b ?m"
    "OSReadyList k2 = (if ?n > ?m then OSReadyList k1 AND NOT (pbit (unat ?m)) OR pbit (unat ?n) else OSReadyList k1)"
    "PriorityVector k2 = (if ?n > ?m then (PriorityVector k1)(unat ?n := currentTask k1) else PriorityVector k1)"
    "get_mutex p k2 = get_mutex p k1"
    by (rule acquire_free_state [OF k1(2,3) run1 q1 free1, of w, unfolded p1 k1(5), folded b1_def])
      (use assms(4,10,11) k1(5,6) in \<open>simp | blast\<close>)+
  define d where "d = prio_of k2 t"
  have d: "d = unat (new_prio b ?m)" "d < 32" "d \<noteq> prio_of k t" "d = c \<or> ?n > ?m \<and> d = unat ?n"
    using n32 m(1) up ip(1) by (auto simp: d_def prio_of_def k2(8) new_prio_def c_def word_less_nat_alt)
  have r2: "prios (OSReadyList k2) = insert d (prios (OSReadyList k) - {prio_of k t})"
  proof (cases "?n > ?m")
    case True
    then have "prios (OSReadyList k2) = insert (unat ?n) (prios (OSReadyList k1) - {c})" "d = unat ?n"
      using m(1) n32 by (simp_all add: k2(9) set_after_clear c_def d(1) new_prio_def)
    then show ?thesis using r1 out(1) by auto
  qed (use r1 d(1) in \<open>simp add: k2(9) new_prio_def c_def\<close>)
  have "d \<notin> prios (OSReadyList k)" using d(4) out by (auto simp: word_less_nat_alt)
  then show thesis
    by (intro that [OF k1(1) k2(1,2)]) (use k1 k2 r2 d(2) in \<open>simp_all flip: d_def\<close>)
qed

text \<open>
  C17. A task that acquires two free mutexes and releases the first one first breaks the kernel, when the ceiling
  of the first is above its own priority and not that of the second: the second release makes the task
  ready at the first ceiling, which the first release has reserved again in \<open>PriorityVector\<close>. If this ceiling
  is not blocked and no runnable task is above it, the next choice of the scheduler is the code \<open>MUTEX_PRIO\<close> and not a task.
\<close>

theorem release_in_order_loses_task:
  assumes "sys_ok k xs" "iNesting k = 0" "running k t" "p \<noteq> q" "get_mutex p k = Some a" "get_mutex q k = Some b"
    "mutex_free k a" "mutex_free k b" "OSEventOwner a \<noteq> currentTask k" "OSEventOwner b \<noteq> currentTask k"
    "ERROR_CHECK k \<longrightarrow> OSEventAllocated a = TRUE \<and> OSEventAllocated b = TRUE"
    "prio_of k t < unat (OSMaxPriority a)" "OSMaxPriority b \<noteq> OSMaxPriority a"
  defines "c \<equiv> unat (OSMaxPriority a)"
  shows "\<exists>k1 k2 k3 k4. OSMutexAcquire p w k = Some (Return OK k1) \<and> OSMutexAcquire q w k1 = Some (Return OK k2) \<and>
    OSMutexRelease p k2 = Some (OK, k3) \<and> OSMutexRelease q k3 = Some (OK, k4) \<and>
    prios (OSReadyList k4) = insert c (prios (OSReadyList k) - {prio_of k t}) \<and> PriorityVector k4 c = MUTEX_PRIO \<and>
    (bit (OSBlockedList k) c \<and> (\<forall>r \<in> runnable k. r \<le> c) \<longrightarrow> OSSchedule k4 = MUTEX_PRIO)"
proof -
  let ?m = "OSMaxPriority a" and ?n = "OSMaxPriority b" and ?ip = "Priority (ContextTask k t)"
  define a1 where "a1 = a\<lparr>OSEventState := BUSY_RESOURCE, OSEventOwner := currentTask k, OSOriginalPriority := ?ip\<rparr>"
  define b1 where "b1 = b\<lparr>OSEventState := BUSY_RESOURCE, OSEventOwner := currentTask k, OSOriginalPriority := ?m\<rparr>"
  have t: "t = unat (currentTask k)" "allocated k t" "prio_of k t \<in> prios (OSReadyList k)" "prio_of k t < 32"
    using assms(3) tasks_okD(3) [OF sys_okD(1) [OF assms(1)]] unfolding running_def bits by blast+
  have ip: "unat ?ip = prio_of k t" by (simp add: prio_of_def)
  have m0: "?m > 0" using assms(12) by (simp add: word_less_nat_alt)
  have m: "c < 32" using assms(7) m0 by (auto simp: mutex_free_def c_def)
  have n32: "unat ?n < 32" using assms(8) by (cases "?n > 0") (auto simp: mutex_free_def word_gt_0)
  obtain k1 k2 where k2: "OSMutexAcquire p w k = Some (Return OK k1)" "OSMutexAcquire q w k1 = Some (Return OK k2)" "iNesting k2 = 0"
    "get_mutex p k2 = Some a1" "get_mutex q k2 = Some b1" "currentTask k2 = currentTask k" "ERROR_CHECK k2 = ERROR_CHECK k"
    "TaskAlloc k2 = TaskAlloc k" "OSBlockedList k2 = OSBlockedList k" "prio_of k2 t < 32" "prio_of k2 t \<notin> prios (OSReadyList k)"
    "prios (OSReadyList k2) = insert (prio_of k2 t) (prios (OSReadyList k) - {prio_of k t})"
    unfolding a1_def b1_def by (rule nested_acquired [OF assms(1-13)]) blast
  have w: "OSEventWait a1 = 0" "OSEventWait b1 = 0"
    using assms(7,8) by (simp_all add: mutex_free_def event_ok_no_waiters a1_def b1_def)
  obtain k3 where k3: "OSMutexRelease p k2 = Some (OK, k3)"
    "prios (OSReadyList k3) = insert (unat (OSOriginalPriority a1)) (prios (OSReadyList k2) - {prio_of k2 t})"
    "PriorityVector k3 = (if OSMaxPriority a1 > 0 then (PriorityVector k2)(unat (OSMaxPriority a1) := MUTEX_PRIO) else PriorityVector k2)"
    "Priority (ContextTask k3 t) = OSOriginalPriority a1" "currentTask k3 = currentTask k2" "ERROR_CHECK k3 = ERROR_CHECK k2"
    "TaskAlloc k3 = TaskAlloc k2" "OSBlockedList k3 = OSBlockedList k2" "iNesting k3 = 0" "get_mutex q k3 = get_mutex q k2"
    by (rule release_alone [where p = p and k = k2 and e = a1 and t = t])
      (use assms(4) [symmetric] assms(11) k2 t w(1) ip m in \<open>simp_all add: a1_def c_def allocated_def\<close>)
  have r3: "prios (OSReadyList k3) = prios (OSReadyList k)"
    using k2(11) t(3) ip unfolding k3(2) k2(12) by (auto simp: a1_def)
  have p3: "prio_of k3 t = prio_of k t" using ip by (simp add: prio_of_def k3(4) a1_def)
  obtain k4 where k4: "OSMutexRelease q k3 = Some (OK, k4)"
    "prios (OSReadyList k4) = insert (unat (OSOriginalPriority b1)) (prios (OSReadyList k3) - {prio_of k3 t})"
    "PriorityVector k4 = (if OSMaxPriority b1 > 0 then (PriorityVector k3)(unat (OSMaxPriority b1) := MUTEX_PRIO) else PriorityVector k3)"
    "OSBlockedList k4 = OSBlockedList k3"
    by (rule release_alone [where p = q and k = k3 and e = b1 and t = t])
      (use assms(11) k2 k3(5-10) t p3 r3 w(2) m n32 in \<open>simp_all add: b1_def c_def allocated_def\<close>)
  have r4: "prios (OSReadyList k4) = insert c (prios (OSReadyList k) - {prio_of k t})"
    by (simp add: k4(2) r3 p3 b1_def c_def)
  have v4: "PriorityVector k4 c = MUTEX_PRIO" using m0 by (simp add: k4(3) k3(3) a1_def b1_def c_def)
  have "OSSchedule k4 = MUTEX_PRIO" if "bit (OSBlockedList k) c" "\<forall>r \<in> runnable k. r \<le> c"
  proof -
    have b4: "OSBlockedList k4 = OSBlockedList k" by (simp add: k4(4) k3(8) k2(9))
    have "unat (SAScheduler (OSReadyList k4 AND OSBlockedList k4)) = c"
    proof (rule SAScheduler_unique)
      have "bit (OSReadyList k4) c" using r4 by (metis insertI1 prios_iff)
      then show "bit (OSReadyList k4 AND OSBlockedList k4) c" using that(1) by (simp add: b4 bit_and_iff)
      fix i assume "bit (OSReadyList k4 AND OSBlockedList k4) i"
      then have "i \<in> prios (OSReadyList k4)" "i \<in> prios (OSBlockedList k)" by (simp_all add: b4 bit_and_iff bits)
      then show "i \<le> c" using r4 that(2) unfolding runnable_def by auto
    qed
    then show ?thesis using v4 by (simp add: OSSchedule_def)
  qed
  then show ?thesis using k2(1,2) k3(1) k4(1) r4 v4 by blast
qed

end
