(* ===== verification/Ring.thy ===== *)
theory Ring
  imports Kernel_State
begin

text \<open>
  The ring buffer under every kind of queue in \<open>queue.c\<close>: entries of a fixed number of bytes between
  \<open>OSQStart\<close> and \<open>OSQEnd\<close>, a write and a read pointer that wrap when they are next used, and a counter.
  Memory is a function from byte addresses; a byte past the bound \<open>N\<close> of the heap cannot be accessed.

  The locale \<open>fifo\<close> is the contract of a bounded queue; the ring is an interpretation of it, for
  every heap bound and entry size.
\<close>

type_synonym bytes = "nat \<Rightarrow> u8"

text \<open>Copying entries byte by byte, as the loops of the dynamic queues do.\<close>

fun peek :: "nat \<Rightarrow> nat \<Rightarrow> nat \<Rightarrow> bytes \<Rightarrow> u8 list option" where
  "peek N 0 p m = Some []"
| "peek N (Suc n) p m =
    (if p < N then do { bs \<leftarrow> peek N n (p + 1) m; Some (m p # bs) } else None)"

fun poke :: "nat \<Rightarrow> nat \<Rightarrow> u8 list \<Rightarrow> bytes \<Rightarrow> bytes option" where
  "poke N p [] m = Some m"
| "poke N p (b # bs) m = (if p < N then poke N (p + 1) bs (m(p := b)) else None)"

definition wrap_in :: "OS_QUEUE \<Rightarrow> nat" where
  "wrap_in q = (if OSQIn q = OSQEnd q then OSQStart q else OSQIn q)"

definition wrap_out :: "OS_QUEUE \<Rightarrow> nat" where
  "wrap_out q = (if OSQOut q = OSQEnd q then OSQStart q else OSQOut q)"

text \<open>The second half of a write, after the overflow test, and the first half of a read.\<close>

definition ring_write :: "nat \<Rightarrow> u8 list \<Rightarrow> OS_QUEUE \<times> bytes \<Rightarrow> (OS_QUEUE \<times> bytes) option" where
  "ring_write N bs s = (case s of (q, m) \<Rightarrow> do {
     m' \<leftarrow> poke N (wrap_in q) bs m;
     Some (q\<lparr>OSQEntries := OSQEntries q + 1, OSQIn := wrap_in q + length bs\<rparr>, m') })"

definition ring_read :: "nat \<Rightarrow> nat \<Rightarrow> OS_QUEUE \<times> bytes \<Rightarrow> (u8 list \<times> OS_QUEUE \<times> bytes) option" where
  "ring_read N z s = (case s of (q, m) \<Rightarrow> do {
     bs \<leftarrow> peek N z (wrap_out q) m;
     Some (bs, q\<lparr>OSQOut := wrap_out q + z, OSQEntries := OSQEntries q - 1\<rparr>, m) })"

definition ring_clean :: "OS_QUEUE \<Rightarrow> OS_QUEUE" where
  "ring_clean q = q\<lparr>OSQEntries := 0, OSQIn := OSQStart q, OSQOut := OSQStart q\<rparr>"

definition ring_init :: "nat \<Rightarrow> nat \<Rightarrow> u16 \<Rightarrow> OS_QUEUE" where
  "ring_init z start sz =
    \<lparr>OSQStart = start, OSQEnd = start + unat sz * z, OSQIn = start, OSQOut = start, OSQSize = sz,
     OSQEntries = 0\<rparr>"

subsection \<open>The contract of a bounded queue\<close>

locale fifo =
  fixes ok :: "'s \<Rightarrow> bool" and contents :: "'s \<Rightarrow> 'e list" and cap :: "'s \<Rightarrow> nat"
    and fits :: "'e \<Rightarrow> bool" and put :: "'e \<Rightarrow> 's \<Rightarrow> 's option" and get :: "'s \<Rightarrow> ('e \<times> 's) option"
  assumes put_law: "ok s \<Longrightarrow> fits d \<Longrightarrow> length (contents s) < cap s \<Longrightarrow>
      \<exists>s'. put d s = Some s' \<and> ok s' \<and> contents s' = contents s @ [d] \<and> cap s' = cap s"
    and get_law: "ok s \<Longrightarrow> contents s \<noteq> [] \<Longrightarrow>
      \<exists>s'. get s = Some (hd (contents s), s') \<and> ok s' \<and> contents s' = tl (contents s) \<and> cap s' = cap s"
    and bounded: "ok s \<Longrightarrow> length (contents s) \<le> cap s"
begin

fun put_all :: "'e list \<Rightarrow> 's \<Rightarrow> 's option" where
  "put_all [] s = Some s"
| "put_all (d # ds) s = Option.bind (put d s) (put_all ds)"

fun get_all :: "nat \<Rightarrow> 's \<Rightarrow> ('e list \<times> 's) option" where
  "get_all 0 s = Some ([], s)"
| "get_all (Suc n) s = Option.bind (get s) (\<lambda>(d, s1). Option.bind (get_all n s1) (\<lambda>(ds, s2). Some (d # ds, s2)))"

lemma put_all_appends:
  "ok s \<Longrightarrow> \<forall>d \<in> set ds. fits d \<Longrightarrow> length (contents s) + length ds \<le> cap s \<Longrightarrow>
    \<exists>s'. put_all ds s = Some s' \<and> ok s' \<and> contents s' = contents s @ ds \<and> cap s' = cap s"
proof (induction ds arbitrary: s)
  case (Cons d ds)
  obtain s1 where s1: "put d s = Some s1" "ok s1" "contents s1 = contents s @ [d]" "cap s1 = cap s"
    using put_law [of s d] Cons.prems by auto
  show ?case using Cons.IH [OF s1(2)] Cons.prems s1 by auto
qed simp

lemma get_all_takes:
  "ok s \<Longrightarrow> n \<le> length (contents s) \<Longrightarrow>
    \<exists>s'. get_all n s = Some (take n (contents s), s') \<and> ok s' \<and> contents s' = drop n (contents s) \<and> cap s' = cap s"
proof (induction n arbitrary: s)
  case (Suc n)
  then have ne: "contents s \<noteq> []" by auto
  obtain s1 where s1: "get s = Some (hd (contents s), s1)" "ok s1" "contents s1 = tl (contents s)" "cap s1 = cap s"
    using get_law [OF Suc.prems(1) ne] by blast
  have "n \<le> length (contents s1)" using Suc.prems(2) s1(3) by simp
  then obtain s2 where "get_all n s1 = Some (take n (contents s1), s2)" "ok s2"
    "contents s2 = drop n (contents s1)" "cap s2 = cap s1"
    using Suc.IH [OF s1(2)] by blast
  then show ?case using s1 ne by (simp add: take_Suc drop_Suc)
qed simp

text \<open>First in, first out: what is put comes out after what was there, in the order it was put.\<close>

lemma fifo_order:
  assumes "ok s" "\<forall>d \<in> set ds. fits d" "length (contents s) + length ds \<le> cap s"
  shows "\<exists>s1 s2. put_all ds s = Some s1 \<and>
    get_all (length (contents s) + length ds) s1 = Some (contents s @ ds, s2) \<and> ok s2 \<and> contents s2 = []"
proof -
  obtain s1 where s1: "put_all ds s = Some s1" "ok s1" "contents s1 = contents s @ ds"
    using put_all_appends [OF assms] by blast
  then show ?thesis using get_all_takes [OF s1(2), of "length (contents s) + length ds"] by auto
qed

end

subsection \<open>Memory\<close>

lemma peek_Some: "p + n \<le> N \<Longrightarrow> peek N n p m = Some (map m [p..<p + n])"
proof (induction n arbitrary: p)
  case (Suc n)
  then show ?case using upt_conv_Cons [of p "p + Suc n"] by simp
qed simp

lemma poke_Some:
  "p + length bs \<le> N \<Longrightarrow>
    poke N p bs m = Some (\<lambda>a. if p \<le> a \<and> a < p + length bs then bs ! (a - p) else m a)"
proof (induction bs arbitrary: p m)
  case (Cons b bs)
  have eq: "(\<lambda>a. if p + 1 \<le> a \<and> a < p + 1 + length bs then bs ! (a - (p + 1)) else (m(p := b)) a) =
    (\<lambda>a. if p \<le> a \<and> a < p + length (b # bs) then (b # bs) ! (a - p) else m a)"
    by (rule ext) (auto simp: nth_Cons' Suc_diff_le)
  have pre: "p + 1 + length bs \<le> N" using Cons.prems by simp
  show ?case unfolding poke.simps Cons.IH [OF pre] eq using Cons.prems by simp
qed (auto simp: fun_eq_iff)

subsection \<open>The ring as a bounded queue\<close>

text \<open>The address of entry \<open>i\<close>, and the entry \<open>j\<close> places behind the read pointer.\<close>

definition cell :: "nat \<Rightarrow> OS_QUEUE \<Rightarrow> nat \<Rightarrow> nat" where
  "cell z q i = OSQStart q + i * z"

definition ring_ok :: "nat \<Rightarrow> nat \<Rightarrow> OS_QUEUE \<Rightarrow> bool" where
  "ring_ok N z q \<longleftrightarrow> OSQEnd q = cell z q (unat (OSQSize q)) \<and> OSQEnd q \<le> N \<and>
     unat (OSQEntries q) \<le> unat (OSQSize q) \<and> 0 < z \<and>
     (\<exists>i o'. i \<le> unat (OSQSize q) \<and> o' \<le> unat (OSQSize q) \<and> OSQIn q = cell z q i \<and> OSQOut q = cell z q o' \<and>
        i mod unat (OSQSize q) = (o' + unat (OSQEntries q)) mod unat (OSQSize q))"

definition ring_contents :: "nat \<Rightarrow> OS_QUEUE \<times> bytes \<Rightarrow> u8 list list" where
  "ring_contents z s = (case s of (q, m) \<Rightarrow>
     map (\<lambda>j. map m [cell z q (((OSQOut q - OSQStart q) div z + j) mod unat (OSQSize q))
                ..<cell z q (((OSQOut q - OSQStart q) div z + j) mod unat (OSQSize q)) + z])
       [0..<unat (OSQEntries q)])"

definition ring_entry :: "nat \<Rightarrow> OS_QUEUE \<Rightarrow> bytes \<Rightarrow> nat \<Rightarrow> u8 list" where
  "ring_entry z q m i = map m [cell z q i..<cell z q i + z]"

lemma ring_contents_at:
  assumes "OSQOut q = cell z q r" "0 < z"
  shows "ring_contents z (q, m) =
    map (\<lambda>j. ring_entry z q m ((r + j) mod unat (OSQSize q))) [0..<unat (OSQEntries q)]"
  using assms by (simp add: ring_contents_def ring_entry_def cell_def)

lemma ring_okE:
  assumes "ring_ok N z q"
  obtains i r where "0 < z" "OSQEnd q = cell z q (unat (OSQSize q))" "OSQEnd q \<le> N"
    "unat (OSQEntries q) \<le> unat (OSQSize q)" "i \<le> unat (OSQSize q)" "r \<le> unat (OSQSize q)"
    "OSQIn q = cell z q i" "OSQOut q = cell z q r"
    "i mod unat (OSQSize q) = (r + unat (OSQEntries q)) mod unat (OSQSize q)"
  using assms unfolding ring_ok_def by blast

lemma cell_inj: "0 < z \<Longrightarrow> cell z q i = cell z q j \<longleftrightarrow> i = j"
  by (simp add: cell_def)

lemma cell_Suc: "cell z q i + z = cell z q (Suc i)"
  by (simp add: cell_def)

lemma cell_mono: "i \<le> j \<Longrightarrow> cell z q i \<le> cell z q j"
  by (simp add: cell_def)

lemma wrapped:
  assumes "0 < z" "i \<le> l" "0 < l"
  shows "(if cell z q i = cell z q l then OSQStart q else cell z q i) = cell z q (i mod l)"
  using assms by (auto simp: cell_inj) (simp add: cell_def)

lemma mod_lt_ne:
  fixes l :: nat
  assumes "j < n" "n < l"
  shows "(r + j) mod l \<noteq> (r + n) mod l"
proof
  assume "(r + j) mod l = (r + n) mod l"
  then have "l dvd (r + n) - (r + j)" using assms(1) mod_eq_dvd_iff_nat [of "r + j" "r + n" l] by simp
  then show False using assms by (auto dest: dvd_imp_le)
qed

lemma length_ring_contents [simp]: "length (ring_contents z (q, m)) = unat (OSQEntries q)"
  by (simp add: ring_contents_def)

text \<open>A write appends an entry and changes no other byte.\<close>

lemma ring_write_ok:
  assumes ok: "ring_ok N z q" and room: "unat (OSQEntries q) < unat (OSQSize q)" and bs: "length bs = z"
  obtains q' m' where "ring_write N bs (q, m) = Some (q', m')" "ring_ok N z q'"
    "ring_contents z (q', m') = ring_contents z (q, m) @ [bs]" "OSQSize q' = OSQSize q"
    "OSQStart q' = OSQStart q" "OSQEnd q' = OSQEnd q" "OSQEntries q' = OSQEntries q + 1"
    "\<And>a. a < OSQStart q \<or> OSQEnd q \<le> a \<Longrightarrow> m' a = m a"
proof -
  define l n where "l = unat (OSQSize q)" and "n = unat (OSQEntries q)"
  obtain i r where z: "0 < z" and e: "OSQEnd q = cell z q l" "OSQEnd q \<le> N" and b: "i \<le> l" "r \<le> l"
    and p: "OSQIn q = cell z q i" "OSQOut q = cell z q r" and im: "i mod l = (r + n) mod l"
    using ok unfolding l_def n_def by (rule ring_okE)
  have ln: "n < l" using room by (simp add: l_def n_def)
  define i' where "i' = i mod l"
  have i': "i' < l" using ln by (simp add: i'_def)
  have w: "wrap_in q = cell z q i'" unfolding wrap_in_def p e(1) i'_def by (rule wrapped [OF z b(1)]) (use ln in simp)
  define m' where "m' a = (if cell z q i' \<le> a \<and> a < cell z q i' + length bs then bs ! (a - cell z q i') else m a)" for a
  define q' where "q' = q\<lparr>OSQEntries := OSQEntries q + 1, OSQIn := cell z q i' + length bs\<rparr>"
  have ub: "cell z q (Suc i') \<le> OSQEnd q" using cell_mono [of "Suc i'" l] i' e(1) by simp
  have "poke N (cell z q i') bs m = Some m'"
    using poke_Some [of "cell z q i'" bs N m] ub e(2) bs by (simp add: cell_Suc m'_def [abs_def])
  then have run: "ring_write N bs (q, m) = Some (q', m')" by (simp add: ring_write_def w q'_def)
  have n': "unat (OSQEntries q + 1) = Suc n"
    using ln unat_inc_u16 [of "OSQEntries q"] unat_u16_less [of "OSQSize q"] by (simp add: l_def n_def)
  have c: "cell z q' j = cell z q j" for j by (simp add: cell_def q'_def)
  have "Suc i' mod l = (r + Suc n) mod l" using im by (simp add: i'_def mod_Suc_eq)
  then have ok': "ring_ok N z q'"
    unfolding ring_ok_def c using z e b p i' ln
    by (intro conjI exI [of _ "Suc i'"] exI [of _ r]) (simp_all add: q'_def n' l_def [symmetric] cell_Suc bs)
  have old: "ring_entry z q m' ((r + j) mod l) = ring_entry z q m ((r + j) mod l)" if "j < n" for j
  proof -
    let ?j = "(r + j) mod l"
    have "?j \<noteq> i'" using mod_lt_ne [OF that ln] im by (simp add: i'_def)
    then have "Suc ?j \<le> i' \<or> Suc i' \<le> ?j" by auto
    then have "cell z q (Suc ?j) \<le> cell z q i' \<or> cell z q (Suc i') \<le> cell z q ?j" using cell_mono by blast
    then show ?thesis unfolding ring_entry_def m'_def
      by (intro map_cong refl) (auto simp: cell_Suc [symmetric] bs)
  qed
  have new: "ring_entry z q m' i' = bs"
    unfolding ring_entry_def m'_def by (rule nth_equalityI) (simp_all add: bs)
  have e': "ring_entry z q' m' j = ring_entry z q m' j" for j by (simp add: ring_entry_def c)
  have out: "OSQOut q' = cell z q' r" by (simp add: c) (simp add: q'_def p)
  have "ring_contents z (q', m') = map (\<lambda>j. ring_entry z q m' ((r + j) mod l)) [0..<Suc n]"
    using ring_contents_at [OF out z, of m'] by (simp add: e') (simp add: q'_def n' l_def)
  also have "\<dots> = map (\<lambda>j. ring_entry z q m ((r + j) mod l)) [0..<n] @ [bs]"
    using old new im by (simp add: i'_def)
  also have "\<dots> = ring_contents z (q, m) @ [bs]"
    using ring_contents_at [OF p(2) z] by (simp add: l_def n_def)
  finally have con: "ring_contents z (q', m') = ring_contents z (q, m) @ [bs]" .
  have outside: "m' a = m a" if "a < OSQStart q \<or> OSQEnd q \<le> a" for a
    using that ub by (auto simp: m'_def bs cell_Suc) (simp add: cell_def)
  show thesis by (rule that [OF run ok' con]) (simp_all add: q'_def outside)
qed

text \<open>A read takes the first entry.\<close>

lemma ring_read_ok:
  assumes ok: "ring_ok N z q" and ne: "0 < unat (OSQEntries q)"
  obtains q' where "ring_read N z (q, m) = Some (hd (ring_contents z (q, m)), q', m)" "ring_ok N z q'"
    "ring_contents z (q', m) = tl (ring_contents z (q, m))" "OSQSize q' = OSQSize q"
    "OSQStart q' = OSQStart q" "OSQEnd q' = OSQEnd q" "OSQEntries q' = OSQEntries q - 1"
proof -
  define l n where "l = unat (OSQSize q)" and "n = unat (OSQEntries q)"
  obtain i r where z: "0 < z" and e: "OSQEnd q = cell z q l" "OSQEnd q \<le> N" and nl: "n \<le> l" and b: "i \<le> l" "r \<le> l"
    and p: "OSQIn q = cell z q i" "OSQOut q = cell z q r" and im: "i mod l = (r + n) mod l"
    using ok unfolding l_def n_def by (rule ring_okE)
  have n: "0 < n" using ne by (simp add: n_def)
  define r' where "r' = r mod l"
  have r': "r' < l" using n nl by (simp add: r'_def)
  have w: "wrap_out q = cell z q r'" unfolding wrap_out_def p e(1) r'_def by (rule wrapped [OF z b(2)]) (use n nl in simp)
  have ub: "cell z q (Suc r') \<le> OSQEnd q" using cell_mono [of "Suc r'" l] r' e(1) by simp
  define q' where "q' = q\<lparr>OSQOut := cell z q r' + z, OSQEntries := OSQEntries q - 1\<rparr>"
  have "peek N z (cell z q r') m = Some (ring_entry z q m r')"
    using peek_Some [of "cell z q r'" z N m] ub e(2) by (simp add: cell_Suc ring_entry_def)
  then have run: "ring_read N z (q, m) = Some (ring_entry z q m r', q', m)"
    by (simp add: ring_read_def w q'_def)
  have n': "unat (OSQEntries q - 1) = n - 1"
    using n unat_dec_u16 [of "OSQEntries q"] unfolding n_def by (metis less_irrefl unsigned_0)
  have c: "cell z q' j = cell z q j" for j by (simp add: cell_def q'_def)
  have e': "ring_entry z q' m j = ring_entry z q m j" for j by (simp add: ring_entry_def c)
  have st: "(Suc r' + j) mod l = (r + Suc j) mod l" for j
    by (metis add_Suc add_Suc_right mod_add_left_eq r'_def)
  have "i mod l = (Suc r' + (n - 1)) mod l" using st [of "n - 1"] im n by simp
  then have ok': "ring_ok N z q'"
    unfolding ring_ok_def c using z e b p r' nl
    by (intro conjI exI [of _ i] exI [of _ "Suc r'"]) (simp_all add: q'_def n' l_def [symmetric] cell_Suc)
  have cq: "ring_contents z (q, m) = map (\<lambda>j. ring_entry z q m ((r + j) mod l)) [0..<n]"
    using ring_contents_at [OF p(2) z] by (simp add: l_def n_def)
  have up: "[0..<n] = 0 # map Suc [0..<n - 1]" using n by (simp add: map_Suc_upt upt_conv_Cons)
  have out: "OSQOut q' = cell z q' (Suc r')" by (simp add: c) (simp add: q'_def cell_Suc)
  have "ring_contents z (q', m) = map (\<lambda>j. ring_entry z q m ((Suc r' + j) mod l)) [0..<n - 1]"
    using ring_contents_at [OF out z, of m] by (simp add: e') (simp add: q'_def n' l_def)
  also have "\<dots> = tl (ring_contents z (q, m))" unfolding cq up st by (simp add: comp_def)
  finally have con: "ring_contents z (q', m) = tl (ring_contents z (q, m))" .
  have hd: "ring_entry z q m r' = hd (ring_contents z (q, m))" unfolding cq up by (simp add: r'_def)
  show thesis by (rule that [OF run [unfolded hd] ok' con]) (simp_all add: q'_def)
qed

interpretation ring: fifo "\<lambda>(q, _). ring_ok N z q" "ring_contents z" "\<lambda>(q, _). unat (OSQSize q)"
  "\<lambda>bs. length bs = z" "ring_write N" "ring_read N z" for N z
proof
  fix s :: "OS_QUEUE \<times> bytes" and d :: "u8 list"
  obtain q m where s: "s = (q, m)" by (cases s)
  assume ok: "case s of (q, _) \<Rightarrow> ring_ok N z q"
  show "length (ring_contents z s) \<le> (case s of (q, _) \<Rightarrow> unat (OSQSize q))"
    using ok by (simp add: s ring_ok_def)
  show "\<exists>s'. ring_write N d s = Some s' \<and> (case s' of (q, _) \<Rightarrow> ring_ok N z q) \<and>
      ring_contents z s' = ring_contents z s @ [d] \<and>
      (case s' of (q, _) \<Rightarrow> unat (OSQSize q)) = (case s of (q, _) \<Rightarrow> unat (OSQSize q))"
    if sz: "length d = z" "length (ring_contents z s) < (case s of (q, _) \<Rightarrow> unat (OSQSize q))"
  proof -
    have room: "unat (OSQEntries q) < unat (OSQSize q)" using sz(2) by (simp add: s)
    have okq: "ring_ok N z q" using ok by (simp add: s)
    obtain q' m' where "ring_write N d (q, m) = Some (q', m')" "ring_ok N z q'"
      "ring_contents z (q', m') = ring_contents z (q, m) @ [d]" "OSQSize q' = OSQSize q"
      by (rule ring_write_ok [OF okq room sz(1)])
    then show ?thesis unfolding s by (intro exI [of _ "(q', m')"]) simp
  qed
  show "\<exists>s'. ring_read N z s = Some (hd (ring_contents z s), s') \<and> (case s' of (q, _) \<Rightarrow> ring_ok N z q) \<and>
      ring_contents z s' = tl (ring_contents z s) \<and>
      (case s' of (q, _) \<Rightarrow> unat (OSQSize q)) = (case s of (q, _) \<Rightarrow> unat (OSQSize q))"
    if "ring_contents z s \<noteq> []"
  proof -
    have ne: "0 < unat (OSQEntries q)"
      using that length_ring_contents [of z q m] unfolding s by (metis length_greater_0_conv)
    have okq: "ring_ok N z q" using ok by (simp add: s)
    obtain q' where "ring_read N z (q, m) = Some (hd (ring_contents z (q, m)), q', m)" "ring_ok N z q'"
      "ring_contents z (q', m) = tl (ring_contents z (q, m))" "OSQSize q' = OSQSize q"
      by (rule ring_read_ok [OF okq ne])
    then show ?thesis unfolding s by (intro exI [of _ "(q', m)"]) simp
  qed
qed

text \<open>A new ring is empty, and so is a cleaned one.\<close>

lemma ring_init_ok:
  assumes "0 < z" "start + unat sz * z \<le> N"
  shows "ring_ok N z (ring_init z start sz)" "ring_contents z (ring_init z start sz, m) = []"
  using assms by (auto simp: ring_ok_def ring_init_def cell_def ring_contents_def)

lemma ring_clean_ok:
  assumes "ring_ok N z q"
  shows "ring_ok N z (ring_clean q)" "ring_contents z (ring_clean q, m) = []"
  using assms by (auto simp: ring_ok_def ring_clean_def cell_def ring_contents_def)

text \<open>The contents depend only on the bytes between start and end.\<close>

lemma ring_contents_cong:
  assumes "ring_ok N z q" "\<And>a. OSQStart q \<le> a \<Longrightarrow> a < OSQEnd q \<Longrightarrow> m' a = m a"
  shows "ring_contents z (q, m') = ring_contents z (q, m)"
proof -
  define l n where "l = unat (OSQSize q)" and "n = unat (OSQEntries q)"
  obtain i r where z: "0 < z" and e: "OSQEnd q = cell z q l" and nl: "n \<le> l" and p: "OSQOut q = cell z q r"
    using assms(1) unfolding l_def n_def by (rule ring_okE)
  have "ring_entry z q m' ((r + j) mod l) = ring_entry z q m ((r + j) mod l)" if "j < n" for j
  proof -
    have "Suc ((r + j) mod l) \<le> l" using that nl by (simp add: Suc_leI)
    then have "cell z q ((r + j) mod l) + z \<le> OSQEnd q" using cell_mono e cell_Suc by metis
    moreover have "OSQStart q \<le> cell z q ((r + j) mod l)" by (simp add: cell_def)
    ultimately show ?thesis unfolding ring_entry_def by (intro map_cong refl assms(2)) auto
  qed
  then show ?thesis using ring_contents_at [OF p z] by (simp add: l_def n_def)
qed

end
