(* ===== verification/Queue.thy ===== *)
theory Queue
  imports Mutex Ring
begin

text \<open>
  Byte queues (\<open>queue.c\<close>): an event control block whose \<open>OSEventPointer\<close> leads to a ring in the queue
  heap \<open>QUEUE_STACK\<close>, which \<open>OSQueueCreate\<close> hands out piece by piece and nothing returns. The ring
  operations are those of \<open>Ring\<close> with entries of one byte; the 16 and 32 bit queues, which have no
  event, use two and four bytes per entry.
\<close>

text \<open>\<open>sizeof(OS_CPU_TYPE)\<close>: 4 in the simulator.\<close>

definition CPU_WORD :: nat where "CPU_WORD = 4"

lemmas [config] = CPU_WORD_def

definition put_queue :: "ptr \<Rightarrow> BRTOS_Queue \<Rightarrow> kernel \<Rightarrow> kernel" where
  "put_queue p e k =
    (case p of None \<Rightarrow> k | Some i \<Rightarrow> k\<lparr>BRTOS_Queue_Table := (BRTOS_Queue_Table k)(i := e)\<rparr>)"

definition get_queue :: "ptr \<Rightarrow> kernel \<Rightarrow> BRTOS_Queue option" where
  "get_queue p k = deref BRTOS_MAX_QUEUE (BRTOS_Queue_Table k) p"

definition get_ring :: "ptr \<Rightarrow> kernel \<Rightarrow> OS_QUEUE option" where
  "get_ring c k = deref BRTOS_MAX_QUEUE (BRTOS_OS_QUEUE_Table k) c"

definition put_ring :: "ptr \<Rightarrow> OS_QUEUE \<times> bytes \<Rightarrow> kernel \<Rightarrow> kernel" where
  "put_ring c s k =
    (case c of None \<Rightarrow> k
     | Some i \<Rightarrow> k\<lparr>BRTOS_OS_QUEUE_Table := (BRTOS_OS_QUEUE_Table k)(i := fst s), QUEUE_STACK := snd s\<rparr>)"

definition round_up :: "u16 \<Rightarrow> u16" where
  "round_up n = (if unat n mod CPU_WORD \<noteq> 0
     then n + (word_of_nat CPU_WORD - word_of_nat (unat n mod CPU_WORD)) else n)"

definition OSQueueCreate :: "u16 \<Rightarrow> ptr \<Rightarrow> kernel \<Rightarrow> u8 \<times> ptr \<times> kernel" where
  "OSQueueCreate sz event k =
    (if iNesting k > 0 then (IRQ_PEND_ERR, event, k)
     else
       (let k1 = EnterCritical_if_task k; sz1 = round_up sz
        in if unat (iQueueAddress k1) + unat sz1 div CPU_WORD > QUEUE_HEAP_SIZE div CPU_WORD
           then (NO_MEMORY, event, ExitCritical_if_task k1)
           else case find_free 0 BRTOS_MAX_QUEUE (BRTOS_Queue_Table k1) of
             None \<Rightarrow> (NO_AVAILABLE_EVENT, event, ExitCritical_if_task k1)
           | Some i \<Rightarrow>
               (let q = ring_init 1 (CPU_WORD * unat (iQueueAddress k1)) sz1;
                    k2 = put_ring (Some i) (q, QUEUE_STACK k1) k1;
                    k3 = k2\<lparr>iQueueAddress := iQueueAddress k2 + word_of_nat (unat sz1 div CPU_WORD)\<rparr>;
                    e = (BRTOS_Queue_Table k3 i)
                      \<lparr>OSEventAllocated := TRUE, OSEventPointer_q := Some i, OSEventWait := 0, OSEventWaitList := 0\<rparr>
                in (ALLOC_EVENT_OK, Some i, ExitCritical_if_task (put_queue (Some i) e k3)))))"

text \<open>\<open>OSWQueue\<close> and \<open>OSRQueue\<close> work on the ring alone, without the event.\<close>

definition OSWQueue :: "ptr \<Rightarrow> u8 \<Rightarrow> kernel \<Rightarrow> (u8 \<times> kernel) option" where
  "OSWQueue cqueue data k = do {
     let k1 = EnterCritical k;
     q \<leftarrow> get_ring cqueue k1;
     if OSQEntries q < OSQSize q then do {
       s \<leftarrow> ring_write QUEUE_HEAP_SIZE [data] (q, QUEUE_STACK k1);
       Some (WRITE_BUFFER_OK, ExitCritical (put_ring cqueue s k1)) }
     else Some (BUFFER_UNDERRUN, ExitCritical k1) }"

definition OSRQueue :: "ptr \<Rightarrow> kernel \<Rightarrow> (u8 \<times> u8 option \<times> kernel) option" where
  "OSRQueue cqueue k = do {
     let k1 = EnterCritical k;
     q \<leftarrow> get_ring cqueue k1;
     if OSQEntries q > 0 then do {
       (bs, s) \<leftarrow> ring_read QUEUE_HEAP_SIZE 1 (q, QUEUE_STACK k1);
       Some (READ_BUFFER_OK, Some (hd bs), ExitCritical (put_ring cqueue s k1)) }
     else Some (NO_ENTRY_AVAILABLE, None, ExitCritical k1) }"

definition OSQueueClean :: "ptr \<Rightarrow> kernel \<Rightarrow> (u8 \<times> kernel) option" where
  "OSQueueClean pont_event k = do {
     e \<leftarrow> get_queue pont_event k;
     let k1 = EnterCritical k;
     q \<leftarrow> get_ring (OSEventPointer_q e) k1;
     Some (CLEAN_BUFFER_OK,
       ExitCritical (put_ring (OSEventPointer_q e) (ring_clean q, QUEUE_STACK k1) k1)) }"

text \<open>
  The result of a pend carries the byte stored through \<open>pdata\<close>, if one was. \<open>OSEventPointer\<close> is read
  before the test of the event pointer against \<open>NULL\<close>, so that test is never reached with \<open>NULL\<close>.
\<close>

definition take_entry :: "ptr \<Rightarrow> OS_QUEUE \<Rightarrow> kernel \<Rightarrow> (u8 \<times> u8 option \<times> kernel) option" where
  "take_entry c q k = do {
     (bs, s) \<leftarrow> ring_read QUEUE_HEAP_SIZE 1 (q, QUEUE_STACK k);
     Some (READ_BUFFER_OK, Some (hd bs), ExitCritical (put_ring c s k)) }"

definition OSQueuePend :: "ptr \<Rightarrow> u16 \<Rightarrow> kernel \<Rightarrow> (u8 \<times> u8 option) pend option" where
  "OSQueuePend pont_event time_wait k = do {
     e0 \<leftarrow> get_queue pont_event k;
     let c = OSEventPointer_q e0;
     if ERROR_CHECK k \<and> iNesting k > 0 then Some (Return (IRQ_PEND_ERR, None) k)
     else if ERROR_CHECK k \<and> pont_event = NULL then Some (Return (NULL_EVENT_POINTER, None) k)
     else do {
       let k1 = EnterCritical k;
       e \<leftarrow> get_queue pont_event k1;
       if ERROR_CHECK k1 \<and> OSEventAllocated e \<noteq> TRUE
       then Some (Return (ERR_EVENT_NO_CREATED, None) (ExitCritical k1))
       else do {
         q \<leftarrow> get_ring c k1;
         if OSQEntries q > 0 then do {
           (r, d, k2) \<leftarrow> take_entry c q k1;
           Some (Return (r, d) k2) }
         else if time_wait = NO_TIMEOUT
         then Some (Return (EXIT_BY_NO_ENTRY_AVAILABLE, None) (ExitCritical k1))
         else do {
           let t = unat (currentTask k1);
           Task \<leftarrow> task_at t k1;
           let iPriority = Priority Task;
           pmask \<leftarrow> PriorityMask iPriority;
           let k2 = put_queue pont_event (wait_add pmask e) k1;
           let k3 = suspend t pmask time_wait k2;
           Some (Wait t iPriority (ExitCritical k3)) } } } }"

definition OSQueuePend_resume ::
  "ptr \<Rightarrow> ptr \<Rightarrow> u16 \<Rightarrow> nat \<Rightarrow> u8 \<Rightarrow> kernel \<Rightarrow> (u8 \<times> u8 option \<times> kernel) option" where
  "OSQueuePend_resume pont_event c time_wait t iPriority k = do {
     let k1 = EnterCritical k;
     e \<leftarrow> get_queue pont_event k1;
     pmask \<leftarrow> PriorityMask iPriority;
     (gave_up, e2, k2) \<leftarrow> (if time_wait \<noteq> 0 then wait_over t pmask e k1 else Some (False, e, k1));
     let k3 = put_queue pont_event e2 k2;
     if gave_up then Some (TIMEOUT, None, ExitCritical k3)
     else do {
       q \<leftarrow> get_ring c k3;
       take_entry c q k3 } }"

definition OSQueuePost :: "ptr \<Rightarrow> u8 \<Rightarrow> kernel \<Rightarrow> (u8 \<times> kernel) option" where
  "OSQueuePost pont_event data k = do {
     e0 \<leftarrow> get_queue pont_event k;
     let c = OSEventPointer_q e0;
     if ERROR_CHECK k \<and> pont_event = NULL then Some (NULL_EVENT_POINTER, k)
     else do {
       let k1 = EnterCritical k;
       e \<leftarrow> get_queue pont_event k1;
       if ERROR_CHECK k1 \<and> OSEventAllocated e \<noteq> TRUE
       then Some (ERR_EVENT_NO_CREATED, ExitCritical k1)
       else do {
         q \<leftarrow> get_ring c k1;
         if OSQEntries q < OSQSize q then do {
           s \<leftarrow> ring_write QUEUE_HEAP_SIZE [data] (q, QUEUE_STACK k1);
           let k2 = put_ring c s k1;
           if OSEventWait e \<noteq> 0 then do {
             (_, e2, k3) \<leftarrow> wake_highest e k2;
             let k4 = put_queue pont_event e2 k3;
             let k5 = ChangeContext_if_not_nested k4;
             Some (WRITE_BUFFER_OK, ExitCritical k5) }
           else Some (WRITE_BUFFER_OK, ExitCritical k2) }
         else Some (BUFFER_UNDERRUN, ExitCritical k1) } } }"

subsection \<open>Queues of 16 and 32 bit entries\<close>

text \<open>
  Their control blocks \<open>cqueue\<close> belong to the caller. An entry lies in the heap in the byte order of
  the simulator's processor, least significant byte first.
\<close>

definition bytes16 :: "u16 \<Rightarrow> u8 list" where
  "bytes16 d = [ucast d, ucast (drop_bit 8 d)]"

definition of_bytes16 :: "u8 list \<Rightarrow> u16" where
  "of_bytes16 bs = (case bs of [a, b] \<Rightarrow> ucast a OR push_bit 8 (ucast b) | _ \<Rightarrow> 0)"

definition bytes32 :: "u32 \<Rightarrow> u8 list" where
  "bytes32 d = [ucast d, ucast (drop_bit 8 d), ucast (drop_bit 16 d), ucast (drop_bit 24 d)]"

definition of_bytes32 :: "u8 list \<Rightarrow> u32" where
  "of_bytes32 bs = (case bs of [a, b, c, d] \<Rightarrow>
     ucast a OR push_bit 8 (ucast b) OR push_bit 16 (ucast c) OR push_bit 24 (ucast d) | _ \<Rightarrow> 0)"

definition OSQueue16Create :: "OS_QUEUE \<Rightarrow> u16 \<Rightarrow> kernel \<Rightarrow> u8 \<times> OS_QUEUE \<times> kernel" where
  "OSQueue16Create cqueue sz k =
    (if iNesting k > 0 then (IRQ_PEND_ERR, cqueue, k)
     else
       (let k1 = EnterCritical_if_task k;
            sz1 = (if unat sz * 2 mod CPU_WORD \<noteq> 0 then sz + 1 else sz)
        in if unat (iQueueAddress k1) + unat sz1 * 2 div CPU_WORD > QUEUE_HEAP_SIZE div CPU_WORD
           then (NO_MEMORY, cqueue, ExitCritical_if_task k1)
           else
             (let q = ring_init 2 (CPU_WORD * unat (iQueueAddress k1)) sz1;
                  k2 = k1\<lparr>iQueueAddress := iQueueAddress k1 + word_of_nat (unat sz1 * 2 div CPU_WORD)\<rparr>
              in (ALLOC_EVENT_OK, q, ExitCritical_if_task k2))))"

definition OSWQueue16 :: "OS_QUEUE \<Rightarrow> u16 \<Rightarrow> kernel \<Rightarrow> (u8 \<times> OS_QUEUE \<times> kernel) option" where
  "OSWQueue16 cqueue data k =
    (let k1 = EnterCritical k
     in if OSQEntries cqueue < OSQSize cqueue then do {
          (q, m) \<leftarrow> ring_write QUEUE_HEAP_SIZE (bytes16 data) (cqueue, QUEUE_STACK k1);
          Some (WRITE_BUFFER_OK, q, ExitCritical (k1\<lparr>QUEUE_STACK := m\<rparr>)) }
        else Some (BUFFER_UNDERRUN, cqueue, ExitCritical k1))"

definition OSRQueue16 :: "OS_QUEUE \<Rightarrow> kernel \<Rightarrow> (u8 \<times> u16 option \<times> OS_QUEUE \<times> kernel) option" where
  "OSRQueue16 cqueue k =
    (let k1 = EnterCritical k
     in if OSQEntries cqueue > 0 then do {
          (bs, q, _) \<leftarrow> ring_read QUEUE_HEAP_SIZE 2 (cqueue, QUEUE_STACK k1);
          Some (READ_BUFFER_OK, Some (of_bytes16 bs), q, ExitCritical k1) }
        else Some (NO_ENTRY_AVAILABLE, None, cqueue, ExitCritical k1))"

definition OSCleanQueue16 :: "OS_QUEUE \<Rightarrow> kernel \<Rightarrow> u8 \<times> OS_QUEUE \<times> kernel" where
  "OSCleanQueue16 cqueue k = (CLEAN_BUFFER_OK, ring_clean cqueue, ExitCritical (EnterCritical k))"

definition OSQueue32Create :: "OS_QUEUE \<Rightarrow> u16 \<Rightarrow> kernel \<Rightarrow> u8 \<times> OS_QUEUE \<times> kernel" where
  "OSQueue32Create cqueue sz k =
    (if iNesting k > 0 then (IRQ_PEND_ERR, cqueue, k)
     else
       (let k1 = EnterCritical_if_task k
        in if unat (iQueueAddress k1) + unat sz * 4 div CPU_WORD > QUEUE_HEAP_SIZE div CPU_WORD
           then (NO_MEMORY, cqueue, ExitCritical_if_task k1)
           else
             (let q = ring_init 4 (CPU_WORD * unat (iQueueAddress k1)) sz;
                  k2 = k1\<lparr>iQueueAddress := iQueueAddress k1 + word_of_nat (unat sz * 4 div CPU_WORD)\<rparr>
              in (ALLOC_EVENT_OK, q, ExitCritical_if_task k2))))"

definition OSWQueue32 :: "OS_QUEUE \<Rightarrow> u32 \<Rightarrow> kernel \<Rightarrow> (u8 \<times> OS_QUEUE \<times> kernel) option" where
  "OSWQueue32 cqueue data k =
    (let k1 = EnterCritical k
     in if OSQEntries cqueue < OSQSize cqueue then do {
          (q, m) \<leftarrow> ring_write QUEUE_HEAP_SIZE (bytes32 data) (cqueue, QUEUE_STACK k1);
          Some (WRITE_BUFFER_OK, q, ExitCritical (k1\<lparr>QUEUE_STACK := m\<rparr>)) }
        else Some (BUFFER_UNDERRUN, cqueue, ExitCritical k1))"

definition OSRQueue32 :: "OS_QUEUE \<Rightarrow> kernel \<Rightarrow> (u8 \<times> u32 option \<times> OS_QUEUE \<times> kernel) option" where
  "OSRQueue32 cqueue k =
    (let k1 = EnterCritical k
     in if OSQEntries cqueue > 0 then do {
          (bs, q, _) \<leftarrow> ring_read QUEUE_HEAP_SIZE 4 (cqueue, QUEUE_STACK k1);
          Some (READ_BUFFER_OK, Some (of_bytes32 bs), q, ExitCritical k1) }
        else Some (NO_ENTRY_AVAILABLE, None, cqueue, ExitCritical k1))"

definition OSCleanQueue32 :: "OS_QUEUE \<Rightarrow> kernel \<Rightarrow> u8 \<times> OS_QUEUE \<times> kernel" where
  "OSCleanQueue32 cqueue k = (CLEAN_BUFFER_OK, ring_clean cqueue, ExitCritical (EnterCritical k))"

subsection \<open>The tables\<close>

lemma put_queue_frame [simp]:
  "ERROR_CHECK (put_queue p e k) = ERROR_CHECK k"
  "PriorityVector (put_queue p e k) = PriorityVector k"
  "iStackAddress (put_queue p e k) = iStackAddress k"
  "iQueueAddress (put_queue p e k) = iQueueAddress k"
  "StackAddress (put_queue p e k) = StackAddress k"
  "NumberOfInstalledTasks (put_queue p e k) = NumberOfInstalledTasks k"
  "currentTask (put_queue p e k) = currentTask k"
  "SelectedTask (put_queue p e k) = SelectedTask k"
  "OSReadyList (put_queue p e k) = OSReadyList k"
  "OSBlockedList (put_queue p e k) = OSBlockedList k"
  "OSTickCounter (put_queue p e k) = OSTickCounter k"
  "OSDuty (put_queue p e k) = OSDuty k"
  "OSDutyTmp (put_queue p e k) = OSDutyTmp k"
  "LastOSDuty (put_queue p e k) = LastOSDuty k"
  "DutyCnt (put_queue p e k) = DutyCnt k"
  "TaskAlloc (put_queue p e k) = TaskAlloc k"
  "iNesting (put_queue p e k) = iNesting k"
  "Tail (put_queue p e k) = Tail k"
  "Head (put_queue p e k) = Head k"
  "BRTOS_Sem_Table (put_queue p e k) = BRTOS_Sem_Table k"
  "BRTOS_Mutex_Table (put_queue p e k) = BRTOS_Mutex_Table k"
  "BRTOS_Mbox_Table (put_queue p e k) = BRTOS_Mbox_Table k"
  "BRTOS_OS_QUEUE_Table (put_queue p e k) = BRTOS_OS_QUEUE_Table k"
  "QUEUE_STACK (put_queue p e k) = QUEUE_STACK k"
  "ContextTask (put_queue p e k) = ContextTask k"
  "SPvalue (put_queue p e k) = SPvalue k"
  "PendingInterrupts (put_queue p e k) = PendingInterrupts k"
  "InterruptEventMutex (put_queue p e k) = InterruptEventMutex k"
  "InterruptEvent (put_queue p e k) = InterruptEvent k"
  "IsrHandler (put_queue p e k) = IsrHandler k"
  "UART_RX_buffer (put_queue p e k) = UART_RX_buffer k"
  "SerialQ (put_queue p e k) = SerialQ k"
  by (simp_all add: put_queue_def split: option.split)

lemma put_ring_frame [simp]:
  "ERROR_CHECK (put_ring p s k) = ERROR_CHECK k"
  "PriorityVector (put_ring p s k) = PriorityVector k"
  "iStackAddress (put_ring p s k) = iStackAddress k"
  "iQueueAddress (put_ring p s k) = iQueueAddress k"
  "StackAddress (put_ring p s k) = StackAddress k"
  "NumberOfInstalledTasks (put_ring p s k) = NumberOfInstalledTasks k"
  "currentTask (put_ring p s k) = currentTask k"
  "SelectedTask (put_ring p s k) = SelectedTask k"
  "OSReadyList (put_ring p s k) = OSReadyList k"
  "OSBlockedList (put_ring p s k) = OSBlockedList k"
  "OSTickCounter (put_ring p s k) = OSTickCounter k"
  "OSDuty (put_ring p s k) = OSDuty k"
  "OSDutyTmp (put_ring p s k) = OSDutyTmp k"
  "LastOSDuty (put_ring p s k) = LastOSDuty k"
  "DutyCnt (put_ring p s k) = DutyCnt k"
  "TaskAlloc (put_ring p s k) = TaskAlloc k"
  "iNesting (put_ring p s k) = iNesting k"
  "Tail (put_ring p s k) = Tail k"
  "Head (put_ring p s k) = Head k"
  "BRTOS_Sem_Table (put_ring p s k) = BRTOS_Sem_Table k"
  "BRTOS_Mutex_Table (put_ring p s k) = BRTOS_Mutex_Table k"
  "BRTOS_Mbox_Table (put_ring p s k) = BRTOS_Mbox_Table k"
  "BRTOS_Queue_Table (put_ring p s k) = BRTOS_Queue_Table k"
  "ContextTask (put_ring p s k) = ContextTask k"
  "SPvalue (put_ring p s k) = SPvalue k"
  "PendingInterrupts (put_ring p s k) = PendingInterrupts k"
  "InterruptEventMutex (put_ring p s k) = InterruptEventMutex k"
  "InterruptEvent (put_ring p s k) = InterruptEvent k"
  "IsrHandler (put_ring p s k) = IsrHandler k"
  "UART_RX_buffer (put_ring p s k) = UART_RX_buffer k"
  "SerialQ (put_ring p s k) = SerialQ k"
  by (simp_all add: put_ring_def split: option.split)

lemma get_put_queue: "get_queue p k = Some e \<Longrightarrow> get_queue p (put_queue p e' k) = Some e'"
  by (auto simp: get_queue_def deref_def put_queue_def split: option.splits if_splits)

lemma get_queue_not_NULL: "get_queue p k = Some e \<Longrightarrow> p \<noteq> NULL"
  by (auto simp: get_queue_def deref_def split: option.splits)

lemma get_queue_frame [simp]:
  "get_queue p (EnterCritical k) = get_queue p k" "get_queue p (ExitCritical k) = get_queue p k"
  "get_queue p (put_ring c s k) = get_queue p k" "get_queue p (suspend t m w k) = get_queue p k"
  "get_queue p (ChangeContext_if_not_nested k) = get_queue p k"
  "get_queue p (k\<lparr>OSReadyList := r\<rparr>) = get_queue p k"
  by (simp_all add: get_queue_def)

lemma get_ring_frame [simp]:
  "get_ring p (EnterCritical k) = get_ring p k" "get_ring p (ExitCritical k) = get_ring p k"
  "get_ring p (put_queue c e k) = get_ring p k"
  by (simp_all add: get_ring_def)

lemma sys_ok_put_queue:
  assumes "sys_ok k xs"
  shows "sys_ok (put_queue p e k) xs" "sys_ok (put_ring c s k) xs"
proof -
  have "sys_ok (k\<lparr>BRTOS_OS_QUEUE_Table := a, QUEUE_STACK := b\<rparr>) xs" for a b
    using sys_ok_tables(6) [OF sys_ok_tables(5) [OF assms]] by simp
  then show "sys_ok (put_ring c s k) xs" using assms by (simp add: put_ring_def split: option.split)
  show "sys_ok (put_queue p e k) xs" using assms by (simp add: put_queue_def sys_ok_tables split: option.split)
qed

subsection \<open>The heap of queues\<close>

definition live :: "kernel \<Rightarrow> nat \<Rightarrow> bool" where
  "live k i \<longleftrightarrow> i < BRTOS_MAX_QUEUE \<and> OSEventAllocated (BRTOS_Queue_Table k i) = TRUE"

definition queued :: "kernel \<Rightarrow> nat \<Rightarrow> u8 list" where
  "queued k i = map hd (ring_contents 1 (BRTOS_OS_QUEUE_Table k i, QUEUE_STACK k))"

definition capacity :: "kernel \<Rightarrow> nat \<Rightarrow> nat" where
  "capacity k i = unat (OSQSize (BRTOS_OS_QUEUE_Table k i))"

text \<open>
  The invariant of the byte queues: every created queue has its own ring, in order, inside the part
  of the heap that was handed out, and no two rings overlap.
\<close>

definition apart :: "OS_QUEUE \<Rightarrow> OS_QUEUE \<Rightarrow> bool" where
  "apart q r \<longleftrightarrow> OSQEnd q \<le> OSQStart r \<or> OSQEnd r \<le> OSQStart q"

definition queues_ok :: "kernel \<Rightarrow> bool" where
  "queues_ok k \<longleftrightarrow> CPU_WORD * unat (iQueueAddress k) \<le> QUEUE_HEAP_SIZE \<and>
     (\<forall>i. live k i \<longrightarrow> OSEventPointer_q (BRTOS_Queue_Table k i) = Some i \<and>
        ring_ok QUEUE_HEAP_SIZE 1 (BRTOS_OS_QUEUE_Table k i) \<and>
        OSQEnd (BRTOS_OS_QUEUE_Table k i) \<le> CPU_WORD * unat (iQueueAddress k)) \<and>
     (\<forall>i j. live k i \<longrightarrow> live k j \<longrightarrow> i \<noteq> j \<longrightarrow> apart (BRTOS_OS_QUEUE_Table k i) (BRTOS_OS_QUEUE_Table k j))"

lemma queues_okD:
  assumes "queues_ok k"
  shows "CPU_WORD * unat (iQueueAddress k) \<le> QUEUE_HEAP_SIZE"
    "live k i \<Longrightarrow> OSEventPointer_q (BRTOS_Queue_Table k i) = Some i"
    "live k i \<Longrightarrow> ring_ok QUEUE_HEAP_SIZE 1 (BRTOS_OS_QUEUE_Table k i)"
    "live k i \<Longrightarrow> OSQEnd (BRTOS_OS_QUEUE_Table k i) \<le> CPU_WORD * unat (iQueueAddress k)"
    "live k i \<Longrightarrow> live k j \<Longrightarrow> i \<noteq> j \<Longrightarrow> apart (BRTOS_OS_QUEUE_Table k i) (BRTOS_OS_QUEUE_Table k j)"
  using assms unfolding queues_ok_def by blast+

lemma ring_bounds: "ring_ok N z q \<Longrightarrow> OSQStart q \<le> OSQEnd q"
  by (auto simp: ring_ok_def cell_def)

lemma length_queued: "length (queued k i) = unat (OSQEntries (BRTOS_OS_QUEUE_Table k i))"
  by (simp add: queued_def)

lemma queued_le: "queues_ok k \<Longrightarrow> live k i \<Longrightarrow> length (queued k i) \<le> capacity k i"
  using queues_okD(3) by (simp add: length_queued capacity_def ring_ok_def)

lemma live_get:
  assumes "live k i"
  shows "get_queue (Some i) k = Some (BRTOS_Queue_Table k i)"
    "get_ring (Some i) k = Some (BRTOS_OS_QUEUE_Table k i)"
  using assms by (simp_all add: live_def get_queue_def get_ring_def)

text \<open>An operation on one ring keeps the invariant and the other queues.\<close>

lemma queues_update:
  assumes ok: "queues_ok k" and i: "live k i"
    and ev: "\<And>j. OSEventAllocated (BRTOS_Queue_Table k' j) = OSEventAllocated (BRTOS_Queue_Table k j)"
      "\<And>j. OSEventPointer_q (BRTOS_Queue_Table k' j) = OSEventPointer_q (BRTOS_Queue_Table k j)"
    and h: "iQueueAddress k' = iQueueAddress k" "BRTOS_OS_QUEUE_Table k' = (BRTOS_OS_QUEUE_Table k)(i := q')"
    and q: "ring_ok QUEUE_HEAP_SIZE 1 q'" "OSQStart q' = OSQStart (BRTOS_OS_QUEUE_Table k i)"
      "OSQEnd q' = OSQEnd (BRTOS_OS_QUEUE_Table k i)"
    and out: "\<And>a. a < OSQStart q' \<or> OSQEnd q' \<le> a \<Longrightarrow> QUEUE_STACK k' a = QUEUE_STACK k a"
  shows "queues_ok k'" "\<And>j. live k' j = live k j" "\<And>j. live k j \<Longrightarrow> j \<noteq> i \<Longrightarrow> queued k' j = queued k j"
proof -
  show l: "live k' j = live k j" for j by (simp add: live_def ev)
  let ?t = "BRTOS_OS_QUEUE_Table k"
  have ap: "apart q' (?t j)" "apart (?t j) q'" if "live k j" "j \<noteq> i" for j
    using queues_okD(5) [OF ok i that(1)] that(2) q(2,3) by (auto simp: apart_def)
  show "queues_ok k'"
    unfolding queues_ok_def l ev h
    using queues_okD [OF ok] q ap i by auto
  show "queued k' j = queued k j" if j: "live k j" "j \<noteq> i" for j
  proof -
    have "ring_contents 1 (?t j, QUEUE_STACK k') = ring_contents 1 (?t j, QUEUE_STACK k)"
    proof (rule ring_contents_cong [OF queues_okD(3) [OF ok j(1)]])
      show "QUEUE_STACK k' a = QUEUE_STACK k a" if "OSQStart (?t j) \<le> a" "a < OSQEnd (?t j)" for a
        using out [of a] ap(1) [OF j] that by (auto simp: apart_def)
    qed
    then show ?thesis using j(2) by (simp add: queued_def h)
  qed
qed

lemma queued_cong:
  assumes "BRTOS_OS_QUEUE_Table k' = BRTOS_OS_QUEUE_Table k" "QUEUE_STACK k' = QUEUE_STACK k"
  shows "queued k' i = queued k i" "capacity k' i = capacity k i"
  by (simp_all add: queued_def capacity_def assms)

lemma queues_cong:
  assumes "queues_ok k" "iQueueAddress k' = iQueueAddress k" "BRTOS_OS_QUEUE_Table k' = BRTOS_OS_QUEUE_Table k"
    "\<And>j. OSEventAllocated (BRTOS_Queue_Table k' j) = OSEventAllocated (BRTOS_Queue_Table k j)"
    "\<And>j. OSEventPointer_q (BRTOS_Queue_Table k' j) = OSEventPointer_q (BRTOS_Queue_Table k j)"
  shows "queues_ok k'" "live k' i = live k i"
proof -
  have "live k' j = live k j" for j by (simp add: live_def assms)
  then show "queues_ok k'" "live k' i = live k i" using assms(1) unfolding queues_ok_def assms(2-5) by simp_all
qed

subsection \<open>Creating queues\<close>

lemma round_up_unat:
  "unat (round_up n) = (if unat n \<le> 65532 then 4 * ((unat n + 3) div 4) else 0)"
proof (cases "unat n mod 4 = 0")
  case True
  have "(unat n + 3) div 4 = unat n div 4" using True by presburger
  moreover have "unat n \<le> 65532" using True unat_u16_less [of n] by presburger
  ultimately show ?thesis using True by (simp add: round_up_def config mult_div_mod_eq [symmetric])
next
  case False
  let ?r = "unat n mod 4"
  have "(4 :: u16) - word_of_nat ?r = word_of_nat (4 - ?r)" by (simp add: of_nat_diff)
  then have eq: "round_up n = word_of_nat (unat n + (4 - ?r))" using False by (simp add: round_up_def config)
  have "unat (round_up n) = (unat n + (4 - ?r)) mod 65536"
    unfolding eq unsigned_of_nat take_bit_eq_mod by simp
  moreover have "unat n + (4 - ?r) = 4 * ((unat n + 3) div 4)" using False by presburger
  moreover have "4 * ((unat n + 3) div 4) = 65536 \<longleftrightarrow> \<not> unat n \<le> 65532" "4 * ((unat n + 3) div 4) \<le> 65536"
    using unat_u16_less [of n] False by presburger+
  ultimately show ?thesis by (cases "unat n \<le> 65532") auto
qed

definition heap_full :: "u16 \<Rightarrow> kernel \<Rightarrow> bool" where
  "heap_full sz k \<longleftrightarrow> CPU_WORD * unat (iQueueAddress k) + unat (round_up sz) > QUEUE_HEAP_SIZE"

lemma heap_full_frame [simp]: "heap_full sz (EnterCritical_if_task k) = heap_full sz k"
  by (simp add: heap_full_def)

lemma round_up_dvd: "4 dvd unat (round_up n)"
  by (simp add: round_up_unat)

lemma heap_full_words:
  "unat (iQueueAddress k) + unat (round_up sz) div CPU_WORD > QUEUE_HEAP_SIZE div CPU_WORD \<longleftrightarrow> heap_full sz k"
  using round_up_dvd [of sz] by (auto simp: heap_full_def config)

lemma create_state:
  assumes ok: "queues_ok k" and room: "\<not> heap_full sz k" and i: "i < BRTOS_MAX_QUEUE" "\<not> live k i"
    and tab: "BRTOS_OS_QUEUE_Table k' = (BRTOS_OS_QUEUE_Table k)
        (i := ring_init 1 (CPU_WORD * unat (iQueueAddress k)) (round_up sz))"
      "QUEUE_STACK k' = QUEUE_STACK k"
      "iQueueAddress k' = iQueueAddress k + word_of_nat (unat (round_up sz) div CPU_WORD)"
    and ev: "OSEventAllocated (BRTOS_Queue_Table k' i) = TRUE" "OSEventPointer_q (BRTOS_Queue_Table k' i) = Some i"
      "\<And>j. j \<noteq> i \<Longrightarrow> BRTOS_Queue_Table k' j = BRTOS_Queue_Table k j"
  shows "queues_ok k'" "live k' j \<longleftrightarrow> live k j \<or> j = i" "live k j \<Longrightarrow> queued k' j = queued k j"
    "queued k' i = []" "capacity k' i = unat (round_up sz)"
proof -
  let ?A = "4 * unat (iQueueAddress k)" and ?S = "unat (round_up sz)"
  let ?q = "ring_init 1 ?A (round_up sz)" and ?t = "BRTOS_OS_QUEUE_Table k"
  have le: "?A + ?S \<le> 1024" using room by (simp add: heap_full_def config)
  have "unat (iQueueAddress k') = unat (iQueueAddress k) + ?S div 4"
    using le by (simp add: tab(3) unat_word_ariths unat_of_nat_u16 config)
  then have A: "4 * unat (iQueueAddress k') = ?A + ?S" using round_up_dvd [of sz] by simp
  have l: "live k' j \<longleftrightarrow> live k j \<or> j = i" for j
    using ev i(1) by (cases "j = i") (simp_all add: live_def)
  show "live k' j \<longleftrightarrow> live k j \<or> j = i" by (rule l)
  have q: "ring_ok QUEUE_HEAP_SIZE 1 ?q" "ring_contents 1 (?q, QUEUE_STACK k) = []"
    using ring_init_ok(1) [of 1 ?A "round_up sz" QUEUE_HEAP_SIZE] ring_init_ok(2) [of 1 ?A "round_up sz" QUEUE_HEAP_SIZE] le
    by (simp_all add: config)
  have e: "OSQStart ?q = ?A" "OSQEnd ?q = ?A + ?S" "OSQSize ?q = round_up sz" by (simp_all add: ring_init_def)
  have t: "BRTOS_OS_QUEUE_Table k' j = (if j = i then ?q else ?t j)" for j by (simp add: tab(1) config)
  have ap: "apart (?t j) ?q" "apart ?q (?t j)" if "live k j" for j
    using queues_okD(4) [OF ok that] by (simp_all add: apart_def ring_init_def config)
  have ends: "OSQEnd (?t j) \<le> ?A" if "live k j" for j using queues_okD(4) [OF ok that] by (simp add: config)
  have p: "OSEventPointer_q (BRTOS_Queue_Table k' j) = Some j" if "live k' j" for j
    using that ev queues_okD(2) [OF ok, of j] by (cases "j = i") (simp_all add: l)
  have r: "ring_ok QUEUE_HEAP_SIZE 1 (BRTOS_OS_QUEUE_Table k' j)" if "live k' j" for j
    using that q(1) queues_okD(3) [OF ok, of j] by (cases "j = i") (simp_all add: l t)
  have n: "OSQEnd (BRTOS_OS_QUEUE_Table k' j) \<le> ?A + ?S" if "live k' j" for j
    using that e(2) ends [of j] by (cases "j = i") (auto simp: l t)
  have a: "apart (BRTOS_OS_QUEUE_Table k' j) (BRTOS_OS_QUEUE_Table k' h)" if "live k' j" "live k' h" "j \<noteq> h" for j h
    using that ap queues_okD(5) [OF ok, of j h] by (auto simp: l t)
  show "queues_ok k'"
    unfolding queues_ok_def using p r n a le A by (simp add: config)
  show "queued k' j = queued k j" if "live k j"
  proof -
    have "j \<noteq> i" using that i(2) by auto
    then show ?thesis by (simp add: queued_def t tab(2))
  qed
  show "queued k' i = []" using q(2) by (simp add: queued_def t tab(2))
  show "capacity k' i = unat (round_up sz)" by (simp add: capacity_def t ring_init_def)
qed

text \<open>
  C20. \<open>OSQueueCreate\<close> keeps the byte queues well-formed: it refuses a queue that does not fit in the
  rest of the heap or for which no control block is free, and otherwise adds an empty queue whose ring
  overlaps no other. Its capacity is the size rounded up to words, except that sizes above 65532 round
  to a queue that can hold nothing.
\<close>

theorem OSQueueCreate_keeps_queues:
  assumes "queues_ok k" "iNesting k = 0"
  shows "case OSQueueCreate sz event k of (ret, p, k') \<Rightarrow>
    queues_ok k' \<and> (\<forall>j. live k j \<longrightarrow> live k' j \<and> queued k' j = queued k j) \<and>
    (if heap_full sz k then ret = NO_MEMORY \<and> p = event
     else if \<forall>i < BRTOS_MAX_QUEUE. live k i then ret = NO_AVAILABLE_EVENT \<and> p = event
     else ret = ALLOC_EVENT_OK \<and> (\<exists>i. p = Some i \<and> \<not> live k i \<and> live k' i \<and> queued k' i = [] \<and>
       capacity k' i = (if unat sz \<le> 65532 then 4 * ((unat sz + 3) div 4) else 0)))"
proof -
  define k1 where "k1 = ExitCritical_if_task (EnterCritical_if_task k)"
  have same: "queues_ok k1 \<and> (\<forall>j. live k j \<longrightarrow> live k1 j \<and> queued k1 j = queued k j)"
    using queues_cong [OF assms(1), of k1] queued_cong [of k1 k] by (simp add: k1_def)
  have fr: "find_free 0 BRTOS_MAX_QUEUE (BRTOS_Queue_Table k) = None \<longleftrightarrow> (\<forall>i < BRTOS_MAX_QUEUE. live k i)"
    by (simp add: find_free_None live_def)
  have run: "OSQueueCreate sz event k =
    (if heap_full sz k then (NO_MEMORY, event, k1)
     else case find_free 0 BRTOS_MAX_QUEUE (BRTOS_Queue_Table k) of
       None \<Rightarrow> (NO_AVAILABLE_EVENT, event, k1)
     | Some i \<Rightarrow> (ALLOC_EVENT_OK, Some i, ExitCritical_if_task (put_queue (Some i)
         ((BRTOS_Queue_Table k i)\<lparr>OSEventAllocated := TRUE, OSEventPointer_q := Some i, OSEventWait := 0, OSEventWaitList := 0\<rparr>)
         ((put_ring (Some i) (ring_init 1 (CPU_WORD * unat (iQueueAddress k)) (round_up sz), QUEUE_STACK k)
            (EnterCritical_if_task k))\<lparr>iQueueAddress := iQueueAddress k + word_of_nat (unat (round_up sz) div CPU_WORD)\<rparr>))))"
    using assms(2) by (simp add: OSQueueCreate_def Let_def heap_full_words k1_def split: option.split)
  show ?thesis
  proof (cases "heap_full sz k")
    case True
    then show ?thesis using same run by simp
  next
    case room: False
    show ?thesis
    proof (cases "find_free 0 BRTOS_MAX_QUEUE (BRTOS_Queue_Table k)")
      case None
      then show ?thesis using same run fr room by simp
    next
      case (Some i)
      note i = find_free_Some [OF Some]
      have nl: "\<not> live k i" "i < BRTOS_MAX_QUEUE" "(\<forall>i < BRTOS_MAX_QUEUE. live k i) = False" using i by (auto simp: live_def)
      define k' where "k' = ExitCritical_if_task (put_queue (Some i)
         ((BRTOS_Queue_Table k i)\<lparr>OSEventAllocated := TRUE, OSEventPointer_q := Some i, OSEventWait := 0, OSEventWaitList := 0\<rparr>)
         ((put_ring (Some i) (ring_init 1 (CPU_WORD * unat (iQueueAddress k)) (round_up sz), QUEUE_STACK k)
            (EnterCritical_if_task k))\<lparr>iQueueAddress := iQueueAddress k + word_of_nat (unat (round_up sz) div CPU_WORD)\<rparr>))"
      have r: "OSQueueCreate sz event k = (ALLOC_EVENT_OK, Some i, k')" using run room Some by (simp add: k'_def)
      have tab: "BRTOS_OS_QUEUE_Table k' = (BRTOS_OS_QUEUE_Table k)
          (i := ring_init 1 (CPU_WORD * unat (iQueueAddress k)) (round_up sz))"
        "QUEUE_STACK k' = QUEUE_STACK k"
        "iQueueAddress k' = iQueueAddress k + word_of_nat (unat (round_up sz) div CPU_WORD)"
        "OSEventAllocated (BRTOS_Queue_Table k' i) = TRUE" "OSEventPointer_q (BRTOS_Queue_Table k' i) = Some i"
        "\<And>j. j \<noteq> i \<Longrightarrow> BRTOS_Queue_Table k' j = BRTOS_Queue_Table k j"
        by (simp_all add: k'_def put_ring_def put_queue_def)
      note st = create_state [OF assms(1) room nl(2,1) tab]
      have no: "heap_full sz k = False" using room by simp
      show ?thesis unfolding r prod.case nl(3) no if_False using st nl(1) by (simp add: round_up_unat)
    qed
  qed
qed

subsection \<open>Post\<close>

text \<open>What a write and a read of one ring do to the heap of queues.\<close>

lemma write_one:
  assumes "queues_ok k" "live k i" "length (queued k i) < capacity k i"
  obtains q' m' where "ring_write QUEUE_HEAP_SIZE [d] (BRTOS_OS_QUEUE_Table k i, QUEUE_STACK k) = Some (q', m')"
    "ring_ok QUEUE_HEAP_SIZE 1 q'" "OSQStart q' = OSQStart (BRTOS_OS_QUEUE_Table k i)"
    "OSQEnd q' = OSQEnd (BRTOS_OS_QUEUE_Table k i)" "OSQSize q' = OSQSize (BRTOS_OS_QUEUE_Table k i)"
    "map hd (ring_contents 1 (q', m')) = queued k i @ [d]"
    "\<And>a. a < OSQStart q' \<or> OSQEnd q' \<le> a \<Longrightarrow> m' a = QUEUE_STACK k a"
proof -
  have room: "unat (OSQEntries (BRTOS_OS_QUEUE_Table k i)) < unat (OSQSize (BRTOS_OS_QUEUE_Table k i))"
    using assms(3) by (simp add: length_queued capacity_def)
  obtain q' m' where r: "ring_write QUEUE_HEAP_SIZE [d] (BRTOS_OS_QUEUE_Table k i, QUEUE_STACK k) = Some (q', m')"
    "ring_ok QUEUE_HEAP_SIZE 1 q'"
    "ring_contents 1 (q', m') = ring_contents 1 (BRTOS_OS_QUEUE_Table k i, QUEUE_STACK k) @ [[d]]"
    "OSQSize q' = OSQSize (BRTOS_OS_QUEUE_Table k i)" "OSQStart q' = OSQStart (BRTOS_OS_QUEUE_Table k i)"
    "OSQEnd q' = OSQEnd (BRTOS_OS_QUEUE_Table k i)"
    "\<And>a. a < OSQStart (BRTOS_OS_QUEUE_Table k i) \<or> OSQEnd (BRTOS_OS_QUEUE_Table k i) \<le> a \<Longrightarrow> m' a = QUEUE_STACK k a"
    by (rule ring_write_ok [OF queues_okD(3) [OF assms(1,2)] room, of "[d]" "QUEUE_STACK k"]) (simp, blast)
  show thesis by (rule that [OF r(1,2,5,6,4)]) (simp_all only: r(3) queued_def map_append list.map list.sel, simp_all add: r(5,6,7))
qed

lemma read_one:
  assumes "queues_ok k" "live k i" "queued k i \<noteq> []"
  obtains q' bs where "ring_read QUEUE_HEAP_SIZE 1 (BRTOS_OS_QUEUE_Table k i, QUEUE_STACK k) = Some (bs, q', QUEUE_STACK k)"
    "ring_ok QUEUE_HEAP_SIZE 1 q'" "OSQStart q' = OSQStart (BRTOS_OS_QUEUE_Table k i)"
    "OSQEnd q' = OSQEnd (BRTOS_OS_QUEUE_Table k i)" "OSQSize q' = OSQSize (BRTOS_OS_QUEUE_Table k i)"
    "hd bs = hd (queued k i)" "map hd (ring_contents 1 (q', QUEUE_STACK k)) = tl (queued k i)"
proof -
  let ?c = "ring_contents 1 (BRTOS_OS_QUEUE_Table k i, QUEUE_STACK k)"
  have ne: "?c \<noteq> []" using assms(3) by (simp add: queued_def)
  then have pos: "0 < unat (OSQEntries (BRTOS_OS_QUEUE_Table k i))"
    using length_ring_contents [of 1 "BRTOS_OS_QUEUE_Table k i" "QUEUE_STACK k"] by (metis length_greater_0_conv)
  obtain q' where r: "ring_read QUEUE_HEAP_SIZE 1 (BRTOS_OS_QUEUE_Table k i, QUEUE_STACK k) = Some (hd ?c, q', QUEUE_STACK k)"
    "ring_ok QUEUE_HEAP_SIZE 1 q'" "ring_contents 1 (q', QUEUE_STACK k) = tl ?c"
    "OSQSize q' = OSQSize (BRTOS_OS_QUEUE_Table k i)" "OSQStart q' = OSQStart (BRTOS_OS_QUEUE_Table k i)"
    "OSQEnd q' = OSQEnd (BRTOS_OS_QUEUE_Table k i)"
    by (rule ring_read_ok [OF queues_okD(3) [OF assms(1,2)] pos, of "QUEUE_STACK k"])
  show thesis by (rule that [OF r(1,2,5,6,4)]) (simp_all only: r(3) queued_def list.map_sel(1) [OF ne] map_tl)
qed

lemma less_capacity: "OSQEntries (BRTOS_OS_QUEUE_Table k i) < OSQSize (BRTOS_OS_QUEUE_Table k i)
    \<longleftrightarrow> length (queued k i) < capacity k i"
  by (simp add: length_queued capacity_def word_less_nat_alt)

lemma empty_queued: "OSQEntries (BRTOS_OS_QUEUE_Table k i) > 0 \<longleftrightarrow> queued k i \<noteq> []"
  using length_queued [of k i] by (metis length_0_conv unat_gt_0 unsigned_0 word_neq_0_conv length_greater_0_conv)

lemma OSQueuePost_checked:
  assumes "queues_ok k" "live k i"
  shows "OSQueuePost (Some i) d k =
    (if length (queued k i) < capacity k i then do {
       s \<leftarrow> ring_write QUEUE_HEAP_SIZE [d] (BRTOS_OS_QUEUE_Table k i, QUEUE_STACK k);
       let k2 = put_ring (Some i) s (EnterCritical k);
       if OSEventWait (BRTOS_Queue_Table k i) \<noteq> 0 then do {
         (_, e2, k3) \<leftarrow> wake_highest (BRTOS_Queue_Table k i) k2;
         Some (WRITE_BUFFER_OK, ExitCritical (ChangeContext_if_not_nested (put_queue (Some i) e2 k3))) }
       else Some (WRITE_BUFFER_OK, ExitCritical k2) }
     else Some (BUFFER_UNDERRUN, ExitCritical (EnterCritical k)))"
proof -
  have 1: "\<not> (ERROR_CHECK k \<and> Some i = NULL)" by simp
  have 2: "get_queue (Some i) (EnterCritical k) = Some (BRTOS_Queue_Table k i)"
    "get_ring (Some i) (EnterCritical k) = Some (BRTOS_OS_QUEUE_Table k i)"
    using live_get [OF assms(2)] by simp_all
  have 3: "\<not> (ERROR_CHECK (EnterCritical k) \<and> OSEventAllocated (BRTOS_Queue_Table k i) \<noteq> TRUE)"
    using assms(2) by (simp add: live_def)
  show ?thesis
    unfolding OSQueuePost_def Let_def live_get [OF assms(2)] bind.bind_lunit if_not_P [OF 1] 2 if_not_P [OF 3]
      queues_okD(2) [OF assms] less_capacity by simp
qed

text \<open>The queue's event, and the priorities that wait on it.\<close>

abbreviation waiting_on :: "kernel \<Rightarrow> nat \<Rightarrow> nat set" where
  "waiting_on k i \<equiv> waiters (BRTOS_Queue_Table k i)"

lemma OSQueuePost_run:
  assumes ok: "queues_ok k" "live k i" "event_ok (BRTOS_Queue_Table k i)" "nestable k"
    and room: "length (queued k i) < capacity k i"
  defines "W \<equiv> if waiting_on k i = {} then {} else {Max (waiting_on k i)}"
  obtains k' where "OSQueuePost (Some i) d k = Some (WRITE_BUFFER_OK, k')" "queues_ok k'"
    "\<And>j. live k' j = live k j" "queued k' i = queued k i @ [d]" "capacity k' i = capacity k i"
    "\<And>j. live k j \<Longrightarrow> j \<noteq> i \<Longrightarrow> queued k' j = queued k j"
    "waiting_on k' i = waiting_on k i - W" "event_ok (BRTOS_Queue_Table k' i)"
    "prios (OSReadyList k') = prios (OSReadyList k) \<union> W" "iNesting k' = iNesting k"
    "ContextTask k' = ContextTask k" "ERROR_CHECK k' = ERROR_CHECK k" "TaskAlloc k' = TaskAlloc k"
    "currentTask k' = currentTask k" "PendingInterrupts k' = PendingInterrupts k"
    "OSTickCounter k' = OSTickCounter k"
proof -
  let ?e = "BRTOS_Queue_Table k i"
  obtain q' m' where w: "ring_write QUEUE_HEAP_SIZE [d] (BRTOS_OS_QUEUE_Table k i, QUEUE_STACK k) = Some (q', m')"
    and q: "ring_ok QUEUE_HEAP_SIZE 1 q'" "OSQStart q' = OSQStart (BRTOS_OS_QUEUE_Table k i)"
    "OSQEnd q' = OSQEnd (BRTOS_OS_QUEUE_Table k i)" "OSQSize q' = OSQSize (BRTOS_OS_QUEUE_Table k i)"
    "map hd (ring_contents 1 (q', m')) = queued k i @ [d]"
    "\<And>a. a < OSQStart q' \<or> OSQEnd q' \<le> a \<Longrightarrow> m' a = QUEUE_STACK k a"
    by (rule write_one [OF ok(1,2) room, of d]) blast
  define k2 where "k2 = put_ring (Some i) (q', m') (EnterCritical k)"
  have n2: "iNesting k2 \<noteq> 0" using nestable_inc [OF ok(4)] by (simp add: k2_def)
  define k' where "k' = (if waiting_on k i = {} then ExitCritical k2
     else ExitCritical (put_queue (Some i) (wait_del (pbit (Max (waiting_on k i))) ?e)
       (k2\<lparr>OSReadyList := OSReadyList k OR pbit (Max (waiting_on k i))\<rparr>)))"
  have r2: "OSReadyList k2 = OSReadyList k" by (simp add: k2_def)
  have run: "OSQueuePost (Some i) d k = Some (WRITE_BUFFER_OK, k')"
  proof (cases "waiting_on k i = {}")
    case True
    then have "OSEventWait ?e = 0" using ok(3) by (simp add: event_ok_no_waiters)
    then show ?thesis using True room by (simp add: OSQueuePost_checked [OF ok(1,2)] w k'_def k2_def)
  next
    case False
    then have ew: "OSEventWait ?e \<noteq> 0" using ok(3) by (simp add: event_ok_no_waiters)
    have sch: "unat (SAScheduler (OSEventWaitList ?e)) = Max (waiting_on k i)" by (rule wq.best_Max [OF False])
    have "iNesting (put_queue (Some i) x (k2\<lparr>OSReadyList := y\<rparr>)) \<noteq> 0" for x y using n2 by simp
    then show ?thesis using False ew room nestable_inc [OF ok(4)]
      by (simp add: OSQueuePost_checked [OF ok(1,2)] w wake_highest_Some sch k'_def r2
          ChangeContext_if_not_nested_def flip: k2_def)
  qed
  have mx: "Max (waiting_on k i) \<in> waiting_on k i" "Max (waiting_on k i) < 32" if "waiting_on k i \<noteq> {}"
    using that Max_in [OF waiters_finite] waiters_bound by auto
  have tab: "BRTOS_OS_QUEUE_Table k' = (BRTOS_OS_QUEUE_Table k)(i := q')" "QUEUE_STACK k' = m'"
    "iQueueAddress k' = iQueueAddress k"
    by (simp_all add: k'_def k2_def put_ring_def)
  have ev: "OSEventAllocated (BRTOS_Queue_Table k' j) = OSEventAllocated (BRTOS_Queue_Table k j)"
    "OSEventPointer_q (BRTOS_Queue_Table k' j) = OSEventPointer_q (BRTOS_Queue_Table k j)" for j
    by (simp_all add: k'_def k2_def put_queue_def wait_del_def)
  have out: "QUEUE_STACK k' a = QUEUE_STACK k a" if "a < OSQStart q' \<or> OSQEnd q' \<le> a" for a
    using q(6) [OF that] by (simp add: tab(2))
  note up = queues_update [OF ok(1,2) ev tab(3,1) q(1-3) out]
  have wt: "waiting_on k' i = waiting_on k i - W" "event_ok (BRTOS_Queue_Table k' i)"
    using mx event_ok_wait_del [OF ok(3) mx(1)] ok(3)
    by (auto simp: k'_def k2_def put_queue_def W_def waiters_wait_del put_ring_def)
  have rl: "prios (OSReadyList k') = prios (OSReadyList k) \<union> W"
    using mx by (simp add: k'_def r2 W_def prios_set)
  have nn: "iNesting k' = iNesting k"
    using nestable_inc [OF ok(4)] by (simp add: k'_def k2_def iNesting_ExitCritical)
  have cq: "queued k' i = queued k i @ [d]" "capacity k' i = capacity k i"
    using q(4,5) by (simp_all add: queued_def capacity_def tab)
  show thesis
    by (rule that [OF run up(1,2) cq up(3) wt rl nn]) (simp_all add: k'_def k2_def)
qed

text \<open>
  \<open>OSQueuePost\<close> appends the byte to its queue and wakes the waiter of highest priority, or answers
  \<open>BUFFER_UNDERRUN\<close> when the queue is full; the heap of queues stays well-formed and no other queue
  changes.
\<close>

theorem OSQueuePost_appends:
  assumes "queues_ok k" "live k i" "event_ok (BRTOS_Queue_Table k i)" "nestable k"
  defines "W \<equiv> if waiting_on k i = {} \<or> length (queued k i) = capacity k i then {} else {Max (waiting_on k i)}"
  shows "\<exists>ret k'. OSQueuePost (Some i) d k = Some (ret, k') \<and> queues_ok k' \<and>
    (\<forall>j. live k j \<and> j \<noteq> i \<longrightarrow> queued k' j = queued k j) \<and>
    (if length (queued k i) < capacity k i
     then ret = WRITE_BUFFER_OK \<and> queued k' i = queued k i @ [d]
     else ret = BUFFER_UNDERRUN \<and> queued k' i = queued k i) \<and>
    waiting_on k' i = waiting_on k i - W \<and> prios (OSReadyList k') = prios (OSReadyList k) \<union> W"
proof (cases "length (queued k i) < capacity k i")
  case True
  obtain k' where "OSQueuePost (Some i) d k = Some (WRITE_BUFFER_OK, k')" "queues_ok k'"
    "queued k' i = queued k i @ [d]" "\<And>j. live k j \<Longrightarrow> j \<noteq> i \<Longrightarrow> queued k' j = queued k j"
    "waiting_on k' i = waiting_on k i - (if waiting_on k i = {} then {} else {Max (waiting_on k i)})"
    "prios (OSReadyList k') = prios (OSReadyList k) \<union> (if waiting_on k i = {} then {} else {Max (waiting_on k i)})"
    by (rule OSQueuePost_run [OF assms(1-4) True, of d]) blast
  then show ?thesis using True by (intro exI [of _ WRITE_BUFFER_OK] exI [of _ k']) (simp add: W_def)
next
  case False
  then have full: "length (queued k i) = capacity k i" using queued_le [OF assms(1,2)] by simp
  define k' where "k' = ExitCritical (EnterCritical k)"
  have "OSQueuePost (Some i) d k = Some (BUFFER_UNDERRUN, k')"
    using False by (simp add: OSQueuePost_checked [OF assms(1,2)] k'_def)
  moreover have "queues_ok k'" by (rule queues_cong(1) [OF assms(1)]) (simp_all add: k'_def)
  moreover have "queued k' j = queued k j" for j by (rule queued_cong) (simp_all add: k'_def)
  ultimately show ?thesis using False full by (simp add: W_def) (simp add: k'_def)
qed

subsection \<open>Pend\<close>

lemma OSQueuePend_checked:
  assumes "queues_ok k" "live k i" "ERROR_CHECK k \<longrightarrow> iNesting k = 0"
  shows "OSQueuePend (Some i) w k =
    (if queued k i \<noteq> [] then do {
       (r, d, k2) \<leftarrow> take_entry (Some i) (BRTOS_OS_QUEUE_Table k i) (EnterCritical k);
       Some (Return (r, d) k2) }
     else if w = NO_TIMEOUT then Some (Return (EXIT_BY_NO_ENTRY_AVAILABLE, None) (ExitCritical (EnterCritical k)))
     else do {
       let t = unat (currentTask k);
       Task \<leftarrow> task_at t (EnterCritical k);
       let iPriority = Priority Task;
       pmask \<leftarrow> PriorityMask iPriority;
       let k2 = put_queue (Some i) (wait_add pmask (BRTOS_Queue_Table k i)) (EnterCritical k);
       let k3 = suspend t pmask w k2;
       Some (Wait t iPriority (ExitCritical k3)) })"
proof -
  have 1: "\<not> (ERROR_CHECK k \<and> Some i = NULL)" "\<not> (ERROR_CHECK k \<and> iNesting k > 0)" using assms(3) by auto
  have 2: "get_queue (Some i) (EnterCritical k) = Some (BRTOS_Queue_Table k i)"
    "get_ring (Some i) (EnterCritical k) = Some (BRTOS_OS_QUEUE_Table k i)"
    using live_get [OF assms(2)] by simp_all
  have 3: "\<not> (ERROR_CHECK (EnterCritical k) \<and> OSEventAllocated (BRTOS_Queue_Table k i) \<noteq> TRUE)"
    using assms(2) by (simp add: live_def)
  show ?thesis
    unfolding OSQueuePend_def Let_def live_get [OF assms(2)] bind.bind_lunit if_not_P [OF 1(1)] if_not_P [OF 1(2)]
      2 if_not_P [OF 3] queues_okD(2) [OF assms(1,2)] empty_queued by simp
qed

lemma take_entry_run:
  assumes ok: "queues_ok k" "live k i" and ne: "queued k i \<noteq> []"
    and k1: "BRTOS_OS_QUEUE_Table k1 = BRTOS_OS_QUEUE_Table k" "QUEUE_STACK k1 = QUEUE_STACK k"
      "iQueueAddress k1 = iQueueAddress k"
      "\<And>j. OSEventAllocated (BRTOS_Queue_Table k1 j) = OSEventAllocated (BRTOS_Queue_Table k j)"
      "\<And>j. OSEventPointer_q (BRTOS_Queue_Table k1 j) = OSEventPointer_q (BRTOS_Queue_Table k j)"
  obtains q' k' where
    "take_entry (Some i) (BRTOS_OS_QUEUE_Table k i) k1 = Some (READ_BUFFER_OK, Some (hd (queued k i)), k')"
    "k' = ExitCritical (put_ring (Some i) (q', QUEUE_STACK k) k1)"
    "queues_ok k'" "\<And>j. live k' j = live k j" "queued k' i = tl (queued k i)" "capacity k' i = capacity k i"
    "\<And>j. live k j \<Longrightarrow> j \<noteq> i \<Longrightarrow> queued k' j = queued k j"
proof -
  obtain q' bs where r: "ring_read QUEUE_HEAP_SIZE 1 (BRTOS_OS_QUEUE_Table k i, QUEUE_STACK k) = Some (bs, q', QUEUE_STACK k)"
    and q: "ring_ok QUEUE_HEAP_SIZE 1 q'" "OSQStart q' = OSQStart (BRTOS_OS_QUEUE_Table k i)"
    "OSQEnd q' = OSQEnd (BRTOS_OS_QUEUE_Table k i)" "OSQSize q' = OSQSize (BRTOS_OS_QUEUE_Table k i)"
    "hd bs = hd (queued k i)" "map hd (ring_contents 1 (q', QUEUE_STACK k)) = tl (queued k i)"
    by (rule read_one [OF ok ne])
  define k' where "k' = ExitCritical (put_ring (Some i) (q', QUEUE_STACK k) k1)"
  have run: "take_entry (Some i) (BRTOS_OS_QUEUE_Table k i) k1 = Some (READ_BUFFER_OK, Some (hd (queued k i)), k')"
    using r q(5) unfolding take_entry_def k1(2) k'_def by simp
  have tab: "BRTOS_OS_QUEUE_Table k' = (BRTOS_OS_QUEUE_Table k)(i := q')" "QUEUE_STACK k' = QUEUE_STACK k"
    "iQueueAddress k' = iQueueAddress k" "BRTOS_Queue_Table k' = BRTOS_Queue_Table k1"
    by (simp_all add: k'_def put_ring_def k1)
  have out: "QUEUE_STACK k' a = QUEUE_STACK k a" for a by (simp add: tab(2))
  note up = queues_update [OF ok _ _ tab(3,1) q(1-3) out, unfolded tab(4), OF k1(4,5)]
  have cq: "queued k' i = tl (queued k i)" "capacity k' i = capacity k i"
    using q(4,6) by (simp_all only: queued_def capacity_def tab fun_upd_same)
  show thesis by (rule that [OF run k'_def up(1,2) cq up(3)])
qed

lemmas take_entry_Enter =
  take_entry_run [where ?k1.0 = "EnterCritical k" and k = k for k, unfolded EnterCritical_frame,
    OF _ _ _ refl refl refl refl refl]

text \<open>
  \<open>OSQueuePend\<close> returns the oldest byte of a non-empty queue; on an empty one it leaves with
  \<open>EXIT_BY_NO_ENTRY_AVAILABLE\<close> for \<open>NO_TIMEOUT\<close> and otherwise suspends the caller on the wait list. The
  heap of queues and the kernel's invariant are kept, and no other queue changes.
\<close>

theorem OSQueuePend_takes:
  assumes "queues_ok k" "live k i" "can_pend k xs (BRTOS_Queue_Table k i)"
  defines "t \<equiv> unat (currentTask k)"
  shows "\<exists>r k'. OSQueuePend (Some i) w k = Some r \<and> queues_ok k' \<and>
    (\<forall>j. live k j \<and> j \<noteq> i \<longrightarrow> queued k' j = queued k j) \<and>
    (if queued k i \<noteq> [] then r = Return (READ_BUFFER_OK, Some (hd (queued k i))) k' \<and> queued k' i = tl (queued k i) \<and> sys_ok k' xs
     else queued k' i = [] \<and>
       (if w = NO_TIMEOUT then r = Return (EXIT_BY_NO_ENTRY_AVAILABLE, None) k' \<and> sys_ok k' xs
        else r = Wait t (Priority (ContextTask k t)) k' \<and>
          waiting_on k' i = insert (prio_of k t) (waiting_on k i) \<and>
          prios (OSReadyList k') = prios (OSReadyList k) - {prio_of k t} \<and>
          sys_ok k' (if w = 0 then xs else xs @ [t])))"
proof -
  note c = can_pendD [OF assms(3)]
  note run = OSQueuePend_checked [OF assms(1,2), of w] c(2)
  have s1: "sys_ok (EnterCritical k) xs" by (rule sys_ok_Enter [OF c(1,7)])
  show ?thesis
  proof (cases "queued k i = []")
    case False
    obtain q' k' where k': "take_entry (Some i) (BRTOS_OS_QUEUE_Table k i) (EnterCritical k) =
        Some (READ_BUFFER_OK, Some (hd (queued k i)), k')"
      "k' = ExitCritical (put_ring (Some i) (q', QUEUE_STACK k) (EnterCritical k))" "queues_ok k'"
      "queued k' i = tl (queued k i)" "\<And>j. live k j \<Longrightarrow> j \<noteq> i \<Longrightarrow> queued k' j = queued k j"
      by (rule take_entry_Enter [OF assms(1,2) False]) blast
    have "sys_ok k' xs" unfolding k'(2) by (intro sys_ok_Exit sys_ok_put_queue s1)
    then show ?thesis using False run k'(1,3-5)
      by (intro exI [of _ "Return (READ_BUFFER_OK, Some (hd (queued k i))) k'"] exI [of _ k']) simp
  next
    case empty: True
    show ?thesis
    proof (cases "w = NO_TIMEOUT")
      case True
      define k' where "k' = ExitCritical (EnterCritical k)"
      have "queues_ok k'" by (rule queues_cong(1) [OF assms(1)]) (simp_all add: k'_def)
      moreover have "queued k' j = queued k j" for j by (rule queued_cong) (simp_all add: k'_def)
      moreover have "sys_ok k' xs" unfolding k'_def by (intro sys_ok_Exit s1)
      moreover have "OSQueuePend (Some i) w k = Some (Return (EXIT_BY_NO_ENTRY_AVAILABLE, None) k')"
        using run empty True by (simp add: k'_def)
      ultimately show ?thesis using empty True
        by (intro exI [of _ "Return (EXIT_BY_NO_ENTRY_AVAILABLE, None) k'"] exI [of _ k']) simp
    next
      case False
      define e' where "e' = wait_add (pbit (prio_of k t)) (BRTOS_Queue_Table k i)"
      define k1 where "k1 = put_queue (Some i) e' (EnterCritical k)"
      define k' where "k' = ExitCritical (suspend t (pbit (prio_of k t)) w k1)"
      have t: "allocated (EnterCritical k) t" using c(3) by (simp add: allocated_def t_def)
      have pm: "PriorityMask (Priority (ContextTask k t)) = Some (pbit (prio_of k t))"
        using c(6) by (simp add: PriorityMask_Some prio_of_def t_def)
      have "OSQueuePend (Some i) w k = Some (Wait t (Priority (ContextTask k t)) k')"
        using run empty False pm by (simp add: t_def [symmetric] task_at_allocated [OF t] Let_def k'_def k1_def e'_def)
      moreover have s: "sys_ok k1 xs" unfolding k1_def by (intro sys_ok_put_queue s1)
      have ws: "sys_ok k' (if w = 0 then xs else xs @ [t])"
        "prios (OSReadyList k') = prios (OSReadyList k) - {prio_of k t}"
        unfolding k'_def t_def by (rule wait_state [OF assms(3) s]; simp add: k1_def c(2))+
      moreover have "queues_ok k'"
        by (rule queues_cong(1) [OF assms(1)]) (simp_all add: k'_def k1_def put_queue_def e'_def wait_add_def)
      moreover have "queued k' j = queued k j" for j by (rule queued_cong) (simp_all add: k'_def k1_def)
      moreover have "waiting_on k' i = insert (prio_of k t) (waiting_on k i)"
        using c(6) by (simp add: k'_def k1_def put_queue_def e'_def waiters_wait_add t_def)
      ultimately show ?thesis using empty False
        by (intro exI [of _ "Wait t (Priority (ContextTask k t)) k'"] exI [of _ k']) simp
    qed
  qed
qed

subsection \<open>Order\<close>

text \<open>Posting and taking, as partial operations on the kernel, meet the contract of a bounded queue.\<close>

definition queue_ready :: "nat \<Rightarrow> kernel \<Rightarrow> bool" where
  "queue_ready i k \<longleftrightarrow> queues_ok k \<and> live k i \<and> event_ok (BRTOS_Queue_Table k i) \<and> waiting_on k i = {} \<and> iNesting k = 0"

definition posted :: "nat \<Rightarrow> u8 \<Rightarrow> kernel \<Rightarrow> kernel option" where
  "posted i d k = (case OSQueuePost (Some i) d k of
     Some (r, k') \<Rightarrow> if r = WRITE_BUFFER_OK then Some k' else None | None \<Rightarrow> None)"

definition received :: "nat \<Rightarrow> kernel \<Rightarrow> (u8 \<times> kernel) option" where
  "received i k = (case OSQueuePend (Some i) NO_TIMEOUT k of
     Some (Return (r, Some d) k') \<Rightarrow> if r = READ_BUFFER_OK then Some (d, k') else None | _ \<Rightarrow> None)"

interpretation bq: fifo "queue_ready i" "\<lambda>k. queued k i" "\<lambda>k. capacity k i" "\<lambda>_. True" "posted i" "received i" for i
proof
  fix k :: kernel and d :: u8
  assume r: "queue_ready i k"
  then have ok: "queues_ok k" "live k i" "event_ok (BRTOS_Queue_Table k i)" "waiting_on k i = {}" "iNesting k = 0"
    by (simp_all add: queue_ready_def)
  show "length (queued k i) \<le> capacity k i" by (rule queued_le [OF ok(1,2)])
  show "\<exists>k'. posted i d k = Some k' \<and> queue_ready i k' \<and> queued k' i = queued k i @ [d] \<and> capacity k' i = capacity k i"
    if room: "length (queued k i) < capacity k i"
  proof -
    have n: "nestable k" using ok(5) by (simp add: nestable_def)
    obtain k' where "OSQueuePost (Some i) d k = Some (WRITE_BUFFER_OK, k')" "queues_ok k'"
      "\<And>j. live k' j = live k j" "queued k' i = queued k i @ [d]" "capacity k' i = capacity k i"
      "waiting_on k' i = waiting_on k i - (if waiting_on k i = {} then {} else {Max (waiting_on k i)})"
      "event_ok (BRTOS_Queue_Table k' i)" "iNesting k' = iNesting k"
      by (rule OSQueuePost_run [OF ok(1-3) n room, of d]) blast
    then show ?thesis using ok by (simp add: posted_def queue_ready_def)
  qed
  show "\<exists>k'. received i k = Some (hd (queued k i), k') \<and> queue_ready i k' \<and> queued k' i = tl (queued k i) \<and>
      capacity k' i = capacity k i" if ne: "queued k i \<noteq> []"
  proof -
    obtain q' k' where k': "take_entry (Some i) (BRTOS_OS_QUEUE_Table k i) (EnterCritical k) =
        Some (READ_BUFFER_OK, Some (hd (queued k i)), k')"
      "k' = ExitCritical (put_ring (Some i) (q', QUEUE_STACK k) (EnterCritical k))" "queues_ok k'"
      "\<And>j. live k' j = live k j" "queued k' i = tl (queued k i)" "capacity k' i = capacity k i"
      by (rule take_entry_Enter [OF ok(1,2) ne]) (rule that)
    have "iNesting k' = 0" "BRTOS_Queue_Table k' = BRTOS_Queue_Table k"
      using ok(5) by (simp_all add: k'(2) iNesting_ExitCritical)
    then have "queue_ready i k'" using ok k'(3,4) by (simp add: queue_ready_def)
    moreover have "OSQueuePend (Some i) NO_TIMEOUT k = Some (Return (READ_BUFFER_OK, Some (hd (queued k i))) k')"
      using OSQueuePend_checked [OF ok(1,2), of NO_TIMEOUT] ok(5) ne k'(1) by simp
    ultimately show ?thesis using k'(5,6) by (simp add: received_def)
  qed
qed

text \<open>
  C19. First in, first out: bytes posted to a queue with room for them come back, after what it held
  before, in the order they were posted, and leave it empty.
\<close>

theorem OSQueue_first_in_first_out:
  assumes "queue_ready i k" "length (queued k i) + length ds \<le> capacity k i"
  shows "\<exists>k1 k2. bq.put_all i ds k = Some k1 \<and>
    bq.get_all i (length (queued k i) + length ds) k1 = Some (queued k i @ ds, k2) \<and> queued k2 i = []"
proof -
  have "\<forall>d \<in> set ds. True" by simp
  then show ?thesis using bq.fifo_order [OF assms(1) _ assms(2)] by blast
qed

subsection \<open>A byte taken twice\<close>

text \<open>Reading is defined on an empty ring too, and counts below zero.\<close>

lemma ring_read_defined:
  assumes "ring_ok N z q" "0 < unat (OSQSize q)"
  obtains bs q' where "ring_read N z (q, m) = Some (bs, q', m)" "OSQEntries q' = OSQEntries q - 1"
proof -
  obtain i r where z: "0 < z" and e: "OSQEnd q = cell z q (unat (OSQSize q))" "OSQEnd q \<le> N"
    and b: "r \<le> unat (OSQSize q)" and p: "OSQOut q = cell z q r"
    using assms(1) by (rule ring_okE)
  let ?r = "r mod unat (OSQSize q)"
  have w: "wrap_out q = cell z q ?r"
    unfolding wrap_out_def p e(1) by (rule wrapped [OF z b assms(2)])
  have "Suc ?r \<le> unat (OSQSize q)" using assms(2) by (simp add: Suc_leI)
  then have "cell z q ?r + z \<le> N" using cell_mono [of "Suc ?r" "unat (OSQSize q)" z q] e cell_Suc [of z q ?r] by simp
  then have "peek N z (wrap_out q) m = Some (map m [wrap_out q..<wrap_out q + z])"
    unfolding w by (rule peek_Some)
  then have "ring_read N z (q, m) = Some (map m [wrap_out q..<wrap_out q + z],
      q\<lparr>OSQOut := wrap_out q + z, OSQEntries := OSQEntries q - 1\<rparr>, m)" by (simp add: ring_read_def)
  then show thesis by (rule that) simp
qed

text \<open>
  The byte that wakes a waiter can be taken by a third task that pends before the waiter runs; the
  waiter then reads a byte nobody posted and the counter of entries wraps to 65535, so the queue is no
  longer well-formed.
\<close>

theorem OSQueue_taken_twice:
  assumes "queues_ok k" "live k i" "event_ok (BRTOS_Queue_Table k i)" "queued k i = []" "capacity k i > 0"
    "waiting_on k i \<noteq> {}" "iNesting k = 0" "unat pr < 32"
  shows "\<exists>k1 k2 k3 stale. OSQueuePost (Some i) d k = Some (WRITE_BUFFER_OK, k1) \<and>
    OSQueuePend (Some i) w k1 = Some (Return (READ_BUFFER_OK, Some d) k2) \<and>
    OSQueuePend_resume (Some i) (Some i) 0 t pr k2 = Some (READ_BUFFER_OK, Some stale, k3) \<and>
    OSQEntries (BRTOS_OS_QUEUE_Table k3 i) = 65535 \<and> \<not> queues_ok k3"
proof -
  have n: "nestable k" using assms(7) by (simp add: nestable_def)
  have room: "length (queued k i) < capacity k i" using assms(4,5) by simp
  obtain k1 where k1: "OSQueuePost (Some i) d k = Some (WRITE_BUFFER_OK, k1)" "queues_ok k1"
    "\<And>j. live k1 j = live k j" "queued k1 i = [d]" "capacity k1 i = capacity k i" "iNesting k1 = 0"
    by (rule OSQueuePost_run [OF assms(1-3) n room, of d]) (use assms(4,7) in simp)
  have l1: "live k1 i" using assms(2) k1(3) by simp
  have ne: "queued k1 i \<noteq> []" by (simp add: k1(4))
  obtain q' k2 where k2: "take_entry (Some i) (BRTOS_OS_QUEUE_Table k1 i) (EnterCritical k1) =
        Some (READ_BUFFER_OK, Some (hd (queued k1 i)), k2)"
      "queues_ok k2" "\<And>j. live k2 j = live k1 j" "queued k2 i = tl (queued k1 i)" "capacity k2 i = capacity k1 i"
    by (rule take_entry_Enter [OF k1(2) l1 ne]) (rule that)
  have r2: "OSQueuePend (Some i) w k1 = Some (Return (READ_BUFFER_OK, Some d) k2)"
    using OSQueuePend_checked [OF k1(2) l1, of w] k1(4,6) k2(1) by simp
  have l2: "live k2 i" using l1 k2(3) by simp
  have e2: "OSQEntries (BRTOS_OS_QUEUE_Table k2 i) = 0"
    using k2(4) k1(4) empty_queued [of k2 i] by (simp add: word_gt_0)
  define ka where "ka = put_queue (Some i) (BRTOS_Queue_Table k2 i) (EnterCritical k2)"
  have same: "QUEUE_STACK ka = QUEUE_STACK k2" "BRTOS_OS_QUEUE_Table ka = BRTOS_OS_QUEUE_Table k2" by (simp_all add: ka_def)
  have pos: "0 < unat (OSQSize (BRTOS_OS_QUEUE_Table k2 i))" using k2(5) k1(5) assms(5) by (simp add: capacity_def)
  obtain bs q3 where q3: "ring_read QUEUE_HEAP_SIZE 1 (BRTOS_OS_QUEUE_Table k2 i, QUEUE_STACK k2) = Some (bs, q3, QUEUE_STACK k2)"
    "OSQEntries q3 = OSQEntries (BRTOS_OS_QUEUE_Table k2 i) - 1"
    by (rule ring_read_defined [OF queues_okD(3) [OF k2(2) l2] pos])
  define k3 where "k3 = ExitCritical (put_ring (Some i) (q3, QUEUE_STACK k2) ka)"
  have te: "take_entry (Some i) (BRTOS_OS_QUEUE_Table k2 i) ka = Some (READ_BUFFER_OK, Some (hd bs), k3)"
    using q3(1) unfolding take_entry_def same k3_def by simp
  have r3: "OSQueuePend_resume (Some i) (Some i) 0 t pr k2 = Some (READ_BUFFER_OK, Some (hd bs), k3)"
    using te [unfolded ka_def] live_get [OF l2]
    by (simp add: OSQueuePend_resume_def PriorityMask_Some [OF assms(8)] Let_def)
  have e3: "OSQEntries (BRTOS_OS_QUEUE_Table k3 i) = 65535"
    using q3(2) e2 by (simp add: k3_def put_ring_def)
  have sz: "OSQSize (BRTOS_OS_QUEUE_Table k3 i) = OSQSize (BRTOS_OS_QUEUE_Table k2 i)"
    using q3(1) by (auto simp: k3_def put_ring_def ring_read_def bind_Some_iff)
  have "\<not> queues_ok k3"
  proof
    assume ok3: "queues_ok k3"
    have l3: "live k3 i" using l2 by (simp add: live_def k3_def ka_def put_queue_def)
    then have "unat (65535 :: u16) \<le> capacity k3 i" using queued_le [OF ok3 l3] e3 by (simp add: length_queued)
    moreover have "capacity k3 i \<le> QUEUE_HEAP_SIZE"
      using queues_okD(3) [OF k2(2) l2] by (simp add: capacity_def sz ring_ok_def cell_def)
    ultimately show False by (simp add: config)
  qed
  then show ?thesis using k1(1) r2 r3 e3 by blast
qed

subsection \<open>Wide entries\<close>

lemma of_bytes16_bytes16 [simp]: "of_bytes16 (bytes16 d) = d"
  by (rule bit_word_eqI) (auto simp: bytes16_def of_bytes16_def bit_simps)

lemma of_bytes32_bytes32 [simp]: "of_bytes32 (bytes32 d) = d"
proof (rule bit_word_eqI)
  fix n assume "n < LENGTH(32)"
  then consider "n < 8" | "8 \<le> n" "n < 16" | "16 \<le> n" "n < 24" | "24 \<le> n" "n < 32" by fastforce
  then show "bit (of_bytes32 (bytes32 d)) n = bit d n"
    by cases (auto simp: bytes32_def of_bytes32_def bit_simps)
qed

definition queued16 :: "OS_QUEUE \<Rightarrow> kernel \<Rightarrow> u16 list" where
  "queued16 q k = map of_bytes16 (ring_contents 2 (q, QUEUE_STACK k))"

definition queued32 :: "OS_QUEUE \<Rightarrow> kernel \<Rightarrow> u32 list" where
  "queued32 q k = map of_bytes32 (ring_contents 4 (q, QUEUE_STACK k))"

lemma length_bytes: "length (bytes16 c) = 2" "length (bytes32 d) = 4"
  by (simp_all add: bytes16_def bytes32_def)

lemma OSWQueue16_run:
  assumes "ring_ok QUEUE_HEAP_SIZE 2 q"
  shows "if OSQEntries q < OSQSize q
    then \<exists>q' k'. OSWQueue16 q d k = Some (WRITE_BUFFER_OK, q', k') \<and> ring_ok QUEUE_HEAP_SIZE 2 q' \<and>
      queued16 q' k' = queued16 q k @ [d]
    else \<exists>k'. OSWQueue16 q d k = Some (BUFFER_UNDERRUN, q, k') \<and> queued16 q k' = queued16 q k"
proof (cases "OSQEntries q < OSQSize q")
  case True
  then have room: "unat (OSQEntries q) < unat (OSQSize q)" by (simp add: word_less_nat_alt)
  obtain q' m' where w: "ring_write QUEUE_HEAP_SIZE (bytes16 d) (q, QUEUE_STACK k) = Some (q', m')"
    "ring_ok QUEUE_HEAP_SIZE 2 q'"
    "ring_contents 2 (q', m') = ring_contents 2 (q, QUEUE_STACK k) @ [bytes16 d]"
    by (rule ring_write_ok [OF assms room length_bytes(1)])
  define k' where "k' = ExitCritical ((EnterCritical k)\<lparr>QUEUE_STACK := m'\<rparr>)"
  have "OSWQueue16 q d k = Some (WRITE_BUFFER_OK, q', k')" using True w(1) by (simp add: OSWQueue16_def Let_def k'_def)
  moreover have "queued16 q' k' = queued16 q k @ [d]" using w(3) by (simp add: queued16_def k'_def)
  ultimately show ?thesis using True w(2) by simp
qed (simp add: OSWQueue16_def Let_def queued16_def)

lemma OSWQueue32_run:
  assumes "ring_ok QUEUE_HEAP_SIZE 4 q"
  shows "if OSQEntries q < OSQSize q
    then \<exists>q' k'. OSWQueue32 q d k = Some (WRITE_BUFFER_OK, q', k') \<and> ring_ok QUEUE_HEAP_SIZE 4 q' \<and>
      queued32 q' k' = queued32 q k @ [d]
    else \<exists>k'. OSWQueue32 q d k = Some (BUFFER_UNDERRUN, q, k') \<and> queued32 q k' = queued32 q k"
proof (cases "OSQEntries q < OSQSize q")
  case True
  then have room: "unat (OSQEntries q) < unat (OSQSize q)" by (simp add: word_less_nat_alt)
  obtain q' m' where w: "ring_write QUEUE_HEAP_SIZE (bytes32 d) (q, QUEUE_STACK k) = Some (q', m')"
    "ring_ok QUEUE_HEAP_SIZE 4 q'"
    "ring_contents 4 (q', m') = ring_contents 4 (q, QUEUE_STACK k) @ [bytes32 d]"
    by (rule ring_write_ok [OF assms room length_bytes(2)])
  define k' where "k' = ExitCritical ((EnterCritical k)\<lparr>QUEUE_STACK := m'\<rparr>)"
  have "OSWQueue32 q d k = Some (WRITE_BUFFER_OK, q', k')" using True w(1) by (simp add: OSWQueue32_def Let_def k'_def)
  moreover have "queued32 q' k' = queued32 q k @ [d]" using w(3) by (simp add: queued32_def k'_def)
  ultimately show ?thesis using True w(2) by simp
qed (simp add: OSWQueue32_def Let_def queued32_def)

lemma wide_pos: "0 < unat (OSQEntries q) \<longleftrightarrow> ring_contents z (q, m) \<noteq> []" "OSQEntries q > 0 \<longleftrightarrow> 0 < unat (OSQEntries q)"
  using length_ring_contents [of z q m] by (metis length_greater_0_conv) (simp add: word_less_nat_alt)

lemma OSRQueue16_run:
  assumes "ring_ok QUEUE_HEAP_SIZE 2 q" "queued16 q k \<noteq> []"
  shows "\<exists>q' k'. OSRQueue16 q k = Some (READ_BUFFER_OK, Some (hd (queued16 q k)), q', k') \<and>
    ring_ok QUEUE_HEAP_SIZE 2 q' \<and> queued16 q' k' = tl (queued16 q k)"
proof -
  let ?c = "ring_contents 2 (q, QUEUE_STACK k)"
  have ne: "?c \<noteq> []" using assms(2) by (simp add: queued16_def)
  then have pos: "0 < unat (OSQEntries q)" "OSQEntries q > 0" using wide_pos by blast+
  obtain q' where r: "ring_read QUEUE_HEAP_SIZE 2 (q, QUEUE_STACK k) = Some (hd ?c, q', QUEUE_STACK k)"
    "ring_ok QUEUE_HEAP_SIZE 2 q'" "ring_contents 2 (q', QUEUE_STACK k) = tl ?c"
    by (rule ring_read_ok [OF assms(1) pos(1)])
  show ?thesis using r pos(2)
    by (simp add: OSRQueue16_def Let_def queued16_def list.map_sel(1) [OF ne] map_tl)
qed

lemma OSRQueue32_run:
  assumes "ring_ok QUEUE_HEAP_SIZE 4 q" "queued32 q k \<noteq> []"
  shows "\<exists>q' k'. OSRQueue32 q k = Some (READ_BUFFER_OK, Some (hd (queued32 q k)), q', k') \<and>
    ring_ok QUEUE_HEAP_SIZE 4 q' \<and> queued32 q' k' = tl (queued32 q k)"
proof -
  let ?c = "ring_contents 4 (q, QUEUE_STACK k)"
  have ne: "?c \<noteq> []" using assms(2) by (simp add: queued32_def)
  then have pos: "0 < unat (OSQEntries q)" "OSQEntries q > 0" using wide_pos by blast+
  obtain q' where r: "ring_read QUEUE_HEAP_SIZE 4 (q, QUEUE_STACK k) = Some (hd ?c, q', QUEUE_STACK k)"
    "ring_ok QUEUE_HEAP_SIZE 4 q'" "ring_contents 4 (q', QUEUE_STACK k) = tl ?c"
    by (rule ring_read_ok [OF assms(1) pos(1)])
  show ?thesis using r pos(2)
    by (simp add: OSRQueue32_def Let_def queued32_def list.map_sel(1) [OF ne] map_tl)
qed

text \<open>
  A value written to an empty queue of 16 or 32 bit entries comes back from the next read, whatever
  the positions of the pointers; a queue without room answers \<open>BUFFER_UNDERRUN\<close> and keeps its entries.
\<close>

theorem OSQueue_wide_round_trip:
  assumes "ring_ok QUEUE_HEAP_SIZE 2 q" "ring_ok QUEUE_HEAP_SIZE 4 r" "OSQEntries q = 0" "OSQEntries r = 0"
  shows "(if OSQSize q > 0 then \<exists>q1 k1 q2 k2. OSWQueue16 q c k = Some (WRITE_BUFFER_OK, q1, k1) \<and>
      OSRQueue16 q1 k1 = Some (READ_BUFFER_OK, Some c, q2, k2) \<and> OSQEntries q2 = 0
    else \<exists>k1. OSWQueue16 q c k = Some (BUFFER_UNDERRUN, q, k1)) \<and>
   (if OSQSize r > 0 then \<exists>r1 k1 r2 k2. OSWQueue32 r d k = Some (WRITE_BUFFER_OK, r1, k1) \<and>
      OSRQueue32 r1 k1 = Some (READ_BUFFER_OK, Some d, r2, k2) \<and> OSQEntries r2 = 0
    else \<exists>k1. OSWQueue32 r d k = Some (BUFFER_UNDERRUN, r, k1))"
proof
  have e: "queued16 q k = []" "queued32 r k = []"
    using assms(3,4) by (simp_all add: queued16_def queued32_def ring_contents_def)
  have z: "OSQEntries q' = 0" if "queued16 q' k' = [] \<or> queued32 q' k' = []" for q' k'
  proof -
    have "ring_contents 2 (q', QUEUE_STACK k') = [] \<or> ring_contents 4 (q', QUEUE_STACK k') = []"
      using that by (simp add: queued16_def queued32_def)
    then have "unat (OSQEntries q') = 0" using length_ring_contents by (metis list.size(3))
    then show ?thesis by (simp add: unat_eq_0)
  qed
  show "if OSQSize q > 0 then \<exists>q1 k1 q2 k2. OSWQueue16 q c k = Some (WRITE_BUFFER_OK, q1, k1) \<and>
      OSRQueue16 q1 k1 = Some (READ_BUFFER_OK, Some c, q2, k2) \<and> OSQEntries q2 = 0
    else \<exists>k1. OSWQueue16 q c k = Some (BUFFER_UNDERRUN, q, k1)"
  proof (cases "OSQSize q > 0")
    case True
    obtain q1 k1 where w: "OSWQueue16 q c k = Some (WRITE_BUFFER_OK, q1, k1)" "ring_ok QUEUE_HEAP_SIZE 2 q1"
      "queued16 q1 k1 = [c]" using OSWQueue16_run [OF assms(1), of c k] True assms(3) e by auto
    obtain q2 k2 where "OSRQueue16 q1 k1 = Some (READ_BUFFER_OK, Some c, q2, k2)" "queued16 q2 k2 = []"
      using OSRQueue16_run [OF w(2), of k1] w(3) by auto
    then show ?thesis using True w(1) z by auto
  qed (use OSWQueue16_run [OF assms(1), of c k] assms(3) in auto)
  show "if OSQSize r > 0 then \<exists>r1 k1 r2 k2. OSWQueue32 r d k = Some (WRITE_BUFFER_OK, r1, k1) \<and>
      OSRQueue32 r1 k1 = Some (READ_BUFFER_OK, Some d, r2, k2) \<and> OSQEntries r2 = 0
    else \<exists>k1. OSWQueue32 r d k = Some (BUFFER_UNDERRUN, r, k1)"
  proof (cases "OSQSize r > 0")
    case True
    obtain r1 k1 where w: "OSWQueue32 r d k = Some (WRITE_BUFFER_OK, r1, k1)" "ring_ok QUEUE_HEAP_SIZE 4 r1"
      "queued32 r1 k1 = [d]" using OSWQueue32_run [OF assms(2), of d k] True assms(4) e by auto
    obtain r2 k2 where "OSRQueue32 r1 k1 = Some (READ_BUFFER_OK, Some d, r2, k2)" "queued32 r2 k2 = []"
      using OSRQueue32_run [OF w(2), of k1] w(3) by auto
    then show ?thesis using True w(1) z by auto
  qed (use OSWQueue32_run [OF assms(2), of d k] assms(4) in auto)
qed

end
