(* ===== verification/Dispatcher.thy ===== *)
theory Dispatcher
  imports Queue
begin

text \<open>
  The interrupt thread of the Windows port (\<open>ProcessaInterrupcoesSimuladas\<close> in \<open>HAL.c\<close>) and the
  handlers installed in it: the tick, the switch, and the serial port's receiver (\<open>UARTx.c\<close>). One turn
  of its endless loop is one step: it runs when the event is signalled and no critical section holds
  the mutex, serves every pending interrupt in order of its number, and changes the current task if a
  handler asked for it. Suspending and resuming the Windows threads is outside the model; which thread
  may run is what \<open>currentTask\<close> says.
\<close>

text \<open>The receiver's handler, and the two threads that raise interrupts.\<close>

definition UARTHandler :: "kernel \<Rightarrow> (u32 \<times> kernel) option" where
  "UARTHandler k =
    (let c = UART_RX_buffer k
     in if SerialQ k \<noteq> NULL then do {
          (_, k1) \<leftarrow> OSQueuePost (SerialQ k) c k;
          Some (1, k1) }
        else Some (1, k))"

definition TimerSimulado_turn :: "kernel \<Rightarrow> kernel" where
  "TimerSimulado_turn k = GeraInterrupcaoSimulada INTERRUPT_TICK k"

definition UARTSimulada_turn :: "u8 \<Rightarrow> kernel \<Rightarrow> kernel" where
  "UARTSimulada_turn c k =
    (let k1 = k\<lparr>UART_RX_buffer := c\<rparr>;
         k2 = k1\<lparr>PendingInterrupts := PendingInterrupts k1 OR pbit INTERRUPT_UART\<rparr>
     in if iNesting k2 = 0 then k2\<lparr>InterruptEvent := True\<rparr> else k2)"

text \<open>A handler returns whether a switch may be due.\<close>

definition SwitchContext :: "kernel \<Rightarrow> (u32 \<times> kernel) option" where
  "SwitchContext k = Some (1, k)"

definition run_isr :: "isr \<Rightarrow> kernel \<Rightarrow> (u32 \<times> kernel) option" where
  "run_isr h k =
    (case h of
       ISR_NONE \<Rightarrow> Some (0, k)
     | ISR_SwitchContext \<Rightarrow> SwitchContext k
     | ISR_TickTimer \<Rightarrow> do { k1 \<leftarrow> TickTimer k; Some (1, k1) }
     | ISR_UARTHandler \<Rightarrow> UARTHandler k)"

function serve_pending :: "nat \<Rightarrow> u32 \<Rightarrow> kernel \<Rightarrow> (u32 \<times> kernel) option" where
  "serve_pending i SwitchRequired k =
    (if i < MAX_INTERRUPTS then
       (if PendingInterrupts k AND pbit i \<noteq> 0 then do {
          (r, k1) \<leftarrow> run_isr (IsrHandler k i) k;
          let SwitchRequired1 = (if r \<noteq> 0 then SwitchRequired OR pbit i else SwitchRequired);
          let k2 = k1\<lparr>PendingInterrupts := PendingInterrupts k1 AND NOT (pbit i)\<rparr>;
          serve_pending (i + 1) SwitchRequired1 k2 }
        else serve_pending (i + 1) SwitchRequired k)
     else Some (SwitchRequired, k))"
  by pat_completeness auto
termination by (relation "measure (\<lambda>(i, _, _). MAX_INTERRUPTS - i)") auto

declare serve_pending.simps [simp del]

text \<open>
  One turn: \<open>None\<close> when the thread still waits. The control blocks of the old and the new current task
  are read to find their threads.
\<close>

definition switch_to :: "u8 \<Rightarrow> kernel \<Rightarrow> kernel option" where
  "switch_to s k = do {
     let k1 = k\<lparr>SelectedTask := s\<rparr>;
     if currentTask k1 \<noteq> SelectedTask k1 then do {
       _ \<leftarrow> task_at (unat (currentTask k1)) k1;
       let k2 = k1\<lparr>currentTask := SelectedTask k1\<rparr>;
       _ \<leftarrow> task_at (unat (currentTask k2)) k2;
       Some k2 }
     else Some k1 }"

definition ProcessaInterrupcoesSimuladas_turn :: "kernel \<Rightarrow> kernel option" where
  "ProcessaInterrupcoesSimuladas_turn k =
    (if InterruptEvent k then do {
       (SwitchRequired, k1) \<leftarrow> serve_pending 0 0 (k\<lparr>InterruptEvent := False\<rparr>);
       if SwitchRequired \<noteq> 0 then switch_to (OSSchedule k1) k1 else Some k1 }
     else None)"

subsection \<open>Switching\<close>

lemma switch_to_allocated:
  assumes "allocated k (unat (currentTask k))" "allocated k (unat s)"
  shows "switch_to s k = Some (k\<lparr>SelectedTask := s, currentTask := s\<rparr>)"
proof -
  have "task_at (unat (currentTask k)) (k\<lparr>SelectedTask := s\<rparr>) \<noteq> None"
    "task_at (unat s) (k\<lparr>SelectedTask := s, currentTask := s\<rparr>) \<noteq> None"
    using assms by (simp_all add: task_at_def allocated_def)
  then show ?thesis by (auto simp: switch_to_def Let_def)
qed

lemma pending_iff: "i < 32 \<Longrightarrow> w AND pbit i \<noteq> 0 \<longleftrightarrow> bit (w :: u32) i"
  using and_mask_eq_0 [of i w] by (auto simp: bits)

end
