(* ===== verification/System.thy ===== *)
theory System
  imports Dispatcher
begin

text \<open>
  The running system: the kernel together with what each suspended task waits for, and the steps of
  its threads. The tick's thread requests interrupts at any time; the interrupt thread takes a turn
  when signalled; the current task calls a service, or goes on after a wait. The interrupt thread has a
  higher thread priority than the tasks and all share one processor, so a task moves only while no
  interrupt is signalled. The services are those on semaphores and delays; what a task computes in
  between does not concern the kernel.
\<close>

datatype waiting = On_sem nat u16 u8 | Delayed

record sys =
  kern :: kernel
  waits :: "nat \<Rightarrow> waiting option"

definition runs :: "sys \<Rightarrow> nat \<Rightarrow> bool" where
  "runs s t \<longleftrightarrow> \<not> InterruptEvent (kern s) \<and> t = unat (currentTask (kern s))"

text \<open>A task free to call a service; the idle task calls none.\<close>

definition free :: "sys \<Rightarrow> nat \<Rightarrow> bool" where
  "free s t \<longleftrightarrow> runs s t \<and> waits s t = None \<and> prio_of (kern s) t \<noteq> 0"

definition created :: "kernel \<Rightarrow> nat \<Rightarrow> bool" where
  "created k i \<longleftrightarrow> i < BRTOS_MAX_SEM \<and> OSEventAllocated (BRTOS_Sem_Table k i) = TRUE"

text \<open>
  The times a pend may be given: within the counter's cycle. Beyond it the instant that is stored can
  equal \<open>EXIT_BY_TIMEOUT\<close> itself.
\<close>

definition time_ok :: "u16 \<Rightarrow> bool" where
  "time_ok w \<longleftrightarrow> unat w \<le> 65532 \<or> w = NO_TIMEOUT"

inductive step :: "sys \<Rightarrow> sys \<Rightarrow> bool" where
  tick: "step s (s\<lparr>kern := TimerSimulado_turn (kern s)\<rparr>)"
| dispatch: "ProcessaInterrupcoesSimuladas_turn (kern s) = Some k \<Longrightarrow> step s (s\<lparr>kern := k\<rparr>)"
| idle: "runs s t \<Longrightarrow> prio_of (kern s) t = 0 \<Longrightarrow> step s (s\<lparr>kern := Idle_step (kern s)\<rparr>)"
| pend_return: "free s t \<Longrightarrow> created (kern s) i \<Longrightarrow> time_ok w \<Longrightarrow>
    OSSemPend (Some i) w (kern s) = Some (Return r k) \<Longrightarrow>
    step s (s\<lparr>kern := k\<rparr>)"
| pend_wait: "free s t \<Longrightarrow> created (kern s) i \<Longrightarrow> time_ok w \<Longrightarrow>
    OSSemPend (Some i) w (kern s) = Some (Wait u p k) \<Longrightarrow>
    step s (s\<lparr>kern := k, waits := (waits s)(u \<mapsto> On_sem i w p)\<rparr>)"
| pend_resume: "runs s t \<Longrightarrow> waits s t = Some (On_sem i w p) \<Longrightarrow>
    OSSemPend_resume (Some i) w t p (kern s) = Some (r, k) \<Longrightarrow>
    step s (s\<lparr>kern := k, waits := (waits s)(t := None)\<rparr>)"
| post: "free s t \<Longrightarrow> created (kern s) i \<Longrightarrow> OSSemPost (Some i) (kern s) = Some (r, k) \<Longrightarrow>
    step s (s\<lparr>kern := k\<rparr>)"
| delay: "free s t \<Longrightarrow> OSDelayTask w (kern s) = Some (r, k) \<Longrightarrow>
    step s (s\<lparr>kern := k, waits := if r = OK then (waits s)(t \<mapsto> Delayed) else waits s\<rparr>)"
| delay_over: "runs s t \<Longrightarrow> waits s t = Some Delayed \<Longrightarrow> step s (s\<lparr>waits := (waits s)(t := None)\<rparr>)"

inductive_cases stepE: "step s s'"

text \<open>A system as \<open>BRTOSStart\<close> leaves it, with nobody waiting.\<close>

inductive reachable :: "sys \<Rightarrow> sys \<Rightarrow> bool" for s0 where
  start: "reachable s0 s0"
| more: "reachable s0 s \<Longrightarrow> step s s' \<Longrightarrow> reachable s0 s'"

subsection \<open>The invariant\<close>

text \<open>
  Every waiter of a semaphore is a task that waits for it at its priority, and that is not ready
  unless its time ran out.
\<close>

definition waiter :: "kernel \<Rightarrow> (nat \<Rightarrow> waiting option) \<Rightarrow> nat \<Rightarrow> nat \<Rightarrow> bool" where
  "waiter k W i p \<longleftrightarrow> (\<exists>t w pr. allocated k t \<and> prio_of k t = p \<and> W t = Some (On_sem i w pr) \<and>
     (bit (OSReadyList k) p \<longrightarrow> w \<noteq> 0 \<and> TimeToWait (ContextTask k t) = EXIT_BY_TIMEOUT))"

definition sems_ok :: "kernel \<Rightarrow> (nat \<Rightarrow> waiting option) \<Rightarrow> bool" where
  "sems_ok k W \<longleftrightarrow> (\<forall>i < BRTOS_MAX_SEM. event_ok (BRTOS_Sem_Table k i) \<and>
     (\<forall>p \<in> waiters (BRTOS_Sem_Table k i). waiter k W i p))"

text \<open>What is known of a task by what it waits for.\<close>

definition waits_ok :: "kernel \<Rightarrow> (nat \<Rightarrow> waiting option) \<Rightarrow> nat list \<Rightarrow> bool" where
  "waits_ok k W xs \<longleftrightarrow>
     (\<forall>t. W t \<noteq> None \<longrightarrow> allocated k t \<and> prio_of k t \<noteq> 0) \<and>
     (\<forall>t i w pr. W t = Some (On_sem i w pr) \<longrightarrow> i < BRTOS_MAX_SEM \<and> unat pr = prio_of k t \<and>
        (if w = 0 then t \<notin> set xs else t \<in> set xs \<longleftrightarrow> TimeToWait (ContextTask k t) \<noteq> EXIT_BY_TIMEOUT)) \<and>
     (\<forall>t \<in> set xs. W t \<noteq> None \<and> (W t = Some Delayed \<longrightarrow> \<not> bit (OSReadyList k) (prio_of k t)))"

definition handlers_ok :: "kernel \<Rightarrow> bool" where
  "handlers_ok k \<longleftrightarrow> InterruptEventMutex k \<and> IsrHandler k INTERRUPT_SWC = ISR_SwitchContext \<and>
     IsrHandler k INTERRUPT_TICK = ISR_TickTimer \<and> IsrHandler k INTERRUPT_UART = ISR_NONE"

definition base :: "kernel \<Rightarrow> (nat \<Rightarrow> waiting option) \<Rightarrow> nat list \<Rightarrow> bool" where
  "base k W xs \<longleftrightarrow> sys_ok k xs \<and> iNesting k = 0 \<and> allocated k (unat (currentTask k)) \<and> 0 \<in> runnable k \<and>
     handlers_ok k \<and> sems_ok k W \<and> waits_ok k W xs"

definition current_ready :: "kernel \<Rightarrow> bool" where
  "current_ready k \<longleftrightarrow> bit (OSReadyList k) (prio_of k (unat (currentTask k)))"

definition inv :: "sys \<Rightarrow> bool" where
  "inv s \<longleftrightarrow> (\<exists>xs. base (kern s) (waits s) xs) \<and>
     (current_ready (kern s) \<or> InterruptEvent (kern s) \<and> bit (PendingInterrupts (kern s)) INTERRUPT_SWC)"

lemma baseD:
  assumes "base k W xs"
  shows "sys_ok k xs" "iNesting k = 0" "allocated k (unat (currentTask k))" "0 \<in> runnable k"
    "handlers_ok k" "sems_ok k W" "waits_ok k W xs"
  using assms by (simp_all add: base_def)

lemma waits_okD:
  assumes "waits_ok k W xs"
  shows "W t \<noteq> None \<Longrightarrow> allocated k t" "W t \<noteq> None \<Longrightarrow> prio_of k t \<noteq> 0"
    "W t = Some (On_sem i w pr) \<Longrightarrow> i < BRTOS_MAX_SEM" "W t = Some (On_sem i w pr) \<Longrightarrow> unat pr = prio_of k t"
    "W t = Some (On_sem i w pr) \<Longrightarrow> w = 0 \<Longrightarrow> t \<notin> set xs"
    "W t = Some (On_sem i w pr) \<Longrightarrow> w \<noteq> 0 \<Longrightarrow> t \<in> set xs \<longleftrightarrow> TimeToWait (ContextTask k t) \<noteq> EXIT_BY_TIMEOUT"
    "t \<in> set xs \<Longrightarrow> W t \<noteq> None" "t \<in> set xs \<Longrightarrow> W t = Some Delayed \<Longrightarrow> \<not> bit (OSReadyList k) (prio_of k t)"
  using assms unfolding waits_ok_def by (blast, blast, blast, blast, metis, metis, blast, blast)

text \<open>What a step must show to keep \<open>base\<close>.\<close>

lemma base_frame:
  assumes b: "base k W xs"
    and same: "TaskAlloc k' = TaskAlloc k" "\<And>t. prio_of k' t = prio_of k t" "currentTask k' = currentTask k"
      "OSBlockedList k' = OSBlockedList k" "InterruptEventMutex k' = InterruptEventMutex k" "IsrHandler k' = IsrHandler k"
    and new: "sys_ok k' ys" "iNesting k' = 0" "bit (OSReadyList k') 0" "sems_ok k' W'" "waits_ok k' W' ys"
  shows "base k' W' ys"
  using baseD [OF b] new same
  by (simp add: base_def handlers_ok_def allocated_def runnable_def bits)

lemma sems_okD:
  assumes "sems_ok k W" "i < BRTOS_MAX_SEM"
  shows "event_ok (BRTOS_Sem_Table k i)" "p \<in> waiters (BRTOS_Sem_Table k i) \<Longrightarrow> waiter k W i p"
  using assms by (simp_all add: sems_ok_def)

lemma waiter_frame:
  assumes "waiter k W i p" "\<And>t. allocated k' t = allocated k t" "\<And>t. prio_of k' t = prio_of k t"
    "\<And>t. prio_of k t = p \<Longrightarrow> W' t = W t \<and> TimeToWait (ContextTask k' t) = TimeToWait (ContextTask k t)"
    "bit (OSReadyList k') p \<Longrightarrow> bit (OSReadyList k) p"
  shows "waiter k' W' i p"
  using assms(1,4,5) unfolding waiter_def assms(2,3) by metis

lemma sems_ok_frame:
  assumes "sems_ok k W" "BRTOS_Sem_Table k' = BRTOS_Sem_Table k"
    "\<And>i p. waiter k W i p \<Longrightarrow> waiter k' W' i p"
  shows "sems_ok k' W'"
  using assms unfolding sems_ok_def by simp

lemma waits_ok_frame:
  assumes "waits_ok k W xs" "\<And>t. allocated k' t = allocated k t" "\<And>t. prio_of k' t = prio_of k t"
    "\<And>t. TimeToWait (ContextTask k' t) = TimeToWait (ContextTask k t)"
    "\<And>t. t \<in> set xs \<Longrightarrow> W t = Some Delayed \<Longrightarrow> bit (OSReadyList k') (prio_of k t) \<Longrightarrow> bit (OSReadyList k) (prio_of k t)"
  shows "waits_ok k' W xs"
  using assms(1,5) unfolding waits_ok_def assms(2-4) by blast

text \<open>Interrupt bookkeeping does not concern it.\<close>

lemma base_core:
  assumes "base k W xs" "core k' = core k" "iNesting k' = 0"
  shows "base k' W xs"
proof -
  have c: "\<And>g. g (core k') = g (core k)" using assms(2) by simp
  have f: "TaskAlloc k' = TaskAlloc k" "ContextTask k' = ContextTask k" "currentTask k' = currentTask k"
    "OSBlockedList k' = OSBlockedList k" "InterruptEventMutex k' = InterruptEventMutex k" "IsrHandler k' = IsrHandler k"
    "OSReadyList k' = OSReadyList k" "BRTOS_Sem_Table k' = BRTOS_Sem_Table k"
    using c [of TaskAlloc] c [of ContextTask] c [of currentTask] c [of OSBlockedList] c [of InterruptEventMutex]
      c [of IsrHandler] c [of OSReadyList] c [of BRTOS_Sem_Table] by simp_all
  have s: "sys_ok k' xs"
    by (rule sys_ok_cong_core [OF baseD(1) [OF assms(1)] assms(2)]) (simp add: nestable_def assms(3))
  have p: "prio_of k' t = prio_of k t" for t by (simp add: prio_of_def f)
  have r: "bit (OSReadyList k') 0" using baseD(4) [OF assms(1)] by (simp add: runnable_def bits f)
  have "sems_ok k' W" using baseD(6) [OF assms(1)] by (simp add: sems_ok_def waiter_def allocated_def p f)
  moreover have "waits_ok k' W xs"
    using baseD(7) [OF assms(1)] unfolding waits_ok_def allocated_def p f .
  ultimately show ?thesis using base_frame [OF assms(1) f(1) p f(3-6) s assms(3) r] by simp
qed

subsection \<open>Interrupts\<close>

lemma TickTimer_hal:
  assumes "delays_ok k xs" "TickTimer k = Some k'"
  shows "IsrHandler k' = IsrHandler k" "InterruptEventMutex k' = InterruptEventMutex k"
proof -
  let ?k = "OSIncCounter k"
  have d: "dlist ?k ([] @ xs)" "\<forall>t \<in> set xs. unat (Priority (ContextTask ?k t)) < 32" "nestable ?k"
    using assms(1) by (simp_all add: delays_ok_def nestable_def prio_of_def)
  obtain k1 where k1: "tick_walk (first xs NULL) ?k = Some k1" "quiet k1 = quiet (fold wake (filter (due ?k) xs) ?k)"
    using tick_walk_dlist [OF d] by blast
  have "k' = tick_load k1"
    using assms(2) k1(1) dlist_Head [OF d(1)] by (simp add: TickTimer_def OS_TICK_HANDLER_def)
  then show "IsrHandler k' = IsrHandler k" "InterruptEventMutex k' = InterruptEventMutex k"
    using quiet_eqD(24,25) [OF k1(2)] by simp_all
qed

lemma TickTimer_base:
  assumes b: "base k W xs"
  obtains k' ys where "TickTimer k = Some k'" "base k' W ys" "currentTask k' = currentTask k"
    "prios (OSReadyList k) \<subseteq> prios (OSReadyList k')" "\<And>t. prio_of k' t = prio_of k t"
    "PendingInterrupts k' = PendingInterrupts k"
proof -
  define k0 where "k0 = OSIncCounter k"
  let ?ys = "filter (\<lambda>t. \<not> due k0 t) xs"
  note so = baseD(1) [OF b] and wo = baseD(7) [OF b]
  note d = sys_ok_delays [OF so]
  obtain k' where k': "TickTimer k = Some k'" "delays_ok k' ?ys"
    "prios (OSReadyList k') = prios (OSReadyList k) \<union> prio_of k ` {t \<in> set xs. due k0 t}"
    "\<And>t. TimeToWait (ContextTask k' t) =
       (if t \<in> set xs \<and> due k0 t then EXIT_BY_TIMEOUT else TimeToWait (ContextTask k t))"
    "\<And>t. prio_of k' t = prio_of k t" "OSTickCounter k' = OSTickCounter k0"
    "OSBlockedList k' = OSBlockedList k" "currentTask k' = currentTask k"
    "PriorityVector k' = PriorityVector k" "TaskAlloc k' = TaskAlloc k"
    "NumberOfInstalledTasks k' = NumberOfInstalledTasks k" "tables k' = tables k"
    "iNesting k' = iNesting k" "PendingInterrupts k' = PendingInterrupts k"
    using d unfolding k0_def by (rule TickTimer_delays_ok) blast
  note hal = TickTimer_hal [OF d k'(1)]
  have al: "allocated k' t = allocated k t" for t by (rule allocated_cong [OF k'(10)])
  have sem: "BRTOS_Sem_Table k' = BRTOS_Sem_Table k" using k'(12) by (simp add: tables_def)
  have ax: "allocated k t" if "t \<in> set xs" for t using sys_okD(5) [OF so that] .
  have tk: "tasks_ok k'"
  proof (rule tasks_ok_cong [OF sys_okD(1) [OF so] k'(10,9,11,5)])
    show "p \<in> prios (OSReadyList k) \<or> (\<exists>t. allocated k t \<and> prio_of k t = p)" if "p \<in> prios (OSReadyList k')" for p
      using that ax unfolding k'(3) by blast
  qed
  have s': "sys_ok k' ?ys"
    using tk k'(2) ax by (simp add: sys_ok_def delays_ok_def al)
  have se: "sems_ok k' W"
  proof (rule sems_ok_frame [OF baseD(6) [OF b] sem])
    fix i p assume "waiter k W i p"
    then obtain t w pr where t: "allocated k t" "prio_of k t = p" "W t = Some (On_sem i w pr)"
      "bit (OSReadyList k) p \<Longrightarrow> w \<noteq> 0 \<and> TimeToWait (ContextTask k t) = EXIT_BY_TIMEOUT"
      unfolding waiter_def by blast
    have "w \<noteq> 0 \<and> TimeToWait (ContextTask k' t) = EXIT_BY_TIMEOUT" if "bit (OSReadyList k') p"
    proof (cases "bit (OSReadyList k) p")
      case True
      then show ?thesis using t(4) k'(4) [of t] by simp
    next
      case False
      then have "p \<in> prio_of k ` {t \<in> set xs. due k0 t}" using that k'(3) by (simp add: bits [symmetric])
      then obtain u where u: "u \<in> set xs" "due k0 u" "prio_of k u = p" by auto
      then have "u = t" using allocated_inj [OF sys_okD(1) [OF so] ax t(1)] t(2) by simp
      then show ?thesis using u k'(4) [of t] waits_okD(5) [OF wo t(3)] by auto
    qed
    then show "waiter k' W i p" unfolding waiter_def al k'(5) using t(1-3) by blast
  qed
  have wa: "waits_ok k' W ?ys"
    unfolding waits_ok_def al k'(5)
  proof (intro conjI allI impI ballI)
    fix t i w pr assume W: "W t = Some (On_sem i w pr)"
    show "i < BRTOS_MAX_SEM" "unat pr = prio_of k t" using waits_okD(3,4) [OF wo W] .
    show "if w = 0 then t \<notin> set ?ys else t \<in> set ?ys \<longleftrightarrow> TimeToWait (ContextTask k' t) \<noteq> EXIT_BY_TIMEOUT"
      using waits_okD(5,6) [OF wo W] k'(4) [of t] by auto
  next
    fix t assume t: "t \<in> set ?ys"
    then show "W t \<noteq> None" using waits_okD(7) [OF wo] by simp
    assume D: "W t = Some Delayed"
    have "\<not> bit (OSReadyList k) (prio_of k t)" using waits_okD(8) [OF wo _ D] t by simp
    moreover have "prio_of k t \<notin> prio_of k ` {t \<in> set xs. due k0 t}"
    proof
      assume "prio_of k t \<in> prio_of k ` {t \<in> set xs. due k0 t}"
      then obtain u where u: "u \<in> set xs" "due k0 u" "prio_of k u = prio_of k t" by auto
      then have "u = t" using allocated_inj [OF sys_okD(1) [OF so] ax ax] t by simp
      then show False using u(2) t by simp
    qed
    ultimately show "\<not> bit (OSReadyList k') (prio_of k t)" using k'(3) by (auto simp: bits [symmetric])
  qed (use waits_okD(1,2) [OF wo] in auto)
  have r0: "bit (OSReadyList k') 0" using baseD(4) [OF b] k'(3) by (auto simp: runnable_def bits [symmetric])
  have "base k' W ?ys"
    by (rule base_frame [OF b k'(10,5,8,7) hal(2,1) s' _ r0 se wa]) (simp add: k'(13) baseD(2) [OF b])
  then show thesis using that k'(1,3,5,8,14) by blast
qed

lemma serve_one:
  assumes b: "base k W xs" and i: "i < MAX_INTERRUPTS"
  obtains r k1 ys where "run_isr (IsrHandler k i) k = Some (r, k1)" "base k1 W ys" "currentTask k1 = currentTask k"
    "prios (OSReadyList k) \<subseteq> prios (OSReadyList k1)" "\<And>t. prio_of k1 t = prio_of k t"
    "PendingInterrupts k1 = PendingInterrupts k" "i \<le> INTERRUPT_TICK \<Longrightarrow> r \<noteq> 0"
proof -
  have h: "IsrHandler k 0 = ISR_SwitchContext" "IsrHandler k 1 = ISR_TickTimer" "IsrHandler k 2 = ISR_NONE"
    using baseD(5) [OF b] by (simp_all add: handlers_ok_def config)
  have "i < 3" using i by (simp add: config)
  then have "i = 0 \<or> i = 1 \<or> i = 2" by arith
  then consider "i = 0" | "i = 1" | "i = 2" by blast
  then show thesis
  proof cases
    case 1
    show thesis by (rule that [of 1 k xs]) (use b 1 h in \<open>simp_all add: run_isr_def SwitchContext_def\<close>)
  next
    case 2
    obtain k' ys where k': "TickTimer k = Some k'" "base k' W ys" "currentTask k' = currentTask k"
      "prios (OSReadyList k) \<subseteq> prios (OSReadyList k')" "\<And>t. prio_of k' t = prio_of k t"
      "PendingInterrupts k' = PendingInterrupts k" by (rule TickTimer_base [OF b]) blast
    show thesis by (rule that [of 1 k' ys]) (use k' 2 h in \<open>simp_all add: run_isr_def\<close>)
  next
    case 3
    show thesis by (rule that [of 0 k xs]) (use b 3 h in \<open>simp_all add: run_isr_def config\<close>)
  qed
qed

lemma serve_pending_base:
  assumes "base k W xs" "i \<le> MAX_INTERRUPTS"
  shows "\<exists>sw k1 ys. serve_pending i s k = Some (sw, k1) \<and> base k1 W ys \<and> currentTask k1 = currentTask k \<and>
    prios (OSReadyList k) \<subseteq> prios (OSReadyList k1) \<and> (\<forall>t. prio_of k1 t = prio_of k t) \<and>
    (s \<noteq> 0 \<or> (\<exists>j \<ge> i. j \<le> INTERRUPT_TICK \<and> bit (PendingInterrupts k) j) \<longrightarrow> sw \<noteq> 0)"
  using assms
proof (induction "MAX_INTERRUPTS - i" arbitrary: i s k xs)
  case 0
  then show ?case using serve_pending.simps [of i s k] by (auto simp: config)
next
  case (Suc n)
  then have i: "i < MAX_INTERRUPTS" and i32: "i < 32" by (auto simp: config)
  have m: "n = MAX_INTERRUPTS - (i + 1)" "i + 1 \<le> MAX_INTERRUPTS" using Suc.hyps(2) i by auto
  show ?case
  proof (cases "bit (PendingInterrupts k) i")
    case False
    have eq: "serve_pending i s k = serve_pending (i + 1) s k"
      using i i32 False by (subst serve_pending.simps) (simp add: pending_iff)
    have "(\<exists>j \<ge> i. j \<le> INTERRUPT_TICK \<and> bit (PendingInterrupts k) j) \<longleftrightarrow>
      (\<exists>j \<ge> i + 1. j \<le> INTERRUPT_TICK \<and> bit (PendingInterrupts k) j)"
      using False by (metis Suc_eq_plus1 Suc_leD le_antisym not_less_eq_eq)
    then show ?thesis unfolding eq using Suc.hyps(1) [OF m(1) Suc.prems(1) m(2), of s] by simp
  next
    case True
    obtain r k1 ys where k1: "run_isr (IsrHandler k i) k = Some (r, k1)" "base k1 W ys" "currentTask k1 = currentTask k"
      "prios (OSReadyList k) \<subseteq> prios (OSReadyList k1)" "\<And>t. prio_of k1 t = prio_of k t"
      "PendingInterrupts k1 = PendingInterrupts k" "i \<le> INTERRUPT_TICK \<Longrightarrow> r \<noteq> 0"
      by (rule serve_one [OF Suc.prems(1) i]) blast
    define k2 where "k2 = k1\<lparr>PendingInterrupts := PendingInterrupts k1 AND NOT (pbit i)\<rparr>"
    define s1 where "s1 = (if r \<noteq> 0 then s OR pbit i else s)"
    have eq: "serve_pending i s k = serve_pending (i + 1) s1 k2"
      using i i32 True k1(1) by (subst serve_pending.simps) (simp add: pending_iff k2_def s1_def Let_def)
    have "core k2 = core k1" "iNesting k2 = 0" using baseD(2) [OF k1(2)] by (simp_all add: core_def k2_def)
    then have b2: "base k2 W ys" by (rule base_core [OF k1(2)])
    have nz: "s OR pbit i \<noteq> 0"
    proof
      assume "s OR pbit i = 0"
      then have "bit (s OR pbit i) i = bit (0 :: u32) i" by simp
      then show False using i32 by (simp add: bit_or_iff bits)
    qed
    have s1: "s \<noteq> 0 \<or> i \<le> INTERRUPT_TICK \<longrightarrow> s1 \<noteq> 0" using nz k1(7) by (auto simp: s1_def)
    have f: "currentTask k2 = currentTask k" "prios (OSReadyList k) \<subseteq> prios (OSReadyList k2)" "\<And>t. prio_of k2 t = prio_of k t"
      using k1(3-5) by (simp_all add: k2_def prio_of_def)
    obtain sw k3 zs where k3: "serve_pending (i + 1) s1 k2 = Some (sw, k3)" "base k3 W zs" "currentTask k3 = currentTask k2"
      "prios (OSReadyList k2) \<subseteq> prios (OSReadyList k3)" "\<forall>t. prio_of k3 t = prio_of k2 t" "s1 \<noteq> 0 \<or> (\<exists>j \<ge> i + 1. j \<le> INTERRUPT_TICK \<and> bit (PendingInterrupts k2) j) \<longrightarrow> sw \<noteq> 0"
      using Suc.hyps(1) [OF m(1) b2 m(2), of s1] by blast
    have "prios (OSReadyList k) \<subseteq> prios (OSReadyList k3)" using f(2) k3(4) by (rule subset_trans)
    moreover have "sw \<noteq> 0" if c: "s \<noteq> 0 \<or> (\<exists>j \<ge> i. j \<le> INTERRUPT_TICK \<and> bit (PendingInterrupts k) j)"
    proof (cases "s \<noteq> 0 \<or> i \<le> INTERRUPT_TICK")
      case True
      then show ?thesis using s1 k3(6) by blast
    qed (use c in auto)
    ultimately show ?thesis unfolding eq using k3 f
      by (intro exI [of _ sw] exI [of _ k3] exI [of _ zs]) simp
  qed
qed

text \<open>
  A turn of the interrupt thread is defined and leaves the current task ready; after a switch request
  or a tick it is the one of highest priority.
\<close>

lemma turn_inv:
  assumes "inv s" "InterruptEvent (kern s)"
  obtains k where "ProcessaInterrupcoesSimuladas_turn (kern s) = Some k" "inv (s\<lparr>kern := k\<rparr>)" "current_ready k"
    "\<And>j. j \<le> INTERRUPT_TICK \<Longrightarrow> bit (PendingInterrupts (kern s)) j \<Longrightarrow>
       prio_of k (unat (currentTask k)) = Max (runnable k)"
proof -
  let ?k = "kern s" and ?W = "waits s"
  obtain xs where b: "base ?k ?W xs" using assms(1) by (auto simp: inv_def)
  define k0 where "k0 = ?k\<lparr>InterruptEvent := False\<rparr>"
  have "core k0 = core ?k" "iNesting k0 = 0" using baseD(2) [OF b] by (simp_all add: core_def k0_def)
  then have b0: "base k0 ?W xs" by (rule base_core [OF b])
  obtain sw k1 ys where k1: "serve_pending 0 0 k0 = Some (sw, k1)" "base k1 ?W ys" "currentTask k1 = currentTask ?k"
    "prios (OSReadyList ?k) \<subseteq> prios (OSReadyList k1)" "\<And>t. prio_of k1 t = prio_of ?k t"
    "\<And>j. j \<le> INTERRUPT_TICK \<Longrightarrow> bit (PendingInterrupts ?k) j \<Longrightarrow> sw \<noteq> 0"
    using serve_pending_base [OF b0, of 0 0] unfolding k0_def prio_of_def by fastforce
  show thesis
  proof (cases "sw \<noteq> 0")
    case False
    have "ProcessaInterrupcoesSimuladas_turn ?k = Some k1"
      using assms(2) k1(1) False by (simp add: ProcessaInterrupcoesSimuladas_turn_def k0_def)
    moreover have "current_ready ?k" using assms(1) k1(6) [of INTERRUPT_SWC] False by (auto simp: inv_def config)
    then have r: "current_ready k1" using k1(4) by (auto simp: current_ready_def k1(3,5) bits [symmetric])
    moreover have "inv (s\<lparr>kern := k1\<rparr>)" using k1(2) r by (auto simp: inv_def)
    ultimately show thesis using that k1(6) False by blast
  next
    case True
    have tk: "tasks_ok k1" by (rule sys_okD(1) [OF baseD(1) [OF k1(2)]])
    have ne: "runnable k1 \<noteq> {}" using baseD(4) [OF k1(2)] by auto
    note ch = OSSchedule_choice [OF tk ne]
    define k2 where "k2 = k1\<lparr>SelectedTask := OSSchedule k1, currentTask := OSSchedule k1\<rparr>"
    have turn: "ProcessaInterrupcoesSimuladas_turn ?k = Some k2"
      using assms(2) k1(1) True switch_to_allocated [OF baseD(3) [OF k1(2)] ch(1)]
      by (simp add: ProcessaInterrupcoesSimuladas_turn_def k0_def k2_def)
    have "Max (runnable k1) \<in> runnable k1" by (rule Max_in [OF runnable_finite ne])
    then have r: "current_ready k2"
      using ch(2) by (simp add: current_ready_def k2_def prio_of_def runnable_def bits)
    have f: "TaskAlloc k2 = TaskAlloc k1" "OSBlockedList k2 = OSBlockedList k1" "OSReadyList k2 = OSReadyList k1"
      "BRTOS_Sem_Table k2 = BRTOS_Sem_Table k1" "ContextTask k2 = ContextTask k1"
      "PriorityVector k2 = PriorityVector k1" "NumberOfInstalledTasks k2 = NumberOfInstalledTasks k1"
      "OSTickCounter k2 = OSTickCounter k1" "iNesting k2 = iNesting k1" "Head k2 = Head k1" "Tail k2 = Tail k1"
      "InterruptEventMutex k2 = InterruptEventMutex k1" "IsrHandler k2 = IsrHandler k1"
      by (simp_all add: k2_def)
    have p: "prio_of k2 t = prio_of k1 t" for t by (simp add: prio_of_def f)
    have s2: "sys_ok k2 ys"
    proof (rule sys_okI [OF baseD(1) [OF k1(2)] f(1,6,7) p])
      show "dlist k2 ys" by (rule dlist_cong [OF sys_okD(2) [OF baseD(1) [OF k1(2)]]]) (simp_all add: f)
      show "nestable k2" using baseD(2) [OF k1(2)] by (simp add: nestable_def f)
    qed (simp_all add: f sys_okD(5) [OF baseD(1) [OF k1(2)]])
    have "allocated k2 (unat (currentTask k2))" using ch(1) by (simp add: k2_def allocated_def)
    moreover have "sems_ok k2 ?W" using baseD(6) [OF k1(2)] unfolding sems_ok_def waiter_def allocated_def p f .
    moreover have "waits_ok k2 ?W ys" using baseD(7) [OF k1(2)] unfolding waits_ok_def allocated_def p f .
    ultimately have "base k2 ?W ys"
      using s2 baseD(2,4,5) [OF k1(2)] by (simp add: base_def runnable_def handlers_ok_def f)
    then have "inv (s\<lparr>kern := k2\<rparr>)" using r by (auto simp: inv_def)
    moreover have "prio_of k2 (unat (currentTask k2)) = Max (runnable k2)"
      using ch(2) p by (simp add: k2_def runnable_def)
    ultimately show thesis using that turn r by blast
  qed
qed

subsection \<open>Services\<close>

lemma sems_ok_update:
  assumes "sems_ok k W" "i < BRTOS_MAX_SEM" "BRTOS_Sem_Table k' = (BRTOS_Sem_Table k)(i := e)" "event_ok e"
    and "\<And>p. p \<in> waiters e \<Longrightarrow> waiter k' W' i p"
    and "\<And>j p. j \<noteq> i \<Longrightarrow> j < BRTOS_MAX_SEM \<Longrightarrow> waiter k W j p \<Longrightarrow> waiter k' W' j p"
  shows "sems_ok k' W'"
  unfolding sems_ok_def
proof (intro allI impI conjI ballI)
  fix j assume j: "j < BRTOS_MAX_SEM"
  show "event_ok (BRTOS_Sem_Table k' j)" using sems_okD(1) [OF assms(1) j] assms(3,4) by simp
  fix p assume p: "p \<in> waiters (BRTOS_Sem_Table k' j)"
  show "waiter k' W' j p"
  proof (cases "j = i")
    case True
    then show ?thesis using p assms(3,5) by simp
  next
    case False
    then show ?thesis using p assms(3) assms(6) [OF False j] sems_okD(2) [OF assms(1) j] by simp
  qed
qed

text \<open>A task waits for at most one semaphore.\<close>

lemma waiter_unique:
  assumes "base k W xs" "waiter k W i p" "waiter k W j p"
  shows "i = j"
proof -
  obtain t w pr u w' pr' where t: "allocated k t" "prio_of k t = p" "W t = Some (On_sem i w pr)"
    and u: "allocated k u" "prio_of k u = p" "W u = Some (On_sem j w' pr')"
    using assms(2,3) unfolding waiter_def by blast
  then have "u = t" using allocated_inj [OF sys_okD(1) [OF baseD(1) [OF assms(1)]] u(1) t(1)] by simp
  then show ?thesis using t(3) u(3) by simp
qed

lemma waiter_waits:
  assumes "base k W xs" "waiter k W i (prio_of k t)" "allocated k t"
  obtains w pr where "W t = Some (On_sem i w pr)"
    "bit (OSReadyList k) (prio_of k t) \<Longrightarrow> w \<noteq> 0 \<and> TimeToWait (ContextTask k t) = EXIT_BY_TIMEOUT"
proof -
  obtain u w pr where u: "allocated k u" "prio_of k u = prio_of k t" "W u = Some (On_sem i w pr)"
    "bit (OSReadyList k) (prio_of k t) \<Longrightarrow> w \<noteq> 0 \<and> TimeToWait (ContextTask k u) = EXIT_BY_TIMEOUT"
    using assms(2) unfolding waiter_def by blast
  then have "u = t" using allocated_inj [OF sys_okD(1) [OF baseD(1) [OF assms(1)]] u(1) assms(3)] by simp
  then show ?thesis using that u(3,4) by blast
qed

lemma runs_not_delayed:
  assumes "base k W xs" "current_ready k" "W (unat (currentTask k)) = None \<or> W (unat (currentTask k)) = Some Delayed"
  shows "unat (currentTask k) \<notin> set xs"
  using waits_okD(7,8) [OF baseD(7) [OF assms(1)], of "unat (currentTask k)"] assms(2,3)
  by (auto simp: current_ready_def)

lemma inv_runs:
  assumes "inv s" "runs s t"
  obtains xs where "base (kern s) (waits s) xs" "current_ready (kern s)" "t = unat (currentTask (kern s))"
  using assms by (auto simp: inv_def runs_def)

lemma free_can_pend:
  assumes "base k W xs" "current_ready k" "W (unat (currentTask k)) = None" "i < BRTOS_MAX_SEM"
  shows "can_pend k xs (BRTOS_Sem_Table k i)"
proof -
  note b = baseD [OF assms(1)]
  have "prio_of k (unat (currentTask k)) \<notin> waiters (BRTOS_Sem_Table k i)"
    using waiter_waits [OF assms(1) _ b(3)] sems_okD(2) [OF b(6) assms(4)] assms(3) by (metis option.distinct(1))
  then show ?thesis using b runs_not_delayed [OF assms(1,2)] assms(3) by (simp add: can_pend_def)
qed

lemma get_sem_created: "created k i \<Longrightarrow> get_sem (Some i) k = Some (BRTOS_Sem_Table k i)"
  by (simp add: created_def get_sem_def)

lemma pend_return_inv:
  assumes b: "base k W xs" "current_ready k" "W (unat (currentTask k)) = None" and c: "created k i"
    and run: "OSSemPend (Some i) w k = Some (Return r k')"
  shows "base k' W xs" "current_ready k'"
proof -
  let ?e = "BRTOS_Sem_Table k i"
  note bd = baseD [OF b(1)]
  have i: "i < BRTOS_MAX_SEM" "OSEventAllocated ?e = TRUE" using c by (simp_all add: created_def)
  note cp = can_pendD [OF free_can_pend [OF b i(1)]]
  have ec: "ERROR_CHECK k \<longrightarrow> OSEventAllocated ?e = TRUE \<and> iNesting k = 0" using i(2) cp(2) by simp
  note chk = OSSemPend_checked [OF get_sem_created [OF c] ec cp(3,6), of w]
  have s1: "sys_ok (EnterCritical k) xs" by (rule sys_ok_Enter [OF cp(1,7)])
  have "base k' W xs \<and> current_ready k'"
  proof (cases "OSEventCount ?e > 0")
    case True
    define e' where "e' = ?e\<lparr>OSEventCount := OSEventCount ?e - 1\<rparr>"
    have k': "k' = ExitCritical (put_sem (Some i) e' (EnterCritical k))"
      using run chk True by (simp add: e'_def)
    have s: "sys_ok k' xs" unfolding k' by (intro sys_ok_Exit sys_ok_put_sem s1)
    have p: "prio_of k' t = prio_of k t" for t by (simp add: k' prio_of_def)
    have st: "BRTOS_Sem_Table k' = (BRTOS_Sem_Table k)(i := e')" by (simp add: k' put_sem_def)
    have al: "allocated k' t = allocated k t" for t by (simp add: k' allocated_def)
    note ev = sems_okD [OF bd(6) i(1)]
    have wf: "waiter k' W j q" if "waiter k W j q" for j q
      by (rule waiter_frame [OF that al p]) (simp_all add: k')
    have "sems_ok k' W"
      by (rule sems_ok_update [OF bd(6) i(1) st]) (use ev wf in \<open>simp_all add: e'_def\<close>)
    moreover have "waits_ok k' W xs"
      by (rule waits_ok_frame [OF bd(7) al p]) (simp_all add: k')
    ultimately have "base k' W xs"
      using bd(4) s cp(2) by (intro base_frame [OF b(1)]) (simp_all add: k' runnable_def bits iNesting_ExitCritical prio_of_def)
    then show ?thesis using b(2) by (simp add: current_ready_def p) (simp add: k')
  next
    case False
    have k': "k' = ExitCritical (EnterCritical k)" using run chk False by (auto split: if_splits)
    have "core k' = core k" "iNesting k' = 0" using cp(2) by (simp_all add: k' iNesting_ExitCritical)
    then show ?thesis using base_core [OF b(1)] b(2) by (simp add: current_ready_def k' prio_of_def)
  qed
  then show "base k' W xs" "current_ready k'" by simp_all
qed


text \<open>The current task goes to sleep, in a delay or on a semaphore.\<close>

lemma base_sleep:
  assumes b: "base k W xs" "current_ready k" "W (unat (currentTask k)) = None"
    "prio_of k (unat (currentTask k)) \<noteq> 0"
    and same: "TaskAlloc k' = TaskAlloc k" "\<And>t. prio_of k' t = prio_of k t" "currentTask k' = currentTask k"
      "OSBlockedList k' = OSBlockedList k" "InterruptEventMutex k' = InterruptEventMutex k" "IsrHandler k' = IsrHandler k"
    and new: "sys_ok k' ys" "iNesting k' = 0"
      "prios (OSReadyList k') = prios (OSReadyList k) - {prio_of k (unat (currentTask k))}"
      "\<And>u. u \<noteq> unat (currentTask k) \<Longrightarrow> TimeToWait (ContextTask k' u) = TimeToWait (ContextTask k u)"
      "sems_ok k' (W(unat (currentTask k) \<mapsto> v))"
    and v: "v = Delayed \<and> ys = xs @ [unat (currentTask k)] \<or>
      (\<exists>i w pr. v = On_sem i w pr \<and> i < BRTOS_MAX_SEM \<and> unat pr = prio_of k (unat (currentTask k)) \<and>
        (w = 0 \<and> ys = xs \<or> w \<noteq> 0 \<and> ys = xs @ [unat (currentTask k)] \<and>
           TimeToWait (ContextTask k' (unat (currentTask k))) \<noteq> EXIT_BY_TIMEOUT))"
  shows "base k' (W(unat (currentTask k) \<mapsto> v)) ys"
proof -
  define t where "t = unat (currentTask k)"
  note bd = baseD [OF b(1)]
  have tx: "t \<notin> set xs" unfolding t_def by (rule runs_not_delayed [OF b(1,2)]) (simp add: b(3))
  have al: "allocated k' u = allocated k u" for u by (rule allocated_cong [OF same(1)])
  have at: "allocated k t" using bd(3) by (simp add: t_def)
  have ys: "ys = xs \<or> ys = xs @ [t]" using v by (auto simp: t_def)
  have r0: "bit (OSReadyList k') 0"
    using bd(4) b(4) new(3) by (auto simp: runnable_def bits [symmetric])
  have "waits_ok k' (W(t \<mapsto> v)) ys"
    unfolding waits_ok_def al same(2)
  proof (intro conjI allI impI ballI)
    fix u i w pr assume W: "(W(t \<mapsto> v)) u = Some (On_sem i w pr)"
    show "i < BRTOS_MAX_SEM" "unat pr = prio_of k u"
      using W v waits_okD(3,4) [OF bd(7), of u i w pr] by (auto simp: t_def split: if_splits)
    show "if w = 0 then u \<notin> set ys else u \<in> set ys \<longleftrightarrow> TimeToWait (ContextTask k' u) \<noteq> EXIT_BY_TIMEOUT"
    proof (cases "u = t")
      case True
      then show ?thesis using W v tx by (auto simp: t_def)
    next
      case False
      then have "W u = Some (On_sem i w pr)" "u \<in> set ys \<longleftrightarrow> u \<in> set xs" using W ys by auto
      then show ?thesis using waits_okD(5,6) [OF bd(7)] new(4) [of u] False by (auto simp: t_def)
    qed
  next
    fix u assume u: "u \<in> set ys"
    then show "(W(t \<mapsto> v)) u \<noteq> None" using waits_okD(7) [OF bd(7), of u] ys by auto
    assume D: "(W(t \<mapsto> v)) u = Some Delayed"
    show "\<not> bit (OSReadyList k') (prio_of k u)"
    proof (cases "u = t")
      case True
      then show ?thesis using new(3) by (auto simp: t_def bits [symmetric])
    next
      case False
      then have "\<not> bit (OSReadyList k) (prio_of k u)" using waits_okD(8) [OF bd(7), of u] D u ys by auto
      then show ?thesis using new(3) by (auto simp: bits [symmetric])
    qed
  qed (use waits_okD(1,2) [OF bd(7)] at b(4) in \<open>auto simp: t_def split: if_splits\<close>)
  then show ?thesis
    using base_frame [OF b(1) same new(1,2) r0 new(5)] by (simp add: t_def)
qed

lemma tick_after_not_exit:
  assumes "tick_ok k" "unat w \<le> 65532"
  shows "tick_after (OSTickCounter k) w \<noteq> EXIT_BY_TIMEOUT"
proof -
  have "unat (tick_after (OSTickCounter k) w) < 65532"
    using assms by (simp add: tick_after_mod tick_ok_unat)
  then show ?thesis by (auto simp: config)
qed

lemma pend_wait_inv:
  assumes b: "base k W xs" "current_ready k" "W (unat (currentTask k)) = None"
    "prio_of k (unat (currentTask k)) \<noteq> 0" and c: "created k i" "time_ok w"
    and run: "OSSemPend (Some i) w k = Some (Wait u pr k')"
  shows "\<exists>ys. base k' (W(u \<mapsto> On_sem i w pr)) ys" "InterruptEvent k'" "bit (PendingInterrupts k') INTERRUPT_SWC"
proof -
  let ?e = "BRTOS_Sem_Table k i"
  note bd = baseD [OF b(1)]
  have i: "i < BRTOS_MAX_SEM" "OSEventAllocated ?e = TRUE" using c by (simp_all add: created_def)
  note cd = free_can_pend [OF b(1-3) i(1)]
  note cp = can_pendD [OF cd]
  define t where "t = unat (currentTask k)"
  have pt: "prio_of k t < 32" "prio_of k t \<notin> waiters ?e" using cp(5,6) by (simp_all add: t_def)
  have ec: "ERROR_CHECK k \<longrightarrow> OSEventAllocated ?e = TRUE \<and> iNesting k = 0" using i(2) cp(2) by simp
  note chk = OSSemPend_checked [OF get_sem_created [OF c(1)] ec cp(3,6), of w]
  define e' where "e' = wait_add (pbit (prio_of k t)) ?e"
  define k1 where "k1 = put_sem (Some i) e' (EnterCritical k)"
  have w: "w \<noteq> NO_TIMEOUT" and u: "u = t" "pr = Priority (ContextTask k t)"
    and k': "k' = ExitCritical (suspend t (pbit (prio_of k t)) w k1)"
    using run unfolding chk by (auto simp: t_def k1_def e'_def split: if_splits)
  have w': "unat w \<le> 65532" using w c(2) by (simp add: time_ok_def)
  have s1: "sys_ok k1 xs" unfolding k1_def by (intro sys_ok_put_sem sys_ok_Enter [OF cp(1,7)])
  note ws = wait_state [OF cd s1, of w, folded t_def, folded k']
  have k1: "iNesting k1 = 1" "ContextTask k1 = ContextTask k" "TaskAlloc k1 = TaskAlloc k" "OSReadyList k1 = OSReadyList k"
    "OSTickCounter k1 = OSTickCounter k" "currentTask k1 = currentTask k"
    by (simp_all add: k1_def cp(2))
  note ws = ws [OF k1]
  have st: "BRTOS_Sem_Table k' = (BRTOS_Sem_Table k)(i := e')" by (simp add: k' k1_def put_sem_def)
  note ev = sems_okD [OF bd(6) i(1)]
  have up: "unat pr = prio_of k t" by (simp add: u prio_of_def)
  have at: "allocated k t" using bd(3) by (simp add: t_def)
  have al: "allocated k' u = allocated k u" for u by (rule allocated_cong [OF ws(7)])
  have wf: "waiter k' (W(t \<mapsto> On_sem i w pr)) j q" if q: "waiter k W j q" for j q
  proof (rule waiter_frame [OF q al ws(4)])
    fix u assume u: "prio_of k u = q"
    have "u \<noteq> t" using waiter_waits [OF b(1) _ at] q u b(3) by (metis option.distinct(1) t_def)
    then show "(W(t \<mapsto> On_sem i w pr)) u = W u \<and> TimeToWait (ContextTask k' u) = TimeToWait (ContextTask k u)"
      by (simp add: k' k1_def)
  qed (use ws(3) in \<open>auto simp: bits [symmetric]\<close>)
  have "waiter k' (W(t \<mapsto> On_sem i w pr)) i (prio_of k t)"
    unfolding waiter_def al ws(4) using at ws(3) by (intro exI [of _ t]) (auto simp: bits [symmetric])
  then have "sems_ok k' (W(t \<mapsto> On_sem i w pr))"
    using ev wf pt by (intro sems_ok_update [OF bd(6) i(1) st])
      (auto simp: e'_def event_ok_wait_add waiters_wait_add)
  moreover have "TimeToWait (ContextTask k' t) \<noteq> EXIT_BY_TIMEOUT" if "w \<noteq> 0"
    using that ws(8) tick_after_not_exit [OF sys_okD(3) [OF bd(1)] w'] by simp
  ultimately have "base k' (W(t \<mapsto> On_sem i w pr)) (if w = 0 then xs else xs @ [t])"
    using base_sleep [OF b, folded t_def, OF ws(7,4,6) _ _ _ ws(1,2,3)] i(1) up
    by (simp add: k' k1_def)
  then show "\<exists>ys. base k' (W(u \<mapsto> On_sem i w pr)) ys" using u(1) by blast
  have "InterruptEventMutex k" using bd(5) by (simp add: handlers_ok_def)
  have eq: "k' = ExitCritical (ChangeContext
     (if w \<noteq> 0 then IncludeTaskIntoDelayList t (upd_task t (\<lambda>c. c\<lparr>TimeToWait := tick_after (OSTickCounter k1) w\<rparr>)
        (k1\<lparr>OSReadyList := OSReadyList k1 AND NOT (pbit (prio_of k t))\<rparr>))
      else upd_task t (\<lambda>c. c\<lparr>TimeToWait := NO_TIMEOUT\<rparr>) (k1\<lparr>OSReadyList := OSReadyList k1 AND NOT (pbit (prio_of k t))\<rparr>)))"
    by (simp add: k' suspend_def Let_def OSGetCount_def)
  show "InterruptEvent k'" "bit (PendingInterrupts k') INTERRUPT_SWC"
    unfolding eq using request_signals \<open>InterruptEventMutex k\<close> k1(1) by (auto simp: k1_def)
qed


text \<open>A waiter goes on: it is on no wait list and in no delay any more.\<close>

lemma base_awake:
  assumes b: "base k W xs" "t = unat (currentTask k)" "W t = Some v"
    and same: "TaskAlloc k' = TaskAlloc k" "\<And>t. prio_of k' t = prio_of k t" "currentTask k' = currentTask k"
      "OSBlockedList k' = OSBlockedList k" "InterruptEventMutex k' = InterruptEventMutex k" "IsrHandler k' = IsrHandler k"
    and new: "sys_ok k' ys" "iNesting k' = 0" "OSReadyList k' = OSReadyList k" "set ys = set xs - {t}"
      "\<And>u. u \<noteq> t \<Longrightarrow> TimeToWait (ContextTask k' u) = TimeToWait (ContextTask k u)"
    and sem: "sems_ok k' (W(t := None))"
  shows "base k' (W(t := None)) ys"
proof -
  note bd = baseD [OF b(1)]
  have al: "allocated k' u = allocated k u" for u by (rule allocated_cong [OF same(1)])
  have r0: "bit (OSReadyList k') 0" using bd(4) by (simp add: runnable_def bits new(3))
  have "waits_ok k' (W(t := None)) ys"
    unfolding waits_ok_def al same(2) new(3)
  proof (intro conjI allI impI ballI)
    fix u i w pr assume "(W(t := None)) u = Some (On_sem i w pr)"
    then have u: "u \<noteq> t" "W u = Some (On_sem i w pr)" by (auto split: if_splits)
    show "i < BRTOS_MAX_SEM" "unat pr = prio_of k u" using waits_okD(3,4) [OF bd(7) u(2)] .
    show "if w = 0 then u \<notin> set ys else u \<in> set ys \<longleftrightarrow> TimeToWait (ContextTask k' u) \<noteq> EXIT_BY_TIMEOUT"
      using waits_okD(5,6) [OF bd(7) u(2)] u(1) new(4,5) by simp
  qed (use waits_okD(1,2,7,8) [OF bd(7)] new(4) in \<open>auto split: if_splits\<close>)
  then show ?thesis using base_frame [OF b(1) same new(1,2) r0 sem] by blast
qed

lemma awake_waiter:
  assumes b: "base k W xs" "t = unat (currentTask k)" "W t = Some v"
    and q: "waiter k W j q" "q \<noteq> prio_of k t"
    and same: "TaskAlloc k' = TaskAlloc k" "\<And>t. prio_of k' t = prio_of k t" "OSReadyList k' = OSReadyList k"
      "\<And>u. u \<noteq> t \<Longrightarrow> TimeToWait (ContextTask k' u) = TimeToWait (ContextTask k u)"
  shows "waiter k' (W(t := None)) j q"
proof (rule waiter_frame [OF q(1) allocated_cong [OF same(1)] same(2)])
  fix u assume "prio_of k u = q"
  then have "u \<noteq> t" using q(2) by blast
  then show "(W(t := None)) u = W u \<and> TimeToWait (ContextTask k' u) = TimeToWait (ContextTask k u)" using same(4) by simp
qed (simp add: same(3))

lemma awake_sems_ok:
  assumes b: "base k W xs" "t = unat (currentTask k)" "W t = Some (On_sem i w pr)"
    and st: "BRTOS_Sem_Table k' = (BRTOS_Sem_Table k)(i := e')" "event_ok e'"
      "waiters e' = waiters (BRTOS_Sem_Table k i) - {prio_of k t}"
    and same: "TaskAlloc k' = TaskAlloc k" "\<And>t. prio_of k' t = prio_of k t" "OSReadyList k' = OSReadyList k"
      "\<And>u. u \<noteq> t \<Longrightarrow> TimeToWait (ContextTask k' u) = TimeToWait (ContextTask k u)"
  shows "sems_ok k' (W(t := None))"
proof (rule sems_ok_update [OF baseD(6) [OF b(1)] waits_okD(3) [OF baseD(7) [OF b(1)] b(3)] st(1,2)])
  have i: "i < BRTOS_MAX_SEM" by (rule waits_okD(3) [OF baseD(7) [OF b(1)] b(3)])
  note aw = awake_waiter [OF b _ _ same]
  show "waiter k' (W(t := None)) i p" if "p \<in> waiters e'" for p
    by (rule aw) (use that sems_okD(2) [OF baseD(6) [OF b(1)] i] st(3) in auto)
  show "waiter k' (W(t := None)) j p" if j: "j \<noteq> i" "waiter k W j p" for j p
  proof (rule aw [OF j(2)])
    show "p \<noteq> prio_of k t"
    proof
      assume "p = prio_of k t"
      then obtain w' pr' where "W t = Some (On_sem j w' pr')"
        using waiter_waits [OF b(1)] j(2) baseD(3) [OF b(1)] b(2) by metis
      then show False using b(3) j(1) by simp
    qed
  qed
qed

lemma pend_resume_inv:
  assumes b: "base k W xs" "current_ready k" "t = unat (currentTask k)" "W t = Some (On_sem i w pr)"
  shows "\<exists>r k' ys. OSSemPend_resume (Some i) w t pr k = Some (r, k') \<and> base k' (W(t := None)) ys \<and> current_ready k'"
proof -
  let ?e = "BRTOS_Sem_Table k i"
  note bd = baseD [OF b(1)]
  note wo = waits_okD(3-6) [OF bd(7) b(4)]
  have at: "allocated k t" using bd(3) b(3) by simp
  have pt: "prio_of k t < 32" by (rule tasks_okD(3) [OF sys_okD(1) [OF bd(1)] at])
  note ev = sems_okD [OF bd(6) wo(1)]
  have rt: "bit (OSReadyList k) (prio_of k t)" using b(2,3) by (simp add: current_ready_def)
  have posted: "prio_of k t \<notin> waiters ?e" if "w = 0 \<or> TimeToWait (ContextTask k t) \<noteq> EXIT_BY_TIMEOUT"
  proof
    assume "prio_of k t \<in> waiters ?e"
    then obtain w' pr' where "W t = Some (On_sem i w' pr')" "w' \<noteq> 0 \<and> TimeToWait (ContextTask k t) = EXIT_BY_TIMEOUT"
      using waiter_waits [OF b(1) ev(2) at] rt by metis
    then show False using b(4) that by simp
  qed
  have same: "waiters ?e = waiters ?e - {prio_of k t}" if "prio_of k t \<notin> waiters ?e" using that by auto
  show ?thesis
  proof (cases "w = 0")
    case True
    have "OSSemPend_resume (Some i) w t pr k = Some (OK, k)" using True by (simp add: OSSemPend_resume_def)
    moreover have "sems_ok k (W(t := None))"
      by (rule awake_sems_ok [OF b(1,3,4) _ ev(1) same [OF posted]]) (simp_all add: True)
    then have "base k (W(t := None)) xs"
      using base_awake [OF b(1,3,4), of k xs] bd(1,2) wo(3) True by auto
    ultimately show ?thesis using b(2) by blast
  next
    case False
    have g: "get_sem (Some i) k = Some ?e" using wo(1) by (simp add: get_sem_def)
    have n: "unat (iNesting k) < 254" using bd(2) by simp
    let ?k1 = "EnterCritical k"
    have s1: "sys_ok ?k1 xs" by (rule sys_ok_Enter [OF bd(1) n])
    have pre: "t \<in> set xs \<or> TimeToWait (ContextTask ?k1 t) = EXIT_BY_TIMEOUT" using wo(4) False by auto
    have up: "unat pr < 32" using wo(2) pt by simp
    have goal: ?thesis
      if run: "OSSemPend_resume (Some i) w t pr k = Some (r, k')" and k': "k' = ExitCritical (put_sem (Some i) e' k2)"
        and q: "quiet k2 = quiet kb" "kb = ?k1 \<or> kb = upd_task t (\<lambda>c. c\<lparr>TimeToWait := NO_TIMEOUT\<rparr>) ?k1"
        and n2: "iNesting k2 = 1" and s2: "sys_ok k2 ys" "set ys = set xs - {t}"
        and e': "event_ok e'" "waiters e' = waiters ?e - {prio_of k t}" for r k' e' k2 kb ys
    proof -
      note Q = quiet_eqD [OF q(1)]
      have f: "TaskAlloc k' = TaskAlloc k" "\<And>u. prio_of k' u = prio_of k u" "currentTask k' = currentTask k"
        "OSBlockedList k' = OSBlockedList k" "InterruptEventMutex k' = InterruptEventMutex k" "IsrHandler k' = IsrHandler k"
        "OSReadyList k' = OSReadyList k" "BRTOS_Sem_Table k2 = BRTOS_Sem_Table k"
        "\<And>u. u \<noteq> t \<Longrightarrow> TimeToWait (ContextTask k' u) = TimeToWait (ContextTask k u)"
        using q(2) by (auto simp: k' prio_of_def Q)
      have st: "BRTOS_Sem_Table k' = (BRTOS_Sem_Table k)(i := e')" using f(8) by (simp add: k' put_sem_def)
      have "sems_ok k' (W(t := None))" by (rule awake_sems_ok [OF b(1,3,4) st e' f(1,2,7,9)])
      moreover have "sys_ok k' ys" unfolding k' by (intro sys_ok_Exit sys_ok_put_sem s2)
      moreover have "iNesting k' = 0" using n2 by (simp add: k' iNesting_ExitCritical)
      ultimately have "base k' (W(t := None)) ys"
        using base_awake [OF b(1,3,4) f(1-6) _ _ f(7) s2(2) f(9)] by blast
      moreover have "current_ready k'" using b(2) by (simp add: current_ready_def f)
      ultimately show ?thesis using run by blast
    qed
    show ?thesis
      using sys_okD(2) [OF s1] pre up
    proof (cases rule: wait_over_cases [where e = ?e])
      case timeout
      have "set xs = set xs - {t}" using wo(4) False timeout(2) by auto
      then show ?thesis
        using goal [OF OSSemPend_resume_run [OF g False up timeout(1)] refl refl, of xs] s1 bd(2) timeout(3) wo(2) ev(1) pt
        by (simp add: event_ok_wait_del waiters_wait_del)
    next
      case late_post
      have "set xs = set xs - {t}" using wo(4) False late_post(2) by auto
      then show ?thesis
        using goal [OF OSSemPend_resume_run [OF g False up late_post(1)] refl refl, of xs] s1 bd(2) late_post(3) wo(2) ev(1)
        by simp
    next
      case (post k2)
      have "sys_ok k2 (remove1 t xs)" using wait_over_sys_ok [OF s1 pre up post(1)] post(2) by simp
      moreover have "set (remove1 t xs) = set xs - {t}" using dlist_distinct [OF sys_okD(2) [OF s1]] by (rule set_remove1_eq)
      moreover have "prio_of k t \<notin> waiters ?e" using posted post(2) by simp
      ultimately show ?thesis
        using goal [OF OSSemPend_resume_run [OF g False up post(1)] refl post(4), of "remove1 t xs"] post(5) bd(2) ev(1)
        by simp
    qed
  qed
qed


text \<open>A post.\<close>

lemma post_wake_inv:
  assumes b: "base k W xs" "current_ready k" and i: "i < BRTOS_MAX_SEM"
    and ne: "waiters (BRTOS_Sem_Table k i) \<noteq> {}"
  defines "m \<equiv> Max (waiters (BRTOS_Sem_Table k i))"
  defines "k' \<equiv> ExitCritical (put_sem (Some i) (wait_del (pbit m) (BRTOS_Sem_Table k i))
    ((EnterCritical k)\<lparr>OSReadyList := OSReadyList k OR pbit m\<rparr>))"
  shows "base k' W xs" "current_ready k'"
proof -
  let ?e = "BRTOS_Sem_Table k i"
  note bd = baseD [OF b(1)]
  note ev = sems_okD [OF bd(6) i]
  have m: "m \<in> waiters ?e" "m < 32" using Max_in [OF waiters_finite ne] waiters_bound by (auto simp: m_def)
  have wm: "waiter k W i m" by (rule ev(2) [OF m(1)])
  then obtain u w pr where u: "allocated k u" "prio_of k u = m" "W u = Some (On_sem i w pr)"
    unfolding waiter_def by blast
  have f: "TaskAlloc k' = TaskAlloc k" "\<And>t. prio_of k' t = prio_of k t" "currentTask k' = currentTask k"
    "OSBlockedList k' = OSBlockedList k" "InterruptEventMutex k' = InterruptEventMutex k" "IsrHandler k' = IsrHandler k"
    "ContextTask k' = ContextTask k" "iNesting k' = 0"
    "BRTOS_Sem_Table k' = (BRTOS_Sem_Table k)(i := wait_del (pbit m) ?e)"
    using bd(2) by (simp_all add: k'_def prio_of_def put_sem_def iNesting_ExitCritical)
  have al: "allocated k' t = allocated k t" for t by (rule allocated_cong [OF f(1)])
  have r: "bit (OSReadyList k') q \<longleftrightarrow> bit (OSReadyList k) q \<or> q = m" for q
    using m(2) by (simp add: k'_def bit_or_iff bits)
  have "allocated (EnterCritical k) u" "prio_of (EnterCritical k) u = m"
    using u by (simp_all add: allocated_def prio_of_def)
  then have "sys_ok ((EnterCritical k)\<lparr>OSReadyList := OSReadyList (EnterCritical k) OR pbit m\<rparr>) xs"
    using bd(1,2) m(2) by (intro wake_sys_ok sys_ok_Enter) auto
  then have s: "sys_ok k' xs" unfolding k'_def by (intro sys_ok_Exit sys_ok_put_sem) simp
  have wf: "waiter k' W j q" if "waiter k W j q" "q \<noteq> m" for j q
    by (rule waiter_frame [OF that(1) al f(2)]) (use that(2) in \<open>simp_all add: f(7) r\<close>)
  have other: "q \<noteq> m" if "waiter k W j q" "j \<noteq> i" for j q
    using that waiter_unique [OF b(1) _ wm] by blast
  have se: "sems_ok k' W"
  proof (rule sems_ok_update [OF bd(6) i f(9) event_ok_wait_del [OF ev(1) m(1)]])
    show "waiter k' W i p" if "p \<in> waiters (wait_del (pbit m) ?e)" for p
      using that wf ev(2) m(2) by (simp add: waiters_wait_del)
  qed (use wf other in blast)
  have wa: "waits_ok k' W xs"
  proof (rule waits_ok_frame [OF bd(7) al f(2)])
    fix t assume t: "t \<in> set xs" "W t = Some Delayed" "bit (OSReadyList k') (prio_of k t)"
    have "prio_of k t \<noteq> m"
    proof
      assume "prio_of k t = m"
      then have "t = u" using allocated_inj [OF sys_okD(1) [OF bd(1)] sys_okD(5) [OF bd(1) t(1)] u(1)] u(2) by simp
      then show False using u(3) t(2) by simp
    qed
    then show "bit (OSReadyList k) (prio_of k t)" using t(3) r by simp
  qed (simp add: f(7))
  have r0: "bit (OSReadyList k') 0" using bd(4) r by (simp add: runnable_def bits)
  show "base k' W xs" by (rule base_frame [OF b(1) f(1-6) s f(8) r0 se wa])
  show "current_ready k'" using b(2) r by (simp add: current_ready_def f)
qed

lemma post_inv:
  assumes b: "base k W xs" "current_ready k" and c: "created k i"
  shows "\<exists>r k'. OSSemPost (Some i) k = Some (r, k') \<and> base k' W xs \<and> current_ready k'"
proof -
  let ?e = "BRTOS_Sem_Table k i"
  note bd = baseD [OF b(1)]
  have i: "i < BRTOS_MAX_SEM" "ERROR_CHECK k \<longrightarrow> OSEventAllocated ?e = TRUE" using c by (simp_all add: created_def)
  note ev = sems_okD [OF bd(6) i(1)]
  note g = get_sem_created [OF c]
  show ?thesis
  proof (cases "waiters ?e = {}")
    case False
    then show ?thesis
      using OSSemPost_wake [OF g ev(1) False i(2) sys_okD(4) [OF bd(1)]] post_wake_inv [OF b i(1) False] by blast
  next
    case True
    define e' where "e' = (if OSEventCount ?e < 255
      then ?e\<lparr>OSEventCount := if Binary ?e = FALSE then OSEventCount ?e + 1 else TRUE\<rparr> else ?e)"
    define k' where "k' = ExitCritical (put_sem (Some i) e' (EnterCritical k))"
    have triv: "put_sem (Some i) ?e (EnterCritical k) = EnterCritical k"
      by (simp add: put_sem_def EnterCritical_def)
    have "\<exists>r. OSSemPost (Some i) k = Some (r, k')"
    proof (cases "OSEventCount ?e < 255")
      case lt: True
      then show ?thesis using OSSemPost_no_waiter [OF g ev(1) True i(2)]
        by (simp only: if_True e'_def k'_def option.inject prod.inject) blast
    next
      case ge: False
      then show ?thesis using OSSemPost_no_waiter [OF g ev(1) True i(2)]
        by (simp only: if_False e'_def k'_def triv option.inject prod.inject) blast
    qed
    moreover have e': "event_ok e'" "waiters e' = waiters ?e" using ev(1) by (simp_all add: e'_def)
    have f: "TaskAlloc k' = TaskAlloc k" "\<And>t. prio_of k' t = prio_of k t" "currentTask k' = currentTask k"
      "OSBlockedList k' = OSBlockedList k" "InterruptEventMutex k' = InterruptEventMutex k" "IsrHandler k' = IsrHandler k"
      "ContextTask k' = ContextTask k" "iNesting k' = 0" "BRTOS_Sem_Table k' = (BRTOS_Sem_Table k)(i := e')"
      "OSReadyList k' = OSReadyList k"
      using bd(2) by (simp_all add: k'_def prio_of_def put_sem_def iNesting_ExitCritical)
    have al: "allocated k' t = allocated k t" for t by (rule allocated_cong [OF f(1)])
    have wf: "waiter k' W j q" if "waiter k W j q" for j q
      by (rule waiter_frame [OF that al f(2)]) (simp_all add: f)
    have s: "sys_ok k' xs" unfolding k'_def using bd(1,2) by (intro sys_ok_Exit sys_ok_put_sem sys_ok_Enter) auto
    have se: "sems_ok k' W"
      by (rule sems_ok_update [OF bd(6) i(1) f(9) e'(1)]) (use wf ev(2) in \<open>simp_all add: e'(2)\<close>)
    have wa: "waits_ok k' W xs" by (rule waits_ok_frame [OF bd(7) al f(2)]) (simp_all add: f)
    have r0: "bit (OSReadyList k') 0" using bd(4) by (simp add: runnable_def bits f)
    have "base k' W xs" by (rule base_frame [OF b(1) f(1-6) s f(8) r0 se wa])
    moreover have "current_ready k'" using b(2) by (simp add: current_ready_def f)
    ultimately show ?thesis by blast
  qed
qed

text \<open>A delay.\<close>

lemma delay_inv:
  assumes b: "base k W xs" "current_ready k" "W (unat (currentTask k)) = None"
    "prio_of k (unat (currentTask k)) \<noteq> 0"
  shows "\<exists>r k' ys. OSDelayTask w k = Some (r, k') \<and>
    (r \<noteq> OK \<and> k' = k \<or> r = OK \<and> base k' (W(unat (currentTask k) \<mapsto> Delayed)) ys \<and>
       InterruptEvent k' \<and> bit (PendingInterrupts k') INTERRUPT_SWC)"
proof -
  define t where "t = unat (currentTask k)"
  note bd = baseD [OF b(1)]
  have at: "allocated k t" using bd(3) by (simp add: t_def)
  have tx: "t \<notin> set xs" unfolding t_def by (rule runs_not_delayed [OF b(1,2)]) (simp add: b(3))
  have su: "suspendable k xs" using sys_ok_suspendable [OF bd(1-3)] tx by (simp add: t_def)
  have cur: "currentTask k \<noteq> 0" by (rule suspendable_current [OF su])
  show ?thesis
  proof (cases "w = 0")
    case True
    then show ?thesis using OSDelayTask_guards(3) [OF bd(2) cur] by (auto simp: codes)
  next
    case False
    have pt: "prio_of k t < 32" by (rule tasks_okD(3) [OF sys_okD(1) [OF bd(1)] at])
    define k4 where "k4 = (IncludeTaskIntoDelayList t
      (upd_task t (\<lambda>c. c\<lparr>TimeToWait := tick_after (OSTickCounter k) w\<rparr>) (EnterCritical k)))
        \<lparr>OSReadyList := OSReadyList k AND NOT (pbit (prio_of k t))\<rparr>"
    define k' where "k' = ExitCritical (ChangeContext k4)"
    have run: "OSDelayTask w k = Some (OK, k')"
      using False cur bd(2) task_at_allocated [OF at] pt
      by (simp add: OSDelayTask_def Let_def t_def [symmetric] PriorityMask_Some prio_of_def word_gt_0 k4_def k'_def)
    have n4: "iNesting k4 = 1" "InterruptEventMutex k4" using bd(2,5) by (simp_all add: k4_def handlers_ok_def)
    obtain ks where "OSDelayTask w k = Some (OK, ks)" "delays_ok ks (xs @ [t])"
      by (rule OSDelayTask_OK [OF su, of w, folded t_def]) (use False in \<open>simp add: word_gt_0\<close>)
    then have d: "dlist k' (xs @ [t])" using run by (simp add: delays_ok_def)
    have f: "TaskAlloc k' = TaskAlloc k" "\<And>t. prio_of k' t = prio_of k t" "currentTask k' = currentTask k"
      "OSBlockedList k' = OSBlockedList k" "InterruptEventMutex k' = InterruptEventMutex k" "IsrHandler k' = IsrHandler k"
      "\<And>u. u \<noteq> t \<Longrightarrow> TimeToWait (ContextTask k' u) = TimeToWait (ContextTask k u)"
      "BRTOS_Sem_Table k' = BRTOS_Sem_Table k" "PriorityVector k' = PriorityVector k"
      "NumberOfInstalledTasks k' = NumberOfInstalledTasks k" "OSTickCounter k' = OSTickCounter k"
      by (simp_all add: k'_def k4_def prio_of_def)
    have n: "iNesting k' = 0" using n4 by (simp add: k'_def iNesting_ExitCritical)
    have r: "prios (OSReadyList k') = prios (OSReadyList k) - {prio_of k t}"
      using pt by (simp add: k'_def k4_def prios_clear)
    have al: "allocated k' u = allocated k u" for u by (rule allocated_cong [OF f(1)])
    have s: "sys_ok k' (xs @ [t])"
      by (rule sys_okI [OF bd(1) f(1,9,10,2) _ d f(11)]) (use r n at sys_okD(5) [OF bd(1)] in \<open>auto simp: nestable_def\<close>)
    have se: "sems_ok k' (W(t \<mapsto> Delayed))"
    proof (rule sems_ok_frame [OF bd(6) f(8)])
      fix j q assume q: "waiter k W j q"
      show "waiter k' (W(t \<mapsto> Delayed)) j q"
      proof (rule waiter_frame [OF q al f(2)])
        fix u assume u: "prio_of k u = q"
        have "u \<noteq> t" using waiter_waits [OF b(1) _ at] q u b(3) by (metis option.distinct(1) t_def)
        then show "(W(t \<mapsto> Delayed)) u = W u \<and> TimeToWait (ContextTask k' u) = TimeToWait (ContextTask k u)"
          by (simp add: f(7))
      qed (use r in \<open>auto simp: bits [symmetric]\<close>)
    qed
    have "base k' (W(t \<mapsto> Delayed)) (xs @ [t])"
      using base_sleep [OF b, folded t_def, OF f(1-6) s n r f(7) se] by blast
    then show ?thesis using run request_signals [OF n4(2,1)] by (auto simp: t_def k'_def)
  qed
qed

lemma delay_over_inv:
  assumes b: "base k W xs" "current_ready k" "t = unat (currentTask k)" "W t = Some Delayed"
  shows "base k (W(t := None)) xs"
proof -
  note bd = baseD [OF b(1)]
  have tx: "t \<notin> set xs" unfolding b(3) by (rule runs_not_delayed [OF b(1,2)]) (use b(3,4) in simp)
  have "sems_ok k (W(t := None))"
  proof (rule sems_ok_frame [OF bd(6) refl])
    fix j q assume q: "waiter k W j q"
    have "q \<noteq> prio_of k t"
    proof
      assume "q = prio_of k t"
      then obtain w pr where "W t = Some (On_sem j w pr)" using waiter_waits [OF b(1)] q bd(3) b(3) by metis
      then show False using b(4) by simp
    qed
    then show "waiter k (W(t := None)) j q" by (intro awake_waiter [OF b(1,3,4) q]) simp_all
  qed
  then show ?thesis using base_awake [OF b(1,3,4), of k xs] bd(1,2) tx by simp
qed


text \<open>Requests and the idle task.\<close>

lemma base_hal:
  assumes b: "base k W xs"
  shows "base (TimerSimulado_turn k) W xs" "base (Idle_step k) W xs"
proof -
  have n: "iNesting (TimerSimulado_turn k) = 0"
    using baseD(2) [OF b] by (simp add: TimerSimulado_turn_def GeraInterrupcaoSimulada_def Let_def)
  show "base (TimerSimulado_turn k) W xs" by (rule base_core [OF b _ n]) (simp add: TimerSimulado_turn_def)
  let ?k = "Idle_step k"
  have f: "TaskAlloc ?k = TaskAlloc k" "\<And>t. prio_of ?k t = prio_of k t" "currentTask ?k = currentTask k"
    "OSBlockedList ?k = OSBlockedList k" "InterruptEventMutex ?k = InterruptEventMutex k" "IsrHandler ?k = IsrHandler k"
    "ContextTask ?k = ContextTask k" "OSReadyList ?k = OSReadyList k" "BRTOS_Sem_Table ?k = BRTOS_Sem_Table k"
    "iNesting ?k = iNesting k"
    by (simp_all add: Idle_step_def prio_of_def)
  have al: "allocated ?k t = allocated k t" for t by (rule allocated_cong [OF f(1)])
  have d: "dlist ?k xs"
    by (rule dlist_cong [OF sys_okD(2) [OF baseD(1) [OF b]]]) (simp_all add: Idle_step_def)
  have s: "sys_ok ?k xs"
    by (rule sys_okI [OF baseD(1) [OF b] f(1) _ _ f(2) _ d])
      (use sys_okD(4,5) [OF baseD(1) [OF b]] in \<open>simp_all add: Idle_step_def nestable_def\<close>)
  have se: "sems_ok ?k W"
    by (rule sems_ok_frame [OF baseD(6) [OF b] f(9)], erule waiter_frame [OF _ al f(2)]) (simp_all add: f)
  have wa: "waits_ok ?k W xs" by (rule waits_ok_frame [OF baseD(7) [OF b] al f(2)]) (simp_all add: f)
  have r0: "bit (OSReadyList ?k) 0" using baseD(4) [OF b] by (simp add: runnable_def bits f)
  show "base ?k W xs" by (rule base_frame [OF b f(1-6) s _ r0 se wa]) (simp add: f baseD(2) [OF b])
qed

lemma tick_request:
  "InterruptEvent k \<Longrightarrow> InterruptEvent (TimerSimulado_turn k)"
  "bit (PendingInterrupts k) j \<Longrightarrow> bit (PendingInterrupts (TimerSimulado_turn k)) j"
  "current_ready k \<Longrightarrow> current_ready (TimerSimulado_turn k)"
  by (simp_all add: TimerSimulado_turn_def GeraInterrupcaoSimulada_def Let_def bit_or_iff current_ready_def prio_of_def)

subsection \<open>Reachable states\<close>

lemma invI: "base (kern s) (waits s) xs \<Longrightarrow> current_ready (kern s) \<Longrightarrow> inv s"
  by (auto simp: inv_def)

lemma invI_switch: "base (kern s) (waits s) xs \<Longrightarrow> InterruptEvent (kern s) \<Longrightarrow>
    bit (PendingInterrupts (kern s)) INTERRUPT_SWC \<Longrightarrow> inv s"
  by (auto simp: inv_def)

lemma step_inv:
  assumes "inv s" "step s s'"
  shows "inv s'"
  using assms(2)
proof (cases rule: step.cases)
  case tick
  obtain xs where "base (kern s) (waits s) xs" using assms(1) by (auto simp: inv_def)
  then show ?thesis using assms(1) base_hal(1) tick_request unfolding tick inv_def by auto
next
  case (dispatch k)
  then have "InterruptEvent (kern s)" by (simp add: ProcessaInterrupcoesSimuladas_turn_def split: if_splits)
  then show ?thesis using turn_inv [OF assms(1)] dispatch by (metis option.inject)
next
  case (idle t)
  obtain xs where "base (kern s) (waits s) xs" "current_ready (kern s)" by (rule inv_runs [OF assms(1) idle(2)])
  then show ?thesis using base_hal(2) unfolding idle
    by (intro invI) (simp_all add: current_ready_def Idle_step_def prio_of_def)
next
  case (pend_return t i w r k)
  then have f: "runs s t" "waits s t = None" by (simp_all add: free_def)
  obtain xs where "base (kern s) (waits s) xs" "current_ready (kern s)" "t = unat (currentTask (kern s))"
    by (rule inv_runs [OF assms(1) f(1)])
  then show ?thesis using pend_return_inv [OF _ _ _ pend_return(3,5)] f(2) unfolding pend_return(1)
    by (intro invI) simp_all
next
  case (pend_wait t i w u pr k)
  then have f: "runs s t" "waits s t = None" "prio_of (kern s) t \<noteq> 0" by (simp_all add: free_def)
  obtain xs where xs: "base (kern s) (waits s) xs" "current_ready (kern s)" "t = unat (currentTask (kern s))"
    by (rule inv_runs [OF assms(1) f(1)])
  note pw = pend_wait_inv [OF xs(1,2) _ _ pend_wait(3,4,5)]
  obtain ys where "base k ((waits s)(u \<mapsto> On_sem i w pr)) ys" using pw(1) f(2,3) unfolding xs(3) by blast
  then show ?thesis using pw(2,3) f(2,3) xs(3) unfolding pend_wait(1) by (intro invI_switch) simp_all
next
  case (pend_resume t i w pr r k)
  obtain xs where xs: "base (kern s) (waits s) xs" "current_ready (kern s)" "t = unat (currentTask (kern s))"
    by (rule inv_runs [OF assms(1) pend_resume(2)])
  obtain ys where "base k ((waits s)(t := None)) ys" "current_ready k"
    using pend_resume_inv [OF xs pend_resume(3)] pend_resume(4) by auto
  then show ?thesis unfolding pend_resume(1) by (intro invI) simp_all
next
  case (post t i r k)
  then have f: "runs s t" by (simp add: free_def)
  obtain xs where xs: "base (kern s) (waits s) xs" "current_ready (kern s)" by (rule inv_runs [OF assms(1) f])
  have "base k (waits s) xs" "current_ready k" using post_inv [OF xs post(3)] post(4) by auto
  then show ?thesis unfolding post(1) by (intro invI) simp_all
next
  case (delay t w r k)
  then have f: "runs s t" "waits s t = None" "prio_of (kern s) t \<noteq> 0" by (simp_all add: free_def)
  obtain xs where xs: "base (kern s) (waits s) xs" "current_ready (kern s)" "t = unat (currentTask (kern s))"
    by (rule inv_runs [OF assms(1) f(1)])
  have d: "r \<noteq> OK \<and> k = kern s \<or> (\<exists>ys. r = OK \<and> base k ((waits s)(t \<mapsto> Delayed)) ys \<and>
       InterruptEvent k \<and> bit (PendingInterrupts k) INTERRUPT_SWC)"
    using delay_inv [OF xs(1,2), of w] f(2,3) xs(3) delay(3) by auto
  then show ?thesis
  proof (elim disjE exE conjE)
    assume "r \<noteq> OK" "k = kern s"
    then show ?thesis using xs unfolding delay(1) by (intro invI) simp_all
  next
    fix ys assume "r = OK" "base k ((waits s)(t \<mapsto> Delayed)) ys" "InterruptEvent k"
      "bit (PendingInterrupts k) INTERRUPT_SWC"
    then show ?thesis unfolding delay(1) by (intro invI_switch) simp_all
  qed
next
  case (delay_over t)
  obtain xs where xs: "base (kern s) (waits s) xs" "current_ready (kern s)" "t = unat (currentTask (kern s))"
    by (rule inv_runs [OF assms(1) delay_over(2)])
  then show ?thesis using delay_over_inv [OF xs delay_over(3)] unfolding delay_over(1) by (intro invI) simp_all
qed

lemma reachable_inv:
  assumes "reachable s0 s" "inv s0"
  shows "inv s"
  using assms by (induction rule: reachable.induct) (auto intro: step_inv)

text \<open>The state in which the tasks begin: nobody waits, and the handlers of the kernel are installed.\<close>

definition launched :: "kernel \<Rightarrow> bool" where
  "launched k \<longleftrightarrow> sys_ok k [] \<and> iNesting k = 0 \<and> allocated k (unat (currentTask k)) \<and> 0 \<in> runnable k \<and>
     handlers_ok k \<and> current_ready k \<and>
     (\<forall>i < BRTOS_MAX_SEM. OSEventWait (BRTOS_Sem_Table k i) = 0 \<and> OSEventWaitList (BRTOS_Sem_Table k i) = 0)"

definition begin_with :: "kernel \<Rightarrow> sys" where
  "begin_with k = \<lparr>kern = k, waits = \<lambda>_. None\<rparr>"

lemma launched_inv: "launched k \<Longrightarrow> inv (begin_with k)"
  by (intro invI [of _ "[]"])
    (auto simp: launched_def begin_with_def base_def sems_ok_def waits_ok_def event_ok_def waiters_def)

text \<open>
  C21. The system's invariant. Whatever the tasks, the timer and the interrupt thread do, in every state
  reached from the start the kernel's lists are well formed, no interrupt is open, the idle task is
  runnable, the tasks in the delay list are suspended ones, the counter of every semaphore's waiters is
  exact and every waiter is a suspended task; and while no interrupt is signalled the current task is
  ready.
\<close>

theorem system_invariant:
  assumes "launched k0" "reachable (begin_with k0) s"
  shows "\<exists>xs. sys_ok (kern s) xs \<and> iNesting (kern s) = 0 \<and> 0 \<in> runnable (kern s) \<and>
    (\<forall>t \<in> set xs. waits s t \<noteq> None) \<and>
    (\<forall>i < BRTOS_MAX_SEM. unat (OSEventWait (BRTOS_Sem_Table (kern s) i)) = card (waiters (BRTOS_Sem_Table (kern s) i)) \<and>
       (\<forall>p \<in> waiters (BRTOS_Sem_Table (kern s) i).
          \<exists>t w pr. allocated (kern s) t \<and> prio_of (kern s) t = p \<and> waits s t = Some (On_sem i w pr))) \<and>
    (\<not> InterruptEvent (kern s) \<longrightarrow> bit (OSReadyList (kern s)) (prio_of (kern s) (unat (currentTask (kern s)))))"
proof -
  have i: "inv s" by (rule reachable_inv [OF assms(2) launched_inv [OF assms(1)]])
  then obtain xs where xs: "base (kern s) (waits s) xs" by (auto simp: inv_def)
  note bd = baseD [OF xs]
  have "\<not> InterruptEvent (kern s) \<longrightarrow> bit (OSReadyList (kern s)) (prio_of (kern s) (unat (currentTask (kern s))))"
    using i by (auto simp: inv_def current_ready_def)
  moreover have "\<forall>t \<in> set xs. waits s t \<noteq> None" using waits_okD(7) [OF bd(7)] by blast
  moreover have "\<forall>i < BRTOS_MAX_SEM. unat (OSEventWait (BRTOS_Sem_Table (kern s) i)) = card (waiters (BRTOS_Sem_Table (kern s) i)) \<and>
       (\<forall>p \<in> waiters (BRTOS_Sem_Table (kern s) i).
          \<exists>t w pr. allocated (kern s) t \<and> prio_of (kern s) t = p \<and> waits s t = Some (On_sem i w pr))"
    using sems_okD [OF bd(6)] unfolding waiter_def event_ok_def waiters_def by blast
  ultimately show ?thesis using bd(1,2,4) by blast
qed

text \<open>
  C22. Nothing the running system does is undefined: in every reachable state a signalled interrupt
  thread can take its turn, and the current task can call every service it may call and go on after its
  wait, whatever the arguments.
\<close>

theorem system_defined:
  assumes "launched k0" "reachable (begin_with k0) s"
  shows "if InterruptEvent (kern s) then ProcessaInterrupcoesSimuladas_turn (kern s) \<noteq> None
    else (case waits s (unat (currentTask (kern s))) of
        None \<Rightarrow> prio_of (kern s) (unat (currentTask (kern s))) = 0 \<or> (\<forall>w. OSDelayTask w (kern s) \<noteq> None) \<and>
          (\<forall>i w. created (kern s) i \<longrightarrow> OSSemPend (Some i) w (kern s) \<noteq> None \<and> OSSemPost (Some i) (kern s) \<noteq> None)
      | Some (On_sem i w pr) \<Rightarrow> OSSemPend_resume (Some i) w (unat (currentTask (kern s))) pr (kern s) \<noteq> None
      | Some Delayed \<Rightarrow> True)"
proof -
  have i: "inv s" by (rule reachable_inv [OF assms(2) launched_inv [OF assms(1)]])
  show ?thesis
  proof (cases "InterruptEvent (kern s)")
    case True
    then show ?thesis using turn_inv [OF i True] by auto
  next
    case False
    define t where "t = unat (currentTask (kern s))"
    obtain xs where xs: "base (kern s) (waits s) xs" "current_ready (kern s)"
      using inv_runs [OF i] False by (auto simp: runs_def)
    show ?thesis
    proof (cases "waits s t")
      case None
      have "OSDelayTask w (kern s) \<noteq> None" if "prio_of (kern s) t \<noteq> 0" for w
        using delay_inv [OF xs, of w] None that by (auto simp: t_def)
      moreover have "OSSemPend (Some i) w (kern s) \<noteq> None" if c: "created (kern s) i" for i w
      proof -
        have i: "i < BRTOS_MAX_SEM" "OSEventAllocated (BRTOS_Sem_Table (kern s) i) = TRUE"
          using c by (simp_all add: created_def)
        have "can_pend (kern s) xs (BRTOS_Sem_Table (kern s) i)"
          by (rule free_can_pend [OF xs _ i(1)]) (use None in \<open>simp add: t_def\<close>)
        note cp = can_pendD [OF this]
        show ?thesis using OSSemPend_checked [OF get_sem_created [OF c] _ cp(3,6), of w] i(2) cp(2) by simp
      qed
      moreover have "OSSemPost (Some i) (kern s) \<noteq> None" if "created (kern s) i" for i
        using post_inv [OF xs that] by auto
      ultimately show ?thesis using False None by (auto simp: t_def)
    next
      case (Some v)
      then show ?thesis using False pend_resume_inv [OF xs t_def] by (cases v) (fastforce simp: t_def)+
    qed
  qed
qed

text \<open>
  C23. After every turn of the interrupt thread that served a switch request or a tick the processor
  belongs to the runnable task of highest priority.
\<close>

theorem system_dispatches_highest:
  assumes "launched k0" "reachable (begin_with k0) s" "InterruptEvent (kern s)"
    "bit (PendingInterrupts (kern s)) INTERRUPT_SWC \<or> bit (PendingInterrupts (kern s)) INTERRUPT_TICK"
  shows "\<exists>k. ProcessaInterrupcoesSimuladas_turn (kern s) = Some k \<and>
    allocated k (unat (currentTask k)) \<and> prio_of k (unat (currentTask k)) = Max (runnable k)"
proof -
  have i: "inv s" by (rule reachable_inv [OF assms(2) launched_inv [OF assms(1)]])
  obtain k where k: "ProcessaInterrupcoesSimuladas_turn (kern s) = Some k" "inv (s\<lparr>kern := k\<rparr>)"
    "\<And>j. j \<le> INTERRUPT_TICK \<Longrightarrow> bit (PendingInterrupts (kern s)) j \<Longrightarrow> prio_of k (unat (currentTask k)) = Max (runnable k)"
    using turn_inv [OF i assms(3)] by blast
  have "prio_of k (unat (currentTask k)) = Max (runnable k)" using k(3) assms(4) by (auto simp: config)
  moreover have "allocated k (unat (currentTask k))" using k(2) by (auto simp: inv_def base_def)
  ultimately show ?thesis using k(1) by blast
qed

end
