(* ===== verification/Event_Examples.thy ===== *)
theory Event_Examples
  imports Mutex
begin

text \<open>
  Instances of the properties of semaphores, mailboxes and mutexes, in the running system \<open>demo\<close>
  (task 2 at priority 10 runs, task 1 at priority 5 and the idle task are ready) with one event
  created in the first control block.
\<close>

lemma demo_frame:
  "\<not> ERROR_CHECK demo" "Priority (ContextTask demo (unat (currentTask demo))) = 10"
  by code_simp+

lemma demo_current: "unat (currentTask demo) = 2" "allocated demo 2" "bit (OSReadyList demo) 10"
    "nestable demo"
proof -
  show "bit (OSReadyList demo) 10" unfolding demo_facts by code_simp
qed (simp_all add: demo_facts demo_allocated nestable_def)

lemma demo_can_pend:
  assumes "sys_ok k []" "iNesting k = iNesting demo" "TaskAlloc k = TaskAlloc demo"
    "currentTask k = currentTask demo" "ContextTask k = ContextTask demo" "10 \<notin> waiters e"
  shows "can_pend k [] e"
  using assms demo_current demo_facts demo_prio by (simp add: can_pend_def allocated_def prio_of_def)

subsection \<open>Semaphores\<close>

definition sem0 :: "u8 \<Rightarrow> BRTOS_Sem" where
  "sem0 c = \<lparr>OSEventAllocated = TRUE, OSEventWait = 0, OSEventWaitList = 0, OSEventCount = c, Binary = FALSE\<rparr>"

definition sem_demo :: "BRTOS_Sem \<Rightarrow> kernel" where
  "sem_demo e = put_sem (Some 0) e demo"

lemma sem_demo_facts:
  "get_sem (Some 0) (sem_demo e) = Some e" "sys_ok (sem_demo e) []" "iNesting (sem_demo e) = 0"
  "10 \<notin> waiters e \<Longrightarrow> can_pend (sem_demo e) [] e"
proof -
  show s: "sys_ok (sem_demo e) []" unfolding sem_demo_def by (rule sys_ok_put_sem [OF demo_ok])
  show "can_pend (sem_demo e) [] e" if "10 \<notin> waiters e"
    by (rule demo_can_pend [OF s _ _ _ _ that]) (simp_all add: sem_demo_def)
qed (simp_all add: sem_demo_def get_sem_def put_sem_def config demo_facts)

lemma sem0_ok: "event_ok (sem0 c)" "waiters (sem0 c) = {}" "OSEventAllocated (sem0 c) = TRUE"
    "OSEventCount (sem0 c) = c" "Binary (sem0 c) = FALSE"
  by (simp_all add: sem0_def event_ok_def waiters_def)

lemma sem_waiting:
  "event_ok (wait_add (pbit 5) (sem0 c))" "waiters (wait_add (pbit 5) (sem0 c)) = {5}"
  "OSEventAllocated (wait_add (pbit 5) (sem0 c)) = TRUE"
  by (simp_all add: event_ok_wait_add sem0_ok waiters_wait_add) (simp add: wait_add_def sem0_def)

lemma OSSemPost_refines_witness:
  "\<exists>k'. OSSemPost (Some 0) (sem_demo (wait_add (pbit 5) (sem0 0))) = Some (OK, k') \<and> 5 \<in> prios (OSReadyList k')"
  using OSSemPost_refines [OF sem_demo_facts(1) sem_waiting(1), of 0] sys_okD(4) [OF sem_demo_facts(2)] sem_waiting(2,3) [of 0]
  by (auto simp: abs_post_def sem_abs_def)

lemma OSSemPend_refines_witness:
  "(\<exists>k'. OSSemPend (Some 0) 0 (sem_demo (sem0 1)) = Some (Return OK k')) \<and>
   (\<exists>k' pr. OSSemPend (Some 0) 0 (sem_demo (sem0 0)) = Some (Wait 2 pr k') \<and> sys_ok k' [])"
proof
  have c: "can_pend (sem_demo (sem0 n)) [] (sem0 n)" for n by (rule sem_demo_facts(4)) (simp add: sem0_ok)
  note r = OSSemPend_refines [OF sem_demo_facts(1) sem0_ok(1) c, where w = 0]
  show "\<exists>k'. OSSemPend (Some 0) 0 (sem_demo (sem0 1)) = Some (Return OK k')"
    using r [of 1] by (auto simp: sem0_ok abs_pend_def sem_abs_def)
  have "currentTask (sem_demo (sem0 0)) = 2" by (simp add: sem_demo_def demo_facts)
  then show "\<exists>k' pr. OSSemPend (Some 0) 0 (sem_demo (sem0 0)) = Some (Wait 2 pr k') \<and> sys_ok k' []"
    using r [of 0] by (auto simp: sem0_ok abs_pend_def sem_abs_def config)
qed

lemma OSSemPend_resume_decides_witness:
  "\<exists>k k'. sys_ok k [] \<and> OSSemPend_resume (Some 0) 7 1 5 k = Some (TIMEOUT, k')"
proof -
  define e where "e = wait_add (pbit 5) (sem0 0)"
  define k where "k = upd_task 1 (\<lambda>c. c\<lparr>TimeToWait := EXIT_BY_TIMEOUT\<rparr>) (sem_demo e)"
  have s: "sys_ok k []"
  proof (rule sys_okI [OF sem_demo_facts(2) [of e]])
    show "dlist k []" by (rule dlist_cong [OF sys_okD(2) [OF sem_demo_facts(2) [of e]]]) (simp_all add: k_def)
  qed (simp_all add: k_def prio_of_def nestable_def sem_demo_facts(3))
  have g: "get_sem (Some 0) k = Some e" using sem_demo_facts(1) [of e] by (simp add: k_def get_sem_def)
  have "event_ok e" "waiters e = {5}" by (simp_all add: e_def sem_waiting)
  then show ?thesis
    using OSSemPend_resume_decides [OF g _ s, of 7 5 1] s
    by (auto simp: k_def sem_demo_facts(3))
qed

lemma OSSemPend_times_out_witness:
  "\<exists>k1 kw k2 pr. OSSemPend (Some 0) 9 (sem_demo (sem0 0)) = Some (Wait 2 pr k1) \<and>
     ticks 9 k1 = Some kw \<and> OSSemPend_resume (Some 0) 9 2 pr kw = Some (TIMEOUT, k2)"
proof -
  have c: "can_pend (sem_demo (sem0 0)) [] (sem0 0)" by (rule sem_demo_facts(4)) (simp add: sem0_ok)
  have "unat (currentTask (sem_demo (sem0 0))) = 2" by (simp add: sem_demo_def demo_facts)
  then show ?thesis
    using OSSemPend_times_out [OF sem_demo_facts(1) sem0_ok(1) c, where w = 9] sem0_ok by auto
qed

lemma OSSemCreate_Delete_witness:
  "\<exists>p k'. OSSemCreate 3 NULL demo = (ALLOC_EVENT_OK, p, k') \<and> p \<noteq> NULL"
proof -
  have "OSEventAllocated (BRTOS_Sem_Table demo 0) \<noteq> TRUE" by code_simp
  then have "\<not> (\<forall>i < BRTOS_MAX_SEM. OSEventAllocated (BRTOS_Sem_Table demo i) = TRUE)"
    by (intro notI) (drule spec [of _ 0], simp add: config)
  then have "(\<forall>i < BRTOS_MAX_SEM. OSEventAllocated (BRTOS_Sem_Table demo i) = TRUE) = False" by blast
  from OSSemCreate_Delete [OF demo_facts(5), of NULL 3, unfolded this if_False]
  show ?thesis by (auto split: prod.splits)
qed

lemma OSSemBinaryCreate_one_is_empty_witness:
  "\<exists>k'. OSSemBinaryCreate 1 NULL demo = (ALLOC_EVENT_OK, Some 0, k')"
proof -
  have "find_free 0 BRTOS_MAX_SEM (BRTOS_Sem_Table demo) = Some 0" by code_simp
  then show ?thesis using OSSemBinaryCreate_one_is_empty [OF demo_facts(5), of 0 NULL]
    by (cases "OSSemBinaryCreate 1 NULL demo") auto
qed

subsection \<open>Mailboxes\<close>

definition mbox0 :: BRTOS_Mbox where
  "mbox0 = \<lparr>OSEventAllocated = TRUE, OSEventWait = 0, OSEventWaitList = 0, OSEventState_mb = NO_MESSAGE,
     OSEventPointer = NULL\<rparr>"

definition mbox_demo :: "BRTOS_Mbox \<Rightarrow> kernel" where
  "mbox_demo e = put_mbox (Some 0) e demo"

lemma mbox_demo_facts:
  "get_mbox (Some 0) (mbox_demo e) = Some e" "sys_ok (mbox_demo e) []" "iNesting (mbox_demo e) = 0"
  "10 \<notin> waiters e \<Longrightarrow> can_pend (mbox_demo e) [] e"
proof -
  show s: "sys_ok (mbox_demo e) []" unfolding mbox_demo_def by (rule sys_ok_put_mbox [OF demo_ok])
  show "can_pend (mbox_demo e) [] e" if "10 \<notin> waiters e"
    by (rule demo_can_pend [OF s _ _ _ _ that]) (simp_all add: mbox_demo_def)
qed (simp_all add: mbox_demo_def get_mbox_def put_mbox_def config demo_facts)

lemma mbox0_ok: "event_ok mbox0" "waiters mbox0 = {}" "OSEventAllocated mbox0 = TRUE"
    "OSEventState_mb mbox0 \<noteq> AVAILABLE_MESSAGE"
  by (simp_all add: mbox0_def event_ok_def waiters_def codes)

lemma mbox_waiting:
  "event_ok (wait_add (pbit 5) mbox0)" "waiters (wait_add (pbit 5) mbox0) = {5}"
  "OSEventAllocated (wait_add (pbit 5) mbox0) = TRUE"
  by (simp_all add: event_ok_wait_add mbox0_ok waiters_wait_add)

lemma OSMboxPost_refines_witness:
  "\<exists>k'. OSMboxPost (Some 0) (Some 77) (mbox_demo (wait_add (pbit 5) mbox0)) = Some (OK, k') \<and> 5 \<in> prios (OSReadyList k')"
  using OSMboxPost_refines [OF mbox_demo_facts(1) mbox_waiting(1), of "Some 77"]
    sys_okD(4) [OF mbox_demo_facts(2)] mbox_waiting(2,3) by auto

lemma OSMbox_round_trip_witness:
  "\<exists>k1 k2. OSMboxPost (Some 0) (Some 77) (mbox_demo mbox0) = Some (OK, k1) \<and>
     OSMboxPend (Some 0) NULL 0 k1 = Some (Return (OK, Some 77) k2)"
  using OSMbox_round_trip [OF mbox_demo_facts(1) mbox0_ok(1,2) mbox_demo_facts(3), of "Some 77" NULL 0] mbox0_ok(3)
  by auto

lemma OSMbox_received_twice_witness:
  "\<exists>k1 k2 k3. OSMboxPost (Some 0) (Some 77) (mbox_demo (wait_add (pbit 5) mbox0)) = Some (OK, k1) \<and>
     OSMboxPend (Some 0) NULL 0 k1 = Some (Return (OK, Some 77) k2) \<and>
     OSMboxPend_resume (Some 0) 0 1 5 k2 = Some (OK, Some 77, k3)"
  using OSMbox_received_twice [OF mbox_demo_facts(1) mbox_waiting(1) _ _ mbox_demo_facts(3), of 5 "Some 77" NULL 0 1]
    mbox_waiting(2,3) by auto

lemma OSMboxPend_wait_and_receive_witness:
  "\<exists>k1 k2 k3 pr. OSMboxPend (Some 0) NULL 0 (mbox_demo mbox0) = Some (Wait 2 pr k1) \<and>
     OSMboxPost (Some 0) (Some 77) k1 = Some (OK, k2) \<and>
     OSMboxPend_resume (Some 0) 0 2 pr k2 = Some (OK, Some 77, k3)"
proof -
  have c: "can_pend (mbox_demo mbox0) [] mbox0" by (rule mbox_demo_facts(4)) (simp add: mbox0_ok)
  have "unat (currentTask (mbox_demo mbox0)) = 2" by (simp add: mbox_demo_def demo_facts)
  then show ?thesis
    using OSMboxPend_wait_and_receive [OF mbox_demo_facts(1) mbox0_ok(1) c mbox0_ok(4,2), of NULL "Some 77"] mbox0_ok(3)
    by auto
qed

subsection \<open>Mutexes\<close>

text \<open>A mutex with ceiling 12, in the state that \<open>OSMutexCreate\<close> leaves.\<close>

definition mutex0 :: BRTOS_Mutex where
  "mutex0 = \<lparr>OSEventAllocated = TRUE, OSEventWait = 0, OSEventWaitList = 0, OSEventState = AVAILABLE_RESOURCE,
     OSEventOwner = 0, OSMaxPriority = 12, OSOriginalPriority = 0\<rparr>"

definition mutex_demo :: "BRTOS_Mutex \<Rightarrow> kernel" where
  "mutex_demo e = put_mutex (Some 0) e (demo\<lparr>PriorityVector := (PriorityVector demo)(12 := MUTEX_PRIO)\<rparr>)"

lemma reserve_sys_ok:
  assumes "sys_ok k xs" "PriorityVector k h = EMPTY_PRIO"
  shows "sys_ok (k\<lparr>PriorityVector := (PriorityVector k)(h := MUTEX_PRIO)\<rparr>) xs"
proof (rule sys_ok_coreI [OF reserve_tasks_ok [OF sys_okD(1) [OF assms(1)] assms(2)]])
  let ?k = "k\<lparr>PriorityVector := (PriorityVector k)(h := MUTEX_PRIO)\<rparr>"
  show "dlist ?k xs" by (rule dlist_cong [OF sys_okD(2) [OF assms(1)]]) simp_all
  show "tick_ok ?k" using sys_okD(3) [OF assms(1)] by (simp add: tick_ok_def)
  show "nestable ?k" using sys_okD(4) [OF assms(1)] by (simp add: nestable_def)
  show "allocated ?k u" if "u \<in> set xs" for u using sys_okD(5) [OF assms(1) that] by (simp add: allocated_def)
qed simp_all

lemma mutex_demo_facts:
  "get_mutex (Some 0) (mutex_demo e) = Some e" "sys_ok (mutex_demo e) []" "iNesting (mutex_demo e) = 0"
  "currentTask (mutex_demo e) = 2" "running (mutex_demo e) 2"
  "10 \<notin> waiters e \<Longrightarrow> can_pend (mutex_demo e) [] e" "prio_of (mutex_demo e) t = prio_of demo t"
  "allocated (mutex_demo e) t = allocated demo t" "vec (mutex_demo e) 10 = 2"
  "PriorityVector (mutex_demo e) 12 = MUTEX_PRIO" "\<not> ERROR_CHECK (mutex_demo e)"
proof -
  have v: "PriorityVector demo 12 = EMPTY_PRIO" by code_simp
  have "sys_ok (demo\<lparr>PriorityVector := (PriorityVector demo)(12 := MUTEX_PRIO)\<rparr>) []" by (rule reserve_sys_ok [OF demo_ok v])
  then show s: "sys_ok (mutex_demo e) []" unfolding mutex_demo_def by (rule sys_ok_put_mutex)
  show "can_pend (mutex_demo e) [] e" if "10 \<notin> waiters e"
    by (rule demo_can_pend [OF s _ _ _ _ that]) (simp_all add: mutex_demo_def put_mutex_def)
  have vv: "PriorityVector demo 10 = 2" by code_simp
  show "vec (mutex_demo e) 10 = 2" using vv by (simp add: mutex_demo_def vec_def)
  show "currentTask (mutex_demo e) = 2" by (simp add: mutex_demo_def demo_facts)
  show "prio_of (mutex_demo e) t = prio_of demo t" for t by (simp add: prio_of_def mutex_demo_def put_mutex_def)
  show "allocated (mutex_demo e) t = allocated demo t" for t by (simp add: allocated_def mutex_demo_def)
  show "running (mutex_demo e) 2"
    using demo_current demo_prio
    by (simp add: running_def mutex_demo_def allocated_def prio_of_def put_mutex_def)
qed (simp_all add: mutex_demo_def get_mutex_def put_mutex_def config demo_facts demo_frame)

lemma mutex0_ok: "mutex_free (mutex_demo mutex0) mutex0" "OSEventOwner mutex0 = 0" "OSMaxPriority mutex0 = 12"
  by (simp_all add: mutex_free_def mutex0_def event_ok_def waiters_def mutex_demo_facts)

lemma OSMutex_round_trip_witness:
  "\<exists>k1 k2. OSMutexAcquire (Some 0) 0 (mutex_demo mutex0) = Some (Return OK k1) \<and> prio_of k1 2 = 12 \<and>
     OSMutexRelease (Some 0) k1 = Some (OK, k2) \<and> OSReadyList k2 = OSReadyList (mutex_demo mutex0)"
  using OSMutex_round_trip [OF mutex_demo_facts(2,3,5,1) mutex0_ok(1), of 0] mutex0_ok(2,3) mutex_demo_facts(4,7,11) demo_prio(2)
  by auto

text \<open>A second mutex, with ceiling 15.\<close>

definition two_mutexes :: kernel where
  "two_mutexes = put_mutex (Some 1) (mutex0\<lparr>OSMaxPriority := 15\<rparr>)
     ((mutex_demo mutex0)\<lparr>PriorityVector := (PriorityVector (mutex_demo mutex0))(15 := MUTEX_PRIO)\<rparr>)"

lemma release_in_order_loses_task_witness:
  "\<exists>k1 k2 k3 k4. OSMutexAcquire (Some 0) 0 two_mutexes = Some (Return OK k1) \<and> OSMutexAcquire (Some 1) 0 k1 = Some (Return OK k2) \<and>
     OSMutexRelease (Some 0) k2 = Some (OK, k3) \<and> OSMutexRelease (Some 1) k3 = Some (OK, k4) \<and> OSSchedule k4 = MUTEX_PRIO"
proof -
  have "PriorityVector demo 15 = EMPTY_PRIO" by code_simp
  then have v: "PriorityVector (mutex_demo mutex0) 15 = EMPTY_PRIO" by (simp add: mutex_demo_def)
  have s: "sys_ok two_mutexes []" unfolding two_mutexes_def by (rule sys_ok_put_mutex [OF reserve_sys_ok [OF mutex_demo_facts(2) v]])
  have n: "iNesting two_mutexes = 0" "currentTask two_mutexes = 2" "\<not> ERROR_CHECK two_mutexes"
    by (simp_all add: two_mutexes_def mutex_demo_facts)
  have r: "running two_mutexes 2" "prio_of two_mutexes 2 = 10"
    using mutex_demo_facts(5) [of mutex0] mutex_demo_facts(7) [of mutex0 2] demo_prio(2)
    by (simp_all add: running_def two_mutexes_def put_mutex_def allocated_def prio_of_def)
  have g: "get_mutex (Some 0) two_mutexes = Some mutex0" "get_mutex (Some 1) two_mutexes = Some (mutex0\<lparr>OSMaxPriority := 15\<rparr>)"
    using mutex_demo_facts(1) [of mutex0] by (simp_all add: two_mutexes_def get_mutex_def put_mutex_def config)
  have f: "mutex_free two_mutexes mutex0" "mutex_free two_mutexes (mutex0\<lparr>OSMaxPriority := 15\<rparr>)"
    using mutex0_ok(1) by (simp_all add: mutex_free_def two_mutexes_def mutex0_def event_ok_def waiters_def)
  have l: "OSReadyList two_mutexes = 0x421" "OSBlockedList two_mutexes = 0xFFFFFFFF"
    by (simp_all add: two_mutexes_def mutex_demo_def demo_facts)
  have "r \<le> 12" if "r \<in> runnable two_mutexes" for r
  proof -
    have "bit (0x421 :: u32) r" using that by (simp add: runnable_def l bits)
    moreover have "unat (SAScheduler 0x421) = 10" by code_simp
    ultimately show ?thesis using SAScheduler_ge [of "0x421" r] by simp
  qed
  then have top: "\<forall>r \<in> runnable two_mutexes. r \<le> unat (OSMaxPriority mutex0)" by (simp add: mutex0_ok(3))
  have b: "bit (OSBlockedList two_mutexes) (unat (OSMaxPriority mutex0))" unfolding l mutex0_ok(3) by code_simp
  have ow: "(Some 0 :: ptr) \<noteq> Some 1" "OSEventOwner mutex0 \<noteq> currentTask two_mutexes"
    "OSEventOwner (mutex0\<lparr>OSMaxPriority := 15\<rparr>) \<noteq> currentTask two_mutexes" "prio_of two_mutexes 2 < unat (OSMaxPriority mutex0)"
    "OSMaxPriority (mutex0\<lparr>OSMaxPriority := 15\<rparr>) \<noteq> OSMaxPriority mutex0"
    by (simp_all add: n(2) r(2) mutex0_def)
  have e: "ERROR_CHECK two_mutexes \<longrightarrow> OSEventAllocated mutex0 = TRUE \<and> OSEventAllocated (mutex0\<lparr>OSMaxPriority := 15\<rparr>) = TRUE"
    using n(3) by blast
  show ?thesis using release_in_order_loses_task [OF s n(1) r(1) ow(1) g f ow(2,3) e ow(4,5), of 0] top b by blast
qed

text \<open>The same mutex owned by task 1, wanted by task 2; and owned by task 2, wanted by task 1.\<close>

definition mutex1 :: BRTOS_Mutex where
  "mutex1 = mutex0\<lparr>OSEventState := BUSY_RESOURCE, OSEventOwner := 1, OSOriginalPriority := 5\<rparr>"

definition mutex2 :: BRTOS_Mutex where
  "mutex2 = wait_add (pbit 5) (mutex0\<lparr>OSEventState := BUSY_RESOURCE, OSEventOwner := 2, OSOriginalPriority := 10\<rparr>)"

lemma mutex1_ok: "waiters mutex1 = {}" "OSEventState mutex1 = BUSY_RESOURCE" "OSEventOwner mutex1 = 1"
  by (simp_all add: mutex1_def mutex0_def waiters_def)

lemma mutex2_ok: "event_ok mutex2" "waiters mutex2 = {5}" "OSEventOwner mutex2 = 2"
    "unat (OSOriginalPriority mutex2) = 10"
proof -
  let ?e = "mutex0\<lparr>OSEventState := BUSY_RESOURCE, OSEventOwner := 2, OSOriginalPriority := 10\<rparr>"
  have "event_ok ?e" "waiters ?e = {}" by (simp_all add: mutex0_def event_ok_def waiters_def)
  then show "event_ok mutex2" "waiters mutex2 = {5}"
    by (simp_all add: mutex2_def event_ok_wait_add waiters_wait_add)
qed (simp_all add: mutex2_def wait_add_def)

lemma OSMutexAcquire_excludes_witness:
  "\<exists>k'. OSMutexAcquire (Some 0) NO_TIMEOUT (mutex_demo mutex1) = Some (Return EXIT_BY_NO_RESOURCE_AVAILABLE k')"
proof -
  have c: "can_pend (mutex_demo mutex1) [] mutex1" by (rule mutex_demo_facts(6)) (simp add: mutex1_ok)
  show ?thesis
    using OSMutexAcquire_excludes [OF mutex_demo_facts(1) c mutex1_ok(2), of NO_TIMEOUT] mutex1_ok(3) mutex_demo_facts(4,11)
    by auto
qed

lemma OSMutexRelease_owner_only_witness:
  "\<exists>k'. OSMutexRelease (Some 0) (mutex_demo mutex1) = Some (ERR_EVENT_OWNER, k')"
  using OSMutexRelease_owner_only [OF mutex_demo_facts(1) [of mutex1]] mutex1_ok(3) mutex_demo_facts(4,11) by auto

lemma OSMutexRelease_hands_over_witness:
  "\<exists>k' e'. OSMutexRelease (Some 0) (mutex_demo mutex2) = Some (OK, k') \<and> get_mutex (Some 0) k' = Some e' \<and>
     OSEventOwner e' = 1"
proof -
  have w: "waiters_are_tasks (mutex_demo mutex2) mutex2"
    unfolding waiters_are_tasks_def mutex2_ok mutex_demo_facts demo_allocated using demo_prio(1) by blast
  have "\<exists>k' e' u. OSMutexRelease (Some 0) (mutex_demo mutex2) = Some (OK, k') \<and> get_mutex (Some 0) k' = Some e' \<and>
      unat (OSEventOwner e') = u \<and> allocated demo u \<and> prio_of demo u = 5"
    using OSMutexRelease_hands_over [OF mutex_demo_facts(2,3,5,1) mutex2_ok(1) _ w] mutex2_ok mutex_demo_facts demo_prio(2)
    by auto
  then obtain k' e' u where r: "OSMutexRelease (Some 0) (mutex_demo mutex2) = Some (OK, k')"
    "get_mutex (Some 0) k' = Some e'" "unat (OSEventOwner e') = u" "allocated demo u" "prio_of demo u = 5" by blast
  have "u = 1" using allocated_inj [OF sys_okD(1) [OF demo_ok] r(4), of 1] r(5) demo_prio(1) demo_allocated by simp
  then have "OSEventOwner e' = 1" using r(3) word_unat_eq_iff [of "OSEventOwner e'" 1] by simp
  then show ?thesis using r(1,2) by blast
qed

lemma OSMutexCreate_reserves_witness:
  "\<exists>p k'. OSMutexCreate NULL 12 demo = Some (ALLOC_EVENT_OK, p, k') \<and> PriorityVector k' 12 = MUTEX_PRIO"
proof -
  have f: "OSEventAllocated (BRTOS_Mutex_Table demo 0) \<noteq> TRUE" "PriorityVector demo (unat (12 :: u8)) = EMPTY_PRIO"
    by code_simp+
  then have "\<not> (\<forall>i < BRTOS_MAX_MUTEX. OSEventAllocated (BRTOS_Mutex_Table demo i) = TRUE)"
    by (intro notI) (drule spec [of _ 0], simp add: config)
  then have nf: "(\<forall>i < BRTOS_MAX_MUTEX. OSEventAllocated (BRTOS_Mutex_Table demo i) = TRUE) = False" by blast
  have "\<exists>ret p k'. OSMutexCreate NULL 12 demo = Some (ret, p, k') \<and>
      PriorityVector k' = (PriorityVector demo)(unat (12 :: u8) := MUTEX_PRIO) \<and> ret = ALLOC_EVENT_OK"
    using OSMutexCreate_reserves [OF demo_ok demo_facts(5) _ _ f(2), of NULL, unfolded nf if_False] by auto
  then show ?thesis by auto
qed

end
