(* ===== verification/Queue_Examples.thy ===== *)
theory Queue_Examples
  imports Queue Event_Examples
begin

text \<open>Instances of the properties of queues: one queue of eight bytes in the running system \<open>demo\<close>.\<close>

definition queue0 :: BRTOS_Queue where
  "queue0 = \<lparr>OSEventAllocated = TRUE, OSEventWait = 0, OSEventWaitList = 0, OSEventCount_q = 0,
     OSEventPointer_q = Some 0\<rparr>"

definition queue_demo :: "BRTOS_Queue \<Rightarrow> kernel" where
  "queue_demo e = put_queue (Some 0) e
     ((put_ring (Some 0) (ring_init 1 0 8, QUEUE_STACK demo) demo)\<lparr>iQueueAddress := 2\<rparr>)"

lemma demo_queues: "iQueueAddress demo = 0" "\<not> live demo i" "queues_ok demo"
proof -
  show a: "iQueueAddress demo = 0" by code_simp
  have "\<forall>i \<in> set [0..<20]. OSEventAllocated (BRTOS_Queue_Table demo i) \<noteq> TRUE" by code_simp
  then show l: "\<not> live demo i" for i by (auto simp: live_def config)
  show "queues_ok demo" unfolding queues_ok_def using a l by simp
qed

lemma queue_demo_ok:
  assumes "OSEventAllocated e = TRUE" "OSEventPointer_q e = Some 0"
  shows "queues_ok (queue_demo e)" "live (queue_demo e) 0" "queued (queue_demo e) 0 = []"
    "capacity (queue_demo e) 0 = 8" "BRTOS_Queue_Table (queue_demo e) 0 = e" "sys_ok (queue_demo e) []"
    "iNesting (queue_demo e) = 0"
proof -
  have r: "round_up 8 = 8" by code_simp
  have room: "\<not> heap_full 8 demo" by (simp add: heap_full_def r demo_queues config)
  have z: "0 < BRTOS_MAX_QUEUE" by (simp add: config)
  have st: "BRTOS_OS_QUEUE_Table (queue_demo e) = (BRTOS_OS_QUEUE_Table demo)
        (0 := ring_init 1 (CPU_WORD * unat (iQueueAddress demo)) (round_up 8))"
    "QUEUE_STACK (queue_demo e) = QUEUE_STACK demo"
    "iQueueAddress (queue_demo e) = iQueueAddress demo + word_of_nat (unat (round_up 8) div CPU_WORD)"
    "OSEventAllocated (BRTOS_Queue_Table (queue_demo e) 0) = TRUE"
    "OSEventPointer_q (BRTOS_Queue_Table (queue_demo e) 0) = Some 0"
    "\<And>j. j \<noteq> 0 \<Longrightarrow> BRTOS_Queue_Table (queue_demo e) j = BRTOS_Queue_Table demo j"
    using assms by (simp_all add: queue_demo_def put_ring_def put_queue_def demo_queues r config)
  note c = create_state [OF demo_queues(3) room z demo_queues(2) st]
  show "queues_ok (queue_demo e)" "live (queue_demo e) 0" "queued (queue_demo e) 0 = []"
    "capacity (queue_demo e) 0 = 8" using c(1) c(2) [of 0] c(4,5) r by simp_all
  show "BRTOS_Queue_Table (queue_demo e) 0 = e" "iNesting (queue_demo e) = 0"
    by (simp_all add: queue_demo_def put_queue_def demo_facts)
  show "sys_ok (queue_demo e) []"
    unfolding queue_demo_def by (intro sys_ok_put_queue(1) sys_ok_tables(7) sys_ok_put_queue(2) demo_ok)
qed

lemma queue0_ok: "OSEventAllocated queue0 = TRUE" "OSEventPointer_q queue0 = Some 0" "event_ok queue0"
    "waiters queue0 = {}"
  by (simp_all add: queue0_def event_ok_def waiters_def)

lemmas q0 = queue_demo_ok [OF queue0_ok(1,2)]

definition queue5 :: BRTOS_Queue where "queue5 = wait_add (pbit 5) queue0"

lemma queue5_ok: "OSEventAllocated queue5 = TRUE" "OSEventPointer_q queue5 = Some 0" "event_ok queue5"
    "waiters queue5 = {5}"
proof -
  show "OSEventAllocated queue5 = TRUE" "OSEventPointer_q queue5 = Some 0"
    by (simp_all add: queue5_def wait_add_def queue0_def)
  show "event_ok queue5" "waiters queue5 = {5}"
    by (simp_all add: queue5_def event_ok_wait_add queue0_ok waiters_wait_add)
qed

lemmas q5 = queue_demo_ok [OF queue5_ok(1,2)]

lemma OSQueueCreate_keeps_queues_witness:
  "\<exists>p k'. OSQueueCreate 7 NULL demo = (ALLOC_EVENT_OK, p, k') \<and> queues_ok k'"
proof -
  have r: "round_up 7 = 8" by code_simp
  have 1: "heap_full 7 demo = False" by (simp add: heap_full_def r demo_queues config)
  have "\<not> live demo 0" "0 < BRTOS_MAX_QUEUE" by (simp_all add: demo_queues config)
  then have 2: "(\<forall>i < BRTOS_MAX_QUEUE. live demo i) = False" by blast
  from OSQueueCreate_keeps_queues [OF demo_queues(3) demo_facts(5), of 7 NULL, unfolded 1 2 if_False]
  show ?thesis by (auto split: prod.splits)
qed

lemma OSQueuePost_appends_witness:
  "\<exists>k'. OSQueuePost (Some 0) 65 (queue_demo queue5) = Some (WRITE_BUFFER_OK, k') \<and> queued k' 0 = [65] \<and>
     5 \<in> prios (OSReadyList k')"
proof -
  have n: "nestable (queue_demo queue5)" by (rule sys_okD(4) [OF q5(6)])
  have e: "event_ok (BRTOS_Queue_Table (queue_demo queue5) 0)" by (simp add: q5(5) queue5_ok)
  show ?thesis
    using OSQueuePost_appends [OF q5(1,2) e n, of 65] by (auto simp: q5(3-5) queue5_ok)
qed

lemma queue_can_pend: "can_pend (queue_demo queue0) [] (BRTOS_Queue_Table (queue_demo queue0) 0)"
proof -
  have "can_pend (queue_demo queue0) [] queue0"
    by (rule demo_can_pend [OF q0(6)]) (simp_all add: queue_demo_def queue0_ok)
  then show ?thesis by (simp add: q0(5))
qed

lemma OSQueuePend_takes_witness:
  "\<exists>k' pr. OSQueuePend (Some 0) 3 (queue_demo queue0) = Some (Wait 2 pr k') \<and> sys_ok k' [2]"
proof -
  have c: "unat (currentTask (queue_demo queue0)) = 2" by (simp add: queue_demo_def demo_facts)
  show ?thesis
    using OSQueuePend_takes [OF q0(1,2) queue_can_pend, of 3] by (auto simp: q0(3) c config)
qed

lemma OSQueue_first_in_first_out_witness:
  "\<exists>k1 k2. bq.put_all 0 [72, 105] (queue_demo queue0) = Some k1 \<and> bq.get_all 0 2 k1 = Some ([72, 105], k2)"
proof -
  have r: "queue_ready 0 (queue_demo queue0)" by (simp add: queue_ready_def q0 queue0_ok)
  have l: "length ([] :: u8 list) + length [72 :: u8, 105] = 2" "2 \<le> (8 :: nat)" by simp_all
  show ?thesis
    using OSQueue_first_in_first_out [OF r, of "[72, 105]", unfolded q0(3,4) l(1) append_Nil, OF l(2)] by blast
qed

lemma OSQueue_taken_twice_witness:
  "\<exists>k1 k2 k3 stale. OSQueuePost (Some 0) 65 (queue_demo queue5) = Some (WRITE_BUFFER_OK, k1) \<and>
    OSQueuePend (Some 0) 0 k1 = Some (Return (READ_BUFFER_OK, Some 65) k2) \<and>
    OSQueuePend_resume (Some 0) (Some 0) 0 1 5 k2 = Some (READ_BUFFER_OK, Some stale, k3) \<and>
    OSQEntries (BRTOS_OS_QUEUE_Table k3 0) = 65535"
proof -
  have e: "event_ok (BRTOS_Queue_Table (queue_demo queue5) 0)" "waiting_on (queue_demo queue5) 0 \<noteq> {}"
    by (simp_all add: q5(5) queue5_ok)
  have c: "capacity (queue_demo queue5) 0 > 0" by (simp add: q5(4))
  show ?thesis
    using OSQueue_taken_twice [OF q5(1,2) e(1) q5(3) c e(2) q5(7), of 5 65 0 1] by auto
qed

lemma OSQueue_wide_round_trip_witness:
  "\<exists>q1 k1 q2 k2. OSWQueue16 (ring_init 2 0 4) 513 demo = Some (WRITE_BUFFER_OK, q1, k1) \<and>
     OSRQueue16 q1 k1 = Some (READ_BUFFER_OK, Some 513, q2, k2)"
proof -
  have "ring_ok QUEUE_HEAP_SIZE 2 (ring_init 2 0 4)" "ring_ok QUEUE_HEAP_SIZE 4 (ring_init 4 0 4)"
    by (rule ring_init_ok; simp add: config)+
  from OSQueue_wide_round_trip [OF this, of 513 demo 1] show ?thesis by (auto simp: ring_init_def)
qed

end
