(* ===== verification/System_Examples.thy ===== *)
theory System_Examples
  imports System Queue_Examples
begin

text \<open>
  Instances of the properties of the running system: \<open>demo\<close>, started by \<open>BRTOSStart\<close>, with one more tick
  requested, or with its task of highest priority gone to wait for a semaphore.
\<close>

lemma demo_hal:
  "IsrHandler demo 0 = ISR_SwitchContext" "IsrHandler demo 1 = ISR_TickTimer" "IsrHandler demo 2 = ISR_NONE"
  by code_simp+

lemma demo_sems: "\<forall>i < 20. OSEventWait (BRTOS_Sem_Table demo i) = 0 \<and> OSEventWaitList (BRTOS_Sem_Table demo i) = 0"
proof -
  have "\<forall>e \<in> set (map (BRTOS_Sem_Table demo) [0..<20]). OSEventWait e = 0 \<and> OSEventWaitList e = 0" by code_simp
  then show ?thesis by simp
qed

lemma demo_launched: "launched demo"
proof -
  have "current_ready demo" using demo_current(3) demo_facts demo_prio by (simp add: current_ready_def prio_of_def)
  moreover have "0 \<in> runnable demo" by (simp add: runnable_def bits demo_facts)
  moreover have "handlers_ok demo" using demo_hal(1-3) demo_facts(6) by (simp add: handlers_ok_def config)
  moreover have "\<forall>i < BRTOS_MAX_SEM. OSEventWait (BRTOS_Sem_Table demo i) = 0 \<and> OSEventWaitList (BRTOS_Sem_Table demo i) = 0"
    using demo_sems by (simp add: config)
  ultimately show ?thesis using demo_ok demo_current(1,2) demo_facts(5) by (simp add: launched_def)
qed

definition ticked :: sys where
  "ticked = begin_with (TimerSimulado_turn demo)"

lemma ticked_reachable: "reachable (begin_with demo) ticked"
proof -
  have "step (begin_with demo) ((begin_with demo)\<lparr>kern := TimerSimulado_turn (kern (begin_with demo))\<rparr>)" by (rule tick)
  then have "step (begin_with demo) ticked" by (simp add: ticked_def begin_with_def)
  then show ?thesis using more [OF start] by blast
qed

lemma ticked_pending:
  "InterruptEvent (kern ticked)" "bit (PendingInterrupts (kern ticked)) INTERRUPT_TICK"
  by (simp_all add: ticked_def begin_with_def TimerSimulado_turn_def GeraInterrupcaoSimulada_def Let_def
      demo_facts config bit_or_iff bits)

theorem system_invariant_witness:
  "launched demo \<and> reachable (begin_with demo) ticked \<and> (\<exists>xs. sys_ok (kern ticked) xs \<and> 0 \<in> runnable (kern ticked))"
  using demo_launched ticked_reachable system_invariant [OF demo_launched ticked_reachable] by blast

theorem system_defined_witness:
  "\<not> InterruptEvent demo \<and> OSDelayTask 5 demo \<noteq> None \<and> waits (begin_with demo) (unat (currentTask demo)) = None"
proof -
  have n: "\<not> InterruptEvent demo" by code_simp
  have "prio_of demo (unat (currentTask demo)) \<noteq> 0" using demo_current demo_facts by (simp add: prio_of_def)
  then show ?thesis using system_defined [OF demo_launched start] n by (simp add: begin_with_def)
qed

theorem system_dispatches_highest_witness:
  "\<exists>k. ProcessaInterrupcoesSimuladas_turn (kern ticked) = Some k \<and>
     prio_of k (unat (currentTask k)) = Max (runnable k)"
  using system_dispatches_highest [OF demo_launched ticked_reachable ticked_pending(1)] ticked_pending(2) by blast

end
