(* ===== verification/Calendar.thy ===== *)
theory Calendar
  imports Hal
begin

text \<open>
  Time of day, uptime and calendar (\<open>OSTime.c\<close>, \<open>OSTime.h\<close>). The calendar is stepped once a second and
  decides month lengths and leap years as it goes; the reference is the number of seconds since the
  start of year 0, of which it is proved to be a representation.
\<close>

record OSTime =
  RTC_Second :: u8
  RTC_Minute :: u8
  RTC_Hour :: u8

record OSDate =
  RTC_Day :: u8
  RTC_Month :: u8
  RTC_Year :: u16

record OS_RTC =
  Year :: u16
  Month :: u8
  Day :: u8
  Hour :: u8
  Min' :: u8
  Sec :: u8

text \<open>The static variables of the file.\<close>

record clock =
  Hora :: OSTime
  Data :: OSDate
  OSRtc :: OS_RTC
  LeapMonth :: u8

definition MonthLength :: "nat list" where
  "MonthLength = [0, 31, 28, 31, 30, 31, 30, 31, 31, 30, 31, 30, 31]"

text \<open>Code between \<open>OSEnterCritical\<close> and \<open>OSExitCritical\<close>.\<close>

definition in_critical :: "('a \<Rightarrow> 'a) \<Rightarrow> kernel \<times> 'a \<Rightarrow> kernel \<times> 'a" where
  "in_critical f s = (case s of (k, c) \<Rightarrow> (ExitCritical (EnterCritical k), f c))"

text \<open>The cascade of seconds, minutes and hours; \<open>True\<close> when the day is over.\<close>

definition add_second :: "OSTime \<Rightarrow> bool \<times> OSTime" where
  "add_second h =
    (let h1 = h\<lparr>RTC_Second := RTC_Second h + 1\<rparr>
     in if RTC_Second h1 = 60 then
          (let h2 = h1\<lparr>RTC_Second := 0, RTC_Minute := RTC_Minute h1 + 1\<rparr>
           in if RTC_Minute h2 = 60 then
                (let h3 = h2\<lparr>RTC_Minute := 0, RTC_Hour := RTC_Hour h2 + 1\<rparr>
                 in if RTC_Hour h3 = 24 then (True, h3\<lparr>RTC_Hour := 0\<rparr>) else (False, h3))
              else (False, h2))
        else (False, h1))"

definition OSUpdateTime :: "kernel \<times> clock \<Rightarrow> kernel \<times> clock" where
  "OSUpdateTime = in_critical (\<lambda>c. c\<lparr>Hora := snd (add_second (Hora c))\<rparr>)"

definition OSUpdateUptime :: "kernel \<times> clock \<Rightarrow> kernel \<times> clock" where
  "OSUpdateUptime = in_critical (\<lambda>c.
    (case add_second (Hora c) of (over, h) \<Rightarrow>
       let c1 = c\<lparr>Hora := h\<rparr>
       in if over then c1\<lparr>Data := (Data c1)\<lparr>RTC_Day := RTC_Day (Data c1) + 1\<rparr>\<rparr> else c1))"

definition add_day :: "OSDate \<Rightarrow> OSDate" where
  "add_day d =
    (let d1 = d\<lparr>RTC_Day := RTC_Day d + 1\<rparr>
     in if RTC_Day d1 = 30 then
          (let d2 = d1\<lparr>RTC_Day := 0, RTC_Month := RTC_Month d1 + 1\<rparr>
           in if RTC_Month d2 = 12 then
                (let d3 = d2\<lparr>RTC_Month := 0, RTC_Year := RTC_Year d2 + 1\<rparr>
                 in if RTC_Year d3 = 9999 then d3\<lparr>RTC_Year := 0\<rparr> else d3)
              else d2)
        else d1)"

definition OSUpdateDate :: "kernel \<times> clock \<Rightarrow> kernel \<times> clock" where
  "OSUpdateDate = in_critical (\<lambda>c. c\<lparr>Data := add_day (Data c)\<rparr>)"

definition OSResetTime :: "kernel \<times> clock \<Rightarrow> kernel \<times> clock" where
  "OSResetTime = in_critical (\<lambda>c. c\<lparr>Hora := \<lparr>RTC_Second = 0, RTC_Minute = 0, RTC_Hour = 0\<rparr>\<rparr>)"

definition OSResetDate :: "kernel \<times> clock \<Rightarrow> kernel \<times> clock" where
  "OSResetDate = in_critical (\<lambda>c. c\<lparr>Data := \<lparr>RTC_Day = 0, RTC_Month = 0, RTC_Year = 0\<rparr>\<rparr>)"

definition OSUptime :: "clock \<Rightarrow> OSTime" where "OSUptime c = Hora c"
definition OSUpDate :: "clock \<Rightarrow> OSDate" where "OSUpDate c = Data c"

text \<open>Whether February has a day more, as the nested tests decide it.\<close>

definition leap_month :: "OS_RTC \<Rightarrow> u8" where
  "leap_month r =
    (if Month r = 2 then
       (if Year r AND 3 = 0 then
          (if Year r mod 100 = 0 then (if Year r mod 400 = 0 then 1 else 0) else 1)
        else 0)
     else 0)"

text \<open>A month beyond the table is undefined.\<close>

definition OSUpdateCalendar :: "clock \<Rightarrow> clock option" where
  "OSUpdateCalendar c =
    (let r1 = (OSRtc c)\<lparr>Sec := Sec (OSRtc c) + 1\<rparr>
     in if Sec r1 = 60 then
          (let r2 = r1\<lparr>Sec := 0, Min' := Min' r1 + 1\<rparr>
           in if Min' r2 > 59 then
                (let r3 = r2\<lparr>Min' := 0, Hour := Hour r2 + 1\<rparr>
                 in if Hour r3 > 23 then
                      (let r4 = r3\<lparr>Hour := 0, Day := Day r3 + 1\<rparr>;
                           l = leap_month r4
                       in if unat (Month r4) < length MonthLength then
                            (if unat (Day r4) > MonthLength ! unat (Month r4) + unat l then
                               (let r5 = r4\<lparr>Day := 1, Month := Month r4 + 1\<rparr>
                                in if Month r5 > 12
                                   then Some (c\<lparr>OSRtc := r5\<lparr>Month := 1, Year := Year r5 + 1\<rparr>, LeapMonth := l\<rparr>)
                                   else Some (c\<lparr>OSRtc := r5, LeapMonth := l\<rparr>))
                             else Some (c\<lparr>OSRtc := r4, LeapMonth := l\<rparr>))
                          else None)
                    else Some (c\<lparr>OSRtc := r3\<rparr>))
              else Some (c\<lparr>OSRtc := r2\<rparr>))
        else Some (c\<lparr>OSRtc := r1\<rparr>))"

definition GetCalendar :: "kernel \<times> clock \<Rightarrow> OS_RTC \<times> kernel \<times> clock" where
  "GetCalendar s = (OSRtc (snd s), in_critical (\<lambda>c. c) s)"

definition SetCalendar :: "OS_RTC \<Rightarrow> kernel \<times> clock \<Rightarrow> kernel \<times> clock" where
  "SetCalendar rtc = in_critical (\<lambda>c. c\<lparr>OSRtc := rtc\<rparr>)"

definition Init_Calendar :: "kernel \<times> clock \<Rightarrow> kernel \<times> clock" where
  "Init_Calendar = SetCalendar \<lparr>Year = 2011, Month = 3, Day = 28, Hour = 9, Min' = 0, Sec = 30\<rparr>"

subsection \<open>The reference: counting days\<close>

definition leap :: "nat \<Rightarrow> bool" where
  "leap y \<longleftrightarrow> y mod 4 = 0 \<and> (y mod 100 \<noteq> 0 \<or> y mod 400 = 0)"

text \<open>
  Thirty days have April, June, September and November, February has 28 or 29, the others 31. The months
  are numbered from 1; nothing comes before the first.
\<close>

definition month_days :: "nat \<Rightarrow> nat \<Rightarrow> nat" where
  "month_days y m =
    (if m = 0 then 0 else if m \<in> {4, 6, 9, 11} then 30 else if m = 2 then (if leap y then 29 else 28) else 31)"

primrec days_before_month :: "nat \<Rightarrow> nat \<Rightarrow> nat" where
  "days_before_month y 0 = 0"
| "days_before_month y (Suc m) = days_before_month y m + month_days y m"

definition year_days :: "nat \<Rightarrow> nat" where
  "year_days y = (if leap y then 366 else 365)"

primrec days_before_year :: "nat \<Rightarrow> nat" where
  "days_before_year 0 = 0"
| "days_before_year (Suc y) = days_before_year y + year_days y"

definition valid_rtc :: "OS_RTC \<Rightarrow> bool" where
  "valid_rtc r \<longleftrightarrow> 1 \<le> unat (Month r) \<and> unat (Month r) \<le> 12 \<and>
     1 \<le> unat (Day r) \<and> unat (Day r) \<le> month_days (unat (Year r)) (unat (Month r)) \<and>
     unat (Hour r) < 24 \<and> unat (Min' r) < 60 \<and> unat (Sec r) < 60"

definition day_number :: "nat \<Rightarrow> nat \<Rightarrow> nat \<Rightarrow> nat" where
  "day_number y m d = days_before_year y + days_before_month y m + (d - 1)"

definition second_of_day :: "OS_RTC \<Rightarrow> nat" where
  "second_of_day r = 3600 * unat (Hour r) + 60 * unat (Min' r) + unat (Sec r)"

definition seconds :: "OS_RTC \<Rightarrow> nat" where
  "seconds r = 86400 * day_number (unat (Year r)) (unat (Month r)) (unat (Day r)) + second_of_day r"

text \<open>The years a 16 bit counter holds.\<close>

definition era :: nat where "era = 86400 * days_before_year 65536"

text \<open>The number of days before a year, in closed form.\<close>

lemma ceiling_Suc:
  assumes "0 < n"
  shows "(Suc y + (n - 1)) div n = (y + (n - 1)) div n + (if y mod n = 0 then 1 else 0)"
proof -
  have "Suc (y + (n - 1)) mod n = y mod n" using assms by (cases n) (simp_all del: add_Suc_right add: add_Suc_right [symmetric])
  then show ?thesis using div_Suc [of "y + (n - 1)" n] by simp
qed

lemma year_days_parts:
  "year_days y + (if y mod 100 = 0 then 1 else 0) =
    365 + (if y mod 4 = 0 then 1 else 0) + (if y mod 400 = 0 then 1 else 0)"
proof -
  define a b c where "a = (y mod 4 = 0)" and "b = (y mod 100 = 0)" and "c = (y mod 400 = 0)"
  have "(4 :: nat) dvd 100" "(100 :: nat) dvd 400" by simp_all
  then have "b \<Longrightarrow> a" "c \<Longrightarrow> b"
    unfolding a_def b_def c_def mod_eq_0_iff_dvd by (blast intro: dvd_trans)+
  then show ?thesis
    unfolding year_days_def leap_def a_def [symmetric] b_def [symmetric] c_def [symmetric] by (cases a; cases b; cases c) simp_all
qed

lemma days_before_year_closed:
  "days_before_year y + (y + 99) div 100 = 365 * y + (y + 3) div 4 + (y + 399) div 400"
proof (induction y)
  case (Suc y)
  define a b c where "a = (y + 3) div 4" and "b = (y + 99) div 100" and "c = (y + 399) div 400"
  define a' b' c' :: nat where "a' = (if y mod 4 = 0 then 1 else 0)"
    and "b' = (if y mod 100 = 0 then 1 else 0)" and "c' = (if y mod 400 = 0 then 1 else 0)"
  have "(Suc y + 3) div 4 = a + a'" "(Suc y + 99) div 100 = b + b'" "(Suc y + 399) div 400 = c + c'"
    using ceiling_Suc [of 4 y] ceiling_Suc [of 100 y] ceiling_Suc [of 400 y]
    unfolding a_def b_def c_def a'_def b'_def c'_def by simp_all
  moreover have "days_before_year y + b = 365 * y + a + c" using Suc unfolding a_def b_def c_def .
  moreover have "year_days y + b' = 365 + a' + c'" using year_days_parts unfolding a'_def b'_def c'_def .
  ultimately show ?case unfolding days_before_year.simps by (simp only:) simp
qed simp

lemma MonthLength_nth:
  "MonthLength ! 1 = 31" "MonthLength ! 2 = 28" "MonthLength ! 3 = 31" "MonthLength ! 4 = 30" "MonthLength ! 5 = 31"
  "MonthLength ! 6 = 30" "MonthLength ! 7 = 31" "MonthLength ! 8 = 31" "MonthLength ! 9 = 30" "MonthLength ! 10 = 31"
  "MonthLength ! 11 = 30" "MonthLength ! 12 = 31" "MonthLength ! Suc 0 = 31" "MonthLength ! 0 = 0"
  by (simp_all add: MonthLength_def eval_nat_numeral)

lemma month_cases:
  assumes "1 \<le> m" "m \<le> (12 :: nat)"
  shows "m \<in> {1, 2, 3, 4, 5, 6, 7, 8, 9, 10, 11, 12}"
  using assms unfolding insert_iff empty_iff by presburger

lemma month_days_bounds:
  assumes "1 \<le> m" "m \<le> 12"
  shows "28 \<le> month_days y m" "month_days y m \<le> 31"
  using month_cases [OF assms] by (auto simp: month_days_def)

text \<open>The table of the code holds the lengths of the months.\<close>

lemma month_days_table:
  assumes "1 \<le> m" "m \<le> 12"
  shows "MonthLength ! m + (if m = 2 \<and> leap y then 1 else 0) = month_days y m"
  using month_cases [OF assms] by (auto simp: month_days_def MonthLength_nth)

text \<open>The twelve months are the year.\<close>

lemma days_before_month_pos:
  "0 < m \<Longrightarrow> days_before_month y m = days_before_month y (m - 1) + month_days y (m - 1)"
  by (cases m) simp_all

lemma days_in_months: "days_before_month y 13 = year_days y"
  by (simp add: days_before_month_pos month_days_def year_days_def)


lemma days_before_month_mono: "m \<le> n \<Longrightarrow> days_before_month y m \<le> days_before_month y n"
  by (rule lift_Suc_mono_le) simp_all

lemma days_before_year_mono: "y \<le> z \<Longrightarrow> days_before_year y \<le> days_before_year z"
  by (rule lift_Suc_mono_le) simp_all

lemma valid_rtcD:
  assumes "valid_rtc r"
  shows "1 \<le> unat (Month r)" "unat (Month r) \<le> 12" "1 \<le> unat (Day r)"
    "unat (Day r) \<le> month_days (unat (Year r)) (unat (Month r))" "unat (Day r) \<le> 31"
    "unat (Hour r) < 24" "unat (Min' r) < 60" "unat (Sec r) < 60"
proof -
  show v: "1 \<le> unat (Month r)" "unat (Month r) \<le> 12" "1 \<le> unat (Day r)"
    "unat (Day r) \<le> month_days (unat (Year r)) (unat (Month r))"
    "unat (Hour r) < 24" "unat (Min' r) < 60" "unat (Sec r) < 60"
    using assms by (simp_all add: valid_rtc_def)
  show "unat (Day r) \<le> 31" using v(4) month_days_bounds(2) [OF v(1,2)] by (rule le_trans)
qed

text \<open>A date lies in its month, and its month in its year.\<close>

lemma day_in_month:
  assumes "1 \<le> d" "d \<le> month_days y m"
  shows "days_before_month y m + (d - 1) < days_before_month y (Suc m)"
  using assms by simp

lemma day_in_year:
  assumes "m \<le> 12" "1 \<le> d" "d \<le> month_days y m"
  shows "day_number y m d < days_before_year (Suc y)"
proof -
  have "days_before_month y (Suc m) \<le> days_before_month y 13" using assms(1) by (intro days_before_month_mono) simp
  then show ?thesis using day_in_month [OF assms(2,3)] unfolding day_number_def days_in_months days_before_year.simps by linarith
qed

lemma day_number_year:
  assumes "m \<le> 12" "1 \<le> d" "d \<le> month_days y m" "y < z"
  shows "day_number y m d < day_number z n e"
  using day_in_year [OF assms(1-3)] days_before_year_mono [of "Suc y" z] assms(4)
  unfolding day_number_def [of z] by linarith

lemma day_number_month:
  assumes "1 \<le> d" "d \<le> month_days y m" "m < n"
  shows "day_number y m d < day_number y n e"
  using day_in_month [OF assms(1,2)] days_before_month_mono [of "Suc m" n y] assms(3)
  unfolding day_number_def by linarith

lemma day_number_inj:
  assumes "m \<le> 12" "1 \<le> d" "d \<le> month_days y m" "n \<le> 12" "1 \<le> e" "e \<le> month_days z n"
    "day_number y m d = day_number z n e"
  shows "y = z \<and> m = n \<and> d = e"
proof -
  have y: "y = z"
    using day_number_year [OF assms(1-3), of z n e] day_number_year [OF assms(4-6), of y m d] assms(7)
    by (metis less_irrefl nat_neq_iff)
  have m: "m = n"
    using day_number_month [OF assms(2,3), of n e] day_number_month [OF assms(5,6), of m d] assms(7)
    unfolding y by (metis less_irrefl nat_neq_iff)
  show ?thesis using assms(2,5,7) by (simp add: y m day_number_def)
qed

lemma base_digits_inj:
  assumes "n * a + s = n * b + t" "s < n" "t < (n :: nat)"
  shows "a = b \<and> s = t"
proof -
  have "(n * a + s) div n = a" "(n * b + t) div n = b" using assms(2,3) by simp_all
  then have "a = b" using assms(1) by simp
  then show ?thesis using assms(1) by simp
qed

lemma second_of_day_bound: "valid_rtc r \<Longrightarrow> second_of_day r < 86400"
  using valid_rtcD(6-8) [of r] by (simp add: second_of_day_def)

lemma seconds_bound:
  assumes "valid_rtc r"
  shows "seconds r < era"
proof -
  note v = valid_rtcD [OF assms]
  have y: "unat (Year r) < 65536" using unsigned_less [of "Year r", where ?'a = nat] by simp
  have "day_number (unat (Year r)) (unat (Month r)) (unat (Day r)) < days_before_year (Suc (unat (Year r)))"
    by (rule day_in_year [OF v(2-4)])
  also have "\<dots> \<le> days_before_year 65536" using y by (intro days_before_year_mono) simp
  finally show ?thesis using second_of_day_bound [OF assms] by (simp add: seconds_def era_def)
qed

lemma seconds_inj:
  assumes "valid_rtc r" "valid_rtc s" "seconds r = seconds s"
  shows "r = s"
proof -
  note v = valid_rtcD [OF assms(1)] and w = valid_rtcD [OF assms(2)]
  define a b where "a = day_number (unat (Year r)) (unat (Month r)) (unat (Day r))"
    and "b = day_number (unat (Year s)) (unat (Month s)) (unat (Day s))"
  have eq: "86400 * a + second_of_day r = 86400 * b + second_of_day s"
    using assms(3) by (simp add: seconds_def a_def b_def)
  have d: "a = b \<and> second_of_day r = second_of_day s"
    by (rule base_digits_inj [OF eq second_of_day_bound [OF assms(1)] second_of_day_bound [OF assms(2)]])
  have hm: "unat (Hour r) = unat (Hour s) \<and> 60 * unat (Min' r) + unat (Sec r) = 60 * unat (Min' s) + unat (Sec s)"
    by (rule base_digits_inj [where n = 3600]) (use d v(7,8) w(7,8) in \<open>simp_all add: second_of_day_def\<close>)
  have h: "unat (Min' r) = unat (Min' s) \<and> unat (Sec r) = unat (Sec s)"
    by (rule base_digits_inj [where n = 60]) (use hm v(8) w(8) in simp_all)
  have "unat (Year r) = unat (Year s) \<and> unat (Month r) = unat (Month s) \<and> unat (Day r) = unat (Day s)"
    by (rule day_number_inj [OF v(2-4) w(2-4)]) (use d in \<open>simp add: a_def b_def\<close>)
  then show ?thesis using h hm by (simp add: word_unat_eq_iff)
qed

lemma unat_leap_month:
  "unat (leap_month r) = (if unat (Month r) = 2 \<and> leap (unat (Year r)) then 1 else 0)"
proof -
  have "Year r AND 3 = take_bit 2 (Year r)" by (simp add: take_bit_eq_mask mask_eq_exp_minus_1)
  then have 4: "Year r AND 3 = 0 \<longleftrightarrow> unat (Year r) mod 4 = 0"
    by (simp add: word_unat_eq_iff unat_mod take_bit_eq_mod)
  have 100: "Year r mod 100 = 0 \<longleftrightarrow> unat (Year r) mod 100 = 0" "Year r mod 400 = 0 \<longleftrightarrow> unat (Year r) mod 400 = 0"
    by (simp_all add: word_unat_eq_iff unat_mod)
  have 2: "Month r = 2 \<longleftrightarrow> unat (Month r) = 2" by (simp add: word_unat_eq_iff)
  show ?thesis by (simp add: leap_month_def 4 100 2 leap_def)
qed


text \<open>One second, in the six ways the cascade can go.\<close>

definition same_day :: "OS_RTC \<Rightarrow> OS_RTC \<Rightarrow> bool" where
  "same_day r s \<longleftrightarrow> Year s = Year r \<and> Month s = Month r \<and> Day s = Day r"

lemma seconds_same_day: "same_day r s \<Longrightarrow> seconds s + second_of_day r = seconds r + second_of_day s"
  by (simp add: same_day_def seconds_def)

lemma valid_same_day:
  "valid_rtc r \<Longrightarrow> same_day r s \<Longrightarrow> unat (Hour s) < 24 \<Longrightarrow> unat (Min' s) < 60 \<Longrightarrow> unat (Sec s) < 60 \<Longrightarrow> valid_rtc s"
  by (simp add: valid_rtc_def same_day_def)

lemma byte_test:
  fixes x :: u8
  assumes "unat x < 60"
  shows "x + 1 = 60 \<longleftrightarrow> unat x = 59" "x + 1 > 59 \<longleftrightarrow> unat x = 59" "unat (x + 1) = unat x + 1"
    "x + 1 > 23 \<longleftrightarrow> unat x \<ge> 23" "x + 1 > 12 \<longleftrightarrow> unat x \<ge> 12" "x + 1 = 24 \<longleftrightarrow> unat x = 23"
proof -
  show u: "unat (x + 1) = unat x + 1" using assms by (simp add: unat_inc_u8)
  show "x + 1 = 60 \<longleftrightarrow> unat x = 59" "x + 1 > 59 \<longleftrightarrow> unat x = 59" "x + 1 > 23 \<longleftrightarrow> unat x \<ge> 23"
    "x + 1 > 12 \<longleftrightarrow> unat x \<ge> 12" "x + 1 = 24 \<longleftrightarrow> unat x = 23"
    using assms unfolding word_unat_eq_iff word_less_nat_alt u by auto
qed

text \<open>The day after.\<close>

definition next_day :: "OS_RTC \<Rightarrow> OS_RTC" where
  "next_day r =
    (if unat (Day r) < month_days (unat (Year r)) (unat (Month r)) then r\<lparr>Day := Day r + 1\<rparr>
     else if unat (Month r) < 12 then r\<lparr>Day := 1, Month := Month r + 1\<rparr>
     else r\<lparr>Day := 1, Month := 1, Year := Year r + 1\<rparr>)"

lemma OSUpdateCalendar_cases:
  assumes "valid_rtc (OSRtc c)"
  obtains (second) "unat (Sec (OSRtc c)) < 59" "OSUpdateCalendar c = Some (c\<lparr>OSRtc := (OSRtc c)\<lparr>Sec := Sec (OSRtc c) + 1\<rparr>\<rparr>)"
  | (minute) "unat (Sec (OSRtc c)) = 59" "unat (Min' (OSRtc c)) < 59"
      "OSUpdateCalendar c = Some (c\<lparr>OSRtc := (OSRtc c)\<lparr>Sec := 0, Min' := Min' (OSRtc c) + 1\<rparr>\<rparr>)"
  | (hour) "unat (Sec (OSRtc c)) = 59" "unat (Min' (OSRtc c)) = 59" "unat (Hour (OSRtc c)) < 23"
      "OSUpdateCalendar c = Some (c\<lparr>OSRtc := (OSRtc c)\<lparr>Sec := 0, Min' := 0, Hour := Hour (OSRtc c) + 1\<rparr>\<rparr>)"
  | (day) l where "unat (Sec (OSRtc c)) = 59" "unat (Min' (OSRtc c)) = 59" "unat (Hour (OSRtc c)) = 23"
      "OSUpdateCalendar c = Some (c\<lparr>OSRtc := next_day ((OSRtc c)\<lparr>Sec := 0, Min' := 0, Hour := 0\<rparr>), LeapMonth := l\<rparr>)"
proof -
  let ?r = "OSRtc c"
  note v = valid_rtcD [OF assms]
  note bs = byte_test [OF v(8)] and bm = byte_test [OF v(7)]
  have h60: "unat (Hour ?r) < 60" and d60: "unat (Day ?r) < 60" and m60: "unat (Month ?r) < 60"
    using v(2,5,6) by simp_all
  note bh = byte_test [OF h60] and bd = byte_test [OF d60] and bmo = byte_test [OF m60]
  consider "unat (Sec ?r) < 59" | "unat (Sec ?r) = 59" "unat (Min' ?r) < 59"
    | "unat (Sec ?r) = 59" "unat (Min' ?r) = 59" "unat (Hour ?r) < 23"
    | "unat (Sec ?r) = 59" "unat (Min' ?r) = 59" "unat (Hour ?r) = 23"
    using v(6-8) by linarith
  then show thesis
  proof cases
    case 1
    show thesis by (rule second [OF 1]) (use 1 bs(1) in \<open>simp add: OSUpdateCalendar_def Let_def\<close>)
  next
    case 2
    show thesis by (rule minute [OF 2]) (use 2 bs(1) bm(2) in \<open>simp add: OSUpdateCalendar_def Let_def\<close>)
  next
    case 3
    show thesis by (rule hour [OF 3]) (use 3 bs(1) bm(2) bh(4) in \<open>simp add: OSUpdateCalendar_def Let_def\<close>)
  next
    case 4
    let ?r4 = "?r\<lparr>Sec := 0, Min' := 0, Hour := 0, Day := Day ?r + 1\<rparr>"
    have i: "unat (Month ?r) < length MonthLength" using v(2) by (simp add: MonthLength_def)
    have ml: "MonthLength ! unat (Month ?r) + unat (leap_month ?r4) = month_days (unat (Year ?r)) (unat (Month ?r))"
      using month_days_table [OF v(1,2), of "unat (Year ?r)"] by (simp add: unat_leap_month)
    have test: "unat (Day ?r + 1) > month_days (unat (Year ?r)) (unat (Month ?r)) \<longleftrightarrow>
      \<not> unat (Day ?r) < month_days (unat (Year ?r)) (unat (Month ?r))"
      unfolding bd(3) by linarith
    have r: "OSUpdateCalendar c =
      (if unat (Day ?r + 1) > month_days (unat (Year ?r)) (unat (Month ?r)) then
         (if Month ?r + 1 > 12
          then Some (c\<lparr>OSRtc := ?r4\<lparr>Day := 1, Month := 1, Year := Year ?r + 1\<rparr>, LeapMonth := leap_month ?r4\<rparr>)
          else Some (c\<lparr>OSRtc := ?r4\<lparr>Day := 1, Month := Month ?r + 1\<rparr>, LeapMonth := leap_month ?r4\<rparr>))
       else Some (c\<lparr>OSRtc := ?r4, LeapMonth := leap_month ?r4\<rparr>))"
      using 4 bs(1) bm(2) bh(4) i unfolding ml [symmetric] by (simp add: OSUpdateCalendar_def Let_def)
    show thesis
      by (rule day [OF 4, of "leap_month ?r4"]) (unfold r test bmo(5), use v(2) in \<open>simp add: next_day_def\<close>)
  qed
qed

lemma next_day_number:
  assumes "valid_rtc r"
  defines "s \<equiv> next_day r"
  shows "valid_rtc s" "second_of_day s = second_of_day r"
    "86400 * day_number (unat (Year s)) (unat (Month s)) (unat (Day s)) =
      (if Year r = 65535 \<and> Month r = 12 \<and> Day r = 31 then 0
       else 86400 * (day_number (unat (Year r)) (unat (Month r)) (unat (Day r)) + 1))"
proof -
  note v = valid_rtcD [OF assms(1)]
  show "second_of_day s = second_of_day r" by (simp add: s_def next_day_def second_of_day_def)
  have d: "unat (Day r + 1) = unat (Day r) + 1" using v(5) by (simp add: unat_inc_u8)
  have m: "unat (Month r + 1) = unat (Month r) + 1" using v(2) by (simp add: unat_inc_u8)
  show "valid_rtc s"
  proof -
    have 1: "1 \<le> month_days y n" if "1 \<le> n" "n \<le> 12" for y n using month_days_bounds(1) [OF that, of y] by simp
    show ?thesis
      using assms(1) 1 d m v(1,2,4) by (auto simp: s_def next_day_def valid_rtc_def)
  qed
  let ?y = "unat (Year r)" and ?m = "unat (Month r)" and ?d = "unat (Day r)"
  have dec: "month_days y 12 = 31" "days_before_month y (Suc 0) = 0" "month_days y 0 = 0" for y
    by (simp_all add: month_days_def)
  have last: "Year r = 65535 \<and> Month r = 12 \<and> Day r = 31 \<longleftrightarrow> ?y = 65535 \<and> ?m = 12 \<and> ?d = 31"
    by (simp add: word_unat_eq_iff)
  consider (later) "?d < month_days ?y ?m" | (month) "?d = month_days ?y ?m" "?m < 12"
    | (year) "?d = month_days ?y ?m" "?m = 12" using v(2,4) by linarith
  then show "86400 * day_number (unat (Year s)) (unat (Month s)) (unat (Day s)) =
      (if Year r = 65535 \<and> Month r = 12 \<and> Day r = 31 then 0 else 86400 * (day_number ?y ?m ?d + 1))"
  proof cases
    case later
    have n: "\<not> (?y = 65535 \<and> ?m = 12 \<and> ?d = 31)" using later dec(1) by auto
    have "s = r\<lparr>Day := Day r + 1\<rparr>" using later by (simp add: s_def next_day_def)
    then show ?thesis unfolding last using n v(3) d by (simp add: day_number_def)
  next
    case month
    have "s = r\<lparr>Day := 1, Month := Month r + 1\<rparr>" using month by (simp add: s_def next_day_def)
    then show ?thesis unfolding last using month v(3) m by (simp add: day_number_def)
  next
    case year
    have s: "s = r\<lparr>Day := 1, Month := 1, Year := Year r + 1\<rparr>" using year by (simp add: s_def next_day_def)
    have d31: "?d = 31" using year dec(1) by simp
    show ?thesis
    proof (cases "?y = 65535")
      case True
      then have "Year r = 65535" by (simp add: word_unat_eq_iff)
      then have "Year r + 1 = 0" by simp
      then show ?thesis unfolding last using True year(2) d31 by (simp add: s day_number_def dec)
    next
      case False
      then have "?y < 65535" using unsigned_less [of "Year r", where ?'a = nat] by simp
      then have y1: "unat (Year r + 1) = Suc ?y" by (rule unat_inc_u16)
      have "days_before_month ?y 12 + 31 = year_days ?y"
        using days_in_months [of ?y] dec(1) [of ?y] days_before_month_pos [of 13 ?y] by simp
      then show ?thesis unfolding last using False year(2) d31 y1 by (simp add: s day_number_def dec)
    qed
  qed
qed

lemma OSUpdateCalendar_step:
  assumes "valid_rtc (OSRtc c)"
  shows "\<exists>c'. OSUpdateCalendar c = Some c' \<and> valid_rtc (OSRtc c') \<and> seconds (OSRtc c') = (seconds (OSRtc c) + 1) mod era"
proof -
  let ?r = "OSRtc c"
  note v = valid_rtcD [OF assms]
  have fits: ?thesis if u: "OSUpdateCalendar c = Some c'" and r': "valid_rtc (OSRtc c')" "same_day ?r (OSRtc c')"
    "second_of_day (OSRtc c') = second_of_day ?r + 1" for c'
  proof -
    have "seconds (OSRtc c') = seconds ?r + 1" using seconds_same_day [OF r'(2)] r'(3) by simp
    then show ?thesis using u r'(1) seconds_bound [OF r'(1)] by simp
  qed
  show ?thesis using assms
  proof (cases rule: OSUpdateCalendar_cases)
    case second
    show ?thesis
      by (rule fits [OF second(2)])
        (use valid_same_day [OF assms] second(1) v in \<open>auto simp: same_day_def second_of_day_def unat_inc_u8\<close>)
  next
    case minute
    show ?thesis
      by (rule fits [OF minute(3)])
        (use valid_same_day [OF assms] minute(1,2) v in \<open>auto simp: same_day_def second_of_day_def unat_inc_u8\<close>)
  next
    case hour
    show ?thesis
      by (rule fits [OF hour(4)])
        (use valid_same_day [OF assms] hour(1-3) v in \<open>auto simp: same_day_def second_of_day_def unat_inc_u8\<close>)
  next
    case (day l)
    define r0 where "r0 = ?r\<lparr>Sec := 0, Min' := 0, Hour := 0\<rparr>"
    have r0: "valid_rtc r0" "second_of_day r0 = 0" using assms by (simp_all add: r0_def valid_rtc_def second_of_day_def)
    note nd = next_day_number [OF r0(1)]
    define a where "a = day_number (unat (Year ?r)) (unat (Month ?r)) (unat (Day ?r))"
    have s1: "seconds ?r + 1 = 86400 * (a + 1)" using day(1-3) by (simp add: seconds_def second_of_day_def a_def)
    have s2: "seconds (next_day r0) =
      (if Year ?r = 65535 \<and> Month ?r = 12 \<and> Day ?r = 31 then 0 else 86400 * (a + 1))"
      using nd(2,3) r0(2) unfolding seconds_def a_def by (simp add: r0_def)
    have "seconds (next_day r0) = (seconds ?r + 1) mod era"
    proof (cases "Year ?r = 65535 \<and> Month ?r = 12 \<and> Day ?r = 31")
      case True
      have "days_before_month 65535 12 + 31 = year_days 65535"
        using days_in_months [of 65535] days_before_month_pos [of 13 65535] by (simp add: month_days_def)
      moreover have "days_before_year 65536 = days_before_year 65535 + year_days 65535"
        using days_before_year.simps(2) [of 65535] by simp
      ultimately have "a + 1 = days_before_year 65536" using True by (simp add: a_def day_number_def)
      then have "seconds ?r + 1 = era" unfolding s1 era_def by simp
      then show ?thesis using True s2 by simp
    next
      case False
      then have "seconds (next_day r0) = seconds ?r + 1" using s1 s2 by simp
      then show ?thesis using seconds_bound [OF nd(1)] by simp
    qed
    then show ?thesis using day(4) nd(1) by (simp add: r0_def)
  qed
qed

text \<open>Running for \<open>n\<close> seconds.\<close>

primrec calendar_run :: "nat \<Rightarrow> clock \<Rightarrow> clock option" where
  "calendar_run 0 c = Some c"
| "calendar_run (Suc n) c = do { c1 \<leftarrow> calendar_run n c; OSUpdateCalendar c1 }"

text \<open>
  C24. The calendar is the civil calendar: from any valid date, \<open>n\<close> updates lead to the one valid date and
  time that is \<open>n\<close> seconds later, counting the days of the years and months by the rule of 4, 100 and
  400; the year counter wraps after year 65535.
\<close>

theorem calendar_counts_seconds:
  assumes "valid_rtc (OSRtc c)"
  shows "\<exists>c'. calendar_run n c = Some c' \<and> valid_rtc (OSRtc c') \<and>
    seconds (OSRtc c') = (seconds (OSRtc c) + n) mod era \<and>
    (\<forall>r. valid_rtc r \<and> seconds r = (seconds (OSRtc c) + n) mod era \<longrightarrow> r = OSRtc c')"
proof -
  have "\<exists>c'. calendar_run n c = Some c' \<and> valid_rtc (OSRtc c') \<and> seconds (OSRtc c') = (seconds (OSRtc c) + n) mod era"
  proof (induction n)
    case 0
    then show ?case using assms seconds_bound [OF assms] by simp
  next
    case (Suc n)
    then obtain c1 where c1: "calendar_run n c = Some c1" "valid_rtc (OSRtc c1)"
      "seconds (OSRtc c1) = (seconds (OSRtc c) + n) mod era" by blast
    obtain c2 where "OSUpdateCalendar c1 = Some c2" "valid_rtc (OSRtc c2)" "seconds (OSRtc c2) = (seconds (OSRtc c1) + 1) mod era"
      using OSUpdateCalendar_step [OF c1(2)] by blast
    then show ?case using c1 by (simp add: mod_Suc_eq)
  qed
  then show ?thesis using seconds_inj by metis
qed

text \<open>A day after the initial date.\<close>

definition rtc0 :: OS_RTC where
  "rtc0 = \<lparr>Year = 2011, Month = 3, Day = 28, Hour = 9, Min' = 0, Sec = 30\<rparr>"

definition clock0 :: clock where
  "clock0 = \<lparr>Hora = \<lparr>RTC_Second = 0, RTC_Minute = 0, RTC_Hour = 0\<rparr>,
    Data = \<lparr>RTC_Day = 0, RTC_Month = 0, RTC_Year = 0\<rparr>, OSRtc = rtc0, LeapMonth = 0\<rparr>"

lemma calendar_counts_seconds_witness:
  "\<exists>c'. calendar_run 86400 clock0 = Some c' \<and> OSRtc c' = rtc0\<lparr>Day := 29\<rparr>"
proof -
  have c: "OSRtc clock0 = rtc0" by (simp add: clock0_def)
  have v: "valid_rtc rtc0" "valid_rtc (rtc0\<lparr>Day := 29\<rparr>)"
    by (simp_all add: rtc0_def valid_rtc_def month_days_def)
  have "seconds (rtc0\<lparr>Day := 29\<rparr>) = seconds rtc0 + 86400"
    by (simp add: rtc0_def seconds_def second_of_day_def day_number_def)
  then have "seconds (rtc0\<lparr>Day := 29\<rparr>) = (seconds rtc0 + 86400) mod era" using seconds_bound [OF v(2)] by simp
  then show ?thesis using calendar_counts_seconds [of clock0 86400] v c by auto
qed

subsection \<open>Time of day and the uptime's date\<close>

definition hms_ok :: "OSTime \<Rightarrow> bool" where
  "hms_ok h \<longleftrightarrow> unat (RTC_Second h) < 60 \<and> unat (RTC_Minute h) < 60 \<and> unat (RTC_Hour h) < 24"

definition time_seconds :: "OSTime \<Rightarrow> nat" where
  "time_seconds h = 3600 * unat (RTC_Hour h) + 60 * unat (RTC_Minute h) + unat (RTC_Second h)"

text \<open>A second more, and over at midnight.\<close>

lemma add_second_counts:
  assumes "hms_ok h"
  shows "hms_ok (snd (add_second h))" "time_seconds (snd (add_second h)) = (time_seconds h + 1) mod 86400"
    "fst (add_second h) \<longleftrightarrow> time_seconds h = 86399"
proof -
  have h: "unat (RTC_Second h) < 60" "unat (RTC_Minute h) < 60" "unat (RTC_Hour h) < 24"
    using assms by (simp_all add: hms_ok_def)
  then have h60: "unat (RTC_Hour h) < 60" by simp
  note b = byte_test(1,3) [OF h(1)] byte_test(1,3) [OF h(2)] byte_test(6,3) [OF h60]
  consider "unat (RTC_Second h) < 59" | "unat (RTC_Second h) = 59" "unat (RTC_Minute h) < 59"
    | "unat (RTC_Second h) = 59" "unat (RTC_Minute h) = 59" "unat (RTC_Hour h) < 23"
    | "unat (RTC_Second h) = 59" "unat (RTC_Minute h) = 59" "unat (RTC_Hour h) = 23"
    using h by linarith
  then show "hms_ok (snd (add_second h))" "time_seconds (snd (add_second h)) = (time_seconds h + 1) mod 86400"
    "fst (add_second h) \<longleftrightarrow> time_seconds h = 86399"
    by (cases; use h in \<open>simp add: add_second_def Let_def b hms_ok_def time_seconds_def\<close>)+
qed

text \<open>The plain date counts months of 30 days and years of 12 months, up to 9998.\<close>

definition date_ok :: "OSDate \<Rightarrow> bool" where
  "date_ok d \<longleftrightarrow> unat (RTC_Day d) < 30 \<and> unat (RTC_Month d) < 12 \<and> unat (RTC_Year d) < 9999"

definition date_days :: "OSDate \<Rightarrow> nat" where
  "date_days d = 360 * unat (RTC_Year d) + 30 * unat (RTC_Month d) + unat (RTC_Day d)"

lemma add_day_counts:
  assumes "date_ok d"
  shows "date_ok (add_day d) \<and> date_days (add_day d) = (date_days d + 1) mod (360 * 9999)"
proof -
  have d: "unat (RTC_Day d) < 30" "unat (RTC_Month d) < 12" "unat (RTC_Year d) < 9999"
    using assms by (simp_all add: date_ok_def)
  have u: "unat (RTC_Day d + 1) = unat (RTC_Day d) + 1" "unat (RTC_Month d + 1) = unat (RTC_Month d) + 1"
    "unat (RTC_Year d + 1) = unat (RTC_Year d) + 1"
    using d by (simp_all add: unat_inc_u8 unat_inc_u16)
  have b: "RTC_Day d + 1 = 30 \<longleftrightarrow> unat (RTC_Day d) = 29" "RTC_Month d + 1 = 12 \<longleftrightarrow> unat (RTC_Month d) = 11"
    "RTC_Year d + 1 = 9999 \<longleftrightarrow> unat (RTC_Year d) = 9998"
    unfolding word_unat_eq_iff u by auto
  consider "unat (RTC_Day d) < 29" | "unat (RTC_Day d) = 29" "unat (RTC_Month d) < 11"
    | "unat (RTC_Day d) = 29" "unat (RTC_Month d) = 11" "unat (RTC_Year d) < 9998"
    | "unat (RTC_Day d) = 29" "unat (RTC_Month d) = 11" "unat (RTC_Year d) = 9998"
    using d by linarith
  then show ?thesis
    by (cases; use d in \<open>simp add: add_day_def Let_def b u date_ok_def date_days_def\<close>)
qed

lemma OSUpdateTime_counts:
  assumes "hms_ok (Hora c)" "iNesting k = 0"
  shows "case OSUpdateTime (k, c) of (k', c') \<Rightarrow> core k' = core k \<and> iNesting k' = 0 \<and> hms_ok (Hora c') \<and>
    time_seconds (Hora c') = (time_seconds (Hora c) + 1) mod 86400 \<and> Data c' = Data c \<and> OSRtc c' = OSRtc c"
  using add_second_counts [OF assms(1)] assms(2)
  by (simp add: OSUpdateTime_def in_critical_def iNesting_ExitCritical)

text \<open>The day of the uptime is a byte: after 256 days it starts again at 0.\<close>

lemma OSUpdateUptime_counts:
  assumes "hms_ok (Hora c)" "iNesting k = 0"
  shows "case OSUpdateUptime (k, c) of (k', c') \<Rightarrow> core k' = core k \<and> iNesting k' = 0 \<and> hms_ok (Hora c') \<and>
    86400 * unat (RTC_Day (Data c')) + time_seconds (Hora c') =
      (86400 * unat (RTC_Day (Data c)) + time_seconds (Hora c) + 1) mod (86400 * 256)"
proof -
  obtain v h where h: "add_second (Hora c) = (v, h)" by (cases "add_second (Hora c)")
  have a: "hms_ok h" "time_seconds h = (time_seconds (Hora c) + 1) mod 86400" "v \<longleftrightarrow> time_seconds (Hora c) = 86399"
    using add_second_counts [OF assms(1)] by (simp_all add: h)
  have b: "time_seconds (Hora c) < 86400" using assms(1) by (simp add: hms_ok_def time_seconds_def)
  define d where "d = unat (RTC_Day (Data c))"
  have d: "d < 256" unfolding d_def by (rule unat_u8_less)
  have n: "iNesting (ExitCritical (EnterCritical k)) = 0" using assms(2) by (simp add: iNesting_ExitCritical)
  show ?thesis
  proof (cases v)
    case True
    have "unat (RTC_Day (Data c) + 1) = (d + 1) mod 256" by (simp add: d_def unat_word_ariths)
    moreover have "86400 * ((d + 1) mod 256) = (86400 * (d + 1)) mod (86400 * 256)" by (rule mult_mod_right)
    ultimately show ?thesis using True a n
      by (simp add: OSUpdateUptime_def in_critical_def h d_def [symmetric] Let_def algebra_simps)
  next
    case False
    then have "time_seconds h = time_seconds (Hora c) + 1" using a(2,3) b by simp
    moreover have "86400 * d + (time_seconds (Hora c) + 1) < 86400 * 256" using False a(3) b d by linarith
    ultimately show ?thesis using False a(1) n
      by (simp add: OSUpdateUptime_def in_critical_def h d_def [symmetric] Let_def)
  qed
qed

lemma OSUpdateDate_counts:
  assumes "date_ok (Data c)" "iNesting k = 0"
  shows "case OSUpdateDate (k, c) of (k', c') \<Rightarrow> core k' = core k \<and> iNesting k' = 0 \<and> date_ok (Data c') \<and>
    date_days (Data c') = (date_days (Data c) + 1) mod (360 * 9999) \<and> Hora c' = Hora c \<and> OSRtc c' = OSRtc c"
  using add_day_counts [OF assms(1)] assms(2)
  by (simp add: OSUpdateDate_def in_critical_def iNesting_ExitCritical)

lemma calendar_set_get:
  "fst (GetCalendar (SetCalendar rtc s)) = rtc"
  by (simp add: GetCalendar_def SetCalendar_def in_critical_def split: prod.split)

end
