(* ===== verification/Binary_Heap.thy ===== *)
theory Binary_Heap
  imports Prelude
begin

text \<open>
  Binary heaps in arrays that start at index 1, as functions from indices to keys: the order, the order
  with a violation below or above one index, and the two steps that move a violation. The children of
  \<open>i\<close> are the indices whose half is \<open>i\<close>.
\<close>

definition heap_order :: "(nat \<Rightarrow> 'a :: linorder) \<Rightarrow> nat \<Rightarrow> bool" where
  "heap_order f n \<longleftrightarrow> (\<forall>i. 2 \<le> i \<longrightarrow> i \<le> n \<longrightarrow> f (i div 2) \<le> f i)"

text \<open>Ordered but for index \<open>j\<close> against its parent.\<close>

definition order_up :: "(nat \<Rightarrow> 'a :: linorder) \<Rightarrow> nat \<Rightarrow> nat \<Rightarrow> bool" where
  "order_up f n j \<longleftrightarrow> (\<forall>i. 2 \<le> i \<longrightarrow> i \<le> n \<longrightarrow> i \<noteq> j \<longrightarrow> f (i div 2) \<le> f i) \<and>
     (2 \<le> j \<longrightarrow> (\<forall>i \<le> n. i div 2 = j \<longrightarrow> f (j div 2) \<le> f i))"

text \<open>Ordered but for the children of \<open>j\<close>.\<close>

definition order_down :: "(nat \<Rightarrow> 'a :: linorder) \<Rightarrow> nat \<Rightarrow> nat \<Rightarrow> bool" where
  "order_down f n j \<longleftrightarrow> (\<forall>i. 2 \<le> i \<longrightarrow> i \<le> n \<longrightarrow> i div 2 \<noteq> j \<longrightarrow> f (i div 2) \<le> f i) \<and>
     (2 \<le> j \<longrightarrow> (\<forall>i \<le> n. i div 2 = j \<longrightarrow> f (j div 2) \<le> f i))"

definition swap_keys :: "nat \<Rightarrow> nat \<Rightarrow> (nat \<Rightarrow> 'a) \<Rightarrow> nat \<Rightarrow> 'a" where
  "swap_keys i j f = f(i := f j, j := f i)"

lemma swap_keys_simps:
  "swap_keys i j f i = f j" "swap_keys i j f j = f i" "l \<noteq> i \<Longrightarrow> l \<noteq> j \<Longrightarrow> swap_keys i j f l = f l"
  by (simp_all add: swap_keys_def)

text \<open>The first element is a least one.\<close>

lemma heap_order_least: "heap_order f n \<Longrightarrow> 1 \<le> i \<Longrightarrow> i \<le> n \<Longrightarrow> f 1 \<le> f i"
proof (induction i rule: less_induct)
  case (less i)
  show ?case
  proof (cases "i = 1")
    case False
    then have i: "2 \<le> i" using less.prems(2) by simp
    then have "f (i div 2) \<le> f i" using less.prems(1,3) by (simp add: heap_order_def)
    moreover have "f 1 \<le> f (i div 2)" using less.IH [of "i div 2"] less.prems i by simp
    ultimately show ?thesis by (rule order_trans [rotated])
  qed simp
qed

subsection \<open>Moving up\<close>

lemma order_up_last:
  assumes "heap_order f n"
  shows "order_up (f(Suc n := v)) (Suc n) (Suc n)"
  unfolding order_up_def
proof (intro conjI allI impI)
  fix i assume i: "2 \<le> i" "i \<le> Suc n" "i \<noteq> Suc n"
  then have "i div 2 \<noteq> Suc n" by simp
  then show "(f(Suc n := v)) (i div 2) \<le> (f(Suc n := v)) i" using assms i by (simp add: heap_order_def)
next
  fix i assume "2 \<le> Suc n" "i \<le> Suc n" "i div 2 = Suc n"
  then show "(f(Suc n := v)) (Suc n div 2) \<le> (f(Suc n := v)) i" by linarith
qed

lemma order_up_done:
  assumes "order_up f n j" "2 \<le> j \<Longrightarrow> f (j div 2) \<le> f j"
  shows "heap_order f n"
  using assms unfolding order_up_def heap_order_def by metis

lemma order_up_step:
  assumes "order_up f n j" "2 \<le> j" "j \<le> n" "f j < f (j div 2)"
  shows "order_up (swap_keys (j div 2) j f) n (j div 2)"
proof -
  let ?p = "j div 2" and ?g = "swap_keys (j div 2) j f"
  have p: "?p \<noteq> j" "?p < j" using assms(2) by simp_all
  have gp: "?g ?p = f j" and gj: "?g j = f ?p" by (simp_all add: swap_keys_simps)
  have o: "f (i div 2) \<le> f i" if "2 \<le> i" "i \<le> n" "i \<noteq> j" for i
    using assms(1) that unfolding order_up_def by blast
  have c: "f ?p \<le> f i" if "i \<le> n" "i div 2 = j" for i
    using assms(1,2) that unfolding order_up_def by blast
  show ?thesis
    unfolding order_up_def
  proof (intro conjI allI impI)
    fix i assume i: "2 \<le> i" "i \<le> n" "i \<noteq> ?p"
    consider "i = j" | "i \<noteq> j" "i div 2 = j" | "i \<noteq> j" "i div 2 = ?p" | "i \<noteq> j" "i div 2 \<noteq> j" "i div 2 \<noteq> ?p" by blast
    then show "?g (i div 2) \<le> ?g i"
    proof cases
      case 1
      then show ?thesis using assms(4) gp gj by simp
    next
      case 2
      then show ?thesis using c [OF i(2)] i gj by (simp add: swap_keys_simps)
    next
      case 3
      have "f ?p \<le> f i" using o [OF i(1,2)] 3 by simp
      then show ?thesis using 3 i(3) gp assms(4) by (simp add: swap_keys_simps)
    next
      case 4
      then show ?thesis using o [OF i(1,2)] i(3) by (simp add: swap_keys_simps)
    qed
  next
    fix i assume i: "2 \<le> ?p" "i \<le> n" "i div 2 = ?p"
    have pp: "?p div 2 \<noteq> ?p" "?p div 2 \<noteq> j" using i(1) p(2) by linarith+
    have le: "f (?p div 2) \<le> f ?p" using o [of ?p] i(1) p assms(3) by simp
    show "?g (?p div 2) \<le> ?g i"
    proof (cases "i = j")
      case True
      then show ?thesis using le gj pp by (simp add: swap_keys_simps)
    next
      case False
      have "i \<noteq> ?p" "2 \<le> i" using i(1,3) by linarith+
      then have "f ?p \<le> f i" using o [OF _ i(2) False] i(3) by simp
      then show ?thesis using le pp False \<open>i \<noteq> ?p\<close> by (simp add: swap_keys_simps)
    qed
  qed
qed

subsection \<open>Moving down\<close>

text \<open>The last element put first.\<close>

lemma order_down_first:
  assumes "heap_order f (Suc n)"
  shows "order_down (f(1 := v)) n 1"
  using assms unfolding order_down_def heap_order_def by auto

lemma order_down_done:
  assumes "order_down f n j" "\<And>i. i \<le> n \<Longrightarrow> 2 \<le> i \<Longrightarrow> i div 2 = j \<Longrightarrow> f j \<le> f i"
  shows "heap_order f n"
  using assms unfolding order_down_def heap_order_def by metis

lemma order_down_step:
  assumes "order_down f n j" "1 \<le> j" "s div 2 = j" "s \<le> n" "f s < f j"
    and least: "\<And>i. i \<le> n \<Longrightarrow> i div 2 = j \<Longrightarrow> f s \<le> f i"
  shows "order_down (swap_keys s j f) n s"
proof -
  let ?g = "swap_keys s j f"
  have s: "2 \<le> s" "j < s" using assms(2,3) by linarith+
  have gs: "?g s = f j" and gj: "?g j = f s" by (simp_all add: swap_keys_simps)
  have o: "f (i div 2) \<le> f i" if "2 \<le> i" "i \<le> n" "i div 2 \<noteq> j" for i
    using assms(1) that unfolding order_down_def by blast
  have c: "f (j div 2) \<le> f i" if "2 \<le> j" "i \<le> n" "i div 2 = j" for i
    using assms(1) that unfolding order_down_def by blast
  show ?thesis
    unfolding order_down_def
  proof (intro conjI allI impI)
    fix i assume i: "2 \<le> i" "i \<le> n" "i div 2 \<noteq> s"
    consider "i = s" | "i \<noteq> s" "i div 2 = j" | "i = j" | "i \<noteq> s" "i div 2 \<noteq> j" "i \<noteq> j" by blast
    then show "?g (i div 2) \<le> ?g i"
    proof cases
      case 1
      then show ?thesis using assms(3,5) gs gj by simp
    next
      case 2
      then have "i \<noteq> j" using i(1) by linarith
      then show ?thesis using 2 least [OF i(2)] gj by (simp add: swap_keys_simps)
    next
      case 3
      have "j div 2 \<noteq> j" "j div 2 \<noteq> s" using i(1) 3 s(2) by linarith+
      then show ?thesis using 3 c [OF _ assms(4,3)] i(1) gj by (simp add: swap_keys_simps)
    next
      case 4
      then show ?thesis using o [OF i(1,2)] i(3) by (simp add: swap_keys_simps)
    qed
  next
    fix i assume i: "2 \<le> s" "i \<le> n" "i div 2 = s"
    have "i div 2 \<noteq> j" "2 \<le> i" "i \<noteq> s" "i \<noteq> j" using i s by linarith+
    then have "f s \<le> f i" using o [of i] i(2,3) by simp
    then show "?g (s div 2) \<le> ?g i" using assms(3) gj \<open>i \<noteq> s\<close> \<open>i \<noteq> j\<close> by (simp add: swap_keys_simps)
  qed
qed

end
