(* ===== verification/Soft_Timers.thy ===== *)
theory Soft_Timers
  imports Binary_Heap Startup
begin

text \<open>
  Software timers (\<open>stimer.c\<close>, \<open>stimer.h\<close>): control blocks, two lists of running timers (for this cycle
  of the tick counter and for the next), each a binary heap on the instant of expiry, and the timer
  task that runs the callbacks. A heap's array has entries 0 to 7 and is used from entry 1. A callback
  is user code: its number of ticks to repeat and its effect on the kernel, the passing of ticks
  included, are the parameter \<open>cb\<close> of the timer task.
\<close>

definition BRTOS_MAX_TIMER :: nat where "BRTOS_MAX_TIMER = 8"
definition TIMER_MAX_COUNTER :: u16 where "TIMER_MAX_COUNTER = TICK_COUNT_OVERFLOW - 1"

datatype TIMER_STATE = TIMER_NOT_ALLOCATED | TIMER_NOT_USED | TIMER_STOPPED | TIMER_RUNNING | TIMER_SEARCH

record BRTOS_TIMER_T =
  func_cb :: ptr
  timeout :: u16
  state :: TIMER_STATE

record BRTOS_TMR_T =
  timers :: "nat \<Rightarrow> ptr"
  count :: u8

text \<open>\<open>BRTOS_TIMER_VECTOR\<close>; the two lists are \<open>BRTOS_TMR_PING\<close> and \<open>BRTOS_TMR_PONG\<close>, named by a pointer.\<close>

datatype which = PING | PONG

record timer_vector =
  mem :: "nat \<Rightarrow> BRTOS_TIMER_T"
  tlist :: "which \<Rightarrow> BRTOS_TMR_T"
  current :: which
  future :: which
  handling_task :: u8

type_synonym timer_mem = "nat \<Rightarrow> BRTOS_TIMER_T"

definition timers_init :: timer_vector where
  "timers_init = \<lparr>mem = \<lambda>_. \<lparr>func_cb = NULL, timeout = 0, state = TIMER_NOT_ALLOCATED\<rparr>,
    tlist = \<lambda>_. \<lparr>timers = \<lambda>_. NULL, count = 0\<rparr>, current = PING, future = PONG, handling_task = 0\<rparr>"

subsection \<open>The binary heap\<close>

definition PAI :: "u8 \<Rightarrow> u8" where "PAI i = drop_bit 1 i"
definition LEFT :: "u8 \<Rightarrow> u8" where "LEFT i = push_bit 1 i"
definition RIGHT :: "u8 \<Rightarrow> u8" where "RIGHT i = push_bit 1 i + 1"

text \<open>\<open>timers[i]\<close>, and the instant of \<open>timers[i]->timeout\<close>.\<close>

definition entry :: "(nat \<Rightarrow> ptr) \<Rightarrow> u8 \<Rightarrow> nat option" where
  "entry ts i = (if unat i < BRTOS_MAX_TIMER then ts (unat i) else None)"

definition instant :: "timer_mem \<Rightarrow> (nat \<Rightarrow> ptr) \<Rightarrow> u8 \<Rightarrow> u16 option" where
  "instant m ts i = do { p \<leftarrow> entry ts i; Some (timeout (m p)) }"

definition swap_entries :: "u8 \<Rightarrow> u8 \<Rightarrow> (nat \<Rightarrow> ptr) \<Rightarrow> nat \<Rightarrow> ptr" where
  "swap_entries i j ts = ts(unat i := ts (unat j), unat j := ts (unat i))"

lemma unat_PAI: "unat (PAI i) = unat i div 2"
  by (simp add: PAI_def drop_bit_eq_div unat_div)

function Subir :: "timer_mem \<Rightarrow> (nat \<Rightarrow> ptr) \<Rightarrow> u8 \<Rightarrow> (nat \<Rightarrow> ptr) option" where
  "Subir m ts i =
    (if i > 1 then do {
       a \<leftarrow> instant m ts (PAI i);
       b \<leftarrow> instant m ts i;
       if a > b then Subir m (swap_entries (PAI i) i ts) (PAI i) else Some ts }
     else Some ts)"
  by pat_completeness auto
termination
  by (relation "measure (\<lambda>(_, _, i). unat i)") (auto simp: unat_PAI word_less_nat_alt)

declare Subir.simps [simp del]

text \<open>Which child to compare with.\<close>

definition choose_son :: "timer_mem \<Rightarrow> (nat \<Rightarrow> ptr) \<Rightarrow> u8 \<Rightarrow> u8 \<Rightarrow> u8 option" where
  "choose_son m ts i n =
    (if RIGHT i \<le> n then do {
       r \<leftarrow> instant m ts (RIGHT i);
       l \<leftarrow> instant m ts (LEFT i);
       Some (if r < l then RIGHT i else LEFT i) }
     else Some (LEFT i))"

lemma instant_bound: "instant m ts i = Some x \<Longrightarrow> unat i < 8"
  by (simp add: instant_def entry_def BRTOS_MAX_TIMER_def split: bind_splits if_splits)

lemma unat_children:
  assumes "unat i < 128"
  shows "unat (LEFT i) = 2 * unat i" "unat (RIGHT i) = 2 * unat i + 1"
proof -
  have p: "push_bit 1 i = i * 2" by (simp add: push_bit_eq_mult)
  show "unat (LEFT i) = 2 * unat i" using assms by (simp add: LEFT_def p unat_word_ariths)
  show "unat (RIGHT i) = 2 * unat i + 1" using assms by (simp add: RIGHT_def p unat_word_ariths)
qed

lemma choose_son_grows:
  assumes "choose_son m ts i n = Some s" "instant m ts s = Some a" "instant m ts i = Some b" "a < b"
  shows "unat i < unat s" "unat s < 8"
proof -
  have i: "unat i < 128" using instant_bound [OF assms(3)] by simp
  show s: "unat s < 8" by (rule instant_bound [OF assms(2)])
  have "s = LEFT i \<or> s = RIGHT i" using assms(1) by (auto simp: choose_son_def split: if_splits bind_splits)
  moreover have "s \<noteq> i" using assms(2-4) by auto
  ultimately show "unat i < unat s" using unat_children [OF i] by (metis add_0 less_add_one mult_2 nat_less_le
    le_add1 le_add2 trans_less_add1 word_unat_eq_iff)
qed

function Descer :: "timer_mem \<Rightarrow> (nat \<Rightarrow> ptr) \<Rightarrow> u8 \<Rightarrow> u8 \<Rightarrow> (nat \<Rightarrow> ptr) option" where
  "Descer m ts i n = do {
     son \<leftarrow> choose_son m ts i n;
     if son \<le> n then do {
       a \<leftarrow> instant m ts son;
       b \<leftarrow> instant m ts i;
       if a < b then Descer m (swap_entries son i ts) son n else Some ts }
     else Some ts }"
  by pat_completeness auto
termination
proof (relation "measure (\<lambda>(_, _, i, _). 8 - unat i)", goal_cases)
  case (2 m ts i n son a b)
  then show ?case using choose_son_grows [of m ts i n son a b] by simp
qed simp

declare Descer.simps [simp del]


subsection \<open>Lists\<close>

definition upd_timer :: "nat \<Rightarrow> (BRTOS_TIMER_T \<Rightarrow> BRTOS_TIMER_T) \<Rightarrow> timer_vector \<Rightarrow> timer_vector" where
  "upd_timer p f v = v\<lparr>mem := (mem v)(p := f (mem v p))\<rparr>"

definition put_list :: "which \<Rightarrow> BRTOS_TMR_T \<Rightarrow> timer_vector \<Rightarrow> timer_vector" where
  "put_list w l v = v\<lparr>tlist := (tlist v)(w := l)\<rparr>"

text \<open>\<open>list->timers[++list->count] = p; Subir (list->timers, list->count)\<close>.\<close>

definition insert_timer :: "nat \<Rightarrow> which \<Rightarrow> timer_vector \<Rightarrow> timer_vector option" where
  "insert_timer p w v =
    (let l = tlist v w; c = count l + 1
     in if unat c < BRTOS_MAX_TIMER then do {
          ts \<leftarrow> Subir (mem v) ((timers l)(unat c := Some p)) c;
          Some (put_list w \<lparr>timers = ts, count = c\<rparr> v) }
        else None)"

text \<open>The last entry put first, and \<open>Descer (list->timers, 1, list->count)\<close>.\<close>

definition remove_first :: "which \<Rightarrow> timer_vector \<Rightarrow> timer_vector option" where
  "remove_first w v =
    (let l = tlist v w; c = unat (count l)
     in if c < BRTOS_MAX_TIMER
        then Some (put_list w \<lparr>timers = (timers l)(1 := timers l c, c := NULL), count = count l - 1\<rparr> v)
        else None)"

definition order_first :: "which \<Rightarrow> timer_vector \<Rightarrow> timer_vector option" where
  "order_first w v = do {
     let l = tlist v w;
     ts \<leftarrow> Descer (mem v) (timers l) 1 (count l);
     Some (put_list w (l\<lparr>timers := ts\<rparr>) v) }"

definition first_timer :: "which \<Rightarrow> timer_vector \<Rightarrow> ptr" where
  "first_timer w v = timers (tlist v w) 1"

subsection \<open>Services\<close>

definition BRTOS_TimerTaskInit :: "kernel \<Rightarrow> timer_vector \<Rightarrow> kernel \<times> timer_vector" where
  "BRTOS_TimerTaskInit k v =
    (let k1 = EnterCritical_if_task k;
         v1 = v\<lparr>current := PING, future := PONG\<rparr>;
         v2 = v1\<lparr>mem := \<lambda>i. if i < BRTOS_MAX_TIMER
           then (mem v1 i)\<lparr>state := TIMER_NOT_USED, func_cb := NULL, timeout := 0\<rparr> else mem v1 i\<rparr>
     in (ExitCritical_if_task k1, v2))"

text \<open>\<open>OSTimerInit\<close> does not return unless the timer task was installed; \<open>task\<close> is the code of \<open>BRTOSTimerTask\<close>.\<close>

definition OSTimerInit :: "task_code \<Rightarrow> u16 \<Rightarrow> u8 \<Rightarrow> kernel \<Rightarrow> timer_vector \<Rightarrow> (kernel \<times> timer_vector) option" where
  "OSTimerInit task timertask_stacksize prio k v = do {
     let (k1, v1) = BRTOS_TimerTaskInit k v;
     (ret, _, k2) \<leftarrow> OSInstallTask task ''BRTOS Timers Task'' timertask_stacksize prio None k1;
     if ret = OK then Some (k2, v1) else None }"

text \<open>What \<open>OSTimerSet\<close> and \<open>OSTimerStart\<close> share: the timer \<open>p\<close> runs for \<open>w\<close> ticks from now.\<close>

definition run_timer :: "nat \<Rightarrow> u16 \<Rightarrow> kernel \<Rightarrow> timer_vector \<Rightarrow> (kernel \<times> timer_vector) option" where
  "run_timer p w k v =
    (let t = ucast (OSGetCount k) + ucast w :: u32
     in if t \<ge> ucast TICK_COUNT_OVERFLOW then do {
          v1 \<leftarrow> insert_timer p (future v) (upd_timer p (\<lambda>b. b\<lparr>timeout := ucast (t - ucast TICK_COUNT_OVERFLOW)\<rparr>) v);
          Some (k, upd_timer p (\<lambda>b. b\<lparr>state := TIMER_RUNNING\<rparr>) v1) }
        else do {
          v1 \<leftarrow> insert_timer p (current v) (upd_timer p (\<lambda>b. b\<lparr>timeout := ucast t\<rparr>) v);
          k1 \<leftarrow> (if currentTask k \<noteq> 0 then do {
            q \<leftarrow> first_timer (current v1) v1;
            if timeout (mem v1 p) = timeout (mem v1 q) then do {
              _ \<leftarrow> task_at (unat (handling_task v1)) k;
              Some (upd_task (unat (handling_task v1)) (\<lambda>c. c\<lparr>TimeToWait := timeout (mem v1 p)\<rparr>) k) }
            else Some k }
          else Some k);
          Some (k1, upd_timer p (\<lambda>b. b\<lparr>state := TIMER_RUNNING\<rparr>) v1) })"

text \<open>The search for a control block: the block, or the error code.\<close>

function find_timer :: "timer_mem \<Rightarrow> nat \<Rightarrow> u8 + nat" where
  "find_timer m i =
    (if i \<ge> BRTOS_MAX_TIMER then Inl NO_AVAILABLE_EVENT
     else if state (m i) = TIMER_NOT_ALLOCATED then Inl ERR_EVENT_NO_CREATED
     else if state (m i) = TIMER_NOT_USED then Inr i
     else find_timer m (i + 1))"
  by pat_completeness auto
termination by (relation "measure (\<lambda>(_, i). BRTOS_MAX_TIMER - i)") auto

declare find_timer.simps [simp del]

text \<open>The first argument is \<open>None\<close> for a null pointer, otherwise what it points to.\<close>

definition OSTimerSet ::
  "ptr option \<Rightarrow> ptr \<Rightarrow> u16 \<Rightarrow> kernel \<Rightarrow> timer_vector \<Rightarrow> (u8 \<times> ptr option \<times> kernel \<times> timer_vector) option" where
  "OSTimerSet cbp cb time_wait k v =
    (if cb = NULL \<or> cbp = None then Some (NULL_EVENT_POINTER, cbp, k, v)
     else
       (let k1 = EnterCritical_if_task k
        in case find_timer (mem v) 0 of
             Inl err \<Rightarrow> Some (err, cbp, ExitCritical_if_task k1, v)
           | Inr p \<Rightarrow>
               (let v1 = upd_timer p (\<lambda>b. b\<lparr>state := TIMER_STOPPED, func_cb := cb\<rparr>) v
                in do {
                  (k2, v2) \<leftarrow> (if time_wait > 0 then run_timer p time_wait k1 v1 else Some (k1, v1));
                  Some (OK, Some (Some p), ExitCritical_if_task k2, v2) })))"

definition OSTimerGet :: "ptr \<Rightarrow> kernel \<Rightarrow> timer_vector \<Rightarrow> (u16 \<times> kernel) option" where
  "OSTimerGet p k v =
    (if p = NULL then Some (0, k)
     else do {
       b \<leftarrow> deref BRTOS_MAX_TIMER (mem v) p;
       if state b = TIMER_RUNNING then
         (let k1 = EnterCritical_if_task k;
              tickcount = OSGetCount k1;
              t = (if timeout b \<ge> tickcount then timeout b - tickcount
                   else TIMER_MAX_COUNTER - tickcount + timeout b + 1)
          in Some (t, ExitCritical_if_task k1))
       else Some (0, k) })"

definition OSTimerStart :: "ptr \<Rightarrow> u16 \<Rightarrow> kernel \<Rightarrow> timer_vector \<Rightarrow> (u8 \<times> kernel \<times> timer_vector) option" where
  "OSTimerStart p time_wait k v =
    (if p \<noteq> NULL \<and> time_wait \<noteq> 0 then
       (let w = (if time_wait > TIMER_MAX_COUNTER then TIMER_MAX_COUNTER else time_wait);
            k1 = EnterCritical_if_task k
        in do {
          i \<leftarrow> p;
          _ \<leftarrow> deref BRTOS_MAX_TIMER (mem v) p;
          (k2, v2) \<leftarrow> run_timer i w k1 v;
          Some (OK, ExitCritical_if_task k2, v2) })
     else Some (NULL_EVENT_POINTER, k, v))"

text \<open>The search in \<open>OSTimerStop\<close>: the position of the marked timer, or the one after the last.\<close>

function find_marked :: "timer_mem \<Rightarrow> BRTOS_TMR_T \<Rightarrow> u8 \<Rightarrow> u8 option" where
  "find_marked m l pos_timer =
    (if int (unat pos_timer) \<le> sint (count l) then do {
       q \<leftarrow> entry (timers l) pos_timer;
       if state (m q) = TIMER_SEARCH then Some pos_timer else find_marked m l (pos_timer + 1) }
     else Some pos_timer)"
  by pat_completeness auto
termination
proof (relation "measure (\<lambda>(_, _, i). 256 - unat i)", goal_cases)
  case (2 m l i q)
  have "unat i < 8" using 2(2) by (simp add: entry_def BRTOS_MAX_TIMER_def split: if_splits)
  then show ?case by (simp add: unat_inc_u8)
qed simp

declare find_marked.simps [simp del]

definition OSTimerStop :: "ptr \<Rightarrow> u8 \<Rightarrow> kernel \<Rightarrow> timer_vector \<Rightarrow> (u8 \<times> kernel \<times> timer_vector) option" where
  "OSTimerStop p del k v =
    (if p \<noteq> NULL then do {
       i \<leftarrow> p;
       b \<leftarrow> deref BRTOS_MAX_TIMER (mem v) p;
       let k1 = EnterCritical_if_task k;
       let w = (if timeout b \<ge> OSGetCount k1 then current v else future v);
       let v1 = upd_timer i (\<lambda>b. b\<lparr>state := TIMER_SEARCH\<rparr>) v;
       pos \<leftarrow> find_marked (mem v1) (tlist v1 w) 1;
       let v2 = upd_timer i (\<lambda>b. b\<lparr>timeout := 0\<rparr>) v1;
       ts \<leftarrow> Subir (mem v2) (timers (tlist v2 w)) pos;
       let v3 = put_list w ((tlist v2 w)\<lparr>timers := ts\<rparr>) v2;
       v4 \<leftarrow> remove_first w v3;
       v5 \<leftarrow> order_first w v4;
       let v6 = (if del > 0 then upd_timer i (\<lambda>b. b\<lparr>state := TIMER_NOT_ALLOCATED, func_cb := NULL\<rparr>) v5
                 else upd_timer i (\<lambda>b. b\<lparr>state := TIMER_STOPPED\<rparr>) v5);
       Some (OK, ExitCritical_if_task k1, v6) }
     else Some (NULL_EVENT_POINTER, k, v))"

subsection \<open>The timer task\<close>

text \<open>A callback: how many ticks to repeat after, and what it does to the kernel and the timers.\<close>

type_synonym callback = "kernel \<times> timer_vector \<Rightarrow> u16 \<times> kernel \<times> timer_vector"

definition BRTOS_TimerTaskSleep :: "u16 \<Rightarrow> kernel \<Rightarrow> kernel option" where
  "BRTOS_TimerTaskSleep next_time_to_wake k = do {
     let Task = unat (currentTask k);
     _ \<leftarrow> task_at Task k;
     let k1 = upd_task Task (\<lambda>c. c\<lparr>TimeToWait := next_time_to_wake\<rparr>) k;
     let k2 = EnterCritical k1;
     let k3 = IncludeTaskIntoDelayList Task k2;
     pmask \<leftarrow> PriorityMask (Priority (ContextTask k3 Task));
     let k4 = k3\<lparr>OSReadyList := OSReadyList k3 AND NOT pmask\<rparr>;
     let k5 = ChangeContext k4;
     Some (ExitCritical k5) }"

text \<open>The task's local variable \<open>timeout\<close>, with the kernel and the timers.\<close>

type_synonym task_state = "u32 \<times> kernel \<times> timer_vector"

definition next_wake :: "which \<Rightarrow> timer_vector \<Rightarrow> u16" where
  "next_wake w v = (case first_timer w v of Some p \<Rightarrow> timeout (mem v p) | None \<Rightarrow> TIMER_MAX_COUNTER)"

text \<open>A timer that does not repeat.\<close>

definition retire :: "nat \<Rightarrow> which \<Rightarrow> timer_vector \<Rightarrow> timer_vector option" where
  "retire p w v =
    remove_first w (upd_timer p (\<lambda>b. b\<lparr>timeout := 0, state := TIMER_NOT_ALLOCATED, func_cb := NULL\<rparr>) v)"

text \<open>The body of the loop that runs what is left of a cycle; \<open>w\<close> is the variable \<open>list\<close>.\<close>

definition fire_late :: "(nat \<Rightarrow> callback) \<Rightarrow> which \<Rightarrow> nat \<Rightarrow> task_state \<Rightarrow> task_state option" where
  "fire_late cb w p s = (case s of (t, k, v) \<Rightarrow> do {
     (t2, k2, v2) \<leftarrow> (case func_cb (mem v p) of
        Some f \<Rightarrow>
          (let (repeat, k1, v1) = cb f (k, v);
               k2 = EnterCritical k1
           in if repeat > 0 then do {
                let (now, k3) = OSGetTickCount k2;
                let t1 = (ucast now + ucast repeat :: u32);
                let v2 = upd_timer p (\<lambda>b. b\<lparr>timeout := ucast t1\<rparr>) v1;
                v3 \<leftarrow> insert_timer p (future v2) v2;
                v4 \<leftarrow> remove_first w v3;
                Some (t1, k3, v4) }
              else do { v2 \<leftarrow> retire p w v1; Some (t, k2, v2) })
      | None \<Rightarrow> Some (t, k, v));
     v3 \<leftarrow> order_first w v2;
     Some (t2, ExitCritical k2, v3) })"

text \<open>The body of the loop over the expired timers.\<close>

definition fire :: "(nat \<Rightarrow> callback) \<Rightarrow> which \<Rightarrow> nat \<Rightarrow> task_state \<Rightarrow> task_state option" where
  "fire cb w p s = (case s of (t, k, v) \<Rightarrow> do {
     (t2, k2, v2) \<leftarrow> (case func_cb (mem v p) of
        Some f \<Rightarrow>
          (let (repeat, k1, v1) = cb f (k, v);
               k2 = EnterCritical k1
           in if repeat > 0 then do {
                let (now, k3) = OSGetTickCount k2;
                let t1 = (ucast now + ucast repeat :: u32);
                if t1 \<ge> ucast TICK_COUNT_OVERFLOW then do {
                  let v2 = upd_timer p (\<lambda>b. b\<lparr>timeout := ucast (t1 - ucast TICK_COUNT_OVERFLOW)\<rparr>) v1;
                  v3 \<leftarrow> insert_timer p (future v2) v2;
                  v4 \<leftarrow> remove_first w v3;
                  Some (t1, k3, v4) }
                else Some (t1, k3, upd_timer p (\<lambda>b. b\<lparr>timeout := ucast t1\<rparr>) v1) }
              else do { v2 \<leftarrow> retire p w v1; Some (t, k2, v2) })
      | None \<Rightarrow> Some (t, k, v));
     v3 \<leftarrow> order_first w v2;
     Some (t2, ExitCritical k2, v3) })"

text \<open>The two loops need not end.\<close>

partial_function (option) late_loop :: "(nat \<Rightarrow> callback) \<Rightarrow> which \<Rightarrow> task_state \<Rightarrow> task_state option" where
  "late_loop cb w s =
    (case first_timer w (snd (snd s)) of
       None \<Rightarrow> Some s
     | Some p \<Rightarrow> Option.bind (fire_late cb w p s) (late_loop cb w))"

partial_function (option) expired_loop :: "(nat \<Rightarrow> callback) \<Rightarrow> which \<Rightarrow> task_state \<Rightarrow> task_state option" where
  "expired_loop cb w s =
    (case s of (t, k, v) \<Rightarrow>
     case first_timer w v of
       None \<Rightarrow> Some s
     | Some p \<Rightarrow>
         (let (now, k1) = OSGetTickCount k
          in if timeout (mem v p) \<le> now then Option.bind (fire cb w p (t, k1, v)) (expired_loop cb w)
             else Some (t, k1, v)))"

definition switch_lists :: "timer_vector \<Rightarrow> timer_vector" where
  "switch_lists v = v\<lparr>current := future v, future := current v\<rparr>"

text \<open>
  One turn of the task, from waking up to its next sleep: the new locals and the tick to wake at.
\<close>

definition BRTOSTimerTask_turn :: "(nat \<Rightarrow> callback) \<Rightarrow> task_state \<Rightarrow> (u16 \<times> task_state) option" where
  "BRTOSTimerTask_turn cb s = (case s of (t, k, v) \<Rightarrow> do {
     let w = current v;
     (t1, k1, v1, w1) \<leftarrow> (case first_timer w v of
        None \<Rightarrow> Some (t, k, v, w)
      | Some p \<Rightarrow>
          (let (now, k0) = OSGetTickCount k
           in if timeout (mem v p) > now then do {
                (t1, k1, v1) \<leftarrow> late_loop cb w (t, k0, v);
                let v2 = switch_lists v1;
                Some (t1, k1, v2, current v2) }
              else Some (t, k0, v, w)));
     (t2, k2, v2) \<leftarrow> expired_loop cb w1 (t1, k1, v1);
     let (v3, w3) = (if t2 > ucast TIMER_MAX_COUNTER \<and> first_timer w1 v2 = NULL
       then (switch_lists v2, current (switch_lists v2)) else (v2, w1));
     Some (next_wake w3 v3, t2, k2, v3) })"

text \<open>The task's start, up to its first sleep.\<close>

definition BRTOSTimerTask_start :: "kernel \<Rightarrow> timer_vector \<Rightarrow> u16 \<times> task_state" where
  "BRTOSTimerTask_start k v =
    (let v1 = v\<lparr>handling_task := currentTask k\<rparr>
     in (next_wake (current v1) v1, 0, k, v1))"


subsection \<open>The heap's contents and order\<close>

definition key :: "timer_mem \<Rightarrow> (nat \<Rightarrow> ptr) \<Rightarrow> nat \<Rightarrow> nat" where
  "key m ts i = unat (timeout (m (the (ts i))))"

definition filled :: "(nat \<Rightarrow> ptr) \<Rightarrow> nat \<Rightarrow> bool" where
  "filled ts n \<longleftrightarrow> n < 8 \<and> (\<forall>i. 1 \<le> i \<longrightarrow> i \<le> n \<longrightarrow> (\<exists>p < 8. ts i = Some p)) \<and> inj_on ts {1..n}"

text \<open>Reordered between 1 and \<open>n\<close>.\<close>

definition reordered :: "(nat \<Rightarrow> ptr) \<Rightarrow> (nat \<Rightarrow> ptr) \<Rightarrow> nat \<Rightarrow> bool" where
  "reordered ts us n \<longleftrightarrow> (\<forall>i. i = 0 \<or> n < i \<longrightarrow> us i = ts i) \<and> us ` {1..n} = ts ` {1..n} \<and> filled us n"

lemma filledD:
  assumes "filled ts n" "1 \<le> i" "i \<le> n"
  obtains p where "ts i = Some p" "p < 8"
  using assms unfolding filled_def by blast

lemma instant_filled:
  assumes "filled ts n" "1 \<le> unat i" "unat i \<le> n"
  shows "instant m ts i = Some (timeout (m (the (ts (unat i)))))"
proof -
  obtain p where "ts (unat i) = Some p" by (rule filledD [OF assms])
  then show ?thesis using assms by (simp add: instant_def entry_def BRTOS_MAX_TIMER_def filled_def)
qed

lemma instant_less:
  assumes "filled ts n" "1 \<le> unat i" "unat i \<le> n" "1 \<le> unat j" "unat j \<le> n"
  shows "\<exists>a b. instant m ts i = Some a \<and> instant m ts j = Some b \<and> (a < b \<longleftrightarrow> key m ts (unat i) < key m ts (unat j))"
  using instant_filled [OF assms(1-3)] instant_filled [OF assms(1,4,5)] by (simp add: key_def word_less_nat_alt)

lemma key_swap: "key m (swap_entries i j ts) = swap_keys (unat i) (unat j) (key m ts)"
  by (rule ext) (simp add: key_def swap_entries_def swap_keys_def)

lemma reordered_refl: "filled ts n \<Longrightarrow> reordered ts ts n"
  by (simp add: reordered_def)

lemma reordered_trans: "reordered ts us n \<Longrightarrow> reordered us vs n \<Longrightarrow> reordered ts vs n"
  by (simp add: reordered_def)

lemma reordered_swap:
  assumes "filled ts n" "1 \<le> unat i" "unat i \<le> n" "1 \<le> unat j" "unat j \<le> n"
  shows "reordered ts (swap_entries i j ts) n"
proof -
  let ?u = "swap_entries i j ts"
  define f where "f l = (if l = unat i then unat j else if l = unat j then unat i else l)" for l
  have ff: "f (f l) = l" for l by (simp add: f_def)
  have fin: "f l \<in> {1..n} \<longleftrightarrow> l \<in> {1..n}" for l using assms(2-5) by (auto simp: f_def)
  have u: "?u l = ts (f l)" for l by (simp add: swap_entries_def f_def)
  have "?u ` {1..n} = ts ` {1..n}"
  proof (intro equalityI image_subsetI)
    show "?u l \<in> ts ` {1..n}" if "l \<in> {1..n}" for l
      unfolding u using that fin by blast
    show "ts l \<in> ?u ` {1..n}" if "l \<in> {1..n}" for l
      using u [of "f l"] that fin [of l] unfolding ff by (metis imageI)
  qed
  moreover have "inj_on ?u {1..n}"
  proof (rule inj_onI)
    fix l l' assume l: "l \<in> {1..n}" "l' \<in> {1..n}" "?u l = ?u l'"
    have inj: "inj_on ts {1..n}" using assms(1) by (simp add: filled_def)
    have "f l = f l'" by (rule inj_onD [OF inj l(3) [unfolded u]]) (use l(1,2) fin in blast)+
    then show "l = l'" by (metis ff)
  qed
  moreover have "\<exists>p < 8. ?u l = Some p" if "1 \<le> l" "l \<le> n" for l
  proof -
    have "f l \<in> {1..n}" using that fin by simp
    then show ?thesis using assms(1) unfolding u filled_def by auto
  qed
  moreover have "?u l = ts l" if "l = 0 \<or> n < l" for l
    using that assms(2-5) by (auto simp: swap_entries_def)
  ultimately show ?thesis using assms(1) by (simp add: reordered_def filled_def)
qed

text \<open>
  \<open>Subir\<close> terminates and repairs an order that is violated only between its index and the parents.
\<close>

lemma Subir_order:
  assumes "filled ts n" "1 \<le> unat j" "unat j \<le> n" "order_up (key m ts) n (unat j)"
  shows "\<exists>us. Subir m ts j = Some us \<and> reordered ts us n \<and> heap_order (key m us) n"
  using assms
proof (induction m ts j rule: Subir.induct)
  case (1 m ts i)
  note pre = "1.prems"
  show ?case
  proof (cases "i > 1")
    case False
    then have "unat i = 1" using pre(2) by (simp add: word_less_nat_alt)
    then have "heap_order (key m ts) n" by (intro order_up_done [OF pre(4)]) simp
    then show ?thesis using False reordered_refl [OF pre(1)] by (simp add: Subir.simps [of m ts i])
  next
    case True
    then have i2: "2 \<le> unat i" by (simp add: word_less_nat_alt)
    have pr: "1 \<le> unat (PAI i)" "unat (PAI i) \<le> n" using i2 pre(3) by (simp_all add: unat_PAI)
    obtain a b where ab: "instant m ts i = Some b" "instant m ts (PAI i) = Some a"
      "b < a \<longleftrightarrow> key m ts (unat i) < key m ts (unat i div 2)"
      using instant_less [OF pre(1-3) pr] by (metis unat_PAI)
    show ?thesis
    proof (cases "a > b")
      case False
      then have "heap_order (key m ts) n" using ab(3) by (intro order_up_done [OF pre(4)]) simp
      then show ?thesis using True False ab(1,2) reordered_refl [OF pre(1)] by (simp add: Subir.simps [of m ts i])
    next
      case less: True
      let ?u = "swap_entries (PAI i) i ts"
      have sw: "reordered ts ?u n" by (rule reordered_swap [OF pre(1) pr pre(2,3)])
      have f: "filled ?u n" using sw by (simp add: reordered_def)
      have "order_up (key m ?u) n (unat (PAI i))"
        unfolding key_swap unat_PAI using order_up_step [OF pre(4) i2 pre(3)] ab(3) less by simp
      then obtain us where us: "Subir m ?u (PAI i) = Some us" "reordered ?u us n" "heap_order (key m us) n"
        using "1.IH" [OF True ab(2,1) less f pr] by blast
      have "Subir m ts i = Subir m ?u (PAI i)"
        using True ab(1,2) less by (simp add: Subir.simps [of m ts i])
      then show ?thesis using us(1,3) reordered_trans [OF sw us(2)] by simp
    qed
  qed
qed

lemma choose_son_cases:
  assumes "filled ts n" "1 \<le> unat i" "unat i \<le> n \<or> n = 0 \<and> unat i = 1" "unat c = n"
  obtains (leaf) son where "choose_son m ts i c = Some son" "n < unat son" "\<And>l. l \<le> n \<Longrightarrow> 2 \<le> l \<Longrightarrow> l div 2 \<noteq> unat i"
  | (inner) son where "choose_son m ts i c = Some son" "unat son \<le> n" "unat son div 2 = unat i"
      "\<And>l. l \<le> n \<Longrightarrow> l div 2 = unat i \<Longrightarrow> key m ts (unat son) \<le> key m ts l"
proof -
  have i8: "unat i < 128" using assms(1,3) by (auto simp: filled_def)
  note u = unat_children [OF i8]
  have kids: "l = 2 * unat i \<or> l = 2 * unat i + 1" if "l div 2 = unat i" for l using that by linarith
  have le: "RIGHT i \<le> c \<longleftrightarrow> 2 * unat i + 1 \<le> n" by (simp add: word_le_nat_alt u assms(4))
  show thesis
  proof (cases "2 * unat i + 1 \<le> n")
    case True
    obtain r l where rl: "instant m ts (RIGHT i) = Some r" "instant m ts (LEFT i) = Some l"
      "r < l \<longleftrightarrow> key m ts (2 * unat i + 1) < key m ts (2 * unat i)"
      using instant_less [OF assms(1), of "RIGHT i" "LEFT i" m] True assms(2) unfolding u by auto
    show thesis
    proof (cases "r < l")
      case less: True
      show thesis
      proof (rule inner [of "RIGHT i"])
        show "choose_son m ts i c = Some (RIGHT i)" using True le rl less by (simp add: choose_son_def)
        show "key m ts (unat (RIGHT i)) \<le> key m ts j" if "j \<le> n" "j div 2 = unat i" for j
          using kids [OF that(2)] less rl(3) unfolding u by auto
      qed (use True in \<open>simp_all add: u\<close>)
    next
      case False
      show thesis
      proof (rule inner [of "LEFT i"])
        show "choose_son m ts i c = Some (LEFT i)" using True le rl False by (simp add: choose_son_def)
        show "key m ts (unat (LEFT i)) \<le> key m ts j" if "j \<le> n" "j div 2 = unat i" for j
          using kids [OF that(2)] False rl(3) unfolding u by auto
      qed (use True in \<open>simp_all add: u\<close>)
    qed
  next
    case False
    then have son: "choose_son m ts i c = Some (LEFT i)" using le by (simp add: choose_son_def)
    show thesis
    proof (cases "2 * unat i \<le> n")
      case True
      show thesis
      proof (rule inner [OF son])
        show "key m ts (unat (LEFT i)) \<le> key m ts j" if "j \<le> n" "j div 2 = unat i" for j
          using kids [OF that(2)] that(1) False unfolding u by auto
      qed (use True in \<open>simp_all add: u\<close>)
    next
      case far: False
      show thesis
      proof (rule leaf [OF son])
        show "j div 2 \<noteq> unat i" if "j \<le> n" "2 \<le> j" for j using kids [of j] that far by auto
      qed (use far in \<open>simp add: u\<close>)
    qed
  qed
qed

text \<open>
  \<open>Descer\<close> terminates and repairs an order that is violated only between its index and the children.
\<close>

lemma Descer_order:
  assumes "filled ts n" "1 \<le> unat j" "unat j \<le> n \<or> n = 0 \<and> unat j = 1" "unat c = n" "order_down (key m ts) n (unat j)"
  shows "\<exists>us. Descer m ts j c = Some us \<and> reordered ts us n \<and> heap_order (key m us) n"
  using assms
proof (induction m ts j c rule: Descer.induct)
  case (1 m ts i c)
  note pre = "1.prems"
  from pre(1-4) show ?case
  proof (cases rule: choose_son_cases [where m = m])
    case (leaf son)
    have "heap_order (key m ts) n" by (rule order_down_done [OF pre(5)]) (use leaf(3) in blast)
    moreover have "\<not> son \<le> c" using leaf(2) pre(4) by (simp add: word_le_nat_alt)
    ultimately show ?thesis using leaf(1) reordered_refl [OF pre(1)] by (simp add: Descer.simps [of m ts i c])
  next
    case (inner son)
    have sn: "1 \<le> unat son" "son \<le> c" using inner(2,3) pre(2,4) by (auto simp: word_le_nat_alt intro: Suc_leI)
    have i_n: "unat i \<le> n" using inner(2,3) by linarith
    obtain a b where ab: "instant m ts son = Some a" "instant m ts i = Some b"
      "a < b \<longleftrightarrow> key m ts (unat son) < key m ts (unat i)"
      using instant_less [OF pre(1) sn(1) inner(2) pre(2) i_n] by blast
    show ?thesis
    proof (cases "a < b")
      case False
      have "heap_order (key m ts) n"
        by (rule order_down_done [OF pre(5)]) (use inner(4) False ab(3) in force)
      then show ?thesis using False inner(1) sn(2) ab(1,2) reordered_refl [OF pre(1)] by (simp add: Descer.simps [of m ts i c])
    next
      case True
      let ?u = "swap_entries son i ts"
      have sw: "reordered ts ?u n" by (rule reordered_swap [OF pre(1) sn(1) inner(2) pre(2) i_n])
      have f: "filled ?u n" using sw by (simp add: reordered_def)
      have "order_down (key m ?u) n (unat son)"
        unfolding key_swap using order_down_step [OF pre(5,2) inner(3,2) _ inner(4)] ab(3) True by simp
      then obtain us where us: "Descer m ?u son c = Some us" "reordered ?u us n" "heap_order (key m us) n"
        using "1.IH" [OF inner(1) sn(2) ab(1,2) True f sn(1) _ pre(4)] inner(2) by blast
      have "Descer m ts i c = Descer m ?u son c"
        using True inner(1) sn(2) ab(1,2) by (simp add: Descer.simps [of m ts i c])
      then show ?thesis using us(1,3) reordered_trans [OF sw us(2)] by simp
    qed
  qed
qed


subsection \<open>Operations on a list\<close>

definition list_ok :: "timer_mem \<Rightarrow> BRTOS_TMR_T \<Rightarrow> bool" where
  "list_ok m l \<longleftrightarrow> filled (timers l) (unat (count l)) \<and>
     (\<forall>i. unat (count l) < i \<longrightarrow> i < 8 \<longrightarrow> timers l i = NULL) \<and> heap_order (key m (timers l)) (unat (count l))"

definition members :: "BRTOS_TMR_T \<Rightarrow> nat set" where
  "members l = {p. Some p \<in> timers l ` {1..unat (count l)}}"

lemma membersI: "timers l i = Some p \<Longrightarrow> 1 \<le> i \<Longrightarrow> i \<le> unat (count l) \<Longrightarrow> p \<in> members l"
  unfolding members_def using image_eqI [of "Some p" "timers l" i "{1..unat (count l)}"] by simp

lemma membersE:
  assumes "p \<in> members l"
  obtains i where "1 \<le> i" "i \<le> unat (count l)" "timers l i = Some p"
proof -
  obtain i where "Some p = timers l i" "i \<in> {1..unat (count l)}" using assms unfolding members_def by blast
  then show thesis using that [of i] by (metis atLeastAtMost_iff)
qed

lemma list_okD:
  assumes "list_ok m l"
  shows "filled (timers l) (unat (count l))" "unat (count l) < i \<Longrightarrow> i < 8 \<Longrightarrow> timers l i = NULL"
    "heap_order (key m (timers l)) (unat (count l))" "unat (count l) < 8"
  using assms by (simp_all add: list_ok_def filled_def)

lemma heap_order_cong:
  assumes "heap_order f n" "\<And>i. 1 \<le> i \<Longrightarrow> i \<le> n \<Longrightarrow> g i = f i"
  shows "heap_order g n"
  unfolding heap_order_def
proof (intro allI impI)
  fix i assume i: "2 \<le> i" "i \<le> n"
  then have "1 \<le> i div 2" "i div 2 \<le> n" "1 \<le> i" by linarith+
  then have "g (i div 2) = f (i div 2)" "g i = f i" using assms(2) i(2) by blast+
  then show "g (i div 2) \<le> g i" using assms(1) i unfolding heap_order_def by simp
qed

lemma order_down_cong:
  assumes "order_down f n j" "j \<le> 1" "\<And>i. 1 \<le> i \<Longrightarrow> i \<le> n \<Longrightarrow> g i = f i"
  shows "order_down g n j"
  unfolding order_down_def
proof (intro conjI allI impI)
  fix i assume i: "2 \<le> i" "i \<le> n" "i div 2 \<noteq> j"
  then have "1 \<le> i div 2" "i div 2 \<le> n" "1 \<le> i" by linarith+
  then have "g (i div 2) = f (i div 2)" "g i = f i" using assms(3) i(2) by blast+
  then show "g (i div 2) \<le> g i" using assms(1) i unfolding order_down_def by simp
qed (use assms(2) in simp)

lemma first_timer_empty:
  assumes "list_ok m (tlist v w)"
  shows "first_timer w v = NULL \<longleftrightarrow> unat (count (tlist v w)) = 0" "first_timer w v = NULL \<longleftrightarrow> members (tlist v w) = {}"
proof -
  let ?l = "tlist v w"
  have f: "filled (timers ?l) (unat (count ?l))" by (rule list_okD(1) [OF assms])
  have e: "members ?l \<noteq> {}" "timers ?l 1 \<noteq> NULL" if n: "unat (count ?l) \<noteq> 0"
  proof -
    have "1 \<le> unat (count ?l)" using n by linarith
    then obtain p where "timers ?l 1 = Some p" using filledD [OF f, of 1] by blast
    then show "timers ?l 1 \<noteq> NULL" "members ?l \<noteq> {}" using membersI [of ?l 1 p] n by auto
  qed
  have z: "timers ?l 1 = NULL" "members ?l = {}" if "unat (count ?l) = 0"
    using list_okD(2) [OF assms, of 1] that by (simp_all add: members_def)
  show "first_timer w v = NULL \<longleftrightarrow> unat (count ?l) = 0" "first_timer w v = NULL \<longleftrightarrow> members ?l = {}"
    using e z unfolding first_timer_def by blast+
qed

lemma members_bound: "list_ok m l \<Longrightarrow> p \<in> members l \<Longrightarrow> p < 8"
  using list_okD(1) [of m l] unfolding members_def by (auto elim: filledD)

text \<open>The first timer is one that expires first.\<close>

lemma first_timer_least:
  assumes "list_ok m (tlist v w)" "first_timer w v = Some p"
  shows "p \<in> members (tlist v w)" "q \<in> members (tlist v w) \<Longrightarrow> timeout (m p) \<le> timeout (m q)"
proof -
  let ?l = "tlist v w"
  note o = list_okD [OF assms(1)]
  have n: "1 \<le> unat (count ?l)" using first_timer_empty(1) [OF assms(1)] assms(2) by simp
  have p: "timers ?l 1 = Some p" using assms(2) by (simp add: first_timer_def)
  show "p \<in> members ?l" using membersI [OF p] n by simp
  assume "q \<in> members ?l"
  then obtain i where i: "1 \<le> i" "i \<le> unat (count ?l)" "timers ?l i = Some q" by (rule membersE)
  then have "key m (timers ?l) 1 \<le> key m (timers ?l) i" using heap_order_least [OF o(3)] by blast
  then show "timeout (m p) \<le> timeout (m q)" using p i(3) by (simp add: key_def word_le_nat_alt)
qed

lemma filled_snoc:
  assumes "filled ts n" "n < 7" "p < 8" "Some p \<notin> ts ` {1..n}"
  shows "filled (ts(Suc n := Some p)) (Suc n)"
proof -
  let ?u = "ts(Suc n := Some p)"
  have s: "{1..Suc n} = insert (Suc n) {1..n}" "{1..n} - {Suc n} = {1..n}" by auto
  have "inj_on ts {1..n}" using assms(1) by (simp add: filled_def)
  then have "inj_on ?u {1..n}" using assms(4) by (rule inj_on_fun_updI)
  moreover have "?u (Suc n) \<notin> ?u ` {1..n}"
  proof
    assume "?u (Suc n) \<in> ?u ` {1..n}"
    then obtain i where "i \<in> {1..n}" "?u (Suc n) = ?u i" by blast
    then have "i \<in> {1..n}" "ts i = Some p" by auto
    then show False using assms(4) image_eqI [of "Some p" ts i "{1..n}"] by simp
  qed
  ultimately have "inj_on ?u {1..Suc n}" unfolding s(1) inj_on_insert s(2) by blast
  moreover have "\<exists>q < 8. ?u i = Some q" if i: "1 \<le> i" "i \<le> Suc n" for i
  proof (cases "i = Suc n")
    case False
    then have "i \<le> n" using i(2) by simp
    then obtain q where "ts i = Some q" "q < 8" by (rule filledD [OF assms(1) i(1)])
    then show ?thesis using False by simp
  qed (use assms(3) in simp)
  moreover have "Suc n < 8" using assms(2) by simp
  ultimately show ?thesis unfolding filled_def by blast
qed

lemma insert_timer_ok:
  assumes l: "list_ok (mem v) (tlist v w)" "unat (count (tlist v w)) < 7" and p: "p < 8" "p \<notin> members (tlist v w)"
  obtains l' where "insert_timer p w v = Some (put_list w l' v)" "list_ok (mem v) l'"
    "members l' = insert p (members (tlist v w))" "unat (count l') = Suc (unat (count (tlist v w)))"
proof -
  let ?l = "tlist v w"
  define n where "n = unat (count ?l)"
  note o = list_okD [OF l(1), folded n_def]
  define ts where "ts = (timers ?l)(Suc n := Some p)"
  have c: "unat (count ?l + 1) = Suc n" using l(2) by (simp add: n_def unat_inc_u8)
  have pn: "Some p \<notin> timers ?l ` {1..n}" using p(2) by (simp add: members_def n_def)
  have f: "filled ts (Suc n)" unfolding ts_def by (rule filled_snoc [OF o(1) _ p(1) pn]) (use l(2) n_def in simp)
  have "key (mem v) ts = (key (mem v) (timers ?l))(Suc n := unat (timeout (mem v p)))"
    by (rule ext) (simp add: key_def ts_def)
  then have "order_up (key (mem v) ts) (Suc n) (unat (count ?l + 1))"
    unfolding c using order_up_last [OF o(3)] by simp
  then obtain us where us: "Subir (mem v) ts (count ?l + 1) = Some us" "reordered ts us (Suc n)"
    "heap_order (key (mem v) us) (Suc n)"
    using Subir_order [OF f, of "count ?l + 1" "mem v"] c by auto
  define l' where "l' = \<lparr>timers = us, count = count ?l + 1\<rparr>"
  show thesis
  proof (rule that [of l'])
    show "insert_timer p w v = Some (put_list w l' v)"
      using us(1) l(2) by (simp add: insert_timer_def Let_def c BRTOS_MAX_TIMER_def n_def [symmetric] ts_def l'_def)
    have "us i = NULL" if "Suc n < i" "i < 8" for i
      using us(2) that o(2) [of i] by (simp add: reordered_def ts_def)
    then show "list_ok (mem v) l'" using us(2,3) by (simp add: list_ok_def l'_def c reordered_def)
    have "ts ` {1..Suc n} = insert (Some p) (timers ?l ` {1..n})"
    proof -
      have "ts ` {1..n} = timers ?l ` {1..n}" by (rule image_cong) (simp_all add: ts_def)
      moreover have "{1..Suc n} = insert (Suc n) {1..n}" by (simp add: atLeastAtMostSuc_conv)
      moreover have "ts (Suc n) = Some p" by (simp add: ts_def)
      ultimately show ?thesis by (simp only: image_insert)
    qed
    then show "members l' = insert p (members ?l)" using us(2) by (auto simp: members_def l'_def c reordered_def n_def)
    show "unat (count l') = Suc (unat (count ?l))" by (simp add: l'_def c n_def)
  qed
qed


text \<open>Changing the key of the first timer, and sifting it down.\<close>

lemma order_first_ok:
  assumes f: "filled (timers l) (unat (count l))" "\<And>i. unat (count l) < i \<Longrightarrow> i < 8 \<Longrightarrow> timers l i = NULL"
    and o: "order_down (key (mem v) (timers l)) (unat (count l)) 1" and l: "tlist v w = l"
  obtains l' where "order_first w v = Some (put_list w l' v)" "list_ok (mem v) l'" "members l' = members l"
    "count l' = count l"
proof -
  define n where "n = unat (count l)"
  have one: "unat (1 :: u8) = 1" by simp
  obtain us where us: "Descer (mem v) (timers l) 1 (count l) = Some us" "reordered (timers l) us n"
    "heap_order (key (mem v) us) n"
    using Descer_order [of "timers l" n 1 "count l" "mem v"] f(1) o unfolding n_def one by fastforce
  show thesis
  proof (rule that [of "l\<lparr>timers := us\<rparr>"])
    show "order_first w v = Some (put_list w (l\<lparr>timers := us\<rparr>) v)"
      using us(1) by (simp add: order_first_def l Let_def)
    have "us i = NULL" if "n < i" "i < 8" for i using us(2) that f(2) [of i] by (simp add: reordered_def n_def)
    then show "list_ok (mem v) (l\<lparr>timers := us\<rparr>)" using us(2,3) by (simp add: list_ok_def n_def reordered_def)
    show "members (l\<lparr>timers := us\<rparr>) = members l" using us(2) by (simp add: members_def n_def reordered_def)
  qed simp
qed

lemma resort_first_ok:
  assumes l: "list_ok m (tlist v w)" "first_timer w v = Some p"
    and same: "\<And>q. q \<noteq> p \<Longrightarrow> timeout (mem v q) = timeout (m q)"
  obtains l' where "order_first w v = Some (put_list w l' v)" "list_ok (mem v) l'"
    "members l' = members (tlist v w)" "count l' = count (tlist v w)"
proof -
  let ?l = "tlist v w"
  define n where "n = unat (count ?l)"
  note o = list_okD [OF l(1), folded n_def]
  have p1: "timers ?l 1 = Some p" using l(2) by (simp add: first_timer_def)
  have k: "key (mem v) (timers ?l) i = key m (timers ?l) i" if i: "2 \<le> i" "i \<le> n" for i
  proof -
    have "timers ?l i \<noteq> timers ?l 1"
      using o(1) i inj_onD [of "timers ?l" "{1..n}" i 1] by (force simp: filled_def)
    moreover have "1 \<le> i" using i(1) by simp
    then obtain q where "timers ?l i = Some q" by (rule filledD [OF o(1) _ i(2)])
    ultimately show ?thesis using same p1 by (simp add: key_def)
  qed
  have "order_down (key (mem v) (timers ?l)) n 1"
    unfolding order_down_def
  proof (intro conjI allI impI)
    fix i assume i: "2 \<le> i" "i \<le> n" "i div 2 \<noteq> 1"
    then have "2 \<le> i div 2" "i div 2 \<le> n" by linarith+
    then show "key (mem v) (timers ?l) (i div 2) \<le> key (mem v) (timers ?l) i"
      using k i o(3) by (simp add: heap_order_def)
  qed simp
  then show thesis
    using order_first_ok [where l = ?l and v = v and w = w] o(1,2) that unfolding n_def by blast
qed

lemma pop_first_ok:
  assumes l: "list_ok m (tlist v w)" "first_timer w v = Some p"
    and same: "\<And>q. q \<noteq> p \<Longrightarrow> timeout (mem v q) = timeout (m q)"
  obtains l1 l' where "remove_first w v = Some (put_list w l1 v)"
    "order_first w (put_list w l1 v) = Some (put_list w l' v)" "list_ok (mem v) l'"
    "members l' = members (tlist v w) - {p}" "Suc (unat (count l')) = unat (count (tlist v w))"
proof -
  let ?l = "tlist v w"
  obtain k where n: "unat (count ?l) = Suc k"
    using first_timer_empty(1) [OF l(1)] l(2) by (cases "unat (count ?l)") auto
  note o = list_okD [OF l(1), unfolded n]
  have c: "unat (count ?l - 1) = k" using n by (subst unat_dec_u8) auto
  have p1: "timers ?l 1 = Some p" using l(2) by (simp add: first_timer_def)
  have inj: "inj_on (timers ?l) {1..Suc k}" using o(1) by (simp add: filled_def)
  define ts where "ts = (timers ?l)(1 := timers ?l (Suc k), Suc k := NULL)"
  define g where "g i = (if i = 1 then Suc k else i)" for i
  define l1 where "l1 = \<lparr>timers = ts, count = count ?l - 1\<rparr>"
  have tg: "ts i = timers ?l (g i)" if "1 \<le> i" "i \<le> k" for i using that by (simp add: ts_def g_def)
  have gk: "2 \<le> g i" "g i \<le> Suc k" if "1 \<le> i" "i \<le> k" for i using that by (auto simp: g_def)
  have rm: "remove_first w v = Some (put_list w l1 v)"
    using o(4) by (simp add: remove_first_def Let_def n BRTOS_MAX_TIMER_def l1_def ts_def)
  have f1: "filled ts k"
    unfolding filled_def
  proof (intro conjI allI impI)
    show "k < 8" using o(4) by simp
    show "\<exists>q < 8. ts i = Some q" if i: "1 \<le> i" "i \<le> k" for i
      using filledD [OF o(1), of "g i"] gk [OF i] tg [OF i] by (metis le_trans one_le_numeral)
    show "inj_on ts {1..k}"
    proof (rule inj_onI)
      fix i j assume ij: "i \<in> {1..k}" "j \<in> {1..k}" "ts i = ts j"
      then have "g i = g j" using inj_onD [OF inj, of "g i" "g j"] gk [of i] gk [of j] tg by simp
      then show "i = j" using ij(1,2) by (auto simp: g_def split: if_splits)
    qed
  qed
  have np: "timers ?l i \<noteq> Some p" if "2 \<le> i" "i \<le> Suc k" for i
    using inj_onD [OF inj, of i 1] that p1 by auto
  have kk: "key (mem v) (timers ?l) i = key m (timers ?l) i" if i: "2 \<le> i" "i \<le> Suc k" for i
  proof -
    have "1 \<le> i" using i(1) by simp
    then obtain q where "timers ?l i = Some q" by (rule filledD [OF o(1) _ i(2)])
    then show ?thesis using same np [OF i] by (simp add: key_def)
  qed
  have od: "order_down (key (mem v) ts) k 1"
    unfolding order_down_def
  proof (intro conjI allI impI)
    fix i assume i: "2 \<le> i" "i \<le> k" "i div 2 \<noteq> 1"
    then have h: "2 \<le> i div 2" "i div 2 \<le> k" by linarith+
    have e: "key (mem v) ts j = key m (timers ?l) j" if "2 \<le> j" "j \<le> k" for j
      using kk [of j] that by (simp add: key_def ts_def)
    show "key (mem v) ts (i div 2) \<le> key (mem v) ts i"
      unfolding e [OF h] e [OF i(1,2)] using o(3) i(1,2) by (simp add: heap_order_def)
  qed simp
  have null: "ts i = NULL" if "k < i" "i < 8" for i
    using that o(2) [of i] by (cases "i = Suc k") (auto simp: ts_def)
  obtain l' where l': "order_first w (put_list w l1 v) = Some (put_list w l' (put_list w l1 v))"
    "list_ok (mem (put_list w l1 v)) l'" "members l' = members l1" "count l' = count l1"
    by (rule order_first_ok [of l1 "put_list w l1 v" w]) (use f1 od null in \<open>simp_all add: l1_def c put_list_def\<close>)
  have mem1: "members l1 = members ?l - {p}"
  proof (intro set_eqI iffI)
    fix q assume "q \<in> members l1"
    then obtain i where i: "1 \<le> i" "i \<le> k" "ts i = Some q" by (rule membersE) (simp add: l1_def c)
    then have "timers ?l (g i) = Some q" "2 \<le> g i" "g i \<le> Suc k" using tg gk by simp_all
    then show "q \<in> members ?l - {p}" using membersI [of ?l "g i" q] np [of "g i"] n by auto
  next
    fix q assume "q \<in> members ?l - {p}"
    then obtain i where i: "1 \<le> i" "i \<le> Suc k" "timers ?l i = Some q" "q \<noteq> p" using n by (auto elim: membersE)
    then have "i \<noteq> 1" using p1 by auto
    then have j: "\<exists>j. 1 \<le> j \<and> j \<le> k \<and> ts j = Some q"
      using i by (cases "i = Suc k") (force simp: ts_def)+
    then show "q \<in> members l1" using membersI [of l1] by (auto simp: l1_def c)
  qed
  show thesis
    by (rule that [OF rm, of l']) (use l' mem1 c n in \<open>simp_all add: put_list_def l1_def\<close>)
qed

end
