(* ===== verification/Timer_Service.thy ===== *)
theory Timer_Service
  imports Soft_Timers
begin

text \<open>
  What the software timers promise: starting, reading and stopping a timer, and a pass of the timer
  task over the expired timers, on lists that are heaps; and the two situations in which the task does
  not do what a timer was started for.
\<close>

subsection \<open>The invariant\<close>

definition timers_ok :: "timer_vector \<Rightarrow> bool" where
  "timers_ok v \<longleftrightarrow> current v \<noteq> future v \<and> (\<forall>w. list_ok (mem v) (tlist v w)) \<and>
     members (tlist v PING) \<inter> members (tlist v PONG) = {} \<and>
     (\<forall>w. \<forall>p \<in> members (tlist v w). state (mem v p) = TIMER_RUNNING \<and> func_cb (mem v p) \<noteq> NULL)"

text \<open>The heaps have room for seven timers each.\<close>

definition load :: "timer_vector \<Rightarrow> nat" where
  "load v = unat (count (tlist v PING)) + unat (count (tlist v PONG))"

lemma timers_okD:
  assumes "timers_ok v"
  shows "current v \<noteq> future v" "list_ok (mem v) (tlist v w)"
    "w \<noteq> w' \<Longrightarrow> p \<in> members (tlist v w) \<Longrightarrow> p \<notin> members (tlist v w')"
    "p \<in> members (tlist v w) \<Longrightarrow> state (mem v p) = TIMER_RUNNING" "p \<in> members (tlist v w) \<Longrightarrow> func_cb (mem v p) \<noteq> NULL"
proof -
  show "p \<notin> members (tlist v w')" if "w \<noteq> w'" "p \<in> members (tlist v w)"
    using that assms unfolding timers_ok_def by (cases w; cases w') auto
qed (use assms in \<open>auto simp: timers_ok_def\<close>)

lemma timers_okI:
  assumes "current v \<noteq> future v" "\<And>w. list_ok (mem v) (tlist v w)"
    "\<And>p. p \<in> members (tlist v (current v)) \<Longrightarrow> p \<notin> members (tlist v (future v))"
    "\<And>w p. p \<in> members (tlist v w) \<Longrightarrow> state (mem v p) = TIMER_RUNNING \<and> func_cb (mem v p) \<noteq> NULL"
  shows "timers_ok v"
proof -
  have "members (tlist v PING) \<inter> members (tlist v PONG) = {}"
    using assms(1,3) by (cases "current v"; cases "future v") auto
  then show ?thesis using assms(1,2,4) unfolding timers_ok_def by blast
qed

text \<open>Other timers' keys are all that a list depends on.\<close>

lemma list_ok_cong:
  assumes "list_ok m l" "\<And>q. q \<in> members l \<Longrightarrow> timeout (m' q) = timeout (m q)"
  shows "list_ok m' l"
proof -
  note o = list_okD [OF assms(1)]
  have "key m' (timers l) i = key m (timers l) i" if i: "1 \<le> i" "i \<le> unat (count l)" for i
  proof -
    obtain q where q: "timers l i = Some q" by (rule filledD [OF o(1) i])
    then have "q \<in> members l" using i by (rule membersI)
    then show ?thesis using assms(2) q by (simp add: key_def)
  qed
  then have "heap_order (key m' (timers l)) (unat (count l))" using heap_order_cong [OF o(3)] by blast
  then show ?thesis using assms(1) by (simp add: list_ok_def)
qed

lemma put_list_simps [simp]:
  "mem (put_list w l v) = mem v" "current (put_list w l v) = current v" "future (put_list w l v) = future v"
  "handling_task (put_list w l v) = handling_task v" "tlist (put_list w l v) = (tlist v)(w := l)"
  by (simp_all add: put_list_def)

lemma upd_timer_simps [simp]:
  "mem (upd_timer p f v) = (mem v)(p := f (mem v p))" "current (upd_timer p f v) = current v"
  "future (upd_timer p f v) = future v" "handling_task (upd_timer p f v) = handling_task v"
  "tlist (upd_timer p f v) = tlist v"
  by (simp_all add: upd_timer_def)

lemma first_timer_upd [simp]: "first_timer w (upd_timer p f v) = first_timer w v"
  by (simp add: first_timer_def)

lemma which_cases: "current v \<noteq> future v \<Longrightarrow> w = current v \<or> w = future v"
  by (cases w; cases "current v"; cases "future v") auto

lemma load_eq: "current v \<noteq> future v \<Longrightarrow> load v = unat (count (tlist v (current v))) + unat (count (tlist v (future v)))"
  by (cases "current v"; cases "future v") (auto simp: load_def)

subsection \<open>Instants\<close>

text \<open>The sum of the counter and a number of ticks, as the source computes and compares it.\<close>

lemma unat_sum: "unat (ucast (a :: u16) + ucast (b :: u16) :: u32) = unat a + unat b"
proof -
  have "unat a < 65536" "unat b < 65536" using unsigned_less [of a] unsigned_less [of b] by simp_all
  then show ?thesis by (simp add: unat_word_ariths unsigned_ucast_eq take_bit_nat_eq_self)
qed

lemma unat_overflow: "unat (ucast TICK_COUNT_OVERFLOW :: u32) = 65532"
  by (simp add: config)

lemma sum_overflow: "(ucast (a :: u16) + ucast (b :: u16) :: u32) \<ge> ucast TICK_COUNT_OVERFLOW \<longleftrightarrow> 65532 \<le> unat a + unat b"
  by (simp only: word_le_nat_alt unat_sum unat_overflow)

lemma unat_sum_low:
  assumes "unat a + unat b < 65532"
  shows "unat (ucast (ucast (a :: u16) + ucast (b :: u16) :: u32) :: u16) = unat a + unat b"
  using assms by (simp only: unsigned_ucast_eq unat_sum) (simp add: take_bit_nat_eq_self)

lemma unat_sum_high:
  assumes "65532 \<le> unat a + unat b" "unat a < 65532"
  shows "unat (ucast (ucast (a :: u16) + ucast (b :: u16) - ucast TICK_COUNT_OVERFLOW :: u32) :: u16) = unat a + unat b - 65532"
proof -
  have "unat b < 65536" using unsigned_less [of b] by simp
  moreover have "unat (ucast a + ucast b - ucast TICK_COUNT_OVERFLOW :: u32) = unat a + unat b - 65532"
    using assms(1) by (subst unat_sub) (simp_all only: sum_overflow unat_sum unat_overflow)
  ultimately show ?thesis using assms(2) by (simp only: unsigned_ucast_eq) (simp add: take_bit_nat_eq_self)
qed

lemma OSGetTickCount_fst [simp]: "fst (OSGetTickCount k) = OSTickCounter k" "OSTickCounter (snd (OSGetTickCount k)) = OSTickCounter k"
  by (simp_all add: OSGetTickCount_def Let_def)


subsection \<open>Starting a timer\<close>

definition idle_timer :: "nat \<Rightarrow> timer_vector \<Rightarrow> bool" where
  "idle_timer p v \<longleftrightarrow> p < 8 \<and> (\<forall>w. p \<notin> members (tlist v w)) \<and> func_cb (mem v p) \<noteq> NULL"

lemma add_timer:
  assumes v: "timers_ok v" "load v < 7" and p: "idle_timer p v"
  obtains l' where "insert_timer p w (upd_timer p (\<lambda>b. b\<lparr>timeout := T\<rparr>) v) =
      Some (put_list w l' (upd_timer p (\<lambda>b. b\<lparr>timeout := T\<rparr>) v))"
    "members l' = insert p (members (tlist v w))" "unat (count l') = Suc (unat (count (tlist v w)))"
    "timers_ok (upd_timer p (\<lambda>b. b\<lparr>state := TIMER_RUNNING\<rparr>) (put_list w l' (upd_timer p (\<lambda>b. b\<lparr>timeout := T\<rparr>) v)))"
proof -
  define v0 where "v0 = upd_timer p (\<lambda>b. b\<lparr>timeout := T\<rparr>) v"
  have p': "p < 8" "p \<notin> members (tlist v u)" "func_cb (mem v p) \<noteq> NULL" for u using p by (simp_all add: idle_timer_def)
  have l0: "list_ok (mem v0) (tlist v0 u)" for u
  proof (rule list_ok_cong [of "mem v"])
    show "list_ok (mem v) (tlist v0 u)" using timers_okD(2) [OF v(1)] by (simp add: v0_def)
    fix q assume "q \<in> members (tlist v0 u)"
    then have "q \<noteq> p" using p'(2) [of u] by (auto simp: v0_def)
    then show "timeout (mem v0 q) = timeout (mem v q)" by (simp add: v0_def)
  qed
  have "unat (count (tlist v0 w)) < 7" using v(2) by (cases w) (simp_all add: load_def v0_def)
  moreover have "p \<notin> members (tlist v0 w)" using p'(2) by (simp add: v0_def)
  ultimately obtain l' where l': "insert_timer p w v0 = Some (put_list w l' v0)" "list_ok (mem v0) l'"
    "members l' = insert p (members (tlist v0 w))" "unat (count l') = Suc (unat (count (tlist v0 w)))"
    using insert_timer_ok [OF l0 _ p'(1)] by blast
  define v1 where "v1 = upd_timer p (\<lambda>b. b\<lparr>state := TIMER_RUNNING\<rparr>) (put_list w l' v0)"
  have ml: "members l' = insert p (members (tlist v w))" using l'(3) by (simp add: v0_def)
  have t1: "timeout (mem v1 q) = timeout (mem v0 q)" for q by (simp add: v1_def)
  have lok: "list_ok (mem v1) (tlist v1 u)" for u
  proof (cases "u = w")
    case True
    then show ?thesis using list_ok_cong [OF l'(2), of "mem v1"] t1 by (simp add: v1_def)
  next
    case False
    then show ?thesis using list_ok_cong [OF l0 [of u], of "mem v1"] t1 by (simp add: v1_def v0_def)
  qed
  have "timers_ok v1"
  proof (rule timers_okI [OF _ lok])
    show "current v1 \<noteq> future v1" using timers_okD(1) [OF v(1)] by (simp add: v1_def v0_def)
    show "q \<notin> members (tlist v1 (future v1))" if "q \<in> members (tlist v1 (current v1))" for q
      using that timers_okD(1,3) [OF v(1)] p'(2) ml by (auto simp: v1_def v0_def split: if_splits)
    show "state (mem v1 q) = TIMER_RUNNING \<and> func_cb (mem v1 q) \<noteq> NULL" if "q \<in> members (tlist v1 u)" for u q
      using that timers_okD(4,5) [OF v(1)] p'(3) ml by (auto simp: v1_def v0_def split: if_splits)
  qed
  then show thesis using that [of l'] l'(1,4) ml by (simp add: v0_def v1_def)
qed

lemma run_timer_ok:
  fixes w :: u16
  assumes v: "timers_ok v" "load v < 7" and p: "idle_timer p v" and k: "unat (OSTickCounter k) < 65532"
    and h: "unat (handling_task v) \<le> NUMBER_OF_TASKS"
  defines "dest \<equiv> (if unat (OSTickCounter k) + unat w < 65532 then current v else future v)"
  obtains k' v' where "run_timer p w k v = Some (k', v')" "timers_ok v'" "OSTickCounter k' = OSTickCounter k"
    "members (tlist v' dest) = insert p (members (tlist v dest))" "\<And>u. u \<noteq> dest \<Longrightarrow> tlist v' u = tlist v u"
    "unat (timeout (mem v' p)) = (if unat (OSTickCounter k) + unat w < 65532 then unat (OSTickCounter k) + unat w
       else unat (OSTickCounter k) + unat w - 65532)"
    "\<And>q. q \<noteq> p \<Longrightarrow> mem v' q = mem v q" "current v' = current v" "future v' = future v" "load v' = Suc (load v)"
    "state (mem v' p) = TIMER_RUNNING" "iNesting k' = iNesting k" "core k' = core k \<or> (\<exists>t. core k' = core (upd_task t (\<lambda>c. c\<lparr>TimeToWait := timeout (mem v' p)\<rparr>) k))"
    "currentTask k' = currentTask k"
proof -
  define t where "t = (ucast (OSTickCounter k) + ucast w :: u32)"
  have big: "t \<ge> ucast TICK_COUNT_OVERFLOW \<longleftrightarrow> \<not> unat (OSTickCounter k) + unat w < 65532"
    unfolding t_def sum_overflow by linarith
  define T :: u16 where "T = (if t \<ge> ucast TICK_COUNT_OVERFLOW then ucast (t - ucast TICK_COUNT_OVERFLOW) else ucast t)"
  have T: "unat T = (if unat (OSTickCounter k) + unat w < 65532 then unat (OSTickCounter k) + unat w
       else unat (OSTickCounter k) + unat w - 65532)"
  proof (cases "unat (OSTickCounter k) + unat w < 65532")
    case True
    then show ?thesis using unat_sum_low [OF True] big by (simp add: T_def t_def)
  next
    case False
    then have "65532 \<le> unat (OSTickCounter k) + unat w" by simp
    then show ?thesis using unat_sum_high [OF _ k] False big by (simp only: T_def t_def simp_thms if_True if_False)
  qed
  define v0 where "v0 = upd_timer p (\<lambda>b. b\<lparr>timeout := T\<rparr>) v"
  obtain l' where l': "insert_timer p dest v0 = Some (put_list dest l' v0)"
    "members l' = insert p (members (tlist v dest))" "unat (count l') = Suc (unat (count (tlist v dest)))"
    "timers_ok (upd_timer p (\<lambda>b. b\<lparr>state := TIMER_RUNNING\<rparr>) (put_list dest l' v0))"
    unfolding v0_def by (rule add_timer [OF v p]) blast
  define v1 where "v1 = put_list dest l' v0"
  define v' where "v' = upd_timer p (\<lambda>b. b\<lparr>state := TIMER_RUNNING\<rparr>) v1"
  have ok: "timers_ok v'" using l'(4) by (simp add: v'_def v1_def)
  obtain k' where run: "run_timer p w k v = Some (k', v')" and k': "k' = k \<or> (\<exists>t. k' = upd_task t (\<lambda>c. c\<lparr>TimeToWait := T\<rparr>) k)"
  proof (cases "unat (OSTickCounter k) + unat w < 65532")
    case False
    have "run_timer p w k v = Some (k, v')"
      using l'(1) False big [unfolded t_def]
      by (simp add: run_timer_def OSGetCount_def Let_def T_def t_def v0_def dest_def v'_def v1_def)
    then show thesis using that by blast
  next
    case True
    have d: "dest = current v" using True by (simp add: dest_def)
    have ne: "\<not> t \<ge> ucast TICK_COUNT_OVERFLOW" using big True by simp
    have "p \<in> members (tlist v' (current v))" using l'(2) by (simp add: v'_def v1_def d)
    then have "members (tlist v' (current v)) \<noteq> {}" by blast
    then obtain q where "first_timer (current v) v' = Some q"
      using first_timer_empty(2) [OF timers_okD(2) [OF ok]] by blast
    then have q: "first_timer (current v1) v1 = Some q" by (simp add: v'_def v1_def v0_def)
    have ins: "insert_timer p (current v) (upd_timer p (\<lambda>b. b\<lparr>timeout := ucast t\<rparr>) v) = Some v1"
      using l'(1) ne by (simp add: v0_def T_def d v1_def)
    have tp: "timeout (mem v1 p) = T" by (simp add: v1_def v0_def)
    have hd: "task_at (unat (handling_task v1)) k \<noteq> None" using h by (simp add: task_at_def v1_def v0_def)
    have "run_timer p w k v = do {
        k1 \<leftarrow> (if currentTask k \<noteq> 0 then
          (if timeout (mem v1 p) = timeout (mem v1 q)
           then Some (upd_task (unat (handling_task v1)) (\<lambda>c. c\<lparr>TimeToWait := T\<rparr>) k) else Some k)
          else Some k);
        Some (k1, v') }"
      using ins q ne hd by (simp add: run_timer_def OSGetCount_def Let_def t_def [symmetric] v'_def tp [symmetric] del: upd_timer_simps)
        (auto simp: tp)
    then show thesis using that by (auto split: if_splits)
  qed
  show thesis
  proof (rule that [OF run ok])
    show "load v' = Suc (load v)" using l'(3) by (cases dest) (simp_all add: load_def v'_def v1_def v0_def)
    show "core k' = core k \<or> (\<exists>t. core k' = core (upd_task t (\<lambda>c. c\<lparr>TimeToWait := timeout (mem v' p)\<rparr>) k))"
      using k' by (auto simp: v'_def v1_def v0_def)
  qed (use k' l' T in \<open>auto simp: v'_def v1_def v0_def upd_task_def\<close>)
qed


text \<open>
  Starting a timer that does not run puts it into the list of the cycle in which it expires, keeps
  both lists ordered, touches no other timer, and the remaining time read back at once is the time asked
  for, cut to the longest the counter can express.
\<close>

theorem OSTimerStart_then_Get:
  assumes "timers_ok v" "load v < 7" "idle_timer p v" "unat (OSTickCounter k) < 65532"
    "unat (handling_task v) \<le> NUMBER_OF_TASKS" "w \<noteq> 0"
  shows "\<exists>k' v' k''. OSTimerStart (Some p) w k v = Some (OK, k', v') \<and> timers_ok v' \<and>
    load v' = Suc (load v) \<and> (\<forall>q. q \<noteq> p \<longrightarrow> mem v' q = mem v q) \<and>
    p \<in> members (tlist v' (if unat (OSTickCounter k) + unat (min w TIMER_MAX_COUNTER) < 65532 then current v' else future v')) \<and>
    OSTimerGet (Some p) k' v' = Some (min w TIMER_MAX_COUNTER, k'')"
proof -
  define w1 where "w1 = min w TIMER_MAX_COUNTER"
  define k1 where "k1 = EnterCritical_if_task k"
  have tk: "OSTickCounter k1 = OSTickCounter k" by (simp add: k1_def)
  have max: "unat TIMER_MAX_COUNTER = 65531" by (simp add: TIMER_MAX_COUNTER_def config)
  have w1: "(if w > TIMER_MAX_COUNTER then TIMER_MAX_COUNTER else w) = w1" "unat w1 \<le> 65531"
    using max by (auto simp: w1_def min_def word_le_nat_alt word_less_nat_alt)
  have p8: "p < 8" using assms(3) by (simp add: idle_timer_def)
  obtain k2 v' where run: "run_timer p w1 k1 v = Some (k2, v')" "timers_ok v'" "OSTickCounter k2 = OSTickCounter k1"
    "members (tlist v' (if unat (OSTickCounter k1) + unat w1 < 65532 then current v else future v)) =
      insert p (members (tlist v (if unat (OSTickCounter k1) + unat w1 < 65532 then current v else future v)))"
    "unat (timeout (mem v' p)) = (if unat (OSTickCounter k1) + unat w1 < 65532 then unat (OSTickCounter k1) + unat w1
       else unat (OSTickCounter k1) + unat w1 - 65532)"
    "\<And>q. q \<noteq> p \<Longrightarrow> mem v' q = mem v q" "current v' = current v" "future v' = future v" "load v' = Suc (load v)"
    "state (mem v' p) = TIMER_RUNNING"
    by (rule run_timer_ok [OF assms(1-3), of k1 w1]) (use assms(4,5) tk in auto)
  define k' where "k' = ExitCritical_if_task k2"
  have start: "OSTimerStart (Some p) w k v = Some (OK, k', v')"
    using assms(6) w1(1) run(1) p8 by (simp add: OSTimerStart_def Let_def k1_def [symmetric] k'_def BRTOS_MAX_TIMER_def)
  define c where "c = OSTickCounter k"
  have tk': "OSTickCounter (EnterCritical_if_task k') = c" using run(3) tk by (simp add: k'_def c_def)
  define T where "T = timeout (mem v' p)"
  have T: "unat T = (if unat c + unat w1 < 65532 then unat c + unat w1 else unat c + unat w1 - 65532)"
    using run(5) tk by (simp add: T_def c_def)
  have rest: "(if T \<ge> c then T - c else TIMER_MAX_COUNTER - c + T + 1) = w1"
  proof (cases "unat c + unat w1 < 65532")
    case True
    then have "T = c + w1" using T unat_add_lem [of c w1] by (simp add: word_unat_eq_iff unat_word_ariths)
    moreover have "T \<ge> c" using T True by (simp add: word_le_nat_alt)
    ultimately show ?thesis by simp
  next
    case False
    then have "\<not> T \<ge> c" using T w1(2) assms(4) by (simp add: word_le_nat_alt c_def)
    moreover have "T = c + w1 - 65532"
    proof -
      have "unat T + 65532 = unat c + unat w1" using T False by simp
      then have "(word_of_nat (unat T + 65532) :: u16) = word_of_nat (unat c + unat w1)" by simp
      then have "T + 65532 = c + w1" by simp
      then show ?thesis by (simp add: eq_diff_eq)
    qed
    ultimately show ?thesis by (simp add: TIMER_MAX_COUNTER_def config)
  qed
  have "OSTimerGet (Some p) k' v' = Some (if T \<ge> c then T - c else TIMER_MAX_COUNTER - c + T + 1,
      ExitCritical_if_task (EnterCritical_if_task k'))"
    using p8 run(10) tk' by (simp add: OSTimerGet_def Let_def OSGetCount_def BRTOS_MAX_TIMER_def T_def)
  then have "OSTimerGet (Some p) k' v' = Some (w1, ExitCritical_if_task (EnterCritical_if_task k'))" unfolding rest .
  moreover have "p \<in> members (tlist v' (if unat c + unat w1 < 65532 then current v' else future v'))"
    unfolding run(7,8) c_def tk [symmetric] run(4) by simp
  ultimately show ?thesis using start run(2,6,9) unfolding w1_def c_def by blast
qed

subsection \<open>Stopping a timer\<close>

lemma sint_small:
  assumes "unat (c :: u8) < 8"
  shows "int n \<le> sint c \<longleftrightarrow> n \<le> unat c"
proof -
  have "c \<in> {0, 1, 2, 3, 4, 5, 6, 7}" using assms by (simp add: word_unat_eq_iff) arith
  then show ?thesis by auto
qed

lemma find_marked_finds:
  assumes f: "filled (timers l) (unat (count l))" and i0: "timers l i0 = Some p" "i0 \<le> unat (count l)"
    and marked: "state (m p) = TIMER_SEARCH" "\<And>q. q \<in> members l \<Longrightarrow> q \<noteq> p \<Longrightarrow> state (m q) \<noteq> TIMER_SEARCH"
    and i: "1 \<le> unat i" "unat i \<le> i0"
  shows "\<exists>j. find_marked m l i = Some j \<and> unat j = i0"
  using i
proof (induction "i0 - unat i" arbitrary: i)
  case 0
  then have i: "unat i = i0" by simp
  have n8: "unat (count l) < 8" using f by (simp add: filled_def)
  have "int (unat i) \<le> sint (count l)" unfolding sint_small [OF n8] using i i0(2) by simp
  moreover have "entry (timers l) i = Some p" using i i0 n8 by (simp add: entry_def BRTOS_MAX_TIMER_def)
  ultimately show ?case using i marked(1) by (simp add: find_marked.simps [of m l i])
next
  case (Suc d)
  have n8: "unat (count l) < 8" using f by (simp add: filled_def)
  have le: "unat i < i0" using Suc.hyps(2) by simp
  obtain q where q: "timers l (unat i) = Some q" by (rule filledD [OF f Suc.prems(1)]) (use le i0(2) in auto)
  have "q \<in> members l" using membersI [OF q Suc.prems(1)] le i0(2) by simp
  moreover have "q \<noteq> p"
    using f q i0 le Suc.prems(1) inj_onD [of "timers l" "{1..unat (count l)}" "unat i" i0] by (auto simp: filled_def)
  ultimately have "state (m q) \<noteq> TIMER_SEARCH" by (rule marked(2))
  moreover have "int (unat i) \<le> sint (count l)" unfolding sint_small [OF n8] using le i0(2) by simp
  moreover have "entry (timers l) i = Some q" using q le i0 n8 by (simp add: entry_def BRTOS_MAX_TIMER_def)
  ultimately have eq: "find_marked m l i = find_marked m l (i + 1)" by (simp add: find_marked.simps [of m l i])
  have u: "unat (i + 1) = Suc (unat i)" using le i0(2) n8 by (intro unat_inc_u8) simp
  show ?case unfolding eq by (rule Suc.hyps(1)) (use Suc.hyps(2) le u in simp_all)
qed

text \<open>A key made smaller.\<close>

lemma order_up_cong:
  assumes "order_up f n j" "j \<le> n" "\<And>i. 1 \<le> i \<Longrightarrow> i \<le> n \<Longrightarrow> g i = f i"
  shows "order_up g n j"
  unfolding order_up_def
proof (intro conjI allI impI)
  fix i assume i: "2 \<le> i" "i \<le> n" "i \<noteq> j"
  then have "g (i div 2) = f (i div 2)" "g i = f i" using assms(3) [of i] assms(3) [of "i div 2"] by auto
  then show "g (i div 2) \<le> g i" using assms(1) i unfolding order_up_def by simp
next
  fix i assume i: "2 \<le> j" "i \<le> n" "i div 2 = j"
  then have "g (j div 2) = f (j div 2)" "g i = f i"
    using assms(2) assms(3) [of i] assms(3) [of "j div 2"] by auto
  then show "g (j div 2) \<le> g i" using assms(1) i unfolding order_up_def by simp
qed

lemma order_up_decrease:
  assumes "heap_order f n" "1 \<le> j" "j \<le> n" "\<And>i. i \<noteq> j \<Longrightarrow> g i = f i" "g j \<le> f j"
  shows "order_up g n j"
proof -
  have o: "f (i div 2) \<le> f i" if "2 \<le> i" "i \<le> n" for i using assms(1) that by (simp add: heap_order_def)
  have le: "g i \<le> f i" for i using assms(4,5) by (cases "i = j") simp_all
  show ?thesis
    unfolding order_up_def
  proof (intro conjI allI impI)
    fix i assume i: "2 \<le> i" "i \<le> n" "i \<noteq> j"
    have "g (i div 2) \<le> f (i div 2)" by (rule le)
    also have "\<dots> \<le> f i" by (rule o [OF i(1,2)])
    finally show "g (i div 2) \<le> g i" using assms(4) i(3) by simp
  next
    fix i assume i: "2 \<le> j" "i \<le> n" "i div 2 = j"
    then have "2 \<le> i" "i \<noteq> j" by linarith+
    have "g (j div 2) \<le> f (j div 2)" by (rule le)
    also have "\<dots> \<le> f j" by (rule o [OF i(1) assms(3)])
    also have "\<dots> \<le> f i" using o [OF \<open>2 \<le> i\<close> i(2)] i(3) by simp
    finally show "g (j div 2) \<le> g i" using assms(4) \<open>i \<noteq> j\<close> by simp
  qed
qed

subsection \<open>A pass over the expired timers\<close>

text \<open>Callbacks that return within the tick and leave the timers to the task.\<close>

definition well_behaved :: "(nat \<Rightarrow> callback) \<Rightarrow> bool" where
  "well_behaved cb \<longleftrightarrow> (\<forall>f k v. OSTickCounter (fst (snd (cb f (k, v)))) = OSTickCounter k \<and> snd (snd (cb f (k, v))) = v)"

text \<open>What becomes of a timer \<open>p\<close> of list \<open>w\<close> whose callback, run at \<open>now\<close>, answers \<open>r\<close>.\<close>

definition outcome :: "u16 \<Rightarrow> u16 \<Rightarrow> nat \<Rightarrow> which \<Rightarrow> timer_vector \<Rightarrow> bool" where
  "outcome now r p w v \<longleftrightarrow>
    (if r = 0 then state (mem v p) = TIMER_NOT_ALLOCATED \<and> (\<forall>u. p \<notin> members (tlist v u))
     else if unat now + unat r < 65532 then p \<in> members (tlist v w) \<and> unat (timeout (mem v p)) = unat now + unat r
     else p \<in> members (tlist v (future v)) \<and> unat (timeout (mem v p)) = unat now + unat r - 65532)"

lemma outcome_cong:
  "outcome now r p w v \<Longrightarrow> mem v' p = mem v p \<Longrightarrow> future v' = future v \<Longrightarrow>
   \<forall>u. p \<in> members (tlist v' u) \<longleftrightarrow> p \<in> members (tlist v u) \<Longrightarrow> outcome now r p w v'"
  by (simp add: outcome_def)

text \<open>Only \<open>p\<close> may differ.\<close>

definition others_same :: "nat \<Rightarrow> timer_vector \<Rightarrow> timer_vector \<Rightarrow> bool" where
  "others_same p v v' \<longleftrightarrow> current v' = current v \<and> future v' = future v \<and>
     (\<forall>q. q \<noteq> p \<longrightarrow> mem v' q = mem v q \<and> (\<forall>u. q \<in> members (tlist v' u) \<longleftrightarrow> q \<in> members (tlist v u)))"

lemma others_same_ok:
  assumes "timers_ok v" "others_same p v v'" "\<And>u. list_ok (mem v') (tlist v' u)"
    "\<And>u. p \<in> members (tlist v' u) \<Longrightarrow> state (mem v' p) = TIMER_RUNNING \<and> func_cb (mem v' p) \<noteq> NULL"
    "p \<in> members (tlist v' (current v)) \<Longrightarrow> p \<notin> members (tlist v' (future v))"
  shows "timers_ok v'"
proof (rule timers_okI [OF _ assms(3)])
  note o = assms(2) [unfolded others_same_def]
  show "current v' \<noteq> future v'" using o timers_okD(1) [OF assms(1)] by simp
  show "q \<notin> members (tlist v' (future v'))" if "q \<in> members (tlist v' (current v'))" for q
    using that o assms(5) timers_okD(1,3) [OF assms(1)] by (cases "q = p") auto
  show "state (mem v' q) = TIMER_RUNNING \<and> func_cb (mem v' q) \<noteq> NULL" if "q \<in> members (tlist v' u)" for u q
    using that o assms(4) timers_okD(4,5) [OF assms(1)] by (cases "q = p") auto
qed

lemma list_ok_other:
  assumes "timers_ok v" "p \<in> members (tlist v w)" "u \<noteq> w" "\<And>q. q \<noteq> p \<Longrightarrow> m q = mem v q"
  shows "list_ok m (tlist v u)"
proof (rule list_ok_cong [OF timers_okD(2) [OF assms(1)]])
  fix q assume "q \<in> members (tlist v u)"
  moreover have "p \<notin> members (tlist v u)" using timers_okD(3) [OF assms(1) _ assms(2), of u] assms(3) by blast
  ultimately have "q \<noteq> p" by blast
  then show "timeout (m q) = timeout (mem v q)" using assms(4) by simp
qed

text \<open>A timer that is given the instant 0 comes first, when the other instants are later.\<close>

lemma stop_brings_first:
  assumes v: "timers_ok v" and p: "p \<in> members (tlist v w)" and least: "\<forall>q \<in> members (tlist v w). q \<noteq> p \<longrightarrow> timeout (mem v q) > 0"
  defines "v1 \<equiv> upd_timer p (\<lambda>b. b\<lparr>state := TIMER_SEARCH\<rparr>) v" and "v2 \<equiv> upd_timer p (\<lambda>b. b\<lparr>state := TIMER_SEARCH, timeout := 0\<rparr>) v"
  obtains pos us where "find_marked (mem v1) (tlist v w) 1 = Some pos" "Subir (mem v2) (timers (tlist v w)) pos = Some us"
    "list_ok (mem v2) ((tlist v w)\<lparr>timers := us\<rparr>)" "members ((tlist v w)\<lparr>timers := us\<rparr>) = members (tlist v w)"
    "first_timer w (put_list w ((tlist v w)\<lparr>timers := us\<rparr>) v2) = Some p"
proof -
  let ?l = "tlist v w"
  define n where "n = unat (count ?l)"
  note l = timers_okD(2) [OF v, of w]
  note o = list_okD [OF l, folded n_def]
  obtain i0 where i0: "1 \<le> i0" "i0 \<le> n" "timers ?l i0 = Some p" using p unfolding n_def by (rule membersE)
  have "state (mem v1 q) \<noteq> TIMER_SEARCH" if "q \<in> members ?l" "q \<noteq> p" for q
    using timers_okD(4) [OF v that(1)] that(2) by (simp add: v1_def)
  then obtain pos where pos: "find_marked (mem v1) ?l 1 = Some pos" "unat pos = i0"
    using find_marked_finds [OF o(1) [unfolded n_def] i0(3) i0(2) [unfolded n_def], of "mem v1" 1] i0(1)
    by (auto simp: v1_def)
  have kp: "key (mem v2) (timers ?l) i = (if i = i0 then 0 else key (mem v) (timers ?l) i)" if i: "1 \<le> i" "i \<le> n" for i
  proof (cases "i = i0")
    case False
    then have "timers ?l i \<noteq> timers ?l i0"
      using o(1) i0(1,2) i inj_onD [of "timers ?l" "{1..n}" i i0] by (auto simp: filled_def)
    moreover obtain q where "timers ?l i = Some q" by (rule filledD [OF o(1) i])
    ultimately show ?thesis using False i0(3) by (simp add: key_def v2_def)
  qed (use i0(3) in \<open>simp add: key_def v2_def\<close>)
  define g where "g i = (if i = i0 then 0 else key (mem v) (timers ?l) i)" for i
  have "order_up g n i0" by (rule order_up_decrease [OF o(3) i0(1,2)]) (simp_all add: g_def)
  then have "order_up (key (mem v2) (timers ?l)) n (unat pos)"
    unfolding pos(2) by (rule order_up_cong [OF _ i0(2)]) (use kp in \<open>simp add: g_def\<close>)
  then obtain us where us: "Subir (mem v2) (timers ?l) pos = Some us" "reordered (timers ?l) us n" "heap_order (key (mem v2) us) n"
    using Subir_order [OF o(1)] i0(1,2) pos(2) by blast
  let ?l3 = "?l\<lparr>timers := us\<rparr>" let ?v3 = "put_list w ?l3 v2"
  have l3: "list_ok (mem v2) ?l3" using us(2,3) o(2) by (simp add: list_ok_def n_def [symmetric] reordered_def)
  have m3: "members ?l3 = members ?l" using us(2) by (simp add: members_def n_def [symmetric] reordered_def)
  have l3': "list_ok (mem ?v3) (tlist ?v3 w)" "members (tlist ?v3 w) = members ?l" using l3 m3 by simp_all
  have "members (tlist ?v3 w) \<noteq> {}" using p l3'(2) by blast
  then obtain r where r: "first_timer w ?v3 = Some r" using first_timer_empty(2) [OF l3'(1)] by blast
  have "r \<in> members ?l" "timeout (mem ?v3 r) \<le> timeout (mem ?v3 p)" using first_timer_least [OF l3'(1) r] p l3'(2) by auto
  moreover have "timeout (mem ?v3 p) = 0" by (simp add: v2_def)
  moreover have "timeout (mem ?v3 r) = timeout (mem v r)" if "r \<noteq> p" using that by (simp add: v2_def)
  ultimately have "r = p" using least by force
  then show thesis using that [OF pos(1) us(1) l3 m3] r by simp
qed

text \<open>
  C25. Stopping a running timer takes exactly this timer out of its list, keeps both lists ordered and
  leaves every other timer as it was, under two conditions the code relies on. No other timer of the list expires
  at instant 0: the stop works by giving the timer the instant 0 and taking out the first. And the timer is in the
  list the code looks in, which is this cycle's when its instant has not passed and the next's otherwise, so that a
  timer whose instant has passed and that has not been run yet is not found.
\<close>

theorem OSTimerStop_removes:
  assumes "timers_ok v" "p \<in> members (tlist v w)" "w = (if timeout (mem v p) \<ge> OSTickCounter k then current v else future v)"
    "\<forall>q \<in> members (tlist v w). q \<noteq> p \<longrightarrow> timeout (mem v q) > 0"
  shows "\<exists>k' v'. OSTimerStop (Some p) del k v = Some (OK, k', v') \<and> timers_ok v' \<and>
    members (tlist v' w) = members (tlist v w) - {p} \<and> (\<forall>u. u \<noteq> w \<longrightarrow> tlist v' u = tlist v u) \<and>
    (\<forall>q. q \<noteq> p \<longrightarrow> mem v' q = mem v q) \<and>
    state (mem v' p) = (if del > 0 then TIMER_NOT_ALLOCATED else TIMER_STOPPED) \<and> core k' = core k"
proof -
  let ?l = "tlist v w" and ?k = "EnterCritical_if_task k"
  note l = timers_okD(2) [OF assms(1), of w]
  have p8: "p < 8" by (rule members_bound [OF l assms(2)])
  define v1 where "v1 = upd_timer p (\<lambda>b. b\<lparr>state := TIMER_SEARCH\<rparr>) v"
  define v2 where "v2 = upd_timer p (\<lambda>b. b\<lparr>state := TIMER_SEARCH, timeout := 0\<rparr>) v"
  have v12: "upd_timer p (\<lambda>b. b\<lparr>timeout := 0\<rparr>) v1 = v2" by (simp add: v1_def v2_def upd_timer_def)
  have l12: "tlist v1 = tlist v" "tlist v2 = tlist v" by (simp_all add: v1_def v2_def)
  obtain pos us where us: "find_marked (mem v1) ?l 1 = Some pos" "Subir (mem v2) (timers ?l) pos = Some us"
    "list_ok (mem v2) (?l\<lparr>timers := us\<rparr>)" "members (?l\<lparr>timers := us\<rparr>) = members ?l" "first_timer w (put_list w (?l\<lparr>timers := us\<rparr>) v2) = Some p"
    unfolding v1_def v2_def by (rule stop_brings_first [OF assms(1,2,4)])
  define v3 where "v3 = put_list w (?l\<lparr>timers := us\<rparr>) v2"
  have l3: "list_ok (mem v3) (tlist v3 w)" "members (tlist v3 w) = members ?l" using us(3,4) by (simp_all add: v3_def)
  obtain l4 l5 where l45: "remove_first w v3 = Some (put_list w l4 v3)"
    "order_first w (put_list w l4 v3) = Some (put_list w l5 v3)" "list_ok (mem v3) l5" "members l5 = members ?l - {p}"
    using pop_first_ok [OF l3(1), of p] us(5) unfolding v3_def [symmetric] l3(2) by blast
  define v6 where "v6 = (if del > 0 then upd_timer p (\<lambda>b. b\<lparr>state := TIMER_NOT_ALLOCATED, func_cb := NULL\<rparr>) (put_list w l5 v3)
    else upd_timer p (\<lambda>b. b\<lparr>state := TIMER_STOPPED\<rparr>) (put_list w l5 v3))"
  have w: "(if OSTickCounter k \<le> timeout (mem v p) then current v else future v) = w" using assms(3) by simp
  have run: "OSTimerStop (Some p) del k v = Some (OK, ExitCritical_if_task ?k, v6)"
    using p8
    by (simp add: OSTimerStop_def Let_def OSGetCount_def BRTOS_MAX_TIMER_def w v1_def [symmetric] v12 l12 us(1,2) v3_def [symmetric] l45(1,2) v6_def
      del: upd_timer_simps put_list_simps)
  have f6: "tlist v6 = (tlist v)(w := l5)" "\<And>q. q \<noteq> p \<Longrightarrow> mem v6 q = mem v q" "current v6 = current v" "future v6 = future v"
    by (simp_all add: v6_def v3_def v2_def)
  have np: "p \<notin> members (tlist v6 u)" for u
    using timers_okD(3) [OF assms(1) _ assms(2), of u] l45(4) by (cases "u = w") (auto simp: f6(1))
  have "list_ok (mem v6) l5" by (rule list_ok_cong [OF l45(3)]) (use f6(2) l45(4) in \<open>auto simp: v3_def v2_def\<close>)
  then have "list_ok (mem v6) (tlist v6 u)" for u using list_ok_other [OF assms(1,2), of u "mem v6"] f6 by (cases "u = w") auto
  moreover have "others_same p v v6" using f6 l45(4) by (auto simp: others_same_def)
  ultimately have "timers_ok v6" using others_same_ok [OF assms(1)] np by blast
  moreover have "state (mem v6 p) = (if del > 0 then TIMER_NOT_ALLOCATED else TIMER_STOPPED)" by (simp add: v6_def)
  ultimately show ?thesis
    using run f6(1,2) l45(4) by (intro exI [of _ "ExitCritical_if_task ?k"] exI [of _ v6]) simp
qed

lemma retire_ok:
  assumes v: "timers_ok v" and p: "first_timer w v = Some p"
  obtains v1 v2 where "retire p w v = Some v1" "order_first w v1 = Some v2" "timers_ok v2" "others_same p v v2"
    "\<And>u. p \<notin> members (tlist v2 u)" "state (mem v2 p) = TIMER_NOT_ALLOCATED" "Suc (load v2) = load v"
proof -
  note l = timers_okD(2) [OF v, of w]
  have pm: "p \<in> members (tlist v w)" by (rule first_timer_least(1) [OF l p])
  define v0 where "v0 = upd_timer p (\<lambda>b. b\<lparr>timeout := 0, state := TIMER_NOT_ALLOCATED, func_cb := NULL\<rparr>) v"
  have l0: "list_ok (mem v) (tlist v0 w)" "first_timer w v0 = Some p" using l p by (simp_all add: v0_def)
  obtain l1 l2 where pop: "remove_first w v0 = Some (put_list w l1 v0)"
    "order_first w (put_list w l1 v0) = Some (put_list w l2 v0)" "list_ok (mem v0) l2"
    "members l2 = members (tlist v0 w) - {p}" "Suc (unat (count l2)) = unat (count (tlist v0 w))"
    by (rule pop_first_ok [OF l0]) (auto simp: v0_def)
  define v2 where "v2 = put_list w l2 v0"
  have f: "tlist v2 = (tlist v)(w := l2)" "\<And>q. q \<noteq> p \<Longrightarrow> mem v2 q = mem v q" "current v2 = current v" "future v2 = future v"
    by (simp_all add: v2_def v0_def)
  have m2: "members l2 = members (tlist v w) - {p}" using pop(4) by (simp add: v0_def)
  have os: "others_same p v v2" using f m2 by (auto simp: others_same_def)
  have np: "p \<notin> members (tlist v2 u)" for u
    using timers_okD(3) [OF v _ pm, of u] m2 by (cases "u = w") (auto simp: f(1))
  have "list_ok (mem v2) (tlist v2 u)" for u
  proof (cases "u = w")
    case True
    then show ?thesis using pop(3) by (simp add: v2_def)
  next
    case False
    then show ?thesis using list_ok_other [OF v pm False] f(2) by (simp add: f(1))
  qed
  then have ok: "timers_ok v2" using others_same_ok [OF v os] np by blast
  have "Suc (load v2) = load v"
    using pop(5) by (cases w) (simp_all add: load_def f(1) v0_def)
  then show thesis
    using that [of "put_list w l1 v0" v2] pop(1,2) ok os np by (simp add: retire_def v0_def v2_def)
qed

lemma defer_ok:
  assumes v: "timers_ok v" "load v \<le> 7" and p: "first_timer (current v) v = Some p"
  obtains v1 v2 v3 where "insert_timer p (future v) (upd_timer p (\<lambda>b. b\<lparr>timeout := T\<rparr>) v) = Some v1"
    "remove_first (current v) v1 = Some v2" "order_first (current v) v2 = Some v3" "timers_ok v3" "others_same p v v3"
    "p \<in> members (tlist v3 (future v))" "p \<notin> members (tlist v3 (current v))" "timeout (mem v3 p) = T" "load v3 = load v"
proof -
  note cf = timers_okD(1) [OF v(1)]
  note l = timers_okD(2) [OF v(1), of "current v"]
  have pm: "p \<in> members (tlist v (current v))" by (rule first_timer_least(1) [OF l p])
  define v0 where "v0 = upd_timer p (\<lambda>b. b\<lparr>timeout := T\<rparr>) v"
  have lf: "list_ok (mem v0) (tlist v0 (future v))"
    using list_ok_other [OF v(1) pm, of "future v" "mem v0"] cf by (simp add: v0_def)
  have c: "unat (count (tlist v (current v))) \<noteq> 0" using first_timer_empty(1) [OF l] p by simp
  then have nf: "unat (count (tlist v0 (future v))) < 7" using v(2) load_eq [OF cf] by (simp add: v0_def)
  have p8: "p < 8" by (rule members_bound [OF l pm])
  have pf: "p \<notin> members (tlist v0 (future v))" using timers_okD(3) [OF v(1) cf pm] by (simp add: v0_def)
  obtain l1 where ins: "insert_timer p (future v) v0 = Some (put_list (future v) l1 v0)" "list_ok (mem v0) l1"
    "members l1 = insert p (members (tlist v0 (future v)))" "unat (count l1) = Suc (unat (count (tlist v0 (future v))))"
    by (rule insert_timer_ok [OF lf nf p8 pf]) blast
  define v1 where "v1 = put_list (future v) l1 v0"
  have l0: "list_ok (mem v) (tlist v1 (current v))" "first_timer (current v) v1 = Some p"
    using l p cf by (simp_all add: v1_def v0_def first_timer_def)
  obtain l2 l3 where pop: "remove_first (current v) v1 = Some (put_list (current v) l2 v1)"
    "order_first (current v) (put_list (current v) l2 v1) = Some (put_list (current v) l3 v1)" "list_ok (mem v1) l3"
    "members l3 = members (tlist v1 (current v)) - {p}" "Suc (unat (count l3)) = unat (count (tlist v1 (current v)))"
    by (rule pop_first_ok [OF l0]) (auto simp: v1_def v0_def)
  define v3 where "v3 = put_list (current v) l3 v1"
  have f: "tlist v3 = (tlist v)(future v := l1, current v := l3)" "\<And>q. q \<noteq> p \<Longrightarrow> mem v3 q = mem v q"
    "current v3 = current v" "future v3 = future v" "mem v3 = mem v0" "timeout (mem v3 p) = T"
    by (simp_all add: v3_def v1_def v0_def)
  have m: "members l1 = insert p (members (tlist v (future v)))" "members l3 = members (tlist v (current v)) - {p}"
    using ins(3) pop(4) cf by (simp_all add: v1_def v0_def)
  have os: "others_same p v v3"
    unfolding others_same_def
  proof (intro conjI allI impI f(2-4))
    fix q u assume "q \<noteq> p"
    then show "q \<in> members (tlist v3 u) \<longleftrightarrow> q \<in> members (tlist v u)"
      using which_cases [OF cf, of u] cf m by (auto simp: f(1))
  qed
  have lok: "list_ok (mem v3) (tlist v3 u)" for u
    using which_cases [OF cf, of u] cf ins(2) pop(3) by (auto simp: f(1,5) v1_def)
  have "timers_ok v3"
  proof (rule others_same_ok [OF v(1) os lok])
    show "state (mem v3 p) = TIMER_RUNNING \<and> func_cb (mem v3 p) \<noteq> NULL"
      using timers_okD(4,5) [OF v(1) pm] by (simp add: f(5) v0_def)
    show "p \<notin> members (tlist v3 (future v))" if "p \<in> members (tlist v3 (current v))" using that m cf by (simp add: f(1))
  qed
  moreover have "p \<in> members (tlist v3 (future v))" "p \<notin> members (tlist v3 (current v))" using m cf by (simp_all add: f(1))
  moreover have "load v3 = load v"
    using load_eq [OF cf] load_eq [of v3] cf ins(4) pop(5) by (simp add: f(1,3,4) v1_def v0_def)
  ultimately show thesis
    using that [of v1 "put_list (current v) l2 v1" v3] ins(1) pop(1,2) os f(6) by (simp add: v1_def v0_def v3_def)
qed

lemma repeat_ok:
  assumes v: "timers_ok v" and p: "first_timer w v = Some p"
  obtains v1 where "order_first w (upd_timer p (\<lambda>b. b\<lparr>timeout := T\<rparr>) v) = Some v1" "timers_ok v1" "others_same p v v1"
    "p \<in> members (tlist v1 w)" "timeout (mem v1 p) = T" "load v1 = load v"
proof -
  note l = timers_okD(2) [OF v, of w]
  have pm: "p \<in> members (tlist v w)" by (rule first_timer_least(1) [OF l p])
  define v0 where "v0 = upd_timer p (\<lambda>b. b\<lparr>timeout := T\<rparr>) v"
  have l0: "list_ok (mem v) (tlist v0 w)" "first_timer w v0 = Some p" using l p by (simp_all add: v0_def)
  obtain l1 where so: "order_first w v0 = Some (put_list w l1 v0)" "list_ok (mem v0) l1" "members l1 = members (tlist v0 w)"
    "count l1 = count (tlist v0 w)"
    by (rule resort_first_ok [OF l0]) (auto simp: v0_def)
  define v1 where "v1 = put_list w l1 v0"
  have f: "tlist v1 = (tlist v)(w := l1)" "\<And>q. q \<noteq> p \<Longrightarrow> mem v1 q = mem v q" "current v1 = current v" "future v1 = future v"
    "mem v1 = mem v0" "timeout (mem v1 p) = T"
    by (simp_all add: v1_def v0_def)
  have m1: "members (tlist v1 u) = members (tlist v u)" for u using so(3) by (simp add: f(1) v0_def)
  have os: "others_same p v v1" using f m1 by (auto simp: others_same_def)
  have lok: "list_ok (mem v1) (tlist v1 u)" for u
  proof (cases "u = w")
    case True
    then show ?thesis using so(2) by (simp add: f(1,5))
  next
    case False
    then show ?thesis using list_ok_other [OF v pm False] f(2) by (simp add: f(1))
  qed
  have "timers_ok v1"
  proof (rule others_same_ok [OF v os lok])
    show "state (mem v1 p) = TIMER_RUNNING \<and> func_cb (mem v1 p) \<noteq> NULL"
      using timers_okD(4,5) [OF v pm] by (simp add: f(5) v0_def)
    show "p \<notin> members (tlist v1 (future v))" if "p \<in> members (tlist v1 (current v))"
      using that timers_okD(1,3) [OF v] unfolding m1 by blast
  qed
  moreover have "load v1 = load v" using so(4) by (cases w) (simp_all add: load_def f(1) v0_def)
  moreover have "p \<in> members (tlist v1 w)" using pm unfolding m1 .
  moreover have "order_first w (upd_timer p (\<lambda>b. b\<lparr>timeout := T\<rparr>) v) = Some v1" using so(1) unfolding v1_def v0_def .
  ultimately show thesis using that [of v1] os f(6) by blast
qed


text \<open>The critical section after a callback that answered \<open>r\<close>.\<close>

definition after_call :: "u16 \<Rightarrow> kernel \<Rightarrow> kernel" where
  "after_call r k = ExitCritical (if r > 0 then snd (OSGetTickCount (EnterCritical k)) else EnterCritical k)"

lemma fire_ok:
  assumes v: "timers_ok v" "load v \<le> 7" and p: "first_timer (current v) v = Some p"
    and k: "unat (OSTickCounter k) < 65532" and cb: "well_behaved cb"
  obtains f r kc t' k' v' where "func_cb (mem v p) = Some f" "cb f (k, v) = (r, kc, v)" "k' = after_call r kc"
    "fire cb (current v) p (t, k, v) = Some (t', k', v')" "OSTickCounter k' = OSTickCounter k"
    "timers_ok v'" "load v' \<le> 7" "others_same p v v'" "outcome (OSTickCounter k) r p (current v) v'"
proof -
  have pm: "p \<in> members (tlist v (current v))" by (rule first_timer_least(1) [OF timers_okD(2) [OF v(1)] p])
  obtain f where f: "func_cb (mem v p) = Some f" using timers_okD(5) [OF v(1) pm] by blast
  obtain r k1 where c: "cb f (k, v) = (r, k1, v)" "OSTickCounter k1 = OSTickCounter k"
    using cb unfolding well_behaved_def by (metis prod.collapse)
  define k2 where "k2 = EnterCritical k1"
  define k3 where "k3 = snd (OSGetTickCount k2)"
  have tc: "OSGetTickCount k2 = (OSTickCounter k, k3)" "OSTickCounter k3 = OSTickCounter k"
    using c(2) OSGetTickCount_fst [of k2] by (simp_all add: k3_def k2_def prod_eq_iff)
  define t1 where "t1 = (ucast (OSTickCounter k) + ucast r :: u32)"
  have step: "fire cb (current v) p (t, k, v) = do {
     (t2, k2, v2) \<leftarrow>
       (if r > 0 then
          (if t1 \<ge> ucast TICK_COUNT_OVERFLOW then do {
             v3 \<leftarrow> insert_timer p (future v) (upd_timer p (\<lambda>b. b\<lparr>timeout := ucast (t1 - ucast TICK_COUNT_OVERFLOW)\<rparr>) v);
             v4 \<leftarrow> remove_first (current v) v3;
             Some (t1, k3, v4) }
           else Some (t1, k3, upd_timer p (\<lambda>b. b\<lparr>timeout := ucast t1\<rparr>) v))
        else do { v2 \<leftarrow> retire p (current v) v; Some (t, k2, v2) });
     v3 \<leftarrow> order_first (current v) v2;
     Some (t2, ExitCritical k2, v3) }"
    by (simp add: fire_def f c(1) k2_def [symmetric] tc(1) Let_def t1_def cong: if_cong)
  have big: "t1 \<ge> ucast TICK_COUNT_OVERFLOW \<longleftrightarrow> \<not> unat (OSTickCounter k) + unat r < 65532"
    unfolding t1_def sum_overflow by linarith
  have r0: "r > 0 \<longleftrightarrow> r \<noteq> 0" by (simp add: word_gt_0)
  consider (none) "r = 0" | (soon) "r \<noteq> 0" "unat (OSTickCounter k) + unat r < 65532"
    | (later) "r \<noteq> 0" "\<not> unat (OSTickCounter k) + unat r < 65532" by blast
  then show thesis
  proof cases
    case none
    obtain v1 v2 where v2: "retire p (current v) v = Some v1" "order_first (current v) v1 = Some v2" "timers_ok v2"
      "others_same p v v2" "\<And>u. p \<notin> members (tlist v2 u)" "state (mem v2 p) = TIMER_NOT_ALLOCATED" "Suc (load v2) = load v"
      by (rule retire_ok [OF v(1) p]) blast
    have "fire cb (current v) p (t, k, v) = Some (t, ExitCritical k2, v2)" using none v2(1,2) by (simp add: step)
    then show thesis
      by (intro that [where k' = "ExitCritical k2" and t' = t and v' = v2, OF f c(1)]) (use v2 v(2) none c(2) in \<open>simp_all add: outcome_def k2_def after_call_def\<close>)
  next
    case soon
    obtain v1 where v1: "order_first (current v) (upd_timer p (\<lambda>b. b\<lparr>timeout := ucast t1\<rparr>) v) = Some v1" "timers_ok v1"
      "others_same p v v1" "p \<in> members (tlist v1 (current v))" "timeout (mem v1 p) = ucast t1" "load v1 = load v"
      by (rule repeat_ok [OF v(1) p]) blast
    have "fire cb (current v) p (t, k, v) = Some (t1, ExitCritical k3, v1)" using soon v1(1) big r0 by (simp add: step)
    moreover have "unat (ucast t1 :: u16) = unat (OSTickCounter k) + unat r" unfolding t1_def by (rule unat_sum_low [OF soon(2)])
    ultimately show thesis
      by (intro that [where k' = "ExitCritical k3" and t' = t1 and v' = v1, OF f c(1)]) (use v1 v(2) soon tc(2) r0 in \<open>simp_all add: outcome_def after_call_def k3_def k2_def\<close>)
  next
    case later
    define T :: u16 where "T = ucast (t1 - ucast TICK_COUNT_OVERFLOW)"
    obtain v1 v2 v3 where v3: "insert_timer p (future v) (upd_timer p (\<lambda>b. b\<lparr>timeout := T\<rparr>) v) = Some v1"
      "remove_first (current v) v1 = Some v2" "order_first (current v) v2 = Some v3" "timers_ok v3" "others_same p v v3"
      "p \<in> members (tlist v3 (future v))" "timeout (mem v3 p) = T" "load v3 = load v"
      by (rule defer_ok [OF v p]) blast
    have "fire cb (current v) p (t, k, v) = Some (t1, ExitCritical k3, v3)"
      using later v3(1-3) big r0 by (simp add: step T_def)
    moreover have "unat T = unat (OSTickCounter k) + unat r - 65532"
      unfolding T_def t1_def using later(2) k by (intro unat_sum_high) simp_all
    moreover have "future v3 = future v" using v3(5) by (simp add: others_same_def)
    ultimately show thesis
      by (intro that [where k' = "ExitCritical k3" and t' = t1 and v' = v3, OF f c(1)]) (use v3 v(2) later tc(2) r0 in \<open>simp_all add: outcome_def after_call_def k3_def k2_def\<close>)
  qed
qed

text \<open>The timers of a list that have expired.\<close>

definition expired :: "u16 \<Rightarrow> which \<Rightarrow> timer_vector \<Rightarrow> nat set" where
  "expired now w v = {p \<in> members (tlist v w). timeout (mem v p) \<le> now}"

lemma members_finite: "list_ok m l \<Longrightarrow> finite (members l)"
  using members_bound by (metis finite_nat_set_iff_bounded)

lemma fired_not_expired:
  assumes "timers_ok v" "outcome now r p (current v) v"
  shows "p \<notin> expired now (current v) v"
proof
  assume "p \<in> expired now (current v) v"
  then have m: "p \<in> members (tlist v (current v))" "timeout (mem v p) \<le> now" by (simp_all add: expired_def)
  have "p \<notin> members (tlist v (future v))" using timers_okD(1,3) [OF assms(1)] m(1) by blast
  then have "r \<noteq> 0" "unat (timeout (mem v p)) = unat now + unat r"
    using assms(2) m(1) unfolding outcome_def by (metis (full_types))+
  then show False using m(2) by (simp add: word_le_nat_alt unat_eq_0)
qed

lemma expired_others: "others_same p v v' \<Longrightarrow> p \<notin> expired now w v' \<Longrightarrow> expired now w v' = expired now w v - {p}"
  by (intro set_eqI) (auto simp: others_same_def expired_def)

text \<open>
  The calls of a pass: the timer, what its callback answers and the timers it sees. They run one after the other, each
  on the kernel that the one before has left.
\<close>

type_synonym call = "nat \<times> u16 \<times> timer_vector"

fun calls_made :: "(nat \<Rightarrow> callback) \<Rightarrow> timer_vector \<Rightarrow> kernel \<Rightarrow> call list \<Rightarrow> kernel \<Rightarrow> bool" where
  "calls_made cb v k [] k' \<longleftrightarrow> k' = k \<or> k' = snd (OSGetTickCount k)"
| "calls_made cb v k ((p, r, u) # cs) k' \<longleftrightarrow> (\<exists>f kc. func_cb (mem v p) = Some f \<and>
     cb f (snd (OSGetTickCount k), u) = (r, kc, u) \<and> calls_made cb v (after_call r kc) cs k')"

lemma calls_made_cong:
  "calls_made cb v k cs k' \<Longrightarrow> (\<And>c. c \<in> set cs \<Longrightarrow> mem v' (fst c) = mem v (fst c)) \<Longrightarrow> calls_made cb v' k cs k'"
proof (induction cs arbitrary: k)
  case (Cons c cs)
  obtain p r u where c: "c = (p, r, u)" by (cases c)
  have "mem v' p = mem v p" using Cons.prems(2) [of c] c by simp
  moreover obtain f kc where "func_cb (mem v p) = Some f" "cb f (snd (OSGetTickCount k), u) = (r, kc, u)"
    "calls_made cb v (after_call r kc) cs k'"
    using Cons.prems(1) c by auto
  moreover have "calls_made cb v' (after_call r kc) cs k'"
    by (rule Cons.IH [OF calculation(4)]) (use Cons.prems(2) in simp)
  ultimately show ?case using c by simp
qed simp

text \<open>
  The expired timers of list \<open>w\<close>, in the order of their instants, have been run as \<open>cs\<close> says; the others are as before.
\<close>

definition fired :: "u16 \<Rightarrow> call list \<Rightarrow> which \<Rightarrow> timer_vector \<Rightarrow> timer_vector \<Rightarrow> bool" where
  "fired now cs w v v' \<longleftrightarrow> distinct (map fst cs) \<and> set (map fst cs) = expired now w v \<and>
    sorted (map (\<lambda>c. timeout (mem v (fst c))) cs) \<and> (\<forall>(p, r, u) \<in> set cs. outcome now r p w v') \<and>
    (\<forall>p. p \<notin> expired now w v \<longrightarrow> mem v' p = mem v p \<and> (\<forall>u. p \<in> members (tlist v' u) \<longleftrightarrow> p \<in> members (tlist v u)))"

lemma fired_step:
  assumes os: "others_same p v v1" and out: "outcome now r p w v1" and f: "fired now cs w v1 v'" and fu: "future v' = future v1"
    and ex: "p \<in> expired now w v" "expired now w v1 = expired now w v - {p}"
    and least: "\<And>q. q \<in> expired now w v \<Longrightarrow> timeout (mem v p) \<le> timeout (mem v q)"
  shows "fired now ((p, r, u) # cs) w v v'"
proof -
  have F: "distinct (map fst cs)" "set (map fst cs) = expired now w v - {p}" "sorted (map (\<lambda>c. timeout (mem v1 (fst c))) cs)"
    "\<forall>(p, r, u) \<in> set cs. outcome now r p w v'"
    and same: "\<And>q. q \<notin> expired now w v - {p} \<Longrightarrow> mem v' q = mem v1 q \<and> (\<forall>u. q \<in> members (tlist v' u) \<longleftrightarrow> q \<in> members (tlist v1 u))"
    using f unfolding fired_def ex(2) by blast+
  have cs: "fst c \<in> expired now w v" "mem v (fst c) = mem v1 (fst c)" if c: "c \<in> set cs" for c
  proof -
    have m: "fst c \<in> expired now w v - {p}" using F(2) c by (metis image_eqI set_map)
    then show "fst c \<in> expired now w v" by simp
    show "mem v (fst c) = mem v1 (fst c)" using m os unfolding others_same_def by (metis DiffD2 singletonI)
  qed
  have eq: "map (\<lambda>c. timeout (mem v (fst c))) cs = map (\<lambda>c. timeout (mem v1 (fst c))) cs" using cs(2) by (intro map_cong) simp_all
  have "sorted (map (\<lambda>c. timeout (mem v (fst c))) cs)" unfolding eq by (rule F(3))
  then have "sorted (map (\<lambda>c. timeout (mem v (fst c))) ((p, r, u) # cs))" using least cs(1) by simp
  moreover have "distinct (map fst ((p, r, u) # cs))" using F(1,2) by (simp only: list.map distinct.simps fst_conv) simp
  moreover have "set (map fst ((p, r, u) # cs)) = expired now w v" using F(2) ex(1) by (simp only: list.map list.set fst_conv insert_Diff)
  moreover have "outcome now r p w v'" using outcome_cong [OF out _ fu] same [of p] by blast
  then have "\<forall>(p, r, u) \<in> set ((p, r, u) # cs). outcome now r p w v'" using F(4) by simp
  moreover have "mem v' q = mem v q \<and> (\<forall>u. q \<in> members (tlist v' u) \<longleftrightarrow> q \<in> members (tlist v u))" if "q \<notin> expired now w v" for q
  proof -
    have "q \<noteq> p" using that ex(1) by blast
    then show ?thesis using same [of q] that os unfolding others_same_def by simp
  qed
  ultimately show ?thesis unfolding fired_def by blast
qed

lemma expired_loop_run:
  assumes "timers_ok v" "load v \<le> 7" "unat (OSTickCounter k) < 65532" "well_behaved cb"
  shows "\<exists>t' k' v' cs. expired_loop cb (current v) (t, k, v) = Some (t', k', v') \<and> timers_ok v' \<and> load v' \<le> 7 \<and>
    OSTickCounter k' = OSTickCounter k \<and> current v' = current v \<and> future v' = future v \<and>
    calls_made cb v k cs k' \<and> fired (OSTickCounter k) cs (current v) v v' \<and> expired (OSTickCounter k) (current v) v' = {}"
  using assms(1-3)
proof (induction "card (expired (OSTickCounter k) (current v) v)" arbitrary: t k v rule: less_induct)
  case less
  let ?now = "OSTickCounter k" and ?w = "current v"
  note l = timers_okD(2) [OF less.prems(1), of ?w]
  define k1 where "k1 = snd (OSGetTickCount k)"
  have tc: "OSGetTickCount k = (?now, k1)" "OSTickCounter k1 = ?now"
    using OSGetTickCount_fst [of k] by (simp_all add: k1_def prod_eq_iff)
  note step = expired_loop.simps [of cb ?w "(t, k, v)"]
  consider (none) "first_timer ?w v = None" | (early) p where "first_timer ?w v = Some p" "\<not> timeout (mem v p) \<le> ?now"
    | (due) p where "first_timer ?w v = Some p" "timeout (mem v p) \<le> ?now" by (cases "first_timer ?w v") auto
  then show ?case
  proof cases
    case none
    have "members (tlist v ?w) = {}" using first_timer_empty(2) [OF l] none by simp
    then have "expired ?now ?w v = {}" by (simp add: expired_def)
    moreover have "expired_loop cb ?w (t, k, v) = Some (t, k, v)" using none by (simp add: step)
    ultimately show ?thesis using less.prems
      by (intro exI [of _ t] exI [of _ k] exI [of _ v] exI [of _ "[]"]) (simp add: fired_def)
  next
    case early
    have "expired ?now ?w v = {}"
      using first_timer_least(2) [OF l early(1)] early(2) unfolding expired_def by (auto dest: order_trans)
    moreover have "expired_loop cb ?w (t, k, v) = Some (t, k1, v)" using early tc(1) by (simp add: step)
    ultimately show ?thesis using less.prems tc(2)
      by (intro exI [of _ t] exI [of _ k1] exI [of _ v] exI [of _ "[]"]) (simp add: fired_def k1_def)
  next
    case due
    have pe: "p \<in> expired ?now ?w v" using first_timer_least(1) [OF l due(1)] due(2) by (simp add: expired_def)
    obtain f r kc t2 k2 v2 where c: "func_cb (mem v p) = Some f" "cb f (k1, v) = (r, kc, v)" "k2 = after_call r kc"
      and v2: "fire cb ?w p (t, k1, v) = Some (t2, k2, v2)" "OSTickCounter k2 = OSTickCounter k1"
      "timers_ok v2" "load v2 \<le> 7" "others_same p v v2" "outcome (OSTickCounter k1) r p ?w v2"
      by (rule fire_ok [OF less.prems(1,2) due(1) _ assms(4), of k1 t]) (use less.prems(3) tc(2) in simp_all)
    have o: "current v2 = ?w" "future v2 = future v" "OSTickCounter k2 = ?now" "unat (OSTickCounter k2) < 65532"
      using v2(2,5) tc(2) less.prems(3) by (simp_all add: others_same_def)
    have out: "outcome ?now r p ?w v2" using v2(6) tc(2) by simp
    have ex: "expired ?now ?w v2 = expired ?now ?w v - {p}"
      using expired_others [OF v2(5)] fired_not_expired [OF v2(3), of ?now r p] out o(1) by simp
    have fin: "finite (expired ?now ?w v)" using members_finite [OF l] by (simp add: expired_def)
    have lt: "card (expired (OSTickCounter k2) (current v2) v2) < card (expired ?now ?w v)"
      unfolding o(1,3) ex by (rule card_Diff1_less [OF fin pe])
    obtain t' k' v' cs where ih: "expired_loop cb ?w (t2, k2, v2) = Some (t', k', v')" "timers_ok v'" "load v' \<le> 7"
      "OSTickCounter k' = ?now" "current v' = ?w" "future v' = future v2" "calls_made cb v2 k2 cs k'"
      "fired ?now cs ?w v2 v'" "expired ?now ?w v' = {}"
      using less.hyps [OF lt v2(3,4) o(4), of t2] unfolding o(1,3) by blast
    have "expired_loop cb ?w (t, k, v) = Some (t', k', v')" using due tc(1) v2(1) ih(1) by (simp add: step)
    moreover have "fired ?now ((p, r, v) # cs) ?w v v'"
      by (rule fired_step [OF v2(5) out ih(8,6) pe ex]) (use first_timer_least(2) [OF l due(1)] in \<open>simp add: expired_def\<close>)
    moreover have "fst q \<noteq> p" if "q \<in> set cs" for q using ih(8) that ex unfolding fired_def by force
    then have "calls_made cb v k2 cs k'"
      using v2(5) by (intro calls_made_cong [OF ih(7)]) (simp add: others_same_def)
    then have "calls_made cb v k ((p, r, v) # cs) k'" using c by (simp add: k1_def)
    ultimately show ?thesis using ih(2-6,9) o(2) by metis
  qed
qed

text \<open>
  C26. While at most seven timers run and callbacks change neither the timers nor the counter, a pass of the timer
  task ends, and leaves no expired timer in the list. The expired timers are run in the
  order of their instants, each once: its callback is called on the kernel the call before has left, and
  the timer is retired when the callback answers 0, or else put back to the instant that is the answered number of
  ticks from now, in this cycle's list or the next's. The other timers are untouched and both lists
  stay ordered.
\<close>

theorem expired_loop_fires:
  assumes "timers_ok v" "load v \<le> 7" "unat (OSTickCounter k) < 65532" "well_behaved cb"
  shows "\<exists>t' k' v' cs. expired_loop cb (current v) (t, k, v) = Some (t', k', v') \<and>
    timers_ok v' \<and> load v' \<le> 7 \<and> OSTickCounter k' = OSTickCounter k \<and>
    current v' = current v \<and> future v' = future v \<and>
    calls_made cb v k cs k' \<and> distinct (map fst cs) \<and> set (map fst cs) = expired (OSTickCounter k) (current v) v \<and>
    sorted (map (\<lambda>c. timeout (mem v (fst c))) cs) \<and> (\<forall>(p, r, u) \<in> set cs. outcome (OSTickCounter k) r p (current v) v') \<and>
    (\<forall>p. p \<notin> expired (OSTickCounter k) (current v) v \<longrightarrow>
       mem v' p = mem v p \<and> (\<forall>u. p \<in> members (tlist v' u) \<longleftrightarrow> p \<in> members (tlist v u))) \<and>
    expired (OSTickCounter k) (current v) v' = {}"
  using expired_loop_run [OF assms] unfolding fired_def by blast

subsection \<open>Waking up early, and late\<close>

lemma fire_late_ok:
  assumes v: "timers_ok v" "load v \<le> 7" and p: "first_timer (current v) v = Some p" and cb: "well_behaved cb"
  obtains t' k' v' where "fire_late cb (current v) p (t, k, v) = Some (t', k', v')" "OSTickCounter k' = OSTickCounter k"
    "timers_ok v'" "load v' \<le> 7" "others_same p v v'" "p \<notin> members (tlist v' (current v))"
    "state (mem v' p) = TIMER_NOT_ALLOCATED \<or> p \<in> members (tlist v' (future v))"
proof -
  have pm: "p \<in> members (tlist v (current v))" by (rule first_timer_least(1) [OF timers_okD(2) [OF v(1)] p])
  obtain f where f: "func_cb (mem v p) = Some f" using timers_okD(5) [OF v(1) pm] by blast
  obtain r k1 where c: "cb f (k, v) = (r, k1, v)" "OSTickCounter k1 = OSTickCounter k"
    using cb unfolding well_behaved_def by (metis prod.collapse)
  define k2 where "k2 = EnterCritical k1"
  define k3 where "k3 = snd (OSGetTickCount k2)"
  have tc: "OSGetTickCount k2 = (OSTickCounter k, k3)" "OSTickCounter k3 = OSTickCounter k"
    using c(2) OSGetTickCount_fst [of k2] by (simp_all add: k3_def k2_def prod_eq_iff)
  define t1 where "t1 = (ucast (OSTickCounter k) + ucast r :: u32)"
  have step: "fire_late cb (current v) p (t, k, v) = do {
     (t2, k2, v2) \<leftarrow>
       (if r > 0 then do {
          v3 \<leftarrow> insert_timer p (future v) (upd_timer p (\<lambda>b. b\<lparr>timeout := ucast t1\<rparr>) v);
          v4 \<leftarrow> remove_first (current v) v3;
          Some (t1, k3, v4) }
        else do { v2 \<leftarrow> retire p (current v) v; Some (t, k2, v2) });
     v3 \<leftarrow> order_first (current v) v2;
     Some (t2, ExitCritical k2, v3) }"
    by (simp add: fire_late_def f c(1) k2_def [symmetric] tc(1) Let_def t1_def cong: if_cong)
  have r0: "r > 0 \<longleftrightarrow> r \<noteq> 0" by (simp add: word_gt_0)
  show thesis
  proof (cases "r = 0")
    case True
    obtain v1 v2 where v2: "retire p (current v) v = Some v1" "order_first (current v) v1 = Some v2" "timers_ok v2"
      "others_same p v v2" "\<And>u. p \<notin> members (tlist v2 u)" "state (mem v2 p) = TIMER_NOT_ALLOCATED" "Suc (load v2) = load v"
      by (rule retire_ok [OF v(1) p]) blast
    have "fire_late cb (current v) p (t, k, v) = Some (t, ExitCritical k2, v2)" using True v2(1,2) by (simp add: step)
    then show thesis
      by (rule that [of t "ExitCritical k2" v2]) (use v2 v(2) c(2) in \<open>simp_all add: k2_def\<close>)
  next
    case False
    obtain v1 v2 v3 where v3: "insert_timer p (future v) (upd_timer p (\<lambda>b. b\<lparr>timeout := ucast t1\<rparr>) v) = Some v1"
      "remove_first (current v) v1 = Some v2" "order_first (current v) v2 = Some v3" "timers_ok v3" "others_same p v v3"
      "p \<in> members (tlist v3 (future v))" "p \<notin> members (tlist v3 (current v))" "load v3 = load v"
      by (rule defer_ok [OF v p]) blast
    have "fire_late cb (current v) p (t, k, v) = Some (t1, ExitCritical k3, v3)" using False v3(1-3) r0 by (simp add: step)
    then show thesis
      by (rule that [of t1 "ExitCritical k3" v3]) (use v3 v(2) tc(2) in simp_all)
  qed
qed

lemma late_loop_fires_all:
  assumes "timers_ok v" "load v \<le> 7" "well_behaved cb"
  shows "\<exists>t' k' v'. late_loop cb (current v) (t, k, v) = Some (t', k', v') \<and> timers_ok v' \<and> load v' \<le> 7 \<and>
    current v' = current v \<and> future v' = future v \<and> OSTickCounter k' = OSTickCounter k \<and> members (tlist v' (current v)) = {} \<and>
    (\<forall>p \<in> members (tlist v (current v)). state (mem v' p) = TIMER_NOT_ALLOCATED \<or> p \<in> members (tlist v' (future v))) \<and>
    (\<forall>p. p \<notin> members (tlist v (current v)) \<longrightarrow>
       mem v' p = mem v p \<and> (\<forall>u. p \<in> members (tlist v' u) \<longleftrightarrow> p \<in> members (tlist v u)))"
  using assms(1,2)
proof (induction "card (members (tlist v (current v)))" arbitrary: t k v rule: less_induct)
  case less
  let ?w = "current v"
  note l = timers_okD(2) [OF less.prems(1), of ?w]
  show ?case
  proof (cases "first_timer ?w v")
    case None
    then have "members (tlist v ?w) = {}" using first_timer_empty(2) [OF l] by simp
    moreover have "late_loop cb ?w (t, k, v) = Some (t, k, v)" using None by (simp add: late_loop.simps [of cb ?w "(t, k, v)"])
    ultimately show ?thesis using less.prems by simp
  next
    case (Some p)
    have pm: "p \<in> members (tlist v ?w)" by (rule first_timer_least(1) [OF l Some])
    obtain t2 k2 v2 where v2: "fire_late cb ?w p (t, k, v) = Some (t2, k2, v2)" "OSTickCounter k2 = OSTickCounter k"
      "timers_ok v2" "load v2 \<le> 7" "others_same p v v2" "p \<notin> members (tlist v2 ?w)"
      "state (mem v2 p) = TIMER_NOT_ALLOCATED \<or> p \<in> members (tlist v2 (future v))"
      by (rule fire_late_ok [OF less.prems Some assms(3)]) blast
    have o: "current v2 = ?w" "future v2 = future v"
      "\<And>q. q \<noteq> p \<Longrightarrow> mem v2 q = mem v q \<and> (\<forall>u. q \<in> members (tlist v2 u) \<longleftrightarrow> q \<in> members (tlist v u))"
      using v2(5) by (simp_all add: others_same_def)
    have ex: "members (tlist v2 ?w) = members (tlist v ?w) - {p}"
    proof (rule set_eqI)
      fix q show "q \<in> members (tlist v2 ?w) \<longleftrightarrow> q \<in> members (tlist v ?w) - {p}"
        using v2(6) o(3) [of q] by (cases "q = p") simp_all
    qed
    have lt: "card (members (tlist v2 (current v2))) < card (members (tlist v ?w))"
      unfolding o(1) ex by (rule card_Diff1_less [OF members_finite [OF l] pm])
    obtain t' k' v' where ih: "late_loop cb ?w (t2, k2, v2) = Some (t', k', v')" "timers_ok v'" "load v' \<le> 7"
      "current v' = ?w" "future v' = future v" "OSTickCounter k' = OSTickCounter k2" "members (tlist v' ?w) = {}"
      "\<And>q. q \<in> members (tlist v2 ?w) \<Longrightarrow> state (mem v' q) = TIMER_NOT_ALLOCATED \<or> q \<in> members (tlist v' (future v))"
      "\<And>q. q \<notin> members (tlist v2 ?w) \<Longrightarrow> mem v' q = mem v2 q \<and> (\<forall>u. q \<in> members (tlist v' u) \<longleftrightarrow> q \<in> members (tlist v2 u))"
      using less.hyps [OF lt v2(3,4), of t2 k2] unfolding o(1,2) by blast
    have "late_loop cb ?w (t, k, v) = Some (t', k', v')"
      using Some v2(1) ih(1) by (simp add: late_loop.simps [of cb ?w "(t, k, v)"])
    moreover have "state (mem v' q) = TIMER_NOT_ALLOCATED \<or> q \<in> members (tlist v' (future v))" if "q \<in> members (tlist v ?w)" for q
    proof (cases "q = p")
      case True
      then show ?thesis using ih(9) [OF v2(6)] v2(7) by simp
    next
      case False
      then show ?thesis using ih(8) ex that by blast
    qed
    moreover have "mem v' q = mem v q \<and> (\<forall>u. q \<in> members (tlist v' u) \<longleftrightarrow> q \<in> members (tlist v u))"
      if "q \<notin> members (tlist v ?w)" for q
    proof -
      have "q \<noteq> p" using that pm by blast
      moreover have "q \<notin> members (tlist v2 ?w)" using that ex by blast
      ultimately show ?thesis using ih(9) o(3) by simp
    qed
    ultimately show ?thesis using ih(2-7) v2(2) by auto
  qed
qed

text \<open>
  A turn of the timer task that begins before the first timer is due takes this for a wrap of the
  counter: every timer of the list is run at once, however far its instant lies ahead. So stopping the
  timer the task waits for makes all the others fire when it would have been due.
\<close>

theorem early_turn_fires_all:
  assumes "timers_ok v" "load v \<le> 7" "well_behaved cb" "unat (OSTickCounter k) < 65532"
    "first_timer (current v) v = Some p" "timeout (mem v p) > OSTickCounter k"
  shows "\<exists>t1 k1 v1. late_loop cb (current v) (t, snd (OSGetTickCount k), v) = Some (t1, k1, v1) \<and>
    members (tlist v1 (current v)) = {} \<and>
    (\<forall>q \<in> members (tlist v (current v)). state (mem v1 q) = TIMER_NOT_ALLOCATED \<or> q \<in> members (tlist v1 (future v))) \<and>
    BRTOSTimerTask_turn cb (t, k, v) = do {
      (t2, k2, v2) \<leftarrow> expired_loop cb (future v) (t1, k1, switch_lists v1);
      let (v3, w3) = (if t2 > ucast TIMER_MAX_COUNTER \<and> first_timer (future v) v2 = NULL
        then (switch_lists v2, current (switch_lists v2)) else (v2, future v));
      Some (next_wake w3 v3, t2, k2, v3) }"
proof -
  define k0 where "k0 = snd (OSGetTickCount k)"
  have tc: "OSGetTickCount k = (OSTickCounter k, k0)" using OSGetTickCount_fst [of k] by (simp add: k0_def prod_eq_iff)
  obtain t1 k1 v1 where v1: "late_loop cb (current v) (t, k0, v) = Some (t1, k1, v1)" "members (tlist v1 (current v)) = {}"
    "future v1 = future v"
    "\<forall>q \<in> members (tlist v (current v)). state (mem v1 q) = TIMER_NOT_ALLOCATED \<or> q \<in> members (tlist v1 (future v))"
    using late_loop_fires_all [OF assms(1-3), of t k0] by blast
  have "current (switch_lists v1) = future v" using v1(3) by (simp add: switch_lists_def)
  then have "BRTOSTimerTask_turn cb (t, k, v) = do {
      (t2, k2, v2) \<leftarrow> expired_loop cb (future v) (t1, k1, switch_lists v1);
      let (v3, w3) = (if t2 > ucast TIMER_MAX_COUNTER \<and> first_timer (future v) v2 = NULL
        then (switch_lists v2, current (switch_lists v2)) else (v2, future v));
      Some (next_wake w3 v3, t2, k2, v3) }"
    using assms(5,6) v1(1) tc by (simp add: BRTOSTimerTask_turn_def Let_def)
  then show ?thesis using v1(1,2,4) unfolding k0_def by blast
qed

text \<open>Turns of the task that begin in given states of the kernel, with what is left of the timers.\<close>

primrec turns :: "(nat \<Rightarrow> callback) \<Rightarrow> kernel list \<Rightarrow> u32 \<times> timer_vector \<Rightarrow> (u32 \<times> timer_vector) option" where
  "turns cb [] s = Some s"
| "turns cb (k # ks) s = (case s of (t, v) \<Rightarrow> do {
     (_, t1, _, v1) \<leftarrow> BRTOSTimerTask_turn cb (t, k, v);
     turns cb ks (t1, v1) })"

lemma turn_empty:
  assumes "first_timer (current v) v = NULL" "t \<le> ucast TIMER_MAX_COUNTER"
  shows "BRTOSTimerTask_turn cb (t, k, v) = Some (TIMER_MAX_COUNTER, t, k, v)"
proof -
  have "(ucast TIMER_MAX_COUNTER < t) = False" using assms(2) by (simp add: not_less)
  then show ?thesis
    using assms(1) by (simp add: BRTOSTimerTask_turn_def Let_def expired_loop.simps [of cb "current v" "(t, k, v)"] next_wake_def)
qed

text \<open>
  A timer started so late in the counter's cycle that it expires in the next one, while no timer of
  this cycle runs, is never run: the task changes to the list of the next cycle only after a callback
  whose own repetition crossed the end of the cycle, and no turn of the task, at whatever tick, is one.
\<close>

theorem timer_across_wrap_is_lost:
  assumes "timers_ok v" "load v < 7" "idle_timer p v" "unat (OSTickCounter k) < 65532"
    "unat (handling_task v) \<le> NUMBER_OF_TASKS" "first_timer (current v) v = NULL"
    "w \<le> TIMER_MAX_COUNTER" "65532 \<le> unat (OSTickCounter k) + unat w" "t \<le> ucast TIMER_MAX_COUNTER"
  shows "\<exists>k' v'. OSTimerStart (Some p) w k v = Some (OK, k', v') \<and> p \<in> members (tlist v' (future v')) \<and>
    (\<forall>ks. turns cb ks (t, v') = Some (t, v'))"
proof -
  define k1 where "k1 = EnterCritical_if_task k"
  have tk: "OSTickCounter k1 = OSTickCounter k" by (simp add: k1_def)
  have far: "\<not> unat (OSTickCounter k1) + unat w < 65532" using assms(8) tk by simp
  note cf = timers_okD(1) [OF assms(1)]
  obtain k2 v' where run: "run_timer p w k1 v = Some (k2, v')" "timers_ok v'"
    "members (tlist v' (future v)) = insert p (members (tlist v (future v)))" "tlist v' (current v) = tlist v (current v)"
    "current v' = current v" "future v' = future v"
    by (rule run_timer_ok [OF assms(1-3), of k1 w, unfolded if_not_P [OF far]]) (use assms(4,5) tk cf in auto)
  have w0: "w \<noteq> 0" "\<not> w > TIMER_MAX_COUNTER" using assms(4,7,8) by auto
  have p8: "p < 8" using assms(3) by (simp add: idle_timer_def)
  have start: "OSTimerStart (Some p) w k v = Some (OK, ExitCritical_if_task k2, v')"
    using w0 run(1) p8 by (simp add: OSTimerStart_def Let_def k1_def [symmetric] BRTOS_MAX_TIMER_def)
  have f: "first_timer (current v') v' = NULL" using assms(6) run(4,5) by (simp add: first_timer_def)
  have "turns cb ks (t, v') = Some (t, v')" for ks
    by (induction ks) (simp_all add: turn_empty [OF f assms(9)])
  then show ?thesis using start run(3,6) by auto
qed

end
