(* ===== verification/Timer_Examples.thy ===== *)
theory Timer_Examples
  imports Timer_Service
begin

text \<open>The properties of the software timers on two concrete sets of timers, in the demo system of \<open>Startup\<close>.\<close>

text \<open>One timer that was created and does not run.\<close>

definition created :: timer_vector where
  "created = upd_timer 0 (\<lambda>b. b\<lparr>state := TIMER_STOPPED, func_cb := Some 5\<rparr>) (snd (BRTOS_TimerTaskInit demo timers_init))"

lemma created_simps [simp]:
  "tlist created w = \<lparr>timers = \<lambda>_. NULL, count = 0\<rparr>" "current created = PING" "future created = PONG" "handling_task created = 0"
  by (simp_all add: created_def BRTOS_TimerTaskInit_def timers_init_def Let_def)

lemma created_ok: "timers_ok created" "load created = 0" "idle_timer 0 created"
proof -
  have m: "members (tlist created w) = {}" for w by (simp add: members_def)
  have f: "filled (\<lambda>_. NULL) 0" by (simp add: filled_def)
  show "timers_ok created"
    by (rule timers_okI) (use f m in \<open>simp_all add: list_ok_def heap_order_def\<close>)
  show "load created = 0" by (simp add: load_def)
  show "idle_timer 0 created"
    using m by (simp add: idle_timer_def) (simp add: created_def)
qed

text \<open>Two running timers, due at the ticks 10 and 300.\<close>

definition two_running :: timer_vector where
  "two_running = \<lparr>mem = (mem timers_init)(0 := \<lparr>func_cb = Some 5, timeout = 10, state = TIMER_RUNNING\<rparr>,
      1 := \<lparr>func_cb = Some 6, timeout = 300, state = TIMER_RUNNING\<rparr>),
    tlist = (tlist timers_init)(PING := \<lparr>timers = [1 \<mapsto> 0, 2 \<mapsto> 1], count = 2\<rparr>),
    current = PING, future = PONG, handling_task = 1\<rparr>"

lemma two_running_simps [simp]:
  "tlist two_running PING = \<lparr>timers = [1 \<mapsto> 0, 2 \<mapsto> 1], count = 2\<rparr>" "tlist two_running PONG = \<lparr>timers = \<lambda>_. NULL, count = 0\<rparr>"
  "current two_running = PING" "future two_running = PONG"
  "mem two_running 0 = \<lparr>func_cb = Some 5, timeout = 10, state = TIMER_RUNNING\<rparr>"
  "mem two_running (Suc 0) = \<lparr>func_cb = Some 6, timeout = 300, state = TIMER_RUNNING\<rparr>"
  by (simp_all add: two_running_def timers_init_def)

lemma one_two: "{1..2} = {1, 2 :: nat}"
  by auto

lemma two_running_members: "members (tlist two_running PING) = {0, 1}" "members (tlist two_running PONG) = {}"
proof -
  have "{1..unat (2 :: u8)} = {1, 2 :: nat}" using one_two by simp
  then have "[1 \<mapsto> 0, 2 \<mapsto> 1] ` {1..unat (2 :: u8)} = {Some (0 :: nat), Some (1 :: nat)}" by simp
  then show "members (tlist two_running PING) = {0, 1}" unfolding members_def two_running_simps by auto
qed (simp add: members_def)

lemma two_running_ok: "timers_ok two_running" "load two_running = 2"
proof -
  have two: "i = 1 \<or> i = 2" if "Suc 0 \<le> i" "i \<le> 2" for i :: nat using that by linarith
  have f: "filled [1 \<mapsto> 0, 2 \<mapsto> 1] 2"
    unfolding filled_def one_two by (auto dest: two)
  have o: "heap_order (key (mem two_running) [1 \<mapsto> 0, 2 \<mapsto> 1]) 2"
    unfolding heap_order_def
  proof (intro allI impI)
    fix i :: nat assume "2 \<le> i" "i \<le> 2"
    then have "i = 2" by simp
    then show "key (mem two_running) [1 \<mapsto> 0, 2 \<mapsto> 1] (i div 2) \<le> key (mem two_running) [1 \<mapsto> 0, 2 \<mapsto> 1] i"
      by (simp add: key_def)
  qed
  have ping: "list_ok (mem two_running) (tlist two_running PING)" using f o by (simp add: list_ok_def)
  have pong: "list_ok (mem two_running) (tlist two_running PONG)"
    by (simp add: list_ok_def filled_def heap_order_def)
  show "timers_ok two_running"
  proof (rule timers_okI)
    show "list_ok (mem two_running) (tlist two_running w)" for w using ping pong by (cases w) simp_all
    show "state (mem two_running p) = TIMER_RUNNING \<and> func_cb (mem two_running p) \<noteq> NULL"
      if "p \<in> members (tlist two_running w)" for w p
    proof (cases w)
      case PING
      then have "p = 0 \<or> p = 1" using that two_running_members(1) by simp
      then show ?thesis by auto
    next
      case PONG
      then show ?thesis using that two_running_members(2) by simp
    qed
    show "p \<notin> members (tlist two_running (future two_running))" for p
      using two_running_members(2) by (simp del: two_running_simps(1,2))
  qed simp
  show "load two_running = 2" by (simp add: load_def)
qed

text \<open>Callback 5 asks for another 50 ticks, any other callback for none.\<close>

definition some_callbacks :: "nat \<Rightarrow> callback" where
  "some_callbacks f s = (case s of (k, v) \<Rightarrow> (if f = 5 then 50 else 0, k, v))"

lemma some_callbacks_ok: "well_behaved some_callbacks"
  by (simp add: well_behaved_def some_callbacks_def)

theorem OSTimerStart_then_Get_witness:
  "\<exists>k' v' k''. OSTimerStart (Some 0) 100 demo created = Some (OK, k', v') \<and> 0 \<in> members (tlist v' (current v')) \<and>
    OSTimerGet (Some 0) k' v' = Some (100, k'')"
proof -
  have m: "min 100 TIMER_MAX_COUNTER = 100" by (simp add: TIMER_MAX_COUNTER_def config)
  show ?thesis
    using OSTimerStart_then_Get [of created 0 demo 100] created_ok by (auto simp: demo_facts m)
qed

theorem OSTimerStop_removes_witness:
  "\<exists>k' v'. OSTimerStop (Some 0) 1 demo two_running = Some (OK, k', v') \<and> members (tlist v' PING) = {1} \<and>
    state (mem v' 0) = TIMER_NOT_ALLOCATED"
proof -
  have "\<forall>q \<in> members (tlist two_running PING). q \<noteq> 0 \<longrightarrow> timeout (mem two_running q) > 0"
    unfolding two_running_members by simp
  moreover have "0 \<in> members (tlist two_running PING)" "members (tlist two_running PING) - {0} = {1}"
    unfolding two_running_members by auto
  moreover have "PING = (if timeout (mem two_running 0) \<ge> OSTickCounter demo then current two_running else future two_running)"
    by (simp add: demo_facts)
  ultimately show ?thesis using OSTimerStop_removes [of two_running 0 PING demo 1] two_running_ok(1) by auto
qed

theorem expired_loop_fires_witness:
  "\<exists>t' k' v'. expired_loop some_callbacks PING (0, demo\<lparr>OSTickCounter := 20\<rparr>, two_running) = Some (t', k', v') \<and>
    timers_ok v' \<and> mem v' 1 = mem two_running 1 \<and> expired 20 PING v' = {}"
proof -
  have "1 \<notin> expired 20 PING two_running" by (simp add: expired_def)
  then show ?thesis
    using expired_loop_fires [of two_running "demo\<lparr>OSTickCounter := 20\<rparr>" some_callbacks 0] two_running_ok some_callbacks_ok
    by auto
qed

theorem early_turn_fires_all_witness:
  "\<exists>t1 k1 v1. late_loop some_callbacks PING (0, snd (OSGetTickCount demo), two_running) = Some (t1, k1, v1) \<and>
    members (tlist v1 PING) = {} \<and> (state (mem v1 1) = TIMER_NOT_ALLOCATED \<or> 1 \<in> members (tlist v1 PONG))"
proof -
  have "1 \<in> members (tlist two_running PING)" unfolding two_running_members by simp
  moreover have "PING \<noteq> PONG" by simp
  moreover have "OSTickCounter demo = 0" by (simp add: demo_facts)
  moreover have "first_timer (current two_running) two_running = Some 0" by (simp add: first_timer_def)
  ultimately show ?thesis
    using early_turn_fires_all [of two_running some_callbacks demo 0 0] two_running_ok some_callbacks_ok
      late_loop_fires_all [of two_running some_callbacks 0 "snd (OSGetTickCount demo)"] by auto
qed

theorem timer_across_wrap_is_lost_witness:
  "\<exists>k' v'. OSTimerStart (Some 0) 100 (demo\<lparr>OSTickCounter := 65500\<rparr>) created = Some (OK, k', v') \<and> 0 \<in> members (tlist v' (future v')) \<and>
    turns some_callbacks [demo, demo] (0, v') = Some (0, v')"
proof -
  have "first_timer (current created) created = NULL" by (simp add: first_timer_def)
  moreover have "100 \<le> TIMER_MAX_COUNTER" by (simp add: TIMER_MAX_COUNTER_def config)
  ultimately show ?thesis
    using timer_across_wrap_is_lost [of created 0 "demo\<lparr>OSTickCounter := 65500\<rparr>" 100 0 some_callbacks] created_ok
    by (auto simp del: turns.simps)
qed

text \<open>
  Where the conditions of \<open>OSTimerStop_removes\<close> fail. With timer 0 at instant 0, stopping timer 1 takes timer 0 out of
  the list; and a timer whose instant has passed before the timer task ran is looked for in the other list,
  whose array is read through a null pointer when it is empty.
\<close>

definition tied :: timer_vector where
  "tied = upd_timer 0 (\<lambda>b. b\<lparr>timeout := 0\<rparr>) two_running"

lemma stop_takes_the_other:
  "map_option (\<lambda>(r, k, v). (r, map (timers (tlist v PING)) [1, 2], state (mem v 0), state (mem v 1))) (OSTimerStop (Some 1) 0 demo tied) =
    Some (OK, [Some 1, NULL], TIMER_RUNNING, TIMER_STOPPED)"
  by code_simp

lemma stop_expired_undefined: "OSTimerStop (Some 0) 0 (demo\<lparr>OSTickCounter := 20\<rparr>) two_running = None"
  by code_simp

end
