(* ===== verification/Chains.thy ===== *)
theory Chains
  imports Prelude
begin

text \<open>
  Doubly linked chains of indices, given by a successor and a predecessor function: removing and
  inserting a node by the usual two assignments.
\<close>

definition chain :: "('a \<Rightarrow> 'a) \<Rightarrow> ('a \<Rightarrow> 'a) \<Rightarrow> 'a list \<Rightarrow> bool" where
  "chain N P xs \<longleftrightarrow> successively (\<lambda>a b. N a = b \<and> P b = a) xs"

lemma chain_simps [simp]:
  "chain N P []" "chain N P [x]" "chain N P (x # y # xs) \<longleftrightarrow> N x = y \<and> P y = x \<and> chain N P (y # xs)"
  by (simp_all add: chain_def)

text \<open>A relation between neighbours of a list splits at any element.\<close>

lemma succ_app:
  "successively R (xs @ y # ys) \<longleftrightarrow> successively R (xs @ [y]) \<and> successively R (y # ys)"
proof (induction xs rule: induct_list012)
  case (3 x z zs)
  show ?case using 3(2) by simp
qed simp_all

lemma succ_link: "successively R (xs @ a # b # ys) \<Longrightarrow> R a b"
  using succ_app [of R xs a "b # ys"] by simp

lemma succ_remove:
  assumes "successively R (xs @ a # c # b # ys)" "R' a b"
    "\<And>u v. u \<in> set (xs @ a # c # b # ys) \<Longrightarrow> v \<in> set (xs @ a # c # b # ys) \<Longrightarrow> R u v \<Longrightarrow> R' u v"
  shows "successively R' (xs @ a # b # ys)"
proof -
  have "successively R (xs @ [a])" "successively R (b # ys)"
    using assms(1) succ_app [of R xs a "c # b # ys"] succ_app [of R "xs @ [a, c]" b ys] by simp_all
  then have "successively R' (xs @ [a])" "successively R' (b # ys)"
    using assms(3) by (auto elim!: successively_mono)
  then show ?thesis using assms(2) succ_app [of R' xs a "b # ys"] by simp
qed

lemma succ_insert:
  assumes "successively R (xs @ a # b # ys)" "R' a c" "R' c b"
    "\<And>u v. u \<in> set (xs @ a # b # ys) \<Longrightarrow> v \<in> set (xs @ a # b # ys) \<Longrightarrow> R u v \<Longrightarrow> R' u v"
  shows "successively R' (xs @ a # c # b # ys)"
proof -
  have "successively R (xs @ [a])" "successively R (b # ys)"
    using assms(1) succ_app [of R xs a "b # ys"] succ_app [of R "xs @ [a]" b ys] by simp_all
  then have "successively R' (xs @ [a])" "successively R' (b # ys)"
    using assms(4) by (auto elim!: successively_mono)
  then show ?thesis using assms(2,3) succ_app [of R' xs a "c # b # ys"] by simp
qed

lemma chain_app:
  "chain N P (xs @ y # ys) \<longleftrightarrow> chain N P (xs @ [y]) \<and> chain N P (y # ys)"
  unfolding chain_def by (rule succ_app)

lemma chain_link: "chain N P (xs @ a # b # ys) \<Longrightarrow> N a = b \<and> P b = a"
  using chain_app [of N P xs a "b # ys"] by simp

lemma in_set_tlD: "x \<in> set (tl xs) \<Longrightarrow> x \<in> set xs"
  by (cases xs) simp_all

text \<open>Only the successors of all but the last and the predecessors of all but the first matter.\<close>

lemma chain_cong:
  assumes "\<And>a. a \<in> set (butlast xs) \<Longrightarrow> N' a = N a" "\<And>b. b \<in> set (tl xs) \<Longrightarrow> P' b = P b"
  shows "chain N' P' xs \<longleftrightarrow> chain N P xs"
  using assms
proof (induction xs rule: induct_list012)
  case (3 x y zs)
  have "chain N' P' (y # zs) \<longleftrightarrow> chain N P (y # zs)"
  proof (rule 3(2))
    show "N' a = N a" if "a \<in> set (butlast (y # zs))" for a using 3(3) [of a] that by simp
    show "P' b = P b" if "b \<in> set (tl (y # zs))" for b using 3(4) [of b] that by simp
  qed
  moreover have "N' x = N x" "P' y = P y" using 3(3) [of x] 3(4) [of y] by simp_all
  ultimately show ?case by simp
qed simp_all

lemma chain_upd_N_last: "distinct (xs @ [a]) \<Longrightarrow> chain (N(a := v)) P (xs @ [a]) \<longleftrightarrow> chain N P (xs @ [a])"
  by (rule chain_cong) auto

lemma chain_upd_P_first: "distinct (a # xs) \<Longrightarrow> chain N (P(a := v)) (a # xs) \<longleftrightarrow> chain N P (a # xs)"
  by (rule chain_cong) auto

lemma chain_upd_notin:
  "a \<notin> set xs \<Longrightarrow> chain (N(a := v)) P xs \<longleftrightarrow> chain N P xs"
  "a \<notin> set xs \<Longrightarrow> chain N (P(a := v)) xs \<longleftrightarrow> chain N P xs"
  by (rule chain_cong; auto dest: in_set_butlastD in_set_tlD)+

lemma chain_remove:
  assumes "chain N P (xs @ a # c # b # ys)" "distinct (xs @ a # c # b # ys)"
  shows "chain (N(a := b)) (P(b := a)) (xs @ a # b # ys)"
proof -
  have l: "chain N P (xs @ [a])" and r: "chain N P (b # ys)"
    using assms(1) chain_app [of N P xs a "c # b # ys"] chain_app [of N P "xs @ [a, c]" b ys] by simp_all
  have "chain (N(a := b)) (P(b := a)) (xs @ [a])"
    using l assms(2) by (subst chain_cong [of _ _ N _ P]) (auto dest: in_set_tlD)
  moreover have "chain (N(a := b)) (P(b := a)) (b # ys)"
    using r assms(2) by (subst chain_cong [of _ _ N _ P]) (auto dest: in_set_butlastD split: if_splits)
  ultimately show ?thesis using chain_app [of "N(a := b)" "P(b := a)" xs a "b # ys"] by simp
qed

lemma chain_insert:
  assumes "chain N P (xs @ a # b # ys)" "distinct (xs @ a # b # ys)" "c \<notin> set (xs @ a # b # ys)"
  shows "chain (N(c := b, a := c)) (P(c := a, b := c)) (xs @ a # c # b # ys)"
proof -
  have l: "chain N P (xs @ [a])" and r: "chain N P (b # ys)"
    using assms(1) chain_app [of N P xs a "b # ys"] chain_app [of N P "xs @ [a]" b ys] by simp_all
  have "chain (N(c := b, a := c)) (P(c := a, b := c)) (xs @ [a])"
    using l assms(2,3) by (subst chain_cong [of _ _ N _ P]) (auto dest: in_set_tlD)
  moreover have "chain (N(c := b, a := c)) (P(c := a, b := c)) (b # ys)"
    using r assms(2,3) by (subst chain_cong [of _ _ N _ P]) (auto dest: in_set_butlastD split: if_splits)
  moreover have "a \<noteq> c" "b \<noteq> c" using assms(3) by auto
  ultimately show ?thesis using chain_app [of "N(c := b, a := c)" "P(c := a, b := c)" xs a "c # b # ys"] by simp
qed

text \<open>The last node renamed.\<close>

lemma chain_relast:
  assumes "chain N P (xs @ [a, b])" "distinct (xs @ [a, b])" "c \<notin> set (xs @ [a, b])"
  shows "chain (N(a := c)) (P(c := a)) (xs @ [a, c])"
proof -
  have l: "chain N P (xs @ [a])" using assms(1) chain_app [of N P xs a "[b]"] by simp
  have "chain (N(a := c)) (P(c := a)) (xs @ [a])"
    using l assms(2,3) by (subst chain_cong [of _ _ N _ P]) (auto dest: in_set_tlD)
  then show ?thesis using chain_app [of "N(a := c)" "P(c := a)" xs a "[c]"] by simp
qed

text \<open>A chain is determined by where it starts and ends.\<close>

lemma chain_unique:
  assumes "chain N P (xs @ [z])" "chain N P (ys @ [z])" "hd (xs @ [z]) = hd (ys @ [z])"
    "z \<notin> set xs" "z \<notin> set ys"
  shows "xs = ys"
  using assms
proof (induction xs arbitrary: ys)
  case Nil
  then show ?case by (cases ys) auto
next
  case (Cons x xs)
  then obtain y ys' where ys: "ys = y # ys'" "x = y" by (cases ys) auto
  have "N x = hd (xs @ [z])" "N x = hd (ys' @ [z])" using Cons.prems(1,2) ys by (cases xs; cases ys'; simp)+
  moreover have "chain N P (xs @ [z])" "chain N P (ys' @ [z])"
    using Cons.prems(1,2) ys by (cases xs; cases ys'; simp)+
  ultimately have "xs = ys'" using Cons.IH [of ys'] Cons.prems(4,5) ys by simp
  then show ?case using ys by simp
qed

lemma split_at:
  assumes "c \<in> set xs"
  obtains us vs where "xs = us @ c # vs"
  using assms by (meson split_list)

end
