(* ===== verification/Umm_Layout.thy ===== *)
theory Umm_Layout
  imports Chains
begin

text \<open>
  The shape of the allocator's heap, seen as five functions on block numbers: the next and previous
  block, the next and previous free block, and the flag of free blocks. The list \<open>bs\<close> holds the blocks in
  order of address, from blocks 0 and 1 to the unused rest, \<open>fs\<close> the free blocks in the order of the free
  list, which starts at block 0 and ends at the rest. No two neighbouring blocks are free.
\<close>

definition layout ::
  "(nat \<Rightarrow> nat) \<Rightarrow> (nat \<Rightarrow> nat) \<Rightarrow> (nat \<Rightarrow> nat) \<Rightarrow> (nat \<Rightarrow> nat) \<Rightarrow> (nat \<Rightarrow> bool) \<Rightarrow> nat list \<Rightarrow> nat list \<Rightarrow> bool" where
  "layout nx pv nf pf fr bs fs \<longleftrightarrow>
     (\<exists>rs. bs = 0 # 1 # rs) \<and> sorted_wrt (<) bs \<and> (\<forall>b \<in> set bs. b < 128) \<and>
     chain nx pv bs \<and> nx (last bs) = 0 \<and> \<not> fr (last bs) \<and> \<not> fr 0 \<and>
     distinct fs \<and> set fs = {b \<in> set bs. fr b} \<and> chain nf pf (0 # fs @ [last bs]) \<and> nf (last bs) = 0 \<and>
     successively (\<lambda>a b. \<not> (fr a \<and> fr b)) bs"

lemma layoutI:
  assumes "\<exists>rs. bs = 0 # 1 # rs" "sorted_wrt (<) bs" "\<forall>b \<in> set bs. b < 128" "chain nx pv bs" "nx (last bs) = 0"
    "\<not> fr (last bs)" "\<not> fr 0" "distinct fs" "set fs = {b \<in> set bs. fr b}" "chain nf pf (0 # fs @ [last bs])"
    "nf (last bs) = 0" "successively (\<lambda>a b. \<not> (fr a \<and> fr b)) bs"
  shows "layout nx pv nf pf fr bs fs"
  unfolding layout_def using assms by (intro conjI)

lemma layout_bs:
  assumes "layout nx pv nf pf fr bs fs"
  shows "\<exists>rs. bs = 0 # 1 # rs" "\<forall>b \<in> set bs. b < 128" "distinct fs"
  using assms unfolding layout_def by blast+

lemma sorted_lt_distinct: "sorted_wrt (<) (xs :: nat list) \<Longrightarrow> distinct xs"
  by (simp add: strict_sorted_iff)

lemma layoutD:
  assumes "layout nx pv nf pf fr bs fs"
  shows "bs \<noteq> []" "0 \<in> set bs" "last bs \<in> set bs" "0 < last bs" "last bs < 128" "b \<in> set bs \<Longrightarrow> b < 128" "distinct bs"
    "sorted_wrt (<) bs" "chain nx pv bs" "nx (last bs) = 0" "\<not> fr (last bs)" "\<not> fr 0"
    "distinct (0 # fs @ [last bs])" "set fs = {b \<in> set bs. fr b}" "chain nf pf (0 # fs @ [last bs])" "nf (last bs) = 0"
    "successively (\<lambda>a b. \<not> (fr a \<and> fr b)) bs" "b \<in> set bs \<Longrightarrow> b \<le> last bs"
proof -
  obtain rs where rs: "bs = 0 # 1 # rs" using assms unfolding layout_def by blast
  have sorted: "sorted_wrt (<) bs" using assms unfolding layout_def by blast
  show "bs \<noteq> []" "0 \<in> set bs" "last bs \<in> set bs" using rs by auto
  then show l: "last bs < 128" using assms unfolding layout_def by blast
  have "last bs \<in> set (1 # rs)" using rs by auto
  then show pos: "0 < last bs" using sorted rs by auto
  show "b \<le> last bs" if "b \<in> set bs"
  proof -
    obtain zs z where z: "bs = zs @ [z]" using \<open>bs \<noteq> []\<close> by (metis append_butlast_last_id)
    then have "\<forall>x \<in> set zs. x < z" using sorted by (simp add: sorted_wrt_append)
    then show ?thesis using that z by (auto intro: less_imp_le)
  qed
  show "distinct bs" "sorted_wrt (<) bs" using sorted sorted_lt_distinct by blast+
  have fs: "set fs = {b \<in> set bs. fr b}" "\<not> fr (last bs)" "\<not> fr 0" "distinct fs" using assms unfolding layout_def by blast+
  then show "distinct (0 # fs @ [last bs])" using pos by auto
qed (use assms in \<open>unfold layout_def, blast+\<close>)

text \<open>A block other than the last, with its neighbours.\<close>

lemma layout_split_block:
  assumes "layout nx pv nf pf fr bs fs" "c \<in> set bs" "c \<noteq> last bs"
  obtains us vs where "bs = us @ c # nx c # vs" "c < nx c" "pv (nx c) = c"
proof -
  obtain us ws where s: "bs = us @ c # ws" using assms(2) by (meson split_list)
  then obtain n vs where n: "ws = n # vs" using assms(3) by (cases ws) auto
  have "nx c = n \<and> pv n = c" using layoutD(9) [OF assms(1)] chain_link unfolding s n by fast
  moreover have "c < n" using layoutD(8) [OF assms(1)] unfolding s n by (simp add: sorted_wrt_append)
  ultimately show thesis using that s n by blast
qed

lemma layout_next_in:
  assumes "layout nx pv nf pf fr bs fs" "c \<in> set bs" "c \<noteq> last bs"
  shows "nx c \<in> set bs" "c < nx c" "pv (nx c) = c" "\<not> (fr c \<and> fr (nx c))"
    "b \<in> set bs \<Longrightarrow> c < b \<Longrightarrow> nx c \<le> b"
proof -
  obtain us vs where s: "bs = us @ c # nx c # vs" "c < nx c" "pv (nx c) = c" by (rule layout_split_block [OF assms])
  show "nx c \<in> set bs" using s(1) by (metis in_set_conv_decomp append.assoc append_Cons append_Nil)
  show "c < nx c" "pv (nx c) = c" by fact+
  show "\<not> (fr c \<and> fr (nx c))" using layoutD(17) [OF assms(1)] succ_link s(1) by fastforce
  show "nx c \<le> b" if b: "b \<in> set bs" "c < b"
  proof -
    have "sorted_wrt (<) (us @ c # nx c # vs)" using layoutD(8) [OF assms(1)] s(1) by simp
    moreover have "b \<in> set (us @ c # nx c # vs)" using b s(1) by simp
    ultimately show ?thesis using b(2) by (auto simp: sorted_wrt_append)
  qed
qed

text \<open>A block other than the first.\<close>

lemma layout_prev_in:
  assumes "layout nx pv nf pf fr bs fs" "c \<in> set bs" "c \<noteq> 0"
  shows "pv c \<in> set bs" "nx (pv c) = c" "pv c < c"
proof -
  obtain us ws where s: "bs = us @ c # ws" using assms(2) by (meson split_list)
  have "us \<noteq> []" using s assms(1,3) unfolding layout_def by auto
  then obtain us' p where u: "us = us' @ [p]" by (metis append_butlast_last_id)
  have s': "bs = us' @ p # c # ws" using s u by simp
  have l: "nx p = c \<and> pv c = p" using layoutD(9) [OF assms(1)] chain_link unfolding s' by fast
  moreover have "p < c" using layoutD(8) [OF assms(1)] unfolding s' by (simp add: sorted_wrt_append)
  ultimately show "pv c \<in> set bs" "nx (pv c) = c" "pv c < c" using s' by simp_all
qed

text \<open>A free block with its neighbours in the free list.\<close>

lemma layout_split_free:
  assumes "layout nx pv nf pf fr bs fs" "c \<in> set fs"
  obtains us vs where "0 # fs @ [last bs] = us @ pf c # c # nf c # vs" "us @ pf c # nf c # vs = 0 # remove1 c fs @ [last bs]"
proof -
  obtain us vs where s: "fs = us @ c # vs" using assms(2) by (meson split_list)
  define xs where "xs = 0 # us"
  define ys where "ys = vs @ [last bs]"
  have "xs \<noteq> []" by (simp add: xs_def)
  then obtain us' a where a: "xs = us' @ [a]" by (metis append_butlast_last_id)
  have "ys \<noteq> []" by (simp add: ys_def)
  then obtain b vs' where b: "ys = b # vs'" by (cases ys) auto
  have e: "0 # fs @ [last bs] = us' @ a # c # b # vs'" using s a b by (simp add: xs_def ys_def)
  have ch: "chain nf pf (us' @ a # c # b # vs')" using layoutD(15) [OF assms(1)] unfolding e .
  have "nf a = c \<and> pf c = a" using chain_link [OF ch] .
  moreover have "nf c = b \<and> pf b = c" using chain_link [of nf pf "us' @ [a]" c b vs'] ch by simp
  moreover have "us' @ a # b # vs' = 0 # remove1 c fs @ [last bs]"
  proof -
    have "c \<notin> set us" using layoutD(13) [OF assms(1)] s by auto
    then have "remove1 c fs = us @ vs" using s by (simp add: remove1_append)
    then show ?thesis using a b by (simp add: xs_def ys_def)
  qed
  ultimately show thesis using that [of us' vs'] e by simp
qed

lemma layout_free_in:
  assumes "layout nx pv nf pf fr bs fs"
  shows "nf 0 = last bs \<or> nf 0 \<in> set fs" "nf 0 \<in> set bs" "c \<in> set fs \<Longrightarrow> nf c = last bs \<or> nf c \<in> set fs"
    "c \<in> set fs \<Longrightarrow> pf c = 0 \<or> pf c \<in> set fs" "pf (last bs) = 0 \<or> pf (last bs) \<in> set fs" "pf (nf 0) = 0"
    "nf (pf (last bs)) = last bs" "c \<in> set fs \<Longrightarrow> nf c \<noteq> 0"
proof -
  note ch = layoutD(15) [OF assms]
  have f: "nf 0 = hd (fs @ [last bs]) \<and> pf (hd (fs @ [last bs])) = 0" using ch by (cases fs) simp_all
  show a: "nf 0 = last bs \<or> nf 0 \<in> set fs" using f by (cases fs) simp_all
  show "pf (nf 0) = 0" using f by simp
  show "nf 0 \<in> set bs" using a layoutD(3) [OF assms] unfolding layoutD(14) [OF assms] by (elim disjE) simp_all
  show "nf c = last bs \<or> nf c \<in> set fs" "pf c = 0 \<or> pf c \<in> set fs" if c: "c \<in> set fs"
  proof -
    obtain us vs where s: "0 # fs @ [last bs] = us @ pf c # c # nf c # vs" by (rule layout_split_free [OF assms c]) blast
    have d: "distinct (us @ pf c # c # nf c # vs)" using layoutD(13) [OF assms] s by metis
    have m: "x \<in> set (us @ pf c # c # nf c # vs) \<Longrightarrow> x = 0 \<or> x \<in> set fs \<or> x = last bs" for x
      unfolding s [symmetric] by auto
    have "nf c \<noteq> hd (us @ pf c # c # nf c # vs)" using d by (cases us) auto
    then have n0: "nf c \<noteq> 0" unfolding s [symmetric] by simp
    have "pf c \<noteq> last (us @ pf c # c # nf c # vs)" using d by (auto simp: last_append)
    then have pl: "pf c \<noteq> last bs" unfolding s [symmetric] by simp
    show "nf c = last bs \<or> nf c \<in> set fs" using m [of "nf c"] n0 by auto
    show "pf c = 0 \<or> pf c \<in> set fs" using m [of "pf c"] pl by auto
  qed
  have "0 \<notin> set fs" "last bs \<noteq> 0" using layoutD(13) [OF assms] by auto
  then show "nf c \<noteq> 0" if "c \<in> set fs" using \<open>c \<in> set fs \<Longrightarrow> nf c = last bs \<or> nf c \<in> set fs\<close> that by metis
  have e: "chain nf pf (butlast (0 # fs) @ last (0 # fs) # last bs # [])"
    using ch append_butlast_last_id [of "0 # fs"] by (metis append.assoc append_Cons append_Nil list.distinct(1))
  have "nf (last (0 # fs)) = last bs \<and> pf (last bs) = last (0 # fs)" by (rule chain_link [OF e])
  then show "pf (last bs) = 0 \<or> pf (last bs) \<in> set fs" "nf (pf (last bs)) = last bs" by auto
qed

subsection \<open>Congruence\<close>

lemma layout_cong:
  assumes "layout nx pv nf pf fr bs fs"
    "\<And>b. b \<in> set bs \<Longrightarrow> nx' b = nx b" "\<And>b. b \<in> set bs \<Longrightarrow> b \<noteq> 0 \<Longrightarrow> pv' b = pv b" "\<And>b. b \<in> set bs \<Longrightarrow> fr' b = fr b"
    "\<And>b. b = 0 \<or> b = last bs \<or> b \<in> set fs \<Longrightarrow> nf' b = nf b" "\<And>b. b = last bs \<or> b \<in> set fs \<Longrightarrow> pf' b = pf b"
  shows "layout nx' pv' nf' pf' fr' bs fs"
proof -
  note l = layoutD [OF assms(1)]
  obtain rs where rs: "bs = 0 # 1 # rs" using assms(1) unfolding layout_def by blast
  have tl: "b \<in> set bs \<and> b \<noteq> 0" if "b \<in> set (tl bs)" for b
    using that l(8) unfolding rs by auto
  have ch: "chain nx' pv' bs"
    using l(9) by (subst chain_cong [of bs nx' nx pv' pv]) (use assms(2,3) tl in \<open>auto dest: in_set_butlastD\<close>)
  have ch2: "chain nf' pf' (0 # fs @ [last bs])"
    using l(15) by (subst chain_cong [of _ nf' nf pf' pf]) (use assms(5,6) in \<open>auto dest: in_set_butlastD split: if_splits\<close>)
  have "successively (\<lambda>a b. \<not> (fr' a \<and> fr' b)) bs"
    by (rule successively_mono [OF l(17)]) (simp add: assms(4))
  moreover have "set fs = {b \<in> set bs. fr' b}" unfolding l(14) using assms(4) by blast
  ultimately show ?thesis
    using layout_bs [OF assms(1)] l(2,3,8,10-13,16) ch ch2 assms(2,4,5) by (intro layoutI) auto
qed

subsection \<open>The changes operations make\<close>

lemma layout_unlink:
  assumes "layout nx pv nf pf fr bs fs" "c \<in> set fs"
  shows "layout nx pv (nf(pf c := nf c)) (pf(nf c := pf c)) (fr(c := False)) bs (remove1 c fs)"
proof -
  note l = layoutD [OF assms(1)]
  obtain us vs where s: "0 # fs @ [last bs] = us @ pf c # c # nf c # vs" "us @ pf c # nf c # vs = 0 # remove1 c fs @ [last bs]"
    by (rule layout_split_free [OF assms])
  have "chain nf pf (us @ pf c # c # nf c # vs)" "distinct (us @ pf c # c # nf c # vs)"
    by (rule l(15) [unfolded s(1)], rule l(13) [unfolded s(1)])
  then have "chain (nf(pf c := nf c)) (pf(nf c := pf c)) (us @ pf c # nf c # vs)" by (rule chain_remove)
  then have ch: "chain (nf(pf c := nf c)) (pf(nf c := pf c)) (0 # remove1 c fs @ [last bs])" unfolding s(2) .
  have "pf c = 0 \<or> pf c \<in> set fs" by (rule layout_free_in(4) [OF assms])
  moreover have "fr (pf c)" if "pf c \<in> set fs" using l(14) that by blast
  ultimately have pl: "last bs \<noteq> pf c" using l(4,11) by (metis less_irrefl)
  show ?thesis
  proof (rule layoutI)
    show "(nf(pf c := nf c)) (last bs) = 0" using l(16) pl by simp
    show "successively (\<lambda>a b. \<not> ((fr(c := False)) a \<and> (fr(c := False)) b)) bs"
      by (rule successively_mono [OF l(17)]) auto
    have "set (remove1 c fs) = set fs - {c}" using l(13) by simp
    then show "set (remove1 c fs) = {b \<in> set bs. (fr(c := False)) b}" unfolding l(14) by auto
    show "distinct (remove1 c fs)" using l(13) by simp
  qed (use layout_bs [OF assms(1)] ch l(8-12) in auto)
qed

lemma layout_push:
  assumes "layout nx pv nf pf fr bs fs" "c \<in> set bs" "c \<noteq> 0" "c \<noteq> last bs" "\<not> fr c" "\<not> fr (nx c)" "\<not> fr (pv c)"
  shows "layout nx pv (nf(c := nf 0, 0 := c)) (pf(c := 0, nf 0 := c)) (fr(c := True)) bs (c # fs)"
proof -
  note l = layoutD [OF assms(1)]
  obtain us vs where s: "bs = us @ c # nx c # vs" "c < nx c" "pv (nx c) = c"
    by (rule layout_split_block [OF assms(1,2,4)])
  have cf: "c \<notin> set fs" using l(14) assms(5) by simp
  have e: "0 # fs @ [last bs] = [] @ 0 # nf 0 # tl (fs @ [last bs])" using l(15) by (cases fs) simp_all
  have "c \<notin> set (0 # fs @ [last bs])" using cf assms(3,4) by simp
  then have ch1: "chain (nf(c := nf 0, 0 := c)) (pf(c := 0, nf 0 := c)) ([] @ 0 # c # nf 0 # tl (fs @ [last bs]))"
    using l(13,15) unfolding e by (intro chain_insert)
  have e2: "0 # (c # fs) @ [last bs] = [] @ 0 # c # nf 0 # tl (fs @ [last bs])" using e by simp
  have ch: "chain (nf(c := nf 0, 0 := c)) (pf(c := 0, nf 0 := c)) (0 # (c # fs) @ [last bs])"
    unfolding e2 by (rule ch1)
  have adj: "successively (\<lambda>a b. \<not> ((fr(c := True)) a \<and> (fr(c := True)) b)) bs"
    unfolding successively_conv_nth
  proof (intro allI impI notI)
    fix i assume i: "Suc i < length bs" and f: "(fr(c := True)) (bs ! i) \<and> (fr(c := True)) (bs ! Suc i)"
    have nx: "nx (bs ! i) = bs ! Suc i \<and> pv (bs ! Suc i) = bs ! i"
      using l(9) i unfolding chain_def by (rule successively_nth)
    have "\<not> (fr (bs ! i) \<and> fr (bs ! Suc i))" using successively_nth [OF l(17) i] .
    then have "bs ! i = c \<or> bs ! Suc i = c" using f by (auto split: if_splits)
    moreover have "bs ! i \<noteq> bs ! Suc i" using l(7) i by (simp add: nth_eq_iff_index_eq)
    ultimately show False using f nx assms(6,7) by (auto split: if_splits)
  qed
  show ?thesis
  proof (rule layoutI [OF _ _ _ _ _ _ _ _ _ ch _ adj])
    show "(nf(c := nf 0, 0 := c)) (last bs) = 0" using l(4,16) assms(4) by simp
    show "set (c # fs) = {b \<in> set bs. (fr(c := True)) b}" unfolding list.set(2) l(14)
      by (rule set_eqI) (use assms(2) in auto)
    show "distinct (c # fs)" using l(13) cf by simp
    show "\<not> (fr(c := True)) (last bs)" "\<not> (fr(c := True)) 0" using l(11,12) assms(3,4) by simp_all
  qed (use layout_bs [OF assms(1)] l(8-10) in auto)
qed

lemma layout_divide:
  assumes "layout nx pv nf pf fr bs fs" "c \<in> set fs" "c < m" "m < nx c"
  obtains bs' where "layout (nx(m := nx c, c := m)) (pv(m := c, nx c := m)) nf pf (fr(m := False)) bs' fs"
    "set bs' = insert m (set bs)" "last bs' = last bs" "m \<notin> set bs"
proof -
  note l = layoutD [OF assms(1)]
  have c: "c \<in> set bs" "c \<noteq> last bs" "fr c" using l(11,14) assms(2) by auto
  obtain us vs where s: "bs = us @ c # nx c # vs" "c < nx c" "pv (nx c) = c" by (rule layout_split_block [OF assms(1) c(1,2)])
  define bs' where "bs' = us @ c # m # nx c # vs"
  have srt: "sorted_wrt (<) (us @ c # nx c # vs)" using l(8) s(1) by simp
  have mn: "m \<notin> set bs" using layout_next_in(5) [OF assms(1) c(1,2), of m] assms(3,4) by auto
  have dis: "distinct (us @ c # nx c # vs)" "m \<notin> set (us @ c # nx c # vs)" using l(7) mn s(1) by simp_all
  have set': "set bs' = insert m (set bs)" by (subst s(1)) (auto simp: bs'_def)
  have last': "last bs' = last bs" by (subst s(1)) (simp add: bs'_def)
  have lm: "last bs \<noteq> m" "0 \<noteq> m" using mn l(2,3) by metis+
  have "layout (nx(m := nx c, c := m)) (pv(m := c, nx c := m)) nf pf (fr(m := False)) bs' fs"
  proof (rule layoutI)
    show "chain (nx(m := nx c, c := m)) (pv(m := c, nx c := m)) bs'"
      unfolding bs'_def using chain_insert [of nx pv us c "nx c" vs m] l(9) s(1) dis by simp
    show "sorted_wrt (<) bs'" using srt assms(3,4) by (auto simp: bs'_def sorted_wrt_append)
    show "\<exists>rs. bs' = 0 # 1 # rs"
    proof -
      obtain rs where rs: "bs = 0 # 1 # rs" using layout_bs(1) [OF assms(1)] by blast
      have "us \<noteq> []" using s(1) rs c(3) l(12) by (cases us) auto
      then obtain u us2 where u: "us = u # us2" by (cases us) auto
      show ?thesis using rs s(1) u by (cases us2) (auto simp: bs'_def)
    qed
    show "successively (\<lambda>a b. \<not> ((fr(m := False)) a \<and> (fr(m := False)) b)) bs'"
      unfolding bs'_def by (rule succ_insert [of "\<lambda>a b. \<not> (fr a \<and> fr b)"]) (use l(17) s(1) in \<open>auto split: if_splits\<close>)
    show "\<forall>b \<in> set bs'. b < 128"
      using l(6) set' assms(4) layout_next_in(1) [OF assms(1) c(1,2)] by (auto intro: less_trans)
    show "set fs = {b \<in> set bs'. (fr(m := False)) b}" unfolding l(14) set' by (rule set_eqI) (use mn in simp)
  qed (use l(10-16) c(2) lm layout_bs(3) [OF assms(1)] in \<open>simp_all add: last'\<close>)
  then show thesis using that set' last' mn by blast
qed

lemma layout_extend:
  assumes "layout nx pv nf pf fr bs fs" "last bs < m" "m < 128"
  shows "layout (nx(m := 0, last bs := m)) (pv(m := last bs)) (nf(m := 0, pf (last bs) := m)) (pf(m := pf (last bs)))
    (fr(m := False)) (bs @ [m]) fs"
proof -
  note l = layoutD [OF assms(1)]
  let ?l = "last bs"
  have mn: "m \<notin> set bs" using l(18) [of m] assms(2) by auto
  obtain zs where zs: "bs = zs @ [?l]" using l(1) append_butlast_last_id [of bs] by metis
  have ch1: "chain (nx(m := 0, ?l := m)) (pv(m := ?l)) (bs @ [m])"
  proof -
    have d: "distinct (zs @ [?l])" "m \<notin> set (zs @ [?l])" using l(7) mn zs by metis+
    have "chain (nx(m := 0, ?l := m)) (pv(m := ?l)) (zs @ [?l]) \<longleftrightarrow> chain nx pv (zs @ [?l])"
      by (rule chain_cong) (use d in \<open>auto dest: in_set_tlD\<close>)
    then have "chain (nx(m := 0, ?l := m)) (pv(m := ?l)) (zs @ [?l])" using l(9) zs by metis
    then have "chain (nx(m := 0, ?l := m)) (pv(m := ?l)) (zs @ ?l # [m])"
      using chain_app [of "nx(m := 0, ?l := m)" "pv(m := ?l)" zs ?l "[m]"] assms(2) by simp
    moreover have "zs @ ?l # [m] = bs @ [m]" using zs by (metis append.assoc append_Cons append_Nil)
    ultimately show ?thesis by metis
  qed
  have mf: "m \<notin> set fs" "m \<noteq> 0" "m \<noteq> ?l" using mn unfolding l(14) by (simp, metis l(2), metis l(3))
  have ch2: "chain (nf(m := 0, pf ?l := m)) (pf(m := pf ?l)) (0 # fs @ [m])"
  proof -
    obtain us a where u: "0 # fs = us @ [a]" using append_butlast_last_id [of "0 # fs"] by (metis list.distinct(1))
    have e: "0 # fs @ [x] = us @ [a, x]" for x
    proof -
      have "(0 # fs) @ [x] = us @ [a, x]" unfolding u by simp
      then show ?thesis by simp
    qed
    have "chain nf pf (us @ a # ?l # [])" by (rule l(15) [unfolded e])
    then have p: "pf ?l = a" using chain_link by fast
    have mf2: "m \<notin> set (0 # fs @ [?l])" using mf by simp
    have d: "distinct (us @ [a, ?l])" "m \<notin> set (us @ [a, ?l])" by (rule l(13) [unfolded e], rule mf2 [unfolded e])
    have "chain (nf(a := m)) (pf(m := a)) (us @ [a, m])"
      by (rule chain_relast [OF l(15) [unfolded e] d])
    moreover have "chain (nf(m := 0, a := m)) (pf(m := a)) (us @ [a, m]) \<longleftrightarrow> chain (nf(a := m)) (pf(m := a)) (us @ [a, m])"
      by (rule chain_cong) (use d in \<open>auto simp: butlast_append\<close>)
    ultimately show ?thesis unfolding p e by simp
  qed
  have pm: "pf ?l \<noteq> m" using layout_free_in(5) [OF assms(1)] mf by metis
  show ?thesis
  proof (rule layoutI [OF _ _ _ ch1])
    show "chain (nf(m := 0, pf ?l := m)) (pf(m := pf ?l)) (0 # fs @ [last (bs @ [m])])" using ch2 by simp
    show "sorted_wrt (<) (bs @ [m])" using l(8,18) assms(2) by (auto simp: sorted_wrt_append intro: le_less_trans)
    show "successively (\<lambda>a b. \<not> ((fr(m := False)) a \<and> (fr(m := False)) b)) (bs @ [m])"
      using successively_mono [OF l(17), of "\<lambda>a b. \<not> ((fr(m := False)) a \<and> (fr(m := False)) b)"]
      by (auto simp: successively_append_iff)
    show "set fs = {b \<in> set (bs @ [m]). (fr(m := False)) b}" unfolding l(14) by (rule set_eqI) (use mn in simp)
    show "\<exists>rs. bs @ [m] = 0 # 1 # rs" using layout_bs(1) [OF assms(1)] by auto
    show "(nf(m := 0, pf ?l := m)) (last (bs @ [m])) = 0" using pm by simp
    show "(nx(m := 0, ?l := m)) (last (bs @ [m])) = 0" using assms(2) by simp
    show "\<forall>b \<in> set (bs @ [m]). b < 128" using l(6) assms(3) by auto
  qed (use l(12) layout_bs(3) [OF assms(1)] assms(2) in simp_all)
qed

lemma layout_absorb:
  assumes "layout nx pv nf pf fr bs fs" "y \<in> set bs" "y \<noteq> last bs" "nx y = x" "x \<noteq> 1" "x \<noteq> last bs" "\<not> fr x"
    "\<not> (fr y \<and> fr (nx x))"
  shows "layout (nx(y := nx x)) (pv(nx x := y)) nf pf fr (remove1 x bs) fs" "set (remove1 x bs) = set bs - {x}"
    "last (remove1 x bs) = last bs"
proof -
  note l = layoutD [OF assms(1)]
  obtain us vs where s: "bs = us @ y # x # vs" "y < x" using layout_split_block [OF assms(1-3)] assms(4) by metis
  have xb: "x \<in> set bs" using s(1) by simp
  have "vs \<noteq> []" using s(1) assms(6) by auto
  then obtain n vs2 where n: "vs = n # vs2" by (cases vs) auto
  have "chain nx pv ((us @ [y]) @ x # n # vs2)" using l(9) s(1) n by simp
  then have "nx x = n" using chain_link by fast
  then have s3: "bs = us @ y # x # nx x # vs2" using s(1) n by simp
  have r: "remove1 x bs = us @ y # nx x # vs2" unfolding s3 using l(7) unfolding s3 by (auto simp: remove1_append)
  show set': "set (remove1 x bs) = set bs - {x}" using l(7) by simp
  show last': "last (remove1 x bs) = last bs" unfolding r by (subst s3) simp
  show "layout (nx(y := nx x)) (pv(nx x := y)) nf pf fr (remove1 x bs) fs"
  proof (rule layoutI)
    show "chain (nx(y := nx x)) (pv(nx x := y)) (remove1 x bs)"
    proof -
      have "chain nx pv (us @ y # x # nx x # vs2)" "distinct (us @ y # x # nx x # vs2)" using l(7,9) s3 by simp_all
      then show ?thesis unfolding r by (rule chain_remove)
    qed
    show "sorted_wrt (<) (remove1 x bs)"
    proof -
      have "sorted_wrt (<) (us @ y # x # nx x # vs2)" using l(8) s3 by simp
      then show ?thesis unfolding r by (auto simp: sorted_wrt_append)
    qed
    show "successively (\<lambda>a b. \<not> (fr a \<and> fr b)) (remove1 x bs)"
    proof -
      have "successively (\<lambda>a b. \<not> (fr a \<and> fr b)) (us @ y # x # nx x # vs2)" using l(17) s3 by simp
      then show ?thesis unfolding r by (rule succ_remove) (use assms(8) in blast)+
    qed
    show "\<exists>rs. remove1 x bs = 0 # 1 # rs"
    proof -
      obtain rs where rs: "bs = 0 # 1 # rs" using layout_bs(1) [OF assms(1)] by blast
      have "x \<noteq> 0" using s(2) by simp
      then show ?thesis using rs assms(5) by simp
    qed
    show "set fs = {b \<in> set (remove1 x bs). fr b}" unfolding l(14) set' by (rule set_eqI) (use assms(7) in auto)
    show "(nx(y := nx x)) (last (remove1 x bs)) = 0" using l(10) assms(3) last' by simp
    show "\<forall>b \<in> set (remove1 x bs). b < 128" unfolding set' using l(6) by blast
  qed (use l(11-16) last' layout_bs(3) [OF assms(1)] in simp_all)
qed

end
