(* ===== verification/Umm_Malloc.thy ===== *)
theory Umm_Malloc
  imports Hal
begin

text \<open>
  The memory allocator of the dynamic queues and tasks (\<open>hal/MemoryAllocation/umm_malloc.c\<close>), as the
  simulator configures it: first fit in a heap of \<open>DYNAMIC_HEAP_SIZE\<close> bytes. The heap is an array of
  blocks of 8 bytes. The first half of a block in use at its begin is the header, two block numbers; its
  second half are two links of the free list while the block is free, and data otherwise. A pointer into
  the heap is its distance in bytes from the start of the array.
\<close>

definition DYNAMIC_HEAP_SIZE :: nat where "DYNAMIC_HEAP_SIZE = 1 * 1024"

text \<open>\<open>header.used.next\<close>, \<open>header.used.prev\<close>, \<open>body.free.next\<close>, \<open>body.free.prev\<close>.\<close>

record umm_block =
  NBLOCK :: u16
  PBLOCK :: u16
  NFREE :: u16
  PFREE :: u16

definition sizeof_umm_block :: nat where "sizeof_umm_block = 8"
definition sizeof_body :: u32 where "sizeof_body = 4"
definition UMM_NUMBLOCKS :: nat where "UMM_NUMBLOCKS = DYNAMIC_HEAP_SIZE div sizeof_umm_block"
definition UMM_FREELIST_MASK :: u16 where "UMM_FREELIST_MASK = 0x8000"
definition UMM_BLOCKNO_MASK :: u16 where "UMM_BLOCKNO_MASK = 0x7FFF"

type_synonym umm_heap = "nat \<Rightarrow> umm_block"

text \<open>\<open>UMM_BLOCK(b)\<close>, read and changed.\<close>

definition UMM_BLOCK :: "umm_heap \<Rightarrow> nat \<Rightarrow> umm_block option" where
  "UMM_BLOCK h b = (if b < UMM_NUMBLOCKS then Some (h b) else None)"

definition upd_block :: "nat \<Rightarrow> (umm_block \<Rightarrow> umm_block) \<Rightarrow> umm_heap \<Rightarrow> umm_heap option" where
  "upd_block b f h = (if b < UMM_NUMBLOCKS then Some (h(b := f (h b))) else None)"

text \<open>The address of \<open>UMM_BLOCK(b)\<close> and of \<open>UMM_DATA(b)\<close>.\<close>

definition block_address :: "nat \<Rightarrow> nat" where "block_address b = b * sizeof_umm_block"
definition data_address :: "nat \<Rightarrow> nat" where "data_address b = b * sizeof_umm_block + 4"

subsection \<open>Helpers\<close>

definition umm_blocks :: "u32 \<Rightarrow> u16" where
  "umm_blocks bytes =
    (if bytes \<le> sizeof_body then 1
     else (let size1 = bytes - (1 + sizeof_body) in ucast (2 + size1 div word_of_nat sizeof_umm_block)))"

definition umm_make_new_block :: "u16 \<Rightarrow> u16 \<Rightarrow> u16 \<Rightarrow> umm_heap \<Rightarrow> umm_heap option" where
  "umm_make_new_block c blocks freemask h = do {
     let new = unat c + unat blocks;
     bc \<leftarrow> UMM_BLOCK h (unat c);
     h1 \<leftarrow> upd_block new (\<lambda>b. b\<lparr>NBLOCK := NBLOCK bc AND UMM_BLOCKNO_MASK\<rparr>) h;
     h2 \<leftarrow> upd_block new (\<lambda>b. b\<lparr>PBLOCK := c\<rparr>) h1;
     bc2 \<leftarrow> UMM_BLOCK h2 (unat c);
     h3 \<leftarrow> upd_block (unat (NBLOCK bc2 AND UMM_BLOCKNO_MASK)) (\<lambda>b. b\<lparr>PBLOCK := c + blocks\<rparr>) h2;
     upd_block (unat c) (\<lambda>b. b\<lparr>NBLOCK := (c + blocks) OR freemask\<rparr>) h3 }"

definition umm_disconnect_from_free_list :: "u16 \<Rightarrow> umm_heap \<Rightarrow> umm_heap option" where
  "umm_disconnect_from_free_list c h = do {
     bc \<leftarrow> UMM_BLOCK h (unat c);
     h1 \<leftarrow> upd_block (unat (PFREE bc)) (\<lambda>b. b\<lparr>NFREE := NFREE bc\<rparr>) h;
     bc1 \<leftarrow> UMM_BLOCK h1 (unat c);
     h2 \<leftarrow> upd_block (unat (NFREE bc1)) (\<lambda>b. b\<lparr>PFREE := PFREE bc1\<rparr>) h1;
     upd_block (unat c) (\<lambda>b. b\<lparr>NBLOCK := NBLOCK b AND NOT UMM_FREELIST_MASK\<rparr>) h2 }"

definition umm_assimilate_up :: "u16 \<Rightarrow> umm_heap \<Rightarrow> umm_heap option" where
  "umm_assimilate_up c h = do {
     bc \<leftarrow> UMM_BLOCK h (unat c);
     bn \<leftarrow> UMM_BLOCK h (unat (NBLOCK bc));
     if NBLOCK bn AND UMM_FREELIST_MASK \<noteq> 0 then do {
       h1 \<leftarrow> umm_disconnect_from_free_list (NBLOCK bc) h;
       bc1 \<leftarrow> UMM_BLOCK h1 (unat c);
       bn1 \<leftarrow> UMM_BLOCK h1 (unat (NBLOCK bc1));
       h2 \<leftarrow> upd_block (unat (NBLOCK bn1 AND UMM_BLOCKNO_MASK)) (\<lambda>b. b\<lparr>PBLOCK := c\<rparr>) h1;
       bc2 \<leftarrow> UMM_BLOCK h2 (unat c);
       bn2 \<leftarrow> UMM_BLOCK h2 (unat (NBLOCK bc2));
       upd_block (unat c) (\<lambda>b. b\<lparr>NBLOCK := NBLOCK bn2 AND UMM_BLOCKNO_MASK\<rparr>) h2 }
     else Some h }"

definition umm_assimilate_down :: "u16 \<Rightarrow> u16 \<Rightarrow> umm_heap \<Rightarrow> (u16 \<times> umm_heap) option" where
  "umm_assimilate_down c freemask h = do {
     bc \<leftarrow> UMM_BLOCK h (unat c);
     h1 \<leftarrow> upd_block (unat (PBLOCK bc)) (\<lambda>b. b\<lparr>NBLOCK := NBLOCK bc OR freemask\<rparr>) h;
     bc1 \<leftarrow> UMM_BLOCK h1 (unat c);
     h2 \<leftarrow> upd_block (unat (NBLOCK bc1)) (\<lambda>b. b\<lparr>PBLOCK := PBLOCK bc1\<rparr>) h1;
     bc2 \<leftarrow> UMM_BLOCK h2 (unat c);
     Some (PBLOCK bc2, h2) }"

subsection \<open>Freeing and allocating\<close>

text \<open>The block of a pointer, and its return to the free blocks.\<close>

definition free_block :: "u16 \<Rightarrow> umm_heap \<Rightarrow> umm_heap option" where
  "free_block c h = do {
     h1 \<leftarrow> umm_assimilate_up c h;
     bc \<leftarrow> UMM_BLOCK h1 (unat c);
     bp \<leftarrow> UMM_BLOCK h1 (unat (PBLOCK bc));
     if NBLOCK bp AND UMM_FREELIST_MASK \<noteq> 0 then do {
       (_, h2) \<leftarrow> umm_assimilate_down c UMM_FREELIST_MASK h1;
       Some h2 }
     else do {
       b0 \<leftarrow> UMM_BLOCK h1 0;
       h2 \<leftarrow> upd_block (unat (NFREE b0)) (\<lambda>b. b\<lparr>PFREE := c\<rparr>) h1;
       b02 \<leftarrow> UMM_BLOCK h2 0;
       h3 \<leftarrow> upd_block (unat c) (\<lambda>b. b\<lparr>NFREE := NFREE b02\<rparr>) h2;
       h4 \<leftarrow> upd_block (unat c) (\<lambda>b. b\<lparr>PFREE := 0\<rparr>) h3;
       h5 \<leftarrow> upd_block 0 (\<lambda>b. b\<lparr>NFREE := c\<rparr>) h4;
       upd_block (unat c) (\<lambda>b. b\<lparr>NBLOCK := NBLOCK b OR UMM_FREELIST_MASK\<rparr>) h5 } }"

definition umm_free :: "ptr \<Rightarrow> kernel \<Rightarrow> umm_heap \<Rightarrow> (kernel \<times> umm_heap) option" where
  "umm_free p k h =
    (case p of
       None \<Rightarrow> Some (k, h)
     | Some a \<Rightarrow> do {
         let k1 = EnterCritical k;
         h1 \<leftarrow> free_block (word_of_nat (a div sizeof_umm_block)) h;
         Some (ExitCritical k1, h1) })"

text \<open>The search for the first block that fits; a list that is a cycle is walked for ever.\<close>

partial_function (option) first_fit :: "umm_heap \<Rightarrow> u16 \<Rightarrow> u16 \<Rightarrow> u16 \<Rightarrow> (u16 \<times> u16) option" where
  "first_fit h blocks cf blockSize = do {
     b \<leftarrow> UMM_BLOCK h (unat cf);
     if NFREE b \<noteq> 0 then
       (let n = (NBLOCK b AND UMM_BLOCKNO_MASK) - cf
        in if n \<ge> blocks then Some (cf, n) else first_fit h blocks (NFREE b) n)
     else Some (cf, blockSize) }"

text \<open>A new block at the end of the blocks, after the first use has made blocks 0 and 1.\<close>

definition init_heap :: "u16 \<Rightarrow> umm_heap \<Rightarrow> (u16 \<times> umm_heap) option" where
  "init_heap cf h =
    (if cf = 0 then do {
       h1 \<leftarrow> upd_block 0 (\<lambda>b. b\<lparr>NBLOCK := 1\<rparr>) h;
       h2 \<leftarrow> upd_block 0 (\<lambda>b. b\<lparr>NFREE := 1\<rparr>) h1;
       Some (1, h2) }
     else Some (cf, h))"

definition append_block :: "u16 \<Rightarrow> u16 \<Rightarrow> umm_heap \<Rightarrow> umm_heap option" where
  "append_block cf blocks h = do {
     let new = unat cf + unat blocks;
     bc \<leftarrow> UMM_BLOCK h (unat cf);
     h1 \<leftarrow> upd_block (unat (PFREE bc)) (\<lambda>b. b\<lparr>NFREE := cf + blocks\<rparr>) h;
     bc1 \<leftarrow> UMM_BLOCK h1 (unat cf);
     h2 \<leftarrow> upd_block new (\<lambda>_. bc1) h1;
     h3 \<leftarrow> upd_block (unat cf) (\<lambda>b. b\<lparr>NBLOCK := cf + blocks\<rparr>) h2;
     upd_block new (\<lambda>b. b\<lparr>PBLOCK := cf\<rparr>) h3 }"

text \<open>
  The block found or made, or none. With first fit \<open>bestSize\<close> keeps its initial value 0x7FFF, so
  the block where the search ended is the one taken.
\<close>

definition alloc_block :: "u16 \<Rightarrow> umm_heap \<Rightarrow> (u16 option \<times> umm_heap) option" where
  "alloc_block blocks h = do {
     b0 \<leftarrow> UMM_BLOCK h 0;
     (cf, blockSize) \<leftarrow> first_fit h blocks (NFREE b0) 0;
     b \<leftarrow> UMM_BLOCK h (unat cf);
     if NBLOCK b AND UMM_BLOCKNO_MASK \<noteq> 0 then
       (if blockSize = blocks then do {
          h1 \<leftarrow> umm_disconnect_from_free_list cf h;
          Some (Some cf, h1) }
        else do {
          h1 \<leftarrow> umm_make_new_block cf (blockSize - blocks) UMM_FREELIST_MASK h;
          Some (Some (cf + (blockSize - blocks)), h1) })
     else if UMM_NUMBLOCKS \<le> unat cf + unat blocks + 1 then Some (None, h)
     else do {
       (cf1, h1) \<leftarrow> init_heap cf h;
       h2 \<leftarrow> append_block cf1 blocks h1;
       Some (Some cf1, h2) } }"

definition umm_malloc :: "u32 \<Rightarrow> kernel \<Rightarrow> umm_heap \<Rightarrow> (ptr \<times> kernel \<times> umm_heap) option" where
  "umm_malloc bytes k h =
    (if bytes = 0 then Some (NULL, k, h)
     else do {
       let k1 = EnterCritical k;
       (c, h1) \<leftarrow> alloc_block (umm_blocks bytes) h;
       Some (map_option (\<lambda>b. data_address (unat b)) c, ExitCritical k1, h1) })"

subsection \<open>Accounting\<close>

record UMM_HEAP_INFO =
  totalEntries :: u16
  usedEntries :: u16
  freeEntries :: u16
  totalBlocks :: u16
  usedBlocks :: u16
  freeBlocks :: u16

definition no_info :: UMM_HEAP_INFO where
  "no_info = \<lparr>totalEntries = 0, usedEntries = 0, freeEntries = 0, totalBlocks = 0, usedBlocks = 0, freeBlocks = 0\<rparr>"

text \<open>The loop of \<open>umm_info\<close>: the block where it ended and whether it is the one asked for.\<close>

partial_function (option) info_loop ::
  "ptr \<Rightarrow> umm_heap \<Rightarrow> u16 \<Rightarrow> UMM_HEAP_INFO \<Rightarrow> (bool \<times> u16 \<times> UMM_HEAP_INFO) option" where
  "info_loop p h blockNo i = do {
     b \<leftarrow> UMM_BLOCK h (unat blockNo);
     let next = NBLOCK b AND UMM_BLOCKNO_MASK;
     if next \<noteq> 0 then
       (let i1 = i\<lparr>totalEntries := totalEntries i + 1, totalBlocks := totalBlocks i + (next - blockNo)\<rparr>
        in if NBLOCK b AND UMM_FREELIST_MASK \<noteq> 0 then
             (let i2 = i1\<lparr>freeEntries := freeEntries i1 + 1, freeBlocks := freeBlocks i1 + (next - blockNo)\<rparr>
              in if p = Some (block_address (unat blockNo)) then Some (True, blockNo, i2)
                 else info_loop p h next i2)
           else
             (let i2 = i1\<lparr>usedEntries := usedEntries i1 + 1, usedBlocks := usedBlocks i1 + (next - blockNo)\<rparr>
              in info_loop p h next i2))
     else Some (False, blockNo, i) }"

definition umm_info :: "ptr \<Rightarrow> kernel \<Rightarrow> umm_heap \<Rightarrow> (ptr \<times> UMM_HEAP_INFO \<times> kernel) option" where
  "umm_info p k h = do {
     let k1 = EnterCritical k;
     b0 \<leftarrow> UMM_BLOCK h 0;
     (found, blockNo, i) \<leftarrow> info_loop p h (NBLOCK b0 AND UMM_BLOCKNO_MASK) no_info;
     if found then Some (p, i, ExitCritical k1)
     else
       (let rest = word_of_nat UMM_NUMBLOCKS - blockNo;
            i1 = i\<lparr>freeBlocks := freeBlocks i + rest, totalBlocks := totalBlocks i + rest\<rparr>
        in Some (NULL, i1, ExitCritical k1)) }"

definition OSGetUsedHeapSize :: "kernel \<Rightarrow> umm_heap \<Rightarrow> (u32 \<times> kernel) option" where
  "OSGetUsedHeapSize k h = do {
     (_, i, k1) \<leftarrow> umm_info NULL k h;
     Some (ucast (usedBlocks i) * word_of_nat sizeof_umm_block, k1) }"

definition OSGetFreeHeapSize :: "kernel \<Rightarrow> umm_heap \<Rightarrow> (u32 \<times> kernel) option" where
  "OSGetFreeHeapSize k h = do {
     (_, i, k1) \<leftarrow> umm_info NULL k h;
     Some (ucast (freeBlocks i) * word_of_nat sizeof_umm_block, k1) }"

text \<open>The heap as the start-up code leaves it.\<close>

definition umm_heap_init :: umm_heap where
  "umm_heap_init = (\<lambda>_. \<lparr>NBLOCK = 0, PBLOCK = 0, NFREE = 0, PFREE = 0\<rparr>)"

end
