(* ===== verification/Umm_Heap.thy ===== *)
theory Umm_Heap
  imports Umm_Layout Umm_Malloc
begin

text \<open>
  The allocator keeps its heap well formed: each operation of \<open>Umm_Malloc\<close> as a change of the layout.
\<close>

definition blk_next :: "umm_heap \<Rightarrow> nat \<Rightarrow> nat" where "blk_next h b = unat (NBLOCK (h b) AND UMM_BLOCKNO_MASK)"
definition blk_prev :: "umm_heap \<Rightarrow> nat \<Rightarrow> nat" where "blk_prev h b = unat (PBLOCK (h b))"
definition free_next :: "umm_heap \<Rightarrow> nat \<Rightarrow> nat" where "free_next h b = unat (NFREE (h b))"
definition free_prev :: "umm_heap \<Rightarrow> nat \<Rightarrow> nat" where "free_prev h b = unat (PFREE (h b))"
definition is_free :: "umm_heap \<Rightarrow> nat \<Rightarrow> bool" where "is_free h b \<longleftrightarrow> NBLOCK (h b) AND UMM_FREELIST_MASK \<noteq> 0"

definition wf_heap :: "umm_heap \<Rightarrow> nat list \<Rightarrow> nat list \<Rightarrow> bool" where
  "wf_heap h bs fs \<longleftrightarrow> layout (blk_next h) (blk_prev h) (free_next h) (free_prev h) (is_free h) bs fs"

lemma UMM_NUMBLOCKS_val [simp]: "UMM_NUMBLOCKS = 128"
  by (simp add: UMM_NUMBLOCKS_def DYNAMIC_HEAP_SIZE_def sizeof_umm_block_def)

subsection \<open>Block numbers and the flag\<close>

lemma masks: "UMM_BLOCKNO_MASK = (mask 15 :: u16)" "UMM_FREELIST_MASK = push_bit 15 (1 :: u16)"
  by (simp_all add: UMM_BLOCKNO_MASK_def UMM_FREELIST_MASK_def mask_numeral)

lemma bit_masks: "bit UMM_BLOCKNO_MASK n \<longleftrightarrow> n < 15" "bit UMM_FREELIST_MASK n \<longleftrightarrow> n = 15"
  unfolding masks by (simp_all only: bit_push_bit_iff bit_mask_iff bit_1_iff) auto

lemma flag_iff: "x AND UMM_FREELIST_MASK \<noteq> 0 \<longleftrightarrow> bit (x :: u16) 15"
proof
  assume "bit x 15"
  then have "bit (x AND UMM_FREELIST_MASK) 15" by (simp add: bit_and_iff bit_masks)
  then show "x AND UMM_FREELIST_MASK \<noteq> 0" by auto
next
  have "x AND UMM_FREELIST_MASK = 0" if "\<not> bit x 15"
    by (rule bit_word_eqI) (use that in \<open>auto simp: bit_and_iff bit_masks\<close>)
  then show "x AND UMM_FREELIST_MASK \<noteq> 0 \<Longrightarrow> bit x 15" by blast
qed

lemma small_no_flag:
  assumes "unat (x :: u16) < 0x8000"
  shows "\<not> bit x 15" "x AND UMM_BLOCKNO_MASK = x"
proof -
  have t: "take_bit 15 x = x"
    using assms unfolding word_unat_eq_iff by (simp add: unsigned_take_bit_eq take_bit_nat_eq_self)
  then show "x AND UMM_BLOCKNO_MASK = x" unfolding masks by (simp add: take_bit_eq_mask)
  show "\<not> bit x 15" using t by (metis bit_take_bit_iff less_irrefl)
qed

lemma flag_ops:
  "(x OR UMM_FREELIST_MASK) AND UMM_BLOCKNO_MASK = x AND UMM_BLOCKNO_MASK"
  "(x AND NOT UMM_FREELIST_MASK) AND UMM_BLOCKNO_MASK = x AND UMM_BLOCKNO_MASK"
  "bit (x OR UMM_FREELIST_MASK) 15" "\<not> bit (x AND NOT UMM_FREELIST_MASK) 15" "\<not> bit (x AND UMM_BLOCKNO_MASK) 15"
  "x AND UMM_BLOCKNO_MASK AND UMM_BLOCKNO_MASK = x AND UMM_BLOCKNO_MASK"
  by (auto simp: bit_simps bit_masks intro!: bit_word_eqI)

lemma no_flag_mask: "\<not> bit (x :: u16) 15 \<Longrightarrow> x AND UMM_BLOCKNO_MASK = x"
proof (rule bit_word_eqI)
  fix n assume n: "\<not> bit x 15" "n < LENGTH(16)"
  then have "n < 15 \<or> n = 15" by auto
  then show "bit (x AND UMM_BLOCKNO_MASK) n \<longleftrightarrow> bit x n" using n(1) by (auto simp: bit_and_iff bit_masks)
qed

lemma is_free_iff: "is_free h b \<longleftrightarrow> bit (NBLOCK (h b)) 15"
  by (simp only: is_free_def flag_iff)

lemma blk_next_used: "\<not> is_free h b \<Longrightarrow> blk_next h b = unat (NBLOCK (h b))"
  by (simp add: blk_next_def is_free_iff no_flag_mask)

subsection \<open>Views of an updated heap\<close>

lemma view_NBLOCK:
  "blk_next (h(c := (h c)\<lparr>NBLOCK := v\<rparr>)) = (blk_next h)(c := unat (v AND UMM_BLOCKNO_MASK))"
  "blk_prev (h(c := (h c)\<lparr>NBLOCK := v\<rparr>)) = blk_prev h" "free_next (h(c := (h c)\<lparr>NBLOCK := v\<rparr>)) = free_next h"
  "free_prev (h(c := (h c)\<lparr>NBLOCK := v\<rparr>)) = free_prev h" "is_free (h(c := (h c)\<lparr>NBLOCK := v\<rparr>)) = (is_free h)(c := bit v 15)"
  by (auto simp: fun_eq_iff blk_next_def blk_prev_def free_next_def free_prev_def is_free_iff)

lemma view_PBLOCK:
  "blk_next (h(c := (h c)\<lparr>PBLOCK := v\<rparr>)) = blk_next h"
  "blk_prev (h(c := (h c)\<lparr>PBLOCK := v\<rparr>)) = (blk_prev h)(c := unat v)" "free_next (h(c := (h c)\<lparr>PBLOCK := v\<rparr>)) = free_next h"
  "free_prev (h(c := (h c)\<lparr>PBLOCK := v\<rparr>)) = free_prev h" "is_free (h(c := (h c)\<lparr>PBLOCK := v\<rparr>)) = is_free h"
  by (auto simp: fun_eq_iff blk_next_def blk_prev_def free_next_def free_prev_def is_free_iff)

lemma view_NFREE:
  "blk_next (h(c := (h c)\<lparr>NFREE := v\<rparr>)) = blk_next h"
  "blk_prev (h(c := (h c)\<lparr>NFREE := v\<rparr>)) = blk_prev h" "free_next (h(c := (h c)\<lparr>NFREE := v\<rparr>)) = (free_next h)(c := unat v)"
  "free_prev (h(c := (h c)\<lparr>NFREE := v\<rparr>)) = free_prev h" "is_free (h(c := (h c)\<lparr>NFREE := v\<rparr>)) = is_free h"
  by (auto simp: fun_eq_iff blk_next_def blk_prev_def free_next_def free_prev_def is_free_iff)

lemma view_PFREE:
  "blk_next (h(c := (h c)\<lparr>PFREE := v\<rparr>)) = blk_next h"
  "blk_prev (h(c := (h c)\<lparr>PFREE := v\<rparr>)) = blk_prev h" "free_next (h(c := (h c)\<lparr>PFREE := v\<rparr>)) = free_next h"
  "free_prev (h(c := (h c)\<lparr>PFREE := v\<rparr>)) = (free_prev h)(c := unat v)" "is_free (h(c := (h c)\<lparr>PFREE := v\<rparr>)) = is_free h"
  by (auto simp: fun_eq_iff blk_next_def blk_prev_def free_next_def free_prev_def is_free_iff)

lemma view_block:
  "blk_next (h(c := b)) = (blk_next h)(c := unat (NBLOCK b AND UMM_BLOCKNO_MASK))"
  "blk_prev (h(c := b)) = (blk_prev h)(c := unat (PBLOCK b))" "free_next (h(c := b)) = (free_next h)(c := unat (NFREE b))"
  "free_prev (h(c := b)) = (free_prev h)(c := unat (PFREE b))" "is_free (h(c := b)) = (is_free h)(c := bit (NBLOCK b) 15)"
  by (auto simp: fun_eq_iff blk_next_def blk_prev_def free_next_def free_prev_def is_free_iff)

lemmas views = view_NBLOCK view_PBLOCK view_NFREE view_PFREE

lemma UMM_BLOCK_Some: "b < 128 \<Longrightarrow> UMM_BLOCK h b = Some (h b)"
  by (simp add: UMM_BLOCK_def)

lemma upd_block_Some: "b < 128 \<Longrightarrow> upd_block b f h = Some (h(b := f (h b)))"
  by (simp add: upd_block_def)

lemmas accesses = UMM_BLOCK_Some upd_block_Some

subsection \<open>What an operation leaves alone\<close>

text \<open>Outside the set \<open>T\<close> of block headers, and for the links of free blocks outside \<open>F\<close>.\<close>

definition keeps :: "nat set \<Rightarrow> nat set \<Rightarrow> umm_heap \<Rightarrow> umm_heap \<Rightarrow> bool" where
  "keeps T F h h' \<longleftrightarrow> (\<forall>i. i \<notin> T \<longrightarrow> h' i = h i) \<and>
     (\<forall>i. i \<notin> F \<longrightarrow> NFREE (h' i) = NFREE (h i) \<and> PFREE (h' i) = PFREE (h i))"

lemma keeps_refl [simp]: "keeps T F h h"
  by (simp add: keeps_def)

lemma keeps_trans: "keeps T F h h1 \<Longrightarrow> keeps T F h1 h2 \<Longrightarrow> keeps T F h h2"
  by (simp add: keeps_def)

lemma keeps_mono: "keeps T F h h' \<Longrightarrow> T \<subseteq> T' \<Longrightarrow> F \<subseteq> F' \<Longrightarrow> keeps T' F' h h'"
  by (auto simp: keeps_def)

lemma keeps_upd:
  "keeps T F h h1 \<Longrightarrow> c \<in> T \<Longrightarrow> keeps T F h (h1(c := (h1 c)\<lparr>NBLOCK := v\<rparr>))"
  "keeps T F h h1 \<Longrightarrow> c \<in> T \<Longrightarrow> keeps T F h (h1(c := (h1 c)\<lparr>PBLOCK := v\<rparr>))"
  "keeps T F h h1 \<Longrightarrow> c \<in> T \<Longrightarrow> c \<in> F \<Longrightarrow> keeps T F h (h1(c := (h1 c)\<lparr>NFREE := v\<rparr>))"
  "keeps T F h h1 \<Longrightarrow> c \<in> T \<Longrightarrow> c \<in> F \<Longrightarrow> keeps T F h (h1(c := (h1 c)\<lparr>PFREE := v\<rparr>))"
  "keeps T F h h1 \<Longrightarrow> c \<in> T \<Longrightarrow> c \<in> F \<Longrightarrow> keeps T F h (h1(c := b))"
  by (auto simp: keeps_def)

definition links :: "nat list \<Rightarrow> nat list \<Rightarrow> nat set" where
  "links bs fs = insert 0 (insert (last bs) (set fs))"

subsection \<open>The free list\<close>

lemma disconnect_ok:
  assumes "wf_heap h bs fs" "unat c \<in> set fs"
  obtains h' where "umm_disconnect_from_free_list c h = Some h'" "wf_heap h' bs (remove1 (unat c) fs)"
    "blk_next h' = blk_next h" "blk_prev h' = blk_prev h" "is_free h' = (is_free h)(unat c := False)"
    "keeps (set bs) (links bs fs) h h'"
proof -
  let ?c = "unat c"
  note w = assms(1) [unfolded wf_heap_def]
  note l = layoutD [OF w]
  have sub: "set fs \<subseteq> set bs" unfolding l(14) by blast
  have n: "free_next h ?c = last bs \<or> free_next h ?c \<in> set fs" by (rule layout_free_in(3) [OF w assms(2)])
  have p: "free_prev h ?c = 0 \<or> free_prev h ?c \<in> set fs" by (rule layout_free_in(4) [OF w assms(2)])
  have b: "?c \<in> set bs" "free_next h ?c \<in> set bs" "free_prev h ?c \<in> set bs"
    using assms(2) n p sub l(2,3) by auto
  have pc: "free_prev h ?c \<noteq> ?c"
  proof -
    obtain us vs where s: "0 # fs @ [last bs] = us @ free_prev h ?c # ?c # free_next h ?c # vs"
      by (rule layout_split_free [OF w assms(2)]) blast
    have "distinct (us @ free_prev h ?c # ?c # free_next h ?c # vs)" by (rule l(13) [unfolded s])
    then show ?thesis by auto
  qed
  define h1 where "h1 = h(free_prev h ?c := (h (free_prev h ?c))\<lparr>NFREE := NFREE (h ?c)\<rparr>)"
  define h2 where "h2 = h1(free_next h ?c := (h1 (free_next h ?c))\<lparr>PFREE := PFREE (h ?c)\<rparr>)"
  define h3 where "h3 = h2(?c := (h2 ?c)\<lparr>NBLOCK := NBLOCK (h2 ?c) AND NOT UMM_FREELIST_MASK\<rparr>)"
  have c1: "h1 ?c = h ?c" "free_next h1 ?c = free_next h ?c" using pc by (simp_all add: h1_def free_next_def)
  have "umm_disconnect_from_free_list c h = Some h3"
    using l(6) [OF b(1)] l(6) [OF b(2)] l(6) [OF b(3)]
    by (simp add: umm_disconnect_from_free_list_def accesses free_prev_def [symmetric] free_next_def [symmetric]
        h1_def [symmetric] c1 h2_def [symmetric] h3_def [symmetric])
  moreover have v1: "blk_next h1 = blk_next h" "blk_prev h1 = blk_prev h" "is_free h1 = is_free h"
      "free_next h1 = (free_next h)(free_prev h ?c := free_next h ?c)" "free_prev h1 = free_prev h"
    unfolding h1_def views by (simp_all add: free_next_def)
  have v2: "blk_next h2 = blk_next h" "blk_prev h2 = blk_prev h" "is_free h2 = is_free h"
      "free_next h2 = (free_next h)(free_prev h ?c := free_next h ?c)"
      "free_prev h2 = (free_prev h)(free_next h ?c := free_prev h ?c)"
    unfolding h2_def views v1 by (simp_all add: free_prev_def)
  have v3: "blk_next h3 = blk_next h" "blk_prev h3 = blk_prev h" "is_free h3 = (is_free h)(?c := False)"
      "free_next h3 = (free_next h)(free_prev h ?c := free_next h ?c)"
      "free_prev h3 = (free_prev h)(free_next h ?c := free_prev h ?c)"
    unfolding h3_def views v2 by (simp_all add: flag_ops blk_next_def [of h2, symmetric] v2(1))
  moreover have "wf_heap h3 bs (remove1 ?c fs)"
    unfolding wf_heap_def v3 by (rule layout_unlink [OF w assms(2)])
  moreover have "keeps (set bs) (links bs fs) h h3"
    unfolding h3_def h2_def h1_def by (intro keeps_upd keeps_refl) (use b n p in \<open>auto simp: links_def\<close>)
  ultimately show thesis using that by blast
qed


lemma push_ok:
  assumes w: "wf_heap h bs fs" and c: "unat c \<in> set bs" "unat c \<noteq> 0" "unat c \<noteq> last bs" "\<not> is_free h (unat c)"
    "\<not> is_free h (blk_next h (unat c))" "\<not> is_free h (blk_prev h (unat c))"
  defines "h1 \<equiv> h(free_next h 0 := (h (free_next h 0))\<lparr>PFREE := c\<rparr>)"
  defines "h2 \<equiv> h1(unat c := (h1 (unat c))\<lparr>NFREE := NFREE (h1 0)\<rparr>)"
  defines "h3 \<equiv> h2(unat c := (h2 (unat c))\<lparr>PFREE := 0\<rparr>)"
  defines "h4 \<equiv> h3(0 := (h3 0)\<lparr>NFREE := c\<rparr>)"
  defines "h5 \<equiv> h4(unat c := (h4 (unat c))\<lparr>NBLOCK := NBLOCK (h4 (unat c)) OR UMM_FREELIST_MASK\<rparr>)"
  shows "free_next h 0 \<in> set bs" "wf_heap h5 bs (unat c # fs)" "blk_next h5 = blk_next h" "blk_prev h5 = blk_prev h"
    "is_free h5 = (is_free h)(unat c := True)" "keeps (set bs) (insert (unat c) (links bs fs)) h h5"
proof -
  let ?c = "unat c" and ?n = "free_next h 0"
  note w' = w [unfolded wf_heap_def]
  note l = layoutD [OF w']
  show n: "?n \<in> set bs" by (rule layout_free_in(2) [OF w'])
  have nf: "?n = last bs \<or> ?n \<in> set fs" by (rule layout_free_in(1) [OF w'])
  have nc: "?n \<noteq> ?c"
  proof
    assume e: "?n = ?c"
    then have "?c \<in> set fs" using nf c(3) by metis
    then show False using c(4) unfolding l(14) by simp
  qed
  have v1: "blk_next h1 = blk_next h" "blk_prev h1 = blk_prev h" "is_free h1 = is_free h" "free_next h1 = free_next h"
      "free_prev h1 = (free_prev h)(?n := ?c)"
    unfolding h1_def views by simp_all
  have f1: "unat (NFREE (h1 0)) = ?n" using v1(4) by (simp add: free_next_def fun_eq_iff)
  have v2: "blk_next h2 = blk_next h" "blk_prev h2 = blk_prev h" "is_free h2 = is_free h" "free_next h2 = (free_next h)(?c := ?n)"
      "free_prev h2 = (free_prev h)(?n := ?c)"
    unfolding h2_def views v1 f1 by simp_all
  have v3: "blk_next h3 = blk_next h" "blk_prev h3 = blk_prev h" "is_free h3 = is_free h" "free_next h3 = (free_next h)(?c := ?n)"
      "free_prev h3 = (free_prev h)(?c := 0, ?n := ?c)"
    unfolding h3_def views v2 using nc by (simp_all add: fun_upd_twist)
  have v4: "blk_next h4 = blk_next h" "blk_prev h4 = blk_prev h" "is_free h4 = is_free h"
      "free_next h4 = (free_next h)(?c := ?n, 0 := ?c)" "free_prev h4 = (free_prev h)(?c := 0, ?n := ?c)"
    unfolding h4_def views v3 by simp_all
  have v5: "blk_next h5 = blk_next h" "blk_prev h5 = blk_prev h" "is_free h5 = (is_free h)(?c := True)"
      "free_next h5 = (free_next h)(?c := ?n, 0 := ?c)" "free_prev h5 = (free_prev h)(?c := 0, ?n := ?c)"
    unfolding h5_def views v4 by (simp_all add: flag_ops blk_next_def [of h4, symmetric] v4(1))
  show "blk_next h5 = blk_next h" "blk_prev h5 = blk_prev h" "is_free h5 = (is_free h)(?c := True)" by (fact v5)+
  show "wf_heap h5 bs (?c # fs)" unfolding wf_heap_def v5 by (rule layout_push [OF w' c])
  show "keeps (set bs) (insert ?c (links bs fs)) h h5"
    unfolding h5_def h4_def h3_def h2_def h1_def
    by (intro keeps_upd keeps_refl) (use c(1) n nf l(2) in \<open>auto simp: links_def\<close>)
qed

subsection \<open>Merging blocks\<close>

lemma NBLOCK_used: "\<not> is_free h b \<Longrightarrow> unat (NBLOCK (h b)) = blk_next h b"
  by (simp add: blk_next_used)

lemma assimilate_up_ok:
  assumes w: "wf_heap h bs fs" and c: "unat c \<in> set bs" "unat c \<noteq> 0" "unat c \<noteq> last bs" "\<not> is_free h (unat c)"
  obtains h' bs' fs' where "umm_assimilate_up c h = Some h'" "wf_heap h' bs' fs'" "unat c \<in> set bs'" "last bs' = last bs"
    "set bs' \<subseteq> set bs" "set fs' \<subseteq> set fs" "\<And>b. b \<in> set bs - set bs' \<Longrightarrow> is_free h b"
    "\<And>b. b \<in> set bs' \<Longrightarrow> is_free h' b = is_free h b" "\<And>b. b \<noteq> unat c \<Longrightarrow> blk_next h' b = blk_next h b"
    "\<not> is_free h' (blk_next h' (unat c))" "keeps (set bs) (links bs fs) h h'"
proof -
  let ?c = "unat c"
  define n where "n = blk_next h ?c"
  note w' = w [unfolded wf_heap_def]
  note l = layoutD [OF w']
  note nc = layout_next_in [OF w' c(1,3), folded n_def]
  have N: "unat (NBLOCK (h ?c)) = n" using NBLOCK_used [OF c(4)] by (simp add: n_def)
  have b: "?c < 128" "n < 128" using l(6) [OF c(1)] l(6) [OF nc(1)] .
  show thesis
  proof (cases "is_free h n")
    case False
    have "umm_assimilate_up c h = Some h"
      using b False by (simp add: umm_assimilate_up_def accesses N is_free_def)
    then show thesis using that [of h bs fs] w c(1) False by (simp add: n_def)
  next
    case True
    have nl: "n \<noteq> last bs" using True l(11) by metis
    have nfs: "n \<in> set fs" unfolding l(14) using nc(1) True by simp
    obtain h1 where h1: "umm_disconnect_from_free_list (NBLOCK (h ?c)) h = Some h1" "wf_heap h1 bs (remove1 n fs)"
      "blk_next h1 = blk_next h" "blk_prev h1 = blk_prev h" "is_free h1 = (is_free h)(n := False)"
      "keeps (set bs) (links bs fs) h h1"
      by (rule disconnect_ok [OF w, of "NBLOCK (h ?c)", unfolded N, OF nfs]) blast
    note w1 = h1(2) [unfolded wf_heap_def]
    define m where "m = blk_next h n"
    have mb: "m \<in> set bs" "n < m" "\<not> is_free h m"
      using layout_next_in [OF w' nc(1) nl] True by (simp_all add: m_def)
    have m128: "m < 128" by (rule l(6) [OF mb(1)])
    have cn: "?c \<noteq> n" using nc(2) by simp
    have c1: "\<not> is_free h1 ?c" using h1(5) c(4) by simp
    have N1: "unat (NBLOCK (h1 ?c)) = n" using NBLOCK_used [OF c1] h1(3) by (simp add: n_def)
    have M1: "unat (NBLOCK (h1 n) AND UMM_BLOCKNO_MASK) = m"
      using h1(3) by (simp add: m_def blk_next_def fun_eq_iff)
    define h2 where "h2 = h1(m := (h1 m)\<lparr>PBLOCK := c\<rparr>)"
    have v2: "blk_next h2 = blk_next h" "blk_prev h2 = (blk_prev h)(m := ?c)" "is_free h2 = (is_free h)(n := False)"
        "free_next h2 = free_next h1" "free_prev h2 = free_prev h1"
      unfolding h2_def views h1(3-5) by simp_all
    have c2: "\<not> is_free h2 ?c" using v2(3) c(4) by simp
    have N2: "unat (NBLOCK (h2 ?c)) = n" using NBLOCK_used [OF c2] v2(1) by (simp add: n_def)
    define h3 where "h3 = h2(?c := (h2 ?c)\<lparr>NBLOCK := NBLOCK (h2 n) AND UMM_BLOCKNO_MASK\<rparr>)"
    have M2: "unat (NBLOCK (h2 n) AND UMM_BLOCKNO_MASK) = m"
      using v2(1) by (simp add: m_def blk_next_def fun_eq_iff)
    have v3: "blk_next h3 = (blk_next h)(?c := m)" "blk_prev h3 = (blk_prev h)(m := ?c)" "is_free h3 = (is_free h)(n := False)"
        "free_next h3 = free_next h1" "free_prev h3 = free_prev h1"
      unfolding h3_def views v2 flag_ops M2 using c(4) by (auto simp: flag_ops M2 fun_eq_iff)
    have "umm_assimilate_up c h = Some h3"
      using b m128 True h1(1)
      by (simp add: umm_assimilate_up_def accesses N N1 M1 N2 is_free_def h2_def [symmetric] h3_def [symmetric])
    moreover have ab: "layout ((blk_next h)(?c := m)) ((blk_prev h)(m := ?c)) (free_next h1) (free_prev h1)
        ((is_free h)(n := False)) (remove1 n bs) (remove1 n fs)" "last (remove1 n bs) = last bs"
      using layout_absorb [OF w1, of ?c n] c(1-4) nl nc(2) cn by (simp_all add: h1(3-5) n_def [symmetric] m_def [symmetric])
    moreover have "wf_heap h3 (remove1 n bs) (remove1 n fs)" unfolding wf_heap_def v3 by (rule ab(1))
    moreover have "set (remove1 n bs) = set bs - {n}" using l(7) by simp
    moreover have "set (remove1 n fs) \<subseteq> set fs" by (rule set_remove1_subset)
    moreover have "keeps (set bs) (links bs fs) h h3"
      unfolding h3_def h2_def by (intro keeps_upd h1(6)) (use mb(1) c(1) in simp_all)
    moreover have "\<not> is_free h3 (blk_next h3 ?c)" using v3 mb by simp
    ultimately show thesis
    proof (intro that [of h3 "remove1 n bs" "remove1 n fs"], goal_cases)
      case (7 b)
      then show ?case using True by auto
    qed (use True v3(1,3) cn c(1) in auto)
  qed
qed

lemma assimilate_down_ok:
  assumes w: "wf_heap h bs fs" and c: "unat c \<in> set bs" "unat c \<noteq> 0" "unat c \<noteq> last bs" "\<not> is_free h (unat c)"
    "\<not> is_free h (blk_next h (unat c))" "is_free h (blk_prev h (unat c))"
  obtains q h' where "umm_assimilate_down c UMM_FREELIST_MASK h = Some (q, h')" "wf_heap h' (remove1 (unat c) bs) fs"
    "last (remove1 (unat c) bs) = last bs" "is_free h' = is_free h"
    "\<And>b. b \<noteq> blk_prev h (unat c) \<Longrightarrow> blk_next h' b = blk_next h b" "keeps (set bs) (links bs fs) h h'"
proof -
  let ?c = "unat c"
  define p where "p = blk_prev h ?c"
  define n where "n = blk_next h ?c"
  note w' = w [unfolded wf_heap_def]
  note l = layoutD [OF w']
  note nc = layout_next_in [OF w' c(1,3), folded n_def]
  note pc = layout_prev_in [OF w' c(1,2), folded p_def]
  have fp: "is_free h p" using c(6) by (simp add: p_def)
  have N: "unat (NBLOCK (h ?c)) = n" using NBLOCK_used [OF c(4)] by (simp add: n_def)
  have b: "?c < 128" "n < 128" "p < 128" using l(6) [OF c(1)] l(6) [OF nc(1)] l(6) [OF pc(1)] .
  have P: "unat (PBLOCK (h ?c)) = p" by (simp add: p_def blk_prev_def)
  have d: "?c \<noteq> p" "?c \<noteq> n" "p \<noteq> n" using pc(3) nc(2) by simp_all
  define h1 where "h1 = h(p := (h p)\<lparr>NBLOCK := NBLOCK (h ?c) OR UMM_FREELIST_MASK\<rparr>)"
  define h2 where "h2 = h1(n := (h1 n)\<lparr>PBLOCK := PBLOCK (h ?c)\<rparr>)"
  have e1: "h1 ?c = h ?c" using d by (simp add: h1_def)
  have e2: "h2 ?c = h ?c" using d e1 by (simp add: h2_def)
  have nn: "unat (NBLOCK (h ?c) AND UMM_BLOCKNO_MASK) = n" by (simp add: n_def blk_next_def)
  have v1: "blk_next h1 = (blk_next h)(p := n)" "blk_prev h1 = blk_prev h" "is_free h1 = is_free h"
      "free_next h1 = free_next h" "free_prev h1 = free_prev h"
    unfolding h1_def views flag_ops nn using fp by (auto simp: flag_ops fun_eq_iff)
  have v2: "blk_next h2 = (blk_next h)(p := n)" "blk_prev h2 = (blk_prev h)(n := p)" "is_free h2 = is_free h"
      "free_next h2 = free_next h" "free_prev h2 = free_prev h"
    unfolding h2_def views v1 P by simp_all
  have "umm_assimilate_down c UMM_FREELIST_MASK h = Some (PBLOCK (h ?c), h2)"
    using b by (simp add: umm_assimilate_down_def accesses P N e1 e2 h1_def [symmetric] h2_def [symmetric])
  moreover have "p \<noteq> last bs" "?c \<noteq> 1" using fp l(11) pc(3) l(12) by (metis, metis less_one)
  then have ab: "layout ((blk_next h)(p := n)) ((blk_prev h)(n := p)) (free_next h) (free_prev h) (is_free h) (remove1 ?c bs) fs"
      "last (remove1 ?c bs) = last bs"
    using layout_absorb [OF w' pc(1), of ?c] pc(2) c(3-5) by (simp_all add: n_def)
  moreover have "wf_heap h2 (remove1 ?c bs) fs" unfolding wf_heap_def v2 by (rule ab(1))
  moreover have "keeps (set bs) (links bs fs) h h2"
    unfolding h2_def h1_def by (intro keeps_upd keeps_refl) (use pc(1) nc(1) in simp_all)
  ultimately show thesis using that [of "PBLOCK (h ?c)" h2] v2 by (simp add: p_def)
qed


subsection \<open>Blocks in use\<close>

text \<open>The extents in use, from their header to the next, and the data they hold.\<close>

definition used :: "umm_heap \<Rightarrow> nat list \<Rightarrow> (nat \<times> nat) set" where
  "used h bs = {(b, e). b \<in> set bs \<and> b \<noteq> 0 \<and> b \<noteq> last bs \<and> \<not> is_free h b \<and> e = blk_next h b}"

definition same_data :: "(nat \<times> nat) set \<Rightarrow> umm_heap \<Rightarrow> umm_heap \<Rightarrow> bool" where
  "same_data U h h' \<longleftrightarrow> (\<forall>(b, e) \<in> U. NFREE (h' b) = NFREE (h b) \<and> PFREE (h' b) = PFREE (h b) \<and>
     (\<forall>i. b < i \<and> i < e \<longrightarrow> h' i = h i))"

lemma usedD:
  assumes "(b, e) \<in> used h bs"
  shows "b \<in> set bs" "b \<noteq> 0" "b \<noteq> last bs" "\<not> is_free h b" "e = blk_next h b"
  using assms by (simp_all add: used_def)

lemma used_keeps:
  assumes w: "wf_heap h bs fs" and k: "keeps (M \<union> set bs) (M \<union> links bs fs) h h'"
    and U: "U \<subseteq> used h bs" "\<And>b e i. (b, e) \<in> U \<Longrightarrow> i \<in> M \<Longrightarrow> i < b \<or> e \<le> i"
  shows "same_data U h h'"
  unfolding same_data_def
proof (intro ballI, clarify, intro conjI allI impI)
  fix b e assume be: "(b, e) \<in> U"
  note w' = w [unfolded wf_heap_def]
  note u = usedD [OF subsetD [OF U(1) be]]
  have lt: "b < e" using layout_next_in(2) [OF w' u(1,3)] u(5) by simp
  have "b \<notin> set fs" unfolding layoutD(14) [OF w'] using u(4) by simp
  moreover have "b \<notin> M" using U(2) [OF be, of b] lt by auto
  ultimately have "b \<notin> M \<union> links bs fs" using u by (simp add: links_def)
  then show "NFREE (h' b) = NFREE (h b)" "PFREE (h' b) = PFREE (h b)" using k by (simp_all add: keeps_def)
  fix i assume i: "b < i \<and> i < e"
  have "i \<notin> set bs" using layout_next_in(5) [OF w' u(1,3), of i] i u(5) by auto
  moreover have "i \<notin> M" using U(2) [OF be, of i] i by auto
  ultimately show "h' i = h i" using k by (simp add: keeps_def)
qed

text \<open>Extents in use do not overlap, nor reach the unused rest.\<close>

lemma used_apart:
  assumes w: "wf_heap h bs fs" and u: "(b, e) \<in> used h bs"
  shows "b < e" "e \<le> last bs" "b' \<in> set bs \<Longrightarrow> b' \<le> b \<or> e \<le> b'" "(b', e') \<in> used h bs \<Longrightarrow> b' \<noteq> b \<Longrightarrow> e \<le> b' \<or> e' \<le> b"
proof -
  note w' = w [unfolded wf_heap_def]
  note d = usedD [OF u]
  note n = layout_next_in [OF w' d(1,3), folded d(5)]
  show "b < e" "e \<le> last bs" using n(1,2) layoutD(18) [OF w'] by blast+
  show s: "b' \<le> b \<or> e \<le> b'" if "b' \<in> set bs" for b' using n(5) [OF that] by linarith
  show "e \<le> b' \<or> e' \<le> b" if u': "(b', e') \<in> used h bs" "b' \<noteq> b"
  proof -
    note d' = usedD [OF u'(1)]
    note n' = layout_next_in [OF w' d'(1,3), folded d'(5)]
    show ?thesis using s [OF d'(1)] n'(5) [OF d(1)] u'(2) by linarith
  qed
qed

lemma free_block_ok:
  assumes w: "wf_heap h bs fs" and c: "(unat c, e) \<in> used h bs"
  obtains h' bs' fs' where "free_block c h = Some h'" "wf_heap h' bs' fs'" "used h' bs' = used h bs - {(unat c, e)}"
    "same_data (used h bs - {(unat c, e)}) h h'" "last bs' = last bs"
proof -
  let ?c = "unat c"
  note u = usedD [OF c]
  note w' = w [unfolded wf_heap_def]
  obtain h1 bs1 fs1 where h1: "umm_assimilate_up c h = Some h1" "wf_heap h1 bs1 fs1" "?c \<in> set bs1" "last bs1 = last bs"
    "set bs1 \<subseteq> set bs" "set fs1 \<subseteq> set fs" "\<And>b. b \<in> set bs - set bs1 \<Longrightarrow> is_free h b"
    "\<And>b. b \<in> set bs1 \<Longrightarrow> is_free h1 b = is_free h b" "\<And>b. b \<noteq> ?c \<Longrightarrow> blk_next h1 b = blk_next h b"
    "\<not> is_free h1 (blk_next h1 ?c)" "keeps (set bs) (links bs fs) h h1"
    by (rule assimilate_up_ok [OF w u(1-4)]) blast
  note w1 = h1(2) [unfolded wf_heap_def]
  have c1: "\<not> is_free h1 ?c" using h1(8) [OF h1(3)] u(4) by simp
  have lc: "?c \<noteq> last bs1" using u(3) h1(4) by simp
  have used1: "used h1 bs1 - {?c} \<times> UNIV = used h bs - {(?c, e)}"
  proof -
    have "x \<in> used h1 bs1 - {?c} \<times> UNIV \<longleftrightarrow> x \<in> used h bs - {(?c, e)}" for x
    proof (cases x)
      case (Pair b d)
      show ?thesis
        using h1(4,5,7-9) u(5) unfolding used_def Pair by (cases "b = ?c") auto
    qed
    then show ?thesis by blast
  qed
  have cb: "?c < 128" by (rule layoutD(6) [OF w1 h1(3)])
  note pc = layout_prev_in [OF w1 h1(3) u(2)]
  have pb: "blk_prev h1 ?c < 128" by (rule layoutD(6) [OF w1 pc(1)])
  have P: "unat (PBLOCK (h1 ?c)) = blk_prev h1 ?c" by (simp add: blk_prev_def)
  have sd: "same_data (used h bs - {(?c, e)}) h h'" if k: "keeps (set bs) (insert ?c (links bs fs)) h h'" for h'
  proof (rule used_keeps [OF w, of "{?c}"])
    show "keeps ({?c} \<union> set bs) ({?c} \<union> links bs fs) h h'" using k by (rule keeps_mono) auto
    show "i < b \<or> d \<le> i" if "(b, d) \<in> used h bs - {(?c, e)}" "i \<in> {?c}" for b d i
    proof -
      have b: "(b, d) \<in> used h bs" "b \<noteq> ?c" using that(1) u(5) usedD(5) by fastforce+
      show ?thesis using used_apart(3) [OF w b(1) u(1)] b(2) that(2) by auto
    qed
  qed blast
  have lk: "links bs1 fs1 \<subseteq> links bs fs" using h1(4,6) by (auto simp: links_def)
  show thesis
  proof (cases "is_free h1 (blk_prev h1 ?c)")
    case True
    obtain q h2 where h2: "umm_assimilate_down c UMM_FREELIST_MASK h1 = Some (q, h2)" "wf_heap h2 (remove1 ?c bs1) fs1"
      "last (remove1 ?c bs1) = last bs1" "is_free h2 = is_free h1"
      "\<And>b. b \<noteq> blk_prev h1 ?c \<Longrightarrow> blk_next h2 b = blk_next h1 b" "keeps (set bs1) (links bs1 fs1) h1 h2"
      by (rule assimilate_down_ok [OF h1(2,3) u(2) lc c1 h1(10) True]) blast
    have "free_block c h = Some h2"
      using h1(1) h2(1) cb pb True by (simp add: free_block_def accesses P is_free_def)
    moreover have "used h2 (remove1 ?c bs1) = used h bs - {(?c, e)}"
    proof -
      have nx: "blk_next h2 b = blk_next h1 b" if "\<not> is_free h1 b" for b using h2(5) True that by metis
      have "set (remove1 ?c bs1) = set bs1 - {?c}" using layoutD(7) [OF w1] by simp
      then have "used h2 (remove1 ?c bs1) = used h1 bs1 - {?c} \<times> UNIV"
        unfolding used_def h2(3,4) using nx by auto
      then show ?thesis using used1 by simp
    qed
    moreover have "keeps (set bs) (insert ?c (links bs fs)) h h2"
    proof (rule keeps_trans)
      show "keeps (set bs) (insert ?c (links bs fs)) h h1" by (rule keeps_mono [OF h1(11)]) auto
      show "keeps (set bs) (insert ?c (links bs fs)) h1 h2" by (rule keeps_mono [OF h2(6)]) (use h1(5) lk in auto)
    qed
    ultimately show thesis using that [OF _ h2(2)] sd h1(4) h2(3) by metis
  next
    case False
    note p = push_ok [OF h1(2,3) u(2) lc c1 h1(10) False]
    let ?h1 = "h1(free_next h1 0 := (h1 (free_next h1 0))\<lparr>PFREE := c\<rparr>)"
    let ?h2 = "?h1(?c := (?h1 ?c)\<lparr>NFREE := NFREE (?h1 0)\<rparr>)"
    let ?h3 = "?h2(?c := (?h2 ?c)\<lparr>PFREE := 0\<rparr>)"
    let ?h4 = "?h3(0 := (?h3 0)\<lparr>NFREE := c\<rparr>)"
    define h5 where "h5 = ?h4(?c := (?h4 ?c)\<lparr>NBLOCK := NBLOCK (?h4 ?c) OR UMM_FREELIST_MASK\<rparr>)"
    note p5 = p [folded h5_def]
    have nb: "free_next h1 0 < 128" by (rule layoutD(6) [OF w1 p5(1)])
    have "free_block c h = Some h5"
      using h1(1) cb pb False nb
      by (simp add: free_block_def accesses P is_free_def free_next_def [symmetric] h5_def)
    moreover have "used h5 bs1 = used h bs - {(?c, e)}"
    proof -
      have "used h5 bs1 = used h1 bs1 - {?c} \<times> UNIV" unfolding used_def p5(3,5) by (auto split: if_splits)
      then show ?thesis using used1 by simp
    qed
    moreover have "keeps (set bs) (insert ?c (links bs fs)) h h5"
    proof (rule keeps_trans)
      show "keeps (set bs) (insert ?c (links bs fs)) h h1" by (rule keeps_mono [OF h1(11)]) auto
      show "keeps (set bs) (insert ?c (links bs fs)) h1 h5" by (rule keeps_mono [OF p5(6)]) (use h1(5) lk in auto)
    qed
    ultimately show thesis using that [OF _ p5(2)] sd h1(4) by metis
  qed
qed

end
