(* ===== verification/Umm_Alloc.thy ===== *)
theory Umm_Alloc
  imports Umm_Heap
begin

text \<open>
  What the allocator promises: \<open>umm_malloc\<close> returns memory of the size asked for that overlaps nothing
  in use, \<open>umm_free\<close> takes back exactly one extent, neither changes the data in use, and the heap
  stays well formed whatever is written into the extents in use.
\<close>

subsection \<open>Finding and making blocks\<close>

lemma unat_plus_u16: "unat a + unat b < 65536 \<Longrightarrow> unat (a + b :: u16) = unat a + unat b"
  by (simp add: unat_word_ariths)

lemma first_fit_ok:
  assumes w: "wf_heap h bs fs" and fs: "fs = us @ vs" and cf: "unat cf = hd (vs @ [last bs])"
  shows "(\<exists>c n. first_fit h blocks cf s = Some (c, n) \<and> unat c \<in> set vs \<and> blocks \<le> n \<and>
            unat n = blk_next h (unat c) - unat c) \<or>
         (\<exists>c n. first_fit h blocks cf s = Some (c, n) \<and> unat c = last bs \<and>
            (\<forall>f \<in> set vs. blk_next h f - f < unat blocks))"
  using fs cf
proof (induction vs arbitrary: us cf s)
  case Nil
  note w' = w [unfolded wf_heap_def]
  have "unat cf < 128" "NFREE (h (unat cf)) = 0"
    using Nil(2) layoutD(5,16) [OF w'] by (simp_all add: free_next_def unat_eq_0)
  then have "first_fit h blocks cf s = Some (cf, s)" by (simp add: first_fit.simps [of h blocks cf s] accesses)
  then show ?case using Nil(2) by simp
next
  case (Cons f vs)
  note w' = w [unfolded wf_heap_def]
  note l = layoutD [OF w']
  have f: "f \<in> set fs" "f \<in> set bs" "is_free h f" "unat cf = f"
    using Cons.prems l(14) by auto
  then have fl: "f \<noteq> last bs" using l(11) by metis
  note nf = layout_next_in [OF w' f(2) fl]
  have b: "f < 128" "blk_next h f < 128" using l(6) [OF f(2)] l(6) [OF nf(1)] .
  have nx: "free_next h f = hd (vs @ [last bs])"
  proof -
    have "chain (free_next h) (free_prev h) ((0 # us) @ f # hd (vs @ [last bs]) # tl (vs @ [last bs]))"
      using l(15) Cons.prems(1) by simp
    then show ?thesis using chain_link by fast
  qed
  have n0: "NFREE (h f) \<noteq> 0"
    using layout_free_in(8) [OF w' f(1)] by (auto simp: free_next_def)
  define n where "n = (NBLOCK (h f) AND UMM_BLOCKNO_MASK) - cf"
  have n: "unat n = blk_next h f - f"
    unfolding n_def using nf(2) f(4) by (subst unat_sub) (simp_all add: blk_next_def word_le_nat_alt)
  have step: "first_fit h blocks cf s = (if blocks \<le> n then Some (cf, n) else first_fit h blocks (NFREE (h f)) n)"
    using b n0 f(4) by (simp add: first_fit.simps [of h blocks cf s] accesses n_def Let_def)
  show ?case
  proof (cases "blocks \<le> n")
    case True
    then have "first_fit h blocks cf s = Some (cf, n) \<and> unat cf \<in> set (f # vs) \<and> blocks \<le> n \<and>
        unat n = blk_next h (unat cf) - unat cf"
      using step n f(4) by simp
    then show ?thesis by blast
  next
    case False
    have "fs = (us @ [f]) @ vs" "unat (NFREE (h f)) = hd (vs @ [last bs])"
      using Cons.prems(1) nx by (simp_all add: free_next_def)
    from Cons.IH [OF this, of n] False show ?thesis
      using n by (auto simp: step word_le_nat_alt)
  qed
qed

lemma divide_ok:
  assumes w: "wf_heap h bs fs" and c: "unat c \<in> set fs" and k: "0 < unat k" "unat c + unat k < blk_next h (unat c)"
  obtains h' bs' where "umm_make_new_block c k UMM_FREELIST_MASK h = Some h'" "wf_heap h' bs' fs" "last bs' = last bs"
    "used h' bs' = insert (unat c + unat k, blk_next h (unat c)) (used h bs)" "unat c + unat k \<notin> set bs"
    "keeps (set bs) (links bs fs) h (h'(unat c + unat k := h (unat c + unat k)))"
proof -
  let ?c = "unat c"
  define m where "m = ?c + unat k"
  define n where "n = blk_next h ?c"
  note w' = w [unfolded wf_heap_def]
  note l = layoutD [OF w']
  have cb: "?c \<in> set bs" "is_free h ?c" using c unfolding l(14) by simp_all
  then have cl: "?c \<noteq> last bs" using l(11) by metis
  note nc = layout_next_in [OF w' cb(1) cl, folded n_def]
  have mn: "?c < m" "m < n" using k by (simp_all add: m_def n_def)
  have b: "?c < 128" "n < 128" "m < 128" using l(6) [OF cb(1)] l(6) [OF nc(1)] mn(2) by simp_all
  have um: "unat (c + k) = m" using b(3) by (simp add: m_def unat_plus_u16)
  define N where "N = NBLOCK (h ?c) AND UMM_BLOCKNO_MASK"
  have N: "unat N = n" by (simp add: N_def n_def blk_next_def)
  define h1 where "h1 = h(m := (h m)\<lparr>NBLOCK := N\<rparr>)"
  define h2 where "h2 = h1(m := (h1 m)\<lparr>PBLOCK := c\<rparr>)"
  define h3 where "h3 = h2(n := (h2 n)\<lparr>PBLOCK := c + k\<rparr>)"
  define h4 where "h4 = h3(?c := (h3 ?c)\<lparr>NBLOCK := (c + k) OR UMM_FREELIST_MASK\<rparr>)"
  have c1: "h1 ?c = h ?c" "h2 ?c = h ?c" using mn(1) by (simp_all add: h2_def h1_def)
  have fm: "(c + k) AND UMM_BLOCKNO_MASK = c + k" "N AND UMM_BLOCKNO_MASK = N" "\<not> bit N 15"
    using small_no_flag(2) [of "c + k"] um b(3) by (simp_all add: N_def flag_ops)
  have v1: "blk_next h1 = (blk_next h)(m := n)" "blk_prev h1 = blk_prev h" "is_free h1 = (is_free h)(m := False)"
      "free_next h1 = free_next h" "free_prev h1 = free_prev h"
    unfolding h1_def views fm N using fm(3) by simp_all
  have v2: "blk_next h2 = (blk_next h)(m := n)" "blk_prev h2 = (blk_prev h)(m := ?c)" "is_free h2 = (is_free h)(m := False)"
      "free_next h2 = free_next h" "free_prev h2 = free_prev h"
    unfolding h2_def views v1 by simp_all
  have v3: "blk_next h3 = (blk_next h)(m := n)" "blk_prev h3 = (blk_prev h)(m := ?c, n := m)" "is_free h3 = (is_free h)(m := False)"
      "free_next h3 = free_next h" "free_prev h3 = free_prev h"
    unfolding h3_def views v2 um by simp_all
  have v4: "blk_next h4 = (blk_next h)(m := n, ?c := m)" "blk_prev h4 = (blk_prev h)(m := ?c, n := m)"
      "is_free h4 = (is_free h)(m := False)" "free_next h4 = free_next h" "free_prev h4 = free_prev h"
    unfolding h4_def views v3 flag_ops fm um using cb(2) mn(1) by (auto simp: flag_ops fun_eq_iff)
  have run: "umm_make_new_block c k UMM_FREELIST_MASK h = Some h4"
    using b mn(1) by (simp add: umm_make_new_block_def accesses m_def [symmetric] N_def [symmetric] N h1_def [symmetric] h2_def [symmetric]
        c1 h3_def [symmetric] h4_def [symmetric])
  obtain bs' where bs': "layout ((blk_next h)(m := n, ?c := m)) ((blk_prev h)(m := ?c, n := m)) (free_next h) (free_prev h)
      ((is_free h)(m := False)) bs' fs" "set bs' = insert m (set bs)" "last bs' = last bs" "m \<notin> set bs"
    by (rule layout_divide [OF w' c mn(1), folded n_def, OF mn(2)]) blast
  have "used h4 bs' = insert (m, n) (used h bs)"
  proof -
    have "m \<noteq> 0" "m \<noteq> last bs" using mn(1) bs'(4) l(3) by (simp, metis)
    then show ?thesis unfolding used_def v4 bs'(2,3) using bs'(4) cb(2) mn(1) by (auto split: if_splits)
  qed
  moreover have "keeps (set bs) (links bs fs) h (h4(m := h m))"
  proof -
    have "h4(m := h m) = h(n := (h n)\<lparr>PBLOCK := c + k\<rparr>, ?c := ((h(n := (h n)\<lparr>PBLOCK := c + k\<rparr>)) ?c)\<lparr>NBLOCK := (c + k) OR UMM_FREELIST_MASK\<rparr>)"
      using mn by (auto simp: h4_def h3_def h2_def h1_def fun_eq_iff)
    then show ?thesis using cb(1) nc(1) by (simp only:) (intro keeps_upd keeps_refl)
  qed
  moreover have "wf_heap h4 bs' fs" unfolding wf_heap_def v4 by (rule bs'(1))
  ultimately show thesis using that run bs'(3,4) unfolding m_def n_def by blast
qed

lemma append_ok:
  assumes w: "wf_heap h bs fs" and c: "unat c = last bs" and k: "0 < unat k" "unat c + unat k < 128"
  obtains h' where "append_block c k h = Some h'" "wf_heap h' (bs @ [unat c + unat k]) fs"
    "used h' (bs @ [unat c + unat k]) = insert (unat c, unat c + unat k) (used h bs)"
    "keeps (insert (unat c + unat k) (set bs)) (insert (unat c + unat k) (links bs fs)) h h'"
proof -
  let ?c = "unat c"
  define m where "m = ?c + unat k"
  note w' = w [unfolded wf_heap_def]
  note l = layoutD [OF w', folded c]
  define p where "p = free_prev h ?c"
  have pf: "p = 0 \<or> p \<in> set fs" using layout_free_in(5) [OF w'] c by (simp add: p_def)
  have "set fs \<subseteq> set bs" unfolding l(14) by blast
  then have pb: "p \<in> set bs" using pf l(2) by auto
  have mc: "?c < m" "m < 128" using k by (simp_all add: m_def)
  have mb: "m \<notin> set bs" using l(18) [of m] mc(1) by auto
  have "is_free h p" if "p \<in> set fs" using that unfolding l(14) by simp
  then have ne: "p \<noteq> ?c" "p \<noteq> m" using pf l(4,11) pb mb by (metis less_irrefl, metis)
  have b: "?c < 128" "p < 128" using l(5) l(6) [OF pb] .
  have P: "unat (PFREE (h ?c)) = p" by (simp add: p_def free_prev_def)
  have um: "unat (c + k) = m" using mc(2) by (simp add: m_def unat_plus_u16)
  define h1 where "h1 = h(p := (h p)\<lparr>NFREE := c + k\<rparr>)"
  define h2 where "h2 = h1(m := h1 ?c)"
  define h3 where "h3 = h2(?c := (h2 ?c)\<lparr>NBLOCK := c + k\<rparr>)"
  define h4 where "h4 = h3(m := (h3 m)\<lparr>PBLOCK := c\<rparr>)"
  have fm: "(c + k) AND UMM_BLOCKNO_MASK = c + k" "\<not> bit (c + k) 15"
    using small_no_flag [of "c + k"] um mc(2) by simp_all
  have cc: "blk_next h ?c = 0" "\<not> is_free h ?c" "free_next h ?c = 0" by (fact l)+
  have v1: "blk_next h1 = blk_next h" "blk_prev h1 = blk_prev h" "is_free h1 = is_free h"
      "free_next h1 = (free_next h)(p := m)" "free_prev h1 = free_prev h"
    unfolding h1_def views um by simp_all
  have x1: "unat (NBLOCK (h1 ?c) AND UMM_BLOCKNO_MASK) = 0" "\<not> bit (NBLOCK (h1 ?c)) 15" "unat (NFREE (h1 ?c)) = 0"
      "unat (PFREE (h1 ?c)) = p"
    using v1 cc ne(1) by (simp_all add: blk_next_def is_free_iff free_next_def free_prev_def p_def fun_eq_iff)
  have v2: "blk_next h2 = (blk_next h)(m := 0)" "blk_prev h2 = (blk_prev h)(m := unat (PBLOCK (h1 ?c)))"
      "is_free h2 = (is_free h)(m := False)" "free_next h2 = (free_next h)(m := 0, p := m)" "free_prev h2 = (free_prev h)(m := p)"
    unfolding h2_def view_block v1 x1 using x1(2) ne by (simp_all add: fun_upd_twist)
  have v3: "blk_next h3 = (blk_next h)(m := 0, ?c := m)" "blk_prev h3 = (blk_prev h)(m := unat (PBLOCK (h1 ?c)))"
      "is_free h3 = (is_free h)(m := False)" "free_next h3 = (free_next h)(m := 0, p := m)" "free_prev h3 = (free_prev h)(m := p)"
    unfolding h3_def views v2 fm um using fm(2) cc(2) by (auto simp: fun_eq_iff)
  have v4: "blk_next h4 = (blk_next h)(m := 0, ?c := m)" "blk_prev h4 = (blk_prev h)(m := ?c)"
      "is_free h4 = (is_free h)(m := False)" "free_next h4 = (free_next h)(m := 0, p := m)" "free_prev h4 = (free_prev h)(m := p)"
    unfolding h4_def views v3 by simp_all
  have e4: "h3(m := (h2 m)\<lparr>PBLOCK := c\<rparr>) = h4" using mc(1) by (simp add: h4_def h3_def)
  have "append_block c k h = Some h4"
    using b mc by (simp add: append_block_def accesses P m_def [symmetric] h1_def [symmetric] h2_def [symmetric]
        h3_def [symmetric] e4)
  moreover have "wf_heap h4 (bs @ [m]) fs"
    unfolding wf_heap_def v4 using layout_extend [OF w'] mc unfolding c p_def .
  moreover have "used h4 (bs @ [m]) = insert (?c, m) (used h bs)"
    unfolding used_def v4 c [symmetric] using l(3,4) cc mb mc(1) by (auto split: if_splits)
  moreover have "keeps (insert m (set bs)) (insert m (links bs fs)) h h4"
    unfolding h4_def h3_def h2_def h1_def
    by (intro keeps_upd keeps_refl) (use pb pf l(3) c in \<open>auto simp: links_def\<close>)
  ultimately show thesis using that unfolding m_def by blast
qed


lemma keeps_except:
  "keeps T F h (h'(m := h m)) \<Longrightarrow> keeps (insert m T) (insert m F) h h'"
  by (auto simp: keeps_def split: if_splits)

text \<open>A request succeeds, or no free block and not the rest is large enough.\<close>

lemma alloc_block_ok:
  assumes w: "wf_heap h bs fs" and k: "0 < unat k"
  shows "(alloc_block k h = Some (None, h) \<and> (\<forall>f \<in> set fs. blk_next h f - f < unat k) \<and> 127 \<le> last bs + unat k) \<or>
    (\<exists>c h' bs' fs'. alloc_block k h = Some (Some c, h') \<and> wf_heap h' bs' fs' \<and> unat c + unat k < 128 \<and>
       used h' bs' = insert (unat c, unat c + unat k) (used h bs) \<and> same_data (used h bs) h h' \<and>
       (\<forall>(b, e) \<in> used h bs. b \<noteq> unat c) \<and> (last bs' = last bs \<or> unat c = last bs \<and> last bs' = last bs + unat k))"
proof -
  note w' = w [unfolded wf_heap_def]
  note l = layoutD [OF w']
  have "free_next h 0 = hd (fs @ [last bs])"
    using l(15) by (cases fs) simp_all
  then have "unat (NFREE (h 0)) = hd (fs @ [last bs])" by (simp add: free_next_def)
  from first_fit_ok [OF w, of "[]" fs, OF _ this, of k 0] consider
    (fits) c n where "first_fit h k (NFREE (h 0)) 0 = Some (c, n)" "unat c \<in> set fs" "k \<le> n" "unat n = blk_next h (unat c) - unat c" |
    (rest) c n where "first_fit h k (NFREE (h 0)) 0 = Some (c, n)" "unat c = last bs" "\<forall>f \<in> set fs. blk_next h f - f < unat k"
    by auto
  then show ?thesis
  proof cases
    case fits
    let ?c = "unat c"
    have cb: "?c \<in> set bs" "is_free h ?c" using fits(2) unfolding l(14) by simp_all
    then have cl: "?c \<noteq> last bs" using l(11) by metis
    note nc = layout_next_in [OF w' cb(1) cl]
    have b: "?c < 128" "blk_next h ?c < 128" using l(6) [OF cb(1)] l(6) [OF nc(1)] .
    have N: "NBLOCK (h ?c) AND UMM_BLOCKNO_MASK \<noteq> 0" using nc(2) by (auto simp: blk_next_def)
    have pre: "alloc_block k h = (if n = k then do { h1 \<leftarrow> umm_disconnect_from_free_list c h; Some (Some c, h1) }
        else do { h1 \<leftarrow> umm_make_new_block c (n - k) UMM_FREELIST_MASK h; Some (Some (c + (n - k)), h1) })"
      using fits(1) N b by (simp add: alloc_block_def accesses)
    have ucb: "b \<noteq> ?c" if "(b, e) \<in> used h bs" for b e using usedD(4) [OF that] cb(2) by auto
    show ?thesis
    proof (cases "n = k")
      case True
      obtain h' where h': "umm_disconnect_from_free_list c h = Some h'" "wf_heap h' bs (remove1 ?c fs)"
        "blk_next h' = blk_next h" "blk_prev h' = blk_prev h" "is_free h' = (is_free h)(?c := False)"
        "keeps (set bs) (links bs fs) h h'"
        by (rule disconnect_ok [OF w fits(2)]) blast
      have e: "?c + unat k = blk_next h ?c" using fits(4) True nc(2) by simp
      have "?c \<noteq> 0" using cb(2) l(12) by metis
      then have "used h' bs = insert (?c, ?c + unat k) (used h bs)"
        unfolding used_def h'(3,5) e using cb cl by (auto split: if_splits)
      moreover have "same_data (used h bs) h h'" by (rule used_keeps [OF w, of "{}"]) (use h'(6) in auto)
      ultimately show ?thesis using pre True h'(1,2) e b ucb by auto
    next
      case False
      have nk: "unat (n - k) = unat n - unat k" using fits(3) by (subst unat_sub) simp_all
      have lt: "unat k < unat n" using False fits(3) by (metis le_neq_trans word_less_nat_alt)
      have d: "0 < unat (n - k)" "?c + unat (n - k) < blk_next h ?c" using nk lt k fits(4) nc(2) by simp_all
      define m where "m = ?c + unat (n - k)"
      have e: "m + unat k = blk_next h ?c" using nk lt fits(4) nc(2) by (simp add: m_def)
      have um: "unat (c + (n - k)) = m" using d(2) b(2) by (simp add: m_def unat_plus_u16)
      obtain h' bs' where h': "umm_make_new_block c (n - k) UMM_FREELIST_MASK h = Some h'" "wf_heap h' bs' fs" "last bs' = last bs"
        "used h' bs' = insert (m, blk_next h ?c) (used h bs)" "m \<notin> set bs" "keeps (set bs) (links bs fs) h (h'(m := h m))"
        unfolding m_def by (rule divide_ok [OF w fits(2) d]) blast
      have "same_data (used h bs) h h'"
      proof (rule used_keeps [OF w, of "{m}"])
        show "keeps ({m} \<union> set bs) ({m} \<union> links bs fs) h h'" using keeps_except [OF h'(6)] by simp
        show "i < b \<or> e \<le> i" if u: "(b, e) \<in> used h bs" "i \<in> {m}" for b e i
        proof -
          have "?c \<le> b \<or> e \<le> ?c" using used_apart(3) [OF w u(1) cb(1)] by blast
          moreover have "blk_next h ?c \<le> b" if "?c < b" using nc(5) [OF usedD(1) [OF u(1)] that] .
          moreover have "?c < m" "m < blk_next h ?c" using d by (simp_all add: m_def)
          ultimately show ?thesis using u(2) ucb [OF u(1)] by auto
        qed
      qed blast
      moreover have "b \<noteq> m" if "(b, e) \<in> used h bs" for b e using usedD(1) [OF that] h'(5) by auto
      ultimately show ?thesis using pre False h'(1-4) um e b by (auto simp: um e)
    qed
  next
    case rest
    have c0: "unat c \<noteq> 0" "unat c < 128" using rest(2) l(4,5) by simp_all
    have N: "NBLOCK (h (unat c)) AND UMM_BLOCKNO_MASK = 0"
      using l(10) rest(2) by (simp add: blk_next_def unat_eq_0)
    have pre: "alloc_block k h = (if 128 \<le> unat c + unat k + 1 then Some (None, h)
        else do { h2 \<leftarrow> append_block c k h; Some (Some c, h2) })"
      using rest(1) N c0 by (simp add: alloc_block_def accesses init_heap_def unat_eq_0)
    show ?thesis
    proof (cases "128 \<le> unat c + unat k + 1")
      case True
      then show ?thesis using pre rest(2,3) by simp
    next
      case False
      then have lt: "unat c + unat k < 128" by simp
      obtain h' where h': "append_block c k h = Some h'" "wf_heap h' (bs @ [unat c + unat k]) fs"
        "used h' (bs @ [unat c + unat k]) = insert (unat c, unat c + unat k) (used h bs)"
        "keeps (insert (unat c + unat k) (set bs)) (insert (unat c + unat k) (links bs fs)) h h'"
        by (rule append_ok [OF w rest(2) k lt]) blast
      have "same_data (used h bs) h h'"
      proof (rule used_keeps [OF w, of "{unat c + unat k}"])
        show "i < b \<or> e \<le> i" if "(b, e) \<in> used h bs" "i \<in> {unat c + unat k}" for b e i
          using used_apart(2) [OF w that(1)] that(2) rest(2) by simp
      qed (use h'(4) in auto)
      moreover have "b \<noteq> unat c" if "(b, e) \<in> used h bs" for b e using usedD(3) [OF that] rest(2) by simp
      ultimately show ?thesis using pre False h'(1-3) lt rest(2) by fastforce
    qed
  qed
qed

end
