(* ===== verification/Allocator.thy ===== *)
theory Allocator
  imports Prelude
begin

text \<open>
  The contract of a memory allocator as its clients see it: the extents in use, from an address to an
  end, and what allocating and freeing do to them. The client's lemmas are about taking several pieces,
  one after the other, and giving back what was taken when one of them is not to be had.
\<close>

definition disjoint_from :: "nat \<times> nat \<Rightarrow> (nat \<times> nat) set \<Rightarrow> bool" where
  "disjoint_from x X \<longleftrightarrow> (\<forall>(a, e) \<in> X. e \<le> fst x \<or> snd x \<le> a)"

locale allocator =
  fixes inv :: "'s \<Rightarrow> (nat \<times> nat) set \<Rightarrow> bool" and limit :: nat
    and alloc :: "u32 \<Rightarrow> 's \<Rightarrow> (ptr \<times> 's) option" and dealloc :: "ptr \<Rightarrow> 's \<Rightarrow> 's option"
  assumes alloc_law: "inv s X \<Longrightarrow> unat n \<le> limit \<Longrightarrow> \<exists>p s'. alloc n s = Some (p, s') \<and>
      (case p of None \<Rightarrow> s' = s
       | Some a \<Rightarrow> 0 < unat n \<and> (\<exists>e. a + unat n \<le> e \<and> disjoint_from (a, e) X \<and> inv s' (insert (a, e) X)))"
    and dealloc_law: "inv s X \<Longrightarrow> (a, e) \<in> X \<Longrightarrow> \<exists>s'. dealloc (Some a) s = Some s' \<and> inv s' (X - {(a, e)})"
    and nonempty: "inv s X \<Longrightarrow> (a, e) \<in> X \<Longrightarrow> 0 < a \<and> a < e"
    and separate: "inv s X \<Longrightarrow> (a, e) \<in> X \<Longrightarrow> disjoint_from (a, e) (X - {(a, e)})"
begin

lemma alloc_cases:
  assumes "inv s X" "unat n \<le> limit"
  obtains (none) "alloc n s = Some (NULL, s)"
    | (some) a e s' where "alloc n s = Some (Some a, s')" "0 < unat n" "a + unat n \<le> e" "disjoint_from (a, e) X" "(a, e) \<notin> X"
        "inv s' (insert (a, e) X)"
proof -
  obtain p s' where ps: "alloc n s = Some (p, s')" "case p of None \<Rightarrow> s' = s
       | Some a \<Rightarrow> 0 < unat n \<and> (\<exists>e. a + unat n \<le> e \<and> disjoint_from (a, e) X \<and> inv s' (insert (a, e) X))"
    using alloc_law [OF assms] by blast
  show thesis
  proof (cases p)
    case (Some a)
    then obtain e where e: "0 < unat n" "a + unat n \<le> e" "disjoint_from (a, e) X" "inv s' (insert (a, e) X)" using ps(2) by auto
    moreover have "(a, e) \<notin> X" using e(1-3) by (auto simp: disjoint_from_def)
    ultimately show ?thesis using some ps(1) Some by simp
  qed (use ps none in simp)
qed

lemma same_start:
  assumes "inv s X" "(a, e) \<in> X" "(a, e') \<in> X"
  shows "e = e'"
proof (rule ccontr)
  assume "e \<noteq> e'"
  then have "e' \<le> a \<or> e \<le> a" using separate [OF assms(1,2)] assms(3) by (auto simp: disjoint_from_def)
  then show False using nonempty [OF assms(1,2)] nonempty [OF assms(1,3)] by auto
qed

text \<open>
  A client's pieces beside the extents \<open>X\<close>: what it asked for and where it is, the last one first.
\<close>

fun pieces :: "(u32 \<times> nat) list \<Rightarrow> (nat \<times> nat) set \<Rightarrow> (nat \<times> nat) set \<Rightarrow> bool" where
  "pieces [] X Y \<longleftrightarrow> Y = X"
| "pieces ((n, a) # ps) X Y \<longleftrightarrow>
    (\<exists>e Z. Y = insert (a, e) Z \<and> (a, e) \<notin> Z \<and> a + unat n \<le> e \<and> disjoint_from (a, e) Z \<and> pieces ps X Z)"

definition held :: "(u32 \<times> nat) list \<Rightarrow> (nat \<times> nat) set \<Rightarrow> 's \<Rightarrow> bool" where
  "held ps X s \<longleftrightarrow> (\<exists>Y. pieces ps X Y \<and> inv s Y)"

lemma held_Nil: "held [] X s \<longleftrightarrow> inv s X"
  by (simp add: held_def)

text \<open>Taking one more piece, and giving back the last one.\<close>

lemma held_alloc:
  assumes "held ps X s" "unat n \<le> limit"
  obtains (none) "alloc n s = Some (NULL, s)"
    | (some) a s' where "alloc n s = Some (Some a, s')" "0 < unat n" "held ((n, a) # ps) X s'"
proof -
  obtain Y where y: "pieces ps X Y" "inv s Y" using assms(1) by (auto simp: held_def)
  from y(2) assms(2) show thesis
  proof (cases rule: alloc_cases)
    case (some a e s')
    then have "pieces ((n, a) # ps) X (insert (a, e) Y)" using y(1) by auto
    then have "held ((n, a) # ps) X s'" using some(6) unfolding held_def by blast
    then show ?thesis using that(2) some by blast
  qed (rule that(1))
qed

lemma held_dealloc:
  assumes "held ((n, a) # ps) X s"
  obtains s' where "dealloc (Some a) s = Some s'" "held ps X s'"
proof -
  obtain e Z where z: "(a, e) \<notin> Z" "pieces ps X Z" "inv s (insert (a, e) Z)" using assms by (auto simp: held_def)
  obtain s' where "dealloc (Some a) s = Some s'" "inv s' (insert (a, e) Z - {(a, e)})" using dealloc_law [OF z(3)] by blast
  moreover have "insert (a, e) Z - {(a, e)} = Z" using z(1) by simp
  ultimately show thesis using that z(2) unfolding held_def by auto
qed

text \<open>The pieces are none of the extents that were in use, and lie at different addresses.\<close>

lemma pieces_fresh: "pieces ps X Y \<Longrightarrow> X \<subseteq> Y \<and> (\<forall>(n, a) \<in> set ps. \<exists>e. (a, e) \<in> Y - X \<and> a + unat n \<le> e)"
proof (induction ps arbitrary: Y)
  case (Cons p ps)
  obtain n a where p: "p = (n, a)" by (cases p)
  obtain e Z where z: "Y = insert (a, e) Z" "(a, e) \<notin> Z" "a + unat n \<le> e" "pieces ps X Z" using Cons.prems p by auto
  note ih = Cons.IH [OF z(4)]
  have "(a, e) \<in> Y - X" using z(1,2) ih by auto
  moreover have "\<exists>f. (b, f) \<in> Y - X \<and> b + unat m \<le> f" if "(m, b) \<in> set ps" for m b using ih that z(1) by blast
  ultimately show ?case using ih z(1,3) p by auto
qed simp

lemma held_apart:
  assumes "held ps X s" "(n, a) \<in> set ps" "(b, f) \<in> X"
  shows "a \<noteq> b"
proof
  assume ab: "a = b"
  obtain Y where y: "pieces ps X Y" "inv s Y" using assms(1) by (auto simp: held_def)
  obtain e where e: "(a, e) \<in> Y - X" using pieces_fresh [OF y(1)] assms(2) by blast
  have "e = f" using same_start [OF y(2), of a e f] e pieces_fresh [OF y(1)] assms(3) ab by blast
  then show False using e assms(3) ab by simp
qed

lemma held_distinct:
  assumes "held ((n, a) # ps) X s" "(m, b) \<in> set ps"
  shows "a \<noteq> b"
proof
  assume ab: "a = b"
  obtain e Z where z: "(a, e) \<notin> Z" "pieces ps X Z" "inv s (insert (a, e) Z)" using assms(1) by (auto simp: held_def)
  obtain f where "(b, f) \<in> Z" using pieces_fresh [OF z(2)] assms(2) by blast
  then show False using same_start [OF z(3), of a e f] z(1) ab by blast
qed

text \<open>Giving back any piece in use.\<close>

lemma dealloc_keeps:
  assumes "inv s X" "(a, e) \<in> X"
  obtains s' where "dealloc (Some a) s = Some s'" "inv s' (X - {(a, e)})"
  using dealloc_law [OF assms] by blast

end

end
