(* ===== verification/Umm_Service.thy ===== *)
theory Umm_Service
  imports Umm_Alloc Allocator
begin

text \<open>
  The allocator's contract, for the heap as the start-up code leaves it and after any calls: the set \<open>U\<close>
  of extents in use, in blocks from a header to the next, and the start \<open>r\<close> of the unused rest.
\<close>

definition fresh_heap :: "umm_heap \<Rightarrow> bool" where
  "fresh_heap h \<longleftrightarrow> (\<forall>b < 128. h b = \<lparr>NBLOCK = 0, PBLOCK = 0, NFREE = 0, PFREE = 0\<rparr>)"

definition heap_state :: "umm_heap \<Rightarrow> (nat \<times> nat) set \<Rightarrow> nat \<Rightarrow> bool" where
  "heap_state h U r \<longleftrightarrow> (U = {} \<and> r = 0 \<and> fresh_heap h) \<or> (\<exists>bs fs. wf_heap h bs fs \<and> U = used h bs \<and> r = last bs)"

text \<open>An extent overlaps nothing of a set of extents.\<close>

definition clear_of :: "nat \<times> nat \<Rightarrow> (nat \<times> nat) set \<Rightarrow> bool" where
  "clear_of x U \<longleftrightarrow> (\<forall>(b, e) \<in> U. e \<le> fst x \<or> snd x \<le> b)"

lemma heap_state_init: "heap_state umm_heap_init {} 0"
  by (simp add: heap_state_def fresh_heap_def umm_heap_init_def)

lemma heap_state_apart:
  assumes "heap_state h U r" "(b, e) \<in> U"
  shows "0 < b" "b < e" "e \<le> r" "r < 128" "clear_of (b, e) (U - {(b, e)})"
proof -
  obtain bs fs where w: "wf_heap h bs fs" "U = used h bs" "r = last bs" using assms unfolding heap_state_def by blast
  note u = assms(2) [unfolded w(2)]
  show "0 < b" "b < e" "e \<le> r" using usedD(2) [OF u] used_apart(1,2) [OF w(1) u] w(3) by simp_all
  show "r < 128" using layoutD(5) [OF w(1) [unfolded wf_heap_def]] w(3) by simp
  have "e' \<le> b \<or> e \<le> b'" if "(b', e') \<in> U - {(b, e)}" for b' e'
  proof -
    have u': "(b', e') \<in> used h bs" "(b', e') \<noteq> (b, e)" using that w(2) by simp_all
    have "b' \<noteq> b" using u'(2) usedD(5) [OF u] usedD(5) [OF u'(1)] by auto
    then show ?thesis using used_apart(4) [OF w(1) u] that w(2) by blast
  qed
  then show "clear_of (b, e) (U - {(b, e)})" unfolding clear_of_def by auto
qed

subsection \<open>Sizes\<close>

lemma umm_blocks_val:
  assumes "unat bytes \<le> 500000"
  shows "unat (umm_blocks bytes) = (if unat bytes \<le> 4 then 1 else 2 + (unat bytes - 5) div 8)"
proof (cases "unat bytes \<le> 4")
  case True
  then show ?thesis by (simp add: umm_blocks_def sizeof_body_def word_le_nat_alt)
next
  case False
  have s: "unat (bytes - 5) = unat bytes - 5" using False by (subst unat_sub) (simp_all add: word_le_nat_alt)
  have d: "unat ((bytes - 5) div 8) = (unat bytes - 5) div 8" using s by (simp add: unat_div)
  have q: "(unat bytes - 5) div 8 \<le> 62500" using assms by (simp add: div_le_mono [of _ 500000 8, simplified] less_imp_le)
  have "unat (2 + (bytes - 5) div 8) = 2 + (unat bytes - 5) div 8"
    using q d by (simp add: unat_word_ariths)
  then have "unat (ucast (2 + (bytes - 5) div 8) :: u16) = 2 + (unat bytes - 5) div 8"
    using q by (simp only: unsigned_ucast_eq) (simp add: take_bit_nat_eq_self)
  then show ?thesis using False by (simp add: umm_blocks_def sizeof_body_def sizeof_umm_block_def word_le_nat_alt Let_def)
qed

lemma umm_blocks_enough:
  assumes "unat bytes \<le> 500000"
  shows "0 < unat (umm_blocks bytes)" "unat bytes + 4 \<le> 8 * unat (umm_blocks bytes)"
proof -
  show "0 < unat (umm_blocks bytes)" unfolding umm_blocks_val [OF assms] by simp
  have "unat bytes - 5 < 8 * ((unat bytes - 5) div 8) + 8"
    using mod_less_divisor [of 8 "unat bytes - 5"] mult_div_mod_eq [of 8 "unat bytes - 5"] by linarith
  then show "unat bytes + 4 \<le> 8 * unat (umm_blocks bytes)"
    unfolding umm_blocks_val [OF assms] by (cases "unat bytes \<le> 4"; simp; linarith)
qed

text \<open>The number of blocks is cut to 16 bits: a request of 512 KB less three bytes is one for a single block.\<close>

lemma umm_blocks_wraps: "umm_blocks 524285 = 1"
  by (simp add: umm_blocks_def sizeof_body_def sizeof_umm_block_def Let_def)

subsection \<open>Allocating\<close>

lemma init_wf:
  assumes "fresh_heap h"
  obtains h' where "init_heap 0 h = Some (1, h')" "wf_heap h' [0, 1] []"
proof -
  define h1 where "h1 = h(0 := (h 0)\<lparr>NBLOCK := 1\<rparr>)"
  define h2 where "h2 = h1(0 := (h1 0)\<lparr>NFREE := 1\<rparr>)"
  have "init_heap 0 h = Some (1, h2)" by (simp add: init_heap_def accesses h1_def h2_def)
  moreover have h: "h2 0 = \<lparr>NBLOCK = 1, PBLOCK = 0, NFREE = 1, PFREE = 0\<rparr>" "h2 1 = \<lparr>NBLOCK = 0, PBLOCK = 0, NFREE = 0, PFREE = 0\<rparr>"
    using assms by (simp_all add: h1_def h2_def fresh_heap_def)
  have m: "1 AND UMM_BLOCKNO_MASK = 1" "1 AND UMM_FREELIST_MASK = 0" by (simp_all add: UMM_BLOCKNO_MASK_def UMM_FREELIST_MASK_def)
  then have v: "blk_next h2 0 = 1" "blk_next h2 1 = 0" "blk_prev h2 1 = 0" "free_next h2 0 = 1" "free_next h2 1 = 0"
      "free_prev h2 1 = 0" "\<not> is_free h2 0" "\<not> is_free h2 1"
    unfolding blk_next_def blk_prev_def free_next_def free_prev_def is_free_def h by simp_all
  have z: "\<not> is_free h2 b" if "b \<in> set [0, 1]" for b using that v(7,8) by auto
  have e: "set [] = {b \<in> set [0, 1]. is_free h2 b}"
  proof (rule set_eqI)
    show "x \<in> set [] \<longleftrightarrow> x \<in> {b \<in> set [0, 1]. is_free h2 b}" for x 
      using z [of x] unfolding mem_Collect_eq by (metis list.set(1) empty_iff)
  qed
  have "wf_heap h2 [0, 1] []"
    unfolding wf_heap_def by (rule layoutI [OF _ _ _ _ _ _ _ _ e]) (use v in simp_all)
  ultimately show thesis using that by blast
qed

text \<open>No interval below the rest is free that could hold a request which no free block can hold.\<close>

lemma no_gap:
  assumes w: "wf_heap h bs fs" and small: "\<forall>f \<in> set fs. blk_next h f - f < n" and b: "0 < b" "b + n \<le> last bs" "0 < n"
  shows "\<not> clear_of (b, b + n) (used h bs)"
proof
  assume a: "clear_of (b, b + n) (used h bs)"
  note w' = w [unfolded wf_heap_def]
  note l = layoutD [OF w']
  define f where "f = Max {x \<in> set bs. x \<le> b}"
  have fin: "finite {x \<in> set bs. x \<le> b}" "{x \<in> set bs. x \<le> b} \<noteq> {}" using l(2) by auto
  have f: "f \<in> set bs" "f \<le> b" using Max_in [OF fin] by (simp_all add: f_def)
  have fmax: "x \<le> f" if "x \<in> set bs" "x \<le> b" for x using Max_ge [OF fin(1), of x] that by (simp add: f_def)
  have fl: "f \<noteq> last bs" using f(2) b by simp
  note nf = layout_next_in [OF w' f(1) fl]
  have bn: "b < blk_next h f"
  proof (rule ccontr)
    assume "\<not> b < blk_next h f"
    then have "blk_next h f \<le> f" using fmax [OF nf(1)] by simp
    then show False using nf(2) by simp
  qed
  have "f \<noteq> 0"
  proof
    assume "f = 0"
    moreover obtain rs where "bs = 0 # 1 # rs" using layout_bs(1) [OF w'] by blast
    then have "(1 :: nat) \<in> set bs" by simp
    ultimately show False using fmax [of 1] b(1) by simp
  qed
  have no: "\<not> (g < b + n \<and> b < blk_next h g)" if "g \<in> set bs" "g \<noteq> 0" "g \<noteq> last bs" "\<not> is_free h g" for g
  proof -
    have "(g, blk_next h g) \<in> used h bs" using that by (simp add: used_def)
    then show ?thesis using a by (auto simp: clear_of_def)
  qed
  have ff: "is_free h f" using no [OF f(1) \<open>f \<noteq> 0\<close> fl] f(2) bn b(3) by auto
  have "b + n \<le> blk_next h f"
  proof (rule ccontr)
    assume lt: "\<not> b + n \<le> blk_next h f"
    then have gl: "blk_next h f \<noteq> last bs" using b(2) by auto
    have "\<not> is_free h (blk_next h f)" using nf(4) ff by blast
    moreover have "b < blk_next h (blk_next h f)" using layout_next_in(2) [OF w' nf(1) gl] bn by simp
    moreover have "blk_next h f \<noteq> 0" using nf(2) by simp
    ultimately show False using no [OF nf(1) _ gl] lt by simp
  qed
  moreover have "f \<in> set fs" unfolding l(14) using f(1) ff by simp
  ultimately show False using small f(2) by fastforce
qed

lemma alloc_state:
  assumes h: "heap_state h U r" and k: "0 < unat k"
  shows "(alloc_block k h = Some (None, h) \<and> 127 \<le> r + unat k \<and> (\<forall>b. 0 < b \<longrightarrow> b + unat k \<le> r \<longrightarrow> \<not> clear_of (b, b + unat k) U)) \<or>
    (\<exists>c h' r'. alloc_block k h = Some (Some c, h') \<and> heap_state h' (insert (unat c, unat c + unat k) U) r' \<and>
       (unat c, unat c + unat k) \<notin> U \<and> clear_of (unat c, unat c + unat k) U \<and> same_data U h h' \<and> r \<le> r' \<and> r' \<le> max 1 r + unat k)"
  (is "?no \<or> ?yes")
proof -
  have alloc_yes: ?yes if c: "alloc_block k h = Some (Some c, h')" "wf_heap h' bs' fs'"
      "used h' bs' = insert (unat c, unat c + unat k) U" "same_data U h h'" "\<forall>(b, e) \<in> U. b \<noteq> unat c"
      "r \<le> last bs'" "last bs' \<le> max 1 r + unat k" for c h' bs' fs'
  proof -
    have s: "heap_state h' (insert (unat c, unat c + unat k) U) (last bs')"
      using c(2,3) unfolding heap_state_def by metis
    have n: "(unat c, unat c + unat k) \<notin> U" using c(5) by auto
    have "clear_of (unat c, unat c + unat k) (insert (unat c, unat c + unat k) U - {(unat c, unat c + unat k)})"
      using heap_state_apart(5) [OF s] by blast
    then have "clear_of (unat c, unat c + unat k) U" using n by simp
    then show ?thesis using c s n by blast
  qed
  from h consider (fresh) "U = {}" "r = 0" "fresh_heap h" | (wf) bs fs where "wf_heap h bs fs" "U = used h bs" "r = last bs"
    unfolding heap_state_def by blast
  then show ?thesis
  proof cases
    case fresh
    have z: "h 0 = \<lparr>NBLOCK = 0, PBLOCK = 0, NFREE = 0, PFREE = 0\<rparr>" using fresh(3) by (simp add: fresh_heap_def)
    have pre: "alloc_block k h = (if 128 \<le> unat k + 1 then Some (None, h)
        else do { (cf1, h1) \<leftarrow> init_heap 0 h; h2 \<leftarrow> append_block cf1 k h1; Some (Some cf1, h2) })"
      by (simp add: alloc_block_def accesses first_fit.simps [of h k 0 0] z)
    show ?thesis
    proof (cases "128 \<le> unat k + 1")
      case True
      then have "?no" using pre fresh(1,2) k by auto
      then show ?thesis ..
    next
      case False
      obtain h1 where h1: "init_heap 0 h = Some (1, h1)" "wf_heap h1 [0, 1] []" by (rule init_wf [OF fresh(3)])
      have one: "unat (1 :: u16) = last [0, 1]" "unat (1 :: u16) + unat k < 128" using False by simp_all
      obtain h' where h': "append_block 1 k h1 = Some h'" "wf_heap h' ([0, 1] @ [unat (1 :: u16) + unat k]) []"
        "used h' ([0, 1] @ [unat (1 :: u16) + unat k]) = insert (unat (1 :: u16), unat (1 :: u16) + unat k) (used h1 [0, 1])"
        by (rule append_ok [OF h1(2) one(1) k one(2)]) blast
      have "used h1 [0, 1] = {}" by (auto simp: used_def)
      moreover have "alloc_block k h = Some (Some 1, h')" using pre False h1(1) h'(1) by simp
      ultimately have ?yes using alloc_yes [OF _ h'(2)] h'(3) fresh(1,2) by (simp add: same_data_def)
      then show ?thesis ..
    qed
  next
    case wf
    from alloc_block_ok [OF wf(1) k] consider
      (no) "alloc_block k h = Some (None, h)" "\<forall>f \<in> set fs. blk_next h f - f < unat k" "127 \<le> last bs + unat k" |
      (yes) c h' bs' fs' where "alloc_block k h = Some (Some c, h')" "wf_heap h' bs' fs'"
        "used h' bs' = insert (unat c, unat c + unat k) (used h bs)" "same_data (used h bs) h h'" "\<forall>(b, e) \<in> used h bs. b \<noteq> unat c"
        "last bs' = last bs \<or> unat c = last bs \<and> last bs' = last bs + unat k"
      by blast
    then show ?thesis
    proof cases
      case no
      then have ?no using no_gap [OF wf(1) no(2)] k wf(2,3) by simp
      then show ?thesis ..
    next
      case (yes c h' bs' fs')
      have ?yes using alloc_yes [OF yes(1,2)] yes(3-6) unfolding wf(2,3) by auto
      then show ?thesis ..
    qed
  qed
qed

subsection \<open>The two operations\<close>

text \<open>Without their critical section.\<close>

definition umm_take :: "u32 \<Rightarrow> umm_heap \<Rightarrow> (ptr \<times> umm_heap) option" where
  "umm_take bytes h =
    (if bytes = 0 then Some (NULL, h)
     else do { (c, h1) \<leftarrow> alloc_block (umm_blocks bytes) h; Some (map_option (\<lambda>b. data_address (unat b)) c, h1) })"

definition umm_release :: "ptr \<Rightarrow> umm_heap \<Rightarrow> umm_heap option" where
  "umm_release p h = (case p of None \<Rightarrow> Some h | Some a \<Rightarrow> free_block (word_of_nat (a div sizeof_umm_block)) h)"

lemma umm_malloc_take:
  "umm_malloc n k h = map_option (\<lambda>(p, h1). (p, if n = 0 then k else ExitCritical (EnterCritical k), h1)) (umm_take n h)"
  by (auto simp: umm_malloc_def umm_take_def Let_def split: bind_splits)

lemma umm_free_release:
  "umm_free p k h = map_option (Pair (if p = NULL then k else ExitCritical (EnterCritical k))) (umm_release p h)"
  by (auto simp: umm_free_def umm_release_def Let_def split: bind_splits option.split)

lemma free_state:
  assumes "heap_state h U r" "(b, e) \<in> U"
  obtains h' where "umm_release (Some (data_address b)) h = Some h'" "heap_state h' (U - {(b, e)}) r"
    "same_data (U - {(b, e)}) h h'"
proof -
  obtain bs fs where w: "wf_heap h bs fs" "U = used h bs" "r = last bs" using assms unfolding heap_state_def by blast
  have b: "b < 128" using heap_state_apart [OF assms] by simp
  define c :: u16 where "c = word_of_nat (data_address b div sizeof_umm_block)"
  have "data_address b div sizeof_umm_block = b" by (simp add: data_address_def sizeof_umm_block_def)
  then have c: "unat c = b" using b by (simp add: c_def unat_of_nat_u16)
  obtain h' bs' fs' where h': "free_block c h = Some h'" "wf_heap h' bs' fs'" "used h' bs' = used h bs - {(b, e)}"
    "same_data (used h bs - {(b, e)}) h h'" "last bs' = last bs"
    using free_block_ok [OF w(1), of c e] assms(2) unfolding w(2) c by metis
  have "umm_release (Some (data_address b)) h = Some h'" using h'(1) by (simp add: umm_release_def c_def)
  then show thesis using that h' w(2,3) unfolding heap_state_def by metis
qed

text \<open>
  C27. \<open>umm_malloc\<close> answers with the address of memory that holds the bytes asked for and overlaps no
  extent in use, and changes nothing that is stored in one; or with the null pointer and an unchanged
  heap, and then the unused rest is too small and no gap between the extents in use would have been large
  enough. The heap stays well formed.
\<close>

theorem umm_malloc_correct:
  assumes "heap_state h U r" "0 < bytes" "unat bytes \<le> 500000"
  shows "\<exists>p h'. umm_malloc bytes k h = Some (p, ExitCritical (EnterCritical k), h') \<and>
    (case p of
       None \<Rightarrow> h' = h \<and> 127 \<le> r + unat (umm_blocks bytes) \<and>
         (\<forall>b. 0 < b \<longrightarrow> b + unat (umm_blocks bytes) \<le> r \<longrightarrow> \<not> clear_of (b, b + unat (umm_blocks bytes)) U)
     | Some a \<Rightarrow> \<exists>b e r'. a = data_address b \<and> a + unat bytes \<le> block_address e \<and> (b, e) \<notin> U \<and> clear_of (b, e) U \<and>
         heap_state h' (insert (b, e) U) r' \<and> same_data U h h')"
proof -
  let ?k = "umm_blocks bytes"
  note n = umm_blocks_enough [OF assms(3)]
  have run: "umm_malloc bytes k h = (case alloc_block ?k h of None \<Rightarrow> None
      | Some (c, h1) \<Rightarrow> Some (map_option (\<lambda>b. data_address (unat b)) c, ExitCritical (EnterCritical k), h1))"
    using assms(2) by (auto simp: umm_malloc_def split: option.split)
  from alloc_state [OF assms(1) n(1)] show ?thesis
  proof (elim disjE exE conjE)
    fix c h' r'
    assume c: "alloc_block ?k h = Some (Some c, h')" "heap_state h' (insert (unat c, unat c + unat ?k) U) r'"
      "(unat c, unat c + unat ?k) \<notin> U" "clear_of (unat c, unat c + unat ?k) U" "same_data U h h'"
    have "data_address (unat c) + unat bytes \<le> block_address (unat c + unat ?k)"
      using n(2) by (simp add: data_address_def block_address_def sizeof_umm_block_def)
    then show ?thesis using run c by auto
  qed (use run in simp)
qed

text \<open>
  C28. \<open>umm_free\<close> of a pointer that \<open>umm_malloc\<close> returned takes exactly its extent out of use, changes nothing
  stored in the others, and merges it with its free neighbours: the heap stays well formed.
\<close>

theorem umm_free_correct:
  assumes "heap_state h U r" "(b, e) \<in> U"
  shows "\<exists>h'. umm_free (Some (data_address b)) k h = Some (ExitCritical (EnterCritical k), h') \<and>
    heap_state h' (U - {(b, e)}) r \<and> same_data (U - {(b, e)}) h h'"
proof -
  obtain h' where "umm_release (Some (data_address b)) h = Some h'" "heap_state h' (U - {(b, e)}) r" "same_data (U - {(b, e)}) h h'"
    by (rule free_state [OF assms])
  then show ?thesis by (simp add: umm_free_release)
qed

subsection \<open>Writes to the memory in use\<close>

text \<open>\<open>h'\<close> differs from \<open>h\<close> only in the data of the extents.\<close>

definition data_only :: "(nat \<times> nat) set \<Rightarrow> umm_heap \<Rightarrow> umm_heap \<Rightarrow> bool" where
  "data_only U h h' \<longleftrightarrow> (\<forall>i. (\<exists>(b, e) \<in> U. b < i \<and> i < e) \<or>
     (\<exists>e. (i, e) \<in> U \<and> NBLOCK (h' i) = NBLOCK (h i) \<and> PBLOCK (h' i) = PBLOCK (h i)) \<or> h' i = h i)"

text \<open>
  Whatever the owners of the extents in use write into their memory, from the address \<open>umm_malloc\<close>
  returned up to the next header, the heap stays well formed with the same extents in use.
\<close>

theorem umm_data_is_free:
  assumes "heap_state h U r" "data_only U h h'"
  shows "heap_state h' U r"
proof (cases "U = {}")
  case True
  then have "h' = h" using assms(2) by (auto simp: data_only_def)
  then show ?thesis using assms(1) by simp
next
  case False
  then obtain bs fs where w: "wf_heap h bs fs" "U = used h bs" "r = last bs" using assms unfolding heap_state_def by blast
  note w' = w(1) [unfolded wf_heap_def]
  note l = layoutD [OF w']
  have hd: "NBLOCK (h' i) = NBLOCK (h i) \<and> PBLOCK (h' i) = PBLOCK (h i)" if i: "i \<in> set bs" for i
  proof -
    have "\<not> (b < i \<and> i < e)" if "(b, e) \<in> U" for b e
      using used_apart(3) [OF w(1) that [unfolded w(2)] i] by auto
    then have "(\<exists>e. (i, e) \<in> U \<and> NBLOCK (h' i) = NBLOCK (h i) \<and> PBLOCK (h' i) = PBLOCK (h i)) \<or> h' i = h i"
      using assms(2) unfolding data_only_def by blast
    then show ?thesis by auto
  qed
  have fr: "h' i = h i" if i: "i = 0 \<or> i = last bs \<or> i \<in> set fs" for i
  proof -
    have ib: "i \<in> set bs" using i l(2,3) unfolding l(14) by auto
    have "(i, e) \<notin> U" for e using i usedD [of i e h bs] unfolding w(2) l(14) by auto
    moreover have "\<not> (b < i \<and> i < e)" if "(b, e) \<in> U" for b e
      using used_apart(3) [OF w(1) that [unfolded w(2)] ib] by auto
    ultimately show ?thesis using assms(2) unfolding data_only_def by blast
  qed
  have v: "blk_next h' i = blk_next h i" "blk_prev h' i = blk_prev h i" "is_free h' i = is_free h i" if "i \<in> set bs" for i
    using hd [OF that] by (simp_all add: blk_next_def blk_prev_def is_free_def)
  have "wf_heap h' bs fs" unfolding wf_heap_def
    by (rule layout_cong [OF w']) (use v fr in \<open>auto simp: free_next_def free_prev_def\<close>)
  moreover have "used h' bs = used h bs" using v by (auto simp: used_def)
  ultimately show ?thesis using w(2,3) unfolding heap_state_def by metis
qed

subsection \<open>The allocator as an interface\<close>

text \<open>The extents of bytes in use.\<close>

definition byte_extent :: "nat \<times> nat \<Rightarrow> nat \<times> nat" where
  "byte_extent x = (data_address (fst x), block_address (snd x))"

definition memory_state :: "umm_heap \<Rightarrow> (nat \<times> nat) set \<Rightarrow> bool" where
  "memory_state h X \<longleftrightarrow> (\<exists>U r. heap_state h U r \<and> X = byte_extent ` U)"

text \<open>
  No room for \<open>n\<close> bytes and the four of the header: neither behind the last block nor in any gap between extents.
\<close>

definition needed_blocks :: "nat \<Rightarrow> nat" where
  "needed_blocks n = (n + 11) div 8"

definition no_gap :: "nat \<Rightarrow> umm_heap \<Rightarrow> bool" where
  "no_gap n h \<longleftrightarrow> (\<exists>U r. heap_state h U r \<and> 127 \<le> r + needed_blocks n \<and>
     (\<forall>b. 0 < b \<longrightarrow> b + needed_blocks n \<le> r \<longrightarrow> \<not> clear_of (b, b + needed_blocks n) U))"

lemma umm_blocks_needed:
  assumes "unat n \<le> 500000"
  shows "unat (umm_blocks n) = needed_blocks (unat n)"
proof (cases "unat n \<le> 4")
  case False
  then have "unat n + 11 = unat n - 5 + 2 * 8" by simp
  then have "(unat n + 11) div 8 = 2 + (unat n - 5) div 8" by simp
  then show ?thesis using False by (simp add: umm_blocks_val [OF assms] needed_blocks_def)
qed (use umm_blocks_val [OF assms] in \<open>auto simp: needed_blocks_def\<close>)

lemma umm_take_refuses:
  assumes "memory_state h X" "0 < unat n" "unat n \<le> 500000" "umm_take n h = Some (NULL, h')"
  shows "no_gap (unat n) h"
proof -
  obtain U r where U: "heap_state h U r" using assms(1) by (auto simp: memory_state_def)
  have z: "n \<noteq> 0" using assms(2) by auto
  from alloc_state [OF U umm_blocks_enough(1) [OF assms(3)]] show ?thesis
  proof (elim disjE exE conjE)
    assume "127 \<le> r + unat (umm_blocks n)" "\<forall>b. 0 < b \<longrightarrow> b + unat (umm_blocks n) \<le> r \<longrightarrow> \<not> clear_of (b, b + unat (umm_blocks n)) U"
    then show ?thesis using U unfolding no_gap_def umm_blocks_needed [OF assms(3)] by blast
  qed (use assms(4) z in \<open>simp add: umm_take_def\<close>)
qed

interpretation umm: allocator memory_state 500000 umm_take umm_release
proof
  fix s :: umm_heap and X :: "(nat \<times> nat) set" and n :: u32 and a e :: nat
  assume "memory_state s X"
  then obtain U r where U: "heap_state s U r" "X = byte_extent ` U" by (auto simp: memory_state_def)
  show "\<exists>p s'. umm_take n s = Some (p, s') \<and> (case p of None \<Rightarrow> s' = s
       | Some a \<Rightarrow> 0 < unat n \<and> (\<exists>e. a + unat n \<le> e \<and> disjoint_from (a, e) X \<and> memory_state s' (insert (a, e) X)))"
    if n: "unat n \<le> 500000"
  proof (cases "n = 0")
    case False
    note k = umm_blocks_enough [OF n]
    let ?k = "umm_blocks n"
    from alloc_state [OF U(1) k(1)] show ?thesis
    proof (elim disjE exE conjE)
      fix c h' r'
      assume c: "alloc_block ?k s = Some (Some c, h')" "heap_state h' (insert (unat c, unat c + unat ?k) U) r'"
        "clear_of (unat c, unat c + unat ?k) U"
      have sz: "data_address (unat c) + unat n \<le> block_address (unat c + unat ?k)"
        using k(2) by (simp add: data_address_def block_address_def sizeof_umm_block_def)
      have d: "disjoint_from (data_address (unat c), block_address (unat c + unat ?k)) X"
        using c(3) unfolding U(2) 
        by (fastforce simp: disjoint_from_def clear_of_def byte_extent_def data_address_def block_address_def sizeof_umm_block_def)
      have "memory_state h' (insert (data_address (unat c), block_address (unat c + unat ?k)) X)"
        unfolding memory_state_def by (rule exI, rule exI, rule conjI [OF c(2)]) (simp add: byte_extent_def U(2))
      then show ?thesis using c(1) sz d False by (auto simp: umm_take_def unat_gt_0)
    qed (use False in \<open>simp add: umm_take_def\<close>)
  qed (simp add: umm_take_def)
  show "0 < a \<and> a < e" if "(a, e) \<in> X"
    using heap_state_apart(1,2) [OF U(1)] that unfolding U(2)
    by (fastforce simp: byte_extent_def data_address_def block_address_def sizeof_umm_block_def)
  show "disjoint_from (a, e) (X - {(a, e)})" if ae: "(a, e) \<in> X"
  proof -
    obtain b f where bf: "(b, f) \<in> U" "a = data_address b" "e = block_address f" using ae unfolding U(2) by (auto simp: byte_extent_def)
    have ap: "block_address f' \<le> data_address b \<or> block_address f \<le> data_address b'"
      if "(b', f') \<in> U" "(data_address b', block_address f') \<noteq> (data_address b, block_address f)" for b' f'
    proof -
      have "(b', f') \<in> U - {(b, f)}" using that by auto
      then have "f' \<le> b \<or> f \<le> b'" using heap_state_apart(5) [OF U(1) bf(1)] by (auto simp: clear_of_def)
      then show ?thesis by (auto simp: data_address_def block_address_def sizeof_umm_block_def)
    qed
    have "block_address (snd x) \<le> data_address b \<or> block_address f \<le> data_address (fst x)"
      if "x \<in> U" "byte_extent x \<noteq> (data_address b, block_address f)" for x
      using ap [of "fst x" "snd x"] that by (simp add: byte_extent_def)
    then show ?thesis unfolding U(2) bf(2,3) disjoint_from_def by (auto simp: byte_extent_def)
  qed
  show "\<exists>s'. umm_release (Some a) s = Some s' \<and> memory_state s' (X - {(a, e)})" if ae: "(a, e) \<in> X"
  proof -
    obtain b f where bf: "(b, f) \<in> U" "a = data_address b" "e = block_address f" using ae unfolding U(2) by (auto simp: byte_extent_def)
    obtain h' where h': "umm_release (Some (data_address b)) s = Some h'" "heap_state h' (U - {(b, f)}) r"
      by (rule free_state [OF U(1) bf(1)])
    have "inj_on byte_extent U"
      by (rule inj_onI) (auto simp: byte_extent_def data_address_def block_address_def sizeof_umm_block_def prod_eq_iff)
    then have "X - {(a, e)} = byte_extent ` (U - {(b, f)})"
      unfolding U(2) using bf inj_on_image_set_diff [where f = byte_extent and C = U and A = U and B = "{(b, f)}"]
      by (simp add: byte_extent_def [of "(b, f)"])
    then show ?thesis using h' bf(2) by (auto simp: memory_state_def)
  qed
qed

lemma memory_state_init: "memory_state umm_heap_init {}"
  using heap_state_init by (auto simp: memory_state_def)

end
