(* ===== verification/Umm_Info.thy ===== *)
theory Umm_Info
  imports Umm_Service
begin

text \<open>The accounting functions of the allocator count what is in use.\<close>

lemma info_loop_ok:
  assumes w: "wf_heap h bs fs" and "bs = us @ vs" "vs \<noteq> []" "unat blockNo = hd vs"
  shows "\<exists>i'. info_loop NULL h blockNo i = Some (False, word_of_nat (last bs), i') \<and>
    usedBlocks i' = usedBlocks i + word_of_nat (\<Sum>b \<leftarrow> filter (\<lambda>b. \<not> is_free h b) (butlast vs). blk_next h b - b) \<and>
    freeBlocks i' = freeBlocks i + word_of_nat (\<Sum>b \<leftarrow> filter (is_free h) (butlast vs). blk_next h b - b) \<and>
    totalBlocks i' = totalBlocks i + word_of_nat (\<Sum>b \<leftarrow> butlast vs. blk_next h b - b) \<and>
    usedEntries i' = usedEntries i + word_of_nat (length (filter (\<lambda>b. \<not> is_free h b) (butlast vs))) \<and>
    freeEntries i' = freeEntries i + word_of_nat (length (filter (is_free h) (butlast vs))) \<and>
    totalEntries i' = totalEntries i + word_of_nat (length (butlast vs))"
  using assms(2-)
proof (induction vs arbitrary: us blockNo i)
  case (Cons b vs)
  note w' = w [unfolded wf_heap_def]
  note l = layoutD [OF w']
  have bb: "b \<in> set bs" "unat blockNo = b" using Cons.prems by simp_all
  have b128: "b < 128" by (rule l(6) [OF bb(1)])
  have wb: "word_of_nat b = blockNo" using bb(2) by (metis unat_of_nat_u16 word_unat_eq_iff unat_u16_less)
  define N where "N = NBLOCK (h b) AND UMM_BLOCKNO_MASK"
  have uN: "unat N = blk_next h b" by (simp add: N_def blk_next_def)
  show ?case
  proof (cases vs)
    case Nil
    then have lb: "last bs = b" using Cons.prems(1) by simp
    then have "N = 0" using l(10) uN by (simp add: unat_eq_0)
    then have "info_loop NULL h blockNo i = Some (False, blockNo, i)"
      using b128 bb(2) by (simp add: info_loop.simps [of NULL h blockNo i] accesses N_def [symmetric])
    then show ?thesis using Nil lb wb by simp
  next
    case (Cons c cs)
    have bl: "b \<noteq> last bs"
    proof
      assume "b = last bs"
      moreover have "last bs \<in> set vs" using Cons.prems(1) Cons by simp
      moreover have "distinct (us @ b # vs)" using l(7) Cons.prems(1) by simp
      ultimately show False by simp
    qed
    note nb = layout_next_in [OF w' bb(1) bl]
    have "chain (blk_next h) (blk_prev h) (us @ b # c # cs)" using l(9) Cons.prems(1) Cons by simp
    then have nx: "blk_next h b = c" using chain_link by fast
    have Nc: "unat N = hd vs" using uN nx Cons by simp
    have N0: "N \<noteq> 0" using nb(2) uN by auto
    have "unat (N - blockNo) = blk_next h b - b"
      using nb(2) uN bb(2) by (subst unat_sub) (simp_all add: word_le_nat_alt)
    then have d: "N - blockNo = word_of_nat (blk_next h b - b)"
      using unat_u16_less [of "N - blockNo"] by (simp add: word_unat_eq_iff unat_of_nat_u16)
    define i2 where "i2 = (let i1 = i\<lparr>totalEntries := totalEntries i + 1, totalBlocks := totalBlocks i + (N - blockNo)\<rparr>
        in if is_free h b then i1\<lparr>freeEntries := freeEntries i1 + 1, freeBlocks := freeBlocks i1 + (N - blockNo)\<rparr>
           else i1\<lparr>usedEntries := usedEntries i1 + 1, usedBlocks := usedBlocks i1 + (N - blockNo)\<rparr>)"
    have step: "info_loop NULL h blockNo i = info_loop NULL h N i2"
      using b128 bb(2) N0 by (simp add: info_loop.simps [of NULL h blockNo i] accesses N_def [symmetric] i2_def is_free_def Let_def)
    have "bs = (us @ [b]) @ vs" "vs \<noteq> []" using Cons.prems(1) Cons by simp_all
    from Cons.IH [OF this Nc, of i2] obtain i' where i': "info_loop NULL h N i2 = Some (False, word_of_nat (last bs), i')"
      "usedBlocks i' = usedBlocks i2 + word_of_nat (\<Sum>b \<leftarrow> filter (\<lambda>b. \<not> is_free h b) (butlast vs). blk_next h b - b)"
      "freeBlocks i' = freeBlocks i2 + word_of_nat (\<Sum>b \<leftarrow> filter (is_free h) (butlast vs). blk_next h b - b)"
      "totalBlocks i' = totalBlocks i2 + word_of_nat (\<Sum>b \<leftarrow> butlast vs. blk_next h b - b)"
      "usedEntries i' = usedEntries i2 + word_of_nat (length (filter (\<lambda>b. \<not> is_free h b) (butlast vs)))"
      "freeEntries i' = freeEntries i2 + word_of_nat (length (filter (is_free h) (butlast vs)))"
      "totalEntries i' = totalEntries i2 + word_of_nat (length (butlast vs))"
      by blast
    have bt: "butlast (b # vs) = b # butlast vs" using Cons by simp
    show ?thesis
      unfolding step i'(1) bt using i'(2-) by (auto simp: i2_def d Let_def)
  qed
qed simp

lemma telescope:
  assumes "chain N P (b # vs)" "sorted_wrt (<) (b # vs)"
  shows "(\<Sum>x \<leftarrow> butlast (b # vs). N x - x) + b = last (b # vs :: nat list)"
  using assms
proof (induction vs arbitrary: b)
  case (Cons c vs)
  have "(\<Sum>x \<leftarrow> butlast (c # vs). N x - x) + c = last (c # vs)" using Cons by simp
  then show ?case using Cons.prems by simp
qed simp

lemma sum_filter: "(\<Sum>x \<leftarrow> filter p xs. f x) + (\<Sum>x \<leftarrow> filter (\<lambda>x. \<not> p x) xs. f x) = (\<Sum>x \<leftarrow> xs. f x :: nat)"
  by (induction xs) auto

text \<open>The blocks of all extents together.\<close>

definition blocks_of :: "(nat \<times> nat) set \<Rightarrow> nat" where
  "blocks_of U = (\<Sum>(b, e) \<in> U. e - b)"

lemma used_list:
  assumes w: "wf_heap h bs fs"
  defines "vs \<equiv> filter (\<lambda>b. \<not> is_free h b) (butlast (tl bs))"
  shows "used h bs = (\<lambda>b. (b, blk_next h b)) ` set vs" "distinct vs"
    "blocks_of (used h bs) = (\<Sum>b \<leftarrow> vs. blk_next h b - b)" "card (used h bs) = length vs"
proof -
  note w' = w [unfolded wf_heap_def]
  note l = layoutD [OF w']
  obtain rs where rs: "bs = 0 # 1 # rs" using layout_bs(1) [OF w'] by blast
  have t: "tl bs = butlast (tl bs) @ [last bs]" using rs by simp
  have d: "distinct (0 # butlast (tl bs) @ [last bs])" using l(7) rs t by (metis list.sel(3))
  have "set bs = insert 0 (set (tl bs))" using rs by simp
  moreover have "set (tl bs) = insert (last bs) (set (butlast (tl bs)))" by (subst t) simp
  ultimately have s: "b \<in> set bs \<longleftrightarrow> b = 0 \<or> b = last bs \<or> b \<in> set (butlast (tl bs))" for b by blast
  show u: "used h bs = (\<lambda>b. (b, blk_next h b)) ` set vs"
  proof (rule set_eqI)
    have "0 \<notin> set (butlast (tl bs))" "last bs \<notin> set (butlast (tl bs))" using d by auto
    then have n: "0 \<noteq> b" "last bs \<noteq> b" if "b \<in> set (butlast (tl bs))" for b using that by metis+
    show "x \<in> used h bs \<longleftrightarrow> x \<in> (\<lambda>b. (b, blk_next h b)) ` set vs" for x
      using n [of "fst x"] unfolding used_def s vs_def by (cases x) auto
  qed
  show dv: "distinct vs" unfolding vs_def using d by simp
  have inj: "inj_on (\<lambda>b. (b, blk_next h b)) (set vs)" by (rule inj_onI) simp
  show "blocks_of (used h bs) = (\<Sum>b \<leftarrow> vs. blk_next h b - b)"
    unfolding blocks_of_def u sum.reindex [OF inj] by (simp add: sum_list_distinct_conv_sum_set [OF dv])
  show "card (used h bs) = length vs" unfolding u card_image [OF inj] by (rule distinct_card [OF dv])
qed

text \<open>
  On a heap that has been used, \<open>umm_info\<close> counts the extents in use and their blocks, and all other
  blocks but the first as free; so the sizes the two functions above it report always add up to
  1016 bytes.
\<close>

theorem umm_info_accounts:
  assumes "heap_state h U r" "0 < r"
  shows "\<exists>i. umm_info NULL k h = Some (NULL, i, ExitCritical (EnterCritical k)) \<and> unat (usedBlocks i) = blocks_of U \<and>
    unat (usedEntries i) = card U \<and> unat (freeBlocks i) = 127 - blocks_of U \<and> unat (totalBlocks i) = 127 \<and>
    OSGetUsedHeapSize k h = Some (word_of_nat (8 * blocks_of U), ExitCritical (EnterCritical k)) \<and>
    OSGetFreeHeapSize k h = Some (word_of_nat (1016 - 8 * blocks_of U), ExitCritical (EnterCritical k))"
proof -
  obtain bs fs where w: "wf_heap h bs fs" "U = used h bs" "r = last bs" using assms unfolding heap_state_def by auto
  note w' = w(1) [unfolded wf_heap_def]
  note l = layoutD [OF w']
  obtain rs where rs: "bs = 0 # 1 # rs" using layout_bs(1) [OF w'] by blast
  have c0: "blk_next h 0 = 1" using l(9) rs by simp
  have n0: "unat (NBLOCK (h 0) AND UMM_BLOCKNO_MASK) = hd (1 # rs)" using c0 by (simp add: blk_next_def)
  have spl: "bs = [0] @ 1 # rs" "1 # rs \<noteq> []" using rs by simp_all
  define used_vs where "used_vs = filter (\<lambda>b. \<not> is_free h b) (butlast (1 # rs))"
  define free_sum where "free_sum = (\<Sum>b \<leftarrow> filter (is_free h) (butlast (1 # rs)). blk_next h b - b)"
  obtain i where i: "info_loop NULL h (NBLOCK (h 0) AND UMM_BLOCKNO_MASK) no_info = Some (False, word_of_nat (last bs), i)"
    "usedBlocks i = word_of_nat (\<Sum>b \<leftarrow> used_vs. blk_next h b - b)" "freeBlocks i = word_of_nat free_sum"
    "totalBlocks i = word_of_nat (\<Sum>b \<leftarrow> butlast (1 # rs). blk_next h b - b)" "usedEntries i = word_of_nat (length used_vs)"
    using info_loop_ok [OF w(1) spl n0, of no_info] by (auto simp: no_info_def used_vs_def free_sum_def)
  have ul: "blocks_of U = (\<Sum>b \<leftarrow> used_vs. blk_next h b - b)" "card U = length used_vs" "distinct used_vs"
    using used_list [OF w(1)] rs w(2) by (simp_all add: used_vs_def)
  have tele: "(\<Sum>b \<leftarrow> butlast (1 # rs). blk_next h b - b) + 1 = last bs"
  proof -
    have "chain (blk_next h) (blk_prev h) (1 # rs)" "sorted_wrt (<) (1 # rs)" using l(8,9) rs by simp_all
    then show ?thesis using telescope [of "blk_next h" "blk_prev h" 1 rs] rs by simp
  qed
  have tot: "free_sum + blocks_of U + 1 = last bs"
    unfolding ul(1) free_sum_def used_vs_def using sum_filter [of "\<lambda>b. blk_next h b - b" "is_free h" "butlast (1 # rs)"] tele by simp
  have lb: "last bs < 128" by (rule l(5))
  define i' where "i' = i\<lparr>freeBlocks := freeBlocks i + (128 - word_of_nat (last bs)),
      totalBlocks := totalBlocks i + (128 - word_of_nat (last bs))\<rparr>"
  have run: "umm_info NULL k h = Some (NULL, i', ExitCritical (EnterCritical k))"
    using i(1) by (simp add: umm_info_def accesses i'_def Let_def)
  have rest: "(128 - word_of_nat (last bs) :: u16) = word_of_nat (128 - last bs)"
    using lb by (simp add: of_nat_diff)
  have cd: "card U \<le> blocks_of U"
  proof -
    have "1 \<le> blk_next h b - b" if "b \<in> set used_vs" for b
    proof -
      have "(b, blk_next h b) \<in> U" using used_list(1) [OF w(1)] rs w(2) that by (simp add: used_vs_def)
      then show ?thesis using heap_state_apart(2) [OF assms(1)] by fastforce
    qed
    then have "length used_vs \<le> (\<Sum>b \<leftarrow> used_vs. blk_next h b - b)"
    proof (induction used_vs)
      case (Cons b bs)
      have "1 \<le> blk_next h b - b" "length bs \<le> (\<Sum>b \<leftarrow> bs. blk_next h b - b)" using Cons by simp_all
      then show ?case by simp
    qed simp
    then show ?thesis unfolding ul .
  qed
  have vals: "unat (usedBlocks i') = blocks_of U" "unat (usedEntries i') = card U" "unat (freeBlocks i') = 127 - blocks_of U"
      "unat (totalBlocks i') = 127"
  proof -
    have "freeBlocks i' = word_of_nat (127 - blocks_of U)"
    proof -
      have "free_sum + (128 - last bs) = 127 - blocks_of U" using tot lb by simp
      then show ?thesis unfolding i'_def using i(3) rest by (simp flip: of_nat_add)
    qed
    then show "unat (freeBlocks i') = 127 - blocks_of U" by (simp add: unat_of_nat_u16)
    have "totalBlocks i' = word_of_nat 127"
    proof -
      have "(\<Sum>b \<leftarrow> butlast (1 # rs). blk_next h b - b) + (128 - last bs) = 127" using tele lb by simp
      then show ?thesis unfolding i'_def using i(4) rest by (simp flip: of_nat_add)
    qed
    then show "unat (totalBlocks i') = 127" by simp
    have "usedBlocks i' = word_of_nat (blocks_of U)" "usedEntries i' = word_of_nat (card U)"
      using i(2,5) ul by (simp_all add: i'_def)
    then show "unat (usedBlocks i') = blocks_of U" "unat (usedEntries i') = card U"
      using tot lb cd by (simp_all add: unat_of_nat_u16)
  qed
  have sz: "ucast (x :: u16) * word_of_nat sizeof_umm_block = (word_of_nat (8 * unat x) :: u32)" for x
    by (simp add: sizeof_umm_block_def mult.commute)
  have fr: "8 * (127 - blocks_of U) = 1016 - 8 * blocks_of U" by simp
  have "OSGetUsedHeapSize k h = Some (word_of_nat (8 * blocks_of U), ExitCritical (EnterCritical k))"
    by (simp only: OSGetUsedHeapSize_def run bind.simps prod.case sz vals)
  moreover have "OSGetFreeHeapSize k h = Some (word_of_nat (1016 - 8 * blocks_of U), ExitCritical (EnterCritical k))"
    by (simp only: OSGetFreeHeapSize_def run bind.simps prod.case sz vals fr)
  ultimately show ?thesis using run vals by blast
qed

end
