(* ===== verification/Umm_Examples.thy ===== *)
theory Umm_Examples
  imports Umm_Info Startup
begin

text \<open>The allocator's properties on the heap after a first request of 10 bytes.\<close>

definition demo_heap :: umm_heap where
  "demo_heap = (umm_heap_init(0 := \<lparr>NBLOCK = 1, PBLOCK = 0, NFREE = 3, PFREE = 0\<rparr>,
     1 := \<lparr>NBLOCK = 3, PBLOCK = 0, NFREE = 0, PFREE = 0\<rparr>, 3 := \<lparr>NBLOCK = 0, PBLOCK = 1, NFREE = 0, PFREE = 0\<rparr>))"

lemma demo_alloc: "alloc_block 2 umm_heap_init = Some (Some 1, demo_heap)"
proof -
  have z: "umm_heap_init b = \<lparr>NBLOCK = 0, PBLOCK = 0, NFREE = 0, PFREE = 0\<rparr>" for b by (simp add: umm_heap_init_def)
  have "first_fit umm_heap_init 2 0 0 = Some (0, 0)"
    by (simp add: first_fit.simps [of umm_heap_init 2 0 0] accesses z)
  then have "alloc_block 2 umm_heap_init = do {
      (cf1, h1) \<leftarrow> init_heap 0 umm_heap_init; h2 \<leftarrow> append_block cf1 2 h1; Some (Some cf1, h2) }"
    by (simp add: alloc_block_def accesses z)
  then show ?thesis by (simp add: init_heap_def append_block_def accesses z demo_heap_def fun_eq_iff)
qed

lemma demo_heap_state: "heap_state demo_heap {(1, 3)} 3"
proof -
  have "0 < unat (2 :: u16)" by simp
  from alloc_state [OF heap_state_init this] obtain r' where
    "heap_state demo_heap {(unat (1 :: u16), unat (1 :: u16) + unat (2 :: u16))} r'" "r' \<le> max 1 0 + unat (2 :: u16)"
    unfolding demo_alloc by (simp only: option.inject prod.inject option.distinct) blast
  then have r: "heap_state demo_heap {(1, 3)} r'" "r' \<le> 3" by (simp_all add: numeral_3_eq_3)
  have "3 \<le> r'" using heap_state_apart(3) [OF r(1)] by simp
  then show ?thesis using r by simp
qed

lemma umm_malloc_correct_witness:
  "\<exists>p h'. umm_malloc 100 demo demo_heap = Some (p, ExitCritical (EnterCritical demo), h') \<and>
    (case p of
       None \<Rightarrow> h' = demo_heap \<and> 127 \<le> 3 + unat (umm_blocks 100) \<and>
         (\<forall>b. 0 < b \<longrightarrow> b + unat (umm_blocks 100) \<le> 3 \<longrightarrow> \<not> clear_of (b, b + unat (umm_blocks 100)) {(1, 3)})
     | Some a \<Rightarrow> \<exists>b e r'. a = data_address b \<and> a + 100 \<le> block_address e \<and> (b, e) \<notin> {(1, 3)} \<and> clear_of (b, e) {(1, 3)} \<and>
         heap_state h' (insert (b, e) {(1, 3)}) r' \<and> same_data {(1, 3)} demo_heap h')"
proof -
  have n: "unat (100 :: u32) = 100" by simp
  show ?thesis using umm_malloc_correct [OF demo_heap_state, of 100 demo, unfolded n] by simp
qed

lemma umm_free_correct_witness:
  "\<exists>h'. umm_free (Some 12) demo demo_heap = Some (ExitCritical (EnterCritical demo), h') \<and>
    heap_state h' {} 3 \<and> same_data {} demo_heap h'"
proof -
  have "{(1, 3)} - {(1, 3)} = ({} :: (nat \<times> nat) set)" "data_address 1 = 12" by (simp_all add: data_address_def sizeof_umm_block_def)
  then show ?thesis using umm_free_correct [OF demo_heap_state, of 1 3 demo] by simp
qed

text \<open>The owner overwrites the whole of its extent.\<close>

lemma umm_data_is_free_witness:
  "heap_state (demo_heap(1 := (demo_heap 1)\<lparr>NFREE := 7, PFREE := 8\<rparr>, 2 := \<lparr>NBLOCK = 1, PBLOCK = 2, NFREE = 3, PFREE = 4\<rparr>)) {(1, 3)} 3"
  by (rule umm_data_is_free [OF demo_heap_state]) (auto simp: data_only_def)

lemma umm_info_accounts_witness:
  "\<exists>i. umm_info NULL demo demo_heap = Some (NULL, i, ExitCritical (EnterCritical demo)) \<and> unat (usedBlocks i) = 2 \<and>
    unat (usedEntries i) = 1 \<and> unat (freeBlocks i) = 125 \<and> unat (totalBlocks i) = 127 \<and>
    OSGetUsedHeapSize demo demo_heap = Some (16, ExitCritical (EnterCritical demo)) \<and>
    OSGetFreeHeapSize demo demo_heap = Some (1000, ExitCritical (EnterCritical demo))"
  using umm_info_accounts [OF demo_heap_state, of demo] by (simp add: blocks_of_def)

end
