(* ===== verification/Dyn_Queue.thy ===== *)
theory Dyn_Queue
  imports Queue Umm_Service
begin

text \<open>
  Dynamic queues (\<open>queue.c\<close>): queues of entries of any size whose control block, buffer and event
  control block come from the allocator. Each object is kept at its address, with the bytes of all
  buffers in one memory; an access to an object that was not made or has been freed, or past the end
  of a buffer, is undefined.
\<close>

definition NO_AVAILABLE_MEMORY :: u8 where "NO_AVAILABLE_MEMORY = 2"
definition INVALID_PARAMETERS :: u8 where "INVALID_PARAMETERS = 3"

lemmas [codes] = NO_AVAILABLE_MEMORY_def INVALID_PARAMETERS_def

text \<open>\<open>OS_DQUEUE\<close>: pointers, length (\<open>OSQLength\<close>, the ring's \<open>OSQSize\<close>) and entries are those of a ring.\<close>

record OS_DQUEUE =
  dring :: OS_QUEUE
  OSQTSize :: u16

definition sizeof_OS_DQUEUE :: u32 where "sizeof_OS_DQUEUE = 24"
definition sizeof_BRTOS_Queue :: u32 where "sizeof_BRTOS_Queue = 12"

record dynamic =
  dheap :: umm_heap
  dqueues :: "nat \<Rightarrow> OS_DQUEUE option"
  devents :: "nat \<Rightarrow> BRTOS_Queue option"
  dsizes :: "nat \<Rightarrow> nat option"
  dbytes :: bytes

definition get_at :: "(nat \<Rightarrow> 'o option) \<Rightarrow> ptr \<Rightarrow> 'o option" where
  "get_at tab p = Option.bind p tab"

text \<open>Freeing an object ends it.\<close>

definition forget :: "ptr \<Rightarrow> dynamic \<Rightarrow> dynamic" where
  "forget p d = (case p of None \<Rightarrow> d
     | Some a \<Rightarrow> d\<lparr>dqueues := (dqueues d)(a := None), devents := (devents d)(a := None), dsizes := (dsizes d)(a := None)\<rparr>)"

definition BRTOS_ALLOC :: "u32 \<Rightarrow> kernel \<Rightarrow> dynamic \<Rightarrow> (ptr \<times> kernel \<times> dynamic) option" where
  "BRTOS_ALLOC n k d = do { (p, k1, h) \<leftarrow> umm_malloc n k (dheap d); Some (p, k1, d\<lparr>dheap := h\<rparr>) }"

definition BRTOS_DEALLOC :: "ptr \<Rightarrow> kernel \<Rightarrow> dynamic \<Rightarrow> (kernel \<times> dynamic) option" where
  "BRTOS_DEALLOC p k d = do { (k1, h) \<leftarrow> umm_free p k (dheap d); Some (k1, forget p (d\<lparr>dheap := h\<rparr>)) }"

subsection \<open>Create, delete, clean\<close>

text \<open>
  \<open>event\<close> is the caller's variable; \<open>junk\<close> is what the memory of the event control block held. The two
  inner stages are defined first: with the control block \<open>c\<close> and the buffer \<open>s\<close>, and with \<open>c\<close> alone.
\<close>

definition create_event ::
  "nat \<Rightarrow> nat \<Rightarrow> u16 \<Rightarrow> u16 \<Rightarrow> u32 \<Rightarrow> ptr \<Rightarrow> BRTOS_Queue \<Rightarrow> kernel \<Rightarrow> dynamic \<Rightarrow> (u8 \<times> ptr \<times> kernel \<times> dynamic) option" where
  "create_event c s size_in_bytes queue_length type_size event junk k d = do {
     (pont_event, k1, d1) \<leftarrow> BRTOS_ALLOC sizeof_BRTOS_Queue k d;
     case pont_event of
       None \<Rightarrow> do {
         (k2, d2) \<leftarrow> BRTOS_DEALLOC (Some s) k1 d1;
         (k3, d3) \<leftarrow> BRTOS_DEALLOC (Some c) k2 d2;
         Some (NO_AVAILABLE_EVENT, event, ExitCritical_if_task k3, d3) }
     | Some e \<Rightarrow>
         (let q = \<lparr>dring = \<lparr>OSQStart = s, OSQEnd = s + unat size_in_bytes, OSQIn = s, OSQOut = s,
                OSQSize = queue_length, OSQEntries = 0\<rparr>, OSQTSize = ucast type_size\<rparr>;
              ev = junk\<lparr>OSEventPointer_q := Some c, OSEventWait := 0, OSEventWaitList := 0\<rparr>;
              d2 = d1\<lparr>dsizes := (dsizes d1)(s \<mapsto> unat size_in_bytes), dqueues := (dqueues d1)(c \<mapsto> q),
                devents := (devents d1)(e \<mapsto> ev)\<rparr>
          in Some (ALLOC_EVENT_OK, Some e, ExitCritical_if_task k1, d2)) }"

definition create_buffer ::
  "nat \<Rightarrow> u16 \<Rightarrow> u32 \<Rightarrow> ptr \<Rightarrow> BRTOS_Queue \<Rightarrow> kernel \<Rightarrow> dynamic \<Rightarrow> (u8 \<times> ptr \<times> kernel \<times> dynamic) option" where
  "create_buffer c queue_length type_size event junk k d = do {
     let size_in_bytes = ucast (ucast queue_length * type_size);
     (start, k1, d1) \<leftarrow> BRTOS_ALLOC (ucast size_in_bytes) k d;
     case start of
       None \<Rightarrow> do {
         (k2, d2) \<leftarrow> BRTOS_DEALLOC (Some c) k1 d1;
         Some (NO_AVAILABLE_MEMORY, event, ExitCritical_if_task k2, d2) }
     | Some s \<Rightarrow> create_event c s size_in_bytes queue_length type_size event junk k1 d1 }"

definition OSDQueueCreate ::
  "u16 \<Rightarrow> u32 \<Rightarrow> ptr \<Rightarrow> BRTOS_Queue \<Rightarrow> kernel \<Rightarrow> dynamic \<Rightarrow> (u8 \<times> ptr \<times> kernel \<times> dynamic) option" where
  "OSDQueueCreate queue_length type_size event junk k d =
    (if iNesting k > 0 then Some (IRQ_PEND_ERR, event, k, d)
     else
       (let k1 = EnterCritical_if_task k
        in if queue_length > 0 \<and> type_size > 0 then do {
             (cqueue, k2, d2) \<leftarrow> BRTOS_ALLOC sizeof_OS_DQUEUE k1 d;
             case cqueue of
               None \<Rightarrow> Some (NO_AVAILABLE_MEMORY, event, ExitCritical_if_task k2, d2)
             | Some c \<Rightarrow> create_buffer c queue_length type_size event junk k2 d2 }
           else Some (INVALID_PARAMETERS, event, ExitCritical_if_task k1, d)))"

definition OSDQueueDelete :: "ptr \<Rightarrow> kernel \<Rightarrow> dynamic \<Rightarrow> (u8 \<times> ptr \<times> kernel \<times> dynamic) option" where
  "OSDQueueDelete event k d = do {
     e \<leftarrow> get_at (devents d) event;
     let cqueue = OSEventPointer_q e;
     if iNesting k > 0 then Some (IRQ_PEND_ERR, event, k, d)
     else do {
       let k1 = EnterCritical k;
       q \<leftarrow> get_at (dqueues d) cqueue;
       (k2, d2) \<leftarrow> BRTOS_DEALLOC (Some (OSQStart (dring q))) k1 d;
       (k3, d3) \<leftarrow> BRTOS_DEALLOC cqueue k2 d2;
       e3 \<leftarrow> get_at (devents d3) event;
       let d4 = d3\<lparr>devents := (devents d3)(the event \<mapsto> e3\<lparr>OSEventAllocated := 0, OSEventCount_q := 0,
           OSEventWait := 0, OSEventWaitList := 0\<rparr>)\<rparr>;
       (k5, d5) \<leftarrow> BRTOS_DEALLOC event k3 d4;
       Some (DELETE_EVENT_OK, NULL, ExitCritical k5, d5) } }"

text \<open>The end of the buffer of a ring, as it was allocated.\<close>

definition dbound :: "dynamic \<Rightarrow> OS_QUEUE \<Rightarrow> nat option" where
  "dbound d q = map_option (\<lambda>n. OSQStart q + n) (dsizes d (OSQStart q))"

definition put_dqueue :: "ptr \<Rightarrow> OS_DQUEUE \<Rightarrow> OS_QUEUE \<times> bytes \<Rightarrow> dynamic \<Rightarrow> dynamic" where
  "put_dqueue c q s d = d\<lparr>dqueues := (dqueues d)(the c \<mapsto> q\<lparr>dring := fst s\<rparr>), dbytes := snd s\<rparr>"

definition put_devent :: "ptr \<Rightarrow> BRTOS_Queue \<Rightarrow> dynamic \<Rightarrow> dynamic" where
  "put_devent p e d = d\<lparr>devents := (devents d)(the p \<mapsto> e)\<rparr>"

definition OSDQueueClean :: "ptr \<Rightarrow> kernel \<Rightarrow> dynamic \<Rightarrow> (u8 \<times> kernel \<times> dynamic) option" where
  "OSDQueueClean pont_event k d = do {
     e \<leftarrow> get_at (devents d) pont_event;
     let k1 = EnterCritical k;
     q \<leftarrow> get_at (dqueues d) (OSEventPointer_q e);
     Some (CLEAN_BUFFER_OK, ExitCritical k1,
       put_dqueue (OSEventPointer_q e) q (ring_clean (dring q), dbytes d) d) }"

subsection \<open>Pend and post\<close>

text \<open>The entry a pend copies to \<open>pdata\<close> is part of its result.\<close>

definition take_dentry :: "ptr \<Rightarrow> nat \<Rightarrow> OS_DQUEUE \<Rightarrow> dynamic \<Rightarrow> (u8 list \<times> dynamic) option" where
  "take_dentry c n q d = do {
     N \<leftarrow> dbound d (dring q);
     (bs, s) \<leftarrow> ring_read N n (dring q, dbytes d);
     Some (bs, put_dqueue c q s d) }"

definition OSDQueuePend ::
  "ptr \<Rightarrow> u16 \<Rightarrow> kernel \<Rightarrow> dynamic \<Rightarrow> ((u8 \<times> u8 list option) pend \<times> dynamic) option" where
  "OSDQueuePend pont_event time_wait k d =
    (if ERROR_CHECK k \<and> iNesting k > 0 then Some (Return (IRQ_PEND_ERR, None) k, d)
     else if ERROR_CHECK k \<and> pont_event = NULL then Some (Return (NULL_EVENT_POINTER, None) k, d)
     else do {
       let k1 = EnterCritical k;
       e \<leftarrow> get_at (devents d) pont_event;
       let c = OSEventPointer_q e;
       q \<leftarrow> get_at (dqueues d) c;
       let n = unat (OSQTSize q);
       if ERROR_CHECK k1 \<and> OSEventAllocated e \<noteq> TRUE
       then Some (Return (ERR_EVENT_NO_CREATED, None) (ExitCritical k1), d)
       else if OSQEntries (dring q) > 0 then do {
         (bs, d2) \<leftarrow> take_dentry c n q d;
         Some (Return (READ_BUFFER_OK, Some bs) (ExitCritical k1), d2) }
       else if time_wait = NO_TIMEOUT
       then Some (Return (EXIT_BY_NO_ENTRY_AVAILABLE, None) (ExitCritical k1), d)
       else do {
         let t = unat (currentTask k1);
         Task \<leftarrow> task_at t k1;
         let iPriority = Priority Task;
         pmask \<leftarrow> PriorityMask iPriority;
         let d2 = put_devent pont_event (wait_add pmask e) d;
         let k3 = suspend t pmask time_wait k1;
         Some (Wait t iPriority (ExitCritical k3), d2) } })"

text \<open>The resumed task, with its local variables \<open>cqueue\<close>, \<open>n\<close>, \<open>Task\<close> and \<open>iPriority\<close>.\<close>

definition OSDQueuePend_resume ::
  "ptr \<Rightarrow> ptr \<Rightarrow> nat \<Rightarrow> u16 \<Rightarrow> nat \<Rightarrow> u8 \<Rightarrow> kernel \<Rightarrow> dynamic \<Rightarrow> (u8 \<times> u8 list option \<times> kernel \<times> dynamic) option" where
  "OSDQueuePend_resume pont_event c n time_wait t iPriority k d = do {
     let k1 = EnterCritical k;
     pmask \<leftarrow> PriorityMask iPriority;
     (gave_up, d2, k2) \<leftarrow> (if time_wait \<noteq> 0 then do {
          e \<leftarrow> get_at (devents d) pont_event;
          (gave_up, e2, k2) \<leftarrow> wait_over t pmask e k1;
          Some (gave_up, put_devent pont_event e2 d, k2) }
        else Some (False, d, k1));
     if gave_up then Some (TIMEOUT, None, ExitCritical k2, d2)
     else do {
       q \<leftarrow> get_at (dqueues d2) c;
       (bs, d3) \<leftarrow> take_dentry c n q d2;
       Some (READ_BUFFER_OK, Some bs, ExitCritical k2, d3) } }"

text \<open>\<open>pdata\<close> are the bytes from the address the caller gives; the post reads as many as an entry has.\<close>

definition OSDQueuePost :: "ptr \<Rightarrow> u8 list \<Rightarrow> kernel \<Rightarrow> dynamic \<Rightarrow> (u8 \<times> kernel \<times> dynamic) option" where
  "OSDQueuePost pont_event pdata k d =
    (if ERROR_CHECK k \<and> pont_event = NULL then Some (NULL_EVENT_POINTER, k, d)
     else do {
       let k1 = EnterCritical k;
       e \<leftarrow> get_at (devents d) pont_event;
       let c = OSEventPointer_q e;
       q \<leftarrow> get_at (dqueues d) c;
       let n = unat (OSQTSize q);
       if ERROR_CHECK k1 \<and> OSEventAllocated e \<noteq> TRUE
       then Some (ERR_EVENT_NO_CREATED, ExitCritical k1, d)
       else if OSQEntries (dring q) < OSQSize (dring q) then do {
         N \<leftarrow> dbound d (dring q);
         s \<leftarrow> (if n \<le> length pdata then ring_write N (take n pdata) (dring q, dbytes d) else None);
         let d2 = put_dqueue c q s d;
         if OSEventWait e \<noteq> 0 then do {
           (_, e2, k3) \<leftarrow> wake_highest e k1;
           let d3 = put_devent pont_event e2 d2;
           let k4 = ChangeContext_if_not_nested k3;
           Some (WRITE_BUFFER_OK, ExitCritical k4, d3) }
         else Some (WRITE_BUFFER_OK, ExitCritical k1, d2) }
       else Some (BUFFER_UNDERRUN, ExitCritical k1, d) })"

end
