(* ===== verification/Dyn_Queue_Laws.thy ===== *)
theory Dyn_Queue_Laws
  imports Dyn_Queue
begin

text \<open>
  A dynamic queue is named by the addresses \<open>(e, c, s)\<close> of its event control block, its control block
  and its buffer. The invariant: the queues \<open>Q\<close> lie in the extents \<open>X\<close> in use, apart from each other,
  and each has the ring of its buffer.
\<close>

type_synonym dq = "nat \<times> nat \<times> nat"

definition is_dq :: "dynamic \<Rightarrow> dq \<Rightarrow> bool" where
  "is_dq d x \<longleftrightarrow> (case x of (e, c, s) \<Rightarrow> \<exists>ev q n. devents d e = Some ev \<and> OSEventPointer_q ev = Some c \<and> dqueues d c = Some q \<and>
     dsizes d s = Some n \<and> OSQStart (dring q) = s \<and> OSQEnd (dring q) = s + n \<and>
     ring_ok (s + n) (unat (OSQTSize q)) (dring q))"

definition in_use :: "(nat \<times> nat) set \<Rightarrow> nat \<Rightarrow> nat \<Rightarrow> bool" where
  "in_use X a n \<longleftrightarrow> (\<exists>e. (a, e) \<in> X \<and> a + n \<le> e)"

definition places :: "dq \<Rightarrow> nat set" where
  "places x = (case x of (e, c, s) \<Rightarrow> {e, c, s})"

definition placed :: "(nat \<times> nat) set \<Rightarrow> dynamic \<Rightarrow> dq \<Rightarrow> bool" where
  "placed X d x \<longleftrightarrow> (case x of (e, c, s) \<Rightarrow> e \<noteq> c \<and> e \<noteq> s \<and> c \<noteq> s \<and> in_use X e (unat sizeof_BRTOS_Queue) \<and>
     in_use X c (unat sizeof_OS_DQUEUE) \<and> in_use X s (the (dsizes d s)))"

definition dyn_ok :: "(nat \<times> nat) set \<Rightarrow> dq set \<Rightarrow> dynamic \<Rightarrow> bool" where
  "dyn_ok X Q d \<longleftrightarrow> memory_state (dheap d) X \<and> (\<forall>x \<in> Q. is_dq d x \<and> placed X d x) \<and>
     (\<forall>x \<in> Q. \<forall>y \<in> Q. x \<noteq> y \<longrightarrow> places x \<inter> places y = {})"

text \<open>What a queue holds, and how many entries of how many bytes it can hold.\<close>

definition dcontents :: "dynamic \<Rightarrow> dq \<Rightarrow> u8 list list" where
  "dcontents d x = (case dqueues d (fst (snd x)) of None \<Rightarrow> []
     | Some q \<Rightarrow> ring_contents (unat (OSQTSize q)) (dring q, dbytes d))"

definition dcapacity :: "dynamic \<Rightarrow> dq \<Rightarrow> nat" where
  "dcapacity d x = (case dqueues d (fst (snd x)) of None \<Rightarrow> 0 | Some q \<Rightarrow> unat (OSQSize (dring q)))"

definition dentry :: "dynamic \<Rightarrow> dq \<Rightarrow> nat" where
  "dentry d x = (case dqueues d (fst (snd x)) of None \<Rightarrow> 0 | Some q \<Rightarrow> unat (OSQTSize q))"

definition dwaiting :: "dynamic \<Rightarrow> dq \<Rightarrow> nat set" where
  "dwaiting d x = (case devents d (fst x) of None \<Rightarrow> {} | Some ev \<Rightarrow> waiters ev)"

text \<open>The event of a queue counts its waiters, and passes the check of a build with \<open>ERROR_CHECK\<close>.\<close>

definition devent_ok :: "kernel \<Rightarrow> dynamic \<Rightarrow> dq \<Rightarrow> bool" where
  "devent_ok k d x \<longleftrightarrow> (case devents d (fst x) of None \<Rightarrow> False
     | Some ev \<Rightarrow> event_ok ev \<and> (ERROR_CHECK k \<longrightarrow> OSEventAllocated ev = TRUE))"

lemma is_dqE:
  assumes "is_dq d (e, c, s)"
  obtains ev q n where "devents d e = Some ev" "OSEventPointer_q ev = Some c" "dqueues d c = Some q" "dsizes d s = Some n"
    "OSQStart (dring q) = s" "OSQEnd (dring q) = s + n" "ring_ok (s + n) (unat (OSQTSize q)) (dring q)"
  using assms unfolding is_dq_def by auto

lemma is_dqI:
  assumes "devents d e = Some ev" "OSEventPointer_q ev = Some c" "dqueues d c = Some q" "dsizes d s = Some n"
    "OSQStart (dring q) = s" "OSQEnd (dring q) = s + n" "ring_ok (s + n) (unat (OSQTSize q)) (dring q)"
  shows "is_dq d (e, c, s)"
  using assms unfolding is_dq_def by auto

lemma dyn_okD:
  assumes "dyn_ok X Q d"
  shows "memory_state (dheap d) X" "x \<in> Q \<Longrightarrow> is_dq d x" "x \<in> Q \<Longrightarrow> placed X d x"
    "x \<in> Q \<Longrightarrow> y \<in> Q \<Longrightarrow> x \<noteq> y \<Longrightarrow> places x \<inter> places y = {}"
  using assms by (auto simp: dyn_ok_def)

lemma dyn_okI:
  assumes "memory_state (dheap d) X" "\<And>x. x \<in> Q \<Longrightarrow> is_dq d x" "\<And>x. x \<in> Q \<Longrightarrow> placed X d x"
    "\<And>x y. x \<in> Q \<Longrightarrow> y \<in> Q \<Longrightarrow> x \<noteq> y \<Longrightarrow> places x \<inter> places y = {}"
  shows "dyn_ok X Q d"
  using assms by (auto simp: dyn_ok_def)

text \<open>Views of a queue depend only on its own objects.\<close>

definition same_objects :: "dynamic \<Rightarrow> dynamic \<Rightarrow> nat set \<Rightarrow> bool" where
  "same_objects d d' A \<longleftrightarrow> (\<forall>a \<in> A. devents d' a = devents d a \<and> dqueues d' a = dqueues d a \<and> dsizes d' a = dsizes d a)"

lemma same_objectsD:
  assumes "same_objects d d' (places (e, c, s))"
  shows "devents d' e = devents d e" "dqueues d' c = dqueues d c" "dsizes d' s = dsizes d s"
  using assms by (auto simp: same_objects_def places_def)

lemma is_dq_cong: "same_objects d d' (places x) \<Longrightarrow> is_dq d' x \<longleftrightarrow> is_dq d x"
  by (cases x) (simp add: is_dq_def same_objectsD)

lemma placed_cong: "same_objects d d' (places x) \<Longrightarrow> placed X d' x \<longleftrightarrow> placed X d x"
  by (cases x) (simp add: placed_def same_objectsD)

lemma in_use_mono: "in_use X a n \<Longrightarrow> X \<subseteq> Y \<Longrightarrow> in_use Y a n"
  by (auto simp: in_use_def)

lemma placed_mono: "placed X d x \<Longrightarrow> X \<subseteq> Y \<Longrightarrow> placed Y d x"
  by (auto simp: placed_def intro: in_use_mono split: prod.split)

lemma in_use_apart:
  assumes "memory_state h X" "in_use X a n" "in_use X b m" "a \<noteq> b"
  shows "a + n \<le> b \<or> b + m \<le> a"
proof -
  obtain e f where ef: "(a, e) \<in> X" "a + n \<le> e" "(b, f) \<in> X" "b + m \<le> f" using assms(2,3) by (auto simp: in_use_def)
  have "f \<le> a \<or> e \<le> b" using umm.separate [OF assms(1) ef(1)] ef(3) assms(4) by (auto simp: disjoint_from_def)
  then show ?thesis using ef by auto
qed

lemma contents_cong:
  assumes "is_dq d (e, c, s)" "dqueues d' c = dqueues d c"
    "\<And>a. s \<le> a \<Longrightarrow> a < s + the (dsizes d s) \<Longrightarrow> dbytes d' a = dbytes d a"
  shows "dcontents d' (e, c, s) = dcontents d (e, c, s)"
proof -
  from assms(1) obtain ev q n where q: "dqueues d c = Some q" "dsizes d s = Some n" "OSQStart (dring q) = s"
    "OSQEnd (dring q) = s + n" "ring_ok (s + n) (unat (OSQTSize q)) (dring q)"
    by (rule is_dqE)
  have "ring_contents (unat (OSQTSize q)) (dring q, dbytes d') = ring_contents (unat (OSQTSize q)) (dring q, dbytes d)"
    by (rule ring_contents_cong [OF q(5)]) (use assms(3) q in simp)
  then show ?thesis using q(1) assms(2) by (simp add: dcontents_def)
qed

text \<open>A step of one queue: its event and its ring move, its buffer is written.\<close>

lemma dyn_update:
  assumes ok: "dyn_ok X Q d" and x: "(e, c, s) \<in> Q"
    and q: "dqueues d c = Some q"
    and heap: "dheap d' = dheap d" "dsizes d' = dsizes d"
    and ev: "devents d' = (devents d)(e \<mapsto> ev')" "OSEventPointer_q ev' = Some c"
    and q': "dqueues d' = (dqueues d)(c \<mapsto> q\<lparr>dring := r\<rparr>)" "OSQStart r = OSQStart (dring q)" "OSQEnd r = OSQEnd (dring q)"
      "ring_ok (OSQEnd (dring q)) (unat (OSQTSize q)) r"
    and out: "\<And>a. a < OSQStart (dring q) \<or> OSQEnd (dring q) \<le> a \<Longrightarrow> dbytes d' a = dbytes d a"
  shows "dyn_ok X Q d'" "\<And>y. y \<in> Q \<Longrightarrow> y \<noteq> (e, c, s) \<Longrightarrow> dcontents d' y = dcontents d y \<and> dwaiting d' y = dwaiting d y"
proof -
  note D = dyn_okD [OF ok]
  from D(2) [OF x] obtain ev0 q0 n where q0: "devents d e = Some ev0" "dqueues d c = Some q0" "dsizes d s = Some n" "OSQStart (dring q0) = s"
    "OSQEnd (dring q0) = s + n" "ring_ok (s + n) (unat (OSQTSize q0)) (dring q0)"
    by (rule is_dqE)
  have qq: "q0 = q" using q q0(2) by simp
  have same: "same_objects d d' (places y)" if "y \<in> Q" "y \<noteq> (e, c, s)" for y
  proof -
    have "e \<notin> places y" "c \<notin> places y" using D(4) [OF x that(1)] that(2) by (auto simp: places_def)
    then show ?thesis using heap(2) ev(1) q'(1) by (auto simp: same_objects_def)
  qed
  show "dyn_ok X Q d'"
  proof (rule dyn_okI)
    show "memory_state (dheap d') X" using D(1) heap(1) by simp
    show "is_dq d' y" if "y \<in> Q" for y
    proof (cases "y = (e, c, s)")
      case True
      have "is_dq d' (e, c, s)"
        by (rule is_dqI [where ev = ev' and q = "q\<lparr>dring := r\<rparr>" and n = n]) (use ev q' q0 heap(2) qq in simp_all)
      then show ?thesis using True by simp
    qed (use is_dq_cong [OF same [OF that]] D(2) [OF that] in simp)
    show "placed X d' y" if "y \<in> Q" for y using D(3) [OF that] heap(2) by (simp add: placed_def)
    show "places y \<inter> places z = {}" if "y \<in> Q" "z \<in> Q" "y \<noteq> z" for y z by (rule D(4) [OF that])
  qed
  show "dcontents d' y = dcontents d y \<and> dwaiting d' y = dwaiting d y" if y: "y \<in> Q" "y \<noteq> (e, c, s)" for y
  proof -
    obtain e1 c1 s1 where y1: "y = (e1, c1, s1)" by (cases y)
    note so = same_objectsD [OF same [OF y, unfolded y1]]
    have "s \<noteq> s1" using D(4) [OF x y(1)] y(2) y1 by (auto simp: places_def)
    moreover have "in_use X s n" "in_use X s1 (the (dsizes d s1))"
      using D(3) [OF x] D(3) [OF y(1)] q0(3) y1 by (simp_all add: placed_def)
    ultimately have "s + n \<le> s1 \<or> s1 + the (dsizes d s1) \<le> s" using in_use_apart [OF D(1)] by blast
    then have "dbytes d' a = dbytes d a" if "s1 \<le> a" "a < s1 + the (dsizes d s1)" for a
      using that out [of a] q0(4,5) qq by auto
    then have "dcontents d' y = dcontents d y" unfolding y1
      by (intro contents_cong so(2)) (use D(2) [OF y(1)] y1 in auto)
    then show ?thesis using so(1) y1 by (simp add: dwaiting_def)
  qed
qed

subsection \<open>Post\<close>

lemma dcontents_at: "dqueues d c = Some q \<Longrightarrow> dcontents d (e, c, s) = ring_contents (unat (OSQTSize q)) (dring q, dbytes d)"
  by (simp add: dcontents_def)

lemma dbound_Some: "dsizes d s = Some n \<Longrightarrow> OSQStart q = s \<Longrightarrow> dbound d q = Some (s + n)"
  by (simp add: dbound_def)

lemma put_dqueue_simps [simp]:
  "dheap (put_dqueue c q s d) = dheap d" "dsizes (put_dqueue c q s d) = dsizes d" "devents (put_dqueue c q s d) = devents d"
  "dbytes (put_dqueue c q s d) = snd s" "dqueues (put_dqueue (Some i) q s d) = (dqueues d)(i \<mapsto> q\<lparr>dring := fst s\<rparr>)"
  by (simp_all add: put_dqueue_def)

lemma put_devent_simps [simp]:
  "dheap (put_devent p e d) = dheap d" "dsizes (put_devent p e d) = dsizes d" "dqueues (put_devent p e d) = dqueues d"
  "dbytes (put_devent p e d) = dbytes d" "devents (put_devent (Some i) e d) = (devents d)(i \<mapsto> e)"
  by (simp_all add: put_devent_def)

lemma get_at_Some [simp]: "get_at tab (Some a) = tab a"
  by (simp add: get_at_def)

lemma OSDQueuePost_run:
  assumes ok: "dyn_ok X Q d" "(e, c, s) \<in> Q" "devent_ok k d (e, c, s)" "nestable k"
    and len: "dentry d (e, c, s) \<le> length pdata" and room: "length (dcontents d (e, c, s)) < dcapacity d (e, c, s)"
  defines "W \<equiv> if dwaiting d (e, c, s) = {} then {} else {Max (dwaiting d (e, c, s))}"
  obtains k' d' where "OSDQueuePost (Some e) pdata k d = Some (WRITE_BUFFER_OK, k', d')" "dyn_ok X Q d'"
    "dcontents d' (e, c, s) = dcontents d (e, c, s) @ [take (dentry d (e, c, s)) pdata]"
    "dcapacity d' (e, c, s) = dcapacity d (e, c, s)" "dentry d' (e, c, s) = dentry d (e, c, s)"
    "\<And>y. y \<in> Q \<Longrightarrow> y \<noteq> (e, c, s) \<Longrightarrow> dcontents d' y = dcontents d y \<and> dwaiting d' y = dwaiting d y"
    "dwaiting d' (e, c, s) = dwaiting d (e, c, s) - W" "prios (OSReadyList k') = prios (OSReadyList k) \<union> W"
    "iNesting k' = iNesting k" "devent_ok k' d' (e, c, s)" "ERROR_CHECK k' = ERROR_CHECK k"
proof -
  from dyn_okD(2) [OF ok(1,2)] obtain ev q n where v: "devents d e = Some ev" "OSEventPointer_q ev = Some c" "dqueues d c = Some q"
    "dsizes d s = Some n" "OSQStart (dring q) = s" "OSQEnd (dring q) = s + n" "ring_ok (s + n) (unat (OSQTSize q)) (dring q)"
    by (rule is_dqE)
  define z where "z = unat (OSQTSize q)"
  have ec: "event_ok ev" "ERROR_CHECK k \<longrightarrow> OSEventAllocated ev = TRUE" using ok(3) v(1) by (simp_all add: devent_ok_def)
  have rm: "unat (OSQEntries (dring q)) < unat (OSQSize (dring q))" and ln: "z \<le> length pdata"
    using room len v(3) by (simp_all add: dcontents_at dcapacity_def dentry_def z_def)
  then have lt: "OSQEntries (dring q) < OSQSize (dring q)" by (simp add: word_less_nat_alt)
  have tk: "length (take z pdata) = z" using ln by simp
  obtain r m where w: "ring_write (s + n) (take z pdata) (dring q, dbytes d) = Some (r, m)" "ring_ok (s + n) z r"
    "ring_contents z (r, m) = ring_contents z (dring q, dbytes d) @ [take z pdata]" "OSQSize r = OSQSize (dring q)"
    "OSQStart r = OSQStart (dring q)" "OSQEnd r = OSQEnd (dring q)"
    "\<And>a. a < OSQStart (dring q) \<or> OSQEnd (dring q) \<le> a \<Longrightarrow> m a = dbytes d a"
    by (rule ring_write_ok [OF v(7) [folded z_def] rm tk, of "dbytes d"]) blast
  define ev' where "ev' = (if waiters ev = {} then ev else wait_del (pbit (Max (waiters ev))) ev)"
  define d' where "d' = put_devent (Some e) ev' (put_dqueue (Some c) q (r, m) d)"
  define k' where "k' = (if waiters ev = {} then ExitCritical (EnterCritical k)
     else ExitCritical ((EnterCritical k)\<lparr>OSReadyList := OSReadyList k OR pbit (Max (waiters ev))\<rparr>))"
  have W: "W = (if waiters ev = {} then {} else {Max (waiters ev)})" using v(1) by (simp add: W_def dwaiting_def)
  have d'_idle: "d' = put_dqueue (Some c) q (r, m) d" if "waiters ev = {}"
    using that v(1) by (simp add: d'_def ev'_def put_devent_def put_dqueue_def fun_upd_idem)
  have nb: "dbound d (dring q) = Some (s + n)" by (rule dbound_Some [OF v(4,5)])
  have head: "OSDQueuePost (Some e) pdata k d = (if OSEventWait ev \<noteq> 0 then do {
         (_, e2, k3) \<leftarrow> wake_highest ev (EnterCritical k);
         Some (WRITE_BUFFER_OK, ExitCritical (ChangeContext_if_not_nested k3), put_devent (Some e) e2 (put_dqueue (Some c) q (r, m) d)) }
       else Some (WRITE_BUFFER_OK, ExitCritical (EnterCritical k), put_dqueue (Some c) q (r, m) d))"
    using lt ln w(1) ec(2)
    by (cases "ERROR_CHECK k") (simp_all add: OSDQueuePost_def Let_def v(1-3) nb flip: z_def)
  have run: "OSDQueuePost (Some e) pdata k d = Some (WRITE_BUFFER_OK, k', d')"
  proof (cases "waiters ev = {}")
    case True
    then have "OSEventWait ev = 0" using ec(1) by (simp add: event_ok_no_waiters)
    then show ?thesis using True head d'_idle by (simp add: k'_def)
  next
    case False
    then have ew: "OSEventWait ev \<noteq> 0" using ec(1) by (simp add: event_ok_no_waiters)
    have sch: "unat (SAScheduler (OSEventWaitList ev)) = Max (waiters ev)" by (rule wq.best_Max [OF False])
    have "iNesting ((EnterCritical k)\<lparr>OSReadyList := y\<rparr>) \<noteq> 0" for y using nestable_inc [OF ok(4)] by simp
    then show ?thesis using False ew head
      by (simp add: wake_highest_Some sch k'_def d'_def ev'_def ChangeContext_if_not_nested_def)
  qed
  have mx: "Max (waiters ev) \<in> waiters ev" "Max (waiters ev) < 32" if "waiters ev \<noteq> {}"
    using that Max_in [OF waiters_finite] waiters_bound by auto
  have p': "OSEventPointer_q ev' = Some c" "OSEventAllocated ev' = OSEventAllocated ev" using v(2) by (simp_all add: ev'_def wait_del_def)
  have up: "dyn_ok X Q d'" "\<And>y. y \<in> Q \<Longrightarrow> y \<noteq> (e, c, s) \<Longrightarrow> dcontents d' y = dcontents d y \<and> dwaiting d' y = dwaiting d y"
    by (rule dyn_update [OF ok(1,2) v(3), where d' = d' and ev' = ev' and r = r]; use p' w v in \<open>simp add: d'_def flip: z_def\<close>)+
  have c': "dcontents d' (e, c, s) = dcontents d (e, c, s) @ [take (dentry d (e, c, s)) pdata]"
    using w(3) v(3) by (simp add: dcontents_def d'_def dentry_def flip: z_def)
  have wt: "dwaiting d' (e, c, s) = dwaiting d (e, c, s) - W" "event_ok ev'"
    using mx event_ok_wait_del [OF ec(1) mx(1)] ec(1) v(1)
    by (auto simp: dwaiting_def d'_def ev'_def W waiters_wait_del)
  have "prios (OSReadyList k') = prios (OSReadyList k) \<union> W" using mx by (simp add: k'_def W prios_set)
  moreover have "iNesting k' = iNesting k" using nestable_inc [OF ok(4)] by (simp add: k'_def iNesting_ExitCritical)
  moreover have ek: "ERROR_CHECK k' = ERROR_CHECK k" by (simp add: k'_def)
  moreover have "devent_ok k' d' (e, c, s)" using wt(2) ec(2) p'(2) ek by (simp add: devent_ok_def d'_def)
  moreover have "dcapacity d' (e, c, s) = dcapacity d (e, c, s)" "dentry d' (e, c, s) = dentry d (e, c, s)"
    using w(4) v(3) by (simp_all add: dcapacity_def dentry_def d'_def)
  ultimately show thesis using that run up c' wt(1) by blast
qed

subsection \<open>Pend\<close>

text \<open>A pend on a queue that holds something takes its first entry.\<close>

lemma OSDQueuePend_run:
  assumes ok: "dyn_ok X Q d" "(e, c, s) \<in> Q" "devent_ok k d (e, c, s)" "ERROR_CHECK k \<longrightarrow> iNesting k = 0"
    and ne: "dcontents d (e, c, s) \<noteq> []"
  obtains d' where
    "OSDQueuePend (Some e) w k d = Some (Return (READ_BUFFER_OK, Some (hd (dcontents d (e, c, s)))) (ExitCritical (EnterCritical k)), d')"
    "dyn_ok X Q d'" "dcontents d' (e, c, s) = tl (dcontents d (e, c, s))" "dcapacity d' (e, c, s) = dcapacity d (e, c, s)"
    "dentry d' (e, c, s) = dentry d (e, c, s)" "devents d' = devents d"
    "\<And>y. y \<in> Q \<Longrightarrow> y \<noteq> (e, c, s) \<Longrightarrow> dcontents d' y = dcontents d y"
proof -
  from dyn_okD(2) [OF ok(1,2)] obtain ev q n where v: "devents d e = Some ev" "OSEventPointer_q ev = Some c" "dqueues d c = Some q"
    "dsizes d s = Some n" "OSQStart (dring q) = s" "OSQEnd (dring q) = s + n" "ring_ok (s + n) (unat (OSQTSize q)) (dring q)"
    by (rule is_dqE)
  define z where "z = unat (OSQTSize q)"
  have co: "dcontents d (e, c, s) = ring_contents z (dring q, dbytes d)" using v(3) by (simp add: dcontents_at z_def)
  have "unat (OSQEntries (dring q)) = length (dcontents d (e, c, s))" using co by simp
  then have gt: "0 < unat (OSQEntries (dring q))" using ne by simp
  obtain r where w: "ring_read (s + n) z (dring q, dbytes d) = Some (hd (ring_contents z (dring q, dbytes d)), r, dbytes d)"
    "ring_ok (s + n) z r" "ring_contents z (r, dbytes d) = tl (ring_contents z (dring q, dbytes d))" "OSQSize r = OSQSize (dring q)"
    "OSQStart r = OSQStart (dring q)" "OSQEnd r = OSQEnd (dring q)"
    by (rule ring_read_ok [OF v(7) [folded z_def] gt, of "dbytes d"]) blast
  define d' where "d' = put_dqueue (Some c) q (r, dbytes d) d"
  have nb: "dbound d (dring q) = Some (s + n)" by (rule dbound_Some [OF v(4,5)])
  have tk: "take_dentry (Some c) z q d = Some (hd (ring_contents z (dring q, dbytes d)), d')"
    using w(1) nb by (simp add: take_dentry_def d'_def)
  have g0: "OSQEntries (dring q) > 0" using gt by (simp add: word_less_nat_alt)
  have 1: "\<not> (ERROR_CHECK k \<and> 0 < iNesting k)" "\<not> (ERROR_CHECK k \<and> Some e = NULL)" using ok(4) by auto
  have 2: "\<not> (ERROR_CHECK (EnterCritical k) \<and> OSEventAllocated ev \<noteq> TRUE)" using ok(3) v(1) by (simp add: devent_ok_def)
  have run: "OSDQueuePend (Some e) w k d =
      Some (Return (READ_BUFFER_OK, Some (hd (ring_contents z (dring q, dbytes d)))) (ExitCritical (EnterCritical k)), d')"
    unfolding OSDQueuePend_def Let_def if_not_P [OF 1(1)] if_not_P [OF 1(2)] get_at_Some v(1-3) bind.bind_lunit if_not_P [OF 2]
      if_P [OF g0] tk [unfolded z_def] by (simp add: z_def)
  have up: "dyn_ok X Q d'" "\<And>y. y \<in> Q \<Longrightarrow> y \<noteq> (e, c, s) \<Longrightarrow> dcontents d' y = dcontents d y \<and> dwaiting d' y = dwaiting d y"
    by (rule dyn_update [OF ok(1,2) v(3), where d' = d' and ev' = ev and r = r]; use w v in \<open>simp add: d'_def fun_upd_idem flip: z_def\<close>)+
  have "dcontents d' (e, c, s) = tl (dcontents d (e, c, s))" "dcapacity d' (e, c, s) = dcapacity d (e, c, s)"
    "dentry d' (e, c, s) = dentry d (e, c, s)" "devents d' = devents d"
    using w(3,4) v(3) by (simp_all add: dcontents_def dcapacity_def dentry_def d'_def flip: z_def)
  then show thesis using that [of d'] run [folded co] up by simp
qed

text \<open>On an empty queue the caller leaves at once or joins the waiters.\<close>

lemma OSDQueuePend_empty:
  assumes ok: "dyn_ok X Q d" "(e, c, s) \<in> Q" "devent_ok k d (e, c, s)" and ev: "devents d e = Some ev" and can: "can_pend k xs ev"
    and em: "dcontents d (e, c, s) = []"
  defines "t \<equiv> unat (currentTask k)"
  shows "OSDQueuePend (Some e) NO_TIMEOUT k d =
      Some (Return (EXIT_BY_NO_ENTRY_AVAILABLE, None) (ExitCritical (EnterCritical k)), d)"
    "w \<noteq> NO_TIMEOUT \<Longrightarrow> \<exists>k' d'. OSDQueuePend (Some e) w k d = Some (Wait t (Priority (ContextTask k t)) k', d') \<and>
      dyn_ok X Q d' \<and> dwaiting d' (e, c, s) = insert (prio_of k t) (dwaiting d (e, c, s)) \<and>
      prios (OSReadyList k') = prios (OSReadyList k) - {prio_of k t} \<and> sys_ok k' (if w = 0 then xs else xs @ [t]) \<and>
      (\<forall>y \<in> Q. dcontents d' y = dcontents d y)"
proof -
  note C = can_pendD [OF can]
  from dyn_okD(2) [OF ok(1,2)] obtain ev0 q n where v0: "devents d e = Some ev0" "OSEventPointer_q ev0 = Some c" "dqueues d c = Some q"
    "dsizes d s = Some n" "OSQStart (dring q) = s" "OSQEnd (dring q) = s + n" "ring_ok (s + n) (unat (OSQTSize q)) (dring q)"
    by (rule is_dqE)
  have v: "OSEventPointer_q ev = Some c" using v0 ev by simp
  have "unat (OSQEntries (dring q)) = length (dcontents d (e, c, s))" using v0(3) by (simp add: dcontents_at)
  then have z: "\<not> OSQEntries (dring q) > 0" using em by (simp add: word_less_nat_alt)
  have chk: "ERROR_CHECK k \<longrightarrow> OSEventAllocated ev = TRUE" using ok(3) ev by (simp add: devent_ok_def)
  have t: "allocated (EnterCritical k) t" using C(3) by (simp add: allocated_def t_def)
  have pm: "PriorityMask (Priority (ContextTask k t)) = Some (pbit (prio_of k t))"
    using C(6) by (simp add: PriorityMask_Some prio_of_def t_def)
  have run: "OSDQueuePend (Some e) w k d = (if w = NO_TIMEOUT
      then Some (Return (EXIT_BY_NO_ENTRY_AVAILABLE, None) (ExitCritical (EnterCritical k)), d)
      else Some (Wait t (Priority (ContextTask k t)) (ExitCritical (suspend t (pbit (prio_of k t)) w (EnterCritical k))),
        put_devent (Some e) (wait_add (pbit (prio_of k t)) ev) d))" for w
    using z chk C(2) pm unfolding OSDQueuePend_def
    by (cases "ERROR_CHECK k") (simp_all add: ev v v0(3) Let_def task_at_allocated [OF t] flip: t_def)
  show "OSDQueuePend (Some e) NO_TIMEOUT k d = Some (Return (EXIT_BY_NO_ENTRY_AVAILABLE, None) (ExitCritical (EnterCritical k)), d)"
    using run by simp
  assume w: "w \<noteq> NO_TIMEOUT"
  define d' where "d' = put_devent (Some e) (wait_add (pbit (prio_of k t)) ev) d"
  have p': "OSEventPointer_q (wait_add (pbit (prio_of k t)) ev) = Some c" using v by (simp add: wait_add_def)
  have up: "dyn_ok X Q d'" "\<And>y. y \<in> Q \<Longrightarrow> y \<noteq> (e, c, s) \<Longrightarrow> dcontents d' y = dcontents d y \<and> dwaiting d' y = dwaiting d y"
    by (rule dyn_update [OF ok(1,2) v0(3), where d' = d' and ev' = "wait_add (pbit (prio_of k t)) ev" and r = "dring q"];
        use v0 p' in \<open>simp add: d'_def fun_upd_idem\<close>)+
  have "dcontents d' (e, c, s) = dcontents d (e, c, s)" by (simp add: dcontents_def d'_def split: option.split)
  then have co: "\<forall>y \<in> Q. dcontents d' y = dcontents d y" using up(2) by blast
  have "dwaiting d' (e, c, s) = insert (prio_of k t) (dwaiting d (e, c, s))"
    using ev C(6) by (simp add: dwaiting_def d'_def waiters_wait_add t_def)
  moreover have s1: "sys_ok (EnterCritical k) xs" by (rule sys_ok_Enter [OF C(1,7)])
  moreover have "sys_ok (ExitCritical (suspend t (pbit (prio_of k t)) w (EnterCritical k))) (if w = 0 then xs else xs @ [t])"
    "prios (OSReadyList (ExitCritical (suspend t (pbit (prio_of k t)) w (EnterCritical k)))) = prios (OSReadyList k) - {prio_of k t}"
    unfolding t_def by (rule wait_state [OF can s1]; simp add: C(2))+
  ultimately show "\<exists>k' d'. OSDQueuePend (Some e) w k d = Some (Wait t (Priority (ContextTask k t)) k', d') \<and>
      dyn_ok X Q d' \<and> dwaiting d' (e, c, s) = insert (prio_of k t) (dwaiting d (e, c, s)) \<and>
      prios (OSReadyList k') = prios (OSReadyList k) - {prio_of k t} \<and> sys_ok k' (if w = 0 then xs else xs @ [t]) \<and>
      (\<forall>y \<in> Q. dcontents d' y = dcontents d y)"
    using run [of w] w up(1) co unfolding d'_def by auto
qed

lemma OSDQueueClean_empties:
  assumes ok: "dyn_ok X Q d" "(e, c, s) \<in> Q"
  obtains d' where "OSDQueueClean (Some e) k d = Some (CLEAN_BUFFER_OK, ExitCritical (EnterCritical k), d')" "dyn_ok X Q d'"
    "dcontents d' (e, c, s) = []" "\<And>y. y \<in> Q \<Longrightarrow> y \<noteq> (e, c, s) \<Longrightarrow> dcontents d' y = dcontents d y"
proof -
  from dyn_okD(2) [OF ok] obtain ev q n where v: "devents d e = Some ev" "OSEventPointer_q ev = Some c" "dqueues d c = Some q"
    "dsizes d s = Some n" "OSQStart (dring q) = s" "OSQEnd (dring q) = s + n" "ring_ok (s + n) (unat (OSQTSize q)) (dring q)"
    by (rule is_dqE)
  define d' where "d' = put_dqueue (Some c) q (ring_clean (dring q), dbytes d) d"
  have r: "OSQStart (ring_clean (dring q)) = OSQStart (dring q)" "OSQEnd (ring_clean (dring q)) = OSQEnd (dring q)"
    by (simp_all add: ring_clean_def)
  note rc = ring_clean_ok [OF v(7)]
  have up: "dyn_ok X Q d'" "\<And>y. y \<in> Q \<Longrightarrow> y \<noteq> (e, c, s) \<Longrightarrow> dcontents d' y = dcontents d y \<and> dwaiting d' y = dwaiting d y"
    by (rule dyn_update [OF ok v(3), where d' = d' and ev' = ev and r = "ring_clean (dring q)"];
        use v r rc(1) in \<open>simp add: d'_def fun_upd_idem\<close>)+
  show thesis
    by (rule that [of d']) (use v up rc(2) in \<open>simp_all add: OSDQueueClean_def d'_def dcontents_def Let_def\<close>)
qed

subsection \<open>The queue as a bounded queue\<close>

text \<open>
  A queue ready for posts and pends: well formed, with no waiters, its caller outside interrupts.
\<close>

definition dq_ready :: "(nat \<times> nat) set \<Rightarrow> dq set \<Rightarrow> dq \<Rightarrow> nat \<Rightarrow> kernel \<times> dynamic \<Rightarrow> bool" where
  "dq_ready X Q x z s \<longleftrightarrow> (case s of (k, d) \<Rightarrow> dyn_ok X Q d \<and> x \<in> Q \<and> devent_ok k d x \<and> dwaiting d x = {} \<and> dentry d x = z \<and>
     iNesting k = 0)"

definition dposted :: "dq \<Rightarrow> u8 list \<Rightarrow> kernel \<times> dynamic \<Rightarrow> (kernel \<times> dynamic) option" where
  "dposted x bs s = (case s of (k, d) \<Rightarrow> case OSDQueuePost (Some (fst x)) bs k d of
     Some (r, k', d') \<Rightarrow> if r = WRITE_BUFFER_OK then Some (k', d') else None | None \<Rightarrow> None)"

definition dreceived :: "dq \<Rightarrow> kernel \<times> dynamic \<Rightarrow> (u8 list \<times> kernel \<times> dynamic) option" where
  "dreceived x s = (case s of (k, d) \<Rightarrow> case OSDQueuePend (Some (fst x)) NO_TIMEOUT k d of
     Some (Return (r, Some bs) k', d') \<Rightarrow> if r = READ_BUFFER_OK then Some (bs, k', d') else None | _ \<Rightarrow> None)"

interpretation dq: fifo "dq_ready X Q x z" "\<lambda>s. dcontents (snd s) x" "\<lambda>s. dcapacity (snd s) x" "\<lambda>bs. length bs = z"
  "dposted x" "dreceived x" for X Q x z
proof
  fix st :: "kernel \<times> dynamic" and bs :: "u8 list"
  obtain e c s where x: "x = (e, c, s)" by (cases x)
  obtain k d where st: "st = (k, d)" by (cases st)
  assume r: "dq_ready X Q x z st"
  then have ok: "dyn_ok X Q d" "(e, c, s) \<in> Q" "devent_ok k d (e, c, s)" "dwaiting d (e, c, s) = {}" "dentry d (e, c, s) = z" "iNesting k = 0"
    by (simp_all add: dq_ready_def x st)
  have n: "nestable k" using ok(6) by (simp add: nestable_def)
  from dyn_okD(2) [OF ok(1,2)] show "length (dcontents (snd st) x) \<le> dcapacity (snd st) x"
    by (rule is_dqE) (auto simp: x st dcontents_def dcapacity_def ring_ok_def)
  show "\<exists>s'. dposted x bs st = Some s' \<and> dq_ready X Q x z s' \<and> dcontents (snd s') x = dcontents (snd st) x @ [bs] \<and>
      dcapacity (snd s') x = dcapacity (snd st) x" if room: "length bs = z" "length (dcontents (snd st) x) < dcapacity (snd st) x"
  proof -
    have l: "dentry d (e, c, s) \<le> length bs" "length (dcontents d (e, c, s)) < dcapacity d (e, c, s)"
      using room ok(5) by (simp_all add: x st)
    obtain k' d' where p: "OSDQueuePost (Some e) bs k d = Some (WRITE_BUFFER_OK, k', d')" "dyn_ok X Q d'"
      "dcontents d' (e, c, s) = dcontents d (e, c, s) @ [take (dentry d (e, c, s)) bs]"
      "dcapacity d' (e, c, s) = dcapacity d (e, c, s)" "dentry d' (e, c, s) = dentry d (e, c, s)"
      "dwaiting d' (e, c, s) = dwaiting d (e, c, s) - (if dwaiting d (e, c, s) = {} then {} else {Max (dwaiting d (e, c, s))})"
      "iNesting k' = iNesting k" "devent_ok k' d' (e, c, s)"
      by (rule OSDQueuePost_run [OF ok(1-3) n l]) blast
    have "dposted x bs st = Some (k', d')" using p(1) by (simp add: dposted_def x st)
    moreover have "dq_ready X Q x z (k', d')" using p ok by (simp add: dq_ready_def x)
    ultimately show ?thesis using p(3,4) ok(5) room(1) by (simp add: x st)
  qed
  show "\<exists>s'. dreceived x st = Some (hd (dcontents (snd st) x), s') \<and> dq_ready X Q x z s' \<and>
      dcontents (snd s') x = tl (dcontents (snd st) x) \<and> dcapacity (snd s') x = dcapacity (snd st) x"
    if ne: "dcontents (snd st) x \<noteq> []"
  proof -
    have 1: "ERROR_CHECK k \<longrightarrow> iNesting k = 0" "dcontents d (e, c, s) \<noteq> []" using ok(6) ne by (simp_all add: x st)
    obtain d' where p: "OSDQueuePend (Some e) NO_TIMEOUT k d =
        Some (Return (READ_BUFFER_OK, Some (hd (dcontents d (e, c, s)))) (ExitCritical (EnterCritical k)), d')"
      "dyn_ok X Q d'" "dcontents d' (e, c, s) = tl (dcontents d (e, c, s))" "dcapacity d' (e, c, s) = dcapacity d (e, c, s)"
      "dentry d' (e, c, s) = dentry d (e, c, s)" "devents d' = devents d"
      by (rule OSDQueuePend_run [OF ok(1-3) 1]) blast
    have "dreceived x st = Some (hd (dcontents (snd st) x), ExitCritical (EnterCritical k), d')" using p(1) by (simp add: dreceived_def x st)
    moreover have "dq_ready X Q x z (ExitCritical (EnterCritical k), d')"
      using p ok n by (simp add: dq_ready_def x devent_ok_def dwaiting_def split: option.splits)
    ultimately show ?thesis using p(3,4) by (simp add: x st)
  qed
qed

text \<open>
  C31. Entries posted to a dynamic queue with room for them come back whole, after what it held before,
  in the order they were posted, and leave it empty.
\<close>

theorem OSDQueue_first_in_first_out:
  assumes "dq_ready X Q x z st" "\<forall>bs \<in> set ds. length bs = z" "length (dcontents (snd st) x) + length ds \<le> dcapacity (snd st) x"
  shows "\<exists>s1 s2. dq.put_all x ds st = Some s1 \<and>
    dq.get_all x (length (dcontents (snd st) x) + length ds) s1 = Some (dcontents (snd st) x @ ds, s2) \<and> dcontents (snd s2) x = []"
  using dq.fifo_order [OF assms] by blast

text \<open>
  \<open>OSDQueuePost\<close> appends the bytes of one entry and wakes the waiter of highest priority; no other
  dynamic queue changes, and all of them stay well formed inside their own memory.
\<close>

theorem OSDQueuePost_appends:
  assumes "dyn_ok X Q d" "x \<in> Q" "devent_ok k d x" "nestable k" "dentry d x \<le> length pdata" "length (dcontents d x) < dcapacity d x"
  defines "W \<equiv> if dwaiting d x = {} then {} else {Max (dwaiting d x)}"
  shows "\<exists>k' d'. OSDQueuePost (Some (fst x)) pdata k d = Some (WRITE_BUFFER_OK, k', d') \<and> dyn_ok X Q d' \<and>
    dcontents d' x = dcontents d x @ [take (dentry d x) pdata] \<and> dwaiting d' x = dwaiting d x - W \<and>
    prios (OSReadyList k') = prios (OSReadyList k) \<union> W \<and>
    (\<forall>y \<in> Q. y \<noteq> x \<longrightarrow> dcontents d' y = dcontents d y \<and> dwaiting d' y = dwaiting d y)"
proof (cases x)
  case (fields e c s)
  show ?thesis
    by (rule OSDQueuePost_run [OF assms(1) assms(2-6) [unfolded fields]]) (auto simp: fields W_def)
qed

end
