(* ===== verification/Dyn_Queue_Service.thy ===== *)
theory Dyn_Queue_Service
  imports Dyn_Queue_Laws
begin

text \<open>Creating and deleting dynamic queues: what is allocated, and what is given back.\<close>

text \<open>The kernel apart from signals to the dispatcher.\<close>

definition undisturbed :: "kernel \<Rightarrow> kernel \<Rightarrow> bool" where
  "undisturbed k k' \<longleftrightarrow> core k' = core k \<and> iNesting k' = iNesting k"

lemma undisturbed_refl [simp]: "undisturbed k k"
  by (simp add: undisturbed_def)

lemma undisturbed_section: "nestable k' \<Longrightarrow> undisturbed k k' \<Longrightarrow> undisturbed k (ExitCritical (EnterCritical k'))"
  by (simp add: undisturbed_def)

lemma undisturbed_if_task:
  assumes "iNesting k = 0" "undisturbed (EnterCritical_if_task k) k'"
  shows "undisturbed k (ExitCritical_if_task k')"
proof -
  have "currentTask k' = currentTask k" using assms(2) core_frame(7) [of k'] core_frame(7) [of k] by (simp add: undisturbed_def)
  then show ?thesis using assms
    by (simp add: undisturbed_def EnterCritical_if_task_def ExitCritical_if_task_def iNesting_ExitCritical split: if_splits)
qed

subsection \<open>The allocator's operations on the state of the queues\<close>

lemma undisturbed_nestable: "undisturbed k k' \<Longrightarrow> nestable k' \<longleftrightarrow> nestable k"
  by (simp add: undisturbed_def nestable_def)

lemma undisturbed_more: "nestable k0 \<Longrightarrow> undisturbed k0 k \<Longrightarrow> undisturbed k0 (ExitCritical (EnterCritical k))"
  using undisturbed_section undisturbed_nestable by blast

lemma ALLOC_NULL:
  assumes "umm_take n h = Some (NULL, h)" "nestable k0" "undisturbed k0 k"
  obtains k' where "BRTOS_ALLOC n k (d\<lparr>dheap := h\<rparr>) = Some (NULL, k', d\<lparr>dheap := h\<rparr>)" "undisturbed k0 k'"
  using assms undisturbed_more [OF assms(2,3)] by (auto simp: BRTOS_ALLOC_def umm_malloc_take)

lemma ALLOC_Some:
  assumes "umm_take n h = Some (Some a, h')" "nestable k0" "undisturbed k0 k"
  obtains k' where "BRTOS_ALLOC n k (d\<lparr>dheap := h\<rparr>) = Some (Some a, k', d\<lparr>dheap := h'\<rparr>)" "undisturbed k0 k'"
  using assms undisturbed_more [OF assms(2,3)] by (auto simp: BRTOS_ALLOC_def umm_malloc_take)

lemma DEALLOC_Some:
  assumes "umm_release (Some a) (dheap d) = Some h" "nestable k0" "undisturbed k0 k"
  obtains k' where "BRTOS_DEALLOC (Some a) k d = Some (k', forget (Some a) (d\<lparr>dheap := h\<rparr>))" "undisturbed k0 k'"
  using assms undisturbed_more [OF assms(2,3)] by (auto simp: BRTOS_DEALLOC_def umm_free_release)

text \<open>Queues whose objects are not touched stay as they are, whatever else the memory is used for.\<close>

lemma dyn_frame:
  assumes ok: "dyn_ok X Q d" and "Q' \<subseteq> Q" "memory_state (dheap d') Y" "dbytes d' = dbytes d"
    and same: "\<And>y. y \<in> Q' \<Longrightarrow> same_objects d d' (places y)" and pl: "\<And>y. y \<in> Q' \<Longrightarrow> placed Y d y"
  shows "dyn_ok Y Q' d'" "\<And>y. y \<in> Q' \<Longrightarrow> dcontents d' y = dcontents d y \<and> dwaiting d' y = dwaiting d y"
proof -
  note D = dyn_okD [OF ok]
  show "dyn_ok Y Q' d'"
  proof (rule dyn_okI)
    show "places y \<inter> places z = {}" if "y \<in> Q'" "z \<in> Q'" "y \<noteq> z" for y z
      using D(4) that assms(2) by (meson subsetD)
    show "is_dq d' y" if "y \<in> Q'" for y
      using D(2) [OF subsetD [OF assms(2) that]] is_dq_cong [OF same [OF that]] by simp
  qed (use assms(3) placed_cong [OF same] pl in simp_all)
  show "dcontents d' y = dcontents d y \<and> dwaiting d' y = dwaiting d y" if "y \<in> Q'" for y
    using same [OF that] assms(4) by (cases y) (simp add: dcontents_def dwaiting_def same_objectsD split: option.split)
qed

lemma dyn_insert:
  assumes "dyn_ok X Q d" "is_dq d x" "placed X d x" "\<And>y. y \<in> Q \<Longrightarrow> places x \<inter> places y = {}"
  shows "dyn_ok X (insert x Q) d"
  using assms unfolding dyn_ok_def by (metis Int_commute insert_iff)

lemma placed_places: "placed X d y \<Longrightarrow> a \<in> places y \<Longrightarrow> \<exists>e. (a, e) \<in> X"
  by (auto simp: placed_def places_def in_use_def)

lemma forget_simps [simp]:
  "dheap (forget p d) = dheap d" "dbytes (forget p d) = dbytes d"
  by (simp_all add: forget_def split: option.split)

lemma forget_at:
  "dqueues (forget (Some a) d) b = (if a = b then None else dqueues d b)"
  "devents (forget (Some a) d) b = (if a = b then None else devents d b)"
  "dsizes (forget (Some a) d) b = (if a = b then None else dsizes d b)"
  by (simp_all add: forget_def)

lemma same_objects_forget [simp]:
  "a \<notin> A \<Longrightarrow> same_objects d (forget (Some a) d') A \<longleftrightarrow> same_objects d d' A"
  by (auto simp: same_objects_def forget_at)

lemma same_objects_heap [simp]: "same_objects d (d\<lparr>dheap := h\<rparr>) A" "same_objects d d A"
    "same_objects d (d'\<lparr>dheap := h\<rparr>) A = same_objects d d' A"
  by (auto simp: same_objects_def)

lemmas umm_pieces = umm.held_Nil umm.held_def

text \<open>A piece of memory lies at no address of a queue that was there before.\<close>

lemma held_not_placed:
  assumes "dyn_ok X Q d" "umm.held ps X h" "(n, a) \<in> set ps" "y \<in> Q"
  shows "a \<notin> places y"
  using placed_places [OF dyn_okD(3) [OF assms(1,4)]] umm.held_apart [OF assms(2,3)] by blast

subsection \<open>Create\<close>

text \<open>What a created queue is.\<close>

definition new_queue :: "(nat \<times> nat) set \<Rightarrow> dq set \<Rightarrow> u16 \<Rightarrow> u32 \<Rightarrow> (nat \<times> nat) set \<Rightarrow> dq \<Rightarrow> dynamic \<Rightarrow> bool" where
  "new_queue X Q len ts Y x d \<longleftrightarrow> x \<notin> Q \<and> dyn_ok Y (insert x Q) d \<and> dcontents d x = [] \<and> dcapacity d x = unat len \<and>
     dentry d x = unat ts \<and> dwaiting d x = {} \<and> (\<forall>k. \<not> ERROR_CHECK k \<longrightarrow> devent_ok k d x) \<and>
     (\<exists>e1 c1 s1. Y = {(fst x, e1), (fst (snd x), c1), (snd (snd x), s1)} \<union> X \<and> {(fst x, e1), (fst (snd x), c1), (snd (snd x), s1)} \<inter> X = {})"

lemma size_in_bytes:
  fixes len :: u16 and ts :: u32
  assumes "unat len * unat ts < 65536" "len > 0"
  shows "unat (ucast (ucast len * ts :: u32) :: u16) = unat len * unat ts" "unat (ucast ts :: u16) = unat ts"
proof -
  have "take_bit 32 (unat len) = unat len" using unat_u16_less [of len] by (simp add: take_bit_nat_eq_self)
  then have "unat (ucast len * ts :: u32) = unat len * unat ts"
    using assms(1) by (simp add: unat_word_ariths unsigned_ucast_eq take_bit_nat_eq_self)
  then show "unat (ucast (ucast len * ts :: u32) :: u16) = unat len * unat ts"
    using assms(1) by (simp add: unsigned_ucast_eq take_bit_nat_eq_self)
  have "0 < unat len" using assms(2) by (simp add: word_less_nat_alt)
  then have "unat ts \<le> unat len * unat ts" by simp
  then have "unat ts < 65536" using assms(1) by linarith
  then show "unat (ucast ts :: u16) = unat ts" by (simp add: unsigned_ucast_eq take_bit_nat_eq_self)
qed

text \<open>The three objects are filled in.\<close>

lemma created:
  assumes ok: "dyn_ok X Q d" and h: "umm.held [(sizeof_BRTOS_Queue, e), (sz, s), (sizeof_OS_DQUEUE, c)] X h"
    and sz: "unat sz = unat len * unat ts" "unat (ucast ts :: u16) = unat ts" "0 < ts"
    and d': "d' = d\<lparr>dheap := h, dsizes := (dsizes d)(s \<mapsto> unat sz),
        dqueues := (dqueues d)(c \<mapsto> \<lparr>dring = \<lparr>OSQStart = s, OSQEnd = s + unat sz, OSQIn = s, OSQOut = s, OSQSize = len, OSQEntries = 0\<rparr>,
           OSQTSize = ucast ts\<rparr>),
        devents := (devents d)(e \<mapsto> junk\<lparr>OSEventPointer_q := Some c, OSEventWait := 0, OSEventWaitList := 0\<rparr>)\<rparr>"
  obtains Y where "new_queue X Q len ts Y (e, c, s) d'" "\<And>y. y \<in> Q \<Longrightarrow> dcontents d' y = dcontents d y \<and> dwaiting d' y = dwaiting d y"
proof -
  let ?ps = "[(sizeof_BRTOS_Queue, e), (sz, s), (sizeof_OS_DQUEUE, c)]"
  obtain Y where Y: "umm.pieces ?ps X Y" "memory_state h Y" using h unfolding umm.held_def by blast
  note fr = umm.pieces_fresh [OF Y(1)]
  have sub: "X \<subseteq> Y" using fr by simp
  have off: "e \<notin> places y" "s \<notin> places y" "c \<notin> places y" if "y \<in> Q" for y
    using held_not_placed [OF ok h _ that] by (meson list.set_intros)+
  have ds: "e \<noteq> s" "e \<noteq> c" using umm.held_distinct [OF h] by auto
  obtain h1 where "umm.held [(sz, s), (sizeof_OS_DQUEUE, c)] X h1" by (rule umm.held_dealloc [OF h])
  then have sc: "s \<noteq> c" using umm.held_distinct by fastforce
  have same: "same_objects d d' (places y)" if "y \<in> Q" for y
    using off [OF that] by (auto simp: same_objects_def d')
  have fo: "dyn_ok Y Q d'" "\<And>y. y \<in> Q \<Longrightarrow> dcontents d' y = dcontents d y \<and> dwaiting d' y = dwaiting d y"
    by (rule dyn_frame [OF ok subset_refl _ _ same, where Y = Y]; use Y(2) placed_mono [OF dyn_okD(3) [OF ok] sub] in \<open>simp add: d'\<close>)+
  have "\<exists>f. (a, f) \<in> Y - X \<and> a + unat n \<le> f" if "(n, a) \<in> set ?ps" for n a using fr that by blast
  then have iu: "in_use Y e (unat sizeof_BRTOS_Queue)" "in_use Y s (unat sz)" "in_use Y c (unat sizeof_OS_DQUEUE)"
    by (simp_all add: in_use_def) blast+
  have ts: "0 < unat ts" using sz(3) by (simp add: word_less_nat_alt)
  have ri: "\<lparr>OSQStart = s, OSQEnd = s + unat sz, OSQIn = s, OSQOut = s, OSQSize = len, OSQEntries = 0\<rparr> = ring_init (unat ts) s len"
    by (simp add: ring_init_def sz(1))
  have ro: "ring_ok (s + unat sz) (unat ts) (ring_init (unat ts) s len)" "ring_contents (unat ts) (ring_init (unat ts) s len, m) = []" for m
    by (rule ring_init_ok [OF ts, where N = "s + unat sz"]; simp add: sz(1))+
  have dq: "is_dq d' (e, c, s)"
    by (rule is_dqI [where n = "unat sz"]) (use ro(1) in \<open>simp_all add: d' ri sz(2), simp_all add: ring_init_def sz(1,2)\<close>)
  have "placed Y d' (e, c, s)" using iu ds sc by (simp add: placed_def d')
  then have "dyn_ok Y (insert (e, c, s) Q) d'"
    by (rule dyn_insert [OF fo(1) dq]) (use off in \<open>auto simp: places_def\<close>)
  moreover have "(e, c, s) \<notin> Q" using off(1) by (auto simp: places_def)
  moreover have "dcontents d' (e, c, s) = []" "dcapacity d' (e, c, s) = unat len" "dentry d' (e, c, s) = unat ts"
    "dwaiting d' (e, c, s) = {}"
    using ro(2) by (simp_all add: dcontents_def dcapacity_def dentry_def dwaiting_def waiters_def d' ri sz(2)) (simp add: ring_init_def)
  moreover have "\<exists>e1 c1 s1. Y = {(e, e1), (c, c1), (s, s1)} \<union> X \<and> {(e, e1), (c, c1), (s, s1)} \<inter> X = {}"
    using Y(1) by auto
  moreover have "\<not> ERROR_CHECK k \<Longrightarrow> devent_ok k d' (e, c, s)" for k by (simp add: devent_ok_def event_ok_def d')
  ultimately have "new_queue X Q len ts Y (e, c, s) d'" by (simp add: new_queue_def)
  then show thesis using that fo(2) by blast
qed

lemma sizes_in_limit: "unat sizeof_OS_DQUEUE \<le> 500000" "unat sizeof_BRTOS_Queue \<le> 500000" "unat (ucast (w :: u16) :: u32) \<le> 500000"
  using unat_u16_less [of w] by (simp_all add: sizeof_OS_DQUEUE_def sizeof_BRTOS_Queue_def unsigned_ucast_eq take_bit_nat_eq_self)

text \<open>
  The two outcomes for valid parameters: nothing is created and the memory is as it was, or a new queue.
\<close>

definition create_failed :: "(nat \<times> nat) set \<Rightarrow> dq set \<Rightarrow> ptr \<Rightarrow> kernel \<Rightarrow> dynamic \<Rightarrow> u8 \<times> ptr \<times> kernel \<times> dynamic \<Rightarrow> bool" where
  "create_failed X Q event k d res \<longleftrightarrow> (case res of (r, p, k', d') \<Rightarrow>
     r \<in> {NO_AVAILABLE_MEMORY, NO_AVAILABLE_EVENT} \<and> p = event \<and> undisturbed k k' \<and> dyn_ok X Q d' \<and>
     (\<forall>y \<in> Q. dcontents d' y = dcontents d y \<and> dwaiting d' y = dwaiting d y))"

definition create_made :: "(nat \<times> nat) set \<Rightarrow> dq set \<Rightarrow> u16 \<Rightarrow> u32 \<Rightarrow> kernel \<Rightarrow> dynamic \<Rightarrow> u8 \<times> ptr \<times> kernel \<times> dynamic \<Rightarrow> bool" where
  "create_made X Q len ts k d res \<longleftrightarrow> (case res of (r, p, k', d') \<Rightarrow>
     r = ALLOC_EVENT_OK \<and> undisturbed k k' \<and> (\<exists>Y x. p = Some (fst x) \<and> new_queue X Q len ts Y x d') \<and>
     (\<forall>y \<in> Q. dcontents d' y = dcontents d y \<and> dwaiting d' y = dwaiting d y))"

lemma create_failedI:
  assumes "dyn_ok X Q d" "iNesting k = 0" "undisturbed (EnterCritical_if_task k) k'"
    "r \<in> {NO_AVAILABLE_MEMORY, NO_AVAILABLE_EVENT}"
    "memory_state (dheap d') X" "dbytes d' = dbytes d" "\<And>y. y \<in> Q \<Longrightarrow> same_objects d d' (places y)"
  shows "create_failed X Q event k d (r, event, ExitCritical_if_task k', d')"
  using dyn_frame [OF assms(1) subset_refl assms(5-7)] dyn_okD(3) [OF assms(1)] assms(4)
    undisturbed_if_task [OF assms(2,3)] by (simp add: create_failed_def)

lemma nestable_Enter_if_task: "iNesting k = 0 \<Longrightarrow> nestable (EnterCritical_if_task k)"
  by (simp add: EnterCritical_if_task_def nestable_def)

lemma create_event_outcome:
  assumes ok: "dyn_ok X Q d" "iNesting k = 0" "undisturbed (EnterCritical_if_task k) k3"
    and h: "umm.held [(ucast sw, s), (sizeof_OS_DQUEUE, c)] X h"
    and sz: "unat (ucast sw :: u32) = unat len * unat ts" "unat (ucast ts :: u16) = unat ts" "0 < ts"
  shows "\<exists>res. create_event c s sw len ts event junk k3 (d\<lparr>dheap := h\<rparr>) = Some res \<and>
    (create_failed X Q event k d res \<or> create_made X Q len ts k d res)"
proof -
  note nk = nestable_Enter_if_task [OF ok(2)]
  from h sizes_in_limit(2) show ?thesis
  proof (cases rule: umm.held_alloc)
    case none
    obtain k4 where k4: "BRTOS_ALLOC sizeof_BRTOS_Queue k3 (d\<lparr>dheap := h\<rparr>) = Some (NULL, k4, d\<lparr>dheap := h\<rparr>)"
      "undisturbed (EnterCritical_if_task k) k4"
      by (rule ALLOC_NULL [OF none nk ok(3)])
    obtain h3 where h3: "umm_release (Some s) h = Some h3" "umm.held [(sizeof_OS_DQUEUE, c)] X h3" by (rule umm.held_dealloc [OF h])
    define d3 where "d3 = forget (Some s) (d\<lparr>dheap := h3\<rparr>)"
    obtain k5 where k5: "BRTOS_DEALLOC (Some s) k4 (d\<lparr>dheap := h\<rparr>) = Some (k5, d3)" "undisturbed (EnterCritical_if_task k) k5"
      by (rule DEALLOC_Some [OF _ nk k4(2), of s "d\<lparr>dheap := h\<rparr>" h3]) (use h3(1) in \<open>simp_all add: d3_def\<close>)
    obtain h4 where h4: "umm_release (Some c) h3 = Some h4" "umm.held [] X h4" by (rule umm.held_dealloc [OF h3(2)])
    obtain k6 where k6: "BRTOS_DEALLOC (Some c) k5 d3 = Some (k6, forget (Some c) (d3\<lparr>dheap := h4\<rparr>))"
      "undisturbed (EnterCritical_if_task k) k6"
      by (rule DEALLOC_Some [OF _ nk k5(2), of c d3 h4]) (use h4(1) in \<open>simp_all add: d3_def\<close>)
    have "s \<notin> places y" "c \<notin> places y" if "y \<in> Q" for y using held_not_placed [OF ok(1) h _ that] by auto
    then have "create_failed X Q event k d (NO_AVAILABLE_EVENT, event, ExitCritical_if_task k6, forget (Some c) (d3\<lparr>dheap := h4\<rparr>))"
      using h4(2) k6(2) by (intro create_failedI [OF ok(1,2)]) (auto simp: d3_def umm.held_Nil)
    then show ?thesis using k4(1) k5(1) k6(1) by (simp add: create_event_def)
  next
    case (some e h3)
    obtain k4 where k4: "BRTOS_ALLOC sizeof_BRTOS_Queue k3 (d\<lparr>dheap := h\<rparr>) = Some (Some e, k4, d\<lparr>dheap := h3\<rparr>)"
      "undisturbed (EnterCritical_if_task k) k4"
      by (rule ALLOC_Some [OF some(1) nk ok(3)])
    have us: "unat (ucast sw :: u32) = unat sw"
      using unat_u16_less [of sw] by (simp add: unsigned_ucast_eq take_bit_nat_eq_self)
    define d' where "d' = d\<lparr>dheap := h3, dsizes := (dsizes d)(s \<mapsto> unat (ucast sw :: u32)),
        dqueues := (dqueues d)(c \<mapsto> \<lparr>dring = \<lparr>OSQStart = s, OSQEnd = s + unat (ucast sw :: u32), OSQIn = s, OSQOut = s, OSQSize = len,
          OSQEntries = 0\<rparr>, OSQTSize = ucast ts\<rparr>),
        devents := (devents d)(e \<mapsto> junk\<lparr>OSEventPointer_q := Some c, OSEventWait := 0, OSEventWaitList := 0\<rparr>)\<rparr>"
    obtain Y where "new_queue X Q len ts Y (e, c, s) d'"
      "\<And>y. y \<in> Q \<Longrightarrow> dcontents d' y = dcontents d y \<and> dwaiting d' y = dwaiting d y"
      by (rule created [OF ok(1) some(3) sz d'_def]) blast
    then have "create_made X Q len ts k d (ALLOC_EVENT_OK, Some e, ExitCritical_if_task k4, d')"
      using undisturbed_if_task [OF ok(2) k4(2)] unfolding create_made_def by auto
    then show ?thesis using k4(1) by (simp add: create_event_def d'_def us)
  qed
qed

lemma create_buffer_outcome:
  assumes ok: "dyn_ok X Q d" "iNesting k = 0" "undisturbed (EnterCritical_if_task k) k2"
    and h: "umm.held [(sizeof_OS_DQUEUE, c)] X h"
    and sz: "unat len * unat ts < 65536" "0 < len" "0 < ts"
  shows "\<exists>res. create_buffer c len ts event junk k2 (d\<lparr>dheap := h\<rparr>) = Some res \<and>
    (create_failed X Q event k d res \<or> create_made X Q len ts k d res)"
proof -
  note nk = nestable_Enter_if_task [OF ok(2)]
  define sw where "sw = (ucast (ucast len * ts) :: u16)"
  have us: "unat (ucast sw :: u32) = unat sw"
    using unat_u16_less [of sw] by (simp add: unsigned_ucast_eq take_bit_nat_eq_self)
  have szs: "unat (ucast sw :: u32) = unat len * unat ts" "unat (ucast ts :: u16) = unat ts"
    using us size_in_bytes [OF sz(1,2), folded sw_def] by simp_all
  from h sizes_in_limit(3) [of sw] show ?thesis
  proof (cases rule: umm.held_alloc)
    case none
    obtain k3 where k3: "BRTOS_ALLOC (ucast sw) k2 (d\<lparr>dheap := h\<rparr>) = Some (NULL, k3, d\<lparr>dheap := h\<rparr>)"
      "undisturbed (EnterCritical_if_task k) k3"
      by (rule ALLOC_NULL [OF none nk ok(3)])
    obtain h2 where h2: "umm_release (Some c) h = Some h2" "umm.held [] X h2" by (rule umm.held_dealloc [OF h])
    obtain k4 where k4: "BRTOS_DEALLOC (Some c) k3 (d\<lparr>dheap := h\<rparr>) = Some (k4, forget (Some c) (d\<lparr>dheap := h2\<rparr>))"
      "undisturbed (EnterCritical_if_task k) k4"
      by (rule DEALLOC_Some [OF _ nk k3(2), of c "d\<lparr>dheap := h\<rparr>" h2]) (use h2(1) in simp_all)
    have "c \<notin> places y" if "y \<in> Q" for y using held_not_placed [OF ok(1) h _ that] by auto
    then have "create_failed X Q event k d (NO_AVAILABLE_MEMORY, event, ExitCritical_if_task k4, forget (Some c) (d\<lparr>dheap := h2\<rparr>))"
      using h2(2) k4(2) by (intro create_failedI [OF ok(1,2)]) (auto simp: umm.held_Nil)
    then show ?thesis using k3(1) k4(1) by (simp add: create_buffer_def sw_def)
  next
    case (some s h2)
    obtain k3 where k3: "BRTOS_ALLOC (ucast sw) k2 (d\<lparr>dheap := h\<rparr>) = Some (Some s, k3, d\<lparr>dheap := h2\<rparr>)"
      "undisturbed (EnterCritical_if_task k) k3"
      by (rule ALLOC_Some [OF some(1) nk ok(3)])
    have "create_buffer c len ts event junk k2 (d\<lparr>dheap := h\<rparr>) = create_event c s sw len ts event junk k3 (d\<lparr>dheap := h2\<rparr>)"
      using k3(1) by (simp add: create_buffer_def sw_def)
    then show ?thesis using create_event_outcome [OF ok(1,2) k3(2) some(3) szs sz(3)] by simp
  qed
qed

lemma create_outcome:
  assumes ok: "dyn_ok X Q d" "iNesting k = 0" and sz: "unat len * unat ts < 65536" "0 < len" "0 < ts"
  shows "\<exists>res. OSDQueueCreate len ts event junk k d = Some res \<and> (create_failed X Q event k d res \<or> create_made X Q len ts k d res)"
proof -
  let ?k = "EnterCritical_if_task k"
  note nk = nestable_Enter_if_task [OF ok(2)]
  have start: "umm.held [] X (dheap d)" using dyn_okD(1) [OF ok(1)] by (simp add: umm.held_Nil)
  have d: "d\<lparr>dheap := dheap d\<rparr> = d" by simp
  have head: "OSDQueueCreate len ts event junk k d = do {
      (cqueue, k2, d2) \<leftarrow> BRTOS_ALLOC sizeof_OS_DQUEUE ?k d;
      case cqueue of None \<Rightarrow> Some (NO_AVAILABLE_MEMORY, event, ExitCritical_if_task k2, d2)
      | Some c \<Rightarrow> create_buffer c len ts event junk k2 d2 }"
    using ok(2) sz(2,3) unfolding OSDQueueCreate_def Let_def by simp
  from start sizes_in_limit(1) show ?thesis
  proof (cases rule: umm.held_alloc)
    case none
    obtain k2 where k2: "BRTOS_ALLOC sizeof_OS_DQUEUE ?k d = Some (NULL, k2, d)" "undisturbed ?k k2"
      by (rule ALLOC_NULL [OF none nk undisturbed_refl, of d, unfolded d])
    have "create_failed X Q event k d (NO_AVAILABLE_MEMORY, event, ExitCritical_if_task k2, d)"
      by (rule create_failedI [OF ok]) (use k2(2) dyn_okD(1) [OF ok(1)] in simp_all)
    then show ?thesis using k2(1) head by simp
  next
    case (some c h1)
    obtain k2 where k2: "BRTOS_ALLOC sizeof_OS_DQUEUE ?k d = Some (Some c, k2, d\<lparr>dheap := h1\<rparr>)" "undisturbed ?k k2"
      by (rule ALLOC_Some [OF some(1) nk undisturbed_refl, of d, unfolded d])
    show ?thesis using create_buffer_outcome [OF ok k2(2) some(3) sz] k2(1) head by simp
  qed
qed

text \<open>
  C29. \<open>OSDQueueCreate\<close>, for a product of length and entry size that fits 16 bits, either makes an empty queue
  in memory of its own, or reports an error and gives back all it had taken: the extents in use are those
  before the call. In both cases the other dynamic queues keep their contents.
\<close>

theorem OSDQueueCreate_no_leak:
  assumes ok: "dyn_ok X Q d" and n0: "iNesting k = 0" and sz: "unat len * unat ts < 65536"
  shows "\<exists>r p k' d'. OSDQueueCreate len ts event junk k d = Some (r, p, k', d') \<and> undisturbed k k' \<and>
    (r = INVALID_PARAMETERS \<longleftrightarrow> len = 0 \<or> ts = 0) \<and>
    (\<forall>y \<in> Q. dcontents d' y = dcontents d y \<and> dwaiting d' y = dwaiting d y) \<and>
    (if r = ALLOC_EVENT_OK then \<exists>Y x. p = Some (fst x) \<and> new_queue X Q len ts Y x d'
     else r \<in> {INVALID_PARAMETERS, NO_AVAILABLE_MEMORY, NO_AVAILABLE_EVENT} \<and> p = event \<and> dyn_ok X Q d')"
proof -
  have nn: "\<not> iNesting k > 0" using n0 by simp
  have codes': "INVALID_PARAMETERS \<noteq> NO_AVAILABLE_MEMORY" "INVALID_PARAMETERS \<noteq> NO_AVAILABLE_EVENT"
    "NO_AVAILABLE_MEMORY \<noteq> INVALID_PARAMETERS" "NO_AVAILABLE_EVENT \<noteq> INVALID_PARAMETERS"
    "INVALID_PARAMETERS \<noteq> ALLOC_EVENT_OK" "NO_AVAILABLE_MEMORY \<noteq> ALLOC_EVENT_OK" "NO_AVAILABLE_EVENT \<noteq> ALLOC_EVENT_OK"
    "ALLOC_EVENT_OK \<noteq> INVALID_PARAMETERS"
    by (simp_all add: codes)
  show ?thesis
  proof (cases "len > 0 \<and> ts > 0")
    case False
    have "OSDQueueCreate len ts event junk k d = Some (INVALID_PARAMETERS, event, ExitCritical_if_task (EnterCritical_if_task k), d)"
      unfolding OSDQueueCreate_def Let_def if_not_P [OF nn] if_not_P [OF False] ..
    moreover have "len = 0 \<or> ts = 0" using False by (auto simp: word_gt_0)
    ultimately show ?thesis using ok undisturbed_if_task [OF n0 undisturbed_refl] codes' by simp
  next
    case True
    then have z: "\<not> (len = 0 \<or> ts = 0)" by auto
    obtain res where "OSDQueueCreate len ts event junk k d = Some res" "create_failed X Q event k d res \<or> create_made X Q len ts k d res"
      using create_outcome [OF ok n0 sz conjunct1 [OF True] conjunct2 [OF True]] by blast
    then show ?thesis using codes' z by (cases res) (auto simp: create_failed_def create_made_def)
  qed
qed

subsection \<open>Delete\<close>

lemma OSDQueueDelete_run:
  assumes ok: "dyn_ok X Q d" "(e, c, s) \<in> Q" and n0: "iNesting k = 0"
  obtains k' d' e1 c1 s1 where "OSDQueueDelete (Some e) k d = Some (DELETE_EVENT_OK, NULL, k', d')" "undisturbed k k'"
    "(e, e1) \<in> X" "(c, c1) \<in> X" "(s, s1) \<in> X" "dyn_ok (X - {(s, s1)} - {(c, c1)} - {(e, e1)}) (Q - {(e, c, s)}) d'"
    "\<And>y. y \<in> Q - {(e, c, s)} \<Longrightarrow> dcontents d' y = dcontents d y \<and> dwaiting d' y = dwaiting d y"
proof -
  note D = dyn_okD [OF ok(1)]
  from D(2) [OF ok(2)] obtain ev q n where v: "devents d e = Some ev" "OSEventPointer_q ev = Some c" "dqueues d c = Some q"
    "OSQStart (dring q) = s"
    by (rule is_dqE)
  have ne: "e \<noteq> c" "e \<noteq> s" "c \<noteq> s" using D(3) [OF ok(2)] by (simp_all add: placed_def)
  obtain e1 c1 s1 where x: "(e, e1) \<in> X" "(c, c1) \<in> X" "(s, s1) \<in> X"
    using D(3) [OF ok(2)] by (auto simp: placed_def in_use_def)
  define k1 where "k1 = EnterCritical k"
  have nk: "nestable k1" using n0 by (simp add: k1_def nestable_def)
  let ?X1 = "X - {(s, s1)}" let ?X2 = "?X1 - {(c, c1)}" let ?X3 = "?X2 - {(e, e1)}"
  obtain h1 where h1: "umm_release (Some s) (dheap d) = Some h1" "memory_state h1 ?X1" by (rule umm.dealloc_keeps [OF D(1) x(3)])
  have x1: "(c, c1) \<in> ?X1" using x(2) ne(3) by simp
  obtain h2 where h2: "umm_release (Some c) h1 = Some h2" "memory_state h2 ?X2" by (rule umm.dealloc_keeps [OF h1(2) x1])
  have x2: "(e, e1) \<in> ?X2" using x(1) ne(1,2) by simp
  obtain h3 where h3: "umm_release (Some e) h2 = Some h3" "memory_state h3 ?X3" by (rule umm.dealloc_keeps [OF h2(2) x2])
  define d1 where "d1 = forget (Some s) (d\<lparr>dheap := h1\<rparr>)"
  define d2 where "d2 = forget (Some c) (d1\<lparr>dheap := h2\<rparr>)"
  define d3 where "d3 = d2\<lparr>devents := (devents d2)(e \<mapsto> ev\<lparr>OSEventAllocated := 0, OSEventCount_q := 0, OSEventWait := 0, OSEventWaitList := 0\<rparr>)\<rparr>"
  define d' where "d' = forget (Some e) (d3\<lparr>dheap := h3\<rparr>)"
  have hs: "dheap d1 = h1" "dheap d3 = h2" by (simp_all add: d1_def d2_def d3_def)
  obtain k2 where k2: "BRTOS_DEALLOC (Some s) k1 d = Some (k2, d1)" "undisturbed k1 k2"
    by (rule DEALLOC_Some [OF h1(1) nk undisturbed_refl, folded d1_def])
  obtain k3 where k3: "BRTOS_DEALLOC (Some c) k2 d1 = Some (k3, d2)" "undisturbed k1 k3"
    by (rule DEALLOC_Some [OF h2(1) [folded hs(1)] nk k2(2), folded d2_def])
  obtain k4 where k4: "BRTOS_DEALLOC (Some e) k3 d3 = Some (k4, d')" "undisturbed k1 k4"
    by (rule DEALLOC_Some [OF h3(1) [folded hs(2)] nk k3(2), folded d'_def])
  have e2: "devents d2 e = Some ev" using v(1) ne by (simp add: d2_def d1_def forget_at)
  have run: "OSDQueueDelete (Some e) k d = Some (DELETE_EVENT_OK, NULL, ExitCritical k4, d')"
    using n0 k2(1) k3(1) k4(1) by (simp add: OSDQueueDelete_def Let_def v e2 flip: k1_def d3_def)
  have un: "undisturbed k (ExitCritical k4)"
    using k4(2) n0 by (simp add: undisturbed_def k1_def iNesting_ExitCritical)
  have off: "e \<notin> places y" "c \<notin> places y" "s \<notin> places y" if "y \<in> Q - {(e, c, s)}" for y
    using D(4) [OF ok(2), of y] that by (auto simp: places_def)
  have same: "same_objects d d' (places y)" if "y \<in> Q - {(e, c, s)}" for y
    using off [OF that] by (auto simp: d'_def d3_def d2_def d1_def same_objects_def forget_at)
  have pl: "placed ?X3 d y" if "y \<in> Q - {(e, c, s)}" for y
    using D(3) [of y] off [OF that] that by (auto simp: placed_def in_use_def places_def)
  have rest: "dbytes d' = dbytes d" "memory_state (dheap d') ?X3" using h3(2) by (simp_all add: d'_def d3_def d2_def d1_def)
  note fr = dyn_frame [OF ok(1) Diff_subset rest(2,1) same pl]
  show thesis by (rule that [OF run un x fr])
qed

text \<open>
  C30. A dynamic queue that is created and deleted leaves the memory as it was: the same extents in use, the
  other dynamic queues with the same contents.
\<close>

theorem OSDQueue_create_delete:
  assumes ok: "dyn_ok X Q d" and n0: "iNesting k = 0" and sz: "unat len * unat ts < 65536"
    and made: "OSDQueueCreate len ts event junk k d = Some (ALLOC_EVENT_OK, p, k1, d1)"
  shows "\<exists>k2 d2. OSDQueueDelete p k1 d1 = Some (DELETE_EVENT_OK, NULL, k2, d2) \<and> undisturbed k k2 \<and> dyn_ok X Q d2 \<and>
    (\<forall>y \<in> Q. dcontents d2 y = dcontents d y \<and> dwaiting d2 y = dwaiting d y)"
proof -
  have nn: "\<not> iNesting k > 0" using n0 by simp
  have pos: "0 < len \<and> 0 < ts"
  proof (rule ccontr)
    assume f: "\<not> (0 < len \<and> 0 < ts)"
    show False using made unfolding OSDQueueCreate_def Let_def if_not_P [OF nn] if_not_P [OF f] by (simp add: codes)
  qed
  obtain res where r: "OSDQueueCreate len ts event junk k d = Some res" "create_failed X Q event k d res \<or> create_made X Q len ts k d res"
    using create_outcome [OF ok n0 sz conjunct1 [OF pos] conjunct2 [OF pos]] by blast
  have "res = (ALLOC_EVENT_OK, p, k1, d1)" using made r(1) by simp
  moreover have "\<not> create_failed X Q event k d (ALLOC_EVENT_OK, p, k1, d1)" by (simp add: create_failed_def codes)
  ultimately obtain Y e c s where m: "undisturbed k k1" "p = Some e" "new_queue X Q len ts Y (e, c, s) d1"
      "\<forall>y \<in> Q. dcontents d1 y = dcontents d y \<and> dwaiting d1 y = dwaiting d y"
    using r(2) by (auto simp: create_made_def)
  then obtain e1 c1 s1 where y: "(e, c, s) \<notin> Q" "dyn_ok Y (insert (e, c, s) Q) d1" "Y = {(e, e1), (c, c1), (s, s1)} \<union> X"
      "{(e, e1), (c, c1), (s, s1)} \<inter> X = {}"
    by (auto simp: new_queue_def)
  have n1: "iNesting k1 = 0" using m(1) n0 by (simp add: undisturbed_def)
  have "(e, c, s) \<in> insert (e, c, s) Q" by simp
  then obtain k2 d2 e1' c1' s1' where d2: "OSDQueueDelete (Some e) k1 d1 = Some (DELETE_EVENT_OK, NULL, k2, d2)" "undisturbed k1 k2"
    "(e, e1') \<in> Y" "(c, c1') \<in> Y" "(s, s1') \<in> Y"
    "dyn_ok (Y - {(s, s1')} - {(c, c1')} - {(e, e1')}) (insert (e, c, s) Q - {(e, c, s)}) d2"
    "\<And>z. z \<in> insert (e, c, s) Q - {(e, c, s)} \<Longrightarrow> dcontents d2 z = dcontents d1 z \<and> dwaiting d2 z = dwaiting d1 z"
    by (rule OSDQueueDelete_run [OF y(2) _ n1]) blast
  note st = umm.same_start [OF dyn_okD(1) [OF y(2)]]
  have "e1' = e1" "c1' = c1" "s1' = s1" using st d2(3-5) y(3) by blast+
  then have "Y - {(s, s1')} - {(c, c1')} - {(e, e1')} = X" using y(3,4) by auto
  moreover have "insert (e, c, s) Q - {(e, c, s)} = Q" using y(1) by simp
  ultimately have "dyn_ok X Q d2" "\<forall>y \<in> Q. dcontents d2 y = dcontents d y \<and> dwaiting d2 y = dwaiting d y"
    using d2(6,7) m(4) by simp_all
  moreover have "undisturbed k k2" using m(1) d2(2) by (simp add: undisturbed_def)
  ultimately show ?thesis using d2(1) m(2) by blast
qed

subsection \<open>A size that does not fit\<close>

lemma poke_None: "N < p + length bs \<Longrightarrow> bs \<noteq> [] \<Longrightarrow> poke N p bs m = None"
proof (induction bs arbitrary: p m)
  case (Cons b bs)
  show ?case
  proof (cases "bs = []")
    case False
    have "poke N (p + 1) bs (m(p := b)) = None" by (rule Cons.IH) (use Cons.prems False in simp_all)
    then show ?thesis by simp
  qed (use Cons.prems in simp)
qed simp

lemma ALLOC_frame: "BRTOS_ALLOC n k d = Some (p, k', d') \<Longrightarrow> ERROR_CHECK k' = ERROR_CHECK k"
  by (cases "umm_take n (dheap d)") (auto simp: BRTOS_ALLOC_def umm_malloc_take split: if_splits)

lemma size_in_bytes_mod: "unat (ucast (ucast len * ts :: u32) :: u16) = unat (len :: u16) * unat ts mod 65536"
proof -
  have "take_bit 32 (unat len) = unat len" using unat_u16_less [of len] by (simp add: take_bit_nat_eq_self)
  then have "unat (ucast len * ts :: u32) = unat len * unat ts mod 2 ^ 32"
    by (simp add: unat_word_ariths unsigned_ucast_eq)
  then have "unat (ucast (ucast len * ts :: u32) :: u16) = unat len * unat ts mod 2 ^ 32 mod 2 ^ 16"
    by (simp add: unsigned_ucast_eq take_bit_eq_mod)
  then show ?thesis by (simp add: mod_mod_cancel)
qed

text \<open>
  The product of length and entry size is cut to 16 bits: when what is left is smaller than one entry,
  \<open>OSDQueueCreate\<close> still reports success, and the first post writes past the end of the buffer.
\<close>

theorem OSDQueue_size_wraps:
  assumes made: "OSDQueueCreate len ts event junk k d = Some (ALLOC_EVENT_OK, Some e, k1, d1)"
    and wrap: "unat len * unat ts mod 65536 < unat ts" "unat ts < 65536" and off: "\<not> ERROR_CHECK k"
  shows "OSDQueuePost (Some e) pdata k1 d1 = None"
proof -
  have cs: "ALLOC_EVENT_OK \<noteq> NO_AVAILABLE_MEMORY" "ALLOC_EVENT_OK \<noteq> NO_AVAILABLE_EVENT" "ALLOC_EVENT_OK \<noteq> INVALID_PARAMETERS"
    "ALLOC_EVENT_OK \<noteq> IRQ_PEND_ERR"
    by (simp_all add: codes)
  let ?sw = "ucast (ucast len * ts) :: u16"
  obtain c s ev q where o: "devents d1 e = Some ev" "OSEventPointer_q ev = Some c" "dqueues d1 c = Some q" "OSQTSize q = ucast ts"
    "OSQStart (dring q) = s" "OSQIn (dring q) = s" "OSQEnd (dring q) = s + unat ?sw" "dsizes d1 s = Some (unat ?sw)" "OSQEntries (dring q) = 0"
    "OSQSize (dring q) = len" "0 < len" "ERROR_CHECK k1 = ERROR_CHECK k"
    using made cs cs [symmetric]
    unfolding OSDQueueCreate_def create_buffer_def create_event_def Let_def
    by (auto split: if_splits bind_splits option.splits dest!: ALLOC_frame)
  have z: "unat (OSQTSize q) = unat ts" using wrap(2) o(4) by (simp add: unsigned_ucast_eq take_bit_nat_eq_self)
  have "wrap_in (dring q) = s" using o(5,6) by (simp add: wrap_in_def)
  moreover have "poke (s + unat ?sw) s (take (unat ts) pdata) (dbytes d1) = None" if "unat ts \<le> length pdata"
    using wrap(1) that size_in_bytes_mod [of len ts] by (intro poke_None) auto
  ultimately have "ring_write (s + unat ?sw) (take (unat ts) pdata) (dring q, dbytes d1) = None" if "unat ts \<le> length pdata"
    using that by (simp add: ring_write_def)
  moreover have "dbound d1 (dring q) = Some (s + unat ?sw)" by (rule dbound_Some [OF o(8,5)])
  ultimately show ?thesis using o off z by (simp add: OSDQueuePost_def Let_def)
qed

end
