(* ===== verification/Dyn_Tasks.thy ===== *)
theory Dyn_Tasks
  imports Dyn_Queue_Service
begin

text \<open>
  Tasks in a build with \<open>BRTOS_DYNAMIC_TASKS_ENABLED\<close> (\<open>BRTOS.c\<close>): \<open>OSInstallTask\<close> takes the stack of a task
  from the allocator, \<open>OSUninstallTask\<close> gives it back. The stacks share the dynamic heap with the
  dynamic queues. \<open>StackSize\<close> is the field the control block has in this build only;
  \<open>CreateDVirtualStack\<close>, which every port has its own of, is a parameter: from the function, the stack
  and its size it makes the first stack pointer.
\<close>

definition TASK_WAITING_EVENT :: u8 where "TASK_WAITING_EVENT = 12"
definition CANNOT_UNINSTALL_IDLE_TASK :: u8 where "CANNOT_UNINSTALL_IDLE_TASK = 13"

lemmas [codes] = TASK_WAITING_EVENT_def CANNOT_UNINSTALL_IDLE_TASK_def

record stacks =
  smem :: dynamic
  StackSize :: "nat \<Rightarrow> u16"

type_synonym stack_maker = "task_code \<Rightarrow> u32 \<Rightarrow> u16 \<Rightarrow> u32"

subsection \<open>Installing\<close>

definition dinstall_error :: "task_code \<Rightarrow> u16 \<Rightarrow> u8 \<Rightarrow> kernel \<Rightarrow> u8 option" where
  "dinstall_error FctPtr USER_STACKED_BYTES iPriority k =
    (if USER_STACKED_BYTES < NUMBER_MIN_OF_STACKED_BYTES then Some STACK_SIZE_TOO_SMALL
     else if iPriority \<noteq> 0 then
       (if iPriority > configMAX_TASK_PRIORITY then Some END_OF_AVAILABLE_PRIORITIES
        else if PriorityVector k (unat iPriority) \<noteq> EMPTY_PRIO then Some BUSY_PRIORITY
        else None)
     else (if FctPtr \<noteq> Idle then Some CANNOT_ASSIGN_IDLE_TASK_PRIO else None))"

definition fill_dTCB :: "stack_maker \<Rightarrow> task_code \<Rightarrow> nat \<Rightarrow> string \<Rightarrow> u16 \<Rightarrow> u8 \<Rightarrow> u32 \<Rightarrow> kernel \<Rightarrow> kernel" where
  "fill_dTCB CreateDVirtualStack FctPtr TaskNumber name bytes iPriority Stack k =
    (let k1 = upd_task TaskNumber (\<lambda>c. c\<lparr>TaskName := name, StackInit := Stack, Priority := iPriority\<rparr>) k;
         k2 = k1\<lparr>PriorityVector := (PriorityVector k1)(unat iPriority := word_of_nat TaskNumber)\<rparr>
     in upd_task TaskNumber (\<lambda>c. c\<lparr>StackPoint := CreateDVirtualStack FctPtr Stack bytes, TimeToWait := NO_TIMEOUT,
          Next := NULL, Previous := NULL\<rparr>) k2)"

definition OSInstallTask_dynamic ::
  "stack_maker \<Rightarrow> task_code \<Rightarrow> string \<Rightarrow> u16 \<Rightarrow> u8 \<Rightarrow> u32 option \<Rightarrow> kernel \<Rightarrow> stacks \<Rightarrow> (u8 \<times> u32 option \<times> kernel \<times> stacks) option" where
  "OSInstallTask_dynamic CreateDVirtualStack FctPtr name USER_STACKED_BYTES iPriority TaskHandle k s =
    (let k1 = EnterCritical_if_task k;
         bytes = fix_stack_size USER_STACKED_BYTES
     in case dinstall_error FctPtr bytes iPriority k1 of
          Some err \<Rightarrow> Some (err, TaskHandle, ExitCritical_if_task k1, s)
        | None \<Rightarrow> do {
            (Stack, k2, d2) \<leftarrow> BRTOS_ALLOC (ucast bytes) k1 (smem s);
            case Stack of
              None \<Rightarrow> Some (NO_MEMORY, TaskHandle, ExitCritical_if_task k2, s\<lparr>smem := d2\<rparr>)
            | Some a \<Rightarrow>
                (let (TaskNumber, alloc) = TaskNumber_search 0 (TaskAlloc k2);
                     k3 = k2\<lparr>TaskAlloc := alloc\<rparr>
                 in if TaskNumber = 0 then do {
                      (k4, d4) \<leftarrow> BRTOS_DEALLOC Stack k3 d2;
                      Some (END_OF_AVAILABLE_TCB, TaskHandle, ExitCritical_if_task k4, s\<lparr>smem := d4\<rparr>) }
                    else do {
                      let k4 = k3\<lparr>NumberOfInstalledTasks := NumberOfInstalledTasks k3 + 1\<rparr>;
                      let handle = map_option (\<lambda>_. word_of_nat TaskNumber) TaskHandle;
                      _ \<leftarrow> task_at TaskNumber k4;
                      let k5 = fill_dTCB CreateDVirtualStack FctPtr TaskNumber name bytes iPriority (word_of_nat a) k4;
                      pmask \<leftarrow> PriorityMask iPriority;
                      let k6 = k5\<lparr>OSReadyList := OSReadyList k5 OR pmask\<rparr>;
                      Some (OK, handle, ExitCritical_if_task k6, s\<lparr>smem := d2, StackSize := (StackSize s)(TaskNumber := bytes)\<rparr>) }) })"

subsection \<open>Uninstalling\<close>

text \<open>The search for a task in the delay list.\<close>

partial_function (option) delay_search :: "kernel \<Rightarrow> nat \<Rightarrow> ptr \<Rightarrow> bool option" where
  "delay_search k Task Task_timer =
    (case Task_timer of
       None \<Rightarrow> Some False
     | Some u \<Rightarrow> if u = Task then Some True else delay_search k Task (Next (ContextTask k u)))"

definition stack_pointer :: "u32 \<Rightarrow> ptr" where
  "stack_pointer a = (if a = 0 then NULL else Some (unat a))"

text \<open>Leaving the ready list or, with the user's consent, the delay list.\<close>

definition leave_lists :: "nat \<Rightarrow> u32 \<Rightarrow> kernel \<Rightarrow> kernel option" where
  "leave_lists Task pmask k =
    (if OSReadyList k AND pmask \<noteq> pmask then do {
       found \<leftarrow> delay_search k Task (Head k);
       if found then RemoveFromDelayList Task k else Some k }
     else Some (k\<lparr>OSReadyList := OSReadyList k AND NOT pmask\<rparr>))"

definition clear_TCB :: "nat \<Rightarrow> kernel \<Rightarrow> kernel" where
  "clear_TCB Task = upd_task Task (\<lambda>c. c\<lparr>StackInit := 0, StackPoint := 0, Priority := EMPTY_PRIO, TimeToWait := NO_TIMEOUT,
     Next := NULL, Previous := NULL\<rparr>)"

text \<open>What follows once nothing forbids it.\<close>

definition proceed_uninstall :: "u32 \<Rightarrow> ContextType \<Rightarrow> kernel \<Rightarrow> stacks \<Rightarrow> (kernel \<times> stacks) option" where
  "proceed_uninstall handle Task k2 s = do {
     let t = unat handle;
     let k3 = k2\<lparr>TaskAlloc := TaskAlloc k2 AND NOT (pbit (t - 1)),
       PriorityVector := (PriorityVector k2)(unat (Priority Task) := EMPTY_PRIO)\<rparr>;
     (k4, d4) \<leftarrow> BRTOS_DEALLOC (stack_pointer (StackInit Task)) k3 (smem s);
     let k5 = clear_TCB t k4;
     let k6 = k5\<lparr>NumberOfInstalledTasks := NumberOfInstalledTasks k5 - 1\<rparr>;
     let k7 = (if handle = ucast (currentTask k6) then ChangeContext k6 else k6);
     Some (k7, s\<lparr>smem := d4, StackSize := (StackSize s)(t := 0)\<rparr>) }"

definition OSUninstallTask :: "u32 \<Rightarrow> u32 \<Rightarrow> kernel \<Rightarrow> stacks \<Rightarrow> (u8 \<times> kernel \<times> stacks) option" where
  "OSUninstallTask TaskHandle safety_off k s =
    (let k1 = EnterCritical_if_task k
     in if TaskHandle = 0 \<and> currentTask k1 = 0 then Some (NOT_VALID_TASK, ExitCritical k1, s)
        else do {
          let handle = (if TaskHandle = 0 then ucast (currentTask k1) else TaskHandle);
          Task \<leftarrow> task_at (unat handle) k1;
          if Priority Task = 0 then Some (CANNOT_UNINSTALL_IDLE_TASK, ExitCritical_if_task k1, s)
          else do {
            pmask \<leftarrow> PriorityMask (Priority Task);
            if OSReadyList k1 AND pmask \<noteq> pmask \<and> safety_off \<noteq> ucast TRUE
            then Some (TASK_WAITING_EVENT, ExitCritical_if_task k1, s)
            else do {
              k2 \<leftarrow> leave_lists (unat handle) pmask k1;
              (k7, s') \<leftarrow> proceed_uninstall handle Task k2 s;
              Some (OK, ExitCritical_if_task k7, s') } } })"

end
