(* ===== verification/Dyn_Task_Laws.thy ===== *)
theory Dyn_Task_Laws
  imports Dyn_Tasks
begin

text \<open>
  Installing and uninstalling tasks with stacks from the dynamic heap: the kernel's invariant, and the
  stacks of the tasks apart from each other and from the dynamic queues.
\<close>

definition stack_at :: "kernel \<Rightarrow> nat \<Rightarrow> nat" where
  "stack_at k t = unat (StackInit (ContextTask k t))"

definition stacks_ok :: "kernel \<Rightarrow> (nat \<times> nat) set \<Rightarrow> dq set \<Rightarrow> stacks \<Rightarrow> bool" where
  "stacks_ok k X Q s \<longleftrightarrow> dyn_ok X Q (smem s) \<and>
     (\<forall>t. allocated k t \<longrightarrow> in_use X (stack_at k t) (unat (StackSize s t)) \<and> (\<forall>y \<in> Q. stack_at k t \<notin> places y)) \<and>
     (\<forall>t u. allocated k t \<longrightarrow> allocated k u \<longrightarrow> stack_at k t = stack_at k u \<longrightarrow> t = u)"

lemma stacks_okD:
  assumes "stacks_ok k X Q s"
  shows "dyn_ok X Q (smem s)" "allocated k t \<Longrightarrow> in_use X (stack_at k t) (unat (StackSize s t))"
    "allocated k t \<Longrightarrow> y \<in> Q \<Longrightarrow> stack_at k t \<notin> places y"
    "allocated k t \<Longrightarrow> allocated k u \<Longrightarrow> stack_at k t = stack_at k u \<Longrightarrow> t = u"
  using assms unfolding stacks_ok_def by blast+

lemma undisturbed_frame:
  assumes "undisturbed k k'"
  shows "TaskAlloc k' = TaskAlloc k" "ContextTask k' = ContextTask k" "PriorityVector k' = PriorityVector k"
    "NumberOfInstalledTasks k' = NumberOfInstalledTasks k" "OSReadyList k' = OSReadyList k" "currentTask k' = currentTask k"
    "OSTickCounter k' = OSTickCounter k" "Head k' = Head k" "Tail k' = Tail k" "OSBlockedList k' = OSBlockedList k" "iNesting k' = iNesting k"
proof -
  have c: "\<And>g. g (core k') = g (core k)" using assms by (simp add: undisturbed_def)
  show "TaskAlloc k' = TaskAlloc k" "ContextTask k' = ContextTask k" "PriorityVector k' = PriorityVector k"
    "NumberOfInstalledTasks k' = NumberOfInstalledTasks k" "OSReadyList k' = OSReadyList k" "currentTask k' = currentTask k"
    "OSTickCounter k' = OSTickCounter k" "Head k' = Head k" "Tail k' = Tail k" "OSBlockedList k' = OSBlockedList k"
    using c [of TaskAlloc] c [of ContextTask] c [of PriorityVector] c [of NumberOfInstalledTasks] c [of OSReadyList] c [of currentTask]
      c [of OSTickCounter] c [of Head] c [of Tail] c [of OSBlockedList] by simp_all
  show "iNesting k' = iNesting k" using assms by (simp add: undisturbed_def)
qed

text \<open>The heap ends below 1024, so its addresses fit the fields of a control block.\<close>

lemma memory_bound:
  assumes "memory_state h X" "(a, e) \<in> X"
  shows "a < 1024" "unat (word_of_nat a :: u32) = a" "(word_of_nat a :: u32) \<noteq> 0"
proof -
  obtain U r where u: "heap_state h U r" "X = byte_extent ` U" using assms(1) by (auto simp: memory_state_def)
  obtain b f where "(b, f) \<in> U" "a = data_address b" using assms(2) u(2) by (auto simp: byte_extent_def)
  then show a: "a < 1024" using heap_state_apart(2-4) [OF u(1)] by (fastforce simp: data_address_def sizeof_umm_block_def)
  then show w: "unat (word_of_nat a :: u32) = a" by (simp add: unat_of_nat_u32)
  have "0 < a" using umm.nonempty [OF assms] by simp
  then show "(word_of_nat a :: u32) \<noteq> 0" using w by (metis unat_0 less_irrefl)
qed

text \<open>Memory taken or given back leaves the stacks that are not concerned.\<close>

lemma stacks_frame:
  assumes ok: "stacks_ok k X Q s" and d: "dyn_ok Y Q (smem s')"
    and t: "\<And>t. allocated k' t \<Longrightarrow> allocated k t \<and> stack_at k' t = stack_at k t \<and> StackSize s' t = StackSize s t"
    and u: "\<And>t. allocated k' t \<Longrightarrow> in_use Y (stack_at k t) (unat (StackSize s t))"
  shows "stacks_ok k' Y Q s'"
  using stacks_okD [OF ok] d t u unfolding stacks_ok_def by metis

subsection \<open>Installing\<close>

lemma dinstall_error_frame:
  "PriorityVector k' = PriorityVector k \<Longrightarrow> dinstall_error f b p k' = dinstall_error f b p k"
  by (simp add: dinstall_error_def)

lemma dinstall_error_None:
  assumes "dinstall_error f b p k = None"
  shows "unat p < 32" "p \<noteq> 0 \<Longrightarrow> PriorityVector k (unat p) = EMPTY_PRIO" "0 < unat b"
  using assms by (auto simp: dinstall_error_def config word_less_nat_alt not_less split: if_splits)

lemma dinstall_error_not_OK: "dinstall_error f b p k = Some err \<Longrightarrow> err \<notin> {OK, NO_MEMORY, END_OF_AVAILABLE_TCB}"
  by (auto simp: dinstall_error_def codes split: if_splits)

lemma unat_widened: "unat (ucast (b :: u16) :: u32) = unat b"
  using unat_u16_less [of b] by (simp add: unsigned_ucast_eq take_bit_nat_eq_self)

text \<open>The outcome of a refused installation.\<close>

definition install_refused ::
  "kernel \<Rightarrow> (nat \<times> nat) set \<Rightarrow> dq set \<Rightarrow> u32 option \<Rightarrow> u8 \<times> u32 option \<times> kernel \<times> stacks \<Rightarrow> bool" where
  "install_refused k X Q h res \<longleftrightarrow> (case res of (r, h', k', s') \<Rightarrow> r \<noteq> OK \<and> h' = h \<and> undisturbed k k' \<and> stacks_ok k' X Q s')"

lemma install_refusedI:
  assumes ok: "stacks_ok k X Q s" "iNesting k = 0" and k': "undisturbed (EnterCritical_if_task k) k'"
    and d: "memory_state (dheap d') X" "dbytes d' = dbytes (smem s)" "\<And>y. y \<in> Q \<Longrightarrow> same_objects (smem s) d' (places y)" and r: "r \<noteq> OK"
  shows "install_refused k X Q h (r, h, ExitCritical_if_task k', s\<lparr>smem := d'\<rparr>)"
proof -
  note u = undisturbed_if_task [OF ok(2) k']
  have "dyn_ok X Q d'"
    by (rule dyn_frame(1) [OF stacks_okD(1) [OF ok(1)] subset_refl d]) (use dyn_okD(3) [OF stacks_okD(1) [OF ok(1)]] in simp_all)
  then have "stacks_ok (ExitCritical_if_task k') X Q (s\<lparr>smem := d'\<rparr>)"
    by (intro stacks_frame [OF ok(1)])
      (use stacks_okD(2) [OF ok(1)] undisturbed_frame(1,2) [OF u] in \<open>simp_all add: allocated_def stack_at_def\<close>)
  then show ?thesis using u r by (simp add: install_refused_def)
qed

text \<open>The outcome of an installation: task \<open>t\<close> with its stack from \<open>a\<close> to \<open>e\<close>.\<close>

definition installed_at ::
  "kernel \<Rightarrow> nat list \<Rightarrow> (nat \<times> nat) set \<Rightarrow> dq set \<Rightarrow> u16 \<Rightarrow> u8 \<Rightarrow> nat \<Rightarrow> nat \<Rightarrow> nat \<Rightarrow> kernel \<Rightarrow> stacks \<Rightarrow> bool" where
  "installed_at k xs X Q bytes p t a e k' s' \<longleftrightarrow> \<not> allocated k t \<and> allocated k' t \<and> prio_of k' t = unat p \<and> stack_at k' t = a \<and>
     a + unat bytes \<le> e \<and> disjoint_from (a, e) X \<and> (a, e) \<notin> X \<and> sys_ok k' xs \<and> stacks_ok k' (insert (a, e) X) Q s' \<and> iNesting k' = iNesting k \<and>
     (\<forall>u. u \<noteq> t \<longrightarrow> ContextTask k' u = ContextTask k u) \<and> prios (OSReadyList k') = insert (unat p) (prios (OSReadyList k)) \<and>
     OSBlockedList k' = OSBlockedList k \<and> PriorityVector k' = (PriorityVector k)(unat p := word_of_nat t) \<and>
     (\<forall>u. allocated k' u \<longleftrightarrow> allocated k u \<or> u = t)"

lemma install_filled:
  fixes cds :: stack_maker and f :: task_code and name :: string
  assumes sys: "sys_ok k xs" and st: "stacks_ok k X Q s" and n0: "iNesting k = 0"
    and p: "unat p < 32" "PriorityVector k (unat p) = EMPTY_PRIO"
    and n: "n < NUMBER_OF_TASKS" "\<not> bit (TaskAlloc k) n"
    and k2: "undisturbed (EnterCritical_if_task k) k2"
    and a: "umm.held [(ucast bytes, a)] X h2"
  defines "k4 \<equiv> k2\<lparr>TaskAlloc := TaskAlloc k OR pbit n, NumberOfInstalledTasks := NumberOfInstalledTasks k + 1\<rparr>"
  defines "k5 \<equiv> fill_dTCB cds f (Suc n) name bytes p (word_of_nat a) k4"
  defines "k6 \<equiv> k5\<lparr>OSReadyList := OSReadyList k5 OR pbit (unat p)\<rparr>"
  defines "s' \<equiv> s\<lparr>smem := (smem s)\<lparr>dheap := h2\<rparr>, StackSize := (StackSize s)(Suc n := bytes)\<rparr>"
  shows "\<exists>e. installed_at k xs X Q bytes p (Suc n) a e (ExitCritical_if_task k6) s'"
proof -
  note ok = sys_okD [OF sys]
  note f2 = undisturbed_frame [OF k2]
  obtain Y where Y: "umm.pieces [(ucast bytes, a)] X Y" "memory_state h2 Y" using a unfolding umm.held_def by blast
  then obtain e where e: "Y = insert (a, e) X" "a + unat (ucast bytes :: u32) \<le> e" "disjoint_from (a, e) X" "(a, e) \<notin> X"
    by (simp only: umm.pieces.simps) blast
  have ub: "unat (ucast bytes :: u32) = unat bytes" by (rule unat_widened)
  have wa: "unat (word_of_nat a :: u32) = a" by (rule memory_bound(2) [OF Y(2), of a e]) (simp add: e(1))
  have k6: "TaskAlloc k6 = TaskAlloc k OR pbit n" "NumberOfInstalledTasks k6 = NumberOfInstalledTasks k + 1"
    "PriorityVector k6 = (PriorityVector k)(unat p := word_of_nat (Suc n))"
    "\<And>t. prio_of k6 t = (if t = Suc n then unat p else prio_of k t)" "OSReadyList k6 = OSReadyList k OR pbit (unat p)"
    "\<And>t. t \<noteq> Suc n \<Longrightarrow> ContextTask k6 t = ContextTask k t" "Head k6 = Head k" "Tail k6 = Tail k" "OSTickCounter k6 = OSTickCounter k"
    "StackInit (ContextTask k6 (Suc n)) = word_of_nat a" "iNesting k6 = iNesting (EnterCritical_if_task k)" "currentTask k6 = currentTask k"
    "OSBlockedList k6 = OSBlockedList k"
    using f2 by (simp_all add: k6_def k5_def k4_def fill_dTCB_def Let_def prio_of_def)
  have new: "\<not> allocated k (Suc n)" using n(2) by (simp add: allocated_def)
  have n10: "n < 10" using n(1) by (simp add: config)
  have al: "allocated k6 t \<longleftrightarrow> allocated k t \<or> t = Suc n" for t
    using n n10 by (cases t) (auto simp: allocated_def k6(1) bit_or_iff bits)
  define k' where "k' = ExitCritical_if_task k6"
  have c: "core k' = core k6" by (simp add: k'_def)
  have f': "TaskAlloc k' = TaskAlloc k6" "ContextTask k' = ContextTask k6" "OSReadyList k' = OSReadyList k6" "OSBlockedList k' = OSBlockedList k6"
    "PriorityVector k' = PriorityVector k6"
    by (simp_all add: k'_def)
  have nest: "iNesting k' = iNesting k" unfolding k'_def by (rule ExitCritical_if_task_nesting [OF ok(4) k6(11,12)])
  have "sys_ok k' xs"
  proof (rule sys_ok_coreI [OF _ _ _ _ c])
    show "tasks_ok k6" by (rule install_tasks_ok [OF ok(1) n p k6(1-5)])
    show "dlist k6 xs" by (rule install_dlist [OF ok(2) _ k6(7,8,6)]) (use ok(5) new in auto)
    show "tick_ok k6" using ok(3) by (simp add: tick_ok_def k6(9))
    show "allocated k6 t" if "t \<in> set xs" for t using ok(5) [OF that] al by simp
    show "nestable k'" using nest ok(4) by (simp add: nestable_def)
  qed
  moreover have "stacks_ok k' (insert (a, e) X) Q s'"
  proof -
    have al': "allocated k' t \<longleftrightarrow> allocated k t \<or> t = Suc n" for t using al [of t] by (simp add: allocated_def f'(1))
    have sa: "stack_at k' t = (if t = Suc n then a else stack_at k t)" for t using k6(6,10) wa by (simp add: stack_at_def f'(2))
    have far: "a \<noteq> stack_at k t" if t: "allocated k t" for t
    proof -
      obtain e' where "(stack_at k t, e') \<in> X" using stacks_okD(2) [OF st t] by (auto simp: in_use_def)
      then show ?thesis using umm.held_apart [OF a, of "ucast bytes" a] by auto
    qed
    have sub: "X \<subseteq> Y" by (auto simp: e(1))
    have "a \<notin> places y" if "y \<in> Q" for y using held_not_placed [OF stacks_okD(1) [OF st] a _ that] by auto
    moreover have "dyn_ok Y Q (smem s')"
      by (rule dyn_frame(1) [OF stacks_okD(1) [OF st] subset_refl])
        (use Y(2) placed_mono [OF dyn_okD(3) [OF stacks_okD(1) [OF st]] sub] in \<open>simp_all add: s'_def\<close>)
    moreover have "in_use Y a (unat bytes)" using e(1,2) ub by (auto simp: in_use_def)
    moreover have "in_use Y (stack_at k t) (unat (StackSize s t))" if "allocated k t" for t
      by (rule in_use_mono [OF stacks_okD(2) [OF st that] sub])
    moreover have "stack_at k' t = stack_at k' u \<longrightarrow> t = u" if "allocated k' t" "allocated k' u" for t u
      using that far [of t] far [of u] stacks_okD(4) [OF st, of t u] unfolding al' sa by (auto split: if_splits)
    moreover have "in_use Y (stack_at k' t) (unat (StackSize s' t)) \<and> (\<forall>y \<in> Q. stack_at k' t \<notin> places y)" if "allocated k' t" for t
      using that calculation(1,3) calculation(4) [of t] stacks_okD(3) [OF st, of t] unfolding al' sa by (cases "t = Suc n") (simp_all add: s'_def)
    ultimately show ?thesis unfolding stacks_ok_def e(1) [symmetric] by blast
  qed
  moreover have "prios (OSReadyList k') = insert (unat p) (prios (OSReadyList k))" using p(1) by (simp add: f'(3) k6(5) prios_set)
  moreover have "\<forall>u. allocated k' u \<longleftrightarrow> allocated k u \<or> u = Suc n" using al by (simp add: allocated_def f'(1))
  moreover have "prio_of k' (Suc n) = unat p" using k6(4) [of "Suc n"] by (simp add: prio_of_def f'(2))
  ultimately show ?thesis
    using new nest k6(3,6,10,13) wa e(2-4) ub unfolding installed_at_def k'_def [symmetric] stack_at_def f' by (intro exI [of _ e]) simp
qed


text \<open>What the installation answers: the parameters' error, or that of the resource that ran out.\<close>

definition dinstall_result_ok :: "task_code \<Rightarrow> u16 \<Rightarrow> u8 \<Rightarrow> kernel \<Rightarrow> umm_heap \<Rightarrow> u8 \<Rightarrow> bool" where
  "dinstall_result_ok f bytes p k m r \<longleftrightarrow> (case dinstall_error f bytes p k of
     Some err \<Rightarrow> r = err
   | None \<Rightarrow> r \<in> {OK, NO_MEMORY, END_OF_AVAILABLE_TCB} \<and> (r = NO_MEMORY \<longrightarrow> no_gap (unat bytes) m) \<and>
       (r = END_OF_AVAILABLE_TCB \<longrightarrow> (\<forall>j < NUMBER_OF_TASKS. bit (TaskAlloc k) j)) \<and>
       (r = OK \<longrightarrow> \<not> (\<forall>j < NUMBER_OF_TASKS. bit (TaskAlloc k) j)))"

lemma install_with_stack:
  fixes cds :: stack_maker and f :: task_code
  assumes sys: "sys_ok k xs" and st: "stacks_ok k X Q s" and n0: "iNesting k = 0"
    and p: "unat p < 32" "PriorityVector k (unat p) = EMPTY_PRIO"
    and e: "dinstall_error f (fix_stack_size bytes) p k = None"
    and a: "umm_take (ucast (fix_stack_size bytes)) (dheap (smem s)) = Some (Some a, h2)"
      "umm.held [(ucast (fix_stack_size bytes), a)] X h2"
  shows "\<exists>r h' k' s'. OSInstallTask_dynamic cds f name bytes p h k s = Some (r, h', k', s') \<and>
    dinstall_result_ok f (fix_stack_size bytes) p k (dheap (smem s)) r \<and>
    (if r = OK then \<exists>t a e. h' = map_option (\<lambda>_. word_of_nat t) h \<and> installed_at k xs X Q (fix_stack_size bytes) p t a e k' s'
     else install_refused k X Q h (r, h', k', s'))"
proof -
  let ?k = "EnterCritical_if_task k" and ?b = "fix_stack_size bytes"
  note nk = nestable_Enter_if_task [OF n0]
  have d: "(smem s)\<lparr>dheap := dheap (smem s)\<rparr> = smem s" by simp
  obtain k2 where k2: "BRTOS_ALLOC (ucast ?b) ?k (smem s) = Some (Some a, k2, (smem s)\<lparr>dheap := h2\<rparr>)" "undisturbed ?k k2"
    by (rule ALLOC_Some [OF a(1) nk undisturbed_refl, of "smem s", unfolded d])
  have ta: "TaskAlloc k2 = TaskAlloc k" using undisturbed_frame(1) [OF k2(2)] by simp
  have e1: "dinstall_error f ?b p ?k = None" using e dinstall_error_frame [of ?k k f ?b p] by simp
  show ?thesis
  proof (cases "TaskAlloc k" rule: search_cases)
    case full
    have k3: "k2 = k2\<lparr>TaskAlloc := TaskAlloc k\<rparr>" using ta by simp
    obtain h3 where h3: "umm_release (Some a) h2 = Some h3" "umm.held [] X h3" by (rule umm.held_dealloc [OF a(2)])
    obtain k4 where k4: "BRTOS_DEALLOC (Some a) k2 ((smem s)\<lparr>dheap := h2\<rparr>) = Some (k4, forget (Some a) ((smem s)\<lparr>dheap := h3\<rparr>))"
      "undisturbed ?k k4"
      by (rule DEALLOC_Some [OF _ nk k2(2), of a "(smem s)\<lparr>dheap := h2\<rparr>" h3]) (use h3(1) in simp_all)
    have "a \<notin> places y" if "y \<in> Q" for y using held_not_placed [OF stacks_okD(1) [OF st] a(2) _ that] by auto
    then have "install_refused k X Q h (END_OF_AVAILABLE_TCB, h, ExitCritical_if_task k4, s\<lparr>smem := forget (Some a) ((smem s)\<lparr>dheap := h3\<rparr>)\<rparr>)"
      using h3(2) by (intro install_refusedI [OF st n0 k4(2)]) (auto simp: umm.held_Nil codes)
    moreover have "OSInstallTask_dynamic cds f name bytes p h k s =
      Some (END_OF_AVAILABLE_TCB, h, ExitCritical_if_task k4, s\<lparr>smem := forget (Some a) ((smem s)\<lparr>dheap := h3\<rparr>)\<rparr>)"
      unfolding OSInstallTask_dynamic_def Let_def e1 option.case k2(1) using full(1) k4(1) [unfolded arg_cong [OF k3, of "BRTOS_DEALLOC (Some a)"]] by (simp add: ta)
    moreover have "dinstall_result_ok f ?b p k (dheap (smem s)) END_OF_AVAILABLE_TCB" using full(2) by (simp add: dinstall_result_ok_def e codes)
    ultimately show ?thesis by (simp add: codes)
  next
    case (free n)
    define k4 where "k4 = k2\<lparr>TaskAlloc := TaskAlloc k OR pbit n, NumberOfInstalledTasks := NumberOfInstalledTasks k + 1\<rparr>"
    define k5 where "k5 = fill_dTCB cds f (Suc n) name ?b p (word_of_nat a) k4"
    define k6 where "k6 = k5\<lparr>OSReadyList := OSReadyList k5 OR pbit (unat p)\<rparr>"
    define s' where "s' = s\<lparr>smem := (smem s)\<lparr>dheap := h2\<rparr>, StackSize := (StackSize s)(Suc n := ?b)\<rparr>"
    have "\<exists>e. installed_at k xs X Q ?b p (Suc n) a e (ExitCritical_if_task k6) s'"
      unfolding k6_def k5_def k4_def s'_def by (rule install_filled [OF sys st n0 p free(2,3) k2(2) a(2)])
    moreover have "OSInstallTask_dynamic cds f name bytes p h k s =
      Some (OK, map_option (\<lambda>_. word_of_nat (Suc n)) h, ExitCritical_if_task k6, s')"
      unfolding OSInstallTask_dynamic_def Let_def e1 option.case k2(1) using free(1,2) undisturbed_frame(4) [OF k2(2)] PriorityMask_Some [OF p(1)]
      by (simp add: ta task_at_def config k6_def k5_def k4_def s'_def)
    moreover have "dinstall_result_ok f ?b p k (dheap (smem s)) OK" using free(2,3) by (auto simp: dinstall_result_ok_def e codes)
    ultimately show ?thesis
      by (intro exI [of _ OK] exI [of _ "map_option (\<lambda>_. word_of_nat (Suc n)) h"] exI [of _ "ExitCritical_if_task k6"] exI [of _ s'] conjI)
        (simp_all only: if_True simp_thms, blast)
  qed
qed


lemma dynamic_install_outcome:
  fixes cds :: stack_maker and f :: task_code
  assumes sys: "sys_ok k xs" and st: "stacks_ok k X Q s" and n0: "iNesting k = 0"
    and idle: "p = 0 \<Longrightarrow> PriorityVector k 0 = EMPTY_PRIO"
  shows "\<exists>r h' k' s'. OSInstallTask_dynamic cds f name bytes p h k s = Some (r, h', k', s') \<and>
    dinstall_result_ok f (fix_stack_size bytes) p k (dheap (smem s)) r \<and>
    (if r = OK then \<exists>t a e. h' = map_option (\<lambda>_. word_of_nat t) h \<and> installed_at k xs X Q (fix_stack_size bytes) p t a e k' s'
     else install_refused k X Q h (r, h', k', s'))"
proof -
  let ?k = "EnterCritical_if_task k" and ?b = "fix_stack_size bytes"
  note nk = nestable_Enter_if_task [OF n0]
  have ms: "memory_state (dheap (smem s)) X" using dyn_okD(1) [OF stacks_okD(1) [OF st]] .
  have d: "(smem s)\<lparr>dheap := dheap (smem s)\<rparr> = smem s" "s\<lparr>smem := smem s\<rparr> = s" by simp_all
  have e1: "dinstall_error f ?b p ?k = dinstall_error f ?b p k" by (simp add: dinstall_error_frame [of ?k k])
  show ?thesis
  proof (cases "dinstall_error f ?b p k")
    case (Some err)
    have "install_refused k X Q h (err, h, ExitCritical_if_task ?k, s\<lparr>smem := smem s\<rparr>)"
      using dinstall_error_not_OK [OF Some] by (intro install_refusedI [OF st n0 undisturbed_refl ms]) simp_all
    moreover have "OSInstallTask_dynamic cds f name bytes p h k s = Some (err, h, ExitCritical_if_task ?k, s)"
      unfolding OSInstallTask_dynamic_def Let_def e1 Some by simp
    ultimately show ?thesis using dinstall_error_not_OK [OF Some] Some by (simp add: d dinstall_result_ok_def)
  next
    case None
    have p: "unat p < 32" "PriorityVector k (unat p) = EMPTY_PRIO"
      using dinstall_error_None [OF None] idle by (cases "p = 0"; simp)+
    have start: "umm.held [] X (dheap (smem s))" using ms by (simp add: umm.held_Nil)
    from start sizes_in_limit(3) [of ?b] show ?thesis
    proof (cases rule: umm.held_alloc)
      case none
      obtain k2 where k2: "BRTOS_ALLOC (ucast ?b) ?k (smem s) = Some (NULL, k2, smem s)" "undisturbed ?k k2"
        by (rule ALLOC_NULL [OF none nk undisturbed_refl, of "smem s", unfolded d])
      have "install_refused k X Q h (NO_MEMORY, h, ExitCritical_if_task k2, s\<lparr>smem := smem s\<rparr>)"
        by (intro install_refusedI [OF st n0 k2(2) ms]) (simp_all add: codes)
      moreover have "OSInstallTask_dynamic cds f name bytes p h k s = Some (NO_MEMORY, h, ExitCritical_if_task k2, s)"
        unfolding OSInstallTask_dynamic_def Let_def e1 None using k2(1) by simp
      moreover have "no_gap (unat ?b) (dheap (smem s))"
        using umm_take_refuses [OF ms _ sizes_in_limit(3) none] dinstall_error_None(3) [OF None] by (simp add: unat_widened)
      then have "dinstall_result_ok f ?b p k (dheap (smem s)) NO_MEMORY" by (simp add: dinstall_result_ok_def None codes)
      ultimately show ?thesis by (simp add: d codes)
    next
      case (some a h2)
      show ?thesis by (rule install_with_stack [OF sys st n0 p None some(1,3)])
    qed
  qed
qed


text \<open>
  The answer from a list of conditions on the parameters, the memory and the table of tasks: the code of the
  first that holds. The memory is full when the allocator finds no room for the stack.
\<close>

definition dinstall_answer :: "task_code \<Rightarrow> u16 \<Rightarrow> u8 \<Rightarrow> kernel \<Rightarrow> bool \<Rightarrow> u8" where
  "dinstall_answer f bytes p k memory_full = first_failing
    [(sizeof_OS_CPU_TYPE * stack_words bytes < unat NUMBER_MIN_OF_STACKED_BYTES, STACK_SIZE_TOO_SMALL),
     (unat configMAX_TASK_PRIORITY < unat p, END_OF_AVAILABLE_PRIORITIES),
     (p \<noteq> 0 \<and> PriorityVector k (unat p) \<noteq> EMPTY_PRIO, BUSY_PRIORITY),
     (p = 0 \<and> f \<noteq> Idle, CANNOT_ASSIGN_IDLE_TASK_PRIO),
     (memory_full, NO_MEMORY),
     (\<forall>t \<in> {1..NUMBER_OF_TASKS}. allocated k t, END_OF_AVAILABLE_TCB)] OK"

lemma dinstall_answer_error:
  "dinstall_answer f bytes p k full = (case dinstall_error f (fix_stack_size bytes) p k of Some err \<Rightarrow> err
    | None \<Rightarrow> if full then NO_MEMORY else if \<forall>j < NUMBER_OF_TASKS. bit (TaskAlloc k) j then END_OF_AVAILABLE_TCB else OK)"
  unfolding dinstall_answer_def dinstall_error_def first_failing.simps all_allocated
  by (auto simp: fix_stack_size_words word_less_nat_alt config)

lemma dinstall_result_answer:
  assumes "dinstall_result_ok f (fix_stack_size bytes) p k m r"
  shows "\<exists>full. r = dinstall_answer f bytes p k full \<and> (full \<longrightarrow> no_gap (sizeof_OS_CPU_TYPE * stack_words bytes) m)"
  using assms unfolding dinstall_result_ok_def dinstall_answer_error fix_stack_size_words
  by (intro exI [of _ "r = NO_MEMORY \<and> dinstall_error f (fix_stack_size bytes) p k = None"]) (auto simp: codes split: option.splits)

text \<open>
  C6. \<open>OSInstallTask\<close> with stacks from the dynamic heap answers with the code of the first condition that fails
  (\<open>dinstall_answer\<close>), and \<open>NO_MEMORY\<close> only when no gap of the heap holds the stack; then everything the call had
  taken is given back and no task, ready list or stack changed. Otherwise a control block that was free holds the
  new task, with a stack of the size asked for that overlaps no memory in use, ready at its priority, and the
  kernel's invariant holds. The idle task may only be installed while priority 0 is free, which no check tests.
\<close>

theorem OSInstallTask_dynamic_correct:
  fixes cds :: stack_maker
  assumes "sys_ok k xs" "stacks_ok k X Q s" "iNesting k = 0" "p = 0 \<longrightarrow> PriorityVector k 0 = EMPTY_PRIO"
  shows "\<exists>full r h' k' s'. OSInstallTask_dynamic cds f name bytes p h k s = Some (r, h', k', s') \<and>
    r = dinstall_answer f bytes p k full \<and> (full \<longrightarrow> no_gap (sizeof_OS_CPU_TYPE * stack_words bytes) (dheap (smem s))) \<and>
    (if r = OK then \<exists>t a e. h' = map_option (\<lambda>_. word_of_nat t) h \<and> installed_at k xs X Q (fix_stack_size bytes) p t a e k' s'
     else install_refused k X Q h (r, h', k', s'))"
proof -
  obtain r h' k' s' where r: "OSInstallTask_dynamic cds f name bytes p h k s = Some (r, h', k', s')"
    "dinstall_result_ok f (fix_stack_size bytes) p k (dheap (smem s)) r"
    "if r = OK then \<exists>t a e. h' = map_option (\<lambda>_. word_of_nat t) h \<and> installed_at k xs X Q (fix_stack_size bytes) p t a e k' s'
     else install_refused k X Q h (r, h', k', s')"
    using dynamic_install_outcome [OF assms(1-3), of p] assms(4) by blast
  then show ?thesis using dinstall_result_answer [OF r(2)] by blast
qed

end
