(* ===== verification/Dyn_Task_Service.thy ===== *)
theory Dyn_Task_Service
  imports Dyn_Task_Laws
begin

text \<open>Uninstalling a task: the lists it leaves, the control block and the stack it gives back.\<close>

subsection \<open>The search in the delay list\<close>

lemma delay_search_dseg:
  assumes "dseg (ContextTask k) p xs NULL"
  shows "delay_search k t (first xs NULL) = Some (t \<in> set xs)"
  using assms
proof (induction xs arbitrary: p)
  case Nil
  then show ?case by (simp add: delay_search.simps)
next
  case (Cons x xs)
  have "Next (ContextTask k x) = first xs NULL" using Cons.prems by simp
  moreover have "delay_search k t (first xs NULL) = Some (t \<in> set xs)" by (rule Cons.IH) (use Cons.prems in auto)
  ultimately show ?case by (simp add: delay_search.simps [of k t "Some x"])
qed

lemma delay_search_dlist: "dlist k xs \<Longrightarrow> delay_search k t (Head k) = Some (t \<in> set xs)"
  using delay_search_dseg [of k NULL xs t] by (simp add: dlist_def)

lemma and_mask_full:
  assumes "p < 32" shows "w AND pbit p = pbit p \<longleftrightarrow> p \<in> prios (w :: u32)"
proof
  assume "w AND pbit p = pbit p"
  then have "prios w \<inter> {p} = {p}" using prios_and [of w "pbit p"] prios_pbit [OF assms] by simp
  then show "p \<in> prios w" by blast
next
  assume "p \<in> prios w"
  then have "prios (w AND pbit p) = prios (pbit p)" by (simp only: prios_and prios_pbit [OF assms]) blast
  then show "w AND pbit p = pbit p" by (intro prios_eqI)
qed

lemma leave_lists_outcome:
  assumes ok: "dlist k xs" and p: "p < 32" and ready: "p \<in> prios (OSReadyList k) \<Longrightarrow> t \<notin> set xs"
  obtains k2 where "leave_lists t (pbit p) k = Some k2" "dlist k2 (remove1 t xs)"
    "nolinks k2 = nolinks (k\<lparr>OSReadyList := OSReadyList k AND NOT (pbit p)\<rparr>)"
proof (cases "p \<in> prios (OSReadyList k)")
  case True
  define k2 where "k2 = k\<lparr>OSReadyList := OSReadyList k AND NOT (pbit p)\<rparr>"
  have "leave_lists t (pbit p) k = Some k2" using True by (simp add: leave_lists_def and_mask_full [OF p] k2_def)
  moreover have "dlist k2 xs" by (rule dlist_cong [OF ok]) (simp_all add: k2_def)
  ultimately show thesis using that ready [OF True] by (simp add: remove1_idem k2_def)
next
  case False
  have same: "OSReadyList k AND NOT (pbit p) = OSReadyList k" using False by (intro prios_eqI) (simp add: prios_clear [OF p])
  note ll = leave_lists_def [of t "pbit p" k, unfolded and_mask_full [OF p] delay_search_dlist [OF ok]]
  show thesis
  proof (cases "t \<in> set xs")
    case True
    obtain k2 where "RemoveFromDelayList t k = Some k2" "dlist k2 (remove1 t xs)" "nolinks k2 = nolinks k"
      using Remove_dlist [OF ok True] nolinks_Remove by blast
    then show thesis using that [of k2] False True same by (simp add: ll)
  next
    case n: False
    have "k\<lparr>OSReadyList := OSReadyList k\<rparr> = k" by simp
    then show thesis using that [of k] False n ok same by (simp add: ll remove1_idem)
  qed
qed

subsection \<open>The task table\<close>

lemma uninstall_tasks_ok:
  assumes ok: "tasks_ok k" and t: "allocated k t" and only: "\<And>q. q < 32 \<Longrightarrow> vec k q = t \<Longrightarrow> q = prio_of k t"
    and k': "TaskAlloc k' = TaskAlloc k AND NOT (pbit (t - 1))" "NumberOfInstalledTasks k' = NumberOfInstalledTasks k - 1"
      "PriorityVector k' = (PriorityVector k)(prio_of k t := EMPTY_PRIO)" "\<And>u. u \<noteq> t \<Longrightarrow> prio_of k' u = prio_of k u"
      "prios (OSReadyList k') = prios (OSReadyList k) - {prio_of k t}"
  shows "tasks_ok k'" "allocated k' u \<longleftrightarrow> allocated k u \<and> u \<noteq> t"
proof -
  have b: "0 < t" "t - 1 < 32" "t - 1 \<in> prios (TaskAlloc k)" "t \<le> 10" using t by (auto simp: allocated_def config bits)
  have pa: "prios (TaskAlloc k') = prios (TaskAlloc k) - {t - 1}" unfolding k'(1) by (rule prios_clear [OF b(2)])
  show al: "allocated k' u \<longleftrightarrow> allocated k u \<and> u \<noteq> t" for u
  proof -
    have "bit (TaskAlloc k') (u - 1) \<longleftrightarrow> bit (TaskAlloc k) (u - 1) \<and> u - 1 \<noteq> t - 1"
      using pa by (simp only: prios_iff [symmetric]) blast
    then show ?thesis using b(1) by (auto simp: allocated_def)
  qed
  have vec': "vec k' q = (if q = prio_of k t then 255 else vec k q)" for q by (simp add: vec_def k'(3) codes)
  have "prios (TaskAlloc k) \<noteq> {}" using b(3) by blast
  then have "0 < card (prios (TaskAlloc k))" by (simp add: card_gt_0_iff del: prios_empty_iff)
  then have "NumberOfInstalledTasks k \<noteq> 0" using tasks_okD(2) [OF ok] by auto
  then have cnt: "unat (NumberOfInstalledTasks k') = card (prios (TaskAlloc k'))"
    unfolding pa k'(2) using tasks_okD(2) [OF ok] b(3) by (simp add: unat_dec_u8)
  have c: "prio_of k' u < 32 \<and> vec k' (prio_of k' u) = u" if "allocated k' u" for u
  proof -
    have u: "allocated k u" "u \<noteq> t" using that al by auto
    then have "prio_of k u \<noteq> prio_of k t" using allocated_inj [OF ok _ t] by blast
    then show ?thesis using u tasks_okD(3,4) [OF ok u(1)] by (simp add: vec' k'(4))
  qed
  have d: "PriorityVector k' q = EMPTY_PRIO \<or> PriorityVector k' q = MUTEX_PRIO \<or> allocated k' (vec k' q)" if "q < 32" for q
  proof (cases "q = prio_of k t")
    case False
    then show ?thesis using tasks_okD(5) [OF ok that] only [OF that] by (auto simp: k'(3) vec' al)
  qed (simp add: k'(3))
  have e: "allocated k' (vec k' q) \<and> prio_of k' (vec k' q) = q" if "q \<in> prios (OSReadyList k')" for q
  proof -
    have q: "q \<in> prios (OSReadyList k)" "q \<noteq> prio_of k t" using that k'(5) by auto
    then have "vec k q \<noteq> t" using tasks_okD(7) [OF ok q(1)] by auto
    then show ?thesis using q tasks_okD(6,7) [OF ok q(1)] by (simp add: vec' al k'(4))
  qed
  show "tasks_ok k'" using pa tasks_okD(1) [OF ok] cnt c d e unfolding tasks_ok_def by blast
qed


subsection \<open>The whole operation\<close>

text \<open>What uninstalling task \<open>t\<close> leaves.\<close>

definition uninstalled :: "kernel \<Rightarrow> nat list \<Rightarrow> (nat \<times> nat) set \<Rightarrow> dq set \<Rightarrow> nat \<Rightarrow> kernel \<Rightarrow> stacks \<Rightarrow> bool" where
  "uninstalled k xs X Q t k' s' \<longleftrightarrow> (\<forall>u. allocated k' u \<longleftrightarrow> allocated k u \<and> u \<noteq> t) \<and>
     PriorityVector k' = (PriorityVector k)(prio_of k t := EMPTY_PRIO) \<and> (\<exists>e. (stack_at k t, e) \<in> X \<and> stacks_ok k' (X - {(stack_at k t, e)}) Q s') \<and>
     sys_ok k' (remove1 t xs) \<and> iNesting k' = iNesting k \<and> (\<forall>u. u \<noteq> t \<longrightarrow> prio_of k' u = prio_of k u) \<and>
     prios (OSReadyList k') = prios (OSReadyList k) - {prio_of k t} \<and> OSBlockedList k' = OSBlockedList k"

text \<open>The stack of one task is given back; those of the others stay.\<close>

lemma stacks_release:
  assumes st: "stacks_ok k X Q s" and t: "allocated k t" and e: "(stack_at k t, e) \<in> X"
    and h: "umm_release (Some (stack_at k t)) (dheap (smem s)) = Some h" "memory_state h (X - {(stack_at k t, e)})"
    and al: "\<And>u. allocated k' u \<Longrightarrow> allocated k u \<and> u \<noteq> t"
    and sa: "\<And>u. u \<noteq> t \<Longrightarrow> stack_at k' u = stack_at k u"
  shows "stacks_ok k' (X - {(stack_at k t, e)}) Q
    (s\<lparr>smem := forget (Some (stack_at k t)) ((smem s)\<lparr>dheap := h\<rparr>), StackSize := (StackSize s)(t := 0)\<rparr>)"
proof (rule stacks_frame [OF st])
  let ?a = "stack_at k t"
  note S = stacks_okD [OF st]
  have pl: "placed (X - {(?a, e)}) (smem s) y" if "y \<in> Q" for y
    using dyn_okD(3) [OF S(1) that] S(3) [OF t that] by (auto simp: placed_def in_use_def places_def)
  have "dyn_ok (X - {(?a, e)}) Q (forget (Some ?a) ((smem s)\<lparr>dheap := h\<rparr>))"
    by (rule dyn_frame(1) [OF S(1) subset_refl _ _ _ pl]) (use h(2) S(3) [OF t] in simp_all)
  then show "dyn_ok (X - {(?a, e)}) Q (smem (s\<lparr>smem := forget (Some ?a) ((smem s)\<lparr>dheap := h\<rparr>), StackSize := (StackSize s)(t := 0)\<rparr>))"
    by simp
  fix u assume u: "allocated k' u"
  show "allocated k u \<and> stack_at k' u = stack_at k u \<and>
      StackSize (s\<lparr>smem := forget (Some ?a) ((smem s)\<lparr>dheap := h\<rparr>), StackSize := (StackSize s)(t := 0)\<rparr>) u = StackSize s u"
    using al [OF u] sa [of u] by simp
  have "stack_at k u \<noteq> ?a" using S(4) [of u t] al [OF u] t by blast
  then show "in_use (X - {(?a, e)}) (stack_at k u) (unat (StackSize s u))"
    using S(2) [of u] al [OF u] by (auto simp: in_use_def)
qed


text \<open>The rest of the operation once the task has left the lists.\<close>

definition put_back :: "nat \<Rightarrow> nat \<Rightarrow> umm_heap \<Rightarrow> stacks \<Rightarrow> stacks" where
  "put_back t a h s = s\<lparr>smem := forget (Some a) ((smem s)\<lparr>dheap := h\<rparr>), StackSize := (StackSize s)(t := 0)\<rparr>"

lemma proceed_frame:
  assumes st: "stacks_ok k X Q s" and n0: "iNesting k = 0" and t: "allocated k t" "unat h = t"
    and k2: "nolinks k2 = nolinks ((EnterCritical_if_task k)\<lparr>OSReadyList := OSReadyList k AND NOT (pbit (prio_of k t))\<rparr>)"
  obtains k7 e hp where "proceed_uninstall h (ContextTask k t) k2 s = Some (k7, put_back t (stack_at k t) hp s)"
    "(stack_at k t, e) \<in> X" "umm_release (Some (stack_at k t)) (dheap (smem s)) = Some hp" "memory_state hp (X - {(stack_at k t, e)})"
    "TaskAlloc k7 = TaskAlloc k AND NOT (pbit (t - 1))" "NumberOfInstalledTasks k7 = NumberOfInstalledTasks k - 1"
    "PriorityVector k7 = (PriorityVector k)(prio_of k t := EMPTY_PRIO)" "\<And>u. u \<noteq> t \<Longrightarrow> prio_of k7 u = prio_of k u"
    "\<And>u. u \<noteq> t \<Longrightarrow> stack_at k7 u = stack_at k u" "OSReadyList k7 = OSReadyList k AND NOT (pbit (prio_of k t))"
    "OSBlockedList k7 = OSBlockedList k" "OSTickCounter k7 = OSTickCounter k" "currentTask k7 = currentTask k"
    "iNesting k7 = iNesting (EnterCritical_if_task k)" "Head k7 = Head k2" "Tail k7 = Tail k2" "\<And>u. u \<noteq> t \<Longrightarrow> ContextTask k7 u = ContextTask k2 u"
proof -
  note S = stacks_okD [OF st]
  obtain e where e: "(stack_at k t, e) \<in> X" using S(2) [OF t(1)] by (auto simp: in_use_def)
  have ms: "memory_state (dheap (smem s)) X" using dyn_okD(1) [OF S(1)] .
  obtain h1 where h1: "umm_release (Some (stack_at k t)) (dheap (smem s)) = Some h1" "memory_state h1 (X - {(stack_at k t, e)})"
    by (rule umm.dealloc_keeps [OF ms e])
  have sp: "stack_pointer (StackInit (ContextTask k t)) = Some (stack_at k t)"
    using umm.nonempty [OF ms e] by (auto simp: stack_pointer_def stack_at_def)
  note f2 = nolinks_eqD [OF k2, simplified]
  define k3 where "k3 = k2\<lparr>TaskAlloc := TaskAlloc k AND NOT (pbit (t - 1)), PriorityVector := (PriorityVector k)(prio_of k t := EMPTY_PRIO)\<rparr>"
  have "nestable k3" using nestable_Enter_if_task [OF n0] by (simp add: nestable_def k3_def f2)
  then obtain k4 where k4: "BRTOS_DEALLOC (Some (stack_at k t)) k3 (smem s) = Some (k4, forget (Some (stack_at k t)) ((smem s)\<lparr>dheap := h1\<rparr>))"
    "undisturbed k3 k4"
    by (rule DEALLOC_Some [OF h1(1) _ undisturbed_refl])
  note f4 = undisturbed_frame [OF k4(2)]
  define k6 where "k6 = (clear_TCB t k4)\<lparr>NumberOfInstalledTasks := NumberOfInstalledTasks k - 1\<rparr>"
  define k7 where "k7 = (if h = ucast (currentTask k6) then ChangeContext k6 else k6)"
  have nt: "NumberOfInstalledTasks (clear_TCB t k4) = NumberOfInstalledTasks k" by (simp add: clear_TCB_def f4 k3_def f2)
  have run: "proceed_uninstall h (ContextTask k t) k2 s = Some (k7, put_back t (stack_at k t) h1 s)"
    unfolding proceed_uninstall_def Let_def t(2) sp f2 prio_of_def [symmetric] k3_def [symmetric] bind.bind_lunit k4(1)
    by (simp add: nt k7_def k6_def put_back_def)
  show thesis
    by (rule that [OF run e h1]) (simp_all add: k7_def k6_def clear_TCB_def f4 k3_def f2 prio_of_def stack_at_def)
qed

lemma proceed_run:
  assumes sys: "sys_ok k xs" and st: "stacks_ok k X Q s" and n0: "iNesting k = 0" and t: "allocated k t" "unat h = t"
    and only: "\<And>q. q < 32 \<Longrightarrow> vec k q = t \<Longrightarrow> q = prio_of k t" and d: "dlist k2 (remove1 t xs)"
    and k2: "nolinks k2 = nolinks ((EnterCritical_if_task k)\<lparr>OSReadyList := OSReadyList k AND NOT (pbit (prio_of k t))\<rparr>)"
  obtains k7 s' where "proceed_uninstall h (ContextTask k t) k2 s = Some (k7, s')" "uninstalled k xs X Q t (ExitCritical_if_task k7) s'"
proof -
  obtain k7 e hp where run: "proceed_uninstall h (ContextTask k t) k2 s = Some (k7, put_back t (stack_at k t) hp s)"
    and e: "(stack_at k t, e) \<in> X" and h1: "umm_release (Some (stack_at k t)) (dheap (smem s)) = Some hp" "memory_state hp (X - {(stack_at k t, e)})"
    and f7: "TaskAlloc k7 = TaskAlloc k AND NOT (pbit (t - 1))" "NumberOfInstalledTasks k7 = NumberOfInstalledTasks k - 1"
    "PriorityVector k7 = (PriorityVector k)(prio_of k t := EMPTY_PRIO)" "\<And>u. u \<noteq> t \<Longrightarrow> prio_of k7 u = prio_of k u"
    "\<And>u. u \<noteq> t \<Longrightarrow> stack_at k7 u = stack_at k u" "OSReadyList k7 = OSReadyList k AND NOT (pbit (prio_of k t))"
    "OSBlockedList k7 = OSBlockedList k" "OSTickCounter k7 = OSTickCounter k" "currentTask k7 = currentTask k"
    "iNesting k7 = iNesting (EnterCritical_if_task k)" "Head k7 = Head k2" "Tail k7 = Tail k2" "\<And>u. u \<noteq> t \<Longrightarrow> ContextTask k7 u = ContextTask k2 u"
    by (rule proceed_frame [OF st n0 t k2]) blast
  have p32: "prio_of k t < 32" using tasks_okD(3) [OF sys_okD(1) [OF sys] t(1)] .
  have rl: "prios (OSReadyList k7) = prios (OSReadyList k) - {prio_of k t}" unfolding f7(6) by (rule prios_clear [OF p32])
  note tk = uninstall_tasks_ok [OF sys_okD(1) [OF sys] t(1) only f7(1-4) rl]
  have td: "t \<notin> set (remove1 t xs)" "set (remove1 t xs) \<subseteq> set xs"
    using dlist_distinct [OF sys_okD(2) [OF sys]] by (auto dest: set_remove1_subset [THEN subsetD])
  define k' where "k' = ExitCritical_if_task k7"
  have c': "core k' = core k7" by (simp add: k'_def)
  have nest: "iNesting k' = iNesting k"
    unfolding k'_def by (rule ExitCritical_if_task_nesting [OF sys_okD(4) [OF sys] f7(10,9)])
  have f': "TaskAlloc k' = TaskAlloc k7" "ContextTask k' = ContextTask k7" "PriorityVector k' = PriorityVector k7"
      "OSReadyList k' = OSReadyList k7" "OSBlockedList k' = OSBlockedList k7"
    by (simp_all add: k'_def)
  have al: "allocated k' u \<longleftrightarrow> allocated k u \<and> u \<noteq> t" for u using tk(2) [of u] by (simp add: allocated_def f'(1))
  have "sys_ok k' (remove1 t xs)"
  proof (rule sys_ok_coreI [OF tk(1) _ _ _ c'])
    have "0 < t" using t by (simp add: allocated_def)
    then show "dlist k7 (remove1 t xs)" using install_dlist [OF d, of "t - 1" k7] td(1) f7(11-13) by simp
    show "tick_ok k7" using sys_okD(3) [OF sys] by (simp add: tick_ok_def f7(8))
    show "allocated k7 u" if "u \<in> set (remove1 t xs)" for u using that td sys_okD(5) [OF sys, of u] tk(2) [of u] by auto
    show "nestable k'" using nest sys_okD(4) [OF sys] by (simp add: nestable_def)
  qed
  moreover have "stacks_ok k' (X - {(stack_at k t, e)}) Q (put_back t (stack_at k t) hp s)"
    unfolding put_back_def by (rule stacks_release [OF st t(1) e h1]) (use al f7(5) in \<open>auto simp: stack_at_def f'\<close>)
  ultimately have "uninstalled k xs X Q t k' (put_back t (stack_at k t) hp s)"
    using al e nest rl f7(3,4,7) unfolding uninstalled_def by (auto simp: f' prio_of_def)
  then show thesis using that [OF run] by (simp add: k'_def)
qed

text \<open>The task a call is about: with handle 0, the one that runs.\<close>

definition subject :: "u32 \<Rightarrow> kernel \<Rightarrow> nat" where
  "subject h k = (if h = 0 then unat (currentTask k) else unat h)"

lemma subject_handle:
  assumes "allocated k (subject h k)"
  shows "\<not> (h = 0 \<and> currentTask k = 0)" "unat (if h = 0 then ucast (currentTask k) else h :: u32) = subject h k"
  using allocated_bounds [OF assms] by (auto simp: subject_def unsigned_ucast_eq take_bit_nat_eq_self)

definition uninstall_result :: "u32 \<Rightarrow> nat \<Rightarrow> kernel \<Rightarrow> u8" where
  "uninstall_result safety_off t k =
    (if prio_of k t = 0 then CANNOT_UNINSTALL_IDLE_TASK
     else if prio_of k t \<notin> prios (OSReadyList k) \<and> safety_off \<noteq> ucast TRUE then TASK_WAITING_EVENT else OK)"

text \<open>The checks done, and the handle resolved.\<close>

lemma uninstall_checked:
  assumes ok: "tasks_ok k" and t: "allocated k (subject h k)"
  obtains h' where "unat h' = subject h k"
    "OSUninstallTask h safety_off k s =
     (if prio_of k (subject h k) = 0 then Some (CANNOT_UNINSTALL_IDLE_TASK, ExitCritical_if_task (EnterCritical_if_task k), s)
      else if prio_of k (subject h k) \<notin> prios (OSReadyList k) \<and> safety_off \<noteq> ucast TRUE
      then Some (TASK_WAITING_EVENT, ExitCritical_if_task (EnterCritical_if_task k), s)
      else do { k2 \<leftarrow> leave_lists (subject h k) (pbit (prio_of k (subject h k))) (EnterCritical_if_task k);
              (k7, s') \<leftarrow> proceed_uninstall h' (ContextTask k (subject h k)) k2 s;
              Some (OK, ExitCritical_if_task k7, s') })"
proof -
  define h' where "h' = (if h = 0 then ucast (currentTask k) else h :: u32)"
  note nv = subject_handle [OF t, folded h'_def]
  let ?k1 = "EnterCritical_if_task k" and ?t = "subject h k"
  have p32: "unat (Priority (ContextTask k ?t)) < 32" using tasks_okD(3) [OF ok t] by (simp add: prio_of_def)
  have full: "OSReadyList k AND pbit (prio_of k ?t) = pbit (prio_of k ?t) \<longleftrightarrow> prio_of k ?t \<in> prios (OSReadyList k)"
    by (rule and_mask_full) (use p32 in \<open>simp add: prio_of_def\<close>)
  have p0: "Priority (ContextTask k ?t) = 0 \<longleftrightarrow> prio_of k ?t = 0" by (simp add: prio_of_def unat_eq_0)
  have ct: "currentTask ?k1 = currentTask k" by simp
  show thesis
    apply (rule that [OF nv(2)])
    unfolding OSUninstallTask_def Let_def ct if_not_P [OF nv(1)] h'_def [symmetric] nv(2) task_at_allocated [OF t] bind.bind_lunit
    by (simp add: p0 PriorityMask_Some [OF p32] full flip: prio_of_def)
qed

lemma uninstall_outcome:
  assumes sys: "sys_ok k xs" and st: "stacks_ok k X Q s" and n0: "iNesting k = 0" and t: "allocated k (subject h k)"
    and only: "\<And>q. q < 32 \<Longrightarrow> vec k q = subject h k \<Longrightarrow> q = prio_of k (subject h k)"
    and ready: "prio_of k (subject h k) \<in> prios (OSReadyList k) \<Longrightarrow> subject h k \<notin> set xs"
  shows "\<exists>k' s'. OSUninstallTask h safety_off k s = Some (uninstall_result safety_off (subject h k) k, k', s') \<and>
    (if uninstall_result safety_off (subject h k) k = OK then uninstalled k xs X Q (subject h k) k' s' else undisturbed k k' \<and> s' = s)"
proof -
  let ?k1 = "EnterCritical_if_task k"
  define t where "t = subject h k"
  note t0 = t
  note t = t [folded t_def] and only = only [folded t_def] and ready = ready [folded t_def]
  obtain h' where h': "unat h' = t" and head: "OSUninstallTask h safety_off k s =
     (if prio_of k t = 0 then Some (CANNOT_UNINSTALL_IDLE_TASK, ExitCritical_if_task ?k1, s)
      else if prio_of k t \<notin> prios (OSReadyList k) \<and> safety_off \<noteq> ucast TRUE then Some (TASK_WAITING_EVENT, ExitCritical_if_task ?k1, s)
      else do { k2 \<leftarrow> leave_lists t (pbit (prio_of k t)) ?k1;
              (k7, s') \<leftarrow> proceed_uninstall h' (ContextTask k t) k2 s;
              Some (OK, ExitCritical_if_task k7, s') })"
    by (rule uninstall_checked [OF sys_okD(1) [OF sys] t0, folded t_def])
  show ?thesis
  proof (cases "uninstall_result safety_off t k = OK")
    case False
    then show ?thesis using undisturbed_if_task [OF n0 undisturbed_refl] unfolding head t_def [symmetric] by (auto simp: uninstall_result_def)
  next
    case True
    then have go: "\<not> prio_of k t = 0" "\<not> (prio_of k t \<notin> prios (OSReadyList k) \<and> safety_off \<noteq> ucast TRUE)"
      by (auto simp: uninstall_result_def codes split: if_splits)
    have p32: "prio_of k t < 32" using tasks_okD(3) [OF sys_okD(1) [OF sys] t] .
    have d1: "dlist ?k1 xs" by (rule dlist_cong [OF sys_okD(2) [OF sys]]) simp_all
    obtain k2 where k2: "leave_lists t (pbit (prio_of k t)) ?k1 = Some k2" "dlist k2 (remove1 t xs)"
      "nolinks k2 = nolinks (?k1\<lparr>OSReadyList := OSReadyList k AND NOT (pbit (prio_of k t))\<rparr>)"
      by (rule leave_lists_outcome [OF d1 p32, of t]) (use ready in simp_all)
    obtain k7 s' where "proceed_uninstall h' (ContextTask k t) k2 s = Some (k7, s')" "uninstalled k xs X Q t (ExitCritical_if_task k7) s'"
      by (rule proceed_run [OF sys st n0 t h' only k2(2,3)])
    then show ?thesis using True k2(1) unfolding head t_def [symmetric] if_not_P [OF go(1)] if_not_P [OF go(2)] by simp
  qed
qed

text \<open>
  C7. \<open>OSUninstallTask\<close> refuses the idle task and, unless told otherwise, a task that waits. Otherwise it takes
  the task out of the ready list and the delay list, frees its number and priority and gives back its stack
  and nothing else; the kernel's invariant and the other tasks' stacks are kept. A ready task must
  not be in the delay list any more, and no mutex may have raised the task's priority. The answer for a task that
  waits is \<open>TASK_WAITING_EVENT\<close>, where the comment in \<open>BRTOS.h\<close> announces \<open>NOT_VALID_TASK\<close>.
\<close>

theorem OSUninstallTask_correct:
  assumes "sys_ok k xs" "stacks_ok k X Q s" "iNesting k = 0" "allocated k (subject h k)"
    "\<And>q. q < 32 \<Longrightarrow> vec k q = subject h k \<Longrightarrow> q = prio_of k (subject h k)"
    "prio_of k (subject h k) \<in> prios (OSReadyList k) \<Longrightarrow> subject h k \<notin> set xs"
  shows "\<exists>k' s'. OSUninstallTask h safety_off k s = Some (uninstall_result safety_off (subject h k) k, k', s') \<and>
    (if uninstall_result safety_off (subject h k) k = OK then uninstalled k xs X Q (subject h k) k' s' else undisturbed k k' \<and> s' = s)"
  by (rule uninstall_outcome [OF assms])

subsection \<open>Installing, then uninstalling\<close>

lemma installed_only:
  assumes sys: "sys_ok k xs" and i: "installed_at k xs X Q bytes p t a e k' s'" and q: "q < 32" "vec k' q = t"
  shows "q = prio_of k' t"
proof (rule ccontr)
  assume n: "q \<noteq> prio_of k' t"
  have al: "\<not> allocated k t" "allocated k' t" "PriorityVector k' = (PriorityVector k)(unat p := word_of_nat t)" "prio_of k' t = unat p"
    using i by (simp_all add: installed_at_def)
  have v: "vec k q = t" using q(2) n al(3,4) by (simp add: vec_def)
  have "t \<le> 10" using allocated_bounds [OF al(2)] by simp
  then have "PriorityVector k q \<noteq> EMPTY_PRIO" "PriorityVector k q \<noteq> MUTEX_PRIO" using v by (auto simp: vec_def codes)
  then show False using tasks_okD(5) [OF sys_okD(1) [OF sys] q(1)] v al(1) by simp
qed

text \<open>
  C8. A task that is installed and uninstalled leaves the kernel as it was: the same tasks, priorities and ready
  list, and the same memory in use.
\<close>

theorem OSTask_install_uninstall:
  fixes cds :: stack_maker
  assumes sys: "sys_ok k xs" and st: "stacks_ok k X Q s" and n0: "iNesting k = 0" and p: "p \<noteq> 0"
    and made: "OSInstallTask_dynamic cds f name bytes p (Some h0) k s = Some (OK, Some h, k1, s1)"
  shows "\<exists>k2 s2. OSUninstallTask h safety_off k1 s1 = Some (OK, k2, s2) \<and> sys_ok k2 xs \<and> stacks_ok k2 X Q s2 \<and>
    (\<forall>u. allocated k2 u \<longleftrightarrow> allocated k u) \<and> PriorityVector k2 = PriorityVector k \<and> OSReadyList k2 = OSReadyList k \<and> iNesting k2 = 0"
proof -
  obtain t a e where h: "h = word_of_nat t" and i: "installed_at k xs X Q (fix_stack_size bytes) p t a e k1 s1"
    using dynamic_install_outcome [OF sys st n0, of p cds f name bytes "Some h0"] made p by auto
  note I = i [unfolded installed_at_def]
  have al: "\<not> allocated k t" "allocated k1 t" "prio_of k1 t = unat p" using I by simp_all
  have ut: "unat h = t" "h \<noteq> 0" using allocated_bounds [OF al(2)] by (auto simp: h unat_of_nat_u32 word_of_nat_eq_0_iff dest: arg_cong [of _ _ unat])
  have sub: "subject h k1 = t" using ut by (simp add: subject_def)
  have xs: "t \<notin> set xs" using sys_okD(5) [OF sys, of t] al(1) by auto
  have rdy: "prio_of k1 t \<in> prios (OSReadyList k1)" using I by simp
  have res: "uninstall_result safety_off t k1 = OK" using p rdy al(3) by (simp add: uninstall_result_def unat_eq_0)
  have sys1: "sys_ok k1 xs" "stacks_ok k1 (insert (a, e) X) Q s1" "iNesting k1 = 0" using I n0 by simp_all
  obtain k2 s2 where r: "OSUninstallTask h safety_off k1 s1 = Some (OK, k2, s2)" "uninstalled k1 xs (insert (a, e) X) Q t k2 s2"
    using uninstall_outcome [OF sys1, of h safety_off, unfolded sub] al(2) installed_only [OF sys i] xs res by auto
  note U = r(2) [unfolded uninstalled_def]
  have pv: "unat p < 32 \<and> PriorityVector k (unat p) = EMPTY_PRIO"
    using made p unfolding OSInstallTask_dynamic_def Let_def
    by (cases "dinstall_error f (fix_stack_size bytes) p (EnterCritical_if_task k)")
      (auto dest: dinstall_error_None dinstall_error_not_OK)
  then have np: "unat p \<notin> prios (OSReadyList k)"
    using tasks_okD(6) [OF sys_okD(1) [OF sys], of "unat p"] allocated_bounds [of k "vec k (unat p)"] by (auto simp: vec_def codes)
  obtain e' where e': "(a, e') \<in> insert (a, e) X" "stacks_ok k2 (insert (a, e) X - {(a, e')}) Q s2" using U I by auto
  have "e' = e" by (rule umm.same_start [OF dyn_okD(1) [OF stacks_okD(1) [OF sys1(2)]] e'(1)]) simp
  moreover have "(a, e) \<notin> X" using I by simp
  ultimately have "stacks_ok k2 X Q s2" using e'(2) by simp
  moreover have "OSReadyList k2 = OSReadyList k" using U I np by (intro prios_eqI) (simp add: al(3))
  moreover have "PriorityVector k2 = PriorityVector k" using U I pv by (simp add: al(3) fun_upd_idem)
  moreover have "sys_ok k2 xs" "iNesting k2 = 0" using U sys1(3) xs by (simp_all add: remove1_idem)
  moreover have "\<forall>u. allocated k2 u \<longleftrightarrow> allocated k u" using U I by auto
  ultimately show ?thesis using r(1) by blast
qed


subsection \<open>A task that a post has made ready\<close>

text \<open>
  A task that waits with a time limit and is then made ready by a post stays in the delay list until it
  runs. Uninstalled before that, it is taken out of the ready list only.
\<close>

lemma delay_search_prefix:
  assumes "dseg c p (as @ t # bs) NULL" "\<And>u. u \<noteq> t \<Longrightarrow> ContextTask k u = c u" "t \<notin> set as"
  shows "delay_search k t (first (as @ t # bs) NULL) = Some True"
  using assms
proof (induction as arbitrary: p)
  case Nil
  then show ?case by (simp add: delay_search.simps)
next
  case (Cons a as)
  have "a \<noteq> t" using Cons.prems(3) by simp
  moreover have "Next (ContextTask k a) = first (as @ t # bs) NULL" using Cons.prems(1) Cons.prems(2) [of a] calculation by simp
  moreover have "delay_search k t (first (as @ t # bs) NULL) = Some True" by (rule Cons.IH) (use Cons.prems in auto)
  ultimately show ?case by (simp add: delay_search.simps [of k t "Some a"])
qed

lemma uninstall_ready_delayed:
  assumes sys: "sys_ok k xs" and st: "stacks_ok k X Q s" and n0: "iNesting k = 0" and t: "allocated k (subject h k)" "subject h k \<in> set xs"
    and ready: "prio_of k (subject h k) \<in> prios (OSReadyList k)" and p: "prio_of k (subject h k) \<noteq> 0"
  shows "\<exists>k' s'. OSUninstallTask h safety_off k s = Some (OK, k', s') \<and> \<not> allocated k' (subject h k) \<and>
    delay_search k' (subject h k) (Head k') = Some True \<and> (\<forall>ys. \<not> sys_ok k' ys)"
proof -
  let ?k1 = "EnterCritical_if_task k"
  define t where "t = subject h k"
  note t0 = t(1)
  note t = t [folded t_def] and ready = ready [folded t_def] and p = p [folded t_def]
  have p32: "prio_of k t < 32" using tasks_okD(3) [OF sys_okD(1) [OF sys] t(1)] .
  define k2 where "k2 = ?k1\<lparr>OSReadyList := OSReadyList k AND NOT (pbit (prio_of k t))\<rparr>"
  have ll: "leave_lists t (pbit (prio_of k t)) ?k1 = Some k2"
    using ready and_mask_full [OF p32, of "OSReadyList k"] by (simp add: leave_lists_def k2_def)
  obtain h' where h': "unat h' = t" and run: "OSUninstallTask h safety_off k s =
      do { (k7, s') \<leftarrow> proceed_uninstall h' (ContextTask k t) k2 s; Some (OK, ExitCritical_if_task k7, s') }"
  proof (rule uninstall_checked [OF sys_okD(1) [OF sys] t0, folded t_def])
    fix h' assume "unat h' = t" "OSUninstallTask h safety_off k s =
     (if prio_of k t = 0 then Some (CANNOT_UNINSTALL_IDLE_TASK, ExitCritical_if_task ?k1, s)
      else if prio_of k t \<notin> prios (OSReadyList k) \<and> safety_off \<noteq> ucast TRUE then Some (TASK_WAITING_EVENT, ExitCritical_if_task ?k1, s)
      else do { k2 \<leftarrow> leave_lists t (pbit (prio_of k t)) ?k1;
              (k7, s') \<leftarrow> proceed_uninstall h' (ContextTask k t) k2 s;
              Some (OK, ExitCritical_if_task k7, s') })"
    then show thesis using that ready p by (simp add: ll)
  qed
  obtain k7 s' where k7: "proceed_uninstall h' (ContextTask k t) k2 s = Some (k7, s')" "TaskAlloc k7 = TaskAlloc k AND NOT (pbit (t - 1))"
    "Head k7 = Head k2" "\<And>u. u \<noteq> t \<Longrightarrow> ContextTask k7 u = ContextTask k2 u"
    by (rule proceed_frame [OF st n0 t(1) h', of k2]) (simp add: k2_def, blast)
  define k' where "k' = ExitCritical_if_task k7"
  have t32: "t - 1 < 32" using allocated_bounds [OF t(1)] by linarith
  have na: "\<not> allocated k' t" using prios_clear [OF t32, of "TaskAlloc k"] by (auto simp: allocated_def k'_def k7(2) simp flip: prios_iff)
  obtain as bs where xs: "xs = as @ t # bs" "t \<notin> set as" using split_list_first [OF t(2)] by blast
  have "delay_search k' t (first xs NULL) = Some True"
    unfolding xs(1) using sys_okD(2) [OF sys] xs
    by (intro delay_search_prefix [of "ContextTask k" NULL]) (auto simp: dlist_def k'_def k7(4) k2_def)
  then have found: "delay_search k' t (Head k') = Some True" using sys_okD(2) [OF sys] by (simp add: dlist_def k'_def k7(3) k2_def)
  have "\<not> sys_ok k' ys" for ys
    using delay_search_dlist [of k' ys t] found na sys_okD(2,5) [of k' ys] by auto
  then show ?thesis using run k7(1) na found unfolding t_def [symmetric] k'_def by simp
qed

end
