(* ===== verification/Dyn_Queue_Examples.thy ===== *)
theory Dyn_Queue_Examples
  imports Dyn_Queue_Service
begin

text \<open>The properties of dynamic queues on the running system \<open>demo\<close> with an unused dynamic heap.\<close>

definition dyn0 :: dynamic where
  "dyn0 = \<lparr>dheap = umm_heap_init, dqueues = Map.empty, devents = Map.empty, dsizes = Map.empty, dbytes = (\<lambda>_. 0)\<rparr>"

definition junk0 :: BRTOS_Queue where
  "junk0 = \<lparr>OSEventAllocated = TRUE, OSEventWait = 7, OSEventWaitList = 9, OSEventCount_q = 0, OSEventPointer_q = NULL\<rparr>"

lemma dyn0_ok: "dyn_ok {} {} dyn0"
  using memory_state_init by (simp add: dyn_ok_def dyn0_def)

text \<open>Requests served one after the other from the unused rest, which starts at block \<open>f\<close>.\<close>

definition top_at :: "umm_heap \<Rightarrow> nat \<Rightarrow> bool" where
  "top_at h f \<longleftrightarrow> 0 < f \<and> f < 128 \<and> NFREE (h 0) = word_of_nat f \<and> NBLOCK (h f) = 0 \<and> NFREE (h f) = 0 \<and> PFREE (h f) = 0"

lemma take_first:
  obtains h where "umm_take 24 umm_heap_init = Some (Some 12, h)" "top_at h 5"
proof -
  have z: "umm_heap_init b = \<lparr>NBLOCK = 0, PBLOCK = 0, NFREE = 0, PFREE = 0\<rparr>" for b by (simp add: umm_heap_init_def)
  have "first_fit umm_heap_init 4 0 0 = Some (0, 0)" by (simp add: first_fit.simps [of umm_heap_init 4 0 0] accesses z)
  then have "alloc_block 4 umm_heap_init = do {
      (cf1, h1) \<leftarrow> init_heap 0 umm_heap_init; h2 \<leftarrow> append_block cf1 4 h1; Some (Some cf1, h2) }"
    by (simp add: alloc_block_def accesses z)
  then obtain h where "alloc_block 4 umm_heap_init = Some (Some 1, h)" "top_at h 5"
    by (simp add: init_heap_def append_block_def accesses z top_at_def)
  moreover have "umm_blocks 24 = 4" by (simp add: umm_blocks_def sizeof_body_def sizeof_umm_block_def Let_def)
  ultimately show thesis using that by (simp add: umm_take_def data_address_def sizeof_umm_block_def)
qed

lemma take_next:
  assumes "top_at h f" "umm_blocks bytes = word_of_nat n" "0 < n" "f + n + 1 < 128" "bytes \<noteq> 0"
  obtains h' where "umm_take bytes h = Some (Some (8 * f + 4), h')" "top_at h' (f + n)"
proof -
  note t = assms(1) [unfolded top_at_def]
  have u: "unat (word_of_nat f :: u16) = f" "unat (word_of_nat n :: u16) = n" "unat (word_of_nat f + word_of_nat n :: u16) = f + n"
    using t assms(4) by (simp_all add: unat_of_nat_u16 flip: of_nat_add)
  have w: "(word_of_nat f :: u16) \<noteq> 0" using u(1) t by (metis unat_0 less_irrefl)
  have ff: "first_fit h (word_of_nat n) (word_of_nat f) 0 = Some (word_of_nat f, 0)"
    using t u(1) by (simp add: first_fit.simps [of h "word_of_nat n" "word_of_nat f" 0] accesses)
  have "alloc_block (word_of_nat n) h = do {
      (cf1, h1) \<leftarrow> init_heap (word_of_nat f) h; h2 \<leftarrow> append_block cf1 (word_of_nat n) h1; Some (Some cf1, h2) }"
    using t ff u assms(4) by (simp add: alloc_block_def accesses)
  also have "init_heap (word_of_nat f) h = Some (word_of_nat f, h)" using w by (simp add: init_heap_def)
  finally obtain h' where h': "alloc_block (word_of_nat n) h = Some (Some (word_of_nat f), h')" "top_at h' (f + n)"
    using t u assms(3,4) by (simp add: append_block_def accesses top_at_def Let_def flip: of_nat_add)
  show thesis using that h' assms(2,5) u(1) by (simp add: umm_take_def data_address_def sizeof_umm_block_def mult.commute)
qed

text \<open>A creation of a small queue succeeds.\<close>

lemma create_succeeds:
  assumes sw: "(ucast (ucast len * ts :: u32) :: u16) = sw" "umm_blocks (ucast sw) = word_of_nat n" "0 < n" "n < 3" "(ucast sw :: u32) \<noteq> 0"
    and pos: "0 < len" "0 < ts"
  obtains k1 d1 where "OSDQueueCreate len ts NULL junk0 demo dyn0 = Some (ALLOC_EVENT_OK, Some (44 + 8 * n), k1, d1)"
    "\<exists>ev q. devents d1 (44 + 8 * n) = Some ev \<and> OSEventPointer_q ev = Some 12 \<and> dqueues d1 12 = Some q \<and> OSQStart (dring q) = 44"
proof -
  let ?k = "EnterCritical_if_task demo"
  have n0: "\<not> iNesting demo > 0" by (simp add: demo_facts)
  have nk: "nestable ?k" using nestable_Enter_if_task [of demo] by (simp add: demo_facts)
  have dh: "dheap dyn0 = umm_heap_init" "dyn0\<lparr>dheap := umm_heap_init\<rparr> = dyn0" by (simp_all add: dyn0_def)
  obtain h1 where h1: "umm_take 24 umm_heap_init = Some (Some 12, h1)" "top_at h1 5" by (rule take_first)
  obtain h2 where h2: "umm_take (ucast sw) h1 = Some (Some 44, h2)" "top_at h2 (5 + n)"
    using take_next [OF h1(2) sw(2,3) _ sw(5)] sw(4) by auto
  have b3: "umm_blocks 12 = word_of_nat 2" by (simp add: umm_blocks_def sizeof_body_def sizeof_umm_block_def Let_def)
  obtain h3 where h3: "umm_take 12 h2 = Some (Some (8 * (5 + n) + 4), h3)"
    using take_next [OF h2(2) b3] sw(4) by auto
  obtain k2 where k2: "BRTOS_ALLOC 24 ?k dyn0 = Some (Some 12, k2, dyn0\<lparr>dheap := h1\<rparr>)" "undisturbed ?k k2"
    by (rule ALLOC_Some [OF h1(1) nk undisturbed_refl, of dyn0, unfolded dh(2)])
  obtain k3 where k3: "BRTOS_ALLOC (ucast sw) k2 (dyn0\<lparr>dheap := h1\<rparr>) = Some (Some 44, k3, dyn0\<lparr>dheap := h2\<rparr>)" "undisturbed ?k k3"
    by (rule ALLOC_Some [OF h2(1) nk k2(2)])
  obtain k4 where k4: "BRTOS_ALLOC 12 k3 (dyn0\<lparr>dheap := h2\<rparr>) = Some (Some (8 * (5 + n) + 4), k4, dyn0\<lparr>dheap := h3\<rparr>)"
    by (rule ALLOC_Some [OF h3 nk k3(2)])
  have p: "len > 0 \<and> ts > 0" using pos by simp
  have e: "8 * (5 + n) + 4 = 44 + 8 * n" by simp
  have run: "OSDQueueCreate len ts NULL junk0 demo dyn0 = create_event 12 44 sw len ts NULL junk0 k3 (dyn0\<lparr>dheap := h2\<rparr>)"
    using k2(1) k3(1) p n0 unfolding OSDQueueCreate_def create_buffer_def sizeof_OS_DQUEUE_def by (simp add: sw(1) Let_def)
  define d1 where "d1 = dyn0\<lparr>dheap := h3, dsizes := (dsizes dyn0)(44 \<mapsto> unat sw),
      dqueues := (dqueues dyn0)(12 \<mapsto> \<lparr>dring = \<lparr>OSQStart = 44, OSQEnd = 44 + unat sw, OSQIn = 44, OSQOut = 44, OSQSize = len, OSQEntries = 0\<rparr>,
        OSQTSize = ucast ts\<rparr>),
      devents := (devents dyn0)(44 + 8 * n \<mapsto> junk0\<lparr>OSEventPointer_q := Some 12, OSEventWait := 0, OSEventWaitList := 0\<rparr>)\<rparr>"
  have "OSDQueueCreate len ts NULL junk0 demo dyn0 = Some (ALLOC_EVENT_OK, Some (44 + 8 * n), ExitCritical_if_task k4, d1)"
    unfolding run create_event_def sizeof_BRTOS_Queue_def k4(1) [unfolded e] by (simp add: Let_def d1_def)
  then show thesis by (rule that) (simp add: d1_def)
qed

text \<open>A queue of 4 entries of 2 bytes, and a queue whose size is cut to 2 bytes.\<close>

definition dyn1 :: dynamic where
  "dyn1 = (case OSDQueueCreate 4 2 NULL junk0 demo dyn0 of Some (_, _, _, d) \<Rightarrow> d)"

definition demo_q :: kernel where
  "demo_q = (case OSDQueueCreate 4 2 NULL junk0 demo dyn0 of Some (_, _, k, _) \<Rightarrow> k)"

lemma created_4_2: "OSDQueueCreate 4 2 NULL junk0 demo dyn0 = Some (ALLOC_EVENT_OK, Some 60, demo_q, dyn1)"
    "\<exists>ev q. devents dyn1 60 = Some ev \<and> OSEventPointer_q ev = Some 12 \<and> dqueues dyn1 12 = Some q \<and> OSQStart (dring q) = 44"
proof -
  obtain k1 d1 where c: "OSDQueueCreate 4 2 NULL junk0 demo dyn0 = Some (ALLOC_EVENT_OK, Some 60, k1, d1)"
    "\<exists>ev q. devents d1 60 = Some ev \<and> OSEventPointer_q ev = Some 12 \<and> dqueues d1 12 = Some q \<and> OSQStart (dring q) = 44"
    by (rule create_succeeds [of 4 2 8 2]) (simp_all add: umm_blocks_def sizeof_body_def sizeof_umm_block_def Let_def)
  then show "OSDQueueCreate 4 2 NULL junk0 demo dyn0 = Some (ALLOC_EVENT_OK, Some 60, demo_q, dyn1)"
    "\<exists>ev q. devents dyn1 60 = Some ev \<and> OSEventPointer_q ev = Some 12 \<and> dqueues dyn1 12 = Some q \<and> OSQStart (dring q) = 44"
    by (simp_all add: demo_q_def dyn1_def)
qed

lemma created_21846_3:
  obtains k1 d1 where "OSDQueueCreate 21846 3 NULL junk0 demo dyn0 = Some (ALLOC_EVENT_OK, Some 52, k1, d1)"
  by (rule create_succeeds [of 21846 3 2 1]) (simp_all add: umm_blocks_def sizeof_body_def sizeof_umm_block_def Let_def)

lemma demo_unchecked: "\<not> ERROR_CHECK demo" "iNesting demo = 0"
  by code_simp+

lemma dyn1_facts:
  obtains X where "dyn_ok X {(60, 12, 44)} dyn1"
    and "devent_ok demo_q dyn1 (60, 12, 44)" "dcontents dyn1 (60, 12, 44) = []" "dcapacity dyn1 (60, 12, 44) = 4"
      "dentry dyn1 (60, 12, 44) = 2" "dwaiting dyn1 (60, 12, 44) = {}" "iNesting demo_q = 0"
proof -
  obtain res where r: "OSDQueueCreate 4 2 NULL junk0 demo dyn0 = Some res"
    "create_failed {} {} NULL demo dyn0 res \<or> create_made {} {} 4 2 demo dyn0 res"
    using create_outcome [OF dyn0_ok demo_unchecked(2), of 4 2 NULL junk0] by auto
  have "res = (ALLOC_EVENT_OK, Some 60, demo_q, dyn1)" using created_4_2(1) r(1) by simp
  moreover have "\<not> create_failed {} {} NULL demo dyn0 (ALLOC_EVENT_OK, Some 60, demo_q, dyn1)" by (simp add: create_failed_def codes)
  ultimately obtain Y c s where x: "undisturbed demo demo_q" "new_queue {} {} 4 2 Y (60, c, s) dyn1" using r(2) by (auto simp: create_made_def)
  then have "is_dq dyn1 (60, c, s)" using dyn_okD(2) [of Y "{(60, c, s)}" dyn1] by (simp add: new_queue_def)
  then have cs: "c = 12" "s = 44" using created_4_2(2) by (auto simp: is_dq_def)
  have "iNesting demo_q = 0" "ERROR_CHECK demo_q = ERROR_CHECK demo"
    using x(1) demo_unchecked(2) core_frame(1) [of demo_q] core_frame(1) [of demo] by (simp_all add: undisturbed_def)
  then show thesis using that [of Y] x(2) cs demo_unchecked(1) by (simp add: new_queue_def)
qed

subsection \<open>Witnesses\<close>

lemma OSDQueueCreate_no_leak_witness:
  "\<exists>r p k' d'. OSDQueueCreate 4 2 NULL junk0 demo dyn0 = Some (r, p, k', d') \<and> undisturbed demo k' \<and>
    (if r = ALLOC_EVENT_OK then \<exists>Y x. p = Some (fst x) \<and> new_queue {} {} 4 2 Y x d'
     else r \<in> {INVALID_PARAMETERS, NO_AVAILABLE_MEMORY, NO_AVAILABLE_EVENT} \<and> p = NULL \<and> dyn_ok {} {} d')"
proof -
  have "unat (4 :: u16) * unat (2 :: u32) < 65536" by simp
  from OSDQueueCreate_no_leak [OF dyn0_ok demo_unchecked(2) this, of NULL junk0] show ?thesis by metis
qed

lemma OSDQueue_create_delete_witness:
  "\<exists>k2 d2. OSDQueueDelete (Some 60) demo_q dyn1 = Some (DELETE_EVENT_OK, NULL, k2, d2) \<and> undisturbed demo k2 \<and> dyn_ok {} {} d2"
proof -
  have "unat (4 :: u16) * unat (2 :: u32) < 65536" by simp
  from OSDQueue_create_delete [OF dyn0_ok demo_unchecked(2) this created_4_2(1)] show ?thesis by auto
qed

lemma OSDQueueDelete_again: "OSDQueueDelete NULL k d = None"
  by (simp add: OSDQueueDelete_def get_at_def)

lemma OSDQueuePost_appends_witness:
  "\<exists>k' d'. OSDQueuePost (Some 60) [1, 2, 3] demo_q dyn1 = Some (WRITE_BUFFER_OK, k', d') \<and> dcontents d' (60, 12, 44) = [[1, 2]]"
proof -
  obtain X where f: "dyn_ok X {(60, 12, 44)} dyn1" "devent_ok demo_q dyn1 (60, 12, 44)" "dcontents dyn1 (60, 12, 44) = []"
    "dcapacity dyn1 (60, 12, 44) = 4" "dentry dyn1 (60, 12, 44) = 2" "iNesting demo_q = 0"
    by (rule dyn1_facts) blast
  have "nestable demo_q" using f(6) by (simp add: nestable_def)
  then show ?thesis using OSDQueuePost_appends [OF f(1) _ f(2), of "[1, 2, 3]"] f by auto
qed

lemma OSDQueue_first_in_first_out_witness:
  "\<exists>s1 s2. dq.put_all (60, 12, 44) [[1, 2], [3, 4], [5, 6]] (demo_q, dyn1) = Some s1 \<and>
    dq.get_all (60, 12, 44) 3 s1 = Some ([[1, 2], [3, 4], [5, 6]], s2) \<and> dcontents (snd s2) (60, 12, 44) = []"
proof -
  obtain X where f: "dyn_ok X {(60, 12, 44)} dyn1" "devent_ok demo_q dyn1 (60, 12, 44)" "dcontents dyn1 (60, 12, 44) = []"
    "dcapacity dyn1 (60, 12, 44) = 4" "dentry dyn1 (60, 12, 44) = 2" "dwaiting dyn1 (60, 12, 44) = {}" "iNesting demo_q = 0"
    by (rule dyn1_facts) blast
  then have r: "dq_ready X {(60, 12, 44)} (60, 12, 44) 2 (demo_q, dyn1)" by (simp add: dq_ready_def)
  let ?ds = "[[1, 2], [3, 4], [5, 6]] :: u8 list list"
  have l: "length (dcontents (snd (demo_q, dyn1)) (60, 12, 44)) + length ?ds = 3" "dcontents (snd (demo_q, dyn1)) (60, 12, 44) @ ?ds = ?ds"
    using f(3) by simp_all
  have "\<forall>bs \<in> set ?ds. length bs = 2" "3 \<le> dcapacity (snd (demo_q, dyn1)) (60, 12, 44)" using f(4) by simp_all
  from OSDQueue_first_in_first_out [OF r, of ?ds, unfolded l, OF this] show ?thesis .
qed

lemma OSDQueue_size_wraps_witness:
  "\<exists>k1 d1. OSDQueueCreate 21846 3 NULL junk0 demo dyn0 = Some (ALLOC_EVENT_OK, Some 52, k1, d1) \<and>
    OSDQueuePost (Some 52) [1, 2, 3] k1 d1 = None"
proof -
  obtain k1 d1 where c: "OSDQueueCreate 21846 3 NULL junk0 demo dyn0 = Some (ALLOC_EVENT_OK, Some 52, k1, d1)" by (rule created_21846_3)
  have "OSDQueuePost (Some 52) [1, 2, 3] k1 d1 = None"
    by (rule OSDQueue_size_wraps [OF c]) (simp_all add: demo_unchecked)
  then show ?thesis using c by blast
qed

end
