(* ===== verification/Dyn_Task_Examples.thy ===== *)
theory Dyn_Task_Examples
  imports Dyn_Task_Service Dyn_Queue_Examples
begin

text \<open>The properties of dynamic tasks: the first task of a system that has just been initialised.\<close>

definition boot :: kernel where
  "boot = BRTOSInit 0x1000 (globals_init False)"

definition boot_stacks :: stacks where
  "boot_stacks = \<lparr>smem = dyn0, StackSize = \<lambda>_. 0\<rparr>"

definition first_maker :: stack_maker where
  "first_maker f stk n = stk + ucast n"

lemma boot_ok: "sys_ok boot []" "iNesting boot = 0" "\<not> allocated boot t" "stacks_ok boot {} {} boot_stacks"
proof -
  show "sys_ok boot []" unfolding boot_def by (rule BRTOSInit_sys_ok) simp_all
  show "iNesting boot = 0" by (simp add: boot_def BRTOSInit_def PreInstallTasks_def initEvents_def Let_def)
  show a: "\<not> allocated boot t" for t by (simp add: boot_def allocated_def BRTOSInit_def PreInstallTasks_def Let_def)
  show "stacks_ok boot {} {} boot_stacks" using a dyn0_ok by (simp add: stacks_ok_def boot_stacks_def)
qed

text \<open>A stack of 400 bytes at the bottom of the unused heap.\<close>

lemma take_stack:
  obtains h where "umm_take 400 umm_heap_init = Some (Some 12, h)"
proof -
  have z: "umm_heap_init b = \<lparr>NBLOCK = 0, PBLOCK = 0, NFREE = 0, PFREE = 0\<rparr>" for b by (simp add: umm_heap_init_def)
  have "umm_blocks 400 = 51" by (simp add: umm_blocks_def sizeof_body_def sizeof_umm_block_def Let_def)
  moreover have "first_fit umm_heap_init 51 0 0 = Some (0, 0)" by (simp add: first_fit.simps [of umm_heap_init 51 0 0] accesses z)
  then have "alloc_block 51 umm_heap_init = do {
      (cf1, h1) \<leftarrow> init_heap 0 umm_heap_init; h2 \<leftarrow> append_block cf1 51 h1; Some (Some cf1, h2) }"
    by (simp add: alloc_block_def accesses z)
  then obtain h where "alloc_block 51 umm_heap_init = Some (Some 1, h)"
    by (simp add: init_heap_def append_block_def accesses z)
  ultimately show thesis using that by (simp add: umm_take_def data_address_def sizeof_umm_block_def)
qed

lemma boot_free: "TaskNumber_search 0 (TaskAlloc boot) = (1, 1)" "PriorityVector boot 5 = EMPTY_PRIO" "TaskAlloc boot = 0" "currentTask boot = 0"
  by code_simp+


text \<open>The task is installed with number 1.\<close>

definition install_first :: "(u8 \<times> u32 option \<times> kernel \<times> stacks) option" where
  "install_first = OSInstallTask_dynamic first_maker (UserTask 0) ''A'' 400 5 (Some 0) boot boot_stacks"

definition boot1 :: kernel where "boot1 = (case install_first of Some (_, _, k, _) \<Rightarrow> k)"
definition stacks1 :: stacks where "stacks1 = (case install_first of Some (_, _, _, s) \<Rightarrow> s)"

lemma fixed: "fix_stack_size 400 = 400" "dinstall_error (UserTask 0) 400 5 boot = None" "(ucast (400 :: u16) :: u32) = 400"
  by code_simp+

lemma installed_first: "install_first = Some (OK, Some 1, boot1, stacks1)"
proof -
  obtain h1 where h1: "umm_take 400 umm_heap_init = Some (Some 12, h1)" by (rule take_stack)
  have en: "EnterCritical_if_task boot = boot" using boot_free(4) by (simp add: EnterCritical_if_task_def)
  have nk: "nestable boot" using boot_ok(2) by (simp add: nestable_def)
  have d: "smem boot_stacks = dyn0" "dyn0\<lparr>dheap := umm_heap_init\<rparr> = dyn0" by (simp_all add: boot_stacks_def dyn0_def)
  obtain k2 where k2: "BRTOS_ALLOC 400 boot dyn0 = Some (Some 12, k2, dyn0\<lparr>dheap := h1\<rparr>)" "undisturbed boot k2"
    by (rule ALLOC_Some [OF h1 nk undisturbed_refl, of dyn0, unfolded d(2)])
  have f: "TaskAlloc k2 = TaskAlloc boot" using undisturbed_frame(1) [OF k2(2)] .
  have "\<exists>k s. install_first = Some (OK, Some 1, k, s)"
    unfolding install_first_def OSInstallTask_dynamic_def Let_def en fixed d(1) option.case k2(1)
    using boot_free(1) PriorityMask_Some [of 5] by (simp add: f task_at_def config)
  then obtain k s where e: "install_first = Some (OK, Some 1, k, s)" by blast
  show ?thesis unfolding boot1_def stacks1_def e by simp
qed

lemma first_at:
  obtains a e where "installed_at boot [] {} {} 400 5 1 a e boot1 stacks1"
proof -
  obtain t a e where t: "Some (1 :: u32) = map_option (\<lambda>_. word_of_nat t) (Some (0 :: u32))" "installed_at boot [] {} {} 400 5 t a e boot1 stacks1"
    using dynamic_install_outcome [OF boot_ok(1,4,2), of 5 first_maker "UserTask 0" "''A''" 400 "Some 0"] installed_first
    by (auto simp: install_first_def fixed)
  have "allocated boot1 t" using t(2) by (simp add: installed_at_def)
  then have "unat (word_of_nat t :: u32) = t" using allocated_bounds [of boot1 t] by (simp add: unat_of_nat_u32)
  then have "t = 1" using t(1) by (metis option.inject option.map(2) unat_1)
  then show thesis using that t(2) by simp
qed

subsection \<open>Witnesses\<close>

lemma OSInstallTask_dynamic_correct_witness:
  "\<exists>t a e. Some (1 :: u32) = map_option (\<lambda>_. word_of_nat t) (Some (0 :: u32)) \<and> installed_at boot [] {} {} 400 5 t a e boot1 stacks1"
proof -
  have "(5 :: u8) = 0 \<longrightarrow> PriorityVector boot 0 = EMPTY_PRIO" by simp
  from OSInstallTask_dynamic_correct [OF boot_ok(1,4,2) this, where cds = first_maker and f = "UserTask 0" and name = "''A''" and bytes = 400 and h = "Some 0", folded install_first_def]
  show ?thesis unfolding installed_first fixed by (elim exE conjE) (simp only: option.inject prod.inject if_True)
qed

lemma OSTask_install_uninstall_witness:
  "\<exists>k2 s2. OSUninstallTask 1 0 boot1 stacks1 = Some (OK, k2, s2) \<and> sys_ok k2 [] \<and> stacks_ok k2 {} {} s2"
  using OSTask_install_uninstall [OF boot_ok(1,4,2) _ installed_first [unfolded install_first_def], of 0] by auto

lemma OSUninstallTask_correct_witness:
  "\<exists>a e k' s'. OSUninstallTask 1 0 boot1 stacks1 = Some (OK, k', s') \<and> uninstalled boot1 [] {(a, e)} {} 1 k' s'"
proof -
  obtain a e where i: "installed_at boot [] {} {} 400 5 1 a e boot1 stacks1" by (rule first_at)
  have sub: "subject 1 boot1 = 1" by (simp add: subject_def)
  have I: "sys_ok boot1 []" "stacks_ok boot1 {(a, e)} {} stacks1" "iNesting boot1 = 0" "allocated boot1 1" "prio_of boot1 1 = 5"
    "5 \<in> prios (OSReadyList boot1)"
    using i boot_ok(2) by (simp_all add: installed_at_def)
  have r: "uninstall_result 0 1 boot1 = OK" using I(5,6) by (simp add: uninstall_result_def)
  have only: "q = prio_of boot1 1" if "q < 32" "vec boot1 q = 1" for q by (rule installed_only [OF boot_ok(1) i that])
  show ?thesis
    using OSUninstallTask_correct [OF I(1-3), of 1 0, unfolded sub r] I(4) only by auto
qed

end
