(* ===== verification/C_Strings.thy ===== *)
theory C_Strings
  imports Prelude
begin

text \<open>
  \<open>string_lib.c\<close>: the string functions of the library, every one of them, on a memory of bytes addressed
  by index. A read or write outside the memory is undefined behaviour. Characters are the bytes C
  compares as \<open>unsigned char\<close>; a \<open>size_t\<close> is a natural number.
\<close>

type_synonym memory = "u8 list"

text \<open>The bytes of a string constant of the source, without the zero at its end.\<close>

definition text_of :: "string \<Rightarrow> u8 list" where
  "text_of s = map of_char s"

definition byte_at :: "memory \<Rightarrow> nat \<Rightarrow> u8 option" where
  "byte_at m p = (if p < length m then Some (m ! p) else None)"

definition set_byte :: "nat \<Rightarrow> u8 \<Rightarrow> memory \<Rightarrow> memory option" where
  "set_byte p c m = (if p < length m then Some (m[p := c]) else None)"

definition char_diff :: "u8 \<Rightarrow> u8 \<Rightarrow> int" where
  "char_diff a b = int (unat a) - int (unat b)"

subsection \<open>Blocks of memory\<close>

fun memchr :: "memory \<Rightarrow> nat \<Rightarrow> u8 \<Rightarrow> nat \<Rightarrow> ptr option" where
  "memchr m s c 0 = Some NULL"
| "memchr m s c (Suc n) = do { x \<leftarrow> byte_at m s; if x = c then Some (Some s) else memchr m (s + 1) c n }"

fun memcmp :: "memory \<Rightarrow> nat \<Rightarrow> nat \<Rightarrow> nat \<Rightarrow> int option" where
  "memcmp m s1 s2 0 = Some 0"
| "memcmp m s1 s2 (Suc n) = do {
     a \<leftarrow> byte_at m s1; b \<leftarrow> byte_at m s2;
     if a \<noteq> b then Some (char_diff a b) else memcmp m (s1 + 1) (s2 + 1) n }"

fun copy_up :: "nat \<Rightarrow> nat \<Rightarrow> nat \<Rightarrow> memory \<Rightarrow> memory option" where
  "copy_up d s 0 m = Some m"
| "copy_up d s (Suc n) m = do { c \<leftarrow> byte_at m s; m1 \<leftarrow> set_byte d c m; copy_up (d + 1) (s + 1) n m1 }"

fun copy_down :: "nat \<Rightarrow> nat \<Rightarrow> nat \<Rightarrow> memory \<Rightarrow> memory option" where
  "copy_down d s 0 m = Some m"
| "copy_down d s (Suc n) m = do { c \<leftarrow> byte_at m (s - 1); m1 \<leftarrow> set_byte (d - 1) c m; copy_down (d - 1) (s - 1) n m1 }"

definition memcpy :: "nat \<Rightarrow> nat \<Rightarrow> nat \<Rightarrow> memory \<Rightarrow> (nat \<times> memory) option" where
  "memcpy s1 s2 n m = map_option (Pair s1) (copy_up s1 s2 n m)"

definition memmove :: "nat \<Rightarrow> nat \<Rightarrow> nat \<Rightarrow> memory \<Rightarrow> (nat \<times> memory) option" where
  "memmove s1 s2 n m = map_option (Pair s1) (if s1 \<le> s2 then copy_up s1 s2 n m else copy_down (s1 + n) (s2 + n) n m)"

fun fill :: "nat \<Rightarrow> u8 \<Rightarrow> nat \<Rightarrow> memory \<Rightarrow> memory option" where
  "fill p c 0 m = Some m"
| "fill p c (Suc n) m = do { m1 \<leftarrow> set_byte p c m; fill (p + 1) c n m1 }"

definition memset :: "nat \<Rightarrow> u8 \<Rightarrow> nat \<Rightarrow> memory \<Rightarrow> (nat \<times> memory) option" where
  "memset s c n m = map_option (Pair s) (fill s c n m)"

subsection \<open>Strings\<close>

text \<open>Loops that run to the terminating zero stop at the end of the memory at the latest.\<close>

function skip_to_nul :: "memory \<Rightarrow> nat \<Rightarrow> nat option" where
  "skip_to_nul m s = (if s < length m then (if m ! s \<noteq> 0 then skip_to_nul m (s + 1) else Some s) else None)"
  by pat_completeness auto
termination by (relation "measure (\<lambda>(m, s). length m - s)") auto

function strlen_loop :: "memory \<Rightarrow> nat \<Rightarrow> nat \<Rightarrow> nat option" where
  "strlen_loop m s rc =
    (if s + rc < length m then (if m ! (s + rc) \<noteq> 0 then strlen_loop m s (rc + 1) else Some rc) else None)"
  by pat_completeness auto
termination by (relation "measure (\<lambda>(m, s, rc). length m - (s + rc))") auto

definition strlen :: "memory \<Rightarrow> nat \<Rightarrow> nat option" where
  "strlen m s = strlen_loop m s 0"

function copy_string :: "nat \<Rightarrow> nat \<Rightarrow> memory \<Rightarrow> memory option" where
  "copy_string s1 s2 m =
    (if s2 < length m \<and> s1 < length m then
       (let c = m ! s2; m1 = m[s1 := c]
        in if c \<noteq> 0 then copy_string (s1 + 1) (s2 + 1) m1 else Some m1)
     else None)"
  by pat_completeness auto
termination by (relation "measure (\<lambda>(s1, s2, m). length m - s2)") auto

definition strcpy :: "nat \<Rightarrow> nat \<Rightarrow> memory \<Rightarrow> (nat \<times> memory) option" where
  "strcpy s1 s2 m = map_option (Pair s1) (copy_string s1 s2 m)"

definition strcat :: "nat \<Rightarrow> nat \<Rightarrow> memory \<Rightarrow> (nat \<times> memory) option" where
  "strcat s1 s2 m = do {
     c \<leftarrow> byte_at m s1;
     e \<leftarrow> (if c \<noteq> 0 then skip_to_nul m (s1 + 1) else Some s1);
     map_option (Pair s1) (copy_string e s2 m) }"

function strcmp :: "memory \<Rightarrow> nat \<Rightarrow> nat \<Rightarrow> int option" where
  "strcmp m s1 s2 =
    (if s1 < length m \<and> s2 < length m then
       (if m ! s1 \<noteq> 0 \<and> m ! s1 = m ! s2 then strcmp m (s1 + 1) (s2 + 1) else Some (char_diff (m ! s1) (m ! s2)))
     else None)"
  by pat_completeness auto
termination by (relation "measure (\<lambda>(m, s1, s2). length m - s1)") auto

fun strncmp :: "memory \<Rightarrow> nat \<Rightarrow> nat \<Rightarrow> nat \<Rightarrow> int option" where
  "strncmp m s1 s2 0 = do { _ \<leftarrow> byte_at m s1; Some 0 }"
| "strncmp m s1 s2 (Suc n) = do {
     a \<leftarrow> byte_at m s1; b \<leftarrow> byte_at m s2;
     if a \<noteq> 0 \<and> a = b then strncmp m (s1 + 1) (s2 + 1) n else Some (char_diff a b) }"

text \<open>The copying loop of \<open>strncat\<close> and \<open>strncpy\<close>: the pointer and the count it leaves.\<close>

fun copy_bounded :: "nat \<Rightarrow> nat \<Rightarrow> nat \<Rightarrow> memory \<Rightarrow> (nat \<times> nat \<times> memory) option" where
  "copy_bounded s1 s2 0 m = Some (s1, 0, m)"
| "copy_bounded s1 s2 (Suc n) m = do {
     c \<leftarrow> byte_at m s2; m1 \<leftarrow> set_byte s1 c m;
     if c \<noteq> 0 then copy_bounded (s1 + 1) (s2 + 1) n m1 else Some (s1 + 1, Suc n, m1) }"

definition strncat :: "nat \<Rightarrow> nat \<Rightarrow> nat \<Rightarrow> memory \<Rightarrow> (nat \<times> memory) option" where
  "strncat s1 s2 n m = do {
     e \<leftarrow> skip_to_nul m s1;
     (e1, n1, m1) \<leftarrow> copy_bounded e s2 n m;
     map_option (Pair s1) (if n1 = 0 then set_byte e1 0 m1 else Some m1) }"

definition strncpy :: "nat \<Rightarrow> nat \<Rightarrow> nat \<Rightarrow> memory \<Rightarrow> (nat \<times> memory) option" where
  "strncpy s1 s2 n m = do {
     (e1, n1, m1) \<leftarrow> copy_bounded s1 s2 n m;
     map_option (Pair s1) (fill e1 0 (n1 - 1) m1) }"

subsection \<open>Searches\<close>

function strchr :: "memory \<Rightarrow> nat \<Rightarrow> u8 \<Rightarrow> ptr option" where
  "strchr m s c =
    (if s < length m then
       (if m ! s = c then Some (Some s) else if m ! s \<noteq> 0 then strchr m (s + 1) c else Some NULL)
     else None)"
  by pat_completeness auto
termination by (relation "measure (\<lambda>(m, s, c). length m - s)") auto

fun strrchr_down :: "memory \<Rightarrow> nat \<Rightarrow> u8 \<Rightarrow> nat \<Rightarrow> ptr option" where
  "strrchr_down m s c 0 = Some NULL"
| "strrchr_down m s c (Suc i) = do { x \<leftarrow> byte_at m (s + i); if x = c then Some (Some (s + i)) else strrchr_down m s c i }"

definition strrchr :: "memory \<Rightarrow> nat \<Rightarrow> u8 \<Rightarrow> ptr option" where
  "strrchr m s c = do { e \<leftarrow> skip_to_nul m s; strrchr_down m s c (e + 1 - s) }"

text \<open>Is a character among those of a string? The inner loop of four searches.\<close>

function among :: "memory \<Rightarrow> u8 \<Rightarrow> nat \<Rightarrow> bool option" where
  "among m c p =
    (if p < length m then
       (if m ! p \<noteq> 0 then (if c = m ! p then Some True else among m c (p + 1)) else Some False)
     else None)"
  by pat_completeness auto
termination by (relation "measure (\<lambda>(m, c, p). length m - p)") auto

function span_loop :: "bool \<Rightarrow> memory \<Rightarrow> nat \<Rightarrow> nat \<Rightarrow> nat \<Rightarrow> nat option" where
  "span_loop stop m s1 s2 len =
    (if s1 + len < length m then
       (if m ! (s1 + len) \<noteq> 0 then
          (case among m (m ! (s1 + len)) s2 of
             None \<Rightarrow> None
           | Some found \<Rightarrow> if found = stop then Some len else span_loop stop m s1 s2 (len + 1))
        else Some len)
     else None)"
  by pat_completeness auto
termination by (relation "measure (\<lambda>(stop, m, s1, s2, len). length m - (s1 + len))") auto

definition strcspn :: "memory \<Rightarrow> nat \<Rightarrow> nat \<Rightarrow> nat option" where
  "strcspn m s1 s2 = span_loop True m s1 s2 0"

definition strspn :: "memory \<Rightarrow> nat \<Rightarrow> nat \<Rightarrow> nat option" where
  "strspn m s1 s2 = span_loop False m s1 s2 0"

function strpbrk :: "memory \<Rightarrow> nat \<Rightarrow> nat \<Rightarrow> ptr option" where
  "strpbrk m s1 s2 =
    (if s1 < length m then
       (if m ! s1 \<noteq> 0 then
          (case among m (m ! s1) s2 of
             None \<Rightarrow> None
           | Some found \<Rightarrow> if found then Some (Some s1) else strpbrk m (s1 + 1) s2)
        else Some NULL)
     else None)"
  by pat_completeness auto
termination by (relation "measure (\<lambda>(m, s1, s2). length m - s1)") auto

function prefix_at :: "memory \<Rightarrow> nat \<Rightarrow> nat \<Rightarrow> bool option" where
  "prefix_at m p1 p2 =
    (if p2 < length m then
       (if m ! p2 = 0 then Some True
        else if p1 < length m then (if m ! p1 = m ! p2 then prefix_at m (p1 + 1) (p2 + 1) else Some False)
        else None)
     else None)"
  by pat_completeness auto
termination by (relation "measure (\<lambda>(m, p1, p2). length m - p2)") auto

function strstr :: "memory \<Rightarrow> nat \<Rightarrow> nat \<Rightarrow> ptr option" where
  "strstr m s1 s2 =
    (if s1 < length m then
       (if m ! s1 \<noteq> 0 then
          (case prefix_at m s1 s2 of
             None \<Rightarrow> None
           | Some found \<Rightarrow> if found then Some (Some s1) else strstr m (s1 + 1) s2)
        else Some NULL)
     else None)"
  by pat_completeness auto
termination by (relation "measure (\<lambda>(m, s1, s2). length m - s1)") auto

subsection \<open>Tokens\<close>

text \<open>Skipping the separators: \<open>p\<close> runs through them and starts again after each that was found.\<close>

function skip_separators :: "memory \<Rightarrow> nat \<Rightarrow> nat \<Rightarrow> nat \<Rightarrow> nat option" where
  "skip_separators m s2 s1 p =
    (if p < length m then
       (if m ! p = 0 then Some s1
        else if s1 < length m then
          (if m ! s1 = 0 then Some s1
           else if m ! s1 = m ! p then skip_separators m s2 (s1 + 1) s2
           else skip_separators m s2 s1 (p + 1))
        else None)
     else None)"
  by pat_completeness auto
termination by (relation "measures [\<lambda>(m, s2, s1, p). length m - s1, \<lambda>(m, s2, s1, p). length m - p]") auto

text \<open>Skipping to the next separator, which is overwritten: the rest of the string and the memory.\<close>

function token_end :: "nat \<Rightarrow> nat \<Rightarrow> memory \<Rightarrow> (ptr \<times> memory) option" where
  "token_end s2 tmp m =
    (if tmp < length m then
       (if m ! tmp \<noteq> 0 then
          (case among m (m ! tmp) s2 of
             None \<Rightarrow> None
           | Some found \<Rightarrow> if found then Some (Some (tmp + 1), m[tmp := 0]) else token_end s2 (tmp + 1) m)
        else Some (NULL, m))
     else None)"
  by pat_completeness auto
termination by (relation "measure (\<lambda>(s2, tmp, m). length m - tmp)") auto

text \<open>\<open>tmp\<close> is the static variable of \<open>strtok\<close>; the result has the token, \<open>tmp\<close> and the memory.\<close>

definition strtok :: "ptr \<Rightarrow> nat \<Rightarrow> ptr \<Rightarrow> memory \<Rightarrow> (ptr \<times> ptr \<times> memory) option" where
  "strtok s1 s2 tmp m =
    (let tmp1 = (if s1 \<noteq> NULL then s1 else tmp)
     in case tmp1 of
          None \<Rightarrow> Some (NULL, NULL, m)
        | Some s \<Rightarrow> do {
            t \<leftarrow> skip_separators m s2 s s2;
            c \<leftarrow> byte_at m t;
            if c = 0 then Some (NULL, NULL, m)
            else do { (tmp2, m1) \<leftarrow> token_end s2 t m; Some (Some t, tmp2, m1) } })"

lemmas [simp del] = skip_to_nul.simps strlen_loop.simps copy_string.simps strcmp.simps strchr.simps among.simps span_loop.simps
  strpbrk.simps prefix_at.simps strstr.simps skip_separators.simps token_end.simps

end
