(* ===== verification/String_Laws.thy ===== *)
theory String_Laws
  imports C_Strings "HOL-Library.List_Lexorder"
begin

text \<open>What the functions of \<open>string_lib.c\<close> return and leave in memory, in terms of the strings they are given.\<close>

subsection \<open>Strings in memory\<close>

text \<open>At address \<open>p\<close> stands the string \<open>s\<close>, without zeros, and a terminating zero.\<close>

fun cstr :: "memory \<Rightarrow> nat \<Rightarrow> u8 list \<Rightarrow> bool" where
  "cstr m p [] \<longleftrightarrow> p < length m \<and> m ! p = 0"
| "cstr m p (c # s) \<longleftrightarrow> p < length m \<and> m ! p = c \<and> c \<noteq> 0 \<and> cstr m (p + 1) s"

lemma cstr_iff:
  "cstr m p s \<longleftrightarrow> p + length s < length m \<and> (\<forall>i < length s. m ! (p + i) = s ! i \<and> s ! i \<noteq> 0) \<and> m ! (p + length s) = 0"
proof (induction s arbitrary: p)
  case (Cons c s)
  have "(\<forall>i < length (c # s). m ! (p + i) = (c # s) ! i \<and> (c # s) ! i \<noteq> 0) \<longleftrightarrow>
    (m ! p = c \<and> c \<noteq> 0) \<and> (\<forall>i < length s. m ! (p + 1 + i) = s ! i \<and> s ! i \<noteq> 0)"
    by (simp only: All_less_Suc2 length_Cons nth_Cons_0 nth_Cons_Suc) simp
  then show ?case using Cons.IH [of "p + 1"] by auto
qed simp

lemma cstr_bound: "cstr m p s \<Longrightarrow> p + length s < length m"
  by (simp add: cstr_iff)

lemma cstr_no_nul: "cstr m p s \<Longrightarrow> 0 \<notin> set s"
  by (auto simp: cstr_iff in_set_conv_nth)

lemma cstr_drop: "cstr m p s \<Longrightarrow> n \<le> length s \<Longrightarrow> cstr m (p + n) (drop n s)"
  by (auto simp: cstr_iff add.assoc)

lemma cstr_unique: "cstr m p s \<Longrightarrow> cstr m p t \<Longrightarrow> s = t"
proof (induction s arbitrary: p t)
  case Nil
  then show ?case by (cases t) auto
next
  case (Cons c s)
  then show ?case by (cases t) auto
qed

lemma cstr_update: "cstr m p s \<Longrightarrow> q < p \<or> p + length s < q \<Longrightarrow> cstr (m[q := c]) p s"
  by (auto simp: cstr_iff)

lemma cstr_cong: "cstr m p s \<Longrightarrow> length m' = length m \<Longrightarrow> (\<And>i. i \<le> length s \<Longrightarrow> m' ! (p + i) = m ! (p + i)) \<Longrightarrow> cstr m' p s"
  by (auto simp: cstr_iff)

subsection \<open>Length, comparison, membership\<close>

lemma skip_to_nul_cstr: "cstr m p s \<Longrightarrow> skip_to_nul m p = Some (p + length s)"
  by (induction s arbitrary: p) (simp_all add: skip_to_nul.simps)

lemma strlen_loop_cstr: "cstr m (p + rc) s \<Longrightarrow> strlen_loop m p rc = Some (rc + length s)"
proof (induction s arbitrary: rc)
  case (Cons c s)
  then show ?case using Cons.IH [of "rc + 1"] by (simp add: strlen_loop.simps [of m p rc])
qed (simp add: strlen_loop.simps)

lemma strlen_cstr: "cstr m p s \<Longrightarrow> strlen m p = Some (length s)"
  using strlen_loop_cstr [of m p 0 s] by (simp add: strlen_def)

lemma char_diff_sgn [simp]: "char_diff a b = 0 \<longleftrightarrow> a = b" "char_diff a b < 0 \<longleftrightarrow> a < b"
  by (simp_all add: char_diff_def word_less_def word_uint_eq_iff)

lemma strcmp_cstr:
  assumes "cstr m p s" "cstr m q t"
  obtains d where "strcmp m p q = Some d" "d = 0 \<longleftrightarrow> s = t" "d < 0 \<longleftrightarrow> s < t"
  using assms
proof (induction s arbitrary: p q t thesis)
  case Nil
  then show ?case
    by (cases t) (auto simp: strcmp.simps [of m p q] char_diff_sgn word_greater_zero_iff)
next
  case (Cons a s)
  show ?case
  proof (cases t)
    case t: Nil
    then have "strcmp m p q = Some (char_diff a 0)" using Cons.prems by (simp add: strcmp.simps [of m p q])
    then show ?thesis by (rule Cons.prems(1)) (use t Cons.prems(2) in simp_all)
  next
    case t: (Cons b t')
    show ?thesis
    proof (cases "a = b")
      case True
      obtain d where d: "strcmp m (p + 1) (q + 1) = Some d" "d = 0 \<longleftrightarrow> s = t'" "d < 0 \<longleftrightarrow> s < t'"
        by (rule Cons.IH [of "p + 1" "q + 1" t']) (use Cons.prems(2,3) t in simp_all)
      have "strcmp m p q = Some d" using Cons.prems(2,3) t True d(1) by (simp add: strcmp.simps [of m p q])
      then show ?thesis by (rule Cons.prems(1)) (use d t True in simp_all)
    next
      case False
      have "strcmp m p q = Some (char_diff a b)" using Cons.prems(2,3) t False by (simp add: strcmp.simps [of m p q])
      then show ?thesis by (rule Cons.prems(1)) (use t False in \<open>auto simp: char_diff_sgn\<close>)
    qed
  qed
qed

lemma among_cstr: "cstr m p s \<Longrightarrow> among m c p = Some (c \<in> set s)"
  by (induction s arbitrary: p) (simp_all add: among.simps)

lemma span_loop_cstr:
  assumes "cstr m (p + n) s" "cstr m q t"
  shows "span_loop stop m p q n = Some (n + length (takeWhile (\<lambda>c. (c \<in> set t) \<noteq> stop) s))"
  using assms(1)
proof (induction s arbitrary: n)
  case (Cons c s)
  then show ?case using Cons.IH [of "n + 1"] by (simp add: span_loop.simps [of stop m p q n] among_cstr [OF assms(2)])
qed (simp add: span_loop.simps)

lemma strcspn_cstr: "cstr m p s \<Longrightarrow> cstr m q t \<Longrightarrow> strcspn m p q = Some (length (takeWhile (\<lambda>c. c \<notin> set t) s))"
  using span_loop_cstr [of m p 0 s q t True] by (simp add: strcspn_def)

lemma strspn_cstr: "cstr m p s \<Longrightarrow> cstr m q t \<Longrightarrow> strspn m p q = Some (length (takeWhile (\<lambda>c. c \<in> set t) s))"
  using span_loop_cstr [of m p 0 s q t False] by (simp add: strspn_def)


subsection \<open>Moving blocks\<close>

text \<open>The memory after \<open>n\<close> bytes from \<open>s\<close> have been copied to \<open>d\<close>.\<close>

definition moved :: "nat \<Rightarrow> nat \<Rightarrow> nat \<Rightarrow> memory \<Rightarrow> memory" where
  "moved d s n m = map (\<lambda>i. if d \<le> i \<and> i < d + n then m ! (s + (i - d)) else m ! i) [0..<length m]"

lemma moved_nth [simp]: "length (moved d s n m) = length m"
    "i < length m \<Longrightarrow> moved d s n m ! i = (if d \<le> i \<and> i < d + n then m ! (s + (i - d)) else m ! i)"
  by (simp_all add: moved_def)

lemma copy_up_moves:
  assumes "d \<le> s \<or> s + n \<le> d" "d + n \<le> length m" "s + n \<le> length m"
  shows "copy_up d s n m = Some (moved d s n m)"
  using assms
proof (induction n arbitrary: d s m)
  case 0
  show ?case by (auto intro!: nth_equalityI simp: moved_def)
next
  case (Suc n)
  have "copy_up d s (Suc n) m = copy_up (d + 1) (s + 1) n (m[d := m ! s])"
    using Suc.prems by (simp add: byte_at_def set_byte_def)
  also have "\<dots> = Some (moved (d + 1) (s + 1) n (m[d := m ! s]))" by (rule Suc.IH) (use Suc.prems in auto)
  also have "moved (d + 1) (s + 1) n (m[d := m ! s]) = moved d s (Suc n) m"
    using Suc.prems by (intro nth_equalityI) (auto simp: nth_list_update Suc_diff_Suc less_Suc_eq_le)
  finally show ?case .
qed

lemma copy_down_moves:
  assumes "s \<le> d" "d + n \<le> length m"
  shows "copy_down (d + n) (s + n) n m = Some (moved d s n m)"
  using assms
proof (induction n arbitrary: m)
  case 0
  show ?case by (auto intro!: nth_equalityI simp: moved_def)
next
  case (Suc n)
  have "copy_down (d + Suc n) (s + Suc n) (Suc n) m = copy_down (d + n) (s + n) n (m[d + n := m ! (s + n)])"
    using Suc.prems by (simp add: byte_at_def set_byte_def)
  also have "\<dots> = Some (moved d s n (m[d + n := m ! (s + n)]))" by (rule Suc.IH) (use Suc.prems in auto)
  also have "moved d s n (m[d + n := m ! (s + n)]) = moved d s (Suc n) m"
    using Suc.prems by (intro nth_equalityI) (auto simp: nth_list_update less_Suc_eq)
  finally show ?case .
qed

lemma memcpy_moves:
  "d \<le> s \<or> s + n \<le> d \<Longrightarrow> d + n \<le> length m \<Longrightarrow> s + n \<le> length m \<Longrightarrow> memcpy d s n m = Some (d, moved d s n m)"
  by (simp add: memcpy_def copy_up_moves)

lemma memmove_moves: "d + n \<le> length m \<Longrightarrow> s + n \<le> length m \<Longrightarrow> memmove d s n m = Some (d, moved d s n m)"
  using copy_down_moves [of s d n m] by (simp add: memmove_def copy_up_moves)

lemma fill_bytes: "p + n \<le> length m \<Longrightarrow> fill p c n m = Some (map (\<lambda>i. if p \<le> i \<and> i < p + n then c else m ! i) [0..<length m])"
proof (induction n arbitrary: p m)
  case 0
  show ?case by (auto intro!: nth_equalityI)
next
  case (Suc n)
  have "fill p c (Suc n) m = fill (p + 1) c n (m[p := c])" using Suc.prems by (simp add: set_byte_def)
  also have "\<dots> = Some (map (\<lambda>i. if p + 1 \<le> i \<and> i < p + 1 + n then c else m[p := c] ! i) [0..<length (m[p := c])])"
    by (rule Suc.IH) (use Suc.prems in simp)
  also have "\<dots> = Some (map (\<lambda>i. if p \<le> i \<and> i < p + Suc n then c else m ! i) [0..<length m])"
    using Suc.prems by (auto simp: nth_list_update)
  finally show ?case .
qed

text \<open>Copying a string is copying its bytes and the zero.\<close>

lemma copy_string_moves:
  assumes "cstr m s t" "d \<le> s \<or> s + length t < d" "d + length t < length m"
  shows "copy_string d s m = Some (moved d s (length t + 1) m)"
  using assms
proof (induction t arbitrary: d s m)
  case Nil
  then have "copy_string d s m = Some (m[d := 0])" by (auto simp: copy_string.simps [of d s m])
  also have "m[d := 0] = moved d s 1 m" using Nil by (intro nth_equalityI) (auto simp: nth_list_update)
  finally show ?case by simp
next
  case (Cons c t)
  have "copy_string d s m = copy_string (d + 1) (s + 1) (m[d := m ! s])"
    using Cons.prems by (simp add: copy_string.simps [of d s m])
  also have "\<dots> = Some (moved (d + 1) (s + 1) (length t + 1) (m[d := m ! s]))"
    by (rule Cons.IH) (use Cons.prems cstr_update [of m "s + 1" t d] in auto)
  also have "moved (d + 1) (s + 1) (length t + 1) (m[d := m ! s]) = moved d s (length (c # t) + 1) m"
    using Cons.prems by (intro nth_equalityI) (auto simp: nth_list_update Suc_diff_Suc less_Suc_eq_le)
  finally show ?case .
qed

lemma moved_cstr: "cstr m s t \<Longrightarrow> d + length t < length m \<Longrightarrow> cstr (moved d s (length t + 1) m) d t"
  by (auto simp: cstr_iff)

lemma strcpy_copies:
  assumes "cstr m s t" "d \<le> s \<or> s + length t < d" "d + length t < length m"
  shows "strcpy d s m = Some (d, moved d s (length t + 1) m) \<and> cstr (moved d s (length t + 1) m) d t"
  using copy_string_moves [OF assms] moved_cstr [OF assms(1,3)] by (simp add: strcpy_def)


subsection \<open>Searches\<close>

text \<open>The first character that satisfies a predicate, as a pointer.\<close>

definition first_at :: "(u8 \<Rightarrow> bool) \<Rightarrow> nat \<Rightarrow> u8 list \<Rightarrow> ptr" where
  "first_at P p s = (if \<exists>c \<in> set s. P c then Some (p + length (takeWhile (\<lambda>c. \<not> P c) s)) else NULL)"

lemma first_at_simps:
  "first_at P p [] = NULL" "first_at P p (c # s) = (if P c then Some p else first_at P (p + 1) s)"
  by (simp_all add: first_at_def)

lemma strpbrk_cstr: "cstr m p s \<Longrightarrow> cstr m q t \<Longrightarrow> strpbrk m p q = Some (first_at (\<lambda>c. c \<in> set t) p s)"
  by (induction s arbitrary: p) (simp_all add: strpbrk.simps first_at_simps among_cstr)

lemma strchr_cstr: "cstr m p s \<Longrightarrow> c \<noteq> 0 \<Longrightarrow> strchr m p c = Some (first_at (\<lambda>x. x = c) p s)"
  by (induction s arbitrary: p) (simp_all add: strchr.simps first_at_simps)

lemma strchr_end: "cstr m p s \<Longrightarrow> strchr m p 0 = Some (Some (p + length s))"
  by (induction s arbitrary: p) (simp_all add: strchr.simps)

lemma prefix_at_cstr:
  assumes "cstr m p s" "cstr m q t"
  shows "prefix_at m p q = Some (take (length t) s = t)"
  using assms
proof (induction t arbitrary: p q s)
  case Nil
  then show ?case by (simp add: prefix_at.simps)
next
  case (Cons c t)
  show ?case
  proof (cases s)
    case s: (Cons a s')
    then show ?thesis using Cons.prems Cons.IH [of "p + 1" s' "q + 1"] by (simp add: prefix_at.simps [of m p q])
  qed (use Cons.prems in \<open>simp add: prefix_at.simps [of m p q]\<close>)
qed

text \<open>\<open>strstr\<close> finds the first occurrence; in an empty string it finds none, not even of the empty string.\<close>

lemma strstr_cstr:
  assumes "cstr m p s" "cstr m q t"
  shows "strstr m p q = Some (if \<exists>i < length s. take (length t) (drop i s) = t
    then Some (p + (LEAST i. take (length t) (drop i s) = t)) else NULL)"
  using assms(1)
proof (induction s arbitrary: p)
  case Nil
  then show ?case by (simp add: strstr.simps)
next
  case (Cons c s)
  let ?P = "\<lambda>i. take (length t) (drop i (c # s)) = t"
  have unfold: "strstr m p q = (if ?P 0 then Some (Some p) else strstr m (p + 1) q)"
    using Cons.prems prefix_at_cstr [OF Cons.prems assms(2)] by (simp add: strstr.simps [of m p q])
  show ?case
  proof (cases "?P 0")
    case True
    have "(LEAST i. ?P i) = 0" by (rule Least_equality [of ?P 0, OF True]) simp
    moreover have "\<exists>i < length (c # s). ?P i" using True by (intro exI [of _ 0]) simp
    ultimately show ?thesis unfolding unfold if_P [OF True] by simp
  next
    case False
    have all: "(\<exists>i < length (c # s). ?P i) \<longleftrightarrow> ?P 0 \<or> (\<exists>i < length s. ?P (Suc i))"
      by (simp only: length_Cons Ex_less_Suc2)
    show ?thesis
    proof (cases "\<exists>i < length s. ?P (Suc i)")
      case t: True
      then obtain i where i: "?P (Suc i)" by blast
      have "(LEAST i. ?P i) = Suc (LEAST i. ?P (Suc i))" by (rule Least_Suc [of ?P "Suc i", OF i False])
      then show ?thesis using t all Cons.IH [of "p + 1"] Cons.prems unfolding unfold if_not_P [OF False] by simp
    next
      case f: False
      then have n: "\<not> (\<exists>i < length s. take (length t) (drop i s) = t)" "\<not> (\<exists>i < length (c # s). ?P i)"
        using False unfolding all by simp_all
      have "strstr m (p + 1) q = Some NULL" using Cons.IH [of "p + 1", unfolded if_not_P [OF n(1)]] Cons.prems by simp
      then show ?thesis unfolding unfold if_not_P [OF False] if_not_P [OF n(2)] .
    qed
  qed
qed


subsection \<open>Tokens\<close>

lemma skip_separators_cstr:
  assumes "cstr m q seps" "cstr m p s"
  shows "skip_separators m q p q = Some (p + length (takeWhile (\<lambda>c. c \<in> set seps) s))"
  using assms(2)
proof (induction s arbitrary: p)
  case Nil
  have stop: "skip_separators m q p r = Some p" if "cstr m r t" for r t
    using that Nil by (cases t) (auto simp: skip_separators.simps [of m q p r])
  show ?case using stop [OF assms(1)] by simp
next
  case (Cons c s)
  have run: "skip_separators m q p r = (if c \<in> set t then skip_separators m q (p + 1) q else Some p)" if "cstr m r t" for r t
    using that
  proof (induction t arbitrary: r)
    case (Cons a t)
    then show ?case using \<open>cstr m p (c # s)\<close> by (auto simp: skip_separators.simps [of m q p r])
  qed (simp add: skip_separators.simps [of m q p])
  show ?case using run [OF assms(1)] Cons by simp
qed

text \<open>The end of a token: the memory is changed in the separator found, if there is one.\<close>

lemma token_end_cstr:
  assumes "cstr m q seps" "cstr m p s"
  defines "n \<equiv> length (takeWhile (\<lambda>c. c \<notin> set seps) s)"
  shows "token_end q p m = Some (if n = length s then (NULL, m) else (Some (p + n + 1), m[p + n := 0]))"
  using assms(2) unfolding n_def
  by (induction s arbitrary: p) (simp_all add: token_end.simps [of q] among_cstr [OF assms(1)])

text \<open>One call on the string \<open>s\<close> at \<open>p\<close>, the separators lying elsewhere.\<close>

definition rest_after :: "u8 list \<Rightarrow> u8 list \<Rightarrow> u8 list" where
  "rest_after seps s = drop 1 (dropWhile (\<lambda>c. c \<notin> set seps) (dropWhile (\<lambda>c. c \<in> set seps) s))"

definition word_of :: "u8 list \<Rightarrow> u8 list \<Rightarrow> u8 list" where
  "word_of seps s = takeWhile (\<lambda>c. c \<notin> set seps) (dropWhile (\<lambda>c. c \<in> set seps) s)"

lemma strtok_token:
  assumes q: "cstr m q seps" and p: "cstr m p s" and apart: "q + length seps < p \<or> p + length s < q"
    and tmp: "(if s1 \<noteq> NULL then s1 else tmp) = Some p"
  obtains (none) "strtok s1 q tmp m = Some (NULL, NULL, m)" "set s \<subseteq> set seps"
  | (token) t tmp' m' where "strtok s1 q tmp m = Some (Some t, tmp', m')" "\<not> set s \<subseteq> set seps" "p \<le> t" "t + length (word_of seps s) \<le> p + length s"
      "cstr m' t (word_of seps s)" "length m' = length m" "\<And>i. i < t \<or> t + length (word_of seps s) < i \<Longrightarrow> m' ! i = m ! i"
      "case tmp' of None \<Rightarrow> rest_after seps s = [] | Some r \<Rightarrow> t + length (word_of seps s) < r \<and> r + length (rest_after seps s) = p + length s \<and> cstr m' r (rest_after seps s)"
      "cstr m' q seps"
proof -
  define k where "k = length (takeWhile (\<lambda>c. c \<in> set seps) s)"
  define s' where "s' = dropWhile (\<lambda>c. c \<in> set seps) s"
  have ks: "s' = drop k s" "k + length s' = length s" "k \<le> length s"
    using arg_cong [OF takeWhile_dropWhile_id [of "\<lambda>c. c \<in> set seps" s], of length]
    by (simp_all add: s'_def k_def dropWhile_eq_drop length_takeWhile_le)
  have c': "cstr m (p + k) s'" unfolding ks(1) by (rule cstr_drop [OF p ks(3)])
  have head: "strtok s1 q tmp m = do {
      c \<leftarrow> byte_at m (p + k);
      if c = 0 then Some (NULL, NULL, m) else do { (tmp2, m1) \<leftarrow> token_end q (p + k) m; Some (Some (p + k), tmp2, m1) } }"
    unfolding strtok_def Let_def tmp by (simp add: skip_separators_cstr [OF q p, folded k_def])
  show thesis
  proof (cases s')
    case Nil
    then have "strtok s1 q tmp m = Some (NULL, NULL, m)" using head c' by (simp add: byte_at_def)
    moreover have "set s \<subseteq> set seps" using Nil by (auto simp: s'_def dropWhile_eq_Nil_conv)
    ultimately show thesis by (rule none)
  next
    case (Cons c w)
    define n where "n = length (takeWhile (\<lambda>c. c \<notin> set seps) s')"
    define m' where "m' = (if n = length s' then m else m[p + k + n := 0])"
    have "word_of seps s = take n s'" unfolding word_of_def n_def s'_def by (rule takeWhile_eq_take)
    moreover have "length (word_of seps s) = n" "n \<le> length s'"
      by (simp_all only: word_of_def n_def s'_def [symmetric] length_takeWhile_le)
    moreover have "rest_after seps s = drop (n + 1) s'"
      unfolding rest_after_def s'_def [symmetric] dropWhile_eq_drop [of _ s'] n_def [symmetric] by simp
    ultimately have w: "word_of seps s = take n s'" "length (word_of seps s) = n" "n \<le> length s'" "rest_after seps s = drop (n + 1) s'"
      by blast+
    have nz: "m ! (p + k) \<noteq> 0" "p + k < length m" using c' Cons by auto
    have run: "strtok s1 q tmp m = Some (Some (p + k), if n = length s' then NULL else Some (p + k + n + 1), m')"
      unfolding head using nz token_end_cstr [OF q c', folded n_def] by (simp add: byte_at_def m'_def)
    have lm: "length m' = length m" by (simp add: m'_def)
    have "c \<notin> set seps" using Cons hd_dropWhile [of "\<lambda>c. c \<in> set seps" s] by (auto simp: s'_def)
    moreover have "c \<in> set s" using Cons set_dropWhileD [of c "\<lambda>c. c \<in> set seps" s] by (simp add: s'_def)
    ultimately have ns: "\<not> set s \<subseteq> set seps" by blast
    note I = c' [unfolded cstr_iff]
    have tok: "cstr m' (p + k) (word_of seps s)"
      using I w(3) unfolding w(1) cstr_iff by (auto simp: m'_def nth_list_update)
    have sep: "cstr m' q seps" using apart ks(2) w(3) cstr_update [OF q, of "p + k + n"] q by (auto simp: m'_def)
    have rest: "case (if n = length s' then NULL else Some (p + k + n + 1)) of None \<Rightarrow> rest_after seps s = []
        | Some r \<Rightarrow> p + k + length (word_of seps s) < r \<and> r + length (rest_after seps s) = p + length s \<and> cstr m' r (rest_after seps s)"
    proof (cases "n = length s'")
      case False
      then have "cstr m (p + k + (n + 1)) (drop (n + 1) s')" using cstr_drop [OF c', of "n + 1"] w(3) by simp
      then have "cstr m' (p + k + n + 1) (drop (n + 1) s')" using cstr_update [of m "p + k + (n + 1)" "drop (n + 1) s'" "p + k + n"] False by (simp add: m'_def)
      then show ?thesis using False w(2-4) ks(2) by simp
    qed (simp add: w(4))
    show thesis
      by (rule token [OF run ns _ _ tok lm _ rest sep]) (use w(2,3) ks(2) in \<open>auto simp: m'_def\<close>)
  qed
qed

end
