(* ===== verification/Terminal.thy ===== *)
theory Terminal
  imports String_Laws
begin

text \<open>
  \<open>terminal.c\<close>: the command line of the serial console. Characters are collected in \<open>term_in\<close>, echoed, and at
  the end of a line split into words; the first word selects a command by binary search in the table
  of \<open>terminal_cfg.h\<close> or in the list of commands added at run time. The commands are
  a parameter. Indices are C \<open>int\<close>s; an access outside an array is undefined behaviour.
\<close>

definition TERM_INPUT_BUFSIZE :: nat where "TERM_INPUT_BUFSIZE = 32"
definition UP_KEY_CHAR :: u8 where "UP_KEY_CHAR = 224"
definition CHARS_TO_DISCARD :: u8 where "CHARS_TO_DISCARD = 1"
definition TERM_ARGS_MAX_COUNT :: nat where "TERM_ARGS_MAX_COUNT = 6"

definition command_names :: "u8 list list" where
  "command_names = [text_of ''help'', text_of ''runst'', text_of ''top'', text_of ''ver'']"

record dcmd =
  cmd_name :: "u8 list"
  cmd_description :: "u8 list"
  next_cmd :: ptr

record terminal =
  input_hook :: bool
  heard :: "u8 list"
  printed :: "u8 list"
  term_in_idx :: int
  term_tmp_idx :: int
  discard_char :: u8
  cpi :: int
  term_in :: memory
  last_term_in :: memory
  strtok_tmp :: ptr
  cmd_head :: ptr
  dcmds :: "nat \<Rightarrow> dcmd"

definition array_get :: "memory \<Rightarrow> int \<Rightarrow> u8 option" where
  "array_get xs i = (if 0 \<le> i \<and> i < int (length xs) then Some (xs ! nat i) else None)"

definition array_set :: "int \<Rightarrow> u8 \<Rightarrow> memory \<Rightarrow> memory option" where
  "array_set i c xs = (if 0 \<le> i \<and> i < int (length xs) then Some (xs[nat i := c]) else None)"

definition put_char :: "u8 \<Rightarrow> terminal \<Rightarrow> terminal" where
  "put_char c s = s\<lparr>printed := printed s @ [c]\<rparr>"

definition terminal_init :: "terminal \<Rightarrow> terminal" where
  "terminal_init s = put_char 62 (put_char 62 (put_char 13 (put_char 10 s)))"

definition terminal_set_input :: "bool \<Rightarrow> terminal \<Rightarrow> terminal" where
  "terminal_set_input hook s = s\<lparr>input_hook := hook\<rparr>"

subsection \<open>A character arrives\<close>

text \<open>
  The first part of \<open>terminal_input\<close>: hook, echo, the two-character code of the up key, and the count of the
  characters on the line. The result is the character to go on with, or nothing when the function
  returns 0 at once.
\<close>

definition term_echo :: "u8 \<Rightarrow> terminal \<Rightarrow> u8 option \<times> terminal" where
  "term_echo c s0 =
    (let s = (if input_hook s0 then s0\<lparr>heard := heard s0 @ [c]\<rparr> else s0);
         count = (\<lambda>c s. if c \<noteq> 13 then (if term_tmp_idx s \<ge> 0 then s\<lparr>term_tmp_idx := term_tmp_idx s + 1\<rparr> else s\<lparr>term_tmp_idx := 1\<rparr>)
                         else s\<lparr>term_tmp_idx := 0\<rparr>)
     in if c \<noteq> 0x7F then
          (if c \<noteq> UP_KEY_CHAR then
             (if discard_char s = 0 then (Some c, count c (put_char c s))
              else
                (let s1 = s\<lparr>discard_char := discard_char s - 1\<rparr>
                 in if discard_char s1 = 0 then (Some UP_KEY_CHAR, count UP_KEY_CHAR s1) else (None, s1)))
           else (None, s\<lparr>discard_char := CHARS_TO_DISCARD\<rparr>))
        else
          (let s1 = s\<lparr>term_tmp_idx := term_tmp_idx s - 1\<rparr>
           in (Some c, if term_tmp_idx s1 \<ge> 0 then put_char c s1 else s1)))"

text \<open>The up key: the line on the screen is erased and the last line shown and copied.\<close>

definition erase_line :: "terminal \<Rightarrow> terminal option" where
  "erase_line s = (if term_in_idx s < 0 then None
     else Some (s\<lparr>printed := printed s @ replicate (nat (term_in_idx s)) 0x7F, term_in_idx := 0\<rparr>))"

function show_last :: "terminal \<Rightarrow> terminal option" where
  "show_last s =
    (if term_in_idx s \<le> cpi s then
       (case array_get (last_term_in s) (term_in_idx s) of
          None \<Rightarrow> None
        | Some c \<Rightarrow> show_last ((put_char c s)\<lparr>term_in_idx := term_in_idx s + 1\<rparr>))
     else Some s)"
  by pat_completeness auto
termination by (relation "measure (\<lambda>s. nat (cpi s + 1 - term_in_idx s))") (auto simp: put_char_def)

function copy_last :: "terminal \<Rightarrow> terminal option" where
  "copy_last s =
    (if term_in_idx s \<le> cpi s then
       (case array_get (last_term_in s) (term_in_idx s) of
          None \<Rightarrow> None
        | Some c \<Rightarrow>
            (case array_set (term_in_idx s) c (term_in s) of
               None \<Rightarrow> None
             | Some b \<Rightarrow> copy_last (s\<lparr>term_in := b, term_in_idx := term_in_idx s + 1, term_tmp_idx := term_tmp_idx s + 1\<rparr>)))
     else Some s)"
  by pat_completeness auto
termination by (relation "measure (\<lambda>s. nat (cpi s + 1 - term_in_idx s))") auto

declare show_last.simps [simp del] copy_last.simps [simp del]

definition recall_last :: "terminal \<Rightarrow> terminal option" where
  "recall_last s = do {
     s1 \<leftarrow> erase_line s;
     c \<leftarrow> array_get (last_term_in s1) 0;
     if c \<noteq> 0 then do {
       s2 \<leftarrow> show_last s1;
       s3 \<leftarrow> copy_last (s2\<lparr>term_in_idx := 0, term_tmp_idx := 0\<rparr>);
       b \<leftarrow> array_set (term_in_idx s3) 0 (term_in s3);
       Some (s3\<lparr>term_tmp_idx := term_tmp_idx s3 - 1, term_in := b, term_in_idx := term_in_idx s3 - 1\<rparr>) }
     else Some s1 }"

definition term_line :: "u8 \<Rightarrow> terminal \<Rightarrow> (bool \<times> terminal) option" where
  "term_line c s =
    (if term_tmp_idx s \<ge> 0 then
       (if (c = 8 \<or> c = 0x7F) \<and> term_in_idx s > 0 then do {
          b \<leftarrow> array_set (term_in_idx s) 0 (term_in s);
          Some (False, s\<lparr>term_in := b, term_in_idx := term_in_idx s - 1\<rparr>) }
        else if c = UP_KEY_CHAR then map_option (Pair False) (recall_last s)
        else do {
          b \<leftarrow> array_set (term_in_idx s) c (term_in s);
          let s1 = s\<lparr>term_in := b, term_in_idx := term_in_idx s + 1\<rparr>;
          if c = 10 \<or> c = 13 \<or> term_in_idx s1 = int TERM_INPUT_BUFSIZE - 1 then do {
            b1 \<leftarrow> array_set (term_in_idx s1 - 1) 0 (term_in s1);
            Some (True, s1\<lparr>term_in := b1\<rparr>) }
          else Some (False, s1) })
     else Some (False, s))"

definition terminal_input :: "u8 \<Rightarrow> terminal \<Rightarrow> (bool \<times> terminal) option" where
  "terminal_input c s =
    (case term_echo c s of
       (None, s1) \<Rightarrow> Some (False, s1)
     | (Some c1, s1) \<Rightarrow> term_line c1 s1)"

subsection \<open>Library calls\<close>

text \<open>
  A library function is called on strings of different objects; they are laid out one behind the other.
  The string in the buffer must end inside the buffer.
\<close>

definition strcmp_const :: "u8 list \<Rightarrow> memory \<Rightarrow> nat \<Rightarrow> int option" where
  "strcmp_const name m p = do { _ \<leftarrow> strlen m p; strcmp (m @ name @ [0]) (length m) p }"

definition term_delimiters :: "u8 list" where "term_delimiters = [32, 9, 13, 10]"

definition strtok_line :: "ptr \<Rightarrow> ptr \<Rightarrow> memory \<Rightarrow> (ptr \<times> ptr \<times> memory) option" where
  "strtok_line s1 tmp m = do {
     _ \<leftarrow> (case (if s1 \<noteq> NULL then s1 else tmp) of None \<Rightarrow> Some 0 | Some p \<Rightarrow> strlen m p);
     (t, tmp1, m1) \<leftarrow> strtok s1 (length m) tmp (m @ term_delimiters @ [0]);
     Some (t, tmp1, take (length m) m1) }"

subsection \<open>The search for a command\<close>

text \<open>\<open>int8_t\<close> bounds: a value is narrowed when it is stored.\<close>

definition int8 :: "int \<Rightarrow> int" where
  "int8 i = signed_take_bit 7 i"

partial_function (option) search_table :: "u8 list list \<Rightarrow> memory \<Rightarrow> nat \<Rightarrow> int \<Rightarrow> int \<Rightarrow> int option option" where
  "search_table names m p infer super =
    (if infer \<le> super then
       (let meio = int8 ((infer + super) div 2)
        in if 0 \<le> meio \<and> meio < int (length names) then
             (case strcmp_const (names ! nat meio) m p of
                None \<Rightarrow> None
              | Some d \<Rightarrow>
                  if d < 0 then search_table names m p (int8 (meio + 1)) super
                  else if d > 0 then search_table names m p infer (int8 (meio - 1))
                  else Some (Some meio))
           else None)
     else Some None)"

partial_function (option) search_dynamic :: "(nat \<Rightarrow> dcmd) \<Rightarrow> memory \<Rightarrow> nat \<Rightarrow> ptr \<Rightarrow> u8 \<Rightarrow> u8 option" where
  "search_dynamic tab m p cmd_p idx =
    (case cmd_p of
       None \<Rightarrow> Some 0
     | Some a \<Rightarrow>
         (case strcmp_const (cmd_name (tab a)) m p of
            None \<Rightarrow> None
          | Some d \<Rightarrow> if d = 0 then Some idx else search_dynamic tab m p (next_cmd (tab a)) (idx + 1)))"

definition search_cmd :: "u8 list list \<Rightarrow> nat \<Rightarrow> terminal \<Rightarrow> u8 option" where
  "search_cmd names p s = do {
     found \<leftarrow> search_table names (term_in s) p 0 (int8 (int (length names) - 1));
     case found of
       Some meio \<Rightarrow> Some (word_of_int meio)
     | None \<Rightarrow> search_dynamic (dcmds s) (term_in s) p (cmd_head s) (word_of_nat (length names)) }"

subsection \<open>A line is complete\<close>

fun collect_args :: "nat \<Rightarrow> ptr \<Rightarrow> nat list \<Rightarrow> ptr \<Rightarrow> memory \<Rightarrow> (nat list \<times> ptr \<times> memory) option" where
  "collect_args room None argv tmp m = Some (argv, tmp, m)"
| "collect_args 0 (Some arg) argv tmp m = None"
| "collect_args (Suc room) (Some arg) argv tmp m = do {
     (arg1, tmp1, m1) \<leftarrow> strtok_line NULL tmp m;
     collect_args room arg1 (argv @ [arg]) tmp1 m1 }"

function skip_blanks :: "memory \<Rightarrow> nat \<Rightarrow> nat option" where
  "skip_blanks m i = (if i < length m then (if m ! i = 32 \<or> m ! i = 9 then skip_blanks m (i + 1) else Some i) else None)"
  by pat_completeness auto
termination by (relation "measure (\<lambda>(m, i). length m - i)") auto

function keep_line :: "terminal \<Rightarrow> terminal option" where
  "keep_line s =
    (case array_get (term_in s) (cpi s) of
       None \<Rightarrow> None
     | Some a \<Rightarrow>
         (case (if a \<noteq> 0 then Some a else array_get (term_in s) (cpi s + 1)) of
            None \<Rightarrow> None
          | Some b \<Rightarrow>
              if a \<noteq> 0 \<or> b \<noteq> 0 then
                (case array_set (cpi s) (if a = 0 then 0x20 else a) (last_term_in s) of
                   None \<Rightarrow> None
                 | Some l \<Rightarrow> keep_line (s\<lparr>last_term_in := l, cpi := cpi s + 1\<rparr>))
              else map_option (\<lambda>l. s\<lparr>last_term_in := l\<rparr>) (array_set (cpi s) 0 (last_term_in s))))"
  by pat_completeness auto
termination
  by (relation "measure (\<lambda>s. nat (int (length (term_in s)) - cpi s))") (auto simp: array_get_def split: if_splits)

declare skip_blanks.simps [simp del] keep_line.simps [simp del]

text \<open>
  The command functions are a parameter: those of the table by their index, those added at run time by their
  handler. They get the words as addresses in \<open>term_in\<close>.
\<close>

datatype command_ref = Static nat | Dynamic nat

type_synonym command = "command_ref \<Rightarrow> nat list \<Rightarrow> terminal \<Rightarrow> terminal"

fun walk_commands :: "(nat \<Rightarrow> dcmd) \<Rightarrow> ptr \<Rightarrow> nat \<Rightarrow> ptr option" where
  "walk_commands tab cmd_p 0 = Some cmd_p"
| "walk_commands tab None (Suc idx) = None"
| "walk_commands tab (Some a) (Suc idx) = walk_commands tab (next_cmd (tab a)) idx"

definition select_command :: "nat \<Rightarrow> u8 \<Rightarrow> terminal \<Rightarrow> command_ref option" where
  "select_command number_of_commands c s =
    (if unat c < number_of_commands then Some (Static (unat c))
     else do {
       cmd_p \<leftarrow> walk_commands (dcmds s) (cmd_head s) (unat c - number_of_commands);
       map_option Dynamic cmd_p })"

definition terminal_process :: "u8 list list \<Rightarrow> command \<Rightarrow> terminal \<Rightarrow> terminal option" where
  "terminal_process names cmd_func s = do {
     start \<leftarrow> skip_blanks (term_in s) 0;
     (arg, tmp, m) \<leftarrow> strtok_line (Some start) (strtok_tmp s) (term_in s);
     (argv, tmp1, m1) \<leftarrow> collect_args TERM_ARGS_MAX_COUNT arg [] tmp m;
     let s1 = s\<lparr>term_in := m1, strtok_tmp := tmp1\<rparr>;
     s5 \<leftarrow> (case argv of
              [] \<Rightarrow> Some s1
            | first # _ \<Rightarrow> do {
                c \<leftarrow> search_cmd names first s1;
                let s2 = put_char 10 (put_char 13 s1);
                r \<leftarrow> select_command (length names) c s2;
                let s3 = cmd_func r argv s2;
                s4 \<leftarrow> keep_line (s3\<lparr>cpi := 0\<rparr>);
                Some (put_char 62 (put_char 62 (put_char 10 (put_char 13 s4)))) });
     Some (s5\<lparr>term_in := replicate TERM_INPUT_BUFSIZE 0, term_in_idx := 0\<rparr>) }"

text \<open>One turn of \<open>TerminalTask\<close> with a character read from the serial port.\<close>

definition terminal_turn :: "u8 list list \<Rightarrow> command \<Rightarrow> u8 \<Rightarrow> terminal \<Rightarrow> terminal option" where
  "terminal_turn names cmd_func c s = do {
     (ready, s1) \<leftarrow> terminal_input c s;
     if ready then terminal_process names cmd_func s1 else Some s1 }"

subsection \<open>Commands added at run time\<close>

partial_function (option) last_cmd :: "(nat \<Rightarrow> dcmd) \<Rightarrow> nat \<Rightarrow> nat option" where
  "last_cmd tab a = (case next_cmd (tab a) of None \<Rightarrow> Some a | Some b \<Rightarrow> last_cmd tab b)"

definition terminal_add_cmd :: "nat \<Rightarrow> u8 list \<Rightarrow> u8 list \<Rightarrow> terminal \<Rightarrow> terminal option" where
  "terminal_add_cmd handler name description s = do {
     s1 \<leftarrow> (case cmd_head s of
              None \<Rightarrow> Some (s\<lparr>cmd_head := Some handler\<rparr>)
            | Some a \<Rightarrow> do {
                t \<leftarrow> last_cmd (dcmds s) a;
                Some (s\<lparr>dcmds := (dcmds s)(t := (dcmds s t)\<lparr>next_cmd := Some handler\<rparr>)\<rparr>) });
     Some (s1\<lparr>dcmds := (dcmds s1)(handler := \<lparr>cmd_name = name, cmd_description = description, next_cmd = NULL\<rparr>)\<rparr>) }"

end
