(* ===== verification/Terminal_Laws.thy ===== *)
theory Terminal_Laws
  imports Terminal
begin

text \<open>
  The console: the binary search finds the command of a sorted table, the words of a line are what the
  command gets, and no index leaves its array as long as a line has at most six words.
\<close>

subsection \<open>The search for a command\<close>

lemma cstr_append: "cstr m p s \<Longrightarrow> cstr (m @ x) p s"
  by (auto simp: cstr_iff nth_append)

lemma cstr_prefix: "cstr (m @ x) p s \<Longrightarrow> p + length s < length m \<Longrightarrow> cstr m p s"
  by (auto simp: cstr_iff nth_append)

lemma cstr_const: "0 \<notin> set name \<Longrightarrow> cstr (m @ name @ [0]) (length m) name"
  by (auto simp: cstr_iff nth_append in_set_conv_nth)

lemma strcmp_const_cstr:
  assumes "cstr m p s" "0 \<notin> set name"
  obtains d where "strcmp_const name m p = Some d" "d = 0 \<longleftrightarrow> name = s" "d < 0 \<longleftrightarrow> name < s"
proof -
  obtain d where "strcmp (m @ name @ [0]) (length m) p = Some d" "d = 0 \<longleftrightarrow> name = s" "d < 0 \<longleftrightarrow> name < s"
    by (rule strcmp_cstr [OF cstr_const [OF assms(2)] cstr_append [OF assms(1)]])
  then show thesis using that strlen_cstr [OF assms(1)] by (simp add: strcmp_const_def)
qed

lemma int8_id: "- 128 \<le> i \<Longrightarrow> i \<le> 127 \<Longrightarrow> int8 i = i"
  by (simp add: int8_def signed_take_bit_int_eq_self)

lemma search_table_finds:
  assumes s: "cstr m p s" and names: "\<forall>n \<in> set names. 0 \<notin> set n" "sorted_wrt (<) names" "length names \<le> 127"
    and b: "0 \<le> lo" "lo \<le> hi + 1" "hi < int (length names)"
    and below: "\<And>i. int i < lo \<Longrightarrow> names ! i < s" and above: "\<And>i. hi < int i \<Longrightarrow> i < length names \<Longrightarrow> s < names ! i"
  shows "\<exists>r. search_table names m p lo hi = Some r \<and>
    (case r of Some i \<Rightarrow> 0 \<le> i \<and> i < int (length names) \<and> names ! nat i = s | None \<Rightarrow> s \<notin> set names)"
  using b below above
proof (induction "nat (hi + 1 - lo)" arbitrary: lo hi rule: less_induct)
  case less
  show ?case
  proof (cases "lo \<le> hi")
    case False
    have "s \<notin> set names"
    proof
      assume "s \<in> set names"
      then obtain i where i: "i < length names" "names ! i = s" by (auto simp: in_set_conv_nth)
      then have "int i < lo \<or> hi < int i" using False by linarith
      then show False using less.prems(4) [of i] less.prems(5) [of i] i by auto
    qed
    then show ?thesis using False by (simp add: search_table.simps)
  next
    case True
    define mid where "mid = (lo + hi) div 2"
    have mid: "lo \<le> mid" "mid \<le> hi" "0 \<le> mid" "mid < int (length names)"
      using True less.prems(1,3) by (auto simp: mid_def)
    have i8: "int8 mid = mid" "int8 (mid + 1) = mid + 1" "int8 (mid - 1) = mid - 1"
      using mid(1-4) names(3) less.prems(3) by (intro int8_id; linarith)+
    have nn: "0 \<notin> set (names ! nat mid)" 
    proof -
      have "nat mid < length names" using mid(3,4) by linarith
      then show ?thesis using names(1) nth_mem by blast
    qed
    obtain d where d: "strcmp_const (names ! nat mid) m p = Some d" "d = 0 \<longleftrightarrow> names ! nat mid = s" "d < 0 \<longleftrightarrow> names ! nat mid < s"
      by (rule strcmp_const_cstr [OF s nn])
    have step: "search_table names m p lo hi =
      (if d < 0 then search_table names m p (mid + 1) hi
       else if d > 0 then search_table names m p lo (mid - 1) else Some (Some mid))"
      using True mid(1-4) d(1) by (simp add: search_table.simps [of names m p lo hi] i8 Let_def flip: mid_def)
    have le: "names ! i \<le> names ! j" if "i \<le> j" "j < length names" for i j
      using sorted_wrt_nth_less [OF names(2), of i j] that by (cases "i = j") auto
    consider "d < 0" | "d > 0" | "d = 0" by linarith
    then show ?thesis
    proof cases
      case 1
      then have lt: "names ! nat mid < s" using d(3) by simp
      have "names ! i < s" if "int i < mid + 1" for i
      proof -
        have "i \<le> nat mid" "nat mid < length names" using that mid(3,4) by linarith+
        then show ?thesis using le [of i "nat mid"] lt by (meson le_less_trans)
      qed
      then show ?thesis using less.hyps [of hi "mid + 1"] less.prems(1,3,5) mid(1-4) 1 by (simp add: step)
    next
      case 2
      then have gt: "s < names ! nat mid" using d(2,3) by (metis linorder_neqE not_less_iff_gr_or_eq)
      have "s < names ! i" if "mid - 1 < int i" "i < length names" for i
      proof -
        have "nat mid \<le> i" using that(1) mid(3) by linarith
        then show ?thesis using le [of "nat mid" i] gt that(2) by (meson less_le_trans)
      qed
      then show ?thesis using less.hyps [of "mid - 1" lo] less.prems(1,4) mid(1-4) 2 by (simp add: step)
    next
      case 3
      then show ?thesis using d(2) mid(1-4) by (simp add: step)
    qed
  qed
qed


text \<open>The commands added at run time, in the order they were added.\<close>

fun cmd_chain :: "(nat \<Rightarrow> dcmd) \<Rightarrow> ptr \<Rightarrow> nat list \<Rightarrow> bool" where
  "cmd_chain tab p [] \<longleftrightarrow> p = NULL"
| "cmd_chain tab p (x # xs) \<longleftrightarrow> p = Some x \<and> cmd_chain tab (next_cmd (tab x)) xs"

definition chain_ok :: "terminal \<Rightarrow> nat list \<Rightarrow> bool" where
  "chain_ok s ds \<longleftrightarrow> cmd_chain (dcmds s) (cmd_head s) ds \<and> distinct ds \<and> (\<forall>d \<in> set ds. 0 \<notin> set (cmd_name (dcmds s d)))"

definition names_ok :: "u8 list list \<Rightarrow> bool" where
  "names_ok names \<longleftrightarrow> names \<noteq> [] \<and> length names \<le> 127 \<and> sorted_wrt (<) names \<and> (\<forall>n \<in> set names. 0 \<notin> set n)"

definition position :: "'a \<Rightarrow> 'a list \<Rightarrow> nat" where
  "position x xs = length (takeWhile (\<lambda>y. y \<noteq> x) xs)"

text \<open>The index a word stands for: static commands, then dynamic ones, and 0 (\<open>help\<close>) for an unknown word.\<close>

definition command_index :: "u8 list list \<Rightarrow> u8 list list \<Rightarrow> u8 list \<Rightarrow> nat" where
  "command_index names dnames w =
    (if w \<in> set names then position w names else if w \<in> set dnames then length names + position w dnames else 0)"

lemma position_nth: "distinct xs \<Longrightarrow> i < length xs \<Longrightarrow> position (xs ! i) xs = i"
proof (induction xs arbitrary: i)
  case (Cons x xs)
  then show ?case by (cases i) (auto simp: position_def)
qed simp

lemma search_dynamic_finds:
  assumes "cmd_chain tab a ds" "cstr m p s" "\<forall>d \<in> set ds. 0 \<notin> set (cmd_name (tab d))" "i + length ds \<le> 255"
  shows "search_dynamic tab m p a (word_of_nat i) =
    Some (if s \<in> (cmd_name \<circ> tab) ` set ds then word_of_nat (i + position s (map (cmd_name \<circ> tab) ds)) else 0)"
  using assms
proof (induction ds arbitrary: a i)
  case Nil
  then show ?case by (simp add: search_dynamic.simps)
next
  case (Cons x ds)
  have "0 \<notin> set (cmd_name (tab x))" using Cons.prems(3) by simp
  then obtain d where d: "strcmp_const (cmd_name (tab x)) m p = Some d" "d = 0 \<longleftrightarrow> cmd_name (tab x) = s"
    by (rule strcmp_const_cstr [OF Cons.prems(2)])
  have ih: "search_dynamic tab m p (next_cmd (tab x)) (word_of_nat (i + 1)) =
    Some (if s \<in> (cmd_name \<circ> tab) ` set ds then word_of_nat (i + 1 + position s (map (cmd_name \<circ> tab) ds)) else 0)"
    by (rule Cons.IH) (use Cons.prems in auto)
  have w: "word_of_nat i + 1 = (word_of_nat (i + 1) :: u8)" by simp
  have "search_dynamic tab m p a (word_of_nat i) =
    (if d = 0 then Some (word_of_nat i) else search_dynamic tab m p (next_cmd (tab x)) (word_of_nat (i + 1)))"
    using Cons.prems(1) d(1) by (simp add: search_dynamic.simps [of tab m p "Some x"] w del: of_nat_add of_nat_Suc)
  then show ?case unfolding ih d(2) by (auto simp: position_def add.assoc)
qed

lemma search_cmd_finds:
  assumes names: "names_ok names" and ch: "chain_ok s ds" "length names + length ds \<le> 255" and w: "cstr (term_in s) p w"
  shows "search_cmd names p s = Some (word_of_nat (command_index names (map (cmd_name \<circ> dcmds s) ds) w))"
proof -
  note N = names [unfolded names_ok_def]
  have i8: "int8 (int (length names) - 1) = int (length names) - 1" using N by (intro int8_id) (cases names; simp)+
  obtain r where r: "search_table names (term_in s) p 0 (int (length names) - 1) = Some r"
    "case r of Some i \<Rightarrow> 0 \<le> i \<and> i < int (length names) \<and> names ! nat i = w | None \<Rightarrow> w \<notin> set names"
    using search_table_finds [OF w, of names 0 "int (length names) - 1"] N by auto
  show ?thesis
  proof (cases r)
    case None
    then have "w \<notin> set names" using r(2) by simp
    then show ?thesis
      using r(1) None search_dynamic_finds [OF _ w _ ch(2), of "dcmds s" "cmd_head s"] ch(1)
      by (auto simp: search_cmd_def i8 chain_ok_def command_index_def)
  next
    case (Some i)
    then have i: "nat i < length names" "names ! nat i = w" "i = int (nat i)" using r(2) by auto
    have "distinct names" using N strict_sorted_iff [of names] by blast
    then have "position w names = nat i" using position_nth i(1,2) by blast
    moreover have "w \<in> set names" using i(1,2) nth_mem by blast
    moreover have "(word_of_int i :: u8) = word_of_nat (nat i)" using i(3) by (metis of_int_of_nat_eq)
    ultimately show ?thesis using r(1) Some by (simp add: search_cmd_def i8 command_index_def)
  qed
qed

text \<open>The command a word names: the index the search found leads back to it.\<close>

definition named_command :: "u8 list list \<Rightarrow> (nat \<Rightarrow> dcmd) \<Rightarrow> nat list \<Rightarrow> u8 list \<Rightarrow> command_ref" where
  "named_command names tab ds w =
    (if w \<in> set names then Static (position w names)
     else case find (\<lambda>d. cmd_name (tab d) = w) ds of Some d \<Rightarrow> Dynamic d | None \<Rightarrow> Static 0)"

lemma walk_commands_chain: "cmd_chain tab p ds \<Longrightarrow> i < length ds \<Longrightarrow> walk_commands tab p i = Some (Some (ds ! i))"
  by (induction ds arbitrary: p i) (auto simp: less_Suc_eq_0_disj)

lemma find_position: "find (\<lambda>d. f d = w) ds = (if w \<in> f ` set ds then Some (ds ! position w (map f ds)) else None)"
  by (induction ds) (auto simp: position_def)

lemma position_less: "w \<in> set ws \<Longrightarrow> position w ws < length ws"
  by (induction ws) (auto simp: position_def)

lemma select_command_named:
  assumes names: "names_ok names" and ch: "chain_ok s ds" "length names + length ds \<le> 255"
  shows "select_command (length names) (word_of_nat (command_index names (map (cmd_name \<circ> dcmds s) ds) w)) s =
    Some (named_command names (dcmds s) ds w)"
proof -
  let ?n = "cmd_name \<circ> dcmds s"
  have ne: "0 < length names" using names by (simp add: names_ok_def)
  have u: "unat (word_of_nat i :: u8) = i" if "i \<le> 255" for i using that by (simp add: unat_of_nat_u8)
  consider (table) "w \<in> set names" | (added) "w \<notin> set names" "w \<in> ?n ` set ds" | (unknown) "w \<notin> set names" "w \<notin> ?n ` set ds" by blast
  then show ?thesis
  proof cases
    case table
    then show ?thesis using position_less [OF table] ch(2) by (simp add: select_command_def command_index_def named_command_def u)
  next
    case added
    let ?i = "position w (map ?n ds)"
    have i: "?i < length ds" using position_less [of w "map ?n ds"] added(2) by simp
    have "walk_commands (dcmds s) (cmd_head s) ?i = Some (Some (ds ! ?i))"
      using walk_commands_chain [OF _ i] ch(1) by (simp add: chain_ok_def)
    moreover have "command_index names (map ?n ds) w = length names + ?i" using added by (auto simp: command_index_def)
    moreover have "unat (word_of_nat (length names + ?i) :: u8) = length names + ?i" by (rule u) (use i ch(2) in simp)
    moreover have "named_command names (dcmds s) ds w = Dynamic (ds ! ?i)"
      using added find_position [of ?n w ds] by (simp add: named_command_def)
    ultimately show ?thesis by (simp add: select_command_def del: of_nat_add)
  next
    case unknown
    then show ?thesis using ne find_position [of ?n w ds] by (auto simp: select_command_def command_index_def named_command_def)
  qed
qed

lemma last_cmd_chain: "cmd_chain tab (Some a) (xs @ [t]) \<Longrightarrow> last_cmd tab a = Some t"
proof (induction xs arbitrary: a)
  case (Cons x xs)
  then obtain b where "next_cmd (tab a) = Some b" "cmd_chain tab (Some b) (xs @ [t])" by (cases xs) auto
  then show ?case using Cons.IH [of b] by (simp add: last_cmd.simps [of tab a])
qed (simp add: last_cmd.simps)

lemma cmd_chain_cong: "cmd_chain tab p xs \<Longrightarrow> (\<And>x. x \<in> set xs \<Longrightarrow> next_cmd (tab' x) = next_cmd (tab x)) \<Longrightarrow> cmd_chain tab' p xs"
  by (induction xs arbitrary: p) auto

lemma cmd_chain_append: "cmd_chain tab p (xs @ [t]) \<Longrightarrow> distinct (xs @ [t]) \<Longrightarrow> h \<notin> set (xs @ [t]) \<Longrightarrow>
    next_cmd (tab' t) = Some h \<Longrightarrow> next_cmd (tab' h) = NULL \<Longrightarrow> (\<And>x. x \<in> set xs \<Longrightarrow> next_cmd (tab' x) = next_cmd (tab x)) \<Longrightarrow>
    cmd_chain tab' p (xs @ [t, h])"
  by (induction xs arbitrary: p) auto

text \<open>A command added at run time comes last in the search.\<close>

lemma terminal_add_cmd_appends:
  assumes ok: "chain_ok s ds" and h: "h \<notin> set ds" and n: "0 \<notin> set name"
  shows "\<exists>s'. terminal_add_cmd h name desc s = Some s' \<and> chain_ok s' (ds @ [h]) \<and>
    map (cmd_name \<circ> dcmds s') (ds @ [h]) = map (cmd_name \<circ> dcmds s) ds @ [name] \<and> term_in s' = term_in s"
proof (cases ds rule: rev_cases)
  case Nil
  then show ?thesis using ok n by (simp add: terminal_add_cmd_def chain_ok_def)
next
  case (snoc xs t)
  obtain a where a: "cmd_head s = Some a" using ok snoc by (cases xs) (auto simp: chain_ok_def)
  define tab where "tab = (dcmds s)(t := (dcmds s t)\<lparr>next_cmd := Some h\<rparr>, h := \<lparr>cmd_name = name, cmd_description = desc, next_cmd = NULL\<rparr>)"
  have ch: "cmd_chain (dcmds s) (Some a) (xs @ [t])" "distinct (xs @ [t])" using ok snoc a by (simp_all add: chain_ok_def)
  have "terminal_add_cmd h name desc s = Some (s\<lparr>dcmds := tab\<rparr>)"
    by (simp add: terminal_add_cmd_def a last_cmd_chain [OF ch(1)] tab_def)
  moreover have "cmd_chain tab (Some a) (xs @ [t, h])"
    by (rule cmd_chain_append [OF ch]) (use h snoc ch(2) in \<open>auto simp: tab_def\<close>)
  moreover have "\<forall>x \<in> set ds. cmd_name (tab x) = cmd_name (dcmds s x)" using h snoc by (auto simp: tab_def)
  moreover have "cmd_name (tab h) = name" by (simp add: tab_def)
  ultimately show ?thesis using ok n h a snoc by (auto simp: chain_ok_def)
qed


subsection \<open>The words of a line\<close>

function words :: "u8 list \<Rightarrow> u8 list list" where
  "words s = (if set s \<subseteq> set term_delimiters then [] else word_of term_delimiters s # words (rest_after term_delimiters s))"
  by pat_completeness auto
termination
proof (relation "measure length")
  fix s :: "u8 list" assume n: "\<not> set s \<subseteq> set term_delimiters"
  let ?s = "dropWhile (\<lambda>c. c \<in> set term_delimiters) s"
  have "?s \<noteq> []" using n by (auto simp: dropWhile_eq_Nil_conv)
  moreover have "length ?s \<le> length s" by (rule length_dropWhile_le)
  moreover have "length (dropWhile (\<lambda>c. c \<notin> set term_delimiters) ?s) \<le> length ?s" by (rule length_dropWhile_le)
  ultimately show "(rest_after term_delimiters s, s) \<in> measure length"
    by (cases ?s) (auto simp: rest_after_def simp del: dropWhile.simps)
qed simp

declare words.simps [simp del]

lemma words_Nil_iff: "words s = [] \<longleftrightarrow> set s \<subseteq> set term_delimiters"
  by (simp add: words.simps [of s])

text \<open>What a call writes into the line is a zero behind the token.\<close>

lemma strtok_line_token:
  assumes p: "cstr m p s" and tmp: "(if s1 \<noteq> NULL then s1 else tmp) = Some p"
  obtains (none) "strtok_line s1 tmp m = Some (NULL, NULL, m)" "words s = []"
  | (token) t w tmp' m' rest where "strtok_line s1 tmp m = Some (Some t, tmp', m')" "words s = w # words rest" "p \<le> t"
      "cstr m' t w" "length m' = length m" "\<And>i. i < p \<Longrightarrow> m' ! i = m ! i" "\<And>i. i < length m \<Longrightarrow> m ! i = 0 \<Longrightarrow> m' ! i = 0"
      "case tmp' of None \<Rightarrow> words rest = [] | Some r \<Rightarrow> t + length w < r \<and> cstr m' r rest"
proof -
  let ?M = "m @ term_delimiters @ [0]"
  have q: "cstr ?M (length m) term_delimiters" by (rule cstr_const) (simp add: term_delimiters_def)
  note b = cstr_bound [OF p]
  have len: "(case (if s1 \<noteq> NULL then s1 else tmp) of None \<Rightarrow> Some 0 | Some p \<Rightarrow> strlen m p) = Some (length s)"
    unfolding tmp by (simp add: strlen_cstr [OF p])
  have apart: "length m + length term_delimiters < p \<or> p + length s < length m" using b by simp
  from q cstr_append [OF p] apart tmp show thesis
  proof (cases rule: strtok_token)
    case none
    then have "strtok_line s1 tmp m = Some (NULL, NULL, m)" unfolding strtok_line_def len by simp
    then show thesis using none(2) that(1) by (simp add: words_Nil_iff)
  next
    case (token t tmp' M)
    let ?w = "word_of term_delimiters s" and ?r = "rest_after term_delimiters s"
    have run: "strtok_line s1 tmp m = Some (Some t, tmp', take (length m) M)" using token(1) unfolding strtok_line_def len by simp
    have M: "M = take (length m) M @ drop (length m) M" "length (take (length m) M) = length m" using token(6) by simp_all
    have shift: "cstr M x u \<Longrightarrow> x + length u < length m \<Longrightarrow> cstr (take (length m) M) x u" for x u
      using cstr_prefix [of "take (length m) M" "drop (length m) M" x u] M by simp
    have nth: "i < length m \<Longrightarrow> take (length m) M ! i = M ! i" for i by simp
    have wd: "words s = ?w # words ?r" using token(2) by (simp add: words.simps [of s])
    have c: "cstr (take (length m) M) t ?w" using shift [OF token(5)] token(4) b by simp
    have before: "take (length m) M ! i = m ! i" if "i < p" for i
      using token(7) [of i] that token(3) b by (simp add: nth_append)
    have zero: "take (length m) M ! i = 0" if "i < length m" "m ! i = 0" for i
    proof -
      consider "i < t \<or> t + length ?w < i" | "i = t + length ?w" | "t \<le> i" "i < t + length ?w" by linarith
      then show ?thesis
      proof cases
        case 1
        then show ?thesis using token(7) [of i] that by (simp add: nth_append)
      next
        case 2
        then show ?thesis using c by (simp add: cstr_iff)
      next
        case 3
        then have "i - p < length s" "p \<le> i" using token(3,4) by linarith+
        then have "m ! i \<noteq> 0" using p unfolding cstr_iff by (metis le_add_diff_inverse)
        then show ?thesis using that by simp
      qed
    qed
    have rest: "case tmp' of None \<Rightarrow> words ?r = [] | Some r \<Rightarrow> t + length ?w < r \<and> cstr (take (length m) M) r ?r"
      using token(8) shift b by (cases tmp') (auto simp: words_Nil_iff)
    show thesis by (rule that(2) [OF run wd token(3) c M(2) before zero rest])
  qed
qed

lemma collect_args_words:
  assumes "cstr m p s" "(if s1 \<noteq> NULL then s1 else tmp) = Some p" "length (words s) \<le> room"
    and "list_all2 (cstr m) argv ws" "\<forall>(a, w) \<in> set (zip argv ws). a + length w < p"
  shows "\<exists>argv' tmp' m'. do { (arg1, tmp1, m1) \<leftarrow> strtok_line s1 tmp m; collect_args room arg1 argv tmp1 m1 } = Some (argv', tmp', m') \<and>
    list_all2 (cstr m') argv' (ws @ words s) \<and> length m' = length m \<and> (\<forall>i < length m. m ! i = 0 \<longrightarrow> m' ! i = 0)"
  using assms
proof (induction room arbitrary: s1 tmp m p s argv ws)
  case 0
  from 0(1,2) show ?case
  proof (cases rule: strtok_line_token)
    case none
    then show ?thesis using 0(4) by simp
  qed (use 0(3) in simp)
next
  case (Suc room)
  from Suc.prems(1,2) show ?case
  proof (cases rule: strtok_line_token)
    case none
    then show ?thesis using Suc.prems(4) by simp
  next
    case (token t w tmp' m' rest)
    have run: "do { (arg1, tmp1, m1) \<leftarrow> strtok_line s1 tmp m; collect_args (Suc room) arg1 argv tmp1 m1 } =
      do { (arg1, tmp1, m1) \<leftarrow> strtok_line NULL tmp' m'; collect_args room arg1 (argv @ [t]) tmp1 m1 }"
      using token(1) by simp
    have la: "length argv = length ws" using Suc.prems(4) by (rule list_all2_lengthD)
    have old: "list_all2 (cstr m') argv ws"
      unfolding list_all2_iff
    proof (intro conjI ballI, rule la, clarify)
      fix a u assume au: "(a, u) \<in> set (zip argv ws)"
      then have "cstr m a u" "a + length u < p" using Suc.prems(4,5) by (auto simp: list_all2_iff)
      then show "cstr m' a u" using cstr_cong [of m a u m'] token(5,6) by simp
    qed
    then have new: "list_all2 (cstr m') (argv @ [t]) (ws @ [w])" using token(4) by (simp add: list_all2_appendI)
    show ?thesis
    proof (cases tmp')
      case None
      then have "strtok_line NULL tmp' m' = Some (NULL, NULL, m')" by (simp add: strtok_line_def strtok_def token(5))
      then show ?thesis unfolding run using new token(2,5,7,8) None by auto
    next
      case (Some r)
      have z: "\<forall>(a, u) \<in> set (zip (argv @ [t]) (ws @ [w])). a + length u < r"
        using Suc.prems(5) token(3,8) Some la by fastforce
      obtain argv' tmp'' m'' where ih: "do { (arg1, tmp1, m1) \<leftarrow> strtok_line NULL tmp' m'; collect_args room arg1 (argv @ [t]) tmp1 m1 } = Some (argv', tmp'', m'')"
        "list_all2 (cstr m'') argv' ((ws @ [w]) @ words rest)" "length m'' = length m'" "\<forall>i < length m'. m' ! i = 0 \<longrightarrow> m'' ! i = 0"
        using Suc.IH [of m' r rest NULL tmp' "argv @ [t]" "ws @ [w]"] token(2,8) Some Suc.prems(3) new z by auto
      then show ?thesis unfolding run using token(2,5,7) by auto
    qed
  qed
qed

lemma collect_args_overflow:
  assumes "cstr m p s" "(if s1 \<noteq> NULL then s1 else tmp) = Some p" "room < length (words s)"
  shows "do { (arg1, tmp1, m1) \<leftarrow> strtok_line s1 tmp m; collect_args room arg1 argv tmp1 m1 } = None"
  using assms
proof (induction room arbitrary: s1 tmp m p s argv)
  case 0
  from 0(1,2) show ?case
    by (cases rule: strtok_line_token) (use 0(3) in simp_all)
next
  case (Suc room)
  from Suc.prems(1,2) show ?case
  proof (cases rule: strtok_line_token)
    case (token t w tmp' m' rest)
    then obtain r where "tmp' = Some r" "cstr m' r rest" using Suc.prems(3) by (cases tmp') auto
    then show ?thesis using Suc.IH [of m' r rest NULL tmp' "argv @ [t]"] token(1,2) Suc.prems(3) by simp
  qed (use Suc.prems(3) in simp)
qed

end
