(* ===== verification/Terminal_Session.thy ===== *)
theory Terminal_Session
  imports Terminal_Laws
begin

text \<open>The indices of the console stay inside its arrays, and a complete line runs its command with its words.\<close>

subsection \<open>The invariant\<close>

definition buffers_ok :: "terminal \<Rightarrow> bool" where
  "buffers_ok s \<longleftrightarrow> length (term_in s) = TERM_INPUT_BUFSIZE \<and> length (last_term_in s) = TERM_INPUT_BUFSIZE \<and>
     term_in s ! 30 = 0 \<and> term_in s ! 31 = 0 \<and> 0 \<le> cpi s \<and> cpi s \<le> 30 \<and> last_term_in s ! nat (cpi s) = 0"

definition term_ok :: "terminal \<Rightarrow> bool" where
  "term_ok s \<longleftrightarrow> buffers_ok s \<and> 0 \<le> term_in_idx s \<and> term_in_idx s \<le> 30"

definition same_commands :: "terminal \<Rightarrow> terminal \<Rightarrow> bool" where
  "same_commands s s' \<longleftrightarrow> cmd_head s' = cmd_head s \<and> dcmds s' = dcmds s"

lemma array_simps:
  "0 \<le> i \<Longrightarrow> i < int (length xs) \<Longrightarrow> array_get xs i = Some (xs ! nat i)"
  "0 \<le> i \<Longrightarrow> i < int (length xs) \<Longrightarrow> array_set i c xs = Some (xs[nat i := c])"
  by (simp_all add: array_get_def array_set_def)

lemma term_echo_frame:
  assumes "term_echo c s = (r, s')"
  shows "term_in s' = term_in s" "last_term_in s' = last_term_in s" "cpi s' = cpi s" "term_in_idx s' = term_in_idx s" "same_commands s s'"
  using assms by (auto simp: term_echo_def Let_def put_char_def same_commands_def split: if_splits)

subsection \<open>The up key\<close>

lemma show_last_run:
  assumes "0 \<le> term_in_idx s" "term_in_idx s \<le> cpi s + 1" "cpi s < int (length (last_term_in s))"
  shows "\<exists>p. show_last s = Some (s\<lparr>printed := p, term_in_idx := cpi s + 1\<rparr>)"
  using assms
proof (induction "nat (cpi s + 1 - term_in_idx s)" arbitrary: s)
  case 0
  then have "term_in_idx s = cpi s + 1" by simp
  then have "show_last s = Some (s\<lparr>printed := printed s, term_in_idx := cpi s + 1\<rparr>)" by (simp add: show_last.simps [of s])
  then show ?case by blast
next
  case (Suc n)
  let ?i = "term_in_idx s" let ?s = "(put_char (last_term_in s ! nat ?i) s)\<lparr>term_in_idx := ?i + 1\<rparr>"
  have le: "?i \<le> cpi s" using Suc.hyps(2) by linarith
  have "show_last s = show_last ?s" using Suc.prems le by (simp add: show_last.simps [of s] array_simps)
  moreover have "\<exists>p. show_last ?s = Some (?s\<lparr>printed := p, term_in_idx := cpi ?s + 1\<rparr>)"
    by (rule Suc.hyps(1)) (use Suc.hyps(2) Suc.prems le in \<open>simp_all add: put_char_def\<close>)
  ultimately show ?case by (auto simp: put_char_def)
qed

lemma copy_last_run:
  assumes "0 \<le> term_in_idx s" "term_in_idx s \<le> cpi s + 1" "cpi s < int (length (last_term_in s))" "length (term_in s) = length (last_term_in s)"
  shows "\<exists>b t. copy_last s = Some (s\<lparr>term_in := b, term_in_idx := cpi s + 1, term_tmp_idx := t\<rparr>) \<and> length b = length (term_in s) \<and>
    (\<forall>j < length b. b ! j = (if term_in_idx s \<le> int j \<and> int j \<le> cpi s then last_term_in s ! j else term_in s ! j))"
  using assms
proof (induction "nat (cpi s + 1 - term_in_idx s)" arbitrary: s)
  case 0
  then have "term_in_idx s = cpi s + 1" by simp
  then have "copy_last s = Some (s\<lparr>term_in := term_in s, term_in_idx := cpi s + 1, term_tmp_idx := term_tmp_idx s\<rparr>)"
    by (simp add: copy_last.simps [of s])
  then show ?case using 0 by (intro exI [of _ "term_in s"] exI [of _ "term_tmp_idx s"]) auto
next
  case (Suc n)
  let ?i = "term_in_idx s" let ?b = "(term_in s)[nat ?i := last_term_in s ! nat ?i]"
  let ?s = "s\<lparr>term_in := ?b, term_in_idx := ?i + 1, term_tmp_idx := term_tmp_idx s + 1\<rparr>"
  have le: "?i \<le> cpi s" using Suc.hyps(2) by linarith
  have step: "copy_last s = copy_last ?s" using Suc.prems le by (simp add: copy_last.simps [of s] array_simps)
  obtain b t where ih: "copy_last ?s = Some (?s\<lparr>term_in := b, term_in_idx := cpi ?s + 1, term_tmp_idx := t\<rparr>)" "length b = length (term_in ?s)"
    "\<forall>j < length b. b ! j = (if term_in_idx ?s \<le> int j \<and> int j \<le> cpi ?s then last_term_in ?s ! j else term_in ?s ! j)"
    using Suc.hyps(1) [of ?s] Suc.hyps(2) Suc.prems le by fastforce
  have "b ! j = (if ?i \<le> int j \<and> int j \<le> cpi s then last_term_in s ! j else term_in s ! j)" if "j < length b" for j
  proof (cases "int j = ?i")
    case True
    then have "nat ?i = j" by linarith
    then show ?thesis using ih(2,3) that le True by simp
  next
    case False
    then have "nat ?i \<noteq> j" using Suc.prems(1) by linarith
    then show ?thesis using ih(2,3) that False by simp
  qed
  then show ?case using step ih(1,2) by auto
qed

lemma recall_last_ok:
  assumes "term_ok s"
  shows "\<exists>s'. recall_last s = Some s' \<and> term_ok s' \<and> same_commands s s'"
proof -
  note T = assms [unfolded term_ok_def buffers_ok_def TERM_INPUT_BUFSIZE_def]
  define s1 where "s1 = s\<lparr>printed := printed s @ replicate (nat (term_in_idx s)) 0x7F, term_in_idx := 0\<rparr>"
  have e: "erase_line s = Some s1" using T by (simp add: erase_line_def s1_def)
  have g: "array_get (last_term_in s1) 0 = Some (last_term_in s ! 0)" using T by (simp add: array_simps s1_def)
  show ?thesis
  proof (cases "last_term_in s ! 0 = 0")
    case True
    then have "recall_last s = Some s1" using e g by (simp add: recall_last_def)
    then show ?thesis using assms by (auto simp: s1_def term_ok_def buffers_ok_def same_commands_def)
  next
    case False
    obtain p where p: "show_last s1 = Some (s1\<lparr>printed := p, term_in_idx := cpi s + 1\<rparr>)"
      using show_last_run [of s1] T by (auto simp: s1_def)
    define s2 where "s2 = s1\<lparr>printed := p, term_in_idx := 0, term_tmp_idx := 0\<rparr>"
    obtain b t where b: "copy_last s2 = Some (s2\<lparr>term_in := b, term_in_idx := cpi s + 1, term_tmp_idx := t\<rparr>)" "length b = 32"
      "\<forall>j < 32. b ! j = (if int j \<le> cpi s then last_term_in s ! j else term_in s ! j)"
      using copy_last_run [of s2] T by (auto simp: s2_def s1_def)
    define s' where "s' = s2\<lparr>term_in := b[nat (cpi s + 1) := 0], term_in_idx := cpi s, term_tmp_idx := t - 1\<rparr>"
    have "recall_last s = Some s'"
      using e g p b(1,2) False T by (simp add: recall_last_def array_simps s'_def s2_def)
    moreover have "b[nat (cpi s + 1) := 0] ! 30 = 0" "b[nat (cpi s + 1) := 0] ! 31 = 0"
      using b(2,3) T by (auto simp: nth_list_update)
    then have "term_ok s'" using T b(2) by (simp add: term_ok_def buffers_ok_def TERM_INPUT_BUFSIZE_def s'_def s2_def s1_def)
    moreover have "same_commands s s'" by (simp add: same_commands_def s'_def s2_def s1_def)
    ultimately show ?thesis by blast
  qed
qed


subsection \<open>A character\<close>

text \<open>The count of the line is the only index that is bounded by the end of the buffer: 31 is a complete line.\<close>

lemma terminal_input_ok:
  assumes "term_ok s"
  shows "\<exists>ready s'. terminal_input c s = Some (ready, s') \<and> buffers_ok s' \<and> same_commands s s' \<and> (\<not> ready \<longrightarrow> term_ok s')"
proof -
  obtain r s1 where e: "term_echo c s = (r, s1)" by fastforce
  note f = term_echo_frame [OF e]
  have ok: "term_ok s1" using assms f(1-4) by (simp add: term_ok_def buffers_ok_def)
  note T = ok [unfolded term_ok_def buffers_ok_def TERM_INPUT_BUFSIZE_def]
  show ?thesis
  proof (cases r)
    case None
    then show ?thesis using ok e f(5) by (intro exI [of _ False] exI [of _ s1]) (simp add: terminal_input_def term_ok_def)
  next
    case (Some c1)
    have run: "terminal_input c s = term_line c1 s1" using Some e by (simp add: terminal_input_def)
    let ?i = "term_in_idx s1"
    consider (ignored) "\<not> term_tmp_idx s1 \<ge> 0" | (rubout) "term_tmp_idx s1 \<ge> 0" "(c1 = 8 \<or> c1 = 0x7F) \<and> ?i > 0"
      | (up) "term_tmp_idx s1 \<ge> 0" "\<not> ((c1 = 8 \<or> c1 = 0x7F) \<and> ?i > 0)" "c1 = UP_KEY_CHAR"
      | (char) "term_tmp_idx s1 \<ge> 0" "\<not> ((c1 = 8 \<or> c1 = 0x7F) \<and> ?i > 0)" "c1 \<noteq> UP_KEY_CHAR" by blast
    then show ?thesis
    proof cases
      case ignored
      then show ?thesis using ok f(5) by (intro exI [of _ False] exI [of _ s1]) (simp add: run term_line_def term_ok_def)
    next
      case rubout
      define s' where "s' = s1\<lparr>term_in := (term_in s1)[nat ?i := 0], term_in_idx := ?i - 1\<rparr>"
      have "terminal_input c s = Some (False, s')"
        unfolding run term_line_def if_P [OF rubout(1)] if_P [OF rubout(2)] using T by (simp add: array_simps s'_def)
      moreover have "term_ok s'" using T rubout(2) by (auto simp: s'_def term_ok_def buffers_ok_def TERM_INPUT_BUFSIZE_def nth_list_update)
      ultimately show ?thesis using f(5) by (auto simp: term_ok_def same_commands_def s'_def)
    next
      case up
      obtain s' where "recall_last s1 = Some s'" "term_ok s'" "same_commands s1 s'" using recall_last_ok [OF ok] by blast
      then show ?thesis using f(5) unfolding run term_line_def if_P [OF up(1)] if_not_P [OF up(2)] if_P [OF up(3)]
        by (auto simp: term_ok_def same_commands_def)
    next
      case char
      define s2 where "s2 = s1\<lparr>term_in := (term_in s1)[nat ?i := c1], term_in_idx := ?i + 1\<rparr>"
      have lin: "terminal_input c s = (if c1 = 10 \<or> c1 = 13 \<or> ?i + 1 = 31 then Some (True, s2\<lparr>term_in := (term_in s2)[nat ?i := 0]\<rparr>) else Some (False, s2))"
        unfolding run term_line_def if_P [OF char(1)] if_not_P [OF char(2)] if_not_P [OF char(3)]
        using T by (simp add: array_simps s2_def TERM_INPUT_BUFSIZE_def)
      show ?thesis
      proof (cases "c1 = 10 \<or> c1 = 13 \<or> ?i + 1 = 31")
        case True
        have "buffers_ok (s2\<lparr>term_in := (term_in s2)[nat ?i := 0]\<rparr>)"
          using T by (auto simp: s2_def buffers_ok_def TERM_INPUT_BUFSIZE_def nth_list_update)
        then show ?thesis using lin True f(5) by (intro exI [of _ True]) (simp add: same_commands_def s2_def)
      next
        case False
        then have "nat ?i < 30" using T by linarith
        then have "term_ok s2" using T by (simp add: s2_def term_ok_def buffers_ok_def TERM_INPUT_BUFSIZE_def)
        then show ?thesis using lin False f(5) by (intro exI [of _ False]) (simp add: same_commands_def s2_def term_ok_def)
      qed
    qed
  qed
qed

subsection \<open>A line\<close>

lemma keep_line_run:
  assumes "length (term_in s) = 32" "length (last_term_in s) = 32" "term_in s ! 30 = 0" "term_in s ! 31 = 0" "0 \<le> cpi s" "cpi s \<le> 30"
  shows "\<exists>l c. keep_line s = Some (s\<lparr>last_term_in := l, cpi := c\<rparr>) \<and> length l = 32 \<and> 0 \<le> c \<and> c \<le> 30 \<and> l ! nat c = 0"
  using assms
proof (induction "nat (30 - cpi s)" arbitrary: s rule: less_induct)
  case less
  note B = less.prems
  let ?a = "term_in s ! nat (cpi s)" and ?b = "term_in s ! nat (cpi s + 1)"
  have g: "array_get (term_in s) (cpi s) = Some ?a" "array_get (term_in s) (cpi s + 1) = Some ?b" using B by (simp_all add: array_simps)
  show ?case
  proof (cases "?a = 0 \<and> ?b = 0")
    case True
    have "keep_line s = Some (s\<lparr>last_term_in := (last_term_in s)[nat (cpi s) := 0]\<rparr>)"
      using True g B by (simp add: keep_line.simps [of s] array_simps)
    then have "keep_line s = Some (s\<lparr>last_term_in := (last_term_in s)[nat (cpi s) := 0], cpi := cpi s\<rparr>)" by simp
    then show ?thesis using B by (intro exI [of _ "(last_term_in s)[nat (cpi s) := 0]"] exI [of _ "cpi s"]) simp
  next
    case False
    have "cpi s \<noteq> 30" using False B(3,4) by auto
    then have lt: "cpi s < 30" using B(6) by simp
    define s1 where "s1 = s\<lparr>last_term_in := (last_term_in s)[nat (cpi s) := if ?a = 0 then 0x20 else ?a], cpi := cpi s + 1\<rparr>"
    have step: "keep_line s = keep_line s1" using False g B by (auto simp: keep_line.simps [of s] array_simps s1_def)
    obtain l c where "keep_line s1 = Some (s1\<lparr>last_term_in := l, cpi := c\<rparr>)" "length l = 32 \<and> 0 \<le> c \<and> c \<le> 30 \<and> l ! nat c = 0"
      using less.hyps [of s1] lt B by (auto simp: s1_def)
    then show ?thesis unfolding step by (intro exI [of _ l] exI [of _ c]) (simp add: s1_def)
  qed
qed

definition blank :: "u8 \<Rightarrow> bool" where
  "blank c \<longleftrightarrow> c = 32 \<or> c = 9"

lemma skip_blanks_cstr: "cstr m p s \<Longrightarrow> skip_blanks m p = Some (p + length (takeWhile blank s))"
  by (induction s arbitrary: p) (auto simp: skip_blanks.simps blank_def)

lemma words_skip: "words (dropWhile blank s) = words s"
proof -
  have d: "dropWhile (\<lambda>c. c \<in> set term_delimiters) (dropWhile blank s) = dropWhile (\<lambda>c. c \<in> set term_delimiters) s"
    by (induction s) (auto simp: blank_def term_delimiters_def)
  have "set (dropWhile blank s) \<subseteq> set term_delimiters \<longleftrightarrow> set s \<subseteq> set term_delimiters"
  proof -
    have n: "set xs \<subseteq> set term_delimiters \<longleftrightarrow> dropWhile (\<lambda>c. c \<in> set term_delimiters) xs = []" for xs
      by (auto simp: dropWhile_eq_Nil_conv)
    show ?thesis unfolding n d ..
  qed
  then show ?thesis by (simp add: words.simps [of "dropWhile blank s"] words.simps [of s] word_of_def rest_after_def d)
qed

text \<open>The line in the buffer, and what a command leaves alone.\<close>

definition line_of :: "terminal \<Rightarrow> u8 list" where
  "line_of s = takeWhile (\<lambda>c. c \<noteq> 0) (term_in s)"

lemma line_of_cstr: "buffers_ok s \<Longrightarrow> cstr (term_in s) 0 (line_of s)"
proof -
  assume b: "buffers_ok s"
  let ?m = "term_in s"
  have "30 < length ?m" "?m ! 30 = 0" using b by (simp_all add: buffers_ok_def TERM_INPUT_BUFSIZE_def)
  then have "0 \<in> set ?m" using nth_mem by metis
  then have "line_of s \<noteq> ?m" using set_takeWhileD [of 0 "\<lambda>c. c \<noteq> 0" ?m] unfolding line_of_def by metis
  then have lt: "length (line_of s) < length ?m"
    using takeWhile_eq_take [of "\<lambda>c. c \<noteq> 0" ?m] length_takeWhile_le [of "\<lambda>c. c \<noteq> 0" ?m] unfolding line_of_def
    by (metis le_neq_implies_less take_all_iff order_refl)
  have "?m ! length (line_of s) = 0" using nth_length_takeWhile [of "\<lambda>c. c \<noteq> 0" ?m] lt by (simp add: line_of_def)
  moreover have "?m ! i = line_of s ! i \<and> line_of s ! i \<noteq> 0" if "i < length (line_of s)" for i
    using that takeWhile_nth [of i "\<lambda>c. c \<noteq> 0" ?m] nth_mem [OF that] set_takeWhileD unfolding line_of_def by metis
  ultimately show ?thesis using lt by (simp add: cstr_iff)
qed

definition leaves_terminal :: "command \<Rightarrow> bool" where
  "leaves_terminal f \<longleftrightarrow> (\<forall>c argv s. term_in (f c argv s) = term_in s \<and> last_term_in (f c argv s) = last_term_in s \<and> same_commands s (f c argv s))"

lemma terminal_process_runs:
  assumes b: "buffers_ok s" and names: "names_ok names" and ch: "chain_ok s ds" "length names + length ds \<le> 255"
    and f: "leaves_terminal cmd_func" and six: "length (words (line_of s)) \<le> TERM_ARGS_MAX_COUNT"
  shows "\<exists>s'. terminal_process names cmd_func s = Some s' \<and> term_ok s' \<and> same_commands s s' \<and>
    (case words (line_of s) of
       [] \<Rightarrow> printed s' = printed s
     | w # ws \<Rightarrow> \<exists>argv s1. list_all2 (cstr (term_in s1)) argv (w # ws) \<and> printed s1 = printed s @ [13, 10] \<and>
         printed s' = printed (cmd_func (named_command names (dcmds s) ds w) argv s1) @ [13, 10, 62, 62])"
proof -
  note B = b [unfolded buffers_ok_def TERM_INPUT_BUFSIZE_def]
  have c0: "cstr (term_in s) 0 (line_of s)" by (rule line_of_cstr [OF b])
  define start where "start = length (takeWhile blank (line_of s))"
  have sk: "skip_blanks (term_in s) 0 = Some start" using skip_blanks_cstr [OF c0] by (simp add: start_def)
  have "cstr (term_in s) start (dropWhile blank (line_of s))"
    using cstr_drop [OF c0, of start] by (simp add: start_def dropWhile_eq_drop length_takeWhile_le)
  then obtain argv tmp m where co: "do { (arg, tmp, m) \<leftarrow> strtok_line (Some start) (strtok_tmp s) (term_in s);
      collect_args TERM_ARGS_MAX_COUNT arg [] tmp m } = Some (argv, tmp, m)" "list_all2 (cstr m) argv (words (line_of s))"
      "length m = 32" "\<forall>i < 32. term_in s ! i = 0 \<longrightarrow> m ! i = 0"
    using collect_args_words [of "term_in s" start "dropWhile blank (line_of s)" "Some start" "strtok_tmp s" TERM_ARGS_MAX_COUNT "[]" "[]"] six B
    by (auto simp: words_skip)
  define s1 where "s1 = s\<lparr>term_in := m, strtok_tmp := tmp\<rparr>"
  have z: "m ! 30 = 0" "m ! 31 = 0" using co(4) B by auto
  show ?thesis
  proof (cases "words (line_of s)")
    case Nil
    then have "argv = []" using co(2) by simp
    then have "terminal_process names cmd_func s = Some (s1\<lparr>term_in := replicate TERM_INPUT_BUFSIZE 0, term_in_idx := 0\<rparr>)"
      using sk co(1) by (auto simp: terminal_process_def s1_def bind_eq_Some_conv split: bind_splits prod.splits)
    then show ?thesis using Nil B by (auto simp: term_ok_def buffers_ok_def TERM_INPUT_BUFSIZE_def same_commands_def s1_def)
  next
    case (Cons w ws)
    then obtain first rest where av: "argv = first # rest" "cstr m first w" using co(2) by (auto simp: list_all2_Cons2)
    define i where "i = command_index names (map (cmd_name \<circ> dcmds s) ds) w"
    have ci: "search_cmd names first s1 = Some (word_of_nat i)"
      using search_cmd_finds [OF names _ ch(2), of s1 first w] ch(1) av(2) by (simp add: chain_ok_def s1_def i_def)
    define s2 where "s2 = put_char 10 (put_char 13 s1)"
    define r where "r = named_command names (dcmds s) ds w"
    have sel: "select_command (length names) (word_of_nat i) s2 = Some r"
      using select_command_named [OF names _ ch(2), of s2] ch(1) by (simp add: chain_ok_def s2_def s1_def put_char_def i_def r_def)
    define s3 where "s3 = cmd_func r argv s2"
    have s2: "term_in s2 = m" "last_term_in s2 = last_term_in s" "same_commands s s2" "printed s2 = printed s @ [13, 10]"
      by (simp_all add: s2_def s1_def put_char_def same_commands_def)
    have s3: "term_in s3 = m" "last_term_in s3 = last_term_in s" "same_commands s s3"
      using f s2 by (simp_all add: leaves_terminal_def s3_def same_commands_def)
    obtain l c where k: "keep_line (s3\<lparr>cpi := 0\<rparr>) = Some (s3\<lparr>last_term_in := l, cpi := c\<rparr>)" "length l = 32" "0 \<le> c" "c \<le> 30" "l ! nat c = 0"
      using keep_line_run [of "s3\<lparr>cpi := 0\<rparr>"] s3 co(3) z B by auto
    define s4 where "s4 = put_char 62 (put_char 62 (put_char 10 (put_char 13 (s3\<lparr>last_term_in := l, cpi := c\<rparr>))))"
    define s' where "s' = s4\<lparr>term_in := replicate TERM_INPUT_BUFSIZE 0, term_in_idx := 0\<rparr>"
    have co': "do { (arg, tmp, m) \<leftarrow> strtok_line (Some start) (strtok_tmp s) (term_in s);
      (argv, tmp1, m1) \<leftarrow> collect_args TERM_ARGS_MAX_COUNT arg [] tmp m; g argv tmp1 m1 } = g argv tmp m" for g :: "_ \<Rightarrow> _ \<Rightarrow> _ \<Rightarrow> 'b option"
      using co(1) by (auto simp: bind_eq_Some_conv split: prod.splits)
    have "terminal_process names cmd_func s = Some s'"
      unfolding terminal_process_def sk bind.bind_lunit co' Let_def s1_def [symmetric] av(1) list.case ci s2_def [symmetric]
      by (simp add: sel k(1) flip: av(1) s3_def) (simp add: s'_def s4_def)
    moreover have "term_ok s'" using k by (simp add: s'_def s4_def put_char_def term_ok_def buffers_ok_def TERM_INPUT_BUFSIZE_def)
    moreover have "same_commands s s'" using s3(3) by (simp add: s'_def s4_def put_char_def same_commands_def)
    moreover have "printed s' = printed (cmd_func r argv s2) @ [13, 10, 62, 62]" by (simp add: s'_def s4_def put_char_def s3_def)
    moreover have "list_all2 (cstr (term_in s2)) argv (w # ws)" using co(2) Cons s2(1) by simp
    ultimately show ?thesis using s2(4) unfolding Cons r_def list.case by blast
  qed
qed

text \<open>Seven words: the array of words is written past its end.\<close>

lemma terminal_process_overflow:
  assumes b: "buffers_ok s" and many: "TERM_ARGS_MAX_COUNT < length (words (line_of s))"
  shows "terminal_process names cmd_func s = None"
proof -
  have c0: "cstr (term_in s) 0 (line_of s)" by (rule line_of_cstr [OF b])
  define start where "start = length (takeWhile blank (line_of s))"
  have sk: "skip_blanks (term_in s) 0 = Some start" using skip_blanks_cstr [OF c0] by (simp add: start_def)
  have "cstr (term_in s) start (dropWhile blank (line_of s))"
    using cstr_drop [OF c0, of start] by (simp add: start_def dropWhile_eq_drop length_takeWhile_le)
  then have "do { (arg, tmp, m) \<leftarrow> strtok_line (Some start) (strtok_tmp s) (term_in s);
      collect_args TERM_ARGS_MAX_COUNT arg [] tmp m } = None"
    by (rule collect_args_overflow) (use many in \<open>simp_all add: words_skip\<close>)
  then show ?thesis by (auto simp: terminal_process_def sk split: bind_splits)
qed

end
