(* ===== verification/Terminal_Typing.thy ===== *)
theory Terminal_Typing
  imports Terminal_Session
begin

text \<open>Whole turns of the terminal task, and a command typed character by character.\<close>

lemma terminal_turn_cases:
  assumes t: "term_ok s" and names: "names_ok names" and ch: "chain_ok s ds" "length names + length ds \<le> 255" and f: "leaves_terminal cmd_func"
  obtains (more) s' where "terminal_input c s = Some (False, s')" "terminal_turn names cmd_func c s = Some s'" "term_ok s'" "same_commands s s'"
  | (line) s1 s' where "terminal_input c s = Some (True, s1)" "length (words (line_of s1)) \<le> TERM_ARGS_MAX_COUNT"
      "terminal_turn names cmd_func c s = Some s'" "terminal_process names cmd_func s1 = Some s'" "term_ok s'" "same_commands s s'"
  | (overflow) s1 where "terminal_input c s = Some (True, s1)" "TERM_ARGS_MAX_COUNT < length (words (line_of s1))"
      "terminal_turn names cmd_func c s = None"
proof -
  obtain ready s1 where i: "terminal_input c s = Some (ready, s1)" "buffers_ok s1" "same_commands s s1" "\<not> ready \<longrightarrow> term_ok s1"
    using terminal_input_ok [OF t] by blast
  have ch1: "chain_ok s1 ds" using ch(1) i(3) by (simp add: chain_ok_def same_commands_def)
  show thesis
  proof (cases ready)
    case False
    then show thesis using that(1) [of s1] i by (simp add: terminal_turn_def)
  next
    case True
    then have tt: "terminal_turn names cmd_func c s = terminal_process names cmd_func s1" using i(1) by (simp add: terminal_turn_def)
    show thesis
    proof (cases "length (words (line_of s1)) \<le> TERM_ARGS_MAX_COUNT")
      case six: True
      obtain s' where s': "terminal_process names cmd_func s1 = Some s'" "term_ok s'" "same_commands s1 s'"
        using terminal_process_runs [OF i(2) names ch1 ch(2) f six] by blast
      have "same_commands s s'" using i(3) s'(3) by (simp add: same_commands_def)
      then show thesis using that(2) [of s1 s'] i(1) True six tt s' by simp
    next
      case False
      then show thesis using that(3) [of s1] i(1) True tt terminal_process_overflow [OF i(2)] by simp
    qed
  qed
qed

text \<open>
  C32. The terminal task never reads or writes outside the input line, the line kept for the up key or the table
  of commands, whatever characters arrive, and keeps its indices in range, with one exception: a line of
  more than six words writes past the end of the array of words.
\<close>

theorem terminal_turn_safe:
  assumes "term_ok s" "names_ok names" "chain_ok s ds" "length names + length ds \<le> 255" "leaves_terminal cmd_func"
  shows "(terminal_turn names cmd_func c s = None \<longleftrightarrow>
      (\<exists>s1. terminal_input c s = Some (True, s1) \<and> TERM_ARGS_MAX_COUNT < length (words (line_of s1)))) \<and>
    (\<forall>s'. terminal_turn names cmd_func c s = Some s' \<longrightarrow> term_ok s' \<and> chain_ok s' ds)"
proof -
  from assms show ?thesis
    by (cases rule: terminal_turn_cases [where c = c]) (use assms(3) in \<open>auto simp: chain_ok_def same_commands_def\<close>)
qed

subsection \<open>Typing\<close>

definition plain :: "u8 \<Rightarrow> bool" where
  "plain c \<longleftrightarrow> c \<notin> {0, 8, 10, 13, 0x7F, UP_KEY_CHAR}"

text \<open>An empty line, and the line after some plain characters.\<close>

definition typed :: "u8 list \<Rightarrow> terminal \<Rightarrow> bool" where
  "typed cs s \<longleftrightarrow> buffers_ok s \<and> discard_char s = 0 \<and> term_in_idx s = int (length cs) \<and>
     term_in s = cs @ replicate (TERM_INPUT_BUFSIZE - length cs) 0"

lemma term_echo_plain:
  assumes "c \<noteq> 0x7F" "c \<noteq> UP_KEY_CHAR" "discard_char s = 0"
  shows "\<exists>s1. term_echo c s = (Some c, s1) \<and> term_tmp_idx s1 \<ge> 0 \<and> discard_char s1 = 0 \<and> printed s1 = printed s @ [c]"
proof -
  define s0 where "s0 = (if input_hook s then s\<lparr>heard := heard s @ [c]\<rparr> else s)"
  have f: "discard_char s0 = 0" "printed s0 = printed s" using assms(3) by (simp_all add: s0_def)
  define s1 where "s1 = put_char c s0"
  have "term_echo c s = (Some c, if c \<noteq> 13 then (if term_tmp_idx s1 \<ge> 0 then s1\<lparr>term_tmp_idx := term_tmp_idx s1 + 1\<rparr> else s1\<lparr>term_tmp_idx := 1\<rparr>)
      else s1\<lparr>term_tmp_idx := 0\<rparr>)"
    unfolding term_echo_def s0_def [symmetric] Let_def using assms(1,2) f(1) by (simp add: s1_def)
  then show ?thesis using f by (simp add: s1_def put_char_def)
qed

lemma type_plain:
  assumes t: "typed cs s" and c: "plain c" and n: "length cs < 30"
  shows "\<exists>s'. terminal_input c s = Some (False, s') \<and> typed (cs @ [c]) s' \<and> printed s' = printed s @ [c] \<and> same_commands s s'"
proof -
  note T = t [unfolded typed_def]
  have c': "c \<noteq> 0x7F" "c \<noteq> UP_KEY_CHAR" "c \<noteq> 13" "c \<noteq> 10" "c \<noteq> 8" using c by (auto simp: plain_def)
  obtain s1 where e: "term_echo c s = (Some c, s1)" "term_tmp_idx s1 \<ge> 0" "discard_char s1 = 0" "printed s1 = printed s @ [c]"
    using term_echo_plain [OF c'(1,2)] T by blast
  note f = term_echo_frame [OF e(1)]
  have up: "(cs @ replicate (32 - length cs) 0)[length cs := c] = (cs @ [c]) @ replicate (32 - Suc (length cs)) 0"
    using n by (simp add: list_update_append Suc_diff_Suc flip: replicate_Suc) (cases "32 - length cs"; simp)
  define s' where "s' = s1\<lparr>term_in := (cs @ [c]) @ replicate (32 - Suc (length cs)) 0, term_in_idx := int (length cs) + 1\<rparr>"
  have set: "array_set (term_in_idx s1) c (term_in s1) = Some ((cs @ [c]) @ replicate (32 - Suc (length cs)) 0)"
    using T f up n by (simp add: array_simps TERM_INPUT_BUFSIZE_def)
  have "terminal_input c s = Some (False, s')"
    using e set c' n f T by (simp add: terminal_input_def term_line_def s'_def TERM_INPUT_BUFSIZE_def)
  moreover have "buffers_ok s'"
    using T f n by (auto simp: buffers_ok_def s'_def TERM_INPUT_BUFSIZE_def nth_append)
  then have "typed (cs @ [c]) s'" using e(3) by (simp add: typed_def s'_def TERM_INPUT_BUFSIZE_def)
  moreover have "same_commands s s'" using f(5) by (simp add: same_commands_def s'_def)
  ultimately show ?thesis using e(4) by (simp add: s'_def)
qed

lemma type_enter:
  assumes t: "typed cs s" and cs: "\<forall>c \<in> set cs. plain c" "length cs \<le> 30"
  shows "\<exists>s'. terminal_input 13 s = Some (True, s') \<and> buffers_ok s' \<and> line_of s' = cs \<and> printed s' = printed s @ [13] \<and> same_commands s s' \<and>
    discard_char s' = 0"
proof -
  note T = t [unfolded typed_def]
  obtain s1 where e: "term_echo 13 s = (Some 13, s1)" "term_tmp_idx s1 \<ge> 0" "discard_char s1 = 0" "printed s1 = printed s @ [13]"
    using term_echo_plain [of 13 s] T by (auto simp: UP_KEY_CHAR_def)
  note f = term_echo_frame [OF e(1)]
  define s' where "s' = s1\<lparr>term_in_idx := int (length cs) + 1\<rparr>"
  have len: "length (cs @ replicate (32 - length cs) 0) = 32" using cs(2) by simp
  have undo: "(cs @ replicate (32 - length cs) 0)[length cs := 0] = cs @ replicate (32 - length cs) (0 :: u8)"
    using cs(2) by (intro nth_equalityI) (auto simp: nth_list_update nth_append)
  have "terminal_input 13 s = Some (True, s')"
    using e f T cs(2) undo len by (simp add: terminal_input_def term_line_def array_simps UP_KEY_CHAR_def TERM_INPUT_BUFSIZE_def s'_def)
  moreover have "buffers_ok s" using T by blast
  then have "buffers_ok s'" using f(1-3) by (simp add: buffers_ok_def s'_def)
  moreover have "line_of s' = cs"
    using T f cs by (simp add: line_of_def s'_def takeWhile_append2 plain_def TERM_INPUT_BUFSIZE_def)
  moreover have "same_commands s s'" using f(5) by (simp add: same_commands_def s'_def)
  ultimately show ?thesis using e by (simp add: s'_def)
qed


fun terminal_turns :: "u8 list list \<Rightarrow> command \<Rightarrow> u8 list \<Rightarrow> terminal \<Rightarrow> terminal option" where
  "terminal_turns names cmd_func [] s = Some s"
| "terminal_turns names cmd_func (c # cs) s = do { s1 \<leftarrow> terminal_turn names cmd_func c s; terminal_turns names cmd_func cs s1 }"

lemma terminal_turns_append:
  "terminal_turns names f (cs @ ds) s = do { s1 \<leftarrow> terminal_turns names f cs s; terminal_turns names f ds s1 }"
proof (induction cs arbitrary: s)
  case (Cons c cs)
  then show ?case by (cases "terminal_turn names f c s") simp_all
qed simp

lemma type_line:
  assumes "typed as s" "\<forall>c \<in> set cs. plain c" "length as + length cs \<le> 30"
  shows "\<exists>s'. terminal_turns names f cs s = Some s' \<and> typed (as @ cs) s' \<and> printed s' = printed s @ cs \<and> same_commands s s'"
  using assms
proof (induction cs arbitrary: as s)
  case (Cons c cs)
  obtain s1 where s1: "terminal_input c s = Some (False, s1)" "typed (as @ [c]) s1" "printed s1 = printed s @ [c]" "same_commands s s1"
    using type_plain [OF Cons.prems(1), of c] Cons.prems(2,3) by auto
  obtain s' where "terminal_turns names f cs s1 = Some s'" "typed ((as @ [c]) @ cs) s'" "printed s' = printed s1 @ cs" "same_commands s1 s'"
    using Cons.IH [OF s1(2)] Cons.prems(2,3) by auto
  then show ?case using s1 by (auto simp: terminal_turn_def same_commands_def)
qed (simp add: same_commands_def)

text \<open>
  C33. A command typed on an empty line, of at most 30 plain characters and six words, and ended with Enter is
  echoed and runs the command its first word names (the first of the table when no command has
  this name) with all its words as arguments; then the line is empty again.
\<close>

theorem typed_command_runs:
  assumes s: "typed [] s" and names: "names_ok names" and ch: "chain_ok s ds" "length names + length ds \<le> 255" and f: "leaves_terminal cmd_func"
    and cs: "\<forall>c \<in> set cs. plain c" "length cs \<le> 30" and ws: "words cs = w # ws" "length (w # ws) \<le> TERM_ARGS_MAX_COUNT"
  shows "\<exists>s' s1 argv. terminal_turns names cmd_func (cs @ [13]) s = Some s' \<and> list_all2 (cstr (term_in s1)) argv (w # ws) \<and>
    printed s1 = printed s @ cs @ [13, 13, 10] \<and> term_in s' = replicate TERM_INPUT_BUFSIZE 0 \<and> term_ok s' \<and>
    printed s' = printed (cmd_func (named_command names (dcmds s) ds w) argv s1) @ [13, 10, 62, 62]"
proof -
  obtain s2 where s2: "terminal_turns names cmd_func cs s = Some s2" "typed cs s2" "printed s2 = printed s @ cs" "same_commands s s2"
    using type_line [OF s cs(1)] cs(2) by auto
  obtain s3 where s3: "terminal_input 13 s2 = Some (True, s3)" "buffers_ok s3" "line_of s3 = cs" "printed s3 = printed s2 @ [13]" "same_commands s2 s3"
    using type_enter [OF s2(2) cs] by blast
  have ch3: "chain_ok s3 ds" "dcmds s3 = dcmds s" using ch(1) s2(4) s3(5) by (simp_all add: chain_ok_def same_commands_def)
  have six: "length (words (line_of s3)) \<le> TERM_ARGS_MAX_COUNT" using s3(3) ws by simp
  obtain s' where p: "terminal_process names cmd_func s3 = Some s'" "term_ok s'"
    "case words (line_of s3) of [] \<Rightarrow> printed s' = printed s3
     | w # ws \<Rightarrow> \<exists>argv s1. list_all2 (cstr (term_in s1)) argv (w # ws) \<and> printed s1 = printed s3 @ [13, 10] \<and>
         printed s' = printed (cmd_func (named_command names (dcmds s3) ds w) argv s1) @ [13, 10, 62, 62]"
    using terminal_process_runs [OF s3(2) names ch3(1) ch(2) f six] by blast
  have "terminal_turns names cmd_func (cs @ [13]) s = Some s'"
    using s2(1) s3(1) p(1) by (simp add: terminal_turns_append terminal_turn_def)
  moreover have "term_in s' = replicate TERM_INPUT_BUFSIZE 0"
    using p(1) by (auto simp: terminal_process_def bind_eq_Some_conv Let_def split: prod.splits)
  moreover obtain argv s1 where "list_all2 (cstr (term_in s1)) argv (w # ws)" "printed s1 = printed s @ cs @ [13, 13, 10]"
      "printed s' = printed (cmd_func (named_command names (dcmds s) ds w) argv s1) @ [13, 10, 62, 62]"
    using p(3) s3(3,4) s2(3) ch3(2) ws(1) by auto
  ultimately show ?thesis using p(2) by blast
qed

end
