(* ===== verification/Terminal_Examples.thy ===== *)
theory Terminal_Examples
  imports Terminal_Typing
begin

text \<open>The console of the simulator, before its first line, with commands that print their index.\<close>

definition console :: terminal where
  "console = terminal_init \<lparr>input_hook = False, heard = [], printed = [], term_in_idx = 0, term_tmp_idx = 0, discard_char = 0, cpi = 0,
     term_in = replicate TERM_INPUT_BUFSIZE 0, last_term_in = replicate TERM_INPUT_BUFSIZE 0, strtok_tmp = NULL, cmd_head = NULL,
     dcmds = \<lambda>_. \<lparr>cmd_name = [], cmd_description = [], next_cmd = NULL\<rparr>\<rparr>"

definition print_index :: command where
  "print_index r argv s = put_char (case r of Static c \<Rightarrow> word_of_nat c | Dynamic a \<Rightarrow> 255) s"

lemma console_ok: "typed [] console" "term_ok console" "chain_ok console []"
  by (simp_all add: console_def terminal_init_def put_char_def typed_def term_ok_def buffers_ok_def chain_ok_def TERM_INPUT_BUFSIZE_def)

lemma print_index_leaves: "leaves_terminal print_index"
  by (simp add: leaves_terminal_def print_index_def put_char_def same_commands_def)

lemma command_names_ok: "names_ok command_names"
  by (simp add: names_ok_def command_names_def text_of_def)

lemma terminal_turn_safe_witness:
  "\<exists>s'. terminal_turn command_names print_index 65 console = Some s' \<and> term_ok s'"
proof -
  have "terminal_input 65 console \<noteq> Some (True, s1)" for s1
    using type_plain [OF console_ok(1), of 65] by (auto simp: plain_def UP_KEY_CHAR_def)
  then show ?thesis
    using terminal_turn_safe [OF console_ok(2) command_names_ok console_ok(3) _ print_index_leaves, of 65] by (auto simp: command_names_def)
qed

lemma words_top: "words (text_of ''top  now'') = [text_of ''top'', text_of ''now'']"
  by (simp add: words.simps word_of_def rest_after_def term_delimiters_def text_of_def)

lemma index_top: "named_command command_names tab [] (text_of ''top'') = Static 2"
  by (simp add: named_command_def command_names_def position_def text_of_def)

lemma typed_command_runs_witness:
  "\<exists>s'. terminal_turns command_names print_index (text_of ''top  now'' @ [13]) console = Some s' \<and> term_ok s' \<and>
    printed s' = printed console @ text_of ''top  now'' @ [13, 13, 10] @ [2] @ [13, 10, 62, 62]"
proof -
  have p: "\<forall>c \<in> set (text_of ''top  now''). plain c" "length (text_of ''top  now'') \<le> 30" "length command_names + length ([] :: nat list) \<le> 255"
    "length [text_of ''top'', text_of ''now''] \<le> TERM_ARGS_MAX_COUNT"
    by (simp_all add: plain_def UP_KEY_CHAR_def text_of_def command_names_def TERM_ARGS_MAX_COUNT_def)
  from typed_command_runs [OF console_ok(1) command_names_ok console_ok(3) p(3) print_index_leaves p(1,2) words_top p(4)]
  show ?thesis by (auto simp: print_index_def put_char_def index_top)
qed

text \<open>A line of seven words.\<close>

lemma seven_words: "TERM_ARGS_MAX_COUNT < length (words (text_of ''a b c d e f g''))"
  by (simp add: words.simps word_of_def rest_after_def term_delimiters_def text_of_def TERM_ARGS_MAX_COUNT_def)

lemma seven_words_overflow: "terminal_turns command_names print_index (text_of ''a b c d e f g'' @ [13]) console = None"
proof -
  have p: "\<forall>c \<in> set (text_of ''a b c d e f g''). plain c" "length (text_of ''a b c d e f g'') \<le> 30"
    by (simp_all add: plain_def UP_KEY_CHAR_def text_of_def)
  obtain s2 where s2: "terminal_turns command_names print_index (text_of ''a b c d e f g'') console = Some s2" "typed (text_of ''a b c d e f g'') s2"
    using type_line [OF console_ok(1) p(1), of command_names print_index] p(2) by auto
  obtain s3 where s3: "terminal_input 13 s2 = Some (True, s3)" "buffers_ok s3" "line_of s3 = text_of ''a b c d e f g''"
    using type_enter [OF s2(2) p] by blast
  have "terminal_process command_names print_index s3 = None"
    by (rule terminal_process_overflow [OF s3(2)]) (simp only: s3(3) seven_words)
  then show ?thesis using s2(1) s3(1) by (simp add: terminal_turns_append terminal_turn_def)
qed

end
