(* ===== verification/OS_Info.thy ===== *)
theory OS_Info
  imports String_Laws Umm_Malloc Calendar "HOL-Library.Signed_Division"
begin

text \<open>
  \<open>OSInfo.c\<close>: the reports of the console. Each writes its text through a pointer that \<open>mem_cpy\<close> advances; the text
  written so far is a list of bytes, and \<open>cap\<close> the size of the caller's buffer. \<open>PrintDecimal\<close> writes
  into arrays of its callers, whose sizes are those of the source.
\<close>

definition emit :: "nat \<Rightarrow> u8 list \<Rightarrow> u8 list \<Rightarrow> u8 list option" where
  "emit cap bs out = (if length out + length bs \<le> cap then Some (out @ bs) else None)"

text \<open>\<open>mem_cpy\<close> copies a string without its zero.\<close>

definition mem_cpy :: "nat \<Rightarrow> memory \<Rightarrow> nat \<Rightarrow> u8 list \<Rightarrow> u8 list option" where
  "mem_cpy cap m p out = do { n \<leftarrow> strlen m p; emit cap (take n (drop p m)) out }"

definition put_text :: "nat \<Rightarrow> string \<Rightarrow> u8 list \<Rightarrow> u8 list option" where
  "put_text cap s out = mem_cpy cap (text_of s @ [0]) 0 out"

definition end_of_string :: "nat \<Rightarrow> u8 list \<Rightarrow> u8 list option" where
  "end_of_string cap out = emit cap [0] out"

subsection \<open>Decimal numbers\<close>

definition int16 :: "int \<Rightarrow> int" where
  "int16 i = signed_take_bit 15 i"

fun decimal_loop :: "nat \<Rightarrow> int \<Rightarrow> memory \<Rightarrow> (nat \<times> memory) option" where
  "decimal_loop 0 val buff = Some (0, buff)"
| "decimal_loop (Suc i) val buff = do {
     let backup = take_bit 16 val;
     let val1 = int16 (val sdiv 10);
     b \<leftarrow> set_byte (Suc i) (word_of_int (backup - val1 * 10 + 48)) buff;
     if val1 = 0 then Some (i, b) else decimal_loop i val1 b }"

definition PrintDecimal :: "int \<Rightarrow> memory \<Rightarrow> (nat \<times> memory) option" where
  "PrintDecimal val buff = do {
     b1 \<leftarrow> fill 0 32 6 buff;
     b2 \<leftarrow> set_byte 6 0 b1;
     let (val1, s) = (if val < 0 then (int16 (- val), 45) else (val, 32));
     (i, b3) \<leftarrow> decimal_loop 5 val1 b2;
     b4 \<leftarrow> set_byte i s b3;
     Some (if b4 ! i = 45 then i else i + 1, b4) }"

text \<open>A number into a fresh array of \<open>n\<close> bytes, copied from position \<open>p\<close>, or from the pointer \<open>PrintDecimal\<close> returns.\<close>

definition put_decimal_from :: "nat \<Rightarrow> nat \<Rightarrow> int \<Rightarrow> nat \<Rightarrow> u8 list \<Rightarrow> u8 list option" where
  "put_decimal_from cap n val p out = do { (_, str) \<leftarrow> PrintDecimal val (replicate n 0); mem_cpy cap str p out }"

definition put_decimal :: "nat \<Rightarrow> nat \<Rightarrow> int \<Rightarrow> u8 list \<Rightarrow> u8 list option" where
  "put_decimal cap n val out = do { (p, str) \<leftarrow> PrintDecimal val (replicate n 0); mem_cpy cap str p out }"

subsection \<open>The list of tasks\<close>

text \<open>The search for 16 unused words below the stack pointer; \<open>word_at\<close> is the memory of the stacks.\<close>

partial_function (option) unused_words :: "(u32 \<Rightarrow> u32) \<Rightarrow> u32 \<Rightarrow> nat \<Rightarrow> u32 \<Rightarrow> (nat \<times> u32) option" where
  "unused_words word_at sp_end i sp_address =
    (if i < 16 then
       (if sp_address \<le> sp_end then Some (i, sp_address)
        else unused_words word_at sp_end (if word_at sp_address = 0 then i + 1 else 0) (sp_address - 4))
     else Some (i, sp_address))"

definition critical :: "kernel \<Rightarrow> kernel" where
  "critical k = ExitCritical (EnterCritical k)"

definition task_state :: "u32 \<Rightarrow> kernel \<Rightarrow> u8" where
  "task_state pmask k =
    (if OSBlockedList k AND pmask = 0 then 66
     else if OSReadyList k AND pmask = pmask then 82 else 83)"

definition stack_used :: "(u32 \<Rightarrow> u32) \<Rightarrow> u32 \<Rightarrow> nat \<Rightarrow> kernel \<Rightarrow> u16 option" where
  "stack_used word_at STACK j k = do {
     let sp_end = (if j = 1 then STACK else StackInit (ContextTask k (j - 1)));
     (i, sp_address) \<leftarrow> unused_words word_at sp_end 0 (StackPoint (ContextTask k j));
     Some (ucast (StackInit (ContextTask k j) - (sp_address + word_of_nat (i * 4)))) }"

definition task_line :: "(u32 \<Rightarrow> u32) \<Rightarrow> u32 \<Rightarrow> nat \<Rightarrow> nat \<Rightarrow> kernel \<times> u8 list \<Rightarrow> (kernel \<times> u8 list) option" where
  "task_line word_at STACK cap j s = do {
     let (k, out) = s;
     Task \<leftarrow> task_at j k;
     if Priority Task \<noteq> EMPTY_PRIO then do {
       o1 \<leftarrow> emit cap [91] out;
       o2 \<leftarrow> (if j < 10 then do { a \<leftarrow> emit cap [word_of_nat j + 48] o1; put_text cap '']  '' a }
              else do { a \<leftarrow> put_decimal_from cap 9 (int j) 4 o1; put_text cap ''] '' a });
       o3 \<leftarrow> mem_cpy cap (text_of (TaskName Task) @ [0]) 0 o2;
       let z = length o3 - length o2;
       o4 \<leftarrow> emit cap (replicate (24 - z) 32) o3;
       o5 \<leftarrow> put_text cap ''  '' o4;
       pmask \<leftarrow> PriorityMask (Priority Task);
       o6 \<leftarrow> emit cap [task_state pmask k] o5;
       let k1 = critical k;
       o7 \<leftarrow> put_text cap ''      '' o6;
       let prio = Priority (ContextTask k1 j);
       let k2 = critical k1;
       o8 \<leftarrow> put_decimal_from cap 9 (uint prio) 2 o7;
       o9 \<leftarrow> put_text cap ''       '' o8;
       let k3 = critical (critical k2);
       VirtualStack \<leftarrow> stack_used word_at STACK j k3;
       o10 \<leftarrow> put_decimal_from cap 9 (sint VirtualStack) 0 o9;
       o11 \<leftarrow> emit cap [10, 13] o10;
       Some (k3, o11) }
     else Some (k, out) }"

fun task_lines :: "(u32 \<Rightarrow> u32) \<Rightarrow> u32 \<Rightarrow> nat \<Rightarrow> nat list \<Rightarrow> kernel \<times> u8 list \<Rightarrow> (kernel \<times> u8 list) option" where
  "task_lines word_at STACK cap [] s = Some s"
| "task_lines word_at STACK cap (j # js) s = do { s1 \<leftarrow> task_line word_at STACK cap j s; task_lines word_at STACK cap js s1 }"

definition stars :: "u8 list" where
  "stars = [10, 13] @ replicate 59 42 @ [10, 13]"

definition OSTaskList :: "(u32 \<Rightarrow> u32) \<Rightarrow> u32 \<Rightarrow> nat \<Rightarrow> kernel \<Rightarrow> (kernel \<times> u8 list) option" where
  "OSTaskList word_at STACK cap k = do {
     o1 \<leftarrow> emit cap stars [];
     o2 \<leftarrow> emit cap (text_of ''ID   NAME                    STATE   PRIORITY   STACK SIZE'' @ [10, 13]) o1;
     o3 \<leftarrow> emit cap (drop 2 stars) o2;
     (k1, o4) \<leftarrow> task_lines word_at STACK cap [1..<Suc (unat (NumberOfInstalledTasks k))] (k, o3);
     o5 \<leftarrow> emit cap [10, 13] o4;
     o6 \<leftarrow> end_of_string cap o5;
     Some (k1, o6) }"

subsection \<open>Memory, uptime and load\<close>

definition OSAvailableMemory :: "nat \<Rightarrow> kernel \<Rightarrow> umm_heap \<Rightarrow> (kernel \<times> u8 list) option" where
  "OSAvailableMemory cap k h = do {
     o1 \<leftarrow> emit cap ([10, 13] @ text_of ''***** BRTOS Memory Info *****'' @ [10, 13]) [];
     o2 \<leftarrow> put_text cap ''STATIC TASK MEMORY HEAP:   '' o1;
     let address = iStackAddress k * word_of_nat sizeof_OS_CPU_TYPE;
     let k1 = critical k;
     o3 \<leftarrow> put_decimal_from cap 8 (sint address) 1 o2;
     o4 \<leftarrow> put_text cap '' of '' o3;
     o5 \<leftarrow> put_decimal cap 8 (int HEAP_SIZE) o4;
     o6 \<leftarrow> emit cap ([10, 13] @ text_of ''STATIC QUEUE MEMORY HEAP:  '') o5;
     let address2 = iQueueAddress k1 * word_of_nat sizeof_OS_CPU_TYPE;
     let k2 = critical k1;
     o7 \<leftarrow> put_decimal_from cap 8 (sint address2) 1 o6;
     o8 \<leftarrow> put_text cap '' of '' o7;
     o9 \<leftarrow> put_decimal cap 8 (int QUEUE_HEAP_SIZE) o8;
     o10 \<leftarrow> emit cap [10, 13] o9;
     o11 \<leftarrow> put_text cap ''DYNAMIC QUEUE MEMORY HEAP: '' o10;
     (used, k3) \<leftarrow> OSGetUsedHeapSize k2 h;
     o12 \<leftarrow> put_decimal_from cap 8 (sint (ucast used :: u16)) 1 o11;
     o13 \<leftarrow> put_text cap '' of '' o12;
     o14 \<leftarrow> put_decimal cap 8 (int DYNAMIC_HEAP_SIZE) o13;
     o15 \<leftarrow> emit cap [10, 13] o14;
     o16 \<leftarrow> end_of_string cap o15;
     Some (k3, o16) }"

text \<open>\<open>n\<close> is the size of the array \<open>str\<close>; in the code it is 6.\<close>

definition uptime_text :: "nat \<Rightarrow> nat \<Rightarrow> kernel \<Rightarrow> clock \<Rightarrow> (kernel \<times> u8 list) option" where
  "uptime_text n cap k c = do {
     let Uptime = OSUptime c;
     let UpDate = OSUpDate c;
     let k1 = critical k;
     o1 \<leftarrow> emit cap ([10, 13] @ text_of ''BRTOS UPTIME: '') [];
     o2 \<leftarrow> (if RTC_Day UpDate > 0 then do { a \<leftarrow> put_decimal cap n (uint (RTC_Day UpDate)) o1; put_text cap ''d '' a } else Some o1);
     o3 \<leftarrow> put_decimal cap n (uint (RTC_Hour Uptime)) o2;
     o4 \<leftarrow> put_text cap ''h '' o3;
     o5 \<leftarrow> put_decimal cap n (uint (RTC_Minute Uptime)) o4;
     o6 \<leftarrow> put_text cap ''m '' o5;
     o7 \<leftarrow> put_decimal cap n (uint (RTC_Second Uptime)) o6;
     o8 \<leftarrow> emit cap ([115, 10, 13]) o7;
     o9 \<leftarrow> end_of_string cap o8;
     Some (k1, o9) }"

definition OSUptimeInfo :: "nat \<Rightarrow> kernel \<Rightarrow> clock \<Rightarrow> (kernel \<times> u8 list) option" where
  "OSUptimeInfo cap k c = uptime_text 6 cap k c"

definition load_percent :: "nat \<Rightarrow> u32 \<Rightarrow> u8 list \<Rightarrow> u8 list option" where
  "load_percent cap percent out =
    (let cent = ucast (percent div 100) :: u8;
         dez = ucast ((percent - ucast cent * 100) div 10) :: u8
     in do {
       o1 \<leftarrow> (if cent + 48 \<noteq> 48 then emit cap [cent + 48] out else Some out);
       o2 \<leftarrow> emit cap [dez + 48] o1;
       o3 \<leftarrow> emit cap [46] o2;
       o4 \<leftarrow> emit cap [ucast (percent mod 10) + 48] o3;
       emit cap [37] o4 })"

definition OSCPULoad :: "nat \<Rightarrow> kernel \<Rightarrow> (kernel \<times> u8 list) option" where
  "OSCPULoad cap k = do {
     let percent = (ucast (LastOSDuty k) :: u32);
     let k1 = critical k;
     o1 \<leftarrow> emit cap ([10, 13] @ text_of ''CPU LOAD: '') [];
     o2 \<leftarrow> (if percent \<ge> 1000 then put_text cap ''100 %'' o1 else load_percent cap percent o1);
     o3 \<leftarrow> emit cap [10, 13] o2;
     o4 \<leftarrow> end_of_string cap o3;
     Some (k1, o4) }"

end
