(* ===== verification/OS_Info_Laws.thy ===== *)
theory OS_Info_Laws
  imports OS_Info
begin

text \<open>The text of the reports: decimal numbers first, then whole lines.\<close>

subsection \<open>Decimal numbers\<close>

fun digits :: "nat \<Rightarrow> u8 list" where
  "digits n = (if n < 10 then [word_of_nat (n + 48)] else digits (n div 10) @ [word_of_nat (n mod 10 + 48)])"

declare digits.simps [simp del]

definition decimal :: "int \<Rightarrow> u8 list" where
  "decimal i = (if i < 0 then 45 # digits (nat (- i)) else digits (nat i))"

text \<open>The number a text of digits stands for.\<close>

definition value_of_digits :: "u8 list \<Rightarrow> nat" where
  "value_of_digits s = foldl (\<lambda>n c. n * 10 + (unat c - 48)) 0 s"

definition value_of_decimal :: "u8 list \<Rightarrow> int" where
  "value_of_decimal s = (case s of [] \<Rightarrow> 0 | c # t \<Rightarrow> if c = 45 then - int (value_of_digits t) else int (value_of_digits s))"

lemma digits_pos: "0 < length (digits n)"
  by (subst digits.simps) simp

lemma digits_length: "0 < i \<Longrightarrow> n < 10 ^ i \<Longrightarrow> length (digits n) \<le> i"
proof (induction i arbitrary: n)
  case (Suc i)
  show ?case
  proof (cases "n < 10")
    case True
    then show ?thesis by (simp add: digits.simps [of n])
  next
    case False
    then have "0 < i" "n div 10 < 10 ^ i" using Suc.prems by (cases i; simp add: less_mult_imp_div_less mult.commute)+
    then show ?thesis using Suc.IH [of "n div 10"] False by (simp add: digits.simps [of n])
  qed
qed simp

lemma digit_unat: "d < 10 \<Longrightarrow> unat (word_of_nat (d + 48) :: u8) = d + 48"
  by (simp add: unat_of_nat take_bit_nat_eq_self del: of_nat_add)

lemma digits_are: "c \<in> set (digits n) \<Longrightarrow> 48 \<le> unat c \<and> unat c \<le> 57"
proof (induction n rule: digits.induct)
  case (1 n)
  show ?case
  proof (cases "n < 10")
    case True
    then show ?thesis using 1(2) digit_unat [of n] by (simp add: digits.simps [of n] del: of_nat_add)
  next
    case False
    then show ?thesis using 1 digit_unat [of "n mod 10"] by (auto simp: digits.simps [of n] simp del: of_nat_add)
  qed
qed

lemma digits_no_nul: "0 \<notin> set (digits n)"
  using digits_are [of 0 n] by auto

lemma value_of_digits: "value_of_digits (digits n) = n"
proof (induction n rule: digits.induct)
  case (1 n)
  then show ?case
    using digit_unat [of n] digit_unat [of "n mod 10"]
    by (simp add: digits.simps [of n] value_of_digits_def del: of_nat_add)
qed

lemma decimal_reads_back: "value_of_decimal (decimal i) = i"
proof (cases "i < 0")
  case True
  then show ?thesis by (simp add: value_of_decimal_def decimal_def value_of_digits)
next
  case False
  obtain c t where ct: "digits (nat i) = c # t" using digits_pos [of "nat i"] by (cases "digits (nat i)") auto
  then have "c \<noteq> 45" using digits_are [of c "nat i"] by auto
  then show ?thesis using False value_of_digits [of "nat i"] by (simp add: value_of_decimal_def decimal_def ct)
qed

lemma decimal_loop_digits:
  assumes "length pre = i" "0 < i" "n < 10 ^ i" "n < 2 ^ 15"
  shows "decimal_loop i (int n) (a # pre @ post) = Some (i - length (digits n), a # take (i - length (digits n)) pre @ digits n @ post)"
  using assms
proof (induction i arbitrary: n pre post)
  case (Suc i)
  obtain x pre1 where pre: "pre = pre1 @ [x]" "length pre1 = i" using Suc.prems(1) by (metis length_Suc_conv_rev)
  have q: "int n sdiv 10 = int (n div 10)" by (cases "n = 0") (simp_all add: signed_divide_int_def zdiv_int)
  have i16: "int16 (int (n div 10)) = int (n div 10)" using Suc.prems(4) by (simp add: int16_def signed_take_bit_int_eq_self)
  have t: "take_bit 16 (int n) = int n" using Suc.prems(4) by (simp add: take_bit_int_eq_self)
  have d: "int n - int (n div 10) * 10 + 48 = int (n mod 10 + 48)" by (simp add: minus_div_mult_eq_mod [symmetric] of_nat_diff)
  have set: "set_byte (Suc i) c (a # pre @ post) = Some (a # pre1 @ c # post)" for c
    using pre by (simp add: set_byte_def list_update_append)
  have run: "decimal_loop (Suc i) (int n) (a # pre @ post) =
    (if n div 10 = 0 then Some (i, a # pre1 @ word_of_nat (n mod 10 + 48) # post)
     else decimal_loop i (int (n div 10)) (a # pre1 @ word_of_nat (n mod 10 + 48) # post))"
    unfolding decimal_loop.simps q i16 t d Let_def set by (simp del: of_nat_add)
  show ?case
  proof (cases "n < 10")
    case True
    then show ?thesis unfolding run using pre by (simp add: digits.simps [of n] del: of_nat_add)
  next
    case False
    have i0: "0 < i" "n div 10 < 10 ^ i" using Suc.prems False by (cases i; simp add: less_mult_imp_div_less mult.commute)+
    have "n div 10 \<noteq> 0" using False by (simp add: div_eq_0_iff)
    moreover have "length (digits (n div 10)) \<le> i" by (rule digits_length [OF i0])
    ultimately show ?thesis
      unfolding run using Suc.IH [OF pre(2) i0] Suc.prems(4) False pre by (simp add: digits.simps [of n] del: of_nat_add)
  qed
qed simp

text \<open>What \<open>PrintDecimal\<close> leaves in the first seven bytes: blanks, a sign or one blank more, the digits, a zero.\<close>

definition decimal_field :: "int \<Rightarrow> u8 list" where
  "decimal_field i = replicate (6 - length (decimal i)) 32 @ decimal i"

lemma decimal_length: "-32768 < i \<Longrightarrow> i < 32768 \<Longrightarrow> 1 \<le> length (decimal i) \<and> length (decimal i) \<le> 6 \<and> (0 \<le> i \<longrightarrow> length (decimal i) \<le> 5)"
  using digits_length [of 5 "nat (- i)"] digits_length [of 5 "nat i"] digits_pos [of "nat i"] nat_less_iff [of i 100000]
  by (auto simp: decimal_def Suc_leI)

lemma PrintDecimal_writes:
  assumes v: "-32768 < i" "i < 32768" and n: "7 \<le> length buff"
  shows "PrintDecimal i buff = Some (6 - length (decimal i), decimal_field i @ [0] @ drop 7 buff)"
proof -
  define d where "d = nat \<bar>i\<bar>"
  let ?n = "5 - length (digits d)" and ?s = "if i < 0 then 45 else (32 :: u8)"
  have len: "1 \<le> length (digits d)" "length (digits d) \<le> 5" using digits_length [of 5 d] digits_pos [of d] v by (simp_all add: d_def Suc_leI)
  obtain xs rest where buff: "buff = xs @ rest" "length xs = 7" using n by (metis append_take_drop_id length_take min.absorb2)
  obtain x0 x1 x2 x3 x4 x5 x6 where xs: "xs = [x0, x1, x2, x3, x4, x5, x6]" using buff(2) by (auto simp: numeral_eq_Suc length_Suc_conv)
  have f: "fill 0 32 6 buff = Some ([32, 32, 32, 32, 32, 32, x6] @ rest)" by (simp add: buff xs numeral_eq_Suc set_byte_def)
  have z: "set_byte 6 0 ([32, 32, 32, 32, 32, 32, x6] @ rest) = Some (32 # replicate 5 32 @ 0 # rest)" by (simp add: set_byte_def numeral_eq_Suc)
  have va: "(if i < 0 then (int16 (- i), 45) else (i, 32)) = (int d, ?s)"
    using v by (auto simp: d_def int16_def signed_take_bit_int_eq_self)
  have lo: "decimal_loop 5 (int d) (32 # replicate 5 32 @ 0 # rest) = Some (?n, 32 # replicate ?n 32 @ digits d @ 0 # rest)"
    using decimal_loop_digits [of "replicate 5 32" 5 d 32 "0 # rest"] v by (simp add: d_def)
  have shift: "(32 # replicate k 32 @ ys)[k := c] = replicate k 32 @ c # (ys :: u8 list)" for c ys k
    by (induction k) simp_all
  have st: "set_byte ?n ?s (32 # replicate ?n 32 @ digits d @ 0 # rest) = Some (replicate ?n 32 @ ?s # digits d @ 0 # rest)"
    unfolding set_byte_def shift by simp
  have "PrintDecimal i buff = Some (if ?s = 45 then ?n else ?n + 1, replicate ?n 32 @ ?s # digits d @ 0 # rest)"
    unfolding PrintDecimal_def f z va bind.bind_lunit Let_def prod.case lo st by (simp add: nth_append)
  moreover have "replicate ?n 32 @ [?s] @ digits d = decimal_field i"
  proof (cases "i < 0")
    case True
    then have "decimal i = 45 # digits d" by (simp add: decimal_def d_def)
    then show ?thesis using True by (simp add: decimal_field_def)
  next
    case False
    then have "decimal i = digits d" by (simp add: decimal_def d_def)
    moreover have "6 - length (digits d) = ?n + 1" using len by simp
    ultimately show ?thesis using False by (simp add: decimal_field_def replicate_app_Cons_same)
  qed
  moreover have "(if ?s = 45 then ?n else ?n + 1) = 6 - length (decimal i)"
    using len by (auto simp: decimal_def d_def)
  moreover have "drop 7 buff = rest" using buff by simp
  ultimately show ?thesis by simp
qed

lemma decimal_no_nul: "0 \<notin> set (decimal i)"
  using digits_no_nul by (simp add: decimal_def)

lemma PrintDecimal_overflows: "n < 7 \<Longrightarrow> PrintDecimal i (replicate n 0) = None"
proof -
  assume "n < 7"
  then consider "n = 0" | "n = 1" | "n = 2" | "n = 3" | "n = 4" | "n = 5" | "n = 6" by linarith
  then show ?thesis by cases (simp_all add: PrintDecimal_def numeral_eq_Suc set_byte_def)
qed

subsection \<open>Writing to the caller's buffer\<close>

lemma emit_Some: "length out + length bs \<le> cap \<Longrightarrow> emit cap bs out = Some (out @ bs)"
  by (simp add: emit_def)

lemma mem_cpy_cstr: "cstr m p s \<Longrightarrow> mem_cpy cap m p out = emit cap s out"
proof -
  assume c: "cstr m p s"
  then have "take (length s) (drop p m) = s" by (intro nth_equalityI) (auto simp: cstr_iff)
  then show ?thesis by (simp add: mem_cpy_def strlen_cstr [OF c])
qed

lemma cstr_text: "0 \<notin> set s \<Longrightarrow> cstr (xs @ s @ 0 # ys) (length xs) s"
  by (auto simp: cstr_iff nth_append in_set_conv_nth)

lemma mem_cpy_text: "0 \<notin> set s \<Longrightarrow> mem_cpy cap (s @ [0]) 0 out = emit cap s out"
  using mem_cpy_cstr [OF cstr_text [of s "[]" "[]"]] by simp

lemma put_text_emit: "0 \<notin> set (text_of s) \<Longrightarrow> put_text cap s out = emit cap (text_of s) out"
  by (simp add: put_text_def mem_cpy_text)

lemma put_decimal_emit:
  assumes "-32768 < i" "i < 32768" "7 \<le> n"
  shows "put_decimal cap n i out = emit cap (decimal i) out"
proof -
  have "cstr (decimal_field i @ [0] @ drop 7 (replicate n 0)) (6 - length (decimal i)) (decimal i)"
    using cstr_text [OF decimal_no_nul [of i], of "replicate (6 - length (decimal i)) 32"] by (simp add: decimal_field_def)
  then show ?thesis using PrintDecimal_writes [OF assms(1,2), of "replicate n 0"] assms(3) by (simp add: put_decimal_def mem_cpy_cstr)
qed

lemma put_decimal_from_emit:
  assumes "-32768 < i" "i < 32768" "7 \<le> n" "p \<le> 6"
  shows "put_decimal_from cap n i p out = emit cap (drop p (decimal_field i)) out"
proof -
  have len: "length (decimal_field i) = 6" using decimal_length [OF assms(1,2)] by (simp add: decimal_field_def)
  have "0 \<notin> set (drop p (decimal_field i))" using decimal_no_nul by (auto simp: decimal_field_def dest: in_set_dropD)
  then have "cstr (take p (decimal_field i) @ drop p (decimal_field i) @ 0 # drop 7 (replicate n 0)) p (drop p (decimal_field i))"
    using cstr_text [of "drop p (decimal_field i)" "take p (decimal_field i)"] len assms(4) by simp
  then have "cstr (decimal_field i @ [0] @ drop 7 (replicate n 0)) p (drop p (decimal_field i))" by (simp flip: append_assoc)
  then show ?thesis using PrintDecimal_writes [OF assms(1,2), of "replicate n 0"] assms(3) by (simp add: put_decimal_from_def mem_cpy_cstr)
qed

lemma put_decimal_overflows: "n < 7 \<Longrightarrow> put_decimal cap n i out = None"
  by (simp add: put_decimal_def PrintDecimal_overflows)

subsection \<open>Uptime\<close>

definition byte_decimal :: "u8 \<Rightarrow> u8 list" where
  "byte_decimal b = decimal (uint b)"

lemma byte_range: "-32768 < uint (b :: u8)" "uint (b :: u8) < 32768"
  using unsigned_less [of b, where 'a = int] less_le_trans [OF _ unsigned_greater_eq, of "-32768 :: int" b] by simp_all

lemma byte_decimal_length: "length (byte_decimal b) \<le> 5"
  using decimal_length [OF byte_range] by (simp add: byte_decimal_def)

definition uptime_line :: "clock \<Rightarrow> u8 list" where
  "uptime_line c = [10, 13] @ text_of ''BRTOS UPTIME: '' @
     (if RTC_Day (Data c) > 0 then byte_decimal (RTC_Day (Data c)) @ text_of ''d '' else []) @
     byte_decimal (RTC_Hour (Hora c)) @ text_of ''h '' @ byte_decimal (RTC_Minute (Hora c)) @ text_of ''m '' @
     byte_decimal (RTC_Second (Hora c)) @ text_of ''s'' @ [10, 13, 0]"

lemma units_no_nul: "0 \<notin> set (text_of ''d '')" "0 \<notin> set (text_of ''h '')" "0 \<notin> set (text_of ''m '')"
  by (simp_all add: text_of_def)

lemma put_byte: "7 \<le> n \<Longrightarrow> put_decimal cap n (uint (b :: u8)) out = emit cap (byte_decimal b) out"
  by (simp add: put_decimal_emit byte_range byte_decimal_def)

lemma uptime_text_writes:
  assumes "7 \<le> n" "46 \<le> cap"
  shows "uptime_text n cap k c = Some (critical k, uptime_line c)"
proof -
  note l = byte_decimal_length [of "RTC_Day (Data c)"] byte_decimal_length [of "RTC_Hour (Hora c)"]
    byte_decimal_length [of "RTC_Minute (Hora c)"] byte_decimal_length [of "RTC_Second (Hora c)"]
  have t: "length (text_of s) = length s" for s by (simp add: text_of_def)
  have s: "text_of ''s'' = [115]" by (simp add: text_of_def)
  show ?thesis
    using assms l
    by (simp add: uptime_text_def Let_def uptime_line_def OSUptime_def OSUpDate_def put_byte put_text_emit units_no_nul emit_Some end_of_string_def t s)
qed

lemma OSUptimeInfo_overflows: "OSUptimeInfo cap k c = None"
proof -
  have "put_decimal cap 6 i out = None" for i out by (rule put_decimal_overflows) simp
  then show ?thesis by (simp add: OSUptimeInfo_def uptime_text_def emit_def)
qed

end
