(* ===== verification/OS_Info_Reports.thy ===== *)
theory OS_Info_Reports
  imports OS_Info_Laws
begin

text \<open>The reports of memory, load and tasks, each as the text it writes.\<close>

subsection \<open>CPU load\<close>

definition load_line :: "nat \<Rightarrow> u8 list" where
  "load_line n = [10, 13] @ text_of ''CPU LOAD: '' @
     (if n \<ge> 1000 then text_of ''100 %'' else digits (n div 10) @ [46] @ digits (n mod 10) @ [37]) @ [10, 13, 0]"

lemma digits_small: "n < 10 \<Longrightarrow> digits n = [word_of_nat n + 48]"
  by (simp add: digits.simps [of n] add.commute)

lemma digits_two: "10 \<le> n \<Longrightarrow> n < 100 \<Longrightarrow> digits n = [word_of_nat (n div 10) + 48, word_of_nat (n mod 10) + 48]"
  by (simp add: digits.simps [of n] digits_small add.commute)

lemma ucast_nat: "ucast (word_of_nat n :: u32) = (word_of_nat n :: u8)"
  by (simp add: word_unat_eq_iff unsigned_ucast_eq unat_of_nat take_bit_eq_mod mod_mod_cancel)

lemma load_percent_digits:
  assumes n: "n < 1000" and cap: "length out + 5 \<le> cap"
  shows "load_percent cap (word_of_nat n) out = Some (out @ digits (n div 10) @ [46] @ digits (n mod 10) @ [37])"
proof -
  have u: "unat (word_of_nat m :: u32) = m" if "m < 1000" for m using that by (simp add: unat_of_nat take_bit_nat_eq_self)
  have dv: "(word_of_nat n :: u32) div 100 = word_of_nat (n div 100)" "(word_of_nat n :: u32) mod 10 = word_of_nat (n mod 10)"
    using n u by (simp_all add: word_unat_eq_iff unat_div unat_mod)
  have c: "ucast ((word_of_nat n :: u32) div 100) = (word_of_nat (n div 100) :: u8)" unfolding dv by (rule ucast_nat)
  have wide: "ucast (word_of_nat (n div 100) :: u8) = (word_of_nat (n div 100) :: u32)"
    using n by (simp add: word_unat_eq_iff unat_of_nat unsigned_ucast_eq take_bit_nat_eq_self)
  have "(word_of_nat n :: u32) - word_of_nat (n div 100) * 100 = word_of_nat (n - n div 100 * 100)"
    by (simp add: of_nat_diff)
  also have "n - n div 100 * 100 = n mod 100" by (simp add: minus_div_mult_eq_mod)
  finally have rest: "(word_of_nat n :: u32) - word_of_nat (n div 100) * 100 = word_of_nat (n mod 100)" .
  have "(word_of_nat (n mod 100) :: u32) div 10 = word_of_nat (n mod 100 div 10)"
    using u [of "n mod 100"] u [of "n mod 100 div 10"] by (simp add: word_unat_eq_iff unat_div)
  then have d: "ucast ((word_of_nat (n mod 100) :: u32) div 10) = (word_of_nat (n mod 100 div 10) :: u8)" by (simp add: ucast_nat)
  have m: "ucast (word_of_nat (n mod 10) :: u32) = (word_of_nat (n mod 10) :: u8)" by (rule ucast_nat)
  have z: "(word_of_nat (n div 100) :: u8) = 0 \<longleftrightarrow> n < 100" using n by (auto simp: word_unat_eq_iff unat_of_nat take_bit_nat_eq_self)
  have ten: "n mod 100 div 10 = n div 10 mod 10" using mod_mult2_eq [of n 10 10] by simp
  have "digits (n div 10) = (if n < 100 then [] else [word_of_nat (n div 100) + 48]) @ [word_of_nat (n mod 100 div 10) + 48]"
    using n digits_small [of "n div 10"] digits_two [of "n div 10"] by (auto simp: ten div_mult2_eq [symmetric])
  then show ?thesis
    using cap n unfolding load_percent_def c wide rest d dv(2) m Let_def by (auto simp: z emit_Some digits_small)
qed

lemma text_length [simp]: "length (text_of s) = length s"
  by (simp add: text_of_def)

lemma OSCPULoad_writes:
  assumes cap: "22 \<le> cap"
  shows "OSCPULoad cap k = Some (critical k, load_line (unat (LastOSDuty k)))"
proof -
  define n where "n = unat (LastOSDuty k)"
  have n: "n < 2 ^ 16" using unsigned_less [of "LastOSDuty k", where 'a = nat] by (simp add: n_def)
  have w: "(ucast (LastOSDuty k) :: u32) = word_of_nat n" by (simp add: n_def)
  have un: "unat (word_of_nat n :: u32) = n" using n by (simp add: unat_of_nat take_bit_nat_eq_self)
  then have ge: "1000 \<le> (word_of_nat n :: u32) \<longleftrightarrow> 1000 \<le> n" by (simp add: word_le_nat_alt)
  have t: "0 \<notin> set (text_of ''100 %'')" by (simp add: text_of_def)
  show ?thesis
  proof (cases "1000 \<le> n")
    case True
    then show ?thesis using cap ge by (simp add: OSCPULoad_def Let_def w load_line_def n_def [symmetric] put_text_emit [OF t] emit_Some end_of_string_def)
  next
    case False
    have "length (digits (n div 10)) \<le> 2" "length (digits (n mod 10)) \<le> 1" using False by (intro digits_length; simp)+
    then show ?thesis using cap ge False load_percent_digits [of n]
      by (simp add: OSCPULoad_def Let_def w load_line_def n_def [symmetric] emit_Some end_of_string_def)
  qed
qed

subsection \<open>Memory\<close>

text \<open>A number at the right of a field of \<open>n\<close> characters.\<close>

definition right_aligned :: "nat \<Rightarrow> int \<Rightarrow> u8 list" where
  "right_aligned n i = replicate (n - length (decimal i)) 32 @ decimal i"

lemma drop_decimal_field: "length (decimal i) + p \<le> 6 \<Longrightarrow> drop p (decimal_field i) = right_aligned (6 - p) i"
  by (simp add: decimal_field_def right_aligned_def diff_commute)

lemma right_aligned_length [simp]: "length (decimal i) \<le> n \<Longrightarrow> length (right_aligned n i) = n"
  by (simp add: right_aligned_def)

lemma decimal_nat_length: "0 < m \<Longrightarrow> n < 10 ^ m \<Longrightarrow> length (decimal (int n)) \<le> m"
  by (simp add: decimal_def digits_length)

definition memory_line :: "string \<Rightarrow> int \<Rightarrow> nat \<Rightarrow> u8 list" where
  "memory_line name used_bytes bytes = text_of name @ right_aligned 5 used_bytes @ text_of '' of '' @ decimal (int bytes) @ [10, 13]"

definition memory_text :: "int \<Rightarrow> int \<Rightarrow> int \<Rightarrow> u8 list" where
  "memory_text stacks queues dynamic = [10, 13] @ text_of ''***** BRTOS Memory Info *****'' @ [10, 13] @
     memory_line ''STATIC TASK MEMORY HEAP:   '' stacks HEAP_SIZE @
     memory_line ''STATIC QUEUE MEMORY HEAP:  '' queues QUEUE_HEAP_SIZE @
     memory_line ''DYNAMIC QUEUE MEMORY HEAP: '' dynamic DYNAMIC_HEAP_SIZE @ [0]"

lemma sint_nonneg: "uint (w :: u16) < 2 ^ 15 \<Longrightarrow> sint w = uint w"
  using signed_take_bit_int_eq_self [of 15 "uint w"] order.trans [OF _ unsigned_greater_eq, of "-32768 :: int" w] by (simp add: sint_uint)

lemma address_bytes: "uint a * 4 < 2 ^ 15 \<Longrightarrow> sint (a * word_of_nat sizeof_OS_CPU_TYPE :: u16) = uint a * 4"
proof -
  assume a: "uint a * 4 < 2 ^ 15"
  then have "uint (a * word_of_nat sizeof_OS_CPU_TYPE) = uint a * 4"
    by (simp add: sizeof_OS_CPU_TYPE_def uint_word_ariths)
  then show ?thesis using a sint_nonneg by simp
qed

lemma decimal_length_5: "0 \<le> i \<Longrightarrow> i < 32768 \<Longrightarrow> length (decimal i) \<le> 5"
  using decimal_length [of i] by simp

lemma put_aligned: "0 \<le> i \<Longrightarrow> i < 32768 \<Longrightarrow> 7 \<le> n \<Longrightarrow> put_decimal_from cap n i (Suc 0) out = emit cap (right_aligned 5 i) out"
  using decimal_length [of i] by (simp add: put_decimal_from_emit drop_decimal_field)

lemma OSAvailableMemory_writes:
  assumes st: "uint (iStackAddress k) * 4 < 32768" and qu: "uint (iQueueAddress k) * 4 < 32768"
    and us: "\<And>k. OSGetUsedHeapSize k h = Some (word_of_nat used_bytes, critical k)" "used_bytes < 32768" and cap: "200 \<le> cap"
  shows "OSAvailableMemory cap k h = Some (critical (critical (critical k)),
    memory_text (uint (iStackAddress k) * 4) (uint (iQueueAddress k) * 4) (int used_bytes))"
proof -
  have du: "sint (ucast (word_of_nat used_bytes :: u32) :: u16) = int used_bytes"
  proof -
    have "uint (ucast (word_of_nat used_bytes :: u32) :: u16) = int used_bytes"
      using us(2) by (simp add: unsigned_ucast_eq unsigned_of_nat take_bit_nat_eq_self take_bit_int_eq_self)
    then show ?thesis using us(2) sint_nonneg by simp
  qed
  have q: "iQueueAddress (critical k) = iQueueAddress k" by (simp add: critical_def)
  have z: "0 \<notin> set (text_of ''STATIC TASK MEMORY HEAP:   '')" "0 \<notin> set (text_of '' of '')" "0 \<notin> set (text_of ''DYNAMIC QUEUE MEMORY HEAP: '')"
    by (simp_all add: text_of_def)
  have l: "length (right_aligned 5 (uint (iStackAddress k) * 4)) = 5" "length (right_aligned 5 (uint (iQueueAddress k) * 4)) = 5"
    "length (right_aligned 5 (int used_bytes)) = 5" "length (decimal (int HEAP_SIZE)) \<le> 5" "length (decimal (int QUEUE_HEAP_SIZE)) \<le> 5"
    "length (decimal (int DYNAMIC_HEAP_SIZE)) \<le> 5"
    using st qu us(2) by (simp_all add: decimal_length_5 HEAP_SIZE_def QUEUE_HEAP_SIZE_def DYNAMIC_HEAP_SIZE_def)
  have h: "put_decimal cap 8 (int HEAP_SIZE) out = emit cap (decimal (int HEAP_SIZE)) out"
    "put_decimal cap 8 (int QUEUE_HEAP_SIZE) out = emit cap (decimal (int QUEUE_HEAP_SIZE)) out"
    "put_decimal cap 8 (int DYNAMIC_HEAP_SIZE) out = emit cap (decimal (int DYNAMIC_HEAP_SIZE)) out" for out
    by (simp_all add: put_decimal_emit HEAP_SIZE_def QUEUE_HEAP_SIZE_def DYNAMIC_HEAP_SIZE_def)
  show ?thesis
    using st qu us(2) cap l
    by (simp add: OSAvailableMemory_def Let_def put_aligned put_text_emit z h address_bytes q us(1) du emit_Some end_of_string_def memory_text_def memory_line_def)
qed

subsection \<open>The list of tasks\<close>

text \<open>
  What the stack column means: from the stack pointer downwards, the words in front of the first place from which
  16 words are zero, or all the words there are above the end of the stack.
\<close>

definition stack_end :: "u32 \<Rightarrow> kernel \<Rightarrow> nat \<Rightarrow> u32" where
  "stack_end STACK k j = (if j = 1 then STACK else StackInit (ContextTask k (j - 1)))"

definition unused_from :: "(u32 \<Rightarrow> u32) \<Rightarrow> u32 \<Rightarrow> u32 \<Rightarrow> nat \<Rightarrow> bool" where
  "unused_from word_at sp_end sp m \<longleftrightarrow>
    (\<forall>i < 16. unat sp_end < unat sp - 4 * (m + i) \<longrightarrow> word_at (sp - word_of_nat (4 * (m + i))) = 0)"

definition words_used :: "(u32 \<Rightarrow> u32) \<Rightarrow> u32 \<Rightarrow> kernel \<Rightarrow> nat \<Rightarrow> nat \<Rightarrow> bool" where
  "words_used word_at STACK k j m \<longleftrightarrow>
    (let unused = unused_from word_at (stack_end STACK k j) (StackPoint (ContextTask k j))
     in unused m \<and> (\<forall>m' < m. \<not> unused m'))"

definition stack_bytes :: "kernel \<Rightarrow> nat \<Rightarrow> nat \<Rightarrow> u16" where
  "stack_bytes k j m = ucast (StackInit (ContextTask k j) - (StackPoint (ContextTask k j) - word_of_nat (4 * m)))"

lemma words_used_unique: "words_used word_at STACK k j m \<Longrightarrow> words_used word_at STACK k j n \<Longrightarrow> m = n"
  unfolding words_used_def Let_def by (metis nat_neq_iff)

text \<open>
  The search ends when the stack's end is not within four bytes of the bottom of memory, and finds the least such
  place: the last \<open>i\<close> of the \<open>n\<close> words passed are zero, and no earlier place will do.
\<close>

lemma unat_below: "4 * n \<le> unat (sp :: u32) \<Longrightarrow> unat (sp - word_of_nat (4 * n)) = unat sp - 4 * n"
  by (metis le_unat_uoi unat_sub word_le_nat_alt)

lemma unused_words_run:
  assumes "4 \<le> sp_end" "i \<le> n" "i \<le> 16" "4 * n \<le> unat sp"
    "\<forall>l < n. n - i \<le> l \<longrightarrow> word_at (sp - word_of_nat (4 * l)) = 0" "\<forall>m < n - i. \<not> unused_from word_at sp_end sp m"
  shows "\<exists>i' n'. unused_words word_at sp_end i (sp - word_of_nat (4 * n)) = Some (i', sp - word_of_nat (4 * n')) \<and>
    i' \<le> n' \<and> unused_from word_at sp_end sp (n' - i') \<and> (\<forall>m < n' - i'. \<not> unused_from word_at sp_end sp m)"
  using assms
proof (induction "unat sp - 4 * n" arbitrary: i n rule: less_induct)
  case less
  let ?a = "sp - word_of_nat (4 * n)"
  have a: "unat ?a = unat sp - 4 * n" using less.prems(4) by (rule unat_below)
  have e: "4 \<le> unat sp_end" using less.prems(1) by (simp add: word_le_nat_alt)
  show ?case
  proof (cases "i < 16 \<and> sp_end < ?a")
    case True
    then have above: "unat sp_end < unat sp - 4 * n" unfolding word_less_nat_alt a by (rule conjunct2)
    have next_a: "?a - 4 = sp - word_of_nat (4 * (n + 1))" by (simp add: algebra_simps)
    have n: "unat sp - 4 * (n + 1) < unat sp - 4 * n" "4 * (n + 1) \<le> unat sp" using above e by simp_all
    define i2 where "i2 = (if word_at ?a = 0 then i + 1 else 0)"
    have "\<not> unused_from word_at sp_end sp m" if "word_at ?a \<noteq> 0" "m < n + 1" for m
    proof (cases "m < n - i")
      case False
      then have "n - m < 16" "m + (n - m) = n" using conjunct1 [OF True] that(2) by linarith+
      then show ?thesis using above that(1) unfolding unused_from_def by metis
    qed (use less.prems(6) in blast)
    then have none: "\<forall>m < n + 1 - i2. \<not> unused_from word_at sp_end sp m" using less.prems(6) by (simp add: i2_def)
    have zero: "\<forall>l < n + 1. n + 1 - i2 \<le> l \<longrightarrow> word_at (sp - word_of_nat (4 * l)) = 0"
    proof (intro allI impI)
      fix l assume "l < n + 1" "n + 1 - i2 \<le> l"
      then show "word_at (sp - word_of_nat (4 * l)) = 0" using less.prems(5) by (cases "l = n") (auto simp: i2_def split: if_splits)
    qed
    have "i2 \<le> n + 1" "i2 \<le> 16" using True less.prems(2) by (simp_all add: i2_def)
    note step = less.hyps [OF n(1) less.prems(1) this n(2) zero none]
    have "unused_words word_at sp_end i ?a = unused_words word_at sp_end i2 (sp - word_of_nat (4 * (n + 1)))"
      using True unfolding unused_words.simps [of word_at sp_end i ?a] next_a i2_def by (simp only: not_le [symmetric] simp_thms if_True if_False)
    then show ?thesis using step by metis
  next
    case False
    have "unused_from word_at sp_end sp (n - i)" unfolding unused_from_def
    proof (intro allI impI)
      fix l assume l: "l < 16" "unat sp_end < unat sp - 4 * (n - i + l)"
      have "n - i + l < n"
      proof (cases "i < 16")
        case True
        then have "\<not> sp_end < ?a" using False by blast
        then have "unat sp - 4 * n \<le> unat sp_end" unfolding word_less_nat_alt a by (rule leI)
        then have "4 * (n - i + l) < 4 * n" using l(2) by linarith
        then show ?thesis by simp
      qed (use l(1) less.prems(2,3) in simp)
      then show "word_at (sp - word_of_nat (4 * (n - i + l))) = 0" using less.prems(5) le_add1 by blast
    qed
    moreover have "unused_words word_at sp_end i ?a = Some (i, ?a)" using False unfolding unused_words.simps [of word_at sp_end i ?a] by (auto simp: not_less)
    ultimately show ?thesis using less.prems(2,6) by blast
  qed
qed

lemma stack_used_bytes:
  assumes "4 \<le> stack_end STACK k j"
  shows "\<exists>m. words_used word_at STACK k j m \<and> stack_used word_at STACK j k = Some (stack_bytes k j m)"
proof -
  let ?sp = "StackPoint (ContextTask k j)"
  obtain i n where r: "unused_words word_at (stack_end STACK k j) 0 ?sp = Some (i, ?sp - word_of_nat (4 * n))" and i: "i \<le> n"
    and u: "words_used word_at STACK k j (n - i)"
    using unused_words_run [OF assms, of 0 0 ?sp word_at] by (auto simp: words_used_def)
  have e: "?sp - word_of_nat (4 * n) + word_of_nat (i * 4) = ?sp - word_of_nat (4 * (n - i))" using i by (simp add: of_nat_diff algebra_simps)
  have "stack_used word_at STACK j k = Some (ucast (StackInit (ContextTask k j) - (?sp - word_of_nat (4 * n) + word_of_nat (i * 4))))"
    unfolding stack_used_def Let_def stack_end_def [symmetric] r by simp
  then have "stack_used word_at STACK j k = Some (stack_bytes k j (n - i))" unfolding e stack_bytes_def .
  then show ?thesis using u by blast
qed

text \<open>A line of the list, and the conditions on a task under which it is as wide as the heading.\<close>

definition task_row :: "kernel \<Rightarrow> nat \<Rightarrow> u16 \<Rightarrow> u8 list" where
  "task_row k j used_bytes =
    (let Task = ContextTask k j; name = text_of (TaskName Task); pmask = PriorityMask_table ! unat (Priority Task)
     in [91] @ digits j @ [93] @ replicate (3 - length (digits j)) 32 @ name @ replicate (24 - length name) 32 @ text_of ''  '' @
        [if OSBlockedList k AND pmask = 0 then 66 else if OSReadyList k AND pmask = pmask then 82 else 83] @ text_of ''      '' @
        right_aligned 4 (uint (Priority Task)) @ text_of ''       '' @ right_aligned 6 (sint used_bytes) @ [10, 13])"

definition listable :: "u32 \<Rightarrow> kernel \<Rightarrow> nat \<Rightarrow> bool" where
  "listable STACK k j \<longleftrightarrow> 1 \<le> j \<and> j \<le> NUMBER_OF_TASKS \<and> unat (Priority (ContextTask k j)) < 32 \<and>
     0 \<notin> set (text_of (TaskName (ContextTask k j))) \<and> length (TaskName (ContextTask k j)) \<le> 24 \<and>
     4 \<le> stack_end STACK k j"

lemma sint_range:
  assumes "v \<noteq> (0x8000 :: u16)"
  shows "-32768 < sint v" "sint v < 32768"
proof -
  have "sint v \<noteq> -32768"
  proof
    assume "sint v = -32768"
    moreover have "word_of_int (sint v) = v" by simp
    ultimately have "v = word_of_int (-32768)" by simp
    then show False using assms by simp
  qed
  moreover have "-32768 \<le> sint v" "sint v < 32768" using sint_greater_eq [of v] sint_less [of v] by simp_all
  ultimately show "-32768 < sint v" "sint v < 32768" by simp_all
qed

lemma critical_same [simp]:
  "ContextTask (critical k) = ContextTask k" "OSReadyList (critical k) = OSReadyList k" "OSBlockedList (critical k) = OSBlockedList k"
  "NumberOfInstalledTasks (critical k) = NumberOfInstalledTasks k"
  by (simp_all add: critical_def)

lemma stack_used_critical [simp]: "stack_used word_at STACK j (critical k) = stack_used word_at STACK j k"
  by (simp add: stack_used_def)

lemma listable_critical [simp]: "listable STACK (critical k) = listable STACK k"
  by (simp add: listable_def stack_end_def fun_eq_iff)

lemma task_row_critical [simp]: "task_row (critical k) = task_row k"
  by (simp add: task_row_def fun_eq_iff cong: if_cong)

definition task_number :: "nat \<Rightarrow> u8 list" where
  "task_number j = digits j @ [93] @ replicate (3 - length (digits j)) 32"

lemma task_number_written:
  assumes "1 \<le> j" "j \<le> NUMBER_OF_TASKS" "length out + 4 \<le> cap"
  shows "(if j < 10 then do { a \<leftarrow> emit cap [word_of_nat j + 48] out; put_text cap '']  '' a }
              else do { a \<leftarrow> put_decimal_from cap 9 (int j) 4 out; put_text cap ''] '' a }) = Some (out @ task_number j)"
proof -
  have b: "0 \<notin> set (text_of '']  '')" "0 \<notin> set (text_of ''] '')" "text_of '']  '' = [93, 32, 32]" "text_of ''] '' = [93, 32]" by (simp_all add: text_of_def)
  have two: "replicate 2 (32 :: u8) = [32, 32]" by (simp add: numeral_eq_Suc)
  show ?thesis
  proof (cases "j < 10")
    case True
    then show ?thesis using assms(3) by (simp add: put_text_emit [OF b(1)] b(3) two emit_Some task_number_def digits_small)
  next
    case False
    then have j: "j = 10" using assms(2) by (simp add: NUMBER_OF_TASKS_def)
    have d: "decimal 10 = digits 10" "length (digits 10) = 2" by (simp_all add: decimal_def digits_two)
    show ?thesis
      using assms(3) by (simp add: j put_decimal_from_emit drop_decimal_field right_aligned_def d put_text_emit [OF b(2)] b(4) emit_Some task_number_def)
  qed
qed

lemma byte_decimal_width: "length (decimal (uint (b :: u8))) \<le> 3"
proof -
  have "unat b < 10 ^ 3" using unsigned_less [of b, where 'a = nat] by simp
  then show ?thesis using digits_length [of 3 "unat b"] by (simp add: decimal_def)
qed

lemma task_line_writes:
  assumes l: "listable STACK k j" and v: "stack_used word_at STACK j k = Some v" "v \<noteq> 0x8000" and cap: "length out + 57 \<le> cap"
  shows "task_line word_at STACK cap j (k, out) = Some (critical (critical (critical (critical k))), out @ task_row k j v)"
proof -
  note L = l [unfolded listable_def]
  let ?T = "ContextTask k j" let ?name = "text_of (TaskName ?T)"
  have sv: "-32768 < sint v" "sint v < 32768" using sint_range [OF v(2)] by simp_all
  have n: "length ?name \<le> 24" using L by simp
  have ne: "Priority ?T \<noteq> EMPTY_PRIO" using L by (auto simp: EMPTY_PRIO_def)
  have at: "task_at j k = Some ?T" using L by (simp add: task_at_def)
  have pm: "PriorityMask (Priority ?T) = Some (PriorityMask_table ! unat (Priority ?T))" using L by (simp add: PriorityMask_def PriorityMask_table_def)
  define number where "number = task_number j"
  have ln: "length number = 4" using L by (cases "j < 10") (auto simp: number_def task_number_def digits_small digits_two NUMBER_OF_TASKS_def)
  have nb: "(if j < 10 then do { a \<leftarrow> emit cap [word_of_nat j + 48] (out @ [91]); put_text cap '']  '' a }
      else do { a \<leftarrow> put_decimal_from cap 9 (int j) 4 (out @ [91]); put_text cap ''] '' a }) = Some (out @ [91] @ number)"
    using task_number_written [of j "out @ [91]" cap] L cap by (simp add: number_def)
  have pr: "put_decimal_from cap 9 (uint (Priority ?T)) 2 o' = emit cap (right_aligned 4 (uint (Priority ?T))) o'" "length (right_aligned 4 (uint (Priority ?T))) = 4" for o'
    using byte_range [of "Priority ?T"] byte_decimal_width [of "Priority ?T"] by (simp_all add: put_decimal_from_emit drop_decimal_field)
  have st: "put_decimal_from cap 9 (sint v) 0 o' = emit cap (right_aligned 6 (sint v)) o'" "length (right_aligned 6 (sint v)) = 6" for o'
    using sv decimal_length [OF sv] drop_decimal_field [of "sint v" 0] by (simp_all add: put_decimal_from_emit)
  have b: "0 \<notin> set (text_of ''  '')" "0 \<notin> set (text_of ''      '')" "0 \<notin> set (text_of ''       '')" by (simp_all add: text_of_def)
  have row: "task_row k j v = [91] @ number @ ?name @ replicate (24 - length ?name) 32 @ text_of ''  '' @
      [task_state (PriorityMask_table ! unat (Priority ?T)) k] @ text_of ''      '' @
        right_aligned 4 (uint (Priority ?T)) @ text_of ''       '' @ right_aligned 6 (sint v) @ [10, 13]"
    by (simp add: task_row_def Let_def number_def task_number_def task_state_def)
  have e: "emit cap [91] out = Some (out @ [91])" using cap by (simp add: emit_Some)
  show ?thesis
    unfolding task_line_def Let_def prod.case at bind.bind_lunit if_P [OF ne] e nb row
    using n cap ln L by (simp add: mem_cpy_text emit_Some put_text_emit b pm pr st v(1))
qed

definition task_heading :: "u8 list" where
  "task_heading = stars @ text_of ''ID   NAME                    STATE   PRIORITY   STACK SIZE'' @ [10, 13] @ drop 2 stars"

lemma task_heading_length: "length task_heading \<le> 190" "length stars = 63"
  by (simp_all add: task_heading_def stars_def)

lemma task_row_length: "listable STACK k j \<Longrightarrow> v \<noteq> 0x8000 \<Longrightarrow> length (task_row k j v) = 57"
proof -
  assume l: "listable STACK k j" and v: "v \<noteq> 0x8000"
  have "length (digits j) \<le> 2" "1 \<le> length (digits j)" using l digits_length [of 2 j] digits_pos [of j] by (simp_all add: listable_def NUMBER_OF_TASKS_def Suc_leI)
  moreover have "length (decimal (sint v)) \<le> 6" using sint_range [OF v] decimal_length [of "sint v"] by simp
  ultimately show ?thesis using l byte_decimal_width [of "Priority (ContextTask k j)"] by (simp add: task_row_def Let_def listable_def)
qed

lemma task_lines_write:
  assumes "\<forall>j \<in> set js. listable STACK k j \<and> stack_used word_at STACK j k = Some (v j) \<and> v j \<noteq> 0x8000" "length out + 57 * length js \<le> cap"
  shows "task_lines word_at STACK cap js (k, out) = Some ((critical ^^ (4 * length js)) k, out @ concat (map (\<lambda>j. task_row k j (v j)) js))"
  using assms
proof (induction js arbitrary: k out)
  case (Cons j js)
  let ?k = "critical (critical (critical (critical k)))"
  have l: "listable STACK k j" "stack_used word_at STACK j k = Some (v j)" "v j \<noteq> 0x8000" using Cons.prems(1) by simp_all
  have n: "length (out @ task_row k j (v j)) + 57 * length js \<le> cap" using task_row_length [OF l(1,3)] Cons.prems(2) by simp
  have step: "task_line word_at STACK cap j (k, out) = Some (?k, out @ task_row k j (v j))"
    by (rule task_line_writes [OF l]) (use Cons.prems(2) in simp)
  have "task_lines word_at STACK cap js (?k, out @ task_row k j (v j)) =
    Some ((critical ^^ (4 * length js)) ?k, (out @ task_row k j (v j)) @ concat (map (\<lambda>i. task_row ?k i (v i)) js))"
    by (rule Cons.IH) (use Cons.prems(1) n in simp_all)
  moreover have "(critical ^^ (4 * length (j # js))) k = (critical ^^ (4 * length js)) ?k"
    by (simp only: length_Cons mult_Suc_right add.commute [of 4] funpow_add) (simp add: numeral_eq_Suc)
  ultimately show ?case using step by simp
qed simp

lemma OSTaskList_writes:
  assumes "\<forall>j \<in> {1..unat (NumberOfInstalledTasks k)}. listable STACK k j" "200 + 57 * unat (NumberOfInstalledTasks k) \<le> cap"
    and v: "\<forall>j \<in> {1..unat (NumberOfInstalledTasks k)}. stack_used word_at STACK j k = Some (v j) \<and> v j \<noteq> 0x8000"
  shows "OSTaskList word_at STACK cap k = Some ((critical ^^ (4 * unat (NumberOfInstalledTasks k))) k,
      task_heading @ concat (map (\<lambda>j. task_row k j (v j)) [1..<Suc (unat (NumberOfInstalledTasks k))]) @ [10, 13, 0])"
proof -
  let ?n = "unat (NumberOfInstalledTasks k)"
  have run: "task_lines word_at STACK cap [1..<Suc ?n] (k, task_heading) =
    Some ((critical ^^ (4 * ?n)) k, task_heading @ concat (map (\<lambda>j. task_row k j (v j)) [1..<Suc ?n]))"
    using task_lines_write [where js = "[1..<Suc ?n]" and out = task_heading and k = k and v = v] assms task_heading_length(1) by (simp del: upt_Suc)
  have "length (task_row k j (v j)) = 57" if "j \<in> {1..?n}" for j
    by (rule task_row_length) (use assms(1) v that in blast)+
  then have "length (concat (map (\<lambda>j. task_row k j (v j)) [1..<Suc ?n])) = sum_list (map (\<lambda>j. 57) [1..<Suc ?n])"
    unfolding length_concat map_map by (intro arg_cong [of _ _ sum_list] map_cong) auto
  then have n: "length (concat (map (\<lambda>j. task_row k j (v j)) [1..<Suc ?n])) = 57 * ?n" by (simp add: sum_list_triv del: upt_Suc)
  have e: "emit cap stars [] = Some stars" "emit cap (drop 2 stars) (stars @ text_of ''ID   NAME                    STATE   PRIORITY   STACK SIZE'' @ [10, 13]) = Some task_heading"
    "emit cap (text_of ''ID   NAME                    STATE   PRIORITY   STACK SIZE'' @ [10, 13]) stars = Some (stars @ text_of ''ID   NAME                    STATE   PRIORITY   STACK SIZE'' @ [10, 13])"
    using assms(2) by (simp_all add: emit_Some task_heading_length task_heading_def)
  show ?thesis
    unfolding OSTaskList_def e bind.bind_lunit run prod.case using n task_heading_length(1) assms(2)
    by (simp add: emit_Some end_of_string_def del: upt_Suc)
qed

subsection \<open>Properties\<close>

text \<open>
  C34. \<open>PrintDecimal\<close> writes seven bytes of its buffer and nothing else; at the pointer it returns stands the
  decimal text of the number, which reads back as the number, for every 16 bit number but the
  least one, whose negation overflows.
\<close>

theorem PrintDecimal_correct:
  assumes "-32768 < i" "i < 32768" "7 \<le> length buff"
  shows "\<exists>p b s. PrintDecimal i buff = Some (p, b) \<and> cstr b p s \<and> value_of_decimal s = i \<and>
    p + length s = 6 \<and> drop 7 b = drop 7 buff \<and> length b = length buff"
proof -
  let ?b = "decimal_field i @ [0] @ drop 7 buff"
  have l: "length (decimal i) \<le> 6" using decimal_length [OF assms(1,2)] by simp
  then have "cstr ?b (6 - length (decimal i)) (decimal i)"
    using cstr_text [OF decimal_no_nul [of i], of "replicate (6 - length (decimal i)) 32"] by (simp add: decimal_field_def)
  moreover have "length (decimal_field i) = 6" using l by (simp add: decimal_field_def)
  ultimately show ?thesis
    using PrintDecimal_writes [OF assms] l assms(3) decimal_reads_back [of i]
    by (intro exI [of _ "6 - length (decimal i)"] exI [of _ ?b] exI [of _ "decimal i"]) simp
qed

text \<open>
  C35. \<open>OSUptimeInfo\<close> writes past the end of its array \<open>str\<close> in every call, whatever the clock shows; with one byte
  more in the array it writes the days, when there are any, and the hours, minutes and seconds of
  the uptime, in at most 46 bytes.
\<close>

theorem OSUptimeInfo_overflows_by_one:
  assumes "46 \<le> cap"
  shows "OSUptimeInfo cap k c = None \<and> uptime_text 7 cap k c = Some (critical k, uptime_line c)"
  using assms OSUptimeInfo_overflows uptime_text_writes by simp

text \<open>
  C36. \<open>OSTaskList\<close> writes the heading and one row for every installed task, with its number, name, state
  (blocked, ready or suspended, from the two lists of the kernel), priority and stack, and changes nothing of
  the kernel but what entering and leaving critical sections changes. The stack column is \<open>StackInit\<close> minus
  the address at which the unused part of the stack begins, the first below the stack pointer with 16 zero words, or
  zero words to the end of the stack. The names have at most 24 characters, the buffer room for the rows, and no
  column is the number \<open>PrintDecimal\<close> cannot write.
\<close>

theorem OSTaskList_lists_tasks:
  assumes "\<forall>j \<in> {1..unat (NumberOfInstalledTasks k)}. listable STACK k j" "200 + 57 * unat (NumberOfInstalledTasks k) \<le> cap"
  shows "\<exists>m. (\<forall>j \<in> {1..unat (NumberOfInstalledTasks k)}. words_used word_at STACK k j (m j)) \<and>
    ((\<forall>j \<in> {1..unat (NumberOfInstalledTasks k)}. stack_bytes k j (m j) \<noteq> 0x8000) \<longrightarrow>
      OSTaskList word_at STACK cap k = Some ((critical ^^ (4 * unat (NumberOfInstalledTasks k))) k,
        task_heading @ concat (map (\<lambda>j. task_row k j (stack_bytes k j (m j))) [1..<Suc (unat (NumberOfInstalledTasks k))]) @ [10, 13, 0]))"
proof -
  have "\<exists>m. words_used word_at STACK k j m \<and> stack_used word_at STACK j k = Some (stack_bytes k j m)"
    if "j \<in> {1..unat (NumberOfInstalledTasks k)}" for j
    by (rule stack_used_bytes) (use assms(1) that in \<open>simp add: listable_def\<close>)
  then obtain m where m: "\<forall>j \<in> {1..unat (NumberOfInstalledTasks k)}. words_used word_at STACK k j (m j) \<and>
      stack_used word_at STACK j k = Some (stack_bytes k j (m j))"
    by metis
  show ?thesis by (rule exI [of _ m], intro conjI impI OSTaskList_writes) (use m assms in simp_all)
qed

end
