(* ===== verification/OS_Info_Examples.thy ===== *)
theory OS_Info_Examples
  imports OS_Info_Reports Startup
begin

text \<open>The reports of the system \<open>demo\<close> and of single numbers.\<close>

lemma PrintDecimal_correct_witness:
  "\<exists>p b s. PrintDecimal (-273) (replicate 9 0) = Some (p, b) \<and> cstr b p s \<and> value_of_decimal s = -273 \<and> length b = 9"
  using PrintDecimal_correct [of "-273" "replicate 9 0"] by auto

definition up_two_days :: clock where
  "up_two_days = \<lparr>Hora = \<lparr>RTC_Second = 59, RTC_Minute = 4, RTC_Hour = 13\<rparr>, Data = \<lparr>RTC_Day = 2, RTC_Month = 0, RTC_Year = 0\<rparr>,
     OSRtc = \<lparr>Year = 2024, Month = 2, Day = 29, Hour = 0, Min' = 0, Sec = 0\<rparr>, LeapMonth = 0\<rparr>"

lemma uptime_line_up_two_days: "uptime_line up_two_days = [10, 13] @ text_of ''BRTOS UPTIME: 2d 13h 4m 59s'' @ [10, 13, 0]"
  by code_simp

lemma OSUptimeInfo_overflows_by_one_witness:
  "OSUptimeInfo 80 demo up_two_days = None \<and>
    uptime_text 7 80 demo up_two_days = Some (critical demo, [10, 13] @ text_of ''BRTOS UPTIME: 2d 13h 4m 59s'' @ [10, 13, 0])"
  using OSUptimeInfo_overflows_by_one [of 80 demo up_two_days] unfolding uptime_line_up_two_days by simp

text \<open>The number whose negation overflows.\<close>

lemma PrintDecimal_least: "map_option (\<lambda>(p, b). take 6 (drop p b)) (PrintDecimal (-32768) (replicate 7 0)) = Some (text_of ''--.)*('')"
  by code_simp

text \<open>
  The tasks of \<open>demo\<close> with empty stacks. On this processor stacks grow up and \<open>StackInit\<close> is the lowest address of
  a stack; the difference the list shows is the one for stacks that grow down, minus eight bytes here.
\<close>

lemma demo_frames:
  "map (\<lambda>t. (StackPoint (ContextTask demo t), StackInit (ContextTask demo t), TaskName (ContextTask demo t), Priority (ContextTask demo t))) [1, 2, 3] =
    [(4104, 4096, ''low'', 5), (4120, 4112, ''high'', 10), (4136, 4128, ''Idle Task'', 0)]"
  "NumberOfInstalledTasks demo = 3"
  by code_simp+

lemma demo_words_used:
  assumes "j \<in> {1..3}"
  shows "words_used (\<lambda>_. 0) 0x1000 demo j 0" "stack_bytes demo j 0 = -8"
proof -
  show "words_used (\<lambda>_. 0) 0x1000 demo j 0" by (simp add: words_used_def unused_from_def)
  consider "j = 1" | "j = 2" | "j = 3" using assms by fastforce
  then show "stack_bytes demo j 0 = -8" using demo_frames(1) by cases (simp_all add: stack_bytes_def)
qed

lemma demo_listable:
  assumes "j \<in> {1..3}"
  shows "listable 0x1000 demo j"
proof -
  consider "j = 1" | "j = 2" | "j = 3" using assms by fastforce
  then show ?thesis using demo_frames(1)
    by cases (simp_all add: listable_def stack_end_def NUMBER_OF_TASKS_def text_of_def)
qed

lemma OSTaskList_lists_tasks_witness:
  "OSTaskList (\<lambda>_. 0) 0x1000 400 demo =
    Some ((critical ^^ 12) demo, task_heading @ task_row demo 1 (-8) @ task_row demo 2 (-8) @ task_row demo 3 (-8) @ [10, 13, 0])"
proof -
  have n: "unat (NumberOfInstalledTasks demo) = 3" by (simp add: demo_frames(2))
  obtain m where m: "\<forall>j \<in> {1..3}. words_used (\<lambda>_. 0) 0x1000 demo j (m j)"
    and r: "(\<forall>j \<in> {1..3}. stack_bytes demo j (m j) \<noteq> 0x8000) \<longrightarrow> OSTaskList (\<lambda>_. 0) 0x1000 400 demo =
      Some ((critical ^^ (4 * 3)) demo, task_heading @ concat (map (\<lambda>j. task_row demo j (stack_bytes demo j (m j))) [1..<Suc 3]) @ [10, 13, 0])"
    using OSTaskList_lists_tasks [where k = demo and word_at = "\<lambda>_. 0" and STACK = "0x1000" and cap = 400, unfolded n] demo_listable by auto
  have z: "stack_bytes demo j (m j) = -8" if "j \<in> {1..3}" for j
    using demo_words_used [OF that] words_used_unique m that by metis
  have u: "[1..<Suc 3] = [1, 2, 3]" by code_simp
  have "\<forall>j \<in> {1..3}. stack_bytes demo j (m j) \<noteq> 0x8000" using z by simp
  then have "OSTaskList (\<lambda>_. 0) 0x1000 400 demo =
      Some ((critical ^^ (4 * 3)) demo, task_heading @ concat (map (\<lambda>j. task_row demo j (stack_bytes demo j (m j))) [1, 2, 3]) @ [10, 13, 0])"
    using r unfolding u by blast
  then show ?thesis by (simp add: z)
qed

end
