(* ===== verification/Drivers.thy ===== *)
theory Drivers
  imports Dispatcher String_Laws
begin

text \<open>
  The drivers the simulator installs (\<open>UARTx.c\<close>, \<open>GPIOx.c\<close>, \<open>ADCx.c\<close>, \<open>PWMx.c\<close>) and the state they share with
  \<open>device.c\<close>. The configuration a task passes to \<open>OSDevOpen\<close> is an object of its own, of the driver's type. An
  access through a null pointer or outside an array is \<open>None\<close>, and so is a failed \<open>ASSERT\<close>, which never
  returns. The samples of the converter come from the clock of the host and are a parameter.
\<close>

subsection \<open>Devices\<close>

definition MAX_INSTALLED_DEVICES :: nat where "MAX_INSTALLED_DEVICES = 5"
definition UART_TYPE :: nat where "UART_TYPE = 0"
definition GPIO_TYPE :: nat where "GPIO_TYPE = 3"
definition ADC_TYPE :: nat where "ADC_TYPE = 4"
definition PWM_TYPE :: nat where "PWM_TYPE = 6"
definition END_TYPE :: nat where "END_TYPE = 7"

definition dev_types :: "u8 list list" where
  "dev_types = [text_of ''UART'', text_of ''SPI'', text_of ''I2C'', text_of ''GPIO'', text_of ''ADC'', text_of ''DAC'', text_of ''PWM'']"

text \<open>The table of functions a driver gives its devices, named by the driver.\<close>

datatype device_api = UART_api | GPIO_api | ADC_api | PWM_api

record OS_Device =
  dev_name :: ptr
  device_type :: nat
  base_address :: u32
  DriverData :: ptr

record OS_Device_Control =
  device :: ptr
  device_number :: int
  api :: "device_api option"

record uart_config =
  baudrate :: int
  parity :: u32
  stop_bits :: u32
  polling_irq :: u32
  queue_size :: int
  timeout' :: u16
  read_mutex :: bool
  write_mutex :: bool

record adc_config =
  samplerate :: int
  resolution :: u32
  adc_polling_irq :: u32
  adc_queue_size :: int
  adc_timeout :: u16
  adc_read_mutex :: bool

datatype config = UART_conf uart_config | ADC_conf adc_config | Other_conf

record devices =
  dev_text :: memory
  BRTOSDevices :: "nat \<Rightarrow> OS_Device"
  BRTOSDevControl :: "nat \<Rightarrow> OS_Device_Control"
  configs :: "nat \<Rightarrow> config"
  SerialTX :: ptr
  SerialRMutex :: ptr
  SerialWMutex :: ptr
  console_out :: "u8 list"
  ADC :: ptr
  ADCQ :: ptr
  ADCRMutex :: ptr
  ADC_res :: u32
  ADC_rate :: int
  ADC_chan :: u16
  ADC_buffer :: "nat \<Rightarrow> u16"
  valor :: u16
  adc_state :: bool
  samples_taken :: nat
  beeps :: "u32 list"

type_synonym machine = "kernel \<times> devices"

text \<open>Each driver has static arrays of one element.\<close>

definition only_element :: "int \<Rightarrow> 'a \<Rightarrow> 'a option" where
  "only_element i x = (if i = 0 then Some x else None)"

definition control :: "nat \<Rightarrow> devices \<Rightarrow> OS_Device_Control option" where
  "control h d = (if h < MAX_INSTALLED_DEVICES then Some (BRTOSDevControl d h) else None)"

definition device_of :: "nat \<Rightarrow> devices \<Rightarrow> OS_Device option" where
  "device_of h d = do { c \<leftarrow> control h d; i \<leftarrow> device c; if i < MAX_INSTALLED_DEVICES then Some (BRTOSDevices d i) else None }"

definition uart_conf_of :: "ptr \<Rightarrow> devices \<Rightarrow> uart_config option" where
  "uart_conf_of p d = (case p of None \<Rightarrow> None | Some a \<Rightarrow> (case configs d a of UART_conf u \<Rightarrow> Some u | _ \<Rightarrow> None))"

definition adc_conf_of :: "ptr \<Rightarrow> devices \<Rightarrow> adc_config option" where
  "adc_conf_of p d = (case p of None \<Rightarrow> None | Some a \<Rightarrow> (case configs d a of ADC_conf u \<Rightarrow> Some u | _ \<Rightarrow> None))"

definition put_config :: "ptr \<Rightarrow> config \<Rightarrow> devices \<Rightarrow> devices" where
  "put_config p c d = (case p of None \<Rightarrow> d | Some a \<Rightarrow> d\<lparr>configs := (configs d)(a := c)\<rparr>)"

subsection \<open>The serial port\<close>

text \<open>The parts of \<open>Init_UART\<close> and \<open>Init_ADC\<close> that both have: a semaphore, a queue, a mutex or two.\<close>

definition assert_created :: "u8 \<times> ptr \<times> kernel \<Rightarrow> (ptr \<times> kernel) option" where
  "assert_created r = (case r of (ret, p, k) \<Rightarrow> if ret = ALLOC_EVENT_OK then Some (p, k) else None)"

definition mutex_if :: "bool \<Rightarrow> ptr \<Rightarrow> kernel \<Rightarrow> (ptr \<times> kernel) option" where
  "mutex_if wanted p k = (if wanted then map_option snd (OSMutexCreate p 0 k) else Some (p, k))"

definition Init_UART :: "ptr \<Rightarrow> machine \<Rightarrow> machine option" where
  "Init_UART parameters s = do {
     let (k, d) = s;
     let k1 = ConfiguraInterruptHandler INTERRUPT_UART ISR_UARTHandler k;
     (tx, k2) \<leftarrow> assert_created (OSSemCreate 0 (SerialTX d) k1);
     conf \<leftarrow> uart_conf_of parameters d;
     (q, k3) \<leftarrow> assert_created (OSQueueCreate (word_of_int (queue_size conf)) (SerialQ k2) k2);
     let k4 = k3\<lparr>SerialQ := q\<rparr>;
     (w, k5) \<leftarrow> mutex_if (write_mutex conf) (SerialWMutex d) k4;
     (r, k6) \<leftarrow> mutex_if (read_mutex conf) (SerialRMutex d) k5;
     Some (k6, d\<lparr>SerialTX := tx, SerialWMutex := w, SerialRMutex := r\<rparr>) }"

definition set_api :: "nat \<Rightarrow> device_api \<Rightarrow> devices \<Rightarrow> devices" where
  "set_api h a d = d\<lparr>BRTOSDevControl := (BRTOSDevControl d)(h := (BRTOSDevControl d h)\<lparr>api := Some a\<rparr>)\<rparr>"

definition OSOpenUART :: "nat \<Rightarrow> ptr \<Rightarrow> machine \<Rightarrow> machine option" where
  "OSOpenUART h parameters s = do { (k, d) \<leftarrow> Init_UART parameters s; Some (k, set_api h UART_api d) }"

fun UART_Write :: "u8 list \<Rightarrow> devices \<Rightarrow> nat \<times> devices" where
  "UART_Write [] d = (0, d)"
| "UART_Write (c # cs) d = (case UART_Write cs (d\<lparr>console_out := console_out d @ [c]\<rparr>) of (n, d1) \<Rightarrow> (Suc n, d1))"

text \<open>
  A read ends with the bytes it got, or the task waits in the middle of it: then what it still wants and
  has got is kept until the pend is resumed.
\<close>

datatype read_state = Read "u8 list" kernel | Blocked nat u8 nat "u8 list" kernel

definition next_byte :: "u8 \<Rightarrow> u8 option \<Rightarrow> u8 list \<Rightarrow> u8 list option" where
  "next_byte ret b got = (if ret = READ_BUFFER_OK then map_option (\<lambda>c. got @ [c]) b else None)"

fun read_bytes :: "ptr \<Rightarrow> u16 \<Rightarrow> nat \<Rightarrow> u8 list \<Rightarrow> kernel \<Rightarrow> read_state option" where
  "read_bytes q w 0 got k = Some (Read got k)"
| "read_bytes q w (Suc n) got k =
    (case OSQueuePend q w k of
       None \<Rightarrow> None
     | Some (Wait t p k1) \<Rightarrow> Some (Blocked t p n got k1)
     | Some (Return (ret, b) k1) \<Rightarrow>
         (case next_byte ret b got of Some got1 \<Rightarrow> read_bytes q w n got1 k1 | None \<Rightarrow> Some (Read got k1)))"

definition read_resume :: "ptr \<Rightarrow> u16 \<Rightarrow> nat \<Rightarrow> u8 \<Rightarrow> nat \<Rightarrow> u8 list \<Rightarrow> kernel \<Rightarrow> read_state option" where
  "read_resume q w t p n got k = do {
     e \<leftarrow> get_queue q k;
     (ret, b, k1) \<leftarrow> OSQueuePend_resume q (OSEventPointer_q e) w t p k;
     (case next_byte ret b got of Some got1 \<Rightarrow> read_bytes q w n got1 k1 | None \<Rightarrow> Some (Read got k1)) }"

definition UART_Read :: "nat \<Rightarrow> nat \<Rightarrow> machine \<Rightarrow> read_state option" where
  "UART_Read h sz s = do {
     let (k, d) = s;
     c \<leftarrow> control h d;
     dev \<leftarrow> device_of h d;
     if sz = 0 then Some (Read [] k)
     else do {
       q \<leftarrow> only_element (device_number c) (SerialQ k);
       conf \<leftarrow> uart_conf_of (DriverData dev) d;
       read_bytes q (timeout' conf) sz [] k } }"

text \<open>The requests.\<close>

definition UART_BAUDRATE :: u32 where "UART_BAUDRATE = 0"
definition UART_PARITY :: u32 where "UART_PARITY = 1"
definition UART_STOP_BITS :: u32 where "UART_STOP_BITS = 2"
definition UART_QUEUE_SIZE :: u32 where "UART_QUEUE_SIZE = 3"
definition UART_TIMEOUT :: u32 where "UART_TIMEOUT = 4"
definition CTRL_ACQUIRE_READ_MUTEX :: u32 where "CTRL_ACQUIRE_READ_MUTEX = 10"
definition CTRL_ACQUIRE_WRITE_MUTEX :: u32 where "CTRL_ACQUIRE_WRITE_MUTEX = 11"
definition CTRL_RELEASE_WRITE_MUTEX :: u32 where "CTRL_RELEASE_WRITE_MUTEX = 12"
definition CTRL_RELEASE_READ_MUTEX :: u32 where "CTRL_RELEASE_READ_MUTEX = 13"

lemmas uart_requests = UART_BAUDRATE_def UART_PARITY_def UART_STOP_BITS_def UART_QUEUE_SIZE_def UART_TIMEOUT_def
  CTRL_ACQUIRE_READ_MUTEX_def CTRL_ACQUIRE_WRITE_MUTEX_def CTRL_RELEASE_WRITE_MUTEX_def CTRL_RELEASE_READ_MUTEX_def

definition acquire_if :: "ptr \<Rightarrow> u32 \<Rightarrow> kernel \<Rightarrow> u8 pend option" where
  "acquire_if m value k = (if m \<noteq> NULL then OSMutexAcquire m (ucast value) k else Some (Return 0 k))"

definition release_if :: "ptr \<Rightarrow> kernel \<Rightarrow> u8 pend option" where
  "release_if m k = (if m \<noteq> NULL then do { (ret, k1) \<leftarrow> OSMutexRelease m k; Some (Return ret k1) } else Some (Return 0 k))"

definition UART_Set :: "nat \<Rightarrow> u32 \<Rightarrow> u32 \<Rightarrow> machine \<Rightarrow> (u8 pend \<times> devices) option" where
  "UART_Set h request val s = do {
     let (k, d) = s;
     c \<leftarrow> control h d;
     dev \<leftarrow> device_of h d;
     let put = (\<lambda>f. do { conf \<leftarrow> uart_conf_of (DriverData dev) d; Some (Return 0 k, put_config (DriverData dev) (UART_conf (f conf)) d) });
     if request = UART_BAUDRATE then put (\<lambda>conf. conf\<lparr>baudrate := sint val\<rparr>)
     else if request = UART_PARITY then put (\<lambda>conf. conf\<lparr>parity := val\<rparr>)
     else if request = UART_STOP_BITS then put (\<lambda>conf. conf\<lparr>polling_irq := val\<rparr>)
     else if request = UART_TIMEOUT then put (\<lambda>conf. conf\<lparr>timeout' := ucast val\<rparr>)
     else if request = CTRL_ACQUIRE_READ_MUTEX then do {
       m \<leftarrow> only_element (device_number c) (SerialRMutex d); r \<leftarrow> acquire_if m val k; Some (r, d) }
     else if request = CTRL_ACQUIRE_WRITE_MUTEX then do {
       m \<leftarrow> only_element (device_number c) (SerialWMutex d); r \<leftarrow> acquire_if m val k; Some (r, d) }
     else if request = CTRL_RELEASE_WRITE_MUTEX then do {
       m \<leftarrow> only_element (device_number c) (SerialWMutex d); r \<leftarrow> release_if m k; Some (r, d) }
     else if request = CTRL_RELEASE_READ_MUTEX then do {
       m \<leftarrow> only_element (device_number c) (SerialRMutex d); r \<leftarrow> release_if m k; Some (r, d) }
     else Some (Return 0 k, d) }"

definition UART_Get :: "nat \<Rightarrow> u32 \<Rightarrow> devices \<Rightarrow> u32 option" where
  "UART_Get h request d = do {
     dev \<leftarrow> device_of h d;
     let read = (\<lambda>f. map_option f (uart_conf_of (DriverData dev) d));
     if request = UART_BAUDRATE then read (\<lambda>conf. word_of_int (baudrate conf))
     else if request = UART_PARITY then read parity
     else if request = UART_STOP_BITS then read stop_bits
     else if request = UART_QUEUE_SIZE then read (\<lambda>conf. word_of_int (queue_size conf))
     else if request = UART_TIMEOUT then read (\<lambda>conf. ucast (timeout' conf))
     else Some 0 }"

subsection \<open>General purpose pins\<close>

text \<open>The loop of \<open>ff1\<close> from bit \<open>i\<close> on, for an argument that is not zero.\<close>

partial_function (option) ff1_loop :: "int \<Rightarrow> nat \<Rightarrow> nat option" where
  "ff1_loop x i = (if drop_bit i x AND 1 = 0 then ff1_loop x (i + 1) else Some (i + 1))"

definition ff1 :: "int \<Rightarrow> int option" where
  "ff1 x = (if x = 0 then Some (-1) else map_option int (ff1_loop x 0))"

text \<open>Writing beeps: the frequency is kept. The bytes pointer carries the mask of the pins.\<close>

definition GPIO_Write :: "nat \<Rightarrow> u32 \<Rightarrow> nat \<Rightarrow> devices \<Rightarrow> (nat \<times> devices) option" where
  "GPIO_Write h pins sz d =
    (if sz \<noteq> 0 then do { dev \<leftarrow> device_of h d; Some (0, d\<lparr>beeps := beeps d @ [base_address dev * pins div 1000]\<rparr>) }
     else Some (0, d))"

definition gpio_base :: "int \<Rightarrow> u32 option" where
  "gpio_base n = map_of [(65, 110000), (66, 123471), (67, 65406), (68, 73416), (69, 82407), (70, 87307), (71, 97999)] n"

definition set_base :: "nat \<Rightarrow> u32 \<Rightarrow> devices \<Rightarrow> devices option" where
  "set_base h base d = do {
     c \<leftarrow> control h d; i \<leftarrow> device c;
     Some (d\<lparr>BRTOSDevices := (BRTOSDevices d)(i := (BRTOSDevices d i)\<lparr>base_address := base\<rparr>)\<rparr>) }"

definition OSOpenGPIO :: "nat \<Rightarrow> machine \<Rightarrow> machine option" where
  "OSOpenGPIO h s = do {
     let (k, d) = s;
     c \<leftarrow> control h d;
     d1 \<leftarrow> (case gpio_base (device_number c) of Some base \<Rightarrow> set_base h base d | None \<Rightarrow> Some d);
     Some (k, set_api h GPIO_api d1) }"

definition OSOpenPWM :: "nat \<Rightarrow> machine \<Rightarrow> machine option" where
  "OSOpenPWM h s = (case s of (k, d) \<Rightarrow> Some (k, set_api h PWM_api d))"

subsection \<open>The converter\<close>

text \<open>
  Its interrupt has number 5, which the simulator's table of handlers does not hold: the handler is never
  installed, and \<open>ISR_NONE\<close> stands for it below.
\<close>

definition INTERRUPT_ADC :: nat where "INTERRUPT_ADC = 5"
definition NUM_ADC_CHAN :: nat where "NUM_ADC_CHAN = 16"
definition ADC_SAMPLERATE :: u32 where "ADC_SAMPLERATE = 0"
definition ADC_RESOLUTION :: u32 where "ADC_RESOLUTION = 1"
definition ADC_QUEUE_SIZE :: u32 where "ADC_QUEUE_SIZE = 2"
definition ADC_TIMEOUT :: u32 where "ADC_TIMEOUT = 3"

lemmas adc_requests = ADC_SAMPLERATE_def ADC_RESOLUTION_def ADC_QUEUE_SIZE_def ADC_TIMEOUT_def

definition ADCHandler :: "machine \<Rightarrow> (bool \<times> machine) option" where
  "ADCHandler s = do {
     let (k, d) = s;
     let chan = unat (ucast (ADC_chan d) :: u8);
     if NUM_ADC_CHAN < chan then Some (False, s)
     else if chan = NUM_ADC_CHAN then None
     else do {
       (_, k1) \<leftarrow> OSQueuePost (ADCQ d) (ucast (ADC_buffer d chan)) k;
       Some (True, (k1, d)) } }"

definition Init_ADC :: "ptr \<Rightarrow> machine \<Rightarrow> machine option" where
  "Init_ADC parameters s = do {
     let (k, d) = s;
     (e, k1) \<leftarrow> assert_created (OSSemCreate 0 (ADC d) (ConfiguraInterruptHandler INTERRUPT_ADC ISR_NONE k));
     conf \<leftarrow> adc_conf_of parameters d;
     (q, k2) \<leftarrow> assert_created (OSQueueCreate (word_of_int (adc_queue_size conf)) (ADCQ d) k1);
     (r, k3) \<leftarrow> mutex_if (adc_read_mutex conf) (ADCRMutex d) k2;
     Some (k3, d\<lparr>ADC := e, ADCQ := q, ADCRMutex := r, ADC_res := resolution conf, ADC_rate := samplerate conf\<rparr>) }"

definition OSOpenADC :: "nat \<Rightarrow> ptr \<Rightarrow> machine \<Rightarrow> machine option" where
  "OSOpenADC h parameters s = do { (k, d) \<leftarrow> Init_ADC parameters s; Some (k, set_api h ADC_api d) }"

text \<open>A sample is read in two halves, the high one first.\<close>

definition ADC_GetSample :: "(nat \<Rightarrow> u16) \<Rightarrow> int \<Rightarrow> devices \<Rightarrow> (u8 \<times> devices) option" where
  "ADC_GetSample sample num d =
    (if \<not> adc_state d then do {
       v \<leftarrow> only_element num (sample (samples_taken d));
       Some (ucast (drop_bit 8 v), d\<lparr>valor := v, samples_taken := samples_taken d + 1, adc_state := True\<rparr>) }
     else Some (ucast (valor d), d\<lparr>adc_state := False\<rparr>))"

fun poll_samples :: "(nat \<Rightarrow> u16) \<Rightarrow> int \<Rightarrow> nat \<Rightarrow> u8 list \<Rightarrow> devices \<Rightarrow> (u8 list \<times> devices) option" where
  "poll_samples sample num 0 got d = Some (got, d)"
| "poll_samples sample num (Suc n) got d = do { (b, d1) \<leftarrow> ADC_GetSample sample num d; poll_samples sample num n (got @ [b]) d1 }"

definition ADC_Read :: "(nat \<Rightarrow> u16) \<Rightarrow> nat \<Rightarrow> nat \<Rightarrow> machine \<Rightarrow> (read_state \<times> devices) option" where
  "ADC_Read sample h sz s = do {
     let (k, d) = s;
     c \<leftarrow> control h d;
     dev \<leftarrow> device_of h d;
     if sz = 0 then Some (Read [] k, d)
     else do {
       conf \<leftarrow> adc_conf_of (DriverData dev) d;
       if adc_polling_irq conf = 1 then do {
         q \<leftarrow> only_element (device_number c) (ADCQ d);
         r \<leftarrow> read_bytes q (adc_timeout conf) sz [] k;
         Some (r, d) }
       else do { (bs, d1) \<leftarrow> poll_samples sample (int (unat (word_of_int (device_number c) :: u8))) sz [] d; Some (Read bs k, d1) } } }"

definition ADC_Set :: "nat \<Rightarrow> u32 \<Rightarrow> u32 \<Rightarrow> machine \<Rightarrow> (u8 pend \<times> devices) option" where
  "ADC_Set h request val s = do {
     let (k, d) = s;
     c \<leftarrow> control h d;
     dev \<leftarrow> device_of h d;
     let put = (\<lambda>f. do { conf \<leftarrow> adc_conf_of (DriverData dev) d; Some (Return 0 k, put_config (DriverData dev) (ADC_conf (f conf)) d) });
     if request = ADC_SAMPLERATE then put (\<lambda>conf. conf\<lparr>samplerate := sint val\<rparr>)
     else if request = ADC_RESOLUTION then put (\<lambda>conf. conf\<lparr>resolution := val\<rparr>)
     else if request = ADC_TIMEOUT then put (\<lambda>conf. conf\<lparr>adc_timeout := ucast val\<rparr>)
     else if request = CTRL_ACQUIRE_READ_MUTEX then do {
       m \<leftarrow> only_element (device_number c) (ADCRMutex d); r \<leftarrow> acquire_if m val k; Some (r, d) }
     else if request = CTRL_RELEASE_READ_MUTEX then do {
       m \<leftarrow> only_element (device_number c) (ADCRMutex d); r \<leftarrow> release_if m k; Some (r, d) }
     else Some (Return 0 k, d) }"

definition ADC_Get :: "nat \<Rightarrow> u32 \<Rightarrow> devices \<Rightarrow> u32 option" where
  "ADC_Get h request d = do {
     dev \<leftarrow> device_of h d;
     let read = (\<lambda>f. map_option f (adc_conf_of (DriverData dev) d));
     if request = ADC_SAMPLERATE then read (\<lambda>conf. word_of_int (samplerate conf))
     else if request = ADC_RESOLUTION then read resolution
     else if request = ADC_QUEUE_SIZE then read (\<lambda>conf. word_of_int (adc_queue_size conf))
     else if request = ADC_TIMEOUT then read (\<lambda>conf. ucast (adc_timeout conf))
     else Some 0 }"

end
