(* ===== verification/Devices.thy ===== *)
theory Devices
  imports Drivers
begin

text \<open>
  \<open>device.c\<close>: a table of installed devices. \<open>OSDevOpen\<close> looks for the name in the table, else takes a free
  entry, finds number and type in the name and calls the driver's open function; the other calls go
  through the functions the driver has set. Names are pointers into \<open>dev_text\<close>.
\<close>

subsection \<open>Opening\<close>

fun find_installed :: "devices \<Rightarrow> nat \<Rightarrow> nat list \<Rightarrow> nat option option" where
  "find_installed d p [] = Some None"
| "find_installed d p (i # is) =
    (case dev_name (BRTOSDevices d i) of
       None \<Rightarrow> find_installed d p is
     | Some q \<Rightarrow> do { c \<leftarrow> strcmp (dev_text d) p q; if c = 0 then Some (Some i) else find_installed d p is })"

definition free_entry :: "devices \<Rightarrow> nat option" where
  "free_entry d = find (\<lambda>i. dev_name (BRTOSDevices d i) = NULL) [0..<MAX_INSTALLED_DEVICES]"

function skip_to_digit :: "memory \<Rightarrow> nat \<Rightarrow> nat option" where
  "skip_to_digit m p =
    (if p < length m then (if m ! p = 0 \<or> 48 \<le> m ! p \<and> m ! p \<le> 57 then Some p else skip_to_digit m (p + 1)) else None)"
  by pat_completeness auto
termination by (relation "measure (\<lambda>(m, p). length m - p)") auto

declare skip_to_digit.simps [simp del]

definition signed_char :: "u8 \<Rightarrow> int" where
  "signed_char c = sint c"

text \<open>Comparison with a constant of the program, up to one character less than the name has.\<close>

definition same_prefix :: "memory \<Rightarrow> nat \<Rightarrow> u8 list \<Rightarrow> bool option" where
  "same_prefix m p s = do {
     n \<leftarrow> strlen m p;
     c \<leftarrow> strncmp (m @ s @ [0]) p (length m) (if n = 0 then 2 ^ 32 - 1 else n - 1);
     Some (c = 0) }"

fun find_type :: "memory \<Rightarrow> nat \<Rightarrow> u8 list list \<Rightarrow> nat \<Rightarrow> nat option" where
  "find_type m p [] idx = Some END_TYPE"
| "find_type m p (s # ss) idx = do { e \<leftarrow> same_prefix m p s; if e then Some idx else find_type m p ss (idx + 1) }"

text \<open>The number in the name, or the letter of a port; nothing when the name is refused.\<close>

definition device_number_of :: "memory \<Rightarrow> nat \<Rightarrow> int option option" where
  "device_number_of m p = do {
     q \<leftarrow> skip_to_digit m p;
     let n = signed_char (m ! q - 48);
     if n < 0 then do {
       e \<leftarrow> same_prefix m p (text_of ''GPIO'');
       if \<not> e then Some None else do { c \<leftarrow> byte_at m (p + 4); Some (Some (signed_char c)) } }
     else Some (Some n) }"

text \<open>The drivers of \<open>OSDevConfig.h\<close>; the fifth entry of the array is zero.\<close>

definition OSInstalledDevices :: "(nat \<times> device_api option) list" where
  "OSInstalledDevices = [(UART_TYPE, Some UART_api), (GPIO_TYPE, Some GPIO_api), (ADC_TYPE, Some ADC_api), (PWM_TYPE, Some PWM_api), (0, None)]"

definition open_driver :: "device_api \<Rightarrow> nat \<Rightarrow> ptr \<Rightarrow> machine \<Rightarrow> machine option" where
  "open_driver a h option s =
    (case a of UART_api \<Rightarrow> OSOpenUART h option s | GPIO_api \<Rightarrow> OSOpenGPIO h s | ADC_api \<Rightarrow> OSOpenADC h option s | PWM_api \<Rightarrow> OSOpenPWM h s)"

definition upd_device :: "nat \<Rightarrow> (OS_Device \<Rightarrow> OS_Device) \<Rightarrow> devices \<Rightarrow> devices" where
  "upd_device i f d = d\<lparr>BRTOSDevices := (BRTOSDevices d)(i := f (BRTOSDevices d i))\<rparr>"

fun open_drivers :: "(nat \<times> device_api option) list \<Rightarrow> nat \<Rightarrow> nat \<Rightarrow> ptr \<Rightarrow> machine \<Rightarrow> machine option" where
  "open_drivers [] t i option s = Some s"
| "open_drivers ((u, f) # fs) t i option s =
    (case f of
       Some a \<Rightarrow>
         if u = t then do { s1 \<leftarrow> open_driver a i option (fst s, upd_device i (\<lambda>v. v\<lparr>device_type := u\<rparr>) (snd s)); open_drivers fs t i option s1 }
         else open_drivers fs t i option s
     | None \<Rightarrow> open_drivers fs t i option s)"

definition fill_device :: "nat \<Rightarrow> nat \<Rightarrow> ptr \<Rightarrow> int \<Rightarrow> devices \<Rightarrow> devices" where
  "fill_device i p option n d =
    (let d1 = upd_device i (\<lambda>v. v\<lparr>dev_name := Some p, DriverData := option\<rparr>) d
     in d1\<lparr>BRTOSDevControl := (BRTOSDevControl d1)(i := (BRTOSDevControl d1 i)\<lparr>device := Some i, device_number := n\<rparr>)\<rparr>)"

definition OSDevOpen :: "ptr \<Rightarrow> ptr \<Rightarrow> machine \<Rightarrow> (ptr \<times> machine) option" where
  "OSDevOpen name option s =
    (case name of
       None \<Rightarrow> Some (NULL, s)
     | Some p \<Rightarrow> do {
         let (k, d) = s;
         installed \<leftarrow> find_installed d p [0..<MAX_INSTALLED_DEVICES];
         (case installed of
            Some i \<Rightarrow> Some (Some i, s)
          | None \<Rightarrow>
              (case free_entry d of
                 None \<Rightarrow> Some (NULL, s)
               | Some i \<Rightarrow> do {
                   number \<leftarrow> device_number_of (dev_text d) p;
                   (case number of
                      None \<Rightarrow> Some (NULL, s)
                    | Some n \<Rightarrow> do {
                        t \<leftarrow> find_type (dev_text d) p dev_types 0;
                        s1 \<leftarrow> open_drivers OSInstalledDevices t i option (k, fill_device i p option n d);
                        Some (Some i, s1) }) })) })"

subsection \<open>Use\<close>

definition api_of :: "nat \<Rightarrow> devices \<Rightarrow> device_api option" where
  "api_of h d = do { c \<leftarrow> control h d; api c }"

text \<open>A write has bytes to send, or, for pins, a mask and a count.\<close>

definition OSDevWrite :: "nat \<Rightarrow> u8 list \<Rightarrow> u32 \<Rightarrow> devices \<Rightarrow> (nat \<times> devices) option" where
  "OSDevWrite h bs pins d = do {
     a \<leftarrow> api_of h d;
     (case a of UART_api \<Rightarrow> Some (UART_Write bs d) | GPIO_api \<Rightarrow> GPIO_Write h pins (length bs) d | _ \<Rightarrow> None) }"

text \<open>A read of pins answers 1 and stores nothing.\<close>

datatype read_answer = Bytes read_state | Pins nat

definition OSDevRead :: "(nat \<Rightarrow> u16) \<Rightarrow> nat \<Rightarrow> nat \<Rightarrow> machine \<Rightarrow> (read_answer \<times> devices) option" where
  "OSDevRead sample h sz s = do {
     a \<leftarrow> api_of h (snd s);
     (case a of
        UART_api \<Rightarrow> do { r \<leftarrow> UART_Read h sz s; Some (Bytes r, snd s) }
      | GPIO_api \<Rightarrow> Some (Pins 1, snd s)
      | ADC_api \<Rightarrow> do { (r, d) \<leftarrow> ADC_Read sample h sz s; Some (Bytes r, d) }
      | PWM_api \<Rightarrow> None) }"

definition OSDevSet :: "nat \<Rightarrow> u32 \<Rightarrow> u32 \<Rightarrow> machine \<Rightarrow> (u8 pend \<times> devices) option" where
  "OSDevSet h request val s = do {
     a \<leftarrow> api_of h (snd s);
     (case a of
        UART_api \<Rightarrow> UART_Set h request val s
      | ADC_api \<Rightarrow> ADC_Set h request val s
      | _ \<Rightarrow> Some (Return 0 (fst s), snd s)) }"

definition OSDevGet :: "nat \<Rightarrow> u32 \<Rightarrow> devices \<Rightarrow> u32 option" where
  "OSDevGet h request d = do {
     a \<leftarrow> api_of h d;
     (case a of UART_api \<Rightarrow> UART_Get h request d | ADC_api \<Rightarrow> ADC_Get h request d | _ \<Rightarrow> Some 0) }"

end
