(* ===== verification/Device_Laws.thy ===== *)
theory Device_Laws
  imports Devices
begin

text \<open>The table of devices, the names it finds and refuses, and the serial port as a bounded queue.\<close>

subsection \<open>Names\<close>

text \<open>Entry \<open>i\<close> holds a device of name \<open>s\<close>.\<close>

definition named :: "devices \<Rightarrow> u8 list \<Rightarrow> nat \<Rightarrow> bool" where
  "named d s i \<longleftrightarrow> (\<exists>q. dev_name (BRTOSDevices d i) = Some q \<and> cstr (dev_text d) q s)"

definition entry_used :: "devices \<Rightarrow> nat \<Rightarrow> bool" where
  "entry_used d i \<longleftrightarrow> i < MAX_INSTALLED_DEVICES \<and> dev_name (BRTOSDevices d i) \<noteq> NULL"

definition table_ok :: "devices \<Rightarrow> bool" where
  "table_ok d \<longleftrightarrow> (\<forall>i. entry_used d i \<longrightarrow> (\<exists>s. named d s i) \<and> device (BRTOSDevControl d i) = Some i) \<and>
     (\<forall>i j s. entry_used d i \<longrightarrow> entry_used d j \<longrightarrow> named d s i \<longrightarrow> named d s j \<longrightarrow> i = j)"

definition known :: "devices \<Rightarrow> u8 list \<Rightarrow> bool" where
  "known d s \<longleftrightarrow> (\<exists>i < MAX_INSTALLED_DEVICES. named d s i)"

definition digit :: "u8 \<Rightarrow> bool" where
  "digit c \<longleftrightarrow> 48 \<le> c \<and> c \<le> 57"

text \<open>Names of ports end with a letter; the code takes every prefix of \<open>GPIO\<close> with one more character for one.\<close>

definition port_like :: "u8 list \<Rightarrow> bool" where
  "port_like s \<longleftrightarrow> s \<noteq> [] \<and> take (length s - 1) s = take (length s - 1) (text_of ''GPIO'')"

lemma find_installed_finds:
  assumes c: "cstr (dev_text d) p s" and ok: "\<forall>i \<in> set is. dev_name (BRTOSDevices d i) \<noteq> NULL \<longrightarrow> (\<exists>t. named d t i)"
  shows "find_installed d p is = Some (find (named d s) is)"
  using ok
proof (induction "is")
  case (Cons i "is")
  have ih: "find_installed d p is = Some (find (named d s) is)" by (rule Cons.IH) (use Cons.prems in simp)
  show ?case
  proof (cases "dev_name (BRTOSDevices d i)")
    case None
    then have "\<not> named d s i" by (simp add: named_def)
    then show ?thesis using ih None by simp
  next
    case (Some q)
    then obtain t where t: "cstr (dev_text d) q t" using Cons.prems by (auto simp: named_def)
    obtain z where z: "strcmp (dev_text d) p q = Some z" "z = 0 \<longleftrightarrow> s = t" by (rule strcmp_cstr [OF c t])
    have "named d s i \<longleftrightarrow> cstr (dev_text d) q s" using Some by (simp add: named_def)
    then have "named d s i \<longleftrightarrow> s = t" using t cstr_unique [OF t, of s] by blast
    then show ?thesis using ih Some z by (cases "s = t") simp_all
  qed
qed simp

lemma skip_to_digit_cstr: "cstr m p s \<Longrightarrow> skip_to_digit m p = Some (p + length (takeWhile (\<lambda>c. \<not> digit c) s))"
  by (induction s arbitrary: p) (auto simp: skip_to_digit.simps digit_def)

lemma strncmp_take:
  assumes "cstr m p s" "cstr m q t" "n \<le> length s"
  obtains z where "strncmp m p q n = Some z" "z = 0 \<longleftrightarrow> take n s = take n t"
  using assms
proof (induction n arbitrary: p q s t thesis)
  case 0
  then show ?case using cstr_bound [of m p s] by (simp add: byte_at_def)
next
  case (Suc n)
  obtain a s1 where s: "s = a # s1" using Suc.prems(4) by (cases s) auto
  note p = Suc.prems(2) [unfolded s]
  have q: "q < length m" using cstr_bound [OF Suc.prems(3)] by simp
  show ?case
  proof (cases "t \<noteq> [] \<and> hd t = a")
    case True
    then obtain t1 where t: "t = a # t1" by (cases t) auto
    obtain z where z: "strncmp m (p + 1) (q + 1) n = Some z" "z = 0 \<longleftrightarrow> take n s1 = take n t1"
      using Suc.IH [where p = "p + 1" and s = s1 and q = "q + 1" and t = t1] p Suc.prems(3,4) s t by auto
    then show ?thesis using Suc.prems(1) p Suc.prems(3) s t by (simp add: byte_at_def)
  next
    case False
    then have ne: "m ! q \<noteq> a" "take (Suc n) s \<noteq> take (Suc n) t" using p Suc.prems(3) s by (cases t; auto)+
    then show ?thesis using Suc.prems(1) [of "char_diff a (m ! q)"] p q by (simp add: byte_at_def)
  qed
qed

lemma same_prefix_cstr:
  assumes "cstr m p s" "0 \<notin> set t" "t \<noteq> []"
  shows "same_prefix m p t = Some (s \<noteq> [] \<and> take (length s - 1) s = take (length s - 1) t)"
proof -
  let ?M = "m @ t @ [0]"
  have c: "cstr ?M p s" "cstr ?M (length m) t"
    using assms(1,2) cstr_bound [OF assms(1)] by (auto simp: cstr_iff nth_append in_set_conv_nth)
  have l: "strlen m p = Some (length s)" by (rule strlen_cstr [OF assms(1)])
  show ?thesis
  proof (cases "s = []")
    case True
    have "strncmp ?M p (length m) (Suc n) = Some (char_diff 0 (hd t))" for n
      using c True assms(2,3) cstr_bound [OF assms(1)] by (cases t) (auto simp: byte_at_def)
    from this [of "2 ^ 32 - 2"] show ?thesis using True assms(2,3) l by (cases t) (auto simp: same_prefix_def)
  next
    case False
    obtain z where "strncmp ?M p (length m) (length s - 1) = Some z" "z = 0 \<longleftrightarrow> take (length s - 1) s = take (length s - 1) t"
      using strncmp_take [OF c, of "length s - 1"] by auto
    then show ?thesis using False l by (simp add: same_prefix_def)
  qed
qed

lemma find_type_finds:
  assumes "cstr m p s" "s \<noteq> []" "\<forall>t \<in> set ts. 0 \<notin> set t \<and> t \<noteq> []"
  shows "find_type m p ts n = Some (case find (\<lambda>(i, t). take (length s - 1) s = take (length s - 1) t) (enumerate n ts) of
    Some (i, t) \<Rightarrow> i | None \<Rightarrow> END_TYPE)"
  using assms(3) by (induction ts arbitrary: n) (simp_all add: same_prefix_cstr [OF assms(1)] assms(2))

lemma gpio_text: "0 \<notin> set (text_of ''GPIO'')" "text_of ''GPIO'' \<noteq> []"
  by (simp_all add: text_of_def)

lemma device_number_of_refuses:
  assumes "cstr m p s" "\<forall>c \<in> set s. \<not> digit c" "\<not> port_like s"
  shows "device_number_of m p = Some None"
proof -
  have q: "skip_to_digit m p = Some (p + length s)" using skip_to_digit_cstr [OF assms(1)] takeWhile_eq_all_conv assms(2) by metis
  have z: "m ! (p + length s) = 0" using assms(1) by (simp add: cstr_iff)
  have "signed_char (0 - 48) < 0" by (simp add: signed_char_def)
  then show ?thesis
    using q z same_prefix_cstr [OF assms(1) gpio_text] assms(3) by (simp add: device_number_of_def port_like_def Let_def)
qed

lemma digit_cases: "digit c \<Longrightarrow> c \<in> {48, 49, 50, 51, 52, 53, 54, 55, 56, 57}"
proof -
  assume "digit c"
  then have "48 \<le> unat c" "unat c \<le> 57" by (simp_all add: digit_def word_le_nat_alt)
  then have "unat c = 48 \<or> unat c = 49 \<or> unat c = 50 \<or> unat c = 51 \<or> unat c = 52 \<or> unat c = 53 \<or> unat c = 54 \<or> unat c = 55 \<or>
    unat c = 56 \<or> unat c = 57" by presburger
  then show ?thesis by (auto simp: word_unat_eq_iff)
qed

lemma signed_digit: "digit c \<Longrightarrow> signed_char (c - 48) = uint (c - 48)"
  using digit_cases [of c] by (auto simp: signed_char_def)

lemma device_number_of_digit:
  assumes "cstr m p (xs @ c # ys)" "\<forall>x \<in> set xs. \<not> digit x" "digit c"
  shows "device_number_of m p = Some (Some (uint (c - 48)))"
proof -
  have "takeWhile (\<lambda>c. \<not> digit c) (xs @ c # ys) = xs" using assms(2,3) by (simp add: takeWhile_append2)
  then have q: "skip_to_digit m p = Some (p + length xs)" using skip_to_digit_cstr [OF assms(1)] by simp
  have "\<forall>i < length (xs @ c # ys). m ! (p + i) = (xs @ c # ys) ! i" using assms(1) by (simp add: cstr_iff)
  then have "m ! (p + length xs) = (xs @ c # ys) ! length xs" by (rule allE [of _ "length xs"]) simp
  then have m: "m ! (p + length xs) = c" by simp
  have "signed_char (c - 48) = uint (c - 48)" by (rule signed_digit [OF assms(3)])
  then show ?thesis using q m by (simp add: device_number_of_def Let_def)
qed

subsection \<open>Opening\<close>

lemma find_known: "find (named d s) [0..<MAX_INSTALLED_DEVICES] = None \<longleftrightarrow> \<not> known d s"
  by (auto simp: find_None_iff known_def)

lemma find_entry:
  assumes "table_ok d" "i < MAX_INSTALLED_DEVICES" "named d s i"
  shows "find (named d s) [0..<MAX_INSTALLED_DEVICES] = Some i"
proof -
  obtain j where j: "find (named d s) [0..<MAX_INSTALLED_DEVICES] = Some j"
    using find_known [of d s] assms(2,3) by (auto simp: known_def)
  then have "named d s j" "j < MAX_INSTALLED_DEVICES" by (auto simp: find_Some_iff)
  then have "j = i" using assms unfolding table_ok_def by (metis (no_types, lifting) entry_used_def named_def option.distinct(1))
  then show ?thesis using j by simp
qed

lemma table_named: "table_ok d \<Longrightarrow> \<forall>i \<in> set [0..<MAX_INSTALLED_DEVICES]. dev_name (BRTOSDevices d i) \<noteq> NULL \<longrightarrow> (\<exists>t. named d t i)"
  by (auto simp: table_ok_def entry_used_def)

lemma OSDevOpen_unknown:
  assumes "table_ok d" "cstr (dev_text d) p s" "\<not> known d s"
  shows "OSDevOpen (Some p) option (k, d) =
    (case free_entry d of
       None \<Rightarrow> Some (NULL, (k, d))
     | Some i \<Rightarrow> do {
         number \<leftarrow> device_number_of (dev_text d) p;
         (case number of
            None \<Rightarrow> Some (NULL, (k, d))
          | Some n \<Rightarrow> do {
              t \<leftarrow> find_type (dev_text d) p dev_types 0;
              s1 \<leftarrow> open_drivers OSInstalledDevices t i option (k, fill_device i p option n d);
              Some (Some i, s1) }) })"
  using find_installed_finds [OF assms(2) table_named [OF assms(1)]] assms(3)
  by (simp add: OSDevOpen_def find_known [THEN iffD2])

lemma free_entry_None: "free_entry d = None \<longleftrightarrow> (\<forall>i < MAX_INSTALLED_DEVICES. entry_used d i)"
  by (auto simp: free_entry_def find_None_iff entry_used_def)

lemma free_entry_Some: "free_entry d = Some i \<Longrightarrow> i < MAX_INSTALLED_DEVICES \<and> \<not> entry_used d i \<and> dev_name (BRTOSDevices d i) = NULL"
  by (auto simp: free_entry_def find_Some_iff entry_used_def)

text \<open>
  C37. A device that is in the table is found by its name, and opening it again changes nothing; a new name is
  refused, and nothing changed, when the table is full or when the name has neither a number nor the form
  of a port.
\<close>

theorem OSDevOpen_known_or_refused:
  assumes "table_ok d" "cstr (dev_text d) p s"
  shows "(\<forall>i. i < MAX_INSTALLED_DEVICES \<and> named d s i \<longrightarrow> OSDevOpen (Some p) option (k, d) = Some (Some i, (k, d))) \<and>
    (\<not> known d s \<and> ((\<forall>i < MAX_INSTALLED_DEVICES. entry_used d i) \<or> (\<forall>c \<in> set s. \<not> digit c) \<and> \<not> port_like s) \<longrightarrow>
       OSDevOpen (Some p) option (k, d) = Some (NULL, (k, d)))"
proof (intro conjI allI impI; (elim conjE)?)
  fix i assume "i < MAX_INSTALLED_DEVICES" "named d s i"
  then show "OSDevOpen (Some p) option (k, d) = Some (Some i, (k, d))"
    using find_installed_finds [OF assms(2) table_named [OF assms(1)]] find_entry [OF assms(1)] by (simp add: OSDevOpen_def)
next
  assume "\<not> known d s" and r: "(\<forall>i < MAX_INSTALLED_DEVICES. entry_used d i) \<or> (\<forall>c \<in> set s. \<not> digit c) \<and> \<not> port_like s"
  note run = OSDevOpen_unknown [OF assms this(1)]
  show "OSDevOpen (Some p) option (k, d) = Some (NULL, (k, d))"
  proof (cases "free_entry d")
    case None
    then show ?thesis unfolding run by simp
  next
    case (Some i)
    then have "\<not> (\<forall>i < MAX_INSTALLED_DEVICES. entry_used d i)" using free_entry_None [of d] by simp
    then have "device_number_of (dev_text d) p = Some None" using r device_number_of_refuses [OF assms(2)] by blast
    then show ?thesis unfolding run using Some by simp
  qed
qed

text \<open>Opening a serial port of a name like \<open>UART0\<close>: the entry, and what \<open>Init_UART\<close> does to the kernel.\<close>

lemma find_type_uart:
  assumes "cstr m p (text_of ''UART'' @ [c])"
  shows "find_type m p dev_types 0 = Some UART_TYPE"
proof -
  have "0 \<notin> set (text_of ''UART'')" "text_of ''UART'' \<noteq> []" by (simp_all add: text_of_def)
  then show ?thesis using same_prefix_cstr [OF assms, of "text_of ''UART''"] by (simp add: dev_types_def UART_TYPE_def)
qed

lemma device_number_uart:
  assumes "cstr m p (text_of ''UART'' @ [c])" "digit c"
  shows "device_number_of m p = Some (Some (uint (c - 48)))"
  by (rule device_number_of_digit [OF assms(1) _ assms(2)]) (simp add: text_of_def digit_def)

lemma open_drivers_uart:
  "open_drivers OSInstalledDevices UART_TYPE i option s =
    OSOpenUART i option (fst s, upd_device i (\<lambda>v. v\<lparr>device_type := UART_TYPE\<rparr>) (snd s))"
  by (simp add: OSInstalledDevices_def UART_TYPE_def GPIO_TYPE_def ADC_TYPE_def PWM_TYPE_def open_driver_def
      cong: option.case_cong split: bind_splits)

lemma queue_ready_cong:
  assumes "queue_ready i k" "BRTOS_Queue_Table k' = BRTOS_Queue_Table k" "BRTOS_OS_QUEUE_Table k' = BRTOS_OS_QUEUE_Table k"
    "QUEUE_STACK k' = QUEUE_STACK k" "iQueueAddress k' = iQueueAddress k" "iNesting k' = 0"
  shows "queue_ready i k'" "queued k' i = queued k i" "capacity k' i = capacity k i"
proof -
  show "queue_ready i k'" using assms queues_cong [of k k'] by (simp add: queue_ready_def)
  show "queued k' i = queued k i" "capacity k' i = capacity k i" by (rule queued_cong [OF assms(3,4)])+
qed

lemma OSQueueCreate_ready:
  assumes ok: "queues_ok k" "iNesting k = 0" and room: "\<not> heap_full sz k" and free: "\<exists>i < BRTOS_MAX_QUEUE. \<not> live k i"
  obtains i k' where "OSQueueCreate sz event k = (ALLOC_EVENT_OK, Some i, k')" "queue_ready i k'" "queued k' i = []"
    "capacity k' i = unat (round_up sz)" "\<not> live k i" "\<And>j. live k j \<Longrightarrow> queued k' j = queued k j"
    "BRTOS_Mutex_Table k' = BRTOS_Mutex_Table k" "currentTask k' = currentTask k"
proof -
  have "find_free 0 BRTOS_MAX_QUEUE (BRTOS_Queue_Table k) \<noteq> None" using free by (simp add: find_free_None live_def) blast
  then obtain i where i: "find_free 0 BRTOS_MAX_QUEUE (BRTOS_Queue_Table k) = Some i" by blast
  then have il: "i < BRTOS_MAX_QUEUE" "\<not> live k i" using find_free_Some [OF i] by (simp_all add: live_def)
  define e where "e = (BRTOS_Queue_Table k i)\<lparr>OSEventAllocated := TRUE, OSEventPointer_q := Some i, OSEventWait := 0, OSEventWaitList := 0\<rparr>"
  define k' where "k' = ExitCritical_if_task (put_queue (Some i) e
         ((put_ring (Some i) (ring_init 1 (CPU_WORD * unat (iQueueAddress k)) (round_up sz), QUEUE_STACK k)
            (EnterCritical_if_task k))\<lparr>iQueueAddress := iQueueAddress k + word_of_nat (unat (round_up sz) div CPU_WORD)\<rparr>))"
  have run: "OSQueueCreate sz event k = (ALLOC_EVENT_OK, Some i, k')"
    using ok(2) room i by (simp add: OSQueueCreate_def Let_def heap_full_words k'_def e_def)
  have tab: "BRTOS_OS_QUEUE_Table k' = (BRTOS_OS_QUEUE_Table k)(i := ring_init 1 (CPU_WORD * unat (iQueueAddress k)) (round_up sz))"
    "QUEUE_STACK k' = QUEUE_STACK k" "iQueueAddress k' = iQueueAddress k + word_of_nat (unat (round_up sz) div CPU_WORD)"
    "BRTOS_Queue_Table k' i = e" "\<And>j. j \<noteq> i \<Longrightarrow> BRTOS_Queue_Table k' j = BRTOS_Queue_Table k j"
    by (simp_all add: k'_def put_ring_def put_queue_def)
  note st = create_state [OF ok(1) room il tab(1-3) _ _ tab(5), unfolded tab(4)]
  have ee: "OSEventAllocated e = TRUE" "OSEventPointer_q e = Some i" "event_ok e" "waiters e = {}"
    by (simp_all add: e_def event_ok_def waiters_def)
  have n: "iNesting k' = 0"
    unfolding k'_def by (subst ExitCritical_if_task_nesting [of k]) (simp_all add: ok(2) nestable_def)
  have "queue_ready i k'" using st(1) [OF ee(1,2)] st(2) [OF ee(1,2), of i] ee(3,4) n tab(4) by (simp add: queue_ready_def)
  then show thesis
    using that [OF run] st(3-5) [OF ee(1,2)] il(2) by (simp add: k'_def)
qed

lemma mutex_if_frame:
  assumes "iNesting k = 0"
  obtains q k' where "mutex_if wanted p k = Some (q, k')" "BRTOS_Queue_Table k' = BRTOS_Queue_Table k"
    "BRTOS_OS_QUEUE_Table k' = BRTOS_OS_QUEUE_Table k" "QUEUE_STACK k' = QUEUE_STACK k" "iQueueAddress k' = iQueueAddress k"
    "iNesting k' = 0" "SerialQ k' = SerialQ k" "currentTask k' = currentTask k"
proof (cases wanted)
  case True
  have n: "iNesting (ExitCritical_if_task (EnterCritical_if_task k)) = 0"
    "iNesting (ExitCritical_if_task (put_mutex q e (EnterCritical_if_task k))) = 0" for q e
    using assms by (simp_all add: ExitCritical_if_task_nesting [of k] nestable_def)
  show thesis
  proof (cases "find_free 0 BRTOS_MAX_MUTEX (BRTOS_Mutex_Table (EnterCritical_if_task k))")
    case None
    then have "mutex_if wanted p k = Some (p, ExitCritical_if_task (EnterCritical_if_task k))"
      using True assms by (simp add: mutex_if_def OSMutexCreate_def Let_def)
    then show thesis by (rule that) (simp_all add: n)
  next
    case (Some i)
    define k' where "k' = ExitCritical_if_task (put_mutex (Some i) ((BRTOS_Mutex_Table k i)
       \<lparr>OSEventAllocated := TRUE, OSEventState := AVAILABLE_RESOURCE, OSEventWait := 0, OSMaxPriority := 0, OSEventWaitList := 0\<rparr>)
       (EnterCritical_if_task k))"
    have "mutex_if wanted p k = Some (Some i, k')"
      using True assms Some by (simp add: mutex_if_def OSMutexCreate_def Let_def k'_def)
    then show thesis by (rule that) (simp_all add: n k'_def)
  qed
qed (use that [of p k] assms in \<open>simp add: mutex_if_def\<close>)

text \<open>Device \<open>h\<close> is the serial port, its queue is \<open>i\<close> and its configuration is \<open>conf\<close>.\<close>

definition serial_open :: "nat \<Rightarrow> nat \<Rightarrow> uart_config \<Rightarrow> machine \<Rightarrow> bool" where
  "serial_open h i conf s \<longleftrightarrow> (case s of (k, d) \<Rightarrow>
     api_of h d = Some UART_api \<and> (\<exists>c dev. control h d = Some c \<and> device_number c = 0 \<and> device_of h d = Some dev \<and>
       uart_conf_of (DriverData dev) d = Some conf) \<and> SerialQ k = Some i \<and> queue_ready i k)"

text \<open>What \<open>Init_UART\<close> needs of the kernel.\<close>

definition room_for_serial :: "uart_config \<Rightarrow> kernel \<Rightarrow> bool" where
  "room_for_serial conf k \<longleftrightarrow> iNesting k = 0 \<and> queues_ok k \<and> \<not> heap_full (word_of_int (queue_size conf)) k \<and>
     (\<exists>i < BRTOS_MAX_QUEUE. \<not> live k i) \<and> (\<exists>i < BRTOS_MAX_SEM. OSEventAllocated (BRTOS_Sem_Table k i) \<noteq> TRUE)"

lemma Init_UART_run:
  assumes r: "room_for_serial conf k" and c: "uart_conf_of opt d = Some conf"
  obtains i k' tx w rm where "Init_UART opt (k, d) = Some (k', d\<lparr>SerialTX := tx, SerialWMutex := w, SerialRMutex := rm\<rparr>)"
    "SerialQ k' = Some i" "queue_ready i k'" "queued k' i = []" "capacity k' i = unat (round_up (word_of_int (queue_size conf)))"
    "\<not> live k i"
proof -
  note R = r [unfolded room_for_serial_def]
  define k1 where "k1 = ConfiguraInterruptHandler INTERRUPT_UART ISR_UARTHandler k"
  have k1: "iNesting k1 = 0" "BRTOS_Sem_Table k1 = BRTOS_Sem_Table k" "BRTOS_Queue_Table k1 = BRTOS_Queue_Table k"
    "BRTOS_OS_QUEUE_Table k1 = BRTOS_OS_QUEUE_Table k" "iQueueAddress k1 = iQueueAddress k"
    using R by (simp_all add: k1_def ConfiguraInterruptHandler_def)
  obtain j where j: "find_free 0 BRTOS_MAX_SEM (BRTOS_Sem_Table k1) = Some j"
    using R k1(2) find_free_None [of BRTOS_MAX_SEM "BRTOS_Sem_Table k1"] by (cases "find_free 0 BRTOS_MAX_SEM (BRTOS_Sem_Table k1)") auto
  obtain k2 where sem: "OSSemCreate 0 (SerialTX d) k1 = (ALLOC_EVENT_OK, Some j, k2)"
    and k2: "iNesting k2 = 0" "BRTOS_Queue_Table k2 = BRTOS_Queue_Table k" "BRTOS_OS_QUEUE_Table k2 = BRTOS_OS_QUEUE_Table k" "iQueueAddress k2 = iQueueAddress k"
    using OSSemCreate_free [OF k1(1) j, of 0 "SerialTX d"] k1 by (simp add: ExitCritical_if_task_nesting [of k1] nestable_def)
  have q2: "queues_ok k2" "\<And>i. live k2 i = live k i" using queues_cong [of k k2] R k2 by simp_all
  have room: "\<not> heap_full (word_of_int (queue_size conf)) k2" using R k2(4) by (simp add: heap_full_def)
  have free: "\<exists>i < BRTOS_MAX_QUEUE. \<not> live k2 i" using R q2(2) by simp
  obtain i k3 where q: "OSQueueCreate (word_of_int (queue_size conf)) (SerialQ k2) k2 = (ALLOC_EVENT_OK, Some i, k3)"
    and k3: "queue_ready i k3" "queued k3 i = []" "capacity k3 i = unat (round_up (word_of_int (queue_size conf)))" "\<not> live k2 i"
    by (rule OSQueueCreate_ready [OF q2(1) k2(1) room free]) blast
  define k4 where "k4 = k3\<lparr>SerialQ := Some i\<rparr>"
  have "iNesting k3 = 0" using k3(1) by (simp add: queue_ready_def)
  then have r4: "queue_ready i k4" "queued k4 i = []" "capacity k4 i = capacity k3 i" "iNesting k4 = 0"
    using queue_ready_cong [OF k3(1), of k4] k3(2) by (simp_all add: k4_def)
  obtain w k5 where m5: "mutex_if (write_mutex conf) (SerialWMutex d) k4 = Some (w, k5)" "BRTOS_Queue_Table k5 = BRTOS_Queue_Table k4"
    "BRTOS_OS_QUEUE_Table k5 = BRTOS_OS_QUEUE_Table k4" "QUEUE_STACK k5 = QUEUE_STACK k4" "iQueueAddress k5 = iQueueAddress k4"
    "iNesting k5 = 0" "SerialQ k5 = SerialQ k4"
    by (rule mutex_if_frame [OF r4(4), of "write_mutex conf" "SerialWMutex d"]) blast
  obtain rm k6 where m6: "mutex_if (read_mutex conf) (SerialRMutex d) k5 = Some (rm, k6)" "BRTOS_Queue_Table k6 = BRTOS_Queue_Table k5"
    "BRTOS_OS_QUEUE_Table k6 = BRTOS_OS_QUEUE_Table k5" "QUEUE_STACK k6 = QUEUE_STACK k5" "iQueueAddress k6 = iQueueAddress k5"
    "iNesting k6 = 0" "SerialQ k6 = SerialQ k5"
    by (rule mutex_if_frame [OF m5(6), of "read_mutex conf" "SerialRMutex d"]) blast
  have "Init_UART opt (k, d) = Some (k6, d\<lparr>SerialTX := Some j, SerialWMutex := w, SerialRMutex := rm\<rparr>)"
    by (simp add: Init_UART_def Let_def assert_created_def c sem q m5(1) m6(1) flip: k1_def k4_def)
  moreover have "queue_ready i k6" "queued k6 i = []" "capacity k6 i = capacity k3 i"
    using queue_ready_cong [OF r4(1), of k6] m5 m6 r4(2,3) by simp_all
  moreover have "SerialQ k6 = Some i" using m5(7) m6(7) by (simp add: k4_def)
  ultimately show thesis using that k3(3,4) q2(2) by simp
qed

lemma serial_openD:
  assumes "serial_open h i conf (k, d)"
  obtains c dev where "api_of h d = Some UART_api" "control h d = Some c" "device_number c = 0" "device_of h d = Some dev"
    "uart_conf_of (DriverData dev) d = Some conf" "SerialQ k = Some i" "queue_ready i k"
  using assms by (auto simp: serial_open_def)

text \<open>
  C38. Opening a serial port by a new name \<open>UART\<close> and a digit takes a free entry of the table and keeps the
  table in order. \<open>UART0\<close> then has an empty queue of the size asked for. Any other digit is accepted too,
  and the queue of \<open>UART0\<close> replaced, but every read of the new device is outside the driver's arrays.
\<close>

theorem OSDevOpen_serial_port:
  assumes "table_ok d" "cstr (dev_text d) p (text_of ''UART'' @ [c])" "digit c" "\<not> known d (text_of ''UART'' @ [c])"
    "\<exists>i < MAX_INSTALLED_DEVICES. \<not> entry_used d i" "uart_conf_of opt d = Some conf" "room_for_serial conf k"
  shows "\<exists>h i k' d'. OSDevOpen (Some p) opt (k, d) = Some (Some h, (k', d')) \<and> \<not> entry_used d h \<and> table_ok d' \<and>
    named d' (text_of ''UART'' @ [c]) h \<and> (\<forall>j. j \<noteq> h \<longrightarrow> BRTOSDevices d' j = BRTOSDevices d j) \<and>
    SerialQ k' = Some i \<and> \<not> live k i \<and> queued k' i = [] \<and> capacity k' i = unat (round_up (word_of_int (queue_size conf))) \<and>
    (if c = 48 then serial_open h i conf (k', d') else (\<forall>sample n. OSDevRead sample h (Suc n) (k', d') = None))"
proof -
  let ?s = "text_of ''UART'' @ [c]"
  have "free_entry d \<noteq> None" using assms(5) free_entry_None [of d] by blast
  then obtain h where h: "free_entry d = Some h" by blast
  note hf = free_entry_Some [OF h]
  define n where "n = uint (c - 48)"
  define d1 where "d1 = upd_device h (\<lambda>v. v\<lparr>device_type := UART_TYPE\<rparr>) (fill_device h p opt n d)"
  have conf1: "uart_conf_of opt d1 = Some conf"
    using assms(6) by (simp add: uart_conf_of_def d1_def upd_device_def fill_device_def Let_def cong: option.case_cong)
  obtain i k' tx w rm where init: "Init_UART opt (k, d1) = Some (k', d1\<lparr>SerialTX := tx, SerialWMutex := w, SerialRMutex := rm\<rparr>)"
    "SerialQ k' = Some i" "queue_ready i k'" "queued k' i = []" "capacity k' i = unat (round_up (word_of_int (queue_size conf)))" "\<not> live k i"
    by (rule Init_UART_run [OF assms(7) conf1])
  define d' where "d' = set_api h UART_api (d1\<lparr>SerialTX := tx, SerialWMutex := w, SerialRMutex := rm\<rparr>)"
  have run: "OSDevOpen (Some p) opt (k, d) = Some (Some h, (k', d'))"
    unfolding OSDevOpen_unknown [OF assms(1,2,4)] using h device_number_uart [OF assms(2,3)] find_type_uart [OF assms(2)]
    by (simp add: open_drivers_uart OSOpenUART_def init(1) d'_def flip: n_def d1_def)
  have f: "BRTOSDevices d' = (BRTOSDevices d)(h := (BRTOSDevices d h)\<lparr>dev_name := Some p, DriverData := opt, device_type := UART_TYPE\<rparr>)"
    "dev_text d' = dev_text d" "configs d' = configs d"
    "BRTOSDevControl d' = (BRTOSDevControl d)(h := (BRTOSDevControl d h)\<lparr>device := Some h, device_number := n, api := Some UART_api\<rparr>)"
    by (simp_all add: d'_def set_api_def d1_def upd_device_def fill_device_def Let_def fun_eq_iff)
  have nm: "named d' ?s h" using assms(2) by (simp add: named_def f)
  have same: "named d' t j \<longleftrightarrow> named d t j" "entry_used d' j \<longleftrightarrow> entry_used d j" if "j \<noteq> h" for t j using that by (simp_all add: named_def entry_used_def f)
  have only: "t = ?s" if "named d' t h" for t using that cstr_unique [OF _ assms(2), of t] by (simp add: named_def f)
  have "table_ok d'"
    unfolding table_ok_def
  proof (intro conjI allI impI)
    fix j assume j: "entry_used d' j"
    show "\<exists>s. named d' s j" "device (BRTOSDevControl d' j) = Some j"
      using nm j same [of j] assms(1) by (cases "j = h"; auto simp: table_ok_def f)+
  next
    fix a b t assume ab: "entry_used d' a" "entry_used d' b" "named d' t a" "named d' t b"
    have new: False if "x \<noteq> h" "named d' ?s x" "entry_used d' x" for x
      using that same [of x] assms(4) by (auto simp: known_def entry_used_def)
    show "a = b"
    proof (cases "a = h \<or> b = h")
      case True
      then have "t = ?s" using ab only by blast
      then have "named d' ?s a" "named d' ?s b" using ab by simp_all
      then have "\<not> a \<noteq> h" "\<not> b \<noteq> h" using ab new by blast+
      then show ?thesis by simp
    next
      case False
      then show ?thesis using ab same assms(1) unfolding table_ok_def by blast
    qed
  qed
  moreover have use: "api_of h d' = Some UART_api" "control h d' = Some (BRTOSDevControl d' h)" "device_number (BRTOSDevControl d' h) = n"
    "device_of h d' = Some (BRTOSDevices d' h)" "uart_conf_of (DriverData (BRTOSDevices d' h)) d' = Some conf"
    using hf assms(6) by (simp_all add: api_of_def control_def device_of_def f uart_conf_of_def cong: option.case_cong)
  have "if c = 48 then serial_open h i conf (k', d') else (\<forall>sample n. OSDevRead sample h (Suc n) (k', d') = None)"
  proof (cases "c = 48")
    case True
    then show ?thesis using use init(2,3) by (simp add: serial_open_def n_def)
  next
    case False
    then have "c - 48 \<noteq> 0" by simp
    then have "n \<noteq> 0" unfolding n_def by (metis unsigned_eq_0_iff)
    then show ?thesis using False use by (simp add: OSDevRead_def UART_Read_def only_element_def)
  qed
  ultimately show ?thesis using run hf nm f(1) init(2,4-6) by (intro exI [of _ h] exI [of _ i] exI [of _ k'] exI [of _ d']) simp
qed

subsection \<open>The serial line\<close>

text \<open>The part of the kernel a pend needs to suspend its caller.\<close>

definition caller_ok :: "kernel \<Rightarrow> bool" where
  "caller_ok k \<longleftrightarrow> unat (currentTask k) \<le> NUMBER_OF_TASKS \<and> unat (Priority (ContextTask k (unat (currentTask k)))) < 32"

lemma pend_takes:
  assumes r: "queue_ready i k" and ne: "queued k i \<noteq> []"
  obtains k' where "OSQueuePend (Some i) w k = Some (Return (READ_BUFFER_OK, Some (hd (queued k i))) k')" "queue_ready i k'"
    "queued k' i = tl (queued k i)" "capacity k' i = capacity k i" "SerialQ k' = SerialQ k" "ContextTask k' = ContextTask k" "currentTask k' = currentTask k"
proof -
  have ok: "queues_ok k" "live k i" "iNesting k = 0" using r by (simp_all add: queue_ready_def)
  obtain q' k' where k': "take_entry (Some i) (BRTOS_OS_QUEUE_Table k i) (EnterCritical k) = Some (READ_BUFFER_OK, Some (hd (queued k i)), k')"
    "k' = ExitCritical (put_ring (Some i) (q', QUEUE_STACK k) (EnterCritical k))" "queues_ok k'"
    "\<And>j. live k' j = live k j" "queued k' i = tl (queued k i)" "capacity k' i = capacity k i"
    by (rule take_entry_Enter [OF ok(1,2) ne]) (rule that)
  have "iNesting k' = 0" "BRTOS_Queue_Table k' = BRTOS_Queue_Table k" using ok(3) by (simp_all add: k'(2) iNesting_ExitCritical)
  then have "queue_ready i k'" using r k'(3,4) by (simp add: queue_ready_def)
  moreover have "OSQueuePend (Some i) w k = Some (Return (READ_BUFFER_OK, Some (hd (queued k i))) k')"
    using OSQueuePend_checked [OF ok(1,2), of w] ok(3) ne k'(1) by simp
  ultimately show thesis using that k'(5,6) by (simp add: k'(2))
qed

lemma read_bytes_takes:
  "queue_ready i k \<Longrightarrow> n \<le> length (queued k i) \<Longrightarrow>
    \<exists>k'. read_bytes (Some i) w (n + m) got k = read_bytes (Some i) w m (got @ take n (queued k i)) k' \<and> queue_ready i k' \<and>
      queued k' i = drop n (queued k i) \<and> capacity k' i = capacity k i \<and> SerialQ k' = SerialQ k \<and> ContextTask k' = ContextTask k \<and>
      currentTask k' = currentTask k"
proof (induction n arbitrary: k got)
  case 0
  then show ?case by (intro exI [of _ k]) simp
next
  case (Suc n)
  then have ne: "queued k i \<noteq> []" by auto
  obtain k1 where k1: "OSQueuePend (Some i) w k = Some (Return (READ_BUFFER_OK, Some (hd (queued k i))) k1)" "queue_ready i k1"
    "queued k1 i = tl (queued k i)" "capacity k1 i = capacity k i" "SerialQ k1 = SerialQ k" "ContextTask k1 = ContextTask k" "currentTask k1 = currentTask k"
    by (rule pend_takes [OF Suc.prems(1) ne])
  have "n \<le> length (queued k1 i)" using Suc.prems(2) k1(3) by simp
  from Suc.IH [OF k1(2) this, of "got @ [hd (queued k i)]"] show ?case
    using k1 ne by (auto simp: next_byte_def take_Suc drop_Suc)
qed

lemma read_empty:
  assumes "queue_ready i k" "queued k i = []"
  shows "w = NO_TIMEOUT \<Longrightarrow> \<exists>k'. read_bytes (Some i) w (Suc n) got k = Some (Read got k') \<and> queue_ready i k' \<and> queued k' i = [] \<and> SerialQ k' = SerialQ k"
    "w \<noteq> NO_TIMEOUT \<Longrightarrow> caller_ok k \<Longrightarrow> \<exists>k'. read_bytes (Some i) w (Suc n) got k =
       Some (Blocked (unat (currentTask k)) (Priority (ContextTask k (unat (currentTask k)))) n got k') \<and> queued k' i = [] \<and>
       waiting_on k' i = {prio_of k (unat (currentTask k))}"
proof -
  have ok: "queues_ok k" "live k i" "iNesting k = 0" using assms(1) by (simp_all add: queue_ready_def)
  note run = OSQueuePend_checked [OF ok(1,2), of w] ok(3) assms(2)
  show "\<exists>k'. read_bytes (Some i) w (Suc n) got k = Some (Read got k') \<and> queue_ready i k' \<and> queued k' i = [] \<and> SerialQ k' = SerialQ k"
    if "w = NO_TIMEOUT"
  proof -
    define k' where "k' = ExitCritical (EnterCritical k)"
    have "queue_ready i k'" "queued k' i = queued k i" using queue_ready_cong [OF assms(1), of k'] ok(3) by (simp_all add: k'_def iNesting_ExitCritical)
    moreover have "EXIT_BY_NO_ENTRY_AVAILABLE \<noteq> READ_BUFFER_OK" by (simp add: codes)
    ultimately show ?thesis using run that assms(2) by (intro exI [of _ k']) (simp add: next_byte_def k'_def)
  qed
  show "\<exists>k'. read_bytes (Some i) w (Suc n) got k =
       Some (Blocked (unat (currentTask k)) (Priority (ContextTask k (unat (currentTask k)))) n got k') \<and> queued k' i = [] \<and>
       waiting_on k' i = {prio_of k (unat (currentTask k))}"
    if "w \<noteq> NO_TIMEOUT" "caller_ok k"
  proof -
    let ?t = "unat (currentTask k)"
    define k1 where "k1 = put_queue (Some i) (wait_add (pbit (prio_of k ?t)) (BRTOS_Queue_Table k i)) (EnterCritical k)"
    define k' where "k' = ExitCritical (suspend ?t (pbit (prio_of k ?t)) w k1)"
    have "task_at ?t (EnterCritical k) = Some (ContextTask k ?t)" "PriorityMask (Priority (ContextTask k ?t)) = Some (pbit (prio_of k ?t))"
      using that(2) by (simp_all add: caller_ok_def task_at_def PriorityMask_Some prio_of_def)
    then have "OSQueuePend (Some i) w k = Some (Wait ?t (Priority (ContextTask k ?t)) k')"
      using run that(1) by (simp add: Let_def k'_def k1_def)
    moreover have "queued k' i = queued k i" by (rule queued_cong) (simp_all add: k'_def k1_def)
    moreover have "waiting_on k' i = {prio_of k ?t}"
      using assms(1) that(2) by (simp add: k'_def k1_def put_queue_def waiters_wait_add caller_ok_def prio_of_def queue_ready_def)
    ultimately show ?thesis using assms(2) by (intro exI [of _ k']) simp
  qed
qed

lemma serial_cong:
  "serial_open h i conf (k, d) \<Longrightarrow> queue_ready i k' \<Longrightarrow> SerialQ k' = SerialQ k \<Longrightarrow> serial_open h i conf (k', d)"
  by (simp add: serial_open_def)

lemma OSDevRead_port:
  assumes "serial_open h i conf (k, d)"
  shows "OSDevRead sample h n (k, d) = do { r \<leftarrow> read_bytes (Some i) (timeout' conf) n [] k; Some (Bytes r, d) }"
  by (rule serial_openD [OF assms]) (cases n; simp add: OSDevRead_def UART_Read_def only_element_def)

text \<open>
  C39. A read of the serial port returns the oldest bytes of its queue, in order. When there are fewer than were
  asked for it returns what there is, if the port has no time limit to wait, or else the task waits on
  the queue and keeps what it has got.
\<close>

theorem OSDevRead_serial:
  assumes "serial_open h i conf (k, d)"
  shows "(n \<le> length (queued k i) \<longrightarrow> (\<exists>k'. OSDevRead sample h n (k, d) = Some (Bytes (Read (take n (queued k i)) k'), d) \<and>
      serial_open h i conf (k', d) \<and> queued k' i = drop n (queued k i))) \<and>
    (length (queued k i) < n \<and> timeout' conf = NO_TIMEOUT \<longrightarrow> (\<exists>k'. OSDevRead sample h n (k, d) = Some (Bytes (Read (queued k i) k'), d) \<and>
      serial_open h i conf (k', d) \<and> queued k' i = [])) \<and>
    (length (queued k i) < n \<and> timeout' conf \<noteq> NO_TIMEOUT \<and> caller_ok k \<longrightarrow>
      (\<exists>k'. OSDevRead sample h n (k, d) = Some (Bytes (Blocked (unat (currentTask k)) (Priority (ContextTask k (unat (currentTask k))))
           (n - length (queued k i) - 1) (queued k i) k'), d) \<and>
         queued k' i = [] \<and> waiting_on k' i = {prio_of k (unat (currentTask k))}))"
proof (intro conjI impI; (elim conjE)?)
  have q: "queue_ready i k" using assms by (simp add: serial_open_def)
  note run = OSDevRead_port [OF assms]
  show "\<exists>k'. OSDevRead sample h n (k, d) = Some (Bytes (Read (take n (queued k i)) k'), d) \<and> serial_open h i conf (k', d) \<and> queued k' i = drop n (queued k i)"
    if "n \<le> length (queued k i)"
    using read_bytes_takes [OF q that, of "timeout' conf" 0 "[]"] serial_cong [OF assms] by (auto simp: run)
  define m where "m = n - length (queued k i) - 1"
  obtain k1 where k1: "read_bytes (Some i) (timeout' conf) (length (queued k i) + Suc m) [] k = read_bytes (Some i) (timeout' conf) (Suc m) (queued k i) k1"
    "queue_ready i k1" "queued k1 i = []" "SerialQ k1 = SerialQ k" "ContextTask k1 = ContextTask k" "currentTask k1 = currentTask k"
    using read_bytes_takes [OF q order_refl, of "timeout' conf" "Suc m" "[]"] by auto
  have n: "n = length (queued k i) + Suc m" if "length (queued k i) < n" using that by (simp add: m_def)
  show "\<exists>k'. OSDevRead sample h n (k, d) = Some (Bytes (Read (queued k i) k'), d) \<and> serial_open h i conf (k', d) \<and> queued k' i = []"
    if "length (queued k i) < n" "timeout' conf = NO_TIMEOUT"
    using read_empty(1) [OF k1(2,3) that(2), of m "queued k i"] serial_cong [OF assms] k1(4) unfolding run n [OF that(1)] k1(1) by fastforce
  show "\<exists>k'. OSDevRead sample h n (k, d) = Some (Bytes (Blocked (unat (currentTask k)) (Priority (ContextTask k (unat (currentTask k))))
           (n - length (queued k i) - 1) (queued k i) k'), d) \<and> queued k' i = [] \<and> waiting_on k' i = {prio_of k (unat (currentTask k))}"
    if "length (queued k i) < n" "timeout' conf \<noteq> NO_TIMEOUT" "caller_ok k"
  proof -
    have c: "caller_ok k1" using that(3) by (simp add: caller_ok_def k1(5,6))
    have p: "prio_of k1 t = prio_of k t" for t by (simp add: prio_of_def k1(5))
    from read_empty(2) [OF k1(2,3) that(2) c, of m "queued k i"] obtain k' where k':
      "read_bytes (Some i) (timeout' conf) (Suc m) (queued k i) k1 =
        Some (Blocked (unat (currentTask k)) (Priority (ContextTask k (unat (currentTask k)))) m (queued k i) k')"
      "queued k' i = []" "waiting_on k' i = {prio_of k (unat (currentTask k))}"
      unfolding k1(5,6) p by blast
    have "OSDevRead sample h n (k, d) = Some (Bytes (Blocked (unat (currentTask k)) (Priority (ContextTask k (unat (currentTask k))))
        m (queued k i) k'), d)"
      unfolding run by (subst n [OF that(1)], unfold k1(1) k'(1)) simp
    then show ?thesis unfolding m_def using k'(2,3) by blast
  qed
qed

subsection \<open>The line as a bounded queue\<close>

text \<open>A character arrives; a task reads one.\<close>

definition receive_char :: "u8 \<Rightarrow> machine \<Rightarrow> machine option" where
  "receive_char c s = (case s of (k, d) \<Rightarrow> do { (_, k1) \<leftarrow> UARTHandler (k\<lparr>UART_RX_buffer := c\<rparr>); Some (k1, d) })"

definition read_char :: "nat \<Rightarrow> machine \<Rightarrow> (u8 \<times> machine) option" where
  "read_char h s = (case OSDevRead (\<lambda>_. 0) h 1 s of Some (Bytes (Read [c] k1), d) \<Rightarrow> Some (c, k1, d) | _ \<Rightarrow> None)"

lemma receive_char_queued:
  assumes s: "serial_open h i conf (k, d)" and room: "length (queued k i) < capacity k i"
  obtains k' where "receive_char c (k, d) = Some (k', d)" "serial_open h i conf (k', d)" "queued k' i = queued k i @ [c]" "capacity k' i = capacity k i"
proof -
  define k0 where "k0 = k\<lparr>UART_RX_buffer := c\<rparr>"
  have q0: "queue_ready i k0" "queued k0 i = queued k i" "capacity k0 i = capacity k i"
    using queue_ready_cong [of i k k0] s by (simp_all add: serial_open_def k0_def queue_ready_def)
  have ok: "queues_ok k0" "live k0 i" "event_ok (BRTOS_Queue_Table k0 i)" "waiting_on k0 i = {}" "iNesting k0 = 0" using q0(1) by (simp_all add: queue_ready_def)
  obtain k' where k': "OSQueuePost (Some i) c k0 = Some (WRITE_BUFFER_OK, k')" "queues_ok k'" "\<And>j. live k' j = live k0 j"
    "queued k' i = queued k0 i @ [c]" "capacity k' i = capacity k0 i" "waiting_on k' i = waiting_on k0 i - (if waiting_on k0 i = {} then {} else {Max (waiting_on k0 i)})"
    "event_ok (BRTOS_Queue_Table k' i)" "iNesting k' = iNesting k0"
    by (rule OSQueuePost_run [OF ok(1-3), of c]) (use ok(5) room q0 in \<open>simp_all add: nestable_def\<close>)
  have "OSEventWait (BRTOS_Queue_Table k0 i) = 0" using ok(3,4) by (simp add: event_ok_no_waiters)
  then have "SerialQ k' = SerialQ k0"
    using k'(1) room q0(2,3) by (auto simp: OSQueuePost_checked [OF ok(1,2)] Let_def bind_eq_Some_conv)
  moreover have "queue_ready i k'" using k'(2,3,6-8) ok by (simp add: queue_ready_def)
  ultimately have "serial_open h i conf (k', d)" using serial_cong [OF s] by (simp add: k0_def)
  moreover have "receive_char c (k, d) = Some (k', d)" using k'(1) s by (simp add: receive_char_def UARTHandler_def serial_open_def flip: k0_def) (simp add: k0_def)
  ultimately show thesis using that k'(4,5) q0(2,3) by simp
qed

interpretation sp: fifo "serial_open h i conf" "\<lambda>s. queued (fst s) i" "\<lambda>s. capacity (fst s) i" "\<lambda>_. True" receive_char "read_char h" for h i conf
proof
  fix s :: machine and c :: u8
  obtain k d where s: "s = (k, d)" by (cases s)
  assume ok: "serial_open h i conf s"
  show "length (queued (fst s) i) \<le> capacity (fst s) i" using ok queued_le by (auto simp: s serial_open_def queue_ready_def)
  show "\<exists>s'. receive_char c s = Some s' \<and> serial_open h i conf s' \<and> queued (fst s') i = queued (fst s) i @ [c] \<and> capacity (fst s') i = capacity (fst s) i"
    if "length (queued (fst s) i) < capacity (fst s) i"
    using receive_char_queued [OF ok [unfolded s], of c] that unfolding s by (metis fst_conv)
  show "\<exists>s'. read_char h s = Some (hd (queued (fst s) i), s') \<and> serial_open h i conf s' \<and> queued (fst s') i = tl (queued (fst s) i) \<and>
      capacity (fst s') i = capacity (fst s) i" if ne: "queued (fst s) i \<noteq> []"
  proof -
    have q: "queue_ready i k" using ok by (simp add: s serial_open_def)
    obtain k' where k': "OSQueuePend (Some i) (timeout' conf) k = Some (Return (READ_BUFFER_OK, Some (hd (queued k i))) k')" "queue_ready i k'"
      "queued k' i = tl (queued k i)" "capacity k' i = capacity k i" "SerialQ k' = SerialQ k"
      by (rule pend_takes [OF q]) (use ne s in auto)
    have "read_char h s = Some (hd (queued k i), k', d)"
      using k'(1) by (simp add: s read_char_def OSDevRead_port [OF ok [unfolded s]] next_byte_def)
    then show ?thesis using serial_cong [OF ok [unfolded s] k'(2,5)] k'(3,4) s by simp
  qed
qed

lemma put_all_keeps: "sp.put_all cs s = Some s1 \<Longrightarrow> snd s1 = snd s"
  by (induction cs arbitrary: s) (auto simp: receive_char_def bind_eq_Some_conv split: prod.splits)

text \<open>
  C40. The serial line keeps its order: characters that arrive one interrupt at a time while the queue has room
  are what tasks read afterwards, behind what was in the queue.
\<close>

theorem serial_line_in_order:
  assumes "serial_open h i conf (k, d)" "length (queued k i) + length cs \<le> capacity k i"
  shows "\<exists>s1 k2. sp.put_all cs (k, d) = Some s1 \<and>
    OSDevRead sample h (length (queued k i) + length cs) s1 = Some (Bytes (Read (queued k i @ cs) k2), d) \<and> queued k2 i = []"
proof -
  from sp.put_all_appends [OF assms(1), of cs] assms(2) obtain s1 where s1: "sp.put_all cs (k, d) = Some s1" "serial_open h i conf s1"
    "queued (fst s1) i = queued k i @ cs" by auto
  obtain k1 where k1: "s1 = (k1, d)" using put_all_keeps [OF s1(1)] by (cases s1) simp
  have q: "queue_ready i k1" using s1(2) by (simp add: k1 serial_open_def)
  have n: "length (queued k i) + length cs = length (queued k1 i) + 0" using s1(3) by (simp add: k1)
  obtain k2 where "read_bytes (Some i) (timeout' conf) (length (queued k1 i) + 0) [] k1 = Some (Read (queued k1 i) k2)" "queued k2 i = []"
    using read_bytes_takes [OF q order_refl, of "timeout' conf" 0 "[]"] by auto
  then have "OSDevRead sample h (length (queued k i) + length cs) s1 = Some (Bytes (Read (queued k i @ cs) k2), d)"
    using OSDevRead_port [of h i conf k1 d sample] s1(2,3) unfolding n by (simp add: k1)
  then show ?thesis using s1(1) \<open>queued k2 i = []\<close> by blast
qed

subsection \<open>The converter\<close>

text \<open>The interrupt of the converter is outside the table of handlers; only polling brings samples.\<close>

lemma ADC_handler_not_installed: "ConfiguraInterruptHandler INTERRUPT_ADC f k = k"
  by (simp add: ConfiguraInterruptHandler_def INTERRUPT_ADC_def MAX_INTERRUPTS_def)

lemma poll_samples_whole:
  "\<not> adc_state d \<Longrightarrow> \<exists>d'. poll_samples sample 0 (2 * n) got d =
      Some (got @ concat (map (\<lambda>j. [ucast (drop_bit 8 (sample j)), ucast (sample j)]) [samples_taken d..<samples_taken d + n]), d') \<and>
    \<not> adc_state d' \<and> samples_taken d' = samples_taken d + n"
proof (induction n arbitrary: got d)
  case 0
  then show ?case by simp
next
  case (Suc n)
  let ?v = "sample (samples_taken d)"
  define d1 where "d1 = d\<lparr>valor := ?v, samples_taken := samples_taken d + 1, adc_state := False\<rparr>"
  have two: "poll_samples sample 0 (2 * Suc n) got d = poll_samples sample 0 (2 * n) (got @ [ucast (drop_bit 8 ?v), ucast ?v]) d1"
    using Suc.prems by (simp add: ADC_GetSample_def only_element_def d1_def)
  have u: "[samples_taken d..<samples_taken d + Suc n] = samples_taken d # [samples_taken d1..<samples_taken d1 + n]"
    using upt_conv_Cons [of "samples_taken d" "samples_taken d + Suc n"] by (simp add: d1_def)
  show ?case
    using Suc.IH [of d1 "got @ [ucast (drop_bit 8 ?v), ucast ?v]"] unfolding two u by (simp add: d1_def)
qed

end
