(* ===== verification/Device_Examples.thy ===== *)
theory Device_Examples
  imports Device_Laws Queue_Examples
begin

text \<open>
  Instances of the properties of the device table and of the serial port: one name \<open>UART0\<close> and one the table
  refuses, in the running system \<open>demo\<close> with no queue, or with the queue of the port open.
\<close>

definition line_conf :: "u16 \<Rightarrow> uart_config" where
  "line_conf w = \<lparr>baudrate = 9600, parity = 0, stop_bits = 1, polling_irq = 1, queue_size = 8, timeout' = w,
     read_mutex = False, write_mutex = True\<rparr>"

definition entry_free :: OS_Device where
  "entry_free = \<lparr>dev_name = NULL, device_type = 0, base_address = 0, DriverData = NULL\<rparr>"

definition no_devices :: "u16 \<Rightarrow> devices" where
  "no_devices w = \<lparr>dev_text = text_of ''UART0'' @ [0] @ text_of ''FOO'' @ [0], BRTOSDevices = \<lambda>_. entry_free,
     BRTOSDevControl = \<lambda>_. \<lparr>device = NULL, device_number = 0, api = None\<rparr>, configs = \<lambda>_. UART_conf (line_conf w),
     SerialTX = NULL, SerialRMutex = NULL, SerialWMutex = NULL, console_out = [], ADC = NULL, ADCQ = NULL, ADCRMutex = NULL,
     ADC_res = 0, ADC_rate = 0, ADC_chan = 0, ADC_buffer = \<lambda>_. 0, valor = 0, adc_state = False, samples_taken = 0, beeps = []\<rparr>"

definition one_device :: "u16 \<Rightarrow> devices" where
  "one_device w = set_api 0 UART_api (fill_device 0 0 (Some 0) 0 (no_devices w))"

definition line_kernel :: kernel where
  "line_kernel = (queue_demo queue0)\<lparr>SerialQ := Some 0\<rparr>"

lemma names:
  "cstr (dev_text (no_devices w)) 0 (text_of ''UART'' @ [48])" "cstr (dev_text (no_devices w)) 6 (text_of ''FOO'')"
  by (simp_all add: no_devices_def text_of_def)

lemma tables_empty: "entry_used (no_devices w) i = False" "named (no_devices w) s i = False" "table_ok (no_devices w)" "\<not> known (no_devices w) s"
  by (simp_all add: entry_used_def named_def no_devices_def entry_free_def table_ok_def known_def)

lemma one_device_facts:
  "dev_text (one_device w) = dev_text (no_devices w)" "configs (one_device w) = (\<lambda>_. UART_conf (line_conf w))"
  "BRTOSDevices (one_device w) i = (if i = 0 then entry_free\<lparr>dev_name := Some 0, DriverData := Some 0\<rparr> else entry_free)"
  "BRTOSDevControl (one_device w) 0 = \<lparr>device = Some 0, device_number = 0, api = Some UART_api\<rparr>"
  by (simp_all add: one_device_def set_api_def fill_device_def upd_device_def Let_def no_devices_def)

lemma one_named: "named (one_device w) s i \<longleftrightarrow> i = 0 \<and> s = text_of ''UART'' @ [48]"
  using names(1) [of w] cstr_unique [OF _ names(1), of w s] by (auto simp: named_def one_device_facts entry_free_def)

lemma one_entry_used: "entry_used (one_device w) i \<longleftrightarrow> i = 0"
  by (simp add: entry_used_def one_device_facts entry_free_def MAX_INSTALLED_DEVICES_def)

lemma one_table: "table_ok (one_device w)" "\<not> known (one_device w) (text_of ''FOO'')"
  by (simp_all add: table_ok_def one_entry_used one_named one_device_facts known_def text_of_def)

lemma line_open: "serial_open 0 0 (line_conf w) (line_kernel, one_device w)"
  "queued line_kernel 0 = []" "capacity line_kernel 0 = 8"
proof -
  have r: "queue_ready 0 (queue_demo queue0)" by (simp add: queue_ready_def q0 queue0_ok)
  have k: "queue_ready 0 line_kernel" "queued line_kernel 0 = queued (queue_demo queue0) 0" "capacity line_kernel 0 = capacity (queue_demo queue0) 0"
    by (rule queue_ready_cong [OF r]; simp add: line_kernel_def q0)+
  then show "queued line_kernel 0 = []" "capacity line_kernel 0 = 8" by (simp_all add: q0)
  show "serial_open 0 0 (line_conf w) (line_kernel, one_device w)"
    using k(1) by (simp add: serial_open_def api_of_def control_def device_of_def one_device_facts entry_free_def uart_conf_of_def
        MAX_INSTALLED_DEVICES_def line_kernel_def)
qed

lemma OSDevOpen_known_or_refused_witness:
  "OSDevOpen (Some 0) (Some 0) (demo, one_device 10) = Some (Some 0, (demo, one_device 10)) \<and>
   OSDevOpen (Some 6) (Some 0) (demo, one_device 10) = Some (NULL, (demo, one_device 10))"
proof
  note t = names [of 10, folded one_device_facts(1)]
  show "OSDevOpen (Some 0) (Some 0) (demo, one_device 10) = Some (Some 0, (demo, one_device 10))"
    using OSDevOpen_known_or_refused [OF one_table(1) t(1), of "Some 0" demo] by (simp add: one_named MAX_INSTALLED_DEVICES_def)
  have "\<forall>c \<in> set (text_of ''FOO''). \<not> digit c" "\<not> port_like (text_of ''FOO'')" by (simp_all add: text_of_def digit_def port_like_def)
  then show "OSDevOpen (Some 6) (Some 0) (demo, one_device 10) = Some (NULL, (demo, one_device 10))"
    using OSDevOpen_known_or_refused [OF one_table(1) t(2), of "Some 0" demo] one_table(2) [of 10] by blast
qed

lemma demo_room: "room_for_serial (line_conf w) demo"
proof -
  have r: "round_up 8 = 8" by code_simp
  have "\<not> heap_full 8 demo" by (simp add: heap_full_def r demo_queues config)
  moreover have "OSEventAllocated (BRTOS_Sem_Table demo 0) \<noteq> TRUE" by code_simp
  moreover have "0 < BRTOS_MAX_SEM" "0 < BRTOS_MAX_QUEUE" by (simp_all add: config)
  ultimately show ?thesis using demo_queues(2,3) unfolding room_for_serial_def demo_facts by (auto simp: line_conf_def)
qed

lemma OSDevOpen_serial_port_witness:
  "\<exists>h i s. OSDevOpen (Some 0) (Some 0) (demo, no_devices 10) = Some (Some h, s) \<and> serial_open h i (line_conf 10) s"
proof -
  have d: "digit 48" "\<exists>i < MAX_INSTALLED_DEVICES. \<not> entry_used (no_devices 10) i" "uart_conf_of (Some 0) (no_devices 10) = Some (line_conf 10)"
    by (simp_all add: digit_def tables_empty uart_conf_of_def) (auto simp: no_devices_def MAX_INSTALLED_DEVICES_def intro: exI [of _ 0])
  show ?thesis
    using OSDevOpen_serial_port [OF tables_empty(3) names(1) d(1) tables_empty(4) d(2,3) demo_room] by auto
qed

lemma line_caller: "caller_ok line_kernel"
proof -
  have "currentTask line_kernel = 2" "ContextTask line_kernel = ContextTask demo" by (simp_all add: line_kernel_def queue_demo_def demo_facts)
  then show ?thesis by (simp add: caller_ok_def demo_facts config)
qed

lemma OSDevRead_serial_witness:
  "(\<exists>k'. OSDevRead (\<lambda>_. 0) 0 3 (line_kernel, one_device NO_TIMEOUT) = Some (Bytes (Read [] k'), one_device NO_TIMEOUT)) \<and>
   (\<exists>t p k'. OSDevRead (\<lambda>_. 0) 0 3 (line_kernel, one_device 10) = Some (Bytes (Blocked t p 2 [] k'), one_device 10))"
proof
  have w: "timeout' (line_conf w) = w" for w by (simp add: line_conf_def)
  have n: "(10 :: u16) \<noteq> NO_TIMEOUT" by code_simp
  show "\<exists>k'. OSDevRead (\<lambda>_. 0) 0 3 (line_kernel, one_device NO_TIMEOUT) = Some (Bytes (Read [] k'), one_device NO_TIMEOUT)"
    using OSDevRead_serial [OF line_open(1) [of NO_TIMEOUT], of 3 "\<lambda>_. 0"] unfolding line_open(2) w by auto
  show "\<exists>t p k'. OSDevRead (\<lambda>_. 0) 0 3 (line_kernel, one_device 10) = Some (Bytes (Blocked t p 2 [] k'), one_device 10)"
    using OSDevRead_serial [OF line_open(1) [of 10], of 3 "\<lambda>_. 0"] line_caller n unfolding line_open(2) w by auto
qed

lemma serial_line_in_order_witness:
  "\<exists>s1 k2. sp.put_all [72, 105] (line_kernel, one_device 10) = Some s1 \<and>
     OSDevRead (\<lambda>_. 0) 0 2 s1 = Some (Bytes (Read [72, 105] k2), one_device 10)"
proof -
  have l: "length (queued line_kernel 0) + length [72 :: u8, 105] \<le> capacity line_kernel 0" "length [72 :: u8, 105] = 2"
    by (simp_all add: line_open)
  show ?thesis using serial_line_in_order [OF line_open(1) [of 10] l(1), of "\<lambda>_. 0"] unfolding line_open(2) l(2) list.size(3) add_0 append_Nil by blast
qed

end
