(* ===== verification/Spec2Isabelle.thy ===== *)
theory Spec2Isabelle
  imports System_Examples Calendar Timer_Examples Umm_Examples Dyn_Task_Examples Terminal_Examples OS_Info_Examples
    Device_Examples
begin

text \<open>
  A model of BRTOS, a preemptive real-time kernel for small processors, in the configuration of its
  Windows simulator (\<open>src/platforms/eclipse_mingw_win32\<close>).

  The kernel is one C translation unit of global state: task control blocks linked into a delay list,
  a word of ready and a word of blocked priorities, a vector from priorities to tasks, a tick counter,
  and tables of event control blocks. Tasks call services; a service that must wait changes the
  lists, requests a switch (\<open>ChangeContext\<close> in \<open>HAL.h\<close>) and leaves its critical section, where the switch
  interrupt is served; the tick interrupt calls \<open>OS_TICK_HANDLER\<close>, which ends the delays that are due.
  The scheduler picks the highest priority that is ready and not blocked.

  Theories, in the order of the code's layers:
  \<^item> \<open>Prelude\<close>: words as sets of bits, counters, the option monad (\<open>None\<close> is undefined behaviour of C).
  \<^item> \<open>Kernel_State\<close>: the control blocks and constants of \<open>BRTOS.h\<close>, the globals of \<open>BRTOS.c\<close> as the record
    \<open>kernel\<close>, pointers into tables as indices.
  \<^item> \<open>Scheduler\<close>: the decision tree \<open>SAScheduler\<close> and \<open>OSSchedule\<close>; it finds the highest bit.
  \<^item> \<open>Hal\<close>: critical sections, simulated interrupts and the start of \<open>HAL.c\<close>.
  \<^item> \<open>Delay_List\<close>: the two delay list macros, pointer by pointer, and their refinement of lists.
  \<^item> \<open>Timing\<close>, \<open>Delays\<close>: the tick counter, \<open>OSDelayTask\<close>, \<open>OS_TICK_HANDLER\<close>; a delay lasts its ticks.
  \<^item> \<open>Task_Manager\<close>, \<open>Task_Blocking\<close>, \<open>Startup\<close>: installation, blocking, initialisation and start of
    \<open>BRTOS.c\<close>; the kernel's invariant \<open>sys_ok\<close>; a running system \<open>demo\<close> on which properties are instantiated.
  \<^item> \<open>Events\<close>: the wait queues that all kinds of events share, as the locale \<open>wait_queue\<close> interpreted on
    the kernel's wait lists, and the blocks of code the event files repeat.
  \<^item> \<open>Semaphore\<close>, \<open>Mailbox\<close>, \<open>Mutex\<close>: \<open>semaphore.c\<close>, \<open>mbox.c\<close> and \<open>mutex.c\<close>, every function, with the
    abstract semaphore and mailbox they implement.
  \<^item> \<open>Event_Examples\<close>: the properties of events instantiated on \<open>demo\<close>.
  \<^item> \<open>Ring\<close>, \<open>Queue\<close>, \<open>Queue_Examples\<close>: the ring buffers of \<open>queue.c\<close> in the static heap of queues as a
    refinement of lists, the queues of bytes, of 16 and of 32 bit values, and a waiting receiver.
  \<^item> \<open>Dispatcher\<close>, \<open>System\<close>, \<open>System_Examples\<close>: one turn of each thread of \<open>HAL.c\<close> (interrupts and
    dispatch, tick timer, serial port), and the running system as a step relation between tasks that
    delay, pend and post, ticks and dispatches, with the invariant of its reachable states.
  \<^item> \<open>Calendar\<close>: \<open>OSTime.c\<close>, uptime and the calendar, against a count of days of the civil calendar.
  \<^item> \<open>Binary_Heap\<close>, \<open>Soft_Timers\<close>, \<open>Timer_Service\<close>, \<open>Timer_Examples\<close>: the timers of \<open>stimer.c\<close>, their two
    heaps ordered by the instant of expiry and the timer task, with callbacks as a parameter.
  \<^item> \<open>Chains\<close>, \<open>Umm_Layout\<close>, \<open>Umm_Malloc\<close>, \<open>Umm_Heap\<close>, \<open>Umm_Alloc\<close>, \<open>Umm_Info\<close>: \<open>umm_malloc.c\<close> block by block,
    and the heap it keeps: a chain of adjacent blocks, used or free, no two free ones side by side, the
    free ones also on a doubly linked list. \<open>Allocator\<close> states what a client relies on as the locale
    \<open>allocator\<close>; \<open>Umm_Service\<close> interprets it on the code's operations; \<open>Umm_Examples\<close> runs them.
  \<^item> \<open>Dyn_Queue\<close>, \<open>Dyn_Queue_Laws\<close>, \<open>Dyn_Queue_Service\<close>, \<open>Dyn_Queue_Examples\<close>: the dynamic queues of \<open>queue.c\<close>,
    whose control blocks and buffers come from the allocator; nothing leaks and queues stay apart.
  \<^item> \<open>Dyn_Tasks\<close>, \<open>Dyn_Task_Laws\<close>, \<open>Dyn_Task_Service\<close>, \<open>Dyn_Task_Examples\<close>: \<open>OSInstallTask\<close> and \<open>OSUninstallTask\<close> of
    a build with dynamic tasks; stacks in the same heap as the dynamic queues.
  \<^item> \<open>C_Strings\<close>, \<open>String_Laws\<close>: the functions of \<open>string_lib.c\<close> on a memory of bytes, and what they do to the
    strings that stand in it.
  \<^item> \<open>Terminal\<close>, \<open>Terminal_Laws\<close>, \<open>Terminal_Session\<close>, \<open>Terminal_Typing\<close>, \<open>Terminal_Examples\<close>: the command line of
    \<open>terminal.c\<close>, character by character: the buffers and their indices, the words of a line, the search for the
    command, commands added at run time; the functions of the commands are a parameter.
  \<^item> \<open>OS_Info\<close>, \<open>OS_Info_Laws\<close>, \<open>OS_Info_Reports\<close>, \<open>OS_Info_Examples\<close>: \<open>OSInfo.c\<close>, the texts it writes about tasks,
    memory, uptime and load; the stack column against the least place from which the stack is unused.
  \<^item> \<open>Drivers\<close>, \<open>Devices\<close>, \<open>Device_Laws\<close>, \<open>Device_Examples\<close>: the table of devices of \<open>device.c\<close> and the drivers the
    simulator installs in it (\<open>UARTx.c\<close>, \<open>GPIOx.c\<close>, \<open>ADCx.c\<close>, \<open>PWMx.c\<close>): which names it finds, opens and
    refuses, and the serial port, from the interrupt to the task that reads, as a bounded queue (locale \<open>fifo\<close>).

  What an operation answers is stated apart from its code: the conditions of an installation as a list in the order
  of their precedence (\<open>install_answer\<close>, \<open>dinstall_answer\<close>), the months by the civil rule (\<open>month_days\<close>), the calls a
  pass of the timer task makes as the sequence of timers and answers (\<open>calls_made\<close>).

  Bounds and fuel: the walk of the tick handler over the delay list is given as many steps as there
  are task control blocks plus one; a list of the invariant has no more distinct entries. The loops of
  the timer task are partial functions that need not end; for callbacks that return they are proved to
  end. The searches of the allocator (\<open>first_fit\<close>, \<open>info_loop\<close>) and of the delay list (\<open>delay_search\<close>) follow
  links and are partial functions too, proved to end on the heaps and lists of the invariants. All other
  loops are structural or have a measure.

  Not modelled: Windows behind the simulated interrupts (threads, mutexes, console; the samples of the
  converter, a sine of the host's clock in floating point, are a parameter), the drivers no name opens
  (\<open>DACx.c\<close>, \<open>I2Cx.c\<close>, \<open>SPIx.c\<close>), the libraries for numbers, dates, printing and random numbers under
  \<open>src/libs\<close>, the vendored stacks (LwIP, FatFS), graphics and the ports for other processors.
\<close>

end
